(* ===== verification/Prelude.thy ===== *)
theory Prelude
  imports Main "HOL-Library.Word"
begin

unbundle bit_operations_syntax

text \<open>
  Shared vocabulary of the development: the machine types of
  \<^verbatim>\<open>kernel/src/lib/def.h\<close>, the rounding macros of \<^verbatim>\<open>kernel/src/lib/math.h\<close>, the address
  constants of \<^verbatim>\<open>kernel/src/arch/types.h\<close>, the result type in which every panic, failed
  assertion and invalid memory access of the C code is a value, and the generic lemmas on
  words, lists and function updates the component theories use.
\<close>

section \<open>Machine types\<close>

type_synonym u8 = "8 word"
type_synonym u16 = "16 word"
type_synonym u32 = "32 word"
type_synonym u64 = "64 word"
type_synonym uptr = "64 word"

definition KIB :: u64 where "KIB = 1024"
definition MIB :: u64 where "MIB = KIB * 1024"
definition GIB :: u64 where "GIB = MIB * 1024"
definition BAD_ADDRESS :: uptr where "BAD_ADDRESS = - 1"

section \<open>Rounding macros\<close>

definition CEIL :: "u64 \<Rightarrow> u64 \<Rightarrow> u64" where
  "CEIL v g = (v + g - 1) div g * g"

definition FLOOR :: "u64 \<Rightarrow> u64 \<Rightarrow> u64" where
  "FLOOR v g = v div g * g"

definition MIN_c :: "u64 \<Rightarrow> u64 \<Rightarrow> u64" where
  "MIN_c a b = (if a < b then a else b)"

definition MAX_c :: "u64 \<Rightarrow> u64 \<Rightarrow> u64" where
  "MAX_c a b = (if a > b then a else b)"

section \<open>Address-space constants\<close>

definition ARCH_KERNEL_MIN_VIRT :: uptr where "ARCH_KERNEL_MIN_VIRT = 0xFFFF800000000000"
definition ARCH_KERNEL_MAX_VIRT :: uptr where "ARCH_KERNEL_MAX_VIRT = 0xFFFFFFFFFFFFFFFF"
definition ARCH_USER_MIN_VIRT :: uptr where "ARCH_USER_MIN_VIRT = 0x0000000000000000"
definition ARCH_USER_MAX_VIRT :: uptr where "ARCH_USER_MAX_VIRT = 0x00007FFFFFFFFFFF"
definition ARCH_PAGE_SIZE_4K :: u64 where "ARCH_PAGE_SIZE_4K = 0x1000"
definition ARCH_PAGE_GRAN :: u64 where "ARCH_PAGE_GRAN = ARCH_PAGE_SIZE_4K"

section \<open>Faults as values\<close>

text \<open>
  A C call either returns or ends in one of the ways below: a failed \<^verbatim>\<open>ASSERT\<close>, a call of
  \<^verbatim>\<open>panic\<close>, a dereference of \<^verbatim>\<open>NULL\<close>, an access outside an array or buffer, or another
  operation C leaves undefined (an uninitialised variable, a shift by the width or more, a
  division by zero).  A loop that may not end is an \<open>option\<close> around such a result.
\<close>

datatype fault = AssertFailed | Panic | NullDeref | OutOfBounds | Undefined

type_synonym 'a res = "fault + 'a"

definition rbind :: "'a res \<Rightarrow> ('a \<Rightarrow> 'b res) \<Rightarrow> 'b res" where
  "rbind m f = (case m of Inl e \<Rightarrow> Inl e | Inr x \<Rightarrow> f x)"

definition assert_c :: "bool \<Rightarrow> unit res" where
  "assert_c b = (if b then Inr () else Inl AssertFailed)"

definition deref :: "'n option \<Rightarrow> 'n res" where
  "deref p = (case p of None \<Rightarrow> Inl NullDeref | Some x \<Rightarrow> Inr x)"

lemma rbind_simps [simp]:
  "rbind (Inl e) f = Inl e" "rbind (Inr x) f = f x"
  by (simp_all add: rbind_def)

lemma rbind_eq_Inr [simp]:
  "rbind m f = Inr y \<longleftrightarrow> (\<exists>x. m = Inr x \<and> f x = Inr y)"
  by (cases m) auto

lemma rbind_cong [fundef_cong]:
  "m = m' \<Longrightarrow> (\<And>x. m' = Inr x \<Longrightarrow> f x = g x) \<Longrightarrow> rbind m f = rbind m' g"
  by (cases m') auto

lemma assert_c_simps [simp]:
  "assert_c True = Inr ()" "assert_c False = Inl AssertFailed"
  "assert_c b = Inr u \<longleftrightarrow> b"
  by (auto simp: assert_c_def)

lemma deref_simps [simp]:
  "deref None = Inl NullDeref" "deref (Some x) = Inr x"
  "deref p = Inr x \<longleftrightarrow> p = Some x"
  by (auto simp: deref_def split: option.splits)

text \<open>A loop over a list whose body may fault.\<close>

fun for_each :: "('s \<Rightarrow> 'a \<Rightarrow> 's res) \<Rightarrow> 'a list \<Rightarrow> 's \<Rightarrow> 's res" where
  "for_each f [] s = Inr s"
| "for_each f (x # xs) s = rbind (f s x) (for_each f xs)"

lemma for_each_append [simp]: "for_each f (xs @ ys) s = rbind (for_each f xs s) (for_each f ys)"
proof (induction xs arbitrary: s)
  case (Cons x xs)
  then show ?case by (cases "f s x") auto
qed simp

section \<open>Words\<close>

named_theorems word_nat \<open>moving word arithmetic to natural numbers\<close>

lemma unat_add_nowrap:
  fixes a b :: "'a::len word"
  assumes "unat a + unat b < 2 ^ LENGTH('a)"
  shows "unat (a + b) = unat a + unat b"
  using assms by (simp add: unat_word_ariths)

lemma unat_sub_nowrap:
  fixes a b :: "'a::len word"
  assumes "b \<le> a"
  shows "unat (a - b) = unat a - unat b"
  using assms by (rule unat_sub)

lemma unat_mult_nowrap:
  fixes a b :: "'a::len word"
  assumes "unat a * unat b < 2 ^ LENGTH('a)"
  shows "unat (a * b) = unat a * unat b"
  using assms by (simp add: unat_word_ariths)

lemma unat_of_nat_small:
  assumes "n < 2 ^ LENGTH('a)"
  shows "unat (of_nat n :: 'a::len word) = n"
  using assms by (simp add: unat_of_nat)

lemma of_nat_eq_0_small:
  assumes "n < 2 ^ LENGTH('a)"
  shows "(of_nat n :: 'a::len word) = 0 \<longleftrightarrow> n = 0"
proof -
  have "(of_nat n :: 'a word) = 0 \<longleftrightarrow> unat (of_nat n :: 'a word) = 0"
    by (simp only: unat_eq_zero)
  then show ?thesis
    by (simp only: unat_of_nat_small [OF assms])
qed

text \<open>A C \<^verbatim>\<open>int\<close> that is not negative.\<close>

lemma sint_small:
  assumes "unat (w :: u32) < 2 ^ 31"
  shows "sint w = int (unat w)"
proof -
  have "int (unat w) < int (2 ^ 31)" using assms by (simp only: of_nat_less_iff)
  then have "int (unat w) < 2 ^ 31" by (simp only: of_nat_power of_nat_numeral)
  then have "signed_take_bit 31 (int (unat w)) = int (unat w)" by (intro signed_take_bit_int_eq_self) linarith+
  moreover have "sint w = signed_take_bit 31 (uint w)" by (simp add: sint_uint)
  ultimately show ?thesis by (simp only: uint_nat)
qed

end
