(* ===== verification/Klist.thy ===== *)
theory Klist
  imports Prelude
begin

text \<open>
  The intrusive doubly linked list of \<^verbatim>\<open>kernel/src/lib/list.c\<close> and \<^verbatim>\<open>list.h\<close>.  Nodes are
  identified by values of a type \<open>'n\<close> (the containers they are embedded in), a pointer is an
  \<open>'n option\<close> with \<open>None\<close> for \<^verbatim>\<open>NULL\<close>, and the memory of the nodes is a function from
  identifiers to node records.  The first part translates the operations assignment by
  assignment; the second part relates a header and its nodes to a HOL list and proves that every
  operation implements its list counterpart and leaves the nodes of other lists alone.  The
  locale \<open>node_list\<close> is the contract the kernel's queues rely on.
\<close>

section \<open>Data\<close>

record 'n list_node =
  ln_prev :: "'n option"
  ln_next :: "'n option"

record 'n list_t =
  l_length :: u64
  l_head :: "'n option"
  l_tail :: "'n option"

type_synonym 'n nodes = "'n \<Rightarrow> 'n list_node"

definition LIST_NODE_INIT :: "'n list_node" where
  "LIST_NODE_INIT = \<lparr>ln_prev = None, ln_next = None\<rparr>"

definition LIST_INIT :: "'n list_t" where
  "LIST_INIT = \<lparr>l_length = 0, l_head = None, l_tail = None\<rparr>"

definition LIST_FIRST :: "'n list_t \<Rightarrow> 'n option" where "LIST_FIRST l = l_head l"
definition LIST_LAST :: "'n list_t \<Rightarrow> 'n option" where "LIST_LAST l = l_tail l"

text \<open>Assignments to a field of one node.\<close>

definition set_prev :: "'n nodes \<Rightarrow> 'n \<Rightarrow> 'n option \<Rightarrow> 'n nodes" where
  "set_prev h n v = h(n := (h n)\<lparr>ln_prev := v\<rparr>)"

definition set_next :: "'n nodes \<Rightarrow> 'n \<Rightarrow> 'n option \<Rightarrow> 'n nodes" where
  "set_next h n v = h(n := (h n)\<lparr>ln_next := v\<rparr>)"

section \<open>Operations\<close>

definition list_is_empty :: "'n list_t \<Rightarrow> bool res" where
  "list_is_empty l =
     rbind (assert_c (\<not> ((l_head l = None) \<noteq> (l_length l = 0))))
       (\<lambda>_. Inr (l_head l = None))"

definition list_insert_after ::
  "'n nodes \<Rightarrow> 'n list_t \<Rightarrow> 'n option \<Rightarrow> 'n \<Rightarrow> ('n nodes \<times> 'n list_t) res" where
  "list_insert_after h l pos new =
     (case pos of
        None \<Rightarrow>
          rbind (list_is_empty l) (\<lambda>e.
          rbind (assert_c e) (\<lambda>_.
            Inr (set_next (set_prev h new None) new None,
                 l\<lparr>l_head := Some new, l_tail := Some new, l_length := l_length l + 1\<rparr>)))
      | Some p \<Rightarrow>
          let h1 = set_prev h new (Some p);
              h2 = set_next h1 new (ln_next (h1 p));
              h3 = (case ln_next (h2 new) of None \<Rightarrow> h2 | Some q \<Rightarrow> set_prev h2 q (Some new));
              h4 = set_next h3 p (Some new);
              l1 = (if l_tail l = Some p then l\<lparr>l_tail := Some new\<rparr> else l)
          in Inr (h4, l1\<lparr>l_length := l_length l1 + 1\<rparr>))"

definition list_insert_before ::
  "'n nodes \<Rightarrow> 'n list_t \<Rightarrow> 'n option \<Rightarrow> 'n \<Rightarrow> ('n nodes \<times> 'n list_t) res" where
  "list_insert_before h l pos new =
     (case pos of
        None \<Rightarrow>
          rbind (list_is_empty l) (\<lambda>e.
          rbind (assert_c e) (\<lambda>_.
            Inr (set_next (set_prev h new None) new None,
                 l\<lparr>l_head := Some new, l_tail := Some new, l_length := l_length l + 1\<rparr>)))
      | Some p \<Rightarrow>
          let h1 = set_prev h new (ln_prev (h p));
              h2 = set_next h1 new (Some p);
              h3 = (case ln_prev (h2 new) of None \<Rightarrow> h2 | Some q \<Rightarrow> set_next h2 q (Some new));
              h4 = set_prev h3 p (Some new);
              l1 = (if l_head l = Some p then l\<lparr>l_head := Some new\<rparr> else l)
          in Inr (h4, l1\<lparr>l_length := l_length l1 + 1\<rparr>))"

definition list_append :: "'n nodes \<Rightarrow> 'n list_t \<Rightarrow> 'n \<Rightarrow> ('n nodes \<times> 'n list_t) res" where
  "list_append h l n = list_insert_after h l (l_tail l) n"

definition list_prepend :: "'n nodes \<Rightarrow> 'n list_t \<Rightarrow> 'n \<Rightarrow> ('n nodes \<times> 'n list_t) res" where
  "list_prepend h l n = list_insert_before h l (l_head l) n"

definition list_remove :: "'n nodes \<Rightarrow> 'n list_t \<Rightarrow> 'n option \<Rightarrow> ('n nodes \<times> 'n list_t) res" where
  "list_remove h l node =
     (case node of
        None \<Rightarrow> Inl AssertFailed
      | Some n \<Rightarrow>
          let h1 = (case ln_prev (h n) of None \<Rightarrow> h | Some p \<Rightarrow> set_next h p (ln_next (h n)));
              h2 = (case ln_next (h1 n) of None \<Rightarrow> h1 | Some q \<Rightarrow> set_prev h1 q (ln_prev (h1 n)));
              l1 = (if l_head l = Some n then l\<lparr>l_head := ln_next (h2 n)\<rparr> else l);
              l2 = (if l_tail l1 = Some n then l1\<lparr>l_tail := ln_prev (h2 n)\<rparr> else l1)
          in Inr (h2, l2\<lparr>l_length := l_length l2 - 1\<rparr>))"

definition list_pop_head :: "'n nodes \<Rightarrow> 'n list_t \<Rightarrow> ('n nodes \<times> 'n list_t \<times> 'n option) res" where
  "list_pop_head h l =
     (case l_head l of
        None \<Rightarrow> Inr (h, l, None)
      | Some n \<Rightarrow> rbind (list_remove h l (Some n)) (\<lambda>(h', l'). Inr (h', l', Some n)))"

definition list_pop_tail :: "'n nodes \<Rightarrow> 'n list_t \<Rightarrow> ('n nodes \<times> 'n list_t \<times> 'n option) res" where
  "list_pop_tail h l =
     (case l_tail l of
        None \<Rightarrow> Inr (h, l, None)
      | Some n \<Rightarrow> rbind (list_remove h l (Some n)) (\<lambda>(h', l'). Inr (h', l', Some n)))"

text \<open>
  \<^verbatim>\<open>FOREACH\<close> follows the \<^verbatim>\<open>next\<close> pointers from the head until \<^verbatim>\<open>NULL\<close>; on a cyclic chain it
  does not end, which is the value \<open>None\<close>.
\<close>

partial_function (option) foreach_from :: "'n nodes \<Rightarrow> 'n option \<Rightarrow> 'n list option" where
  "foreach_from h p =
     (case p of
        None \<Rightarrow> Some []
      | Some n \<Rightarrow> Option.bind (foreach_from h (ln_next (h n))) (\<lambda>ns. Some (n # ns)))"

definition FOREACH :: "'n nodes \<Rightarrow> 'n list_t \<Rightarrow> 'n list option" where
  "FOREACH h l = foreach_from h (l_head l)"

section \<open>Representation\<close>

definition first_of :: "'n list \<Rightarrow> 'n option \<Rightarrow> 'n option" where
  "first_of xs q = (case xs of [] \<Rightarrow> q | x # _ \<Rightarrow> Some x)"

definition last_of :: "'n list \<Rightarrow> 'n option \<Rightarrow> 'n option" where
  "last_of xs p = (if xs = [] then p else Some (last xs))"

text \<open>\<open>linked h p xs q\<close>: the nodes \<open>xs\<close> form a chain that comes from \<open>p\<close> and leads to \<open>q\<close>.\<close>

fun linked :: "'n nodes \<Rightarrow> 'n option \<Rightarrow> 'n list \<Rightarrow> 'n option \<Rightarrow> bool" where
  "linked h p [] q = True"
| "linked h p (x # xs) q =
     (ln_prev (h x) = p \<and> ln_next (h x) = first_of xs q \<and> linked h (Some x) xs q)"

definition list_rep :: "'n nodes \<Rightarrow> 'n list_t \<Rightarrow> 'n list \<Rightarrow> bool" where
  "list_rep h l xs \<longleftrightarrow>
     distinct xs \<and> length xs < 2 ^ 64 \<and> linked h None xs None \<and>
     l_length l = of_nat (length xs) \<and> l_head l = first_of xs None \<and> l_tail l = last_of xs None"

definition agree_off :: "'n set \<Rightarrow> 'n nodes \<Rightarrow> 'n nodes \<Rightarrow> bool" where
  "agree_off A h h' \<longleftrightarrow> (\<forall>n. n \<notin> A \<longrightarrow> h' n = h n)"

lemma first_of_simps [simp]:
  "first_of [] q = q" "first_of (x # xs) q = Some x"
  "first_of (xs @ ys) q = first_of xs (first_of ys q)"
  by (auto simp: first_of_def split: list.splits)

lemma last_of_simps [simp]:
  "last_of [] p = p" "last_of (xs @ [x]) p = Some x" "last_of (x # xs) p = last_of xs (Some x)"
  "last_of (xs @ ys) p = last_of ys (last_of xs p)"
  by (auto simp: last_of_def)

lemma linked_append [simp]:
  "linked h p (xs @ ys) q \<longleftrightarrow> linked h p xs (first_of ys q) \<and> linked h (last_of xs p) ys q"
  by (induction xs arbitrary: p) auto

lemma linked_cong:
  "(\<And>x. x \<in> set xs \<Longrightarrow> h' x = h x) \<Longrightarrow> linked h' p xs q = linked h p xs q"
  by (induction xs arbitrary: p) auto

lemma set_link_apply [simp]:
  "set_prev h n v x = (if x = n then (h n)\<lparr>ln_prev := v\<rparr> else h x)"
  "set_next h n v x = (if x = n then (h n)\<lparr>ln_next := v\<rparr> else h x)"
  by (simp_all add: set_prev_def set_next_def)

lemma linked_set_other [simp]:
  "n \<notin> set xs \<Longrightarrow> linked (set_prev h n v) p xs q = linked h p xs q"
  "n \<notin> set xs \<Longrightarrow> linked (set_next h n v) p xs q = linked h p xs q"
  by (auto intro!: linked_cong)

lemma list_rep_cong:
  "(\<And>x. x \<in> set xs \<Longrightarrow> h' x = h x) \<Longrightarrow> list_rep h l xs \<Longrightarrow> list_rep h' l xs"
  by (auto simp: list_rep_def cong: linked_cong)

lemma list_rep_agree_off:
  "agree_off A h h' \<Longrightarrow> A \<inter> set xs = {} \<Longrightarrow> list_rep h l xs \<Longrightarrow> list_rep h' l xs"
  by (rule list_rep_cong) (auto simp: agree_off_def)

lemma agree_off_refl [simp]: "agree_off A h h"
  by (simp add: agree_off_def)

lemma list_rep_Nil: "list_rep h LIST_INIT []"
  by (simp add: list_rep_def LIST_INIT_def)

lemma list_rep_head: "list_rep h l xs \<Longrightarrow> l_head l = first_of xs None"
  and list_rep_tail: "list_rep h l xs \<Longrightarrow> l_tail l = last_of xs None"
  and list_rep_distinct: "list_rep h l xs \<Longrightarrow> distinct xs"
  by (simp_all add: list_rep_def)

lemma list_rep_is_empty: "list_rep h l xs \<Longrightarrow> list_is_empty l = Inr (xs = [])"
  by (cases xs) (auto simp: list_rep_def list_is_empty_def of_nat_eq_0_small simp del: of_nat_Suc)

lemma last_of_eq_Some:
  "distinct (as @ p # bs) \<Longrightarrow> last_of (as @ p # bs) None = Some p \<longleftrightarrow> bs = []"
  by (auto simp: last_of_def)

lemma first_of_eq_Some:
  "distinct (as @ p # bs) \<Longrightarrow> first_of (as @ p # bs) None = Some p \<longleftrightarrow> as = []"
  by (cases as) auto

lemma list_insert_empty:
  assumes "list_rep h l []"
  shows "\<exists>h' l'. list_insert_after h l None n = Inr (h', l') \<and>
           list_insert_before h l None n = Inr (h', l') \<and>
           list_rep h' l' [n] \<and> agree_off {n} h h'"
  using assms list_rep_is_empty [OF assms]
  by (auto simp: list_insert_after_def list_insert_before_def list_rep_def agree_off_def)

lemma list_insert_after_rep:
  assumes rep: "list_rep h l (as @ p # bs)" and n: "n \<notin> set (as @ p # bs)"
    and len: "Suc (length (as @ p # bs)) < 2 ^ 64"
  shows "\<exists>h' l'. list_insert_after h l (Some p) n = Inr (h', l') \<and>
           list_rep h' l' (as @ p # n # bs) \<and> agree_off (set (as @ p # n # bs)) h h'"
  using rep n len last_of_eq_Some [OF list_rep_distinct [OF rep]] list_rep_tail [OF rep]
  by (cases bs) (auto simp: list_insert_after_def list_rep_def Let_def agree_off_def last_of_def)

lemma list_insert_before_rep:
  assumes rep: "list_rep h l (as @ p # bs)" and n: "n \<notin> set (as @ p # bs)"
    and len: "Suc (length (as @ p # bs)) < 2 ^ 64"
  shows "\<exists>h' l'. list_insert_before h l (Some p) n = Inr (h', l') \<and>
           list_rep h' l' (as @ n # p # bs) \<and> agree_off (set (as @ n # p # bs)) h h'"
  using rep n len first_of_eq_Some [OF list_rep_distinct [OF rep]] list_rep_head [OF rep]
  by (cases as rule: rev_cases)
    (auto simp: list_insert_before_def list_rep_def Let_def agree_off_def)

lemma list_remove_rep:
  assumes rep: "list_rep h l (as @ n # bs)"
  shows "\<exists>h' l'. list_remove h l (Some n) = Inr (h', l') \<and>
           list_rep h' l' (as @ bs) \<and> agree_off (set (as @ bs)) h h'"
  using rep last_of_eq_Some [OF list_rep_distinct [OF rep]] list_rep_tail [OF rep]
    first_of_eq_Some [OF list_rep_distinct [OF rep]] list_rep_head [OF rep]
  by (cases as rule: rev_cases; cases bs)
    (auto simp: list_remove_def list_rep_def Let_def agree_off_def last_of_def)

lemma list_append_rep:
  assumes rep: "list_rep h l xs" and n: "n \<notin> set xs" and len: "Suc (length xs) < 2 ^ 64"
  shows "\<exists>h' l'. list_append h l n = Inr (h', l') \<and> list_rep h' l' (xs @ [n]) \<and>
           agree_off (insert n (set xs)) h h'"
proof (cases xs rule: rev_cases)
  case Nil
  with rep show ?thesis
    using list_insert_empty [of h l n] by (auto simp: list_append_def list_rep_tail)
next
  case (snoc ys y)
  then have "l_tail l = Some y"
    using rep by (simp add: list_rep_tail)
  moreover have "insert n (insert y (set ys)) = insert y (insert n (set ys))"
    by auto
  ultimately show ?thesis
    using list_insert_after_rep [of h l ys y "[]" n] rep n len snoc by (simp add: list_append_def)
qed

lemma list_prepend_rep:
  assumes rep: "list_rep h l xs" and n: "n \<notin> set xs" and len: "Suc (length xs) < 2 ^ 64"
  shows "\<exists>h' l'. list_prepend h l n = Inr (h', l') \<and> list_rep h' l' (n # xs) \<and>
           agree_off (insert n (set xs)) h h'"
proof (cases xs)
  case Nil
  with rep show ?thesis
    using list_insert_empty [of h l n] by (auto simp: list_prepend_def list_rep_head)
next
  case (Cons y ys)
  then have "l_head l = Some y"
    using rep by (simp add: list_rep_head)
  then show ?thesis
    using list_insert_before_rep [of h l "[]" y ys n] rep n len Cons by (simp add: list_prepend_def)
qed

lemma list_pop_head_rep:
  assumes rep: "list_rep h l xs"
  shows "\<exists>h' l'. list_pop_head h l = Inr (h', l', first_of xs None) \<and> list_rep h' l' (tl xs) \<and>
           agree_off (set (tl xs)) h h'"
proof (cases xs)
  case Nil
  with rep show ?thesis
    by (simp add: list_pop_head_def list_rep_head)
next
  case (Cons y ys)
  then show ?thesis
    using list_remove_rep [of h l "[]" y ys] rep by (auto simp: list_pop_head_def list_rep_head)
qed

lemma list_pop_tail_rep:
  assumes rep: "list_rep h l xs"
  shows "\<exists>h' l'. list_pop_tail h l = Inr (h', l', last_of xs None) \<and> list_rep h' l' (butlast xs) \<and>
           agree_off (set (butlast xs)) h h'"
proof (cases xs rule: rev_cases)
  case Nil
  with rep show ?thesis
    by (simp add: list_pop_tail_def list_rep_tail)
next
  case (snoc ys y)
  then show ?thesis
    using list_remove_rep [of h l ys y "[]"] rep by (auto simp: list_pop_tail_def list_rep_tail)
qed

lemma foreach_from_linked:
  "linked h p xs None \<Longrightarrow> foreach_from h (first_of xs None) = Some xs"
proof (induction xs arbitrary: p)
  case Nil
  show ?case by (simp add: foreach_from.simps)
next
  case (Cons x xs)
  then show ?case by (subst foreach_from.simps) auto
qed

lemma FOREACH_rep: "list_rep h l xs \<Longrightarrow> FOREACH h l = Some xs"
  by (auto simp: FOREACH_def list_rep_def intro: foreach_from_linked)

section \<open>The contract of a queue of nodes\<close>

text \<open>
  What the users of \<^verbatim>\<open>list_t\<close> rely on: a representation relation, the effect of appending,
  removing, popping and testing for emptiness, and that an operation writes no node but those of
  the list it works on and the one it inserts.
\<close>

fun append_all :: "('h \<Rightarrow> 'l \<Rightarrow> 'n \<Rightarrow> ('h \<times> 'l) res) \<Rightarrow> 'h \<Rightarrow> 'l \<Rightarrow> 'n list \<Rightarrow> ('h \<times> 'l) res" where
  "append_all app h l [] = Inr (h, l)"
| "append_all app h l (n # ns) = rbind (app h l n) (\<lambda>(h', l'). append_all app h' l' ns)"

fun pop_many :: "('h \<Rightarrow> 'l \<Rightarrow> ('h \<times> 'l \<times> 'n option) res) \<Rightarrow> 'h \<Rightarrow> 'l \<Rightarrow> nat \<Rightarrow> 'n option list res" where
  "pop_many pop h l 0 = Inr []"
| "pop_many pop h l (Suc k) =
     rbind (pop h l) (\<lambda>(h', l', x). rbind (pop_many pop h' l' k) (\<lambda>xs. Inr (x # xs)))"

locale node_list =
  fixes rep :: "'h \<Rightarrow> 'l \<Rightarrow> 'n list \<Rightarrow> bool"
    and agree :: "'n set \<Rightarrow> 'h \<Rightarrow> 'h \<Rightarrow> bool"
    and is_empty :: "'l \<Rightarrow> bool res"
    and append :: "'h \<Rightarrow> 'l \<Rightarrow> 'n \<Rightarrow> ('h \<times> 'l) res"
    and remove :: "'h \<Rightarrow> 'l \<Rightarrow> 'n option \<Rightarrow> ('h \<times> 'l) res"
    and pop_head :: "'h \<Rightarrow> 'l \<Rightarrow> ('h \<times> 'l \<times> 'n option) res"
  assumes rep_distinct: "rep h l xs \<Longrightarrow> distinct xs"
    and rep_agree: "rep h l xs \<Longrightarrow> agree A h h' \<Longrightarrow> A \<inter> set xs = {} \<Longrightarrow> rep h' l xs"
    and is_empty_ok: "rep h l xs \<Longrightarrow> is_empty l = Inr (xs = [])"
    and append_ok: "rep h l xs \<Longrightarrow> n \<notin> set xs \<Longrightarrow> Suc (length xs) < 2 ^ 64 \<Longrightarrow>
      \<exists>h' l'. append h l n = Inr (h', l') \<and> rep h' l' (xs @ [n]) \<and> agree (insert n (set xs)) h h'"
    and remove_ok: "rep h l (as @ n # bs) \<Longrightarrow>
      \<exists>h' l'. remove h l (Some n) = Inr (h', l') \<and> rep h' l' (as @ bs) \<and> agree (set (as @ bs)) h h'"
    and pop_head_ok: "rep h l xs \<Longrightarrow>
      \<exists>h' l'. pop_head h l = Inr (h', l', first_of xs None) \<and> rep h' l' (tl xs) \<and> agree (set (tl xs)) h h'"
begin

lemma append_all_rep:
  assumes "rep h l xs" "distinct (xs @ ns)" "length (xs @ ns) < 2 ^ 64"
  shows "\<exists>h' l'. append_all append h l ns = Inr (h', l') \<and> rep h' l' (xs @ ns)"
  using assms
proof (induction ns arbitrary: h l xs)
  case Nil
  then show ?case by simp
next
  case (Cons n ns)
  then obtain h' l' where "append h l n = Inr (h', l')" "rep h' l' (xs @ [n])"
    using append_ok [of h l xs n] by auto
  then show ?case
    using Cons.IH [of h' l' "xs @ [n]"] Cons.prems by auto
qed

lemma pop_many_rep:
  "rep h l xs \<Longrightarrow> pop_many pop_head h l (length xs) = Inr (map Some xs)"
proof (induction xs arbitrary: h l)
  case Nil
  then show ?case by simp
next
  case (Cons x xs)
  then obtain h' l' where "pop_head h l = Inr (h', l', Some x)" "rep h' l' xs"
    using pop_head_ok [of h l "x # xs"] by auto
  then show ?case
    using Cons.IH [of h' l'] by simp
qed

lemma fifo:
  assumes "rep h l []" "distinct ns" "length ns < 2 ^ 64"
  shows "\<exists>h' l'. append_all append h l ns = Inr (h', l') \<and>
           pop_many pop_head h' l' (length ns) = Inr (map Some ns)"
  using append_all_rep [of h l "[]" ns] pop_many_rep assms by fastforce

text \<open>An operation on one list keeps every list with other nodes.\<close>

lemma append_keeps_other:
  assumes "rep h l xs" "n \<notin> set xs" "Suc (length xs) < 2 ^ 64"
    and "rep h k ys" "set ys \<inter> insert n (set xs) = {}"
  shows "\<exists>h' l'. append h l n = Inr (h', l') \<and> rep h' l' (xs @ [n]) \<and> rep h' k ys"
  using append_ok [OF assms(1-3)] rep_agree [OF assms(4)] assms(5) by (metis inf_commute)

lemma remove_keeps_other:
  assumes "rep h l (as @ n # bs)" "rep h k ys" "set ys \<inter> set (as @ bs) = {}"
  shows "\<exists>h' l'. remove h l (Some n) = Inr (h', l') \<and> rep h' l' (as @ bs) \<and> rep h' k ys"
  using remove_ok [OF assms(1)] rep_agree [OF assms(2)] assms(3) by (metis inf_commute)

end

interpretation klist: node_list list_rep agree_off list_is_empty list_append list_remove list_pop_head
  by unfold_locales
    (blast intro: list_rep_distinct list_rep_agree_off list_rep_is_empty list_append_rep
      list_remove_rep list_pop_head_rep)+

section \<open>Properties\<close>

text \<open>Appending any sequence of distinct nodes to an empty list and popping from the head gives
  the nodes back in the order in which they went in, with no assertion failing on the way.\<close>

theorem klist_fifo:
  assumes "distinct ns" "length ns < 2 ^ 64"
  shows "\<exists>h' l'. append_all list_append h LIST_INIT ns = Inr (h', l') \<and>
           pop_many list_pop_head h' l' (length ns) = Inr (map Some ns)"
  using assms by (intro klist.fifo) (simp_all add: list_rep_def LIST_INIT_def)

text \<open>Removing a node anywhere in a well-formed list leaves a well-formed list of the other nodes
  in their order, a traversal then visits exactly these, and no node outside the list is written.\<close>

theorem klist_remove:
  assumes "list_rep h l (as @ n # bs)"
  shows "\<exists>h' l'. list_remove h l (Some n) = Inr (h', l') \<and> list_rep h' l' (as @ bs) \<and>
           FOREACH h' l' = Some (as @ bs) \<and> (\<forall>m. m \<notin> set (as @ bs) \<longrightarrow> h' m = h m)"
  using list_remove_rep [OF assms] FOREACH_rep by (fastforce simp: agree_off_def)

end
