(* ===== verification/Rbtree.thy ===== *)
theory Rbtree
  imports Prelude
begin

text \<open>
  The red-black tree of \<^verbatim>\<open>kernel/src/lib/rbtree.c\<close> and \<^verbatim>\<open>rbtree.h\<close>, at the level of its
  pointers.  A state is the root pointer together with the memory of the nodes; each C function is
  translated statement by statement, with \<open>None\<close> for \<^verbatim>\<open>NULL\<close>, a dereference of \<^verbatim>\<open>NULL\<close> as a
  fault, and loops as partial functions whose value \<open>None\<close> means that they do not end.
\<close>

section \<open>Data\<close>

record 'n rbtree_node =
  rb_key :: u64
  rb_value :: uptr
  rb_parent :: "'n option"
  rb_left :: "'n option"
  rb_right :: "'n option"
  rb_red :: bool

record 'n rbtree_t =
  rb_root :: "'n option"
  rb_mem :: "'n \<Rightarrow> 'n rbtree_node"

definition RBTREE_NODE_INIT :: "'n rbtree_node" where
  "RBTREE_NODE_INIT =
     \<lparr>rb_key = 0, rb_value = 0, rb_parent = None, rb_left = None, rb_right = None, rb_red = False\<rparr>"

abbreviation key_of :: "'n rbtree_t \<Rightarrow> 'n \<Rightarrow> u64" where "key_of s x \<equiv> rb_key (rb_mem s x)"
abbreviation parent_of :: "'n rbtree_t \<Rightarrow> 'n \<Rightarrow> 'n option" where "parent_of s x \<equiv> rb_parent (rb_mem s x)"
abbreviation left_of :: "'n rbtree_t \<Rightarrow> 'n \<Rightarrow> 'n option" where "left_of s x \<equiv> rb_left (rb_mem s x)"
abbreviation right_of :: "'n rbtree_t \<Rightarrow> 'n \<Rightarrow> 'n option" where "right_of s x \<equiv> rb_right (rb_mem s x)"
abbreviation red_of :: "'n rbtree_t \<Rightarrow> 'n \<Rightarrow> bool" where "red_of s x \<equiv> rb_red (rb_mem s x)"

text \<open>Assignments to one field of one node.\<close>

definition rb_upd :: "'n rbtree_t \<Rightarrow> 'n \<Rightarrow> ('n rbtree_node \<Rightarrow> 'n rbtree_node) \<Rightarrow> 'n rbtree_t" where
  "rb_upd s x f = s\<lparr>rb_mem := (rb_mem s)(x := f (rb_mem s x))\<rparr>"

definition set_root :: "'n rbtree_t \<Rightarrow> 'n option \<Rightarrow> 'n rbtree_t" where
  "set_root s v = s\<lparr>rb_root := v\<rparr>"
definition set_parent :: "'n rbtree_t \<Rightarrow> 'n \<Rightarrow> 'n option \<Rightarrow> 'n rbtree_t" where
  "set_parent s x v = rb_upd s x (\<lambda>n. n\<lparr>rb_parent := v\<rparr>)"
definition set_left :: "'n rbtree_t \<Rightarrow> 'n \<Rightarrow> 'n option \<Rightarrow> 'n rbtree_t" where
  "set_left s x v = rb_upd s x (\<lambda>n. n\<lparr>rb_left := v\<rparr>)"
definition set_right :: "'n rbtree_t \<Rightarrow> 'n \<Rightarrow> 'n option \<Rightarrow> 'n rbtree_t" where
  "set_right s x v = rb_upd s x (\<lambda>n. n\<lparr>rb_right := v\<rparr>)"
definition set_red :: "'n rbtree_t \<Rightarrow> 'n \<Rightarrow> bool \<Rightarrow> 'n rbtree_t" where
  "set_red s x v = rb_upd s x (\<lambda>n. n\<lparr>rb_red := v\<rparr>)"

text \<open>Guarded accesses: \<^verbatim>\<open>if (p) p->f = v\<close> and \<^verbatim>\<open>p && p->red\<close>.\<close>

definition set_parent_if :: "'n rbtree_t \<Rightarrow> 'n option \<Rightarrow> 'n option \<Rightarrow> 'n rbtree_t" where
  "set_parent_if s p v = (case p of None \<Rightarrow> s | Some x \<Rightarrow> set_parent s x v)"
definition set_red_if :: "'n rbtree_t \<Rightarrow> 'n option \<Rightarrow> bool \<Rightarrow> 'n rbtree_t" where
  "set_red_if s p v = (case p of None \<Rightarrow> s | Some x \<Rightarrow> set_red s x v)"
definition is_red :: "'n rbtree_t \<Rightarrow> 'n option \<Rightarrow> bool" where
  "is_red s p = (case p of None \<Rightarrow> False | Some x \<Rightarrow> red_of s x)"

section \<open>Rotations and insertion\<close>

definition left_rotate :: "'n rbtree_t \<Rightarrow> 'n \<Rightarrow> 'n rbtree_t res" where
  "left_rotate s x =
     rbind (deref (right_of s x)) (\<lambda>y.
       let s1 = set_right s x (left_of s y);
           s2 = set_parent_if s1 (left_of s1 y) (Some x);
           s3 = set_parent s2 y (parent_of s2 x);
           s4 = (case parent_of s3 x of
                   None \<Rightarrow> set_root s3 (Some y)
                 | Some p \<Rightarrow> if left_of s3 p = Some x then set_left s3 p (Some y)
                            else set_right s3 p (Some y));
           s5 = set_left s4 y (Some x)
       in Inr (set_parent s5 x (Some y)))"

definition right_rotate :: "'n rbtree_t \<Rightarrow> 'n \<Rightarrow> 'n rbtree_t res" where
  "right_rotate s x =
     rbind (deref (left_of s x)) (\<lambda>y.
       let s1 = set_left s x (right_of s y);
           s2 = set_parent_if s1 (right_of s1 y) (Some x);
           s3 = set_parent s2 y (parent_of s2 x);
           s4 = (case parent_of s3 x of
                   None \<Rightarrow> set_root s3 (Some y)
                 | Some p \<Rightarrow> if right_of s3 p = Some x then set_right s3 p (Some y)
                            else set_left s3 p (Some y));
           s5 = set_right s4 y (Some x)
       in Inr (set_parent s5 x (Some y)))"

text \<open>One iteration of the loop of \<^verbatim>\<open>fix_insert\<close>, with the new state and the new \<^verbatim>\<open>z\<close>.\<close>

definition fix_insert_body :: "'n rbtree_t \<Rightarrow> 'n \<Rightarrow> 'n \<Rightarrow> 'n \<Rightarrow> ('n rbtree_t \<times> 'n) res" where
  "fix_insert_body s z p gp =
     (if left_of s gp = Some p then
        let y = right_of s gp in
        if is_red s y then
          Inr (set_red (set_red_if (set_red s p False) y False) gp True, gp)
        else
          rbind (if right_of s p = Some z
                 then rbind (left_rotate s p) (\<lambda>s'. Inr (s', p)) else Inr (s, z)) (\<lambda>(s1, z1).
          rbind (deref (parent_of s1 z1)) (\<lambda>p1.
          rbind (right_rotate (set_red (set_red s1 p1 False) gp True) gp) (\<lambda>s2. Inr (s2, z1))))
      else
        let y = left_of s gp in
        if is_red s y then
          Inr (set_red (set_red_if (set_red s p False) y False) gp True, gp)
        else
          rbind (if left_of s p = Some z
                 then rbind (right_rotate s p) (\<lambda>s'. Inr (s', p)) else Inr (s, z)) (\<lambda>(s1, z1).
          rbind (deref (parent_of s1 z1)) (\<lambda>p1.
          rbind (left_rotate (set_red (set_red s1 p1 False) gp True) gp) (\<lambda>s2. Inr (s2, z1)))))"

partial_function (option) fix_insert_loop :: "'n rbtree_t \<Rightarrow> 'n \<Rightarrow> 'n rbtree_t res option" where
  "fix_insert_loop s z =
     (case parent_of s z of
        None \<Rightarrow> Some (Inr s)
      | Some p \<Rightarrow>
          if \<not> red_of s p then Some (Inr s)
          else (case parent_of s p of
                  None \<Rightarrow> Some (Inr s)
                | Some gp \<Rightarrow>
                    (case fix_insert_body s z p gp of
                       Inl e \<Rightarrow> Some (Inl e)
                     | Inr r \<Rightarrow> fix_insert_loop (fst r) (snd r))))"

definition fix_insert :: "'n rbtree_t \<Rightarrow> 'n \<Rightarrow> 'n rbtree_t res option" where
  "fix_insert s z =
     Option.bind (fix_insert_loop s z) (\<lambda>r.
       Some (rbind r (\<lambda>s'. Inr (set_red_if s' (rb_root s') False))))"

partial_function (option) tree_min :: "'n rbtree_t \<Rightarrow> 'n option \<Rightarrow> 'n option option" where
  "tree_min s x =
     (case x of
        None \<Rightarrow> Some None
      | Some n \<Rightarrow> (case left_of s n of None \<Rightarrow> Some (Some n) | Some l \<Rightarrow> tree_min s (Some l)))"

definition transplant :: "'n rbtree_t \<Rightarrow> 'n \<Rightarrow> 'n option \<Rightarrow> 'n rbtree_t" where
  "transplant s u v =
     (let s1 = (case parent_of s u of
                  None \<Rightarrow> set_root s v
                | Some p \<Rightarrow> if left_of s p = Some u then set_left s p v else set_right s p v)
      in set_parent_if s1 v (parent_of s1 u))"

partial_function (option) rb_find_from :: "'n rbtree_t \<Rightarrow> u64 \<Rightarrow> 'n option \<Rightarrow> 'n option option" where
  "rb_find_from s key n =
     (case n of
        None \<Rightarrow> Some None
      | Some x \<Rightarrow>
          if key = key_of s x then Some (Some x)
          else if key < key_of s x then rb_find_from s key (left_of s x)
          else rb_find_from s key (right_of s x))"

definition rb_find :: "'n rbtree_t \<Rightarrow> u64 \<Rightarrow> 'n option option" where
  "rb_find s key = rb_find_from s key (rb_root s)"

text \<open>The descent of \<^verbatim>\<open>rb_insert\<close>: \<open>Inl ()\<close> when the key is found, \<open>Inr y\<close> the last node seen.\<close>

partial_function (option) rb_insert_descend ::
  "'n rbtree_t \<Rightarrow> u64 \<Rightarrow> 'n option \<Rightarrow> 'n option \<Rightarrow> (unit + 'n option) option" where
  "rb_insert_descend s key y x =
     (case x of
        None \<Rightarrow> Some (Inr y)
      | Some n \<Rightarrow>
          if key = key_of s n then Some (Inl ())
          else if key < key_of s n then rb_insert_descend s key (Some n) (left_of s n)
          else rb_insert_descend s key (Some n) (right_of s n))"

definition rb_insert :: "'n rbtree_t \<Rightarrow> 'n \<Rightarrow> ('n rbtree_t \<times> bool) res option" where
  "rb_insert s z =
     Option.bind (rb_insert_descend s (key_of s z) None (rb_root s)) (\<lambda>d.
       case d of
         Inl _ \<Rightarrow> Some (Inr (s, False))
       | Inr y \<Rightarrow>
           let s1 = set_red (set_right (set_left (set_parent s z y) z None) z None) z True;
               s2 = (case y of
                       None \<Rightarrow> set_root s1 (Some z)
                     | Some p \<Rightarrow> if key_of s1 z < key_of s1 p then set_left s1 p (Some z)
                                else set_right s1 p (Some z))
           in Option.bind (fix_insert s2 z) (\<lambda>r. Some (rbind r (\<lambda>s'. Inr (s', True)))))"

section \<open>Removal\<close>

text \<open>
  One iteration of the loop of \<^verbatim>\<open>rb_remove\<close>, for \<^verbatim>\<open>x_parent\<close> non-null: first the rotation
  that a red sibling \<^verbatim>\<open>w\<close> causes, then the cases of a black sibling.  The result is the new state,
  the new \<^verbatim>\<open>x\<close> and \<^verbatim>\<open>x_parent\<close>, and whether the iteration ends in \<^verbatim>\<open>break\<close>.
\<close>

definition fix_remove_left_red :: "'n rbtree_t \<Rightarrow> 'n \<Rightarrow> ('n rbtree_t \<times> 'n option) res" where
  "fix_remove_left_red s xp =
     (case right_of s xp of
        Some w \<Rightarrow> if red_of s w
                  then rbind (left_rotate (set_red (set_red s w False) xp True) xp)
                         (\<lambda>s'. Inr (s', right_of s' xp))
                  else Inr (s, Some w)
      | None \<Rightarrow> Inr (s, None))"

definition fix_remove_left_black ::
  "'n rbtree_t \<Rightarrow> 'n \<Rightarrow> 'n \<Rightarrow> ('n rbtree_t \<times> 'n option \<times> 'n option \<times> bool) res" where
  "fix_remove_left_black s1 xp w =
     (if \<not> is_red s1 (left_of s1 w) \<and> \<not> is_red s1 (right_of s1 w) then
        let s2 = set_red s1 w True in Inr (s2, Some xp, parent_of s2 xp, False)
      else
        rbind (if \<not> is_red s1 (right_of s1 w)
               then rbind (right_rotate (set_red (set_red_if s1 (left_of s1 w) False) w True) w)
                      (\<lambda>s'. Inr (s', right_of s' xp))
               else Inr (s1, Some w)) (\<lambda>(s2, wp2).
          let s3 = set_red_if s2 wp2 (red_of s2 xp);
              s4 = set_red s3 xp False;
              s5 = (case wp2 of None \<Rightarrow> s4 | Some w2 \<Rightarrow> set_red_if s4 (right_of s4 w2) False)
          in rbind (left_rotate s5 xp) (\<lambda>s6. Inr (s6, rb_root s6, Some xp, True))))"

definition fix_remove_left ::
  "'n rbtree_t \<Rightarrow> 'n \<Rightarrow> ('n rbtree_t \<times> 'n option \<times> 'n option \<times> bool) res" where
  "fix_remove_left s xp =
     rbind (fix_remove_left_red s xp) (\<lambda>(s1, wp).
     rbind (deref wp) (\<lambda>w. fix_remove_left_black s1 xp w))"

definition fix_remove_right_red :: "'n rbtree_t \<Rightarrow> 'n \<Rightarrow> ('n rbtree_t \<times> 'n option) res" where
  "fix_remove_right_red s xp =
     (case left_of s xp of
        Some w \<Rightarrow> if red_of s w
                  then rbind (right_rotate (set_red (set_red s w False) xp True) xp)
                         (\<lambda>s'. Inr (s', left_of s' xp))
                  else Inr (s, Some w)
      | None \<Rightarrow> Inr (s, None))"

definition fix_remove_right_black ::
  "'n rbtree_t \<Rightarrow> 'n \<Rightarrow> 'n \<Rightarrow> ('n rbtree_t \<times> 'n option \<times> 'n option \<times> bool) res" where
  "fix_remove_right_black s1 xp w =
     (if \<not> is_red s1 (left_of s1 w) \<and> \<not> is_red s1 (right_of s1 w) then
        let s2 = set_red s1 w True in Inr (s2, Some xp, parent_of s2 xp, False)
      else
        rbind (if \<not> is_red s1 (left_of s1 w)
               then rbind (left_rotate (set_red (set_red_if s1 (right_of s1 w) False) w True) w)
                      (\<lambda>s'. Inr (s', left_of s' xp))
               else Inr (s1, Some w)) (\<lambda>(s2, wp2).
          let s3 = set_red_if s2 wp2 (red_of s2 xp);
              s4 = set_red s3 xp False;
              s5 = (case wp2 of None \<Rightarrow> s4 | Some w2 \<Rightarrow> set_red_if s4 (left_of s4 w2) False)
          in rbind (right_rotate s5 xp) (\<lambda>s6. Inr (s6, rb_root s6, Some xp, True))))"

definition fix_remove_right ::
  "'n rbtree_t \<Rightarrow> 'n \<Rightarrow> ('n rbtree_t \<times> 'n option \<times> 'n option \<times> bool) res" where
  "fix_remove_right s xp =
     rbind (fix_remove_right_red s xp) (\<lambda>(s1, wp).
     rbind (deref wp) (\<lambda>w. fix_remove_right_black s1 xp w))"

partial_function (option) fix_remove_loop ::
  "'n rbtree_t \<Rightarrow> 'n option \<Rightarrow> 'n option \<Rightarrow> ('n rbtree_t \<times> 'n option) res option" where
  "fix_remove_loop s x xp =
     (if x \<noteq> rb_root s \<and> \<not> is_red s x then
        (case xp of
           None \<Rightarrow> Some (Inr (s, x))
         | Some p \<Rightarrow>
             (case (if x = left_of s p then fix_remove_left s p else fix_remove_right s p) of
                Inl e \<Rightarrow> Some (Inl e)
              | Inr r \<Rightarrow>
                  if snd (snd (snd r)) then Some (Inr (fst r, fst (snd r)))
                  else fix_remove_loop (fst r) (fst (snd r)) (fst (snd (snd r)))))
      else Some (Inr (s, x)))"

definition fix_remove :: "'n rbtree_t \<Rightarrow> 'n option \<Rightarrow> 'n option \<Rightarrow> 'n rbtree_t res option" where
  "fix_remove s x xp =
     Option.bind (fix_remove_loop s x xp) (\<lambda>q.
       Some (rbind q (\<lambda>(s2, x2). Inr (set_red_if s2 x2 False))))"

text \<open>
  The first half of \<^verbatim>\<open>rb_remove\<close>: splice \<^verbatim>\<open>z\<close> out, giving the state, \<^verbatim>\<open>x\<close>, \<^verbatim>\<open>x_parent\<close>
  and \<^verbatim>\<open>y_original_red\<close>.
\<close>

definition rb_splice ::
  "'n rbtree_t \<Rightarrow> 'n \<Rightarrow> ('n rbtree_t \<times> 'n option \<times> 'n option \<times> bool) res option" where
  "rb_splice s z =
     (if left_of s z = None then
        Some (Inr (transplant s z (right_of s z), right_of s z, parent_of s z, red_of s z))
      else if right_of s z = None then
        Some (Inr (transplant s z (left_of s z), left_of s z, parent_of s z, red_of s z))
      else
        Option.bind (tree_min s (right_of s z)) (\<lambda>yp.
          Some (rbind (deref yp) (\<lambda>y.
            let y_red = red_of s y;
                x = right_of s y;
                (s1, xp) =
                  (if parent_of s y = Some z
                   then (set_parent_if s x (Some y), Some y)
                   else let t1 = transplant s y (right_of s y);
                            t2 = set_right t1 y (right_of t1 z);
                            t3 = set_parent_if t2 (right_of t2 y) (Some y)
                        in (t3, parent_of t3 y));
                s2 = transplant s1 z (Some y);
                s3 = set_left s2 y (left_of s2 z);
                s4 = set_parent_if s3 (left_of s3 y) (Some y);
                s5 = set_red s4 y (red_of s4 z)
            in Inr (s5, x, xp, y_red)))))"

definition rb_remove :: "'n rbtree_t \<Rightarrow> u64 \<Rightarrow> ('n rbtree_t \<times> 'n option) res option" where
  "rb_remove s key =
     Option.bind (rb_find s key) (\<lambda>zp.
       case zp of
         None \<Rightarrow> Some (Inr (s, None))
       | Some z \<Rightarrow>
           Option.bind (rb_splice s z) (\<lambda>r.
             case r of
               Inl e \<Rightarrow> Some (Inl e)
             | Inr (s1, x, xp, y_red) \<Rightarrow>
                 Option.bind
                   (if \<not> y_red then fix_remove s1 x xp else Some (Inr s1))
                   (\<lambda>q. Some (rbind q (\<lambda>s3.
                      Inr (set_red (set_right (set_left (set_parent s3 z None) z None) z None) z False,
                           Some z))))))"

section \<open>Traversal\<close>

definition rb_first :: "'n rbtree_t \<Rightarrow> 'n option option" where
  "rb_first s = tree_min s (rb_root s)"

partial_function (option) rb_next_up :: "'n rbtree_t \<Rightarrow> 'n \<Rightarrow> 'n option \<Rightarrow> 'n option option" where
  "rb_next_up s n p =
     (case p of
        None \<Rightarrow> Some None
      | Some q \<Rightarrow> if right_of s q = Some n then rb_next_up s q (parent_of s q) else Some (Some q))"

definition rb_next :: "'n rbtree_t \<Rightarrow> 'n option \<Rightarrow> 'n option option" where
  "rb_next s np =
     (case np of
        None \<Rightarrow> Some None
      | Some n \<Rightarrow>
          if right_of s n \<noteq> None then tree_min s (right_of s n)
          else rb_next_up s n (parent_of s n))"

end
