(* ===== verification/Rb_Shape.thy ===== *)
theory Rb_Shape
  imports Prelude
begin

text \<open>
  The abstract trees the pointer structure of \<^verbatim>\<open>rbtree.c\<close> stands for: binary trees whose nodes
  carry an identifier, a key and a colour, contexts (a path from a hole up to the root with the
  subtrees hanging off it), the red-black invariants of a tree and of a context, and the search
  order.  Nothing here mentions pointers; the fix-up loops of insertion and removal move along a
  context, so the invariants of a whole tree are split between a context and the tree in its hole.
\<close>

section \<open>Trees and contexts\<close>

datatype 'n shape = Lf | Nd "'n shape" 'n u64 bool "'n shape"

datatype dir = DL | DR

datatype 'n frame = Frame dir 'n u64 bool "'n shape"

type_synonym 'n ctx = "'n frame list"

fun plug1 :: "'n frame \<Rightarrow> 'n shape \<Rightarrow> 'n shape" where
  "plug1 (Frame DL x k r u) t = Nd t x k r u"
| "plug1 (Frame DR x k r u) t = Nd u x k r t"

fun plug :: "'n ctx \<Rightarrow> 'n shape \<Rightarrow> 'n shape" where
  "plug [] t = t"
| "plug (f # c) t = plug c (plug1 f t)"

fun ptr :: "'n shape \<Rightarrow> 'n option" where
  "ptr Lf = None"
| "ptr (Nd l x k r rt) = Some x"

fun cpar :: "'n ctx \<Rightarrow> 'n option" where
  "cpar [] = None"
| "cpar (Frame d x k r u # c) = Some x"

fun ids :: "'n shape \<Rightarrow> 'n set" where
  "ids Lf = {}"
| "ids (Nd l x k r rt) = insert x (ids l \<union> ids rt)"

text \<open>The entries of a tree in order, and those a context puts before and after its hole.\<close>

fun elems :: "'n shape \<Rightarrow> ('n \<times> u64) list" where
  "elems Lf = []"
| "elems (Nd l x k r rt) = elems l @ (x, k) # elems rt"

fun before :: "'n ctx \<Rightarrow> ('n \<times> u64) list" where
  "before [] = []"
| "before (Frame DL x k r u # c) = before c"
| "before (Frame DR x k r u # c) = before c @ elems u @ [(x, k)]"

fun after :: "'n ctx \<Rightarrow> ('n \<times> u64) list" where
  "after [] = []"
| "after (Frame DL x k r u # c) = (x, k) # elems u @ after c"
| "after (Frame DR x k r u # c) = after c"

lemma plug_append [simp]: "plug (c @ c') t = plug c' (plug c t)"
  by (induction c arbitrary: t) auto

lemma ids_elems: "ids t = fst ` set (elems t)"
  by (induction t) auto

lemma frame_cases [case_names DL DR]:
  assumes "\<And>x k r u. f = Frame DL x k r u \<Longrightarrow> P" "\<And>x k r u. f = Frame DR x k r u \<Longrightarrow> P"
  shows P
  using assms by (metis dir.exhaust frame.exhaust)

lemma elems_plug1: "elems (plug1 f t) = before [f] @ elems t @ after [f]"
  by (cases f rule: frame_cases) auto

lemma before_Cons: "before (f # c) = before c @ before [f]"
  and after_Cons: "after (f # c) = after [f] @ after c"
  by (cases f rule: frame_cases; simp)+

lemma elems_plug [simp]: "elems (plug c t) = before c @ elems t @ after c"
proof (induction c arbitrary: t)
  case Nil
  show ?case by simp
next
  case (Cons f c)
  show ?case
    by (simp add: Cons.IH elems_plug1 before_Cons [of f c] after_Cons [of f c])
qed

lemma before_append: "before (c @ d) = before d @ before c"
  by (induction c rule: before.induct) auto

lemma after_append: "after (c @ d) = after c @ after d"
  by (induction c rule: after.induct) auto

lemma ptr_None [simp]: "ptr t = None \<longleftrightarrow> t = Lf" "None = ptr t \<longleftrightarrow> t = Lf"
  by (cases t; simp)+

lemma ptr_ids: "ptr t = Some x \<Longrightarrow> x \<in> ids t"
  by (cases t) auto

lemma ptr_fresh [simp]: "x \<notin> ids t \<Longrightarrow> ptr t \<noteq> Some x" "x \<notin> ids t \<Longrightarrow> Some x \<noteq> ptr t"
  by (auto dest: ptr_ids ptr_ids [OF sym])

section \<open>Colour invariants\<close>

fun redt :: "'n shape \<Rightarrow> bool" where
  "redt Lf = False"
| "redt (Nd l x k r rt) = r"

fun paint :: "bool \<Rightarrow> 'n shape \<Rightarrow> 'n shape" where
  "paint b Lf = Lf"
| "paint b (Nd l x k r rt) = Nd l x k b rt"

fun bh :: "'n shape \<Rightarrow> nat" where
  "bh Lf = 0"
| "bh (Nd l x k r rt) = (if r then bh l else Suc (bh l))"

fun invc :: "'n shape \<Rightarrow> bool" where
  "invc Lf = True"
| "invc (Nd l x k r rt) = ((r \<longrightarrow> \<not> redt l \<and> \<not> redt rt) \<and> invc l \<and> invc rt)"

fun invh :: "'n shape \<Rightarrow> bool" where
  "invh Lf = True"
| "invh (Nd l x k r rt) = (bh l = bh rt \<and> invh l \<and> invh rt)"

definition rb_inv :: "'n shape \<Rightarrow> bool" where
  "rb_inv t \<longleftrightarrow> invc t \<and> invh t \<and> \<not> redt t"

text \<open>
  The invariant of a context whose hole takes a tree of black height \<open>n\<close>.  The outside of the
  root counts as red, so that no red frame is outermost.
\<close>

fun cred :: "'n ctx \<Rightarrow> bool" where
  "cred [] = True"
| "cred (Frame d x k r u # c) = r"

fun cinv :: "'n ctx \<Rightarrow> nat \<Rightarrow> bool" where
  "cinv [] n = True"
| "cinv (Frame d x k r u # c) n =
     (invc u \<and> invh u \<and> bh u = n \<and> (r \<longrightarrow> \<not> redt u \<and> \<not> cred c) \<and>
      cinv c (if r then n else Suc n))"

lemma paint_simps [simp]:
  "redt (paint False t) = False" "invh (paint b t) = invh t" "elems (paint b t) = elems t"
  "ids (paint b t) = ids t" "ptr (paint b t) = ptr t" "invc t \<Longrightarrow> invc (paint False t)"
  by (cases t; simp)+

lemma bh_paint_red: "redt t \<Longrightarrow> bh (paint False t) = Suc (bh t)"
  by (cases t) auto

lemma paint_idle: "\<not> redt t \<Longrightarrow> paint False t = t"
  by (cases t) auto

lemma rb_inv_plug:
  "rb_inv (plug c t) \<longleftrightarrow> cinv c (bh t) \<and> invc t \<and> invh t \<and> (redt t \<longrightarrow> \<not> cred c)"
proof (induction c arbitrary: t)
  case Nil
  show ?case by (auto simp: rb_inv_def)
next
  case (Cons f c)
  obtain d x k r u where f: "f = Frame d x k r u" by (cases f)
  show ?case
    by (cases d) (auto simp: f Cons.IH)
qed

text \<open>A tree with black height at least one has a root.\<close>

lemma bh_Suc_cases:
  assumes "bh t = Suc n"
  obtains l x k r rt where "t = Nd l x k r rt"
  using assms by (cases t) auto

section \<open>Search order\<close>

definition bst :: "'n shape \<Rightarrow> bool" where
  "bst t \<longleftrightarrow> sorted_wrt (<) (map snd (elems t))"

fun descend :: "u64 \<Rightarrow> 'n ctx \<Rightarrow> 'n shape \<Rightarrow> 'n ctx \<times> 'n shape" where
  "descend key c Lf = (c, Lf)"
| "descend key c (Nd l x k r rt) =
     (if key = k then (c, Nd l x k r rt)
      else if key < k then descend key (Frame DL x k r rt # c) l
      else descend key (Frame DR x k r l # c) rt)"

lemma descend_plug: "descend key c t = (c', t') \<Longrightarrow> plug c' t' = plug c t"
  by (induction key c t rule: descend.induct) (auto split: if_splits)

lemma descend_found: "descend key c t = (c', Nd l x k r rt) \<Longrightarrow> k = key"
  by (induction key c t rule: descend.induct) (auto split: if_splits)

lemma bst_Nd:
  "bst (Nd l x k r rt) \<longleftrightarrow>
     bst l \<and> bst rt \<and> (\<forall>e \<in> set (elems l). snd e < k) \<and> (\<forall>e \<in> set (elems rt). k < snd e)"
  by (auto simp: bst_def sorted_wrt_append dest: less_trans)

lemma descend_bounds:
  assumes "descend key c t = (c', Lf)" "bst t"
    and "\<forall>e \<in> set (before c). snd e < key" "\<forall>e \<in> set (after c). key < snd e"
  shows "(\<forall>e \<in> set (before c'). snd e < key) \<and> (\<forall>e \<in> set (after c'). key < snd e)"
  using assms
proof (induction key c t rule: descend.induct)
  case (1 key c)
  then show ?case by simp
next
  case (2 key c l x k r rt)
  note order = "2.prems"(2) [unfolded bst_Nd]
  consider (lt) "key \<noteq> k" "key < k" | (gt) "key \<noteq> k" "\<not> key < k" "k < key"
    using "2.prems"(1) by (cases key k rule: linorder_cases) auto
  then show ?case
  proof cases
    case lt
    have "\<forall>e \<in> set (elems rt). key < snd e" using order lt by (meson less_trans)
    then show ?thesis
      using "2.IH"(1) [OF lt] "2.prems" order lt by (simp add: ball_Un)
  next
    case gt
    have "\<forall>e \<in> set (elems l). snd e < key" using order gt by (meson less_trans)
    then show ?thesis
      using "2.IH"(2) [OF gt(1,2)] "2.prems" order gt by (simp add: ball_Un)
  qed
qed

lemma descend_Nd_member:
  assumes "descend key c t = (c', Nd l x k r rt)"
  shows "(x, key) \<in> set (elems t)"
proof -
  have "k = key" using assms by (rule descend_found)
  with assms show ?thesis
    by (induction key c t rule: descend.induct) (auto split: if_splits)
qed

lemma descend_Lf_absent:
  assumes "descend key c t = (c', Lf)" "bst t"
  shows "key \<notin> snd ` set (elems t)"
  using assms
  by (induction key c t rule: descend.induct) (force simp: bst_Nd split: if_splits)+

end
