(* ===== verification/Rbtree_Correct.thy ===== *)
theory Rbtree_Correct
  imports Rbtree Rb_Shape
begin

text \<open>
  Correctness of the red-black tree: the relation between the pointer structure and an abstract
  tree in a context, what each pointer operation does to it, and the theorems about lookup,
  insertion, removal and in-order traversal.
\<close>

section \<open>Representation\<close>

fun tree_rep :: "'n rbtree_t \<Rightarrow> 'n option \<Rightarrow> 'n shape \<Rightarrow> bool" where
  "tree_rep s p Lf = True"
| "tree_rep s p (Nd l x k r rt) =
     (key_of s x = k \<and> red_of s x = r \<and> parent_of s x = p \<and> left_of s x = ptr l \<and>
      right_of s x = ptr rt \<and> tree_rep s (Some x) l \<and> tree_rep s (Some x) rt)"

fun ctx_rep :: "'n rbtree_t \<Rightarrow> 'n ctx \<Rightarrow> 'n option \<Rightarrow> bool" where
  "ctx_rep s [] q = (rb_root s = q)"
| "ctx_rep s (Frame d x k r u # c) q =
     (key_of s x = k \<and> red_of s x = r \<and> parent_of s x = cpar c \<and>
      (case d of DL \<Rightarrow> left_of s x = q \<and> right_of s x = ptr u
               | DR \<Rightarrow> right_of s x = q \<and> left_of s x = ptr u) \<and>
      tree_rep s (Some x) u \<and> ctx_rep s c (Some x))"

fun cids :: "'n ctx \<Rightarrow> 'n set" where
  "cids [] = {}"
| "cids (Frame d x k r u # c) = insert x (ids u \<union> cids c)"

fun distinct_t :: "'n shape \<Rightarrow> bool" where
  "distinct_t Lf = True"
| "distinct_t (Nd l x k r rt) =
     (x \<notin> ids l \<and> x \<notin> ids rt \<and> ids l \<inter> ids rt = {} \<and> distinct_t l \<and> distinct_t rt)"

fun distinct_c :: "'n ctx \<Rightarrow> bool" where
  "distinct_c [] = True"
| "distinct_c (Frame d x k r u # c) =
     (x \<notin> ids u \<and> x \<notin> cids c \<and> ids u \<inter> cids c = {} \<and> distinct_t u \<and> distinct_c c)"

definition zip_rep :: "'n rbtree_t \<Rightarrow> 'n ctx \<Rightarrow> 'n shape \<Rightarrow> bool" where
  "zip_rep s c t \<longleftrightarrow>
     ctx_rep s c (ptr t) \<and> tree_rep s (cpar c) t \<and>
     distinct_c c \<and> distinct_t t \<and> ids t \<inter> cids c = {}"

abbreviation rb_rep :: "'n rbtree_t \<Rightarrow> 'n shape \<Rightarrow> bool" where
  "rb_rep s t \<equiv> zip_rep s [] t"

lemma zip_up: "zip_rep s (f # c) t = zip_rep s c (plug1 f t)"
  by (cases f rule: frame_cases) (auto simp: zip_rep_def)

lemma zip_plug: "zip_rep s c t = rb_rep s (plug c t)"
  by (induction c arbitrary: t) (auto simp: zip_up)

section \<open>Frame properties\<close>

lemma rb_mem_set [simp]:
  "rb_mem (set_root s v) = rb_mem s"
  "rb_mem (set_parent s x p) y = (if y = x then (rb_mem s x)\<lparr>rb_parent := p\<rparr> else rb_mem s y)"
  "rb_mem (set_left s x p) y = (if y = x then (rb_mem s x)\<lparr>rb_left := p\<rparr> else rb_mem s y)"
  "rb_mem (set_right s x p) y = (if y = x then (rb_mem s x)\<lparr>rb_right := p\<rparr> else rb_mem s y)"
  "rb_mem (set_red s x b) y = (if y = x then (rb_mem s x)\<lparr>rb_red := b\<rparr> else rb_mem s y)"
  "rb_root (set_root s v) = v"
  "rb_root (set_parent s x p) = rb_root s"
  "rb_root (set_left s x p) = rb_root s"
  "rb_root (set_right s x p) = rb_root s"
  "rb_root (set_red s x b) = rb_root s"
  by (simp_all add: set_root_def set_parent_def set_left_def set_right_def set_red_def rb_upd_def)

lemma tree_rep_cong:
  "(\<And>i. i \<in> ids t \<Longrightarrow> rb_mem s' i = rb_mem s i) \<Longrightarrow> tree_rep s' p t = tree_rep s p t"
  by (induction t arbitrary: p) auto

lemma ctx_rep_cong:
  "(\<And>i. i \<in> cids c \<Longrightarrow> rb_mem s' i = rb_mem s i) \<Longrightarrow> rb_root s' = rb_root s \<Longrightarrow>
   ctx_rep s' c q = ctx_rep s c q"
  by (induction c arbitrary: q rule: cids.induct) (auto cong: tree_rep_cong split: dir.splits)

lemma tree_rep_set [simp]:
  "tree_rep (set_root s v) p t = tree_rep s p t"
  "x \<notin> ids t \<Longrightarrow> tree_rep (set_parent s x q) p t = tree_rep s p t"
  "x \<notin> ids t \<Longrightarrow> tree_rep (set_left s x q) p t = tree_rep s p t"
  "x \<notin> ids t \<Longrightarrow> tree_rep (set_right s x q) p t = tree_rep s p t"
  "x \<notin> ids t \<Longrightarrow> tree_rep (set_red s x b) p t = tree_rep s p t"
  by (auto intro!: tree_rep_cong)

lemma ctx_rep_set [simp]:
  "x \<notin> cids c \<Longrightarrow> ctx_rep (set_parent s x p) c q = ctx_rep s c q"
  "x \<notin> cids c \<Longrightarrow> ctx_rep (set_left s x p) c q = ctx_rep s c q"
  "x \<notin> cids c \<Longrightarrow> ctx_rep (set_right s x p) c q = ctx_rep s c q"
  "x \<notin> cids c \<Longrightarrow> ctx_rep (set_red s x b) c q = ctx_rep s c q"
  by (auto intro!: ctx_rep_cong)

lemma set_if_Lf [simp]: "set_parent_if s (ptr Lf) v = s" "set_red_if s (ptr Lf) b = s"
  by (simp_all add: set_parent_if_def set_red_if_def)

lemma set_if_mem:
  "y \<notin> ids t \<Longrightarrow> rb_mem (set_parent_if s (ptr t) v) y = rb_mem s y"
  "y \<notin> ids t \<Longrightarrow> rb_mem (set_red_if s (ptr t) b) y = rb_mem s y"
  "rb_root (set_parent_if s q v) = rb_root s"
  "rb_root (set_red_if s q b) = rb_root s"
  by (cases t; auto simp: set_parent_if_def set_red_if_def split: option.splits)+

lemma tree_rep_set_if_other [simp]:
  "ids u \<inter> ids t = {} \<Longrightarrow> tree_rep (set_parent_if s (ptr u) v) p t = tree_rep s p t"
  "ids u \<inter> ids t = {} \<Longrightarrow> tree_rep (set_red_if s (ptr u) b) p t = tree_rep s p t"
  by (rule tree_rep_cong; subst set_if_mem; auto)+

lemma ctx_rep_set_if_other [simp]:
  "ids u \<inter> cids c = {} \<Longrightarrow> ctx_rep (set_parent_if s (ptr u) v) c q = ctx_rep s c q"
  "ids u \<inter> cids c = {} \<Longrightarrow> ctx_rep (set_red_if s (ptr u) b) c q = ctx_rep s c q"
  by (rule ctx_rep_cong; (subst set_if_mem)?; auto simp: set_if_mem)+

lemma tree_rep_reparent:
  "tree_rep s p t \<Longrightarrow> distinct_t t \<Longrightarrow> tree_rep (set_parent_if s (ptr t) q) q t"
  by (cases t) (auto simp: set_parent_if_def)

lemma is_red_ptr [simp]: "tree_rep s p t \<Longrightarrow> is_red s (ptr t) = redt t"
  by (cases t) (auto simp: is_red_def)

text \<open>Redirecting the pointer that leads into the hole.\<close>

definition set_hole :: "'n rbtree_t \<Rightarrow> 'n option \<Rightarrow> 'n \<Rightarrow> 'n option \<Rightarrow> 'n rbtree_t" where
  "set_hole s pp x q =
     (case pp of
        None \<Rightarrow> set_root s q
      | Some p \<Rightarrow> if left_of s p = Some x then set_left s p q else set_right s p q)"

lemma ctx_rep_set_hole:
  assumes "ctx_rep s c (Some x)" "distinct_c c" "x \<notin> cids c"
  shows "ctx_rep (set_hole s (cpar c) x q) c q"
proof (cases c)
  case Nil
  then show ?thesis by (simp add: set_hole_def)
next
  case (Cons f c')
  then show ?thesis
    using assms by (cases f rule: frame_cases) (auto simp: set_hole_def dest: ptr_ids)
qed

lemma set_hole_right_first:
  assumes "ctx_rep s c (Some x)" "distinct_c c" "x \<notin> cids c" "cpar c = Some p"
  shows "(if right_of s p = Some x then set_right s p q else set_left s p q) =
         (if left_of s p = Some x then set_left s p q else set_right s p q)"
  using assms
  by (cases c; cases "hd c" rule: frame_cases) (auto dest: ptr_ids)

lemma set_hole_mem:
  assumes "y \<notin> cids c"
  shows "rb_mem (set_hole s (cpar c) x q) y = rb_mem s y"
  using assms by (cases c rule: cpar.cases) (auto simp: set_hole_def)

lemma tree_rep_set_hole:
  assumes "ids t \<inter> cids c = {}"
  shows "tree_rep (set_hole s (cpar c) x q) p t = tree_rep s p t"
  using assms by (intro tree_rep_cong set_hole_mem) auto

text \<open>
  Outside a set \<open>A\<close> of nodes nothing changes, and no node changes its key or its value.
\<close>

definition keeps :: "'n set \<Rightarrow> 'n rbtree_t \<Rightarrow> 'n rbtree_t \<Rightarrow> bool" where
  "keeps A s s' \<longleftrightarrow>
     (\<forall>i. i \<notin> A \<longrightarrow> rb_mem s' i = rb_mem s i) \<and>
     (\<forall>i. key_of s' i = key_of s i \<and> rb_value (rb_mem s' i) = rb_value (rb_mem s i))"

lemma keeps_refl [simp]: "keeps A s s"
  by (simp add: keeps_def)

lemma keeps_trans [trans]: "keeps A s s' \<Longrightarrow> keeps A s' s'' \<Longrightarrow> keeps A s s''"
  by (simp add: keeps_def)

lemma keeps_mono: "keeps A s s' \<Longrightarrow> A \<subseteq> B \<Longrightarrow> keeps B s s'"
  by (auto simp: keeps_def)

lemma keeps_set [simp]:
  "keeps A s s' \<Longrightarrow> keeps A s (set_root s' v)"
  "keeps A s s' \<Longrightarrow> x \<in> A \<Longrightarrow> keeps A s (set_parent s' x v)"
  "keeps A s s' \<Longrightarrow> x \<in> A \<Longrightarrow> keeps A s (set_left s' x v)"
  "keeps A s s' \<Longrightarrow> x \<in> A \<Longrightarrow> keeps A s (set_right s' x v)"
  "keeps A s s' \<Longrightarrow> x \<in> A \<Longrightarrow> keeps A s (set_red s' x b)"
  by (auto simp: keeps_def)

lemma keeps_set_if [simp]:
  "keeps A s s' \<Longrightarrow> ids t \<subseteq> A \<Longrightarrow> keeps A s (set_parent_if s' (ptr t) v)"
  "keeps A s s' \<Longrightarrow> ids t \<subseteq> A \<Longrightarrow> keeps A s (set_red_if s' (ptr t) b)"
  by (cases t; auto simp: set_parent_if_def set_red_if_def)+

lemma keeps_set_hole [simp]:
  "keeps A s s' \<Longrightarrow> cids c \<subseteq> A \<Longrightarrow> keeps A s (set_hole s' (cpar c) x q)"
  by (cases c rule: cpar.cases) (auto simp: set_hole_def)

lemma ids_plug [simp]: "ids (plug c t) = ids t \<union> cids c"
proof (induction c arbitrary: t)
  case (Cons f c)
  then show ?case by (cases f rule: frame_cases) auto
qed simp

section \<open>Rotations\<close>

lemma left_rotate_zip:
  assumes z: "zip_rep s c (Nd a x kx rx (Nd b y ky ry d))"
    and A: "insert x (insert y (ids b)) \<union> cids c \<subseteq> A"
  shows "\<exists>s'. left_rotate s x = Inr s' \<and> zip_rep s' c (Nd (Nd a x kx rx b) y ky ry d) \<and> keeps A s s'"
proof -
  define s2 where "s2 = set_parent_if (set_right s x (ptr b)) (ptr b) (Some x)"
  define s3 where "s3 = set_parent s2 y (cpar c)"
  define s4 where "s4 = set_hole s3 (cpar c) x (Some y)"
  define s' where "s' = set_parent (set_left s4 y (Some x)) x (Some y)"
  have ne: "x \<noteq> y" "x \<notin> ids b" "y \<notin> ids b" "x \<notin> cids c" "y \<notin> cids c" "ids b \<inter> cids c = {}"
    "ids a \<inter> cids c = {}" "ids d \<inter> cids c = {}" "ids b \<inter> ids a = {}" "ids b \<inter> ids d = {}"
    using z by (auto simp: zip_rep_def)
  have eq: "left_rotate s x = Inr s'"
    using z ne
    by (simp add: left_rotate_def Let_def zip_rep_def s'_def s4_def s3_def s2_def set_hole_def
        set_if_mem cong: if_cong option.case_cong)
  have c3: "ctx_rep s3 c (Some x)" "tree_rep s3 (Some x) b"
    using z ne by (auto simp: s3_def s2_def zip_rep_def intro!: tree_rep_reparent)
  have c4: "ctx_rep s4 c (Some y)"
    unfolding s4_def using z c3 ne by (intro ctx_rep_set_hole) (auto simp: zip_rep_def)
  have m4: "rb_mem s4 i = rb_mem s3 i" if "i \<notin> cids c" for i
    unfolding s4_def using that by (rule set_hole_mem)
  have t4: "tree_rep s4 p t = tree_rep s3 p t" if "ids t \<inter> cids c = {}" for t p
    unfolding s4_def using that by (rule tree_rep_set_hole)
  have "zip_rep s' c (Nd (Nd a x kx rx b) y ky ry d)"
    using z ne c3(2) c4 by (auto simp: zip_rep_def s'_def m4 t4 s3_def s2_def set_if_mem)
  moreover have "keeps A s s'"
    unfolding s'_def s4_def s3_def s2_def using A by (intro keeps_set keeps_set_if keeps_set_hole) auto
  ultimately show ?thesis using eq by blast
qed

lemma right_rotate_zip:
  assumes z: "zip_rep s c (Nd (Nd a y ky ry b) x kx rx d)"
    and A: "insert x (insert y (ids b)) \<union> cids c \<subseteq> A"
  shows "\<exists>s'. right_rotate s x = Inr s' \<and> zip_rep s' c (Nd a y ky ry (Nd b x kx rx d)) \<and> keeps A s s'"
proof -
  define s2 where "s2 = set_parent_if (set_left s x (ptr b)) (ptr b) (Some x)"
  define s3 where "s3 = set_parent s2 y (cpar c)"
  define s4 where "s4 = set_hole s3 (cpar c) x (Some y)"
  define s' where "s' = set_parent (set_right s4 y (Some x)) x (Some y)"
  have ne: "x \<noteq> y" "x \<notin> ids b" "y \<notin> ids b" "x \<notin> cids c" "y \<notin> cids c" "ids b \<inter> cids c = {}"
    "ids a \<inter> cids c = {}" "ids d \<inter> cids c = {}" "ids b \<inter> ids a = {}" "ids b \<inter> ids d = {}"
    using z by (auto simp: zip_rep_def)
  have c3: "ctx_rep s3 c (Some x)" "tree_rep s3 (Some x) b"
    using z ne by (auto simp: s3_def s2_def zip_rep_def intro!: tree_rep_reparent)
  have hole: "(case cpar c of None \<Rightarrow> set_root s3 (Some y)
        | Some p \<Rightarrow> if right_of s3 p = Some x then set_right s3 p (Some y)
                    else set_left s3 p (Some y)) = s4"
    using set_hole_right_first [OF c3(1)] z ne by (auto simp: s4_def set_hole_def zip_rep_def split: option.split)
  have eq: "right_rotate s x = Inr s'"
    using z ne hole unfolding s'_def
    by (simp add: right_rotate_def Let_def zip_rep_def s3_def s2_def set_if_mem cong: if_cong option.case_cong)
  have c4: "ctx_rep s4 c (Some y)"
    unfolding s4_def using z c3 ne by (intro ctx_rep_set_hole) (auto simp: zip_rep_def)
  have m4: "rb_mem s4 i = rb_mem s3 i" if "i \<notin> cids c" for i
    unfolding s4_def using that by (rule set_hole_mem)
  have t4: "tree_rep s4 p t = tree_rep s3 p t" if "ids t \<inter> cids c = {}" for t p
    unfolding s4_def using that by (rule tree_rep_set_hole)
  have "zip_rep s' c (Nd a y ky ry (Nd b x kx rx d))"
    using z ne c3(2) c4 by (auto simp: zip_rep_def s'_def m4 t4 s3_def s2_def set_if_mem)
  moreover have "keeps A s s'"
    unfolding s'_def s4_def s3_def s2_def using A by (intro keeps_set keeps_set_if keeps_set_hole) auto
  ultimately show ?thesis using eq by blast
qed

lemma zip_rep_set_red:
  "zip_rep s c (Nd l x k r rt) \<Longrightarrow> zip_rep (set_red s x b) c (Nd l x k b rt)"
  by (auto simp: zip_rep_def)

lemma zip_rep_set_red_if:
  "zip_rep s c t \<Longrightarrow> zip_rep (set_red_if s (ptr t) b) c (paint b t)"
  by (cases t) (auto simp: zip_rep_def set_red_if_def)

section \<open>Insertion\<close>

lemma zip_rep_set_red_left:
  assumes "zip_rep s c (Nd (Nd l p kp r d) g kg r' u)"
  shows "zip_rep (set_red (set_red s p b) g b') c (Nd (Nd l p kp b d) g kg b' u)"
proof (rule zip_rep_set_red)
  have "zip_rep s (Frame DL g kg r' u # c) (Nd l p kp r d)"
    using assms by (simp add: zip_up)
  from zip_rep_set_red [OF this]
  show "zip_rep (set_red s p b) c (Nd (Nd l p kp b d) g kg r' u)" by (simp add: zip_up)
qed

lemma zip_rep_set_red_right:
  assumes "zip_rep s c (Nd u g kg r' (Nd l p kp r d))"
  shows "zip_rep (set_red (set_red s p b) g b') c (Nd u g kg b' (Nd l p kp b d))"
proof (rule zip_rep_set_red)
  have "zip_rep s (Frame DR g kg r' u # c) (Nd l p kp r d)"
    using assms by (simp add: zip_up)
  from zip_rep_set_red [OF this]
  show "zip_rep (set_red s p b) c (Nd u g kg r' (Nd l p kp b d))" by (simp add: zip_up)
qed

lemma body_recolor:
  assumes "zip_rep s c (Nd l g kg False r)" "redt l" "redt r" "p \<in> {the (ptr l), the (ptr r)}"
    "ids l \<union> ids r \<union> {g} \<subseteq> A"
  shows "\<exists>s'. fix_insert_body s z p g = Inr (s', g) \<and>
              zip_rep s' c (Nd (paint False l) g kg True (paint False r)) \<and> keeps A s s'"
  using assms
  by (cases l; cases r)
    (auto simp: fix_insert_body_def zip_rep_def is_red_def set_red_if_def Let_def)

lemma body_LL:
  assumes z: "zip_rep s c (Nd (Nd (Nd a z kz rz b) p kp True d) g kg False u)" and u: "\<not> redt u"
    and A: "insert p (insert g (ids d)) \<union> cids c \<subseteq> A"
  shows "\<exists>s'. fix_insert_body s z p g = Inr (s', z) \<and>
              zip_rep s' c (Nd (Nd a z kz rz b) p kp False (Nd d g kg True u)) \<and> keeps A s s'"
proof -
  have "zip_rep (set_red (set_red s p False) g True) c
          (Nd (Nd (Nd a z kz rz b) p kp False d) g kg True u)"
    using z by (rule zip_rep_set_red_left)
  from right_rotate_zip [OF this, of A] A
  obtain s' where s': "right_rotate (set_red (set_red s p False) g True) g = Inr s'"
    "zip_rep s' c (Nd (Nd a z kz rz b) p kp False (Nd d g kg True u))"
    "keeps A (set_red (set_red s p False) g True) s'" by auto
  moreover have "keeps A s s'"
    by (rule keeps_trans [OF _ s'(3)]) (use A in auto)
  moreover have "right_of s p \<noteq> Some z" "left_of s g = Some p" "parent_of s z = Some p"
    "\<not> is_red s (right_of s g)"
    using z u is_red_ptr [of s "Some g" u] by (simp_all add: zip_rep_def)
  ultimately show ?thesis
    by (simp add: fix_insert_body_def Let_def)
qed

lemma body_LR:
  assumes z: "zip_rep s c (Nd (Nd a p kp True (Nd b z kz rz d)) g kg False u)" and u: "\<not> redt u"
    and A: "insert p (insert z (insert g (ids b \<union> ids d \<union> ids u))) \<union> cids c \<subseteq> A"
  shows "\<exists>s'. fix_insert_body s z p g = Inr (s', p) \<and>
              zip_rep s' c (Nd (Nd a p kp True b) z kz False (Nd d g kg True u)) \<and> keeps A s s'"
proof -
  have "zip_rep s (Frame DL g kg False u # c) (Nd a p kp True (Nd b z kz rz d))"
    using z by (simp add: zip_up)
  from left_rotate_zip [OF this, of A] A
  obtain s1 where s1: "left_rotate s p = Inr s1"
    "zip_rep s1 (Frame DL g kg False u # c) (Nd (Nd a p kp True b) z kz rz d)"
    "keeps A s s1" by auto
  have "zip_rep (set_red (set_red s1 z False) g True) c
          (Nd (Nd (Nd a p kp True b) z kz False d) g kg True u)"
    using s1(2) unfolding zip_up plug1.simps by (rule zip_rep_set_red_left)
  from right_rotate_zip [OF this, of A] A
  obtain s' where s': "right_rotate (set_red (set_red s1 z False) g True) g = Inr s'"
    "zip_rep s' c (Nd (Nd a p kp True b) z kz False (Nd d g kg True u))"
    "keeps A (set_red (set_red s1 z False) g True) s'" by auto
  moreover have "keeps A s s'"
    by (rule keeps_trans [OF _ s'(3)]) (use A s1(3) in auto)
  moreover have "right_of s p = Some z" "left_of s g = Some p" "\<not> is_red s (right_of s g)"
    using z u is_red_ptr [of s "Some g" u] by (simp_all add: zip_rep_def)
  moreover have "parent_of s1 p = Some z"
    using s1(2) by (simp add: zip_rep_def)
  ultimately show ?thesis
    using s1(1) by (simp add: fix_insert_body_def Let_def)
qed

lemma body_RR:
  assumes z: "zip_rep s c (Nd u g kg False (Nd d p kp True (Nd a z kz rz b)))" and u: "\<not> redt u"
    and A: "insert p (insert g (ids d)) \<union> cids c \<subseteq> A"
  shows "\<exists>s'. fix_insert_body s z p g = Inr (s', z) \<and>
              zip_rep s' c (Nd (Nd u g kg True d) p kp False (Nd a z kz rz b)) \<and> keeps A s s'"
proof -
  have "zip_rep (set_red (set_red s p False) g True) c
          (Nd u g kg True (Nd d p kp False (Nd a z kz rz b)))"
    using z by (rule zip_rep_set_red_right)
  from left_rotate_zip [OF this, of A] A
  obtain s' where s': "left_rotate (set_red (set_red s p False) g True) g = Inr s'"
    "zip_rep s' c (Nd (Nd u g kg True d) p kp False (Nd a z kz rz b))"
    "keeps A (set_red (set_red s p False) g True) s'" by auto
  moreover have "keeps A s s'"
    by (rule keeps_trans [OF _ s'(3)]) (use A in auto)
  moreover have "left_of s p \<noteq> Some z" "left_of s g \<noteq> Some p" "parent_of s z = Some p"
    "\<not> is_red s (left_of s g)"
    using z u is_red_ptr [of s "Some g" u] by (simp_all add: zip_rep_def)
  ultimately show ?thesis
    by (simp add: fix_insert_body_def Let_def)
qed

lemma body_RL:
  assumes z: "zip_rep s c (Nd u g kg False (Nd (Nd b z kz rz d) p kp True a))" and u: "\<not> redt u"
    and A: "insert p (insert z (insert g (ids b \<union> ids d \<union> ids u))) \<union> cids c \<subseteq> A"
  shows "\<exists>s'. fix_insert_body s z p g = Inr (s', p) \<and>
              zip_rep s' c (Nd (Nd u g kg True b) z kz False (Nd d p kp True a)) \<and> keeps A s s'"
proof -
  have "zip_rep s (Frame DR g kg False u # c) (Nd (Nd b z kz rz d) p kp True a)"
    using z by (simp add: zip_up)
  from right_rotate_zip [OF this, of A] A
  obtain s1 where s1: "right_rotate s p = Inr s1"
    "zip_rep s1 (Frame DR g kg False u # c) (Nd b z kz rz (Nd d p kp True a))"
    "keeps A s s1" by auto
  have "zip_rep (set_red (set_red s1 z False) g True) c
          (Nd u g kg True (Nd b z kz False (Nd d p kp True a)))"
    using s1(2) unfolding zip_up plug1.simps by (rule zip_rep_set_red_right)
  from left_rotate_zip [OF this, of A] A
  obtain s' where s': "left_rotate (set_red (set_red s1 z False) g True) g = Inr s'"
    "zip_rep s' c (Nd (Nd u g kg True b) z kz False (Nd d p kp True a))"
    "keeps A (set_red (set_red s1 z False) g True) s'" by auto
  moreover have "keeps A s s'"
    by (rule keeps_trans [OF _ s'(3)]) (use A s1(3) in auto)
  moreover have "left_of s p = Some z" "left_of s g \<noteq> Some p" "\<not> is_red s (left_of s g)"
    using z u is_red_ptr [of s "Some g" u] by (simp_all add: zip_rep_def)
  moreover have "parent_of s1 p = Some z"
    using s1(2) by (simp add: zip_rep_def)
  ultimately show ?thesis
    using s1(1) by (simp add: fix_insert_body_def Let_def)
qed

lemma fix_insert_loop_stop:
  "parent_of s z = None \<or> (\<exists>p. parent_of s z = Some p \<and> \<not> red_of s p) \<Longrightarrow>
   fix_insert_loop s z = Some (Inr s)"
  by (subst fix_insert_loop.simps) auto

lemma fix_insert_loop_step:
  assumes "parent_of s z = Some p" "red_of s p" "parent_of s p = Some g"
    "fix_insert_body s z p g = Inr (s', z')"
  shows "fix_insert_loop s z = fix_insert_loop s' z'"
  using assms by (subst fix_insert_loop.simps) auto

text \<open>
  The loop ends without a fault in a tree with entries \<open>es\<close> which is a red-black tree once its
  root is black.
\<close>

definition insert_fixed :: "'n set \<Rightarrow> 'n rbtree_t \<Rightarrow> 'n \<Rightarrow> ('n \<times> u64) list \<Rightarrow> bool" where
  "insert_fixed A s z es \<longleftrightarrow>
     (\<exists>s' t'. fix_insert_loop s z = Some (Inr s') \<and> rb_rep s' t' \<and> elems t' = es \<and>
              rb_inv (paint False t') \<and> keeps A s s')"

lemma insert_fixed_stop:
  assumes "zip_rep s c t" "rb_inv (plug c t)"
    "\<exists>p. parent_of s z = Some p \<and> \<not> red_of s p"
  shows "insert_fixed A s z (before c @ elems t @ after c)"
  unfolding insert_fixed_def using assms fix_insert_loop_stop [of s z]
  by (intro exI [of _ s] exI [of _ "plug c t"])
    (simp add: zip_plug [symmetric] paint_idle rb_inv_def)

lemma insert_fixed_step:
  assumes "parent_of s z = Some p" "red_of s p" "parent_of s p = Some g"
    "fix_insert_body s z p g = Inr (s', z')" "insert_fixed A s' z' es" "keeps A s s'"
  shows "insert_fixed A s z es"
  using assms fix_insert_loop_step [OF assms(1-4)] unfolding insert_fixed_def
  by (metis keeps_trans)

lemma insert_fixed_rotated:
  assumes body: "\<exists>s'. fix_insert_body s z p g = Inr (s', z') \<and> zip_rep s' c T \<and> keeps A s s'"
    and step: "parent_of s z = Some p" "red_of s p" "parent_of s p = Some g"
    and stop: "\<And>s'. zip_rep s' c T \<Longrightarrow> \<exists>q. parent_of s' z' = Some q \<and> \<not> red_of s' q"
    and inv: "rb_inv (plug c T)" "elems T = es"
  shows "insert_fixed A s z (before c @ es @ after c)"
  using assms by (metis insert_fixed_step insert_fixed_stop)

lemma insert_fixed_rotate:
  assumes zip: "zip_rep s c2 (plug1 (Frame e g kg False w) (plug1 (Frame d p kp True u) t))"
    and t: "t = Nd a z kz True b" and w: "\<not> redt w"
    and step: "parent_of s z = Some p" "red_of s p" "parent_of s p = Some g"
    and inv: "cinv (Frame d p kp True u # Frame e g kg False w # c2) (bh t)" "invc t" "invh t"
      "ids t \<union> cids (Frame d p kp True u # Frame e g kg False w # c2) \<subseteq> A"
  shows "insert_fixed A s z (elems (plug (Frame d p kp True u # Frame e g kg False w # c2) t))"
proof (cases d; cases e)
  assume de: "d = DL" "e = DL"
  show ?thesis
    using insert_fixed_rotated [OF body_LL [OF zip [unfolded de t plug1.simps] w, of A] step]
      inv w by (auto simp: de t rb_inv_plug zip_rep_def)
next
  assume de: "d = DL" "e = DR"
  show ?thesis
    using insert_fixed_rotated [OF body_RL [OF zip [unfolded de t plug1.simps] w, of A] step]
      inv w by (auto simp: de t rb_inv_plug zip_rep_def)
next
  assume de: "d = DR" "e = DL"
  show ?thesis
    using insert_fixed_rotated [OF body_LR [OF zip [unfolded de t plug1.simps] w, of A] step]
      inv w by (auto simp: de t rb_inv_plug zip_rep_def)
next
  assume de: "d = DR" "e = DR"
  show ?thesis
    using insert_fixed_rotated [OF body_RR [OF zip [unfolded de t plug1.simps] w, of A] step]
      inv w by (auto simp: de t rb_inv_plug zip_rep_def)
qed

lemma body_recolor_zip:
  assumes zip: "zip_rep s c2 (plug1 (Frame e g kg False w) (plug1 (Frame d p kp True u) t))"
    and w: "redt w"
    and inv: "cinv (Frame d p kp True u # Frame e g kg False w # c2) (bh t)" "redt t" "invc t" "invh t"
      "ids t \<union> cids (Frame d p kp True u # Frame e g kg False w # c2) \<subseteq> A"
  shows "\<exists>s' t'. fix_insert_body s z p g = Inr (s', g) \<and> zip_rep s' c2 t' \<and> keeps A s s' \<and>
           ptr t' = Some g \<and> redt t' \<and> cinv c2 (bh t') \<and> invc t' \<and> invh t' \<and>
           ids t' \<union> cids c2 \<subseteq> A \<and>
           elems t' = elems (plug1 (Frame e g kg False w) (plug1 (Frame d p kp True u) t))"
proof -
  define P where "P = plug1 (Frame d p kp True u) t"
  have P: "redt P" "ptr P = Some p" "ids P \<subseteq> A" "redt (paint False P) = False"
    "invc (paint False P)" "invh P" "bh (paint False P) = Suc (bh w)"
    using inv by (cases d; auto simp: P_def)+
  have W: "invc (paint False w)" "bh (paint False w) = Suc (bh w)"
    using inv w by (auto simp: bh_paint_red)
  show ?thesis
  proof (cases e)
    case DL
    with zip P inv w body_recolor [of s c2 P g kg w p A z]
    obtain s' where "fix_insert_body s z p g = Inr (s', g)"
      "zip_rep s' c2 (Nd (paint False P) g kg True (paint False w))" "keeps A s s'"
      by (auto simp: P_def)
    then show ?thesis
      using P W inv DL w
      by (intro exI [of _ s'] exI [of _ "Nd (paint False P) g kg True (paint False w)"])
        (auto simp: P_def [symmetric])
  next
    case DR
    with zip P inv w body_recolor [of s c2 w g kg P p A z]
    obtain s' where "fix_insert_body s z p g = Inr (s', g)"
      "zip_rep s' c2 (Nd (paint False w) g kg True (paint False P))" "keeps A s s'"
      by (auto simp: P_def)
    then show ?thesis
      using P W inv DR w
      by (intro exI [of _ s'] exI [of _ "Nd (paint False w) g kg True (paint False P)"])
        (auto simp: P_def [symmetric])
  qed
qed

lemma fix_insert_loop_zip:
  assumes "zip_rep s c t" "ptr t = Some z" "redt t" "cinv c (bh t)" "invc t" "invh t"
    "ids t \<union> cids c \<subseteq> A"
  shows "insert_fixed A s z (elems (plug c t))"
  using assms
proof (induction "length c" arbitrary: s c t z rule: less_induct)
  case less
  obtain a kz b where t: "t = Nd a z kz True b" using less.prems by (cases t) auto
  show ?case
  proof (cases c rule: cpar.cases)
    case 1
    then have "fix_insert_loop s z = Some (Inr s)"
      using less.prems t by (intro fix_insert_loop_stop) (auto simp: zip_rep_def)
    then show ?thesis using less.prems 1 t by (auto simp: rb_inv_def insert_fixed_def)
  next
    case (2 d p kp rp u c')
    have pz: "parent_of s z = Some p" "red_of s p = rp" "parent_of s p = cpar c'"
      using less.prems t 2 by (auto simp: zip_rep_def)
    show ?thesis
    proof (cases rp)
      case False
      then have "rb_inv (plug c t)"
        unfolding rb_inv_plug using less.prems 2 by simp
      then show ?thesis
        unfolding elems_plug using less.prems(1) pz False by (intro insert_fixed_stop) auto
    next
      case True
      then obtain e g kg w c2 where c: "c = Frame d p kp True u # Frame e g kg False w # c2"
        using less.prems 2 by (cases c' rule: cpar.cases) auto
      have step: "parent_of s z = Some p" "red_of s p" using pz True by simp_all
      have g: "parent_of s p = Some g" using pz(3) 2 c by auto
      have zip: "zip_rep s c2 (plug1 (Frame e g kg False w) (plug1 (Frame d p kp True u) t))"
        using less.prems(1) by (simp add: c zip_up)
      show ?thesis
      proof (cases "redt w")
        case w: True
        from body_recolor_zip [OF zip w less.prems(4) [unfolded c] less.prems(3,5,6) less.prems(7) [unfolded c]]
        obtain s' t' where st: "fix_insert_body s z p g = Inr (s', g)" "zip_rep s' c2 t'" "keeps A s s'"
          "ptr t' = Some g" "redt t'" "cinv c2 (bh t')" "invc t'" "invh t'" "ids t' \<union> cids c2 \<subseteq> A"
          "elems t' = elems (plug1 (Frame e g kg False w) (plug1 (Frame d p kp True u) t))" by blast
        have "insert_fixed A s' g (elems (plug c t))"
          using less.hyps [OF _ st(2) st(4-9)] st(10) unfolding c plug.simps elems_plug by simp
        then show ?thesis using insert_fixed_step [OF step g st(1)] st(3) by blast
      next
        case w: False
        show ?thesis
          using insert_fixed_rotate [OF zip t w step g less.prems(4) [unfolded c] less.prems(5,6)
              less.prems(7) [unfolded c]] by (simp add: c)
      qed
    qed
  qed
qed

section \<open>Lookup\<close>

text \<open>
  The abstract state of a tree is the list of its entries in key order; \<open>rb_lookup\<close> is the map
  it stands for.
\<close>

definition rbtree_ok :: "'n rbtree_t \<Rightarrow> ('n \<times> u64) list \<Rightarrow> bool" where
  "rbtree_ok s es \<longleftrightarrow> (\<exists>t. rb_rep s t \<and> rb_inv t \<and> bst t \<and> elems t = es)"

definition rb_lookup :: "('n \<times> u64) list \<Rightarrow> u64 \<Rightarrow> 'n option" where
  "rb_lookup es = map_of (map prod.swap es)"

lemma rb_find_from_descend:
  "zip_rep s c t \<Longrightarrow> rb_find_from s key (ptr t) = Some (ptr (snd (descend key c t)))"
proof (induction key c t rule: descend.induct)
  case (1 key c)
  then show ?case by (simp add: rb_find_from.simps)
next
  case (2 key c l x k r rt)
  then have "key_of s x = k" "left_of s x = ptr l" "right_of s x = ptr rt" by (auto simp: zip_rep_def)
  with 2 show ?case by (subst rb_find_from.simps) (auto simp: zip_up)
qed

lemma rb_insert_descend_descend:
  "zip_rep s c t \<Longrightarrow>
   rb_insert_descend s key (cpar c) (ptr t) =
     Some (if snd (descend key c t) = Lf then Inr (cpar (fst (descend key c t))) else Inl ())"
proof (induction key c t rule: descend.induct)
  case (1 key c)
  then show ?case by (simp add: rb_insert_descend.simps)
next
  case (2 key c l x k r rt)
  then have "key_of s x = k" "left_of s x = ptr l" "right_of s x = ptr rt" by (auto simp: zip_rep_def)
  with 2 show ?case by (subst rb_insert_descend.simps) (auto simp: zip_up)
qed

lemma rb_lookup_Some:
  assumes "(x, key) \<in> set es" "sorted_wrt (<) (map snd es)"
  shows "rb_lookup es key = Some x"
proof -
  have "distinct (map snd es)"
    using assms(2) by (simp add: strict_sorted_iff)
  then have "distinct (map fst (map prod.swap es))" by (simp add: comp_def)
  then show ?thesis
    unfolding rb_lookup_def using assms(1) by (intro map_of_is_SomeI) (simp_all add: pair_in_swap_image)
qed

lemma rb_lookup_None: "rb_lookup es key = None \<longleftrightarrow> key \<notin> snd ` set es"
  by (simp add: rb_lookup_def map_of_eq_None_iff image_image)

lemma descend_lookup:
  assumes "bst t"
  shows "ptr (snd (descend key c t)) = rb_lookup (elems t) key"
proof -
  obtain c' t' where d: "descend key c t = (c', t')" by fastforce
  show ?thesis
  proof (cases t')
    case Lf
    then have "rb_lookup (elems t) key = None"
      using d descend_Lf_absent [of key c t c'] assms by (simp add: rb_lookup_None)
    with Lf d show ?thesis by simp
  next
    case (Nd l x k r rt)
    then show ?thesis
      using d descend_Nd_member [of key c t c'] assms
      by (auto simp: bst_def intro!: rb_lookup_Some [symmetric])
  qed
qed

lemma rb_find_ok: "rbtree_ok s es \<Longrightarrow> rb_find s key = Some (rb_lookup es key)"
  by (auto simp: rbtree_ok_def rb_find_def descend_lookup [symmetric, of _ _ "[]"]
      rb_find_from_descend [symmetric] zip_rep_def)

section \<open>The whole insertion\<close>

lemma descend_side:
  assumes "descend key [] t = (Frame d x k r u # c, Lf)" "bst t"
  shows "(key < k) = (d = DL)"
  using descend_bounds [OF assms] by (cases d) auto

text \<open>Linking the new node in at the place where the search ended.\<close>

definition rb_link :: "'n rbtree_t \<Rightarrow> 'n \<Rightarrow> 'n option \<Rightarrow> 'n rbtree_t" where
  "rb_link s z y =
     (let s1 = set_red (set_right (set_left (set_parent s z y) z None) z None) z True
      in case y of
           None \<Rightarrow> set_root s1 (Some z)
         | Some p \<Rightarrow> if key_of s1 z < key_of s1 p then set_left s1 p (Some z)
                    else set_right s1 p (Some z))"

lemma rb_link_zip:
  assumes "zip_rep s c Lf" "z \<notin> cids c"
    and side: "\<And>d x k r u c'. c = Frame d x k r u # c' \<Longrightarrow> (key_of s z < k) = (d = DL)"
  shows "zip_rep (rb_link s z (cpar c)) c (Nd Lf z (key_of s z) True Lf) \<and>
         keeps (insert z (cids c)) s (rb_link s z (cpar c))"
proof (cases c rule: cpar.cases)
  case 1
  then show ?thesis using assms by (auto simp: zip_rep_def rb_link_def Let_def)
next
  case (2 d x k r u c')
  then show ?thesis
    using assms(1,2) side [OF 2] by (cases d) (auto simp: zip_rep_def rb_link_def Let_def)
qed

lemma insort_key_middle:
  assumes "\<forall>e \<in> set xs. f e < f x" "\<forall>e \<in> set ys. f x < (f e :: 'k :: linorder)"
  shows "insort_key f x (xs @ ys) = xs @ x # ys"
  using assms
proof (induction xs)
  case Nil
  then show ?case by (cases ys) (auto simp: less_imp_le)
qed (auto simp: not_le)

lemma tree_rep_keys: "tree_rep s p t \<Longrightarrow> (x, k) \<in> set (elems t) \<Longrightarrow> key_of s x = k"
  by (induction t arbitrary: p) auto

lemma rb_insert_new:
  assumes ok: "rbtree_ok s es" and new: "key_of s z \<notin> snd ` set es"
  shows "\<exists>s'. rb_insert s z = Some (Inr (s', True)) \<and>
              rbtree_ok s' (insort_key snd (z, key_of s z) es) \<and> keeps (insert z (fst ` set es)) s s'"
proof -
  let ?k = "key_of s z" and ?A = "insert z (fst ` set es)"
  obtain t where t: "rb_rep s t" "rb_inv t" "bst t" "elems t = es"
    using ok by (auto simp: rbtree_ok_def)
  obtain c t' where d: "descend ?k [] t = (c, t')" by fastforce
  have lf: "t' = Lf"
    using descend_lookup [OF t(3), of ?k "[]"] d new t(4) by (simp add: rb_lookup_None [THEN iffD2])
  note d = d [unfolded lf]
  have pl: "plug c Lf = t" using descend_plug [OF d] by simp
  have zc: "zip_rep s c Lf" using pl t(1) zip_plug [of s c Lf] by simp
  have es: "es = before c @ after c" using pl t(4) by auto
  have ci: "cids c = fst ` set es" using ids_plug [of c Lf] pl t(4) by (simp add: ids_elems)
  then have A: "cids c \<subseteq> ?A" by auto
  have "z \<notin> fst ` set es"
    using new tree_rep_keys [of s None t z] t by (force simp: zip_rep_def)
  then have zc': "z \<notin> cids c" by (simp add: ci)
  define s1 where "s1 = rb_link s z (cpar c)"
  have side: "(?k < k) = (e = DL)" if "c = Frame e x k r u # c'" for e x k r u c'
    using descend_side [of ?k t e x k r u c'] d t(3) that by blast
  have s1: "zip_rep s1 c (Nd Lf z ?k True Lf)" "keeps (insert z (cids c)) s s1"
    unfolding s1_def using rb_link_zip [OF zc zc'] side by blast+
  have inv: "cinv c 0" using t(2) rb_inv_plug [of c Lf] pl by simp
  have "insert_fixed ?A s1 z (elems (plug c (Nd Lf z ?k True Lf)))"
    by (rule fix_insert_loop_zip [OF s1(1)]) (use inv A in auto)
  then obtain s2 t2 where s2: "fix_insert_loop s1 z = Some (Inr s2)" "rb_rep s2 t2"
    "elems t2 = before c @ (z, ?k) # after c" "rb_inv (paint False t2)" "keeps ?A s1 s2"
    by (auto simp: insert_fixed_def)
  define s3 where "s3 = set_red_if s2 (ptr t2) False"
  have "rb_root s2 = ptr t2" using s2(2) by (simp add: zip_rep_def)
  then have "fix_insert s1 z = Some (Inr s3)"
    using s2(1) by (simp add: fix_insert_def s3_def)
  moreover have "rb_insert_descend s ?k None (rb_root s) = Some (Inr (cpar c))"
    using rb_insert_descend_descend [OF t(1), of ?k] d t(1) by (simp add: zip_rep_def)
  ultimately have "rb_insert s z = Some (Inr (s3, True))"
    by (simp add: rb_insert_def s1_def rb_link_def Let_def)
  moreover have "rb_rep s3 (paint False t2)"
    unfolding s3_def using s2(2) by (rule zip_rep_set_red_if)
  moreover have ins: "insort_key snd (z, ?k) es = before c @ (z, ?k) # after c"
    using descend_bounds [OF d t(3)] by (auto simp: es intro!: insort_key_middle)
  moreover have "bst (paint False t2)"
    using t(3,4) descend_bounds [OF d t(3)] s2(3) by (auto simp: bst_def es sorted_wrt_append)
  moreover have "keeps ?A s s3"
  proof -
    have "keeps ?A s s2" using keeps_trans [OF keeps_mono [OF s1(2)] s2(5)] A by blast
    moreover have "ids t2 \<subseteq> ?A" using s2(3) by (auto simp: ids_elems es)
    ultimately show ?thesis unfolding s3_def by simp
  qed
  ultimately show ?thesis
    using s2 unfolding rbtree_ok_def by (metis paint_simps(3))
qed

lemma rb_insert_duplicate:
  assumes ok: "rbtree_ok s es" and old: "key_of s z \<in> snd ` set es"
  shows "rb_insert s z = Some (Inr (s, False))"
proof -
  let ?k = "key_of s z"
  obtain t where t: "rb_rep s t" "bst t" "elems t = es" using ok by (auto simp: rbtree_ok_def)
  have "rb_lookup es ?k \<noteq> None" using old by (simp add: rb_lookup_None)
  then have "snd (descend ?k [] t) \<noteq> Lf" using descend_lookup [OF t(2), of ?k "[]"] t(3) by auto
  then have "rb_insert_descend s ?k None (rb_root s) = Some (Inl ())"
    using rb_insert_descend_descend [OF t(1), of ?k] t(1) by (simp add: zip_rep_def)
  then show ?thesis by (simp add: rb_insert_def)
qed

end
