(* ===== verification/Rbtree_Remove.thy ===== *)
theory Rbtree_Remove
  imports Rbtree_Correct
begin

text \<open>
  Correctness of \<^verbatim>\<open>rb_remove\<close>: the fix-up loop restores the red-black invariant after a black
  node has left the tree, and the splice replaces the node by its successor.
\<close>

section \<open>The fix-up loop\<close>

definition remove_fixed ::
  "'n set \<Rightarrow> 'n rbtree_t \<Rightarrow> 'n option \<Rightarrow> 'n option \<Rightarrow> ('n \<times> u64) list \<Rightarrow> bool" where
  "remove_fixed A s x xp es \<longleftrightarrow>
     (\<exists>s' t'. fix_remove s x xp = Some (Inr s') \<and> rb_rep s' t' \<and> rb_inv t' \<and> elems t' = es \<and>
              keeps A s s')"

lemma ctx_root: "ctx_rep s c q \<Longrightarrow> c \<noteq> [] \<Longrightarrow> \<exists>x \<in> cids c. rb_root s = Some x"
proof (induction c arbitrary: q rule: cids.induct)
  case (2 d x k r u c)
  then show ?case by (cases "c = []") auto
qed simp

lemma zip_not_root:
  assumes "zip_rep s c t" "c \<noteq> []"
  shows "ptr t \<noteq> rb_root s"
  using ctx_root [of s c "ptr t"] assms by (metis IntI emptyE ptr_ids zip_rep_def)

text \<open>A tree in a hole that is one short in black height.\<close>

definition short :: "'n set \<Rightarrow> 'n ctx \<Rightarrow> 'n shape \<Rightarrow> bool" where
  "short A c t \<longleftrightarrow>
     cinv c (Suc (bh t)) \<and> invc (paint False t) \<and> invh t \<and> ids t \<union> cids c \<subseteq> A"

lemma remove_fixed_stop:
  assumes "zip_rep s c t" "short A c t" "redt t \<or> c = []"
  shows "remove_fixed A s (ptr t) (cpar c) (elems (plug c t))"
proof -
  have "\<not> (ptr t \<noteq> rb_root s \<and> \<not> is_red s (ptr t))"
    using assms by (auto simp: zip_rep_def)
  then have "fix_remove_loop s (ptr t) (cpar c) = Some (Inr (s, ptr t))"
    by (subst fix_remove_loop.simps) auto
  moreover have "rb_rep (set_red_if s (ptr t) False) (plug c (paint False t))"
    using zip_rep_set_red_if [OF assms(1), of False] by (simp only: zip_plug [symmetric])
  moreover have "rb_inv (plug c (paint False t))"
    using assms(2,3) by (auto simp: rb_inv_plug short_def bh_paint_red)
  moreover have "keeps A s (set_red_if s (ptr t) False)"
    using assms(2) by (auto simp: short_def)
  ultimately show ?thesis
    unfolding remove_fixed_def fix_remove_def
    by (intro exI [of _ "set_red_if s (ptr t) False"] exI [of _ "plug c (paint False t)"]) simp
qed

text \<open>The two ways an iteration with a black sibling can end: one level up, or finished.\<close>

definition moved_up ::
  "'n set \<Rightarrow> 'n rbtree_t \<Rightarrow> 'n ctx \<Rightarrow> 'n shape \<Rightarrow> bool \<Rightarrow>
   ('n rbtree_t \<times> 'n option \<times> 'n option \<times> bool) res \<Rightarrow> bool" where
  "moved_up A s c t red r \<longleftrightarrow>
     (\<exists>s' t'. r = Inr (s', ptr t', cpar c, False) \<and> zip_rep s' c t' \<and> short A c t' \<and>
              redt t' = red \<and> elems t' = elems t \<and> keeps A s s')"

definition finished ::
  "'n set \<Rightarrow> 'n rbtree_t \<Rightarrow> 'n ctx \<Rightarrow> 'n shape \<Rightarrow>
   ('n rbtree_t \<times> 'n option \<times> 'n option \<times> bool) res \<Rightarrow> bool" where
  "finished A s c t r \<longleftrightarrow>
     (\<exists>s' t' q. r = Inr (s', rb_root s', q, True) \<and> zip_rep s' c t' \<and> rb_inv (plug c t') \<and>
                elems t' = elems t \<and> keeps A s s')"

lemma moved_up_from: "moved_up A s1 c t b r \<Longrightarrow> keeps A s s1 \<Longrightarrow> moved_up A s c t b r"
  unfolding moved_up_def by (blast intro: keeps_trans)

lemma finished_from: "finished A s1 c t r \<Longrightarrow> keeps A s s1 \<Longrightarrow> finished A s c t r"
  unfolding finished_def by (blast intro: keeps_trans)

lemma recolor_right3:
  assumes "zip_rep s c (Nd t p kp rp (Nd wl w kw rw wr))"
  shows "zip_rep (set_red_if (set_red (set_red s w b1) p b2) (ptr wr) b3) c
           (Nd t p kp b2 (Nd wl w kw b1 (paint b3 wr)))"
proof -
  from zip_rep_set_red_right [OF assms]
  have "zip_rep (set_red (set_red s w b1) p b2) (Frame DR w kw b1 wl # Frame DR p kp b2 t # c) wr"
    by (simp add: zip_up)
  from zip_rep_set_red_if [OF this, of b3] show ?thesis by (simp add: zip_up)
qed

lemma recolor_left3:
  assumes "zip_rep s c (Nd (Nd wl w kw rw wr) p kp rp t)"
  shows "zip_rep (set_red_if (set_red (set_red s w b1) p b2) (ptr wl) b3) c
           (Nd (Nd (paint b3 wl) w kw b1 wr) p kp b2 t)"
proof -
  from zip_rep_set_red_left [OF assms]
  have "zip_rep (set_red (set_red s w b1) p b2) (Frame DL w kw b1 wr # Frame DL p kp b2 t # c) wl"
    by (simp add: zip_up)
  from zip_rep_set_red_if [OF this, of b3] show ?thesis by (simp add: zip_up)
qed

lemma black_left_up:
  assumes z: "zip_rep s c (Nd t p kp rp (Nd wl w kw False wr))"
    and inv: "short A (Frame DL p kp rp (Nd wl w kw False wr) # c) t" "\<not> redt t"
      "\<not> redt wl" "\<not> redt wr"
  shows "moved_up A s c (Nd t p kp rp (Nd wl w kw False wr)) rp (fix_remove_left_black s p w)"
proof -
  have "zip_rep s (Frame DR p kp rp t # c) (Nd wl w kw False wr)"
    using z by (simp add: zip_up)
  from zip_rep_set_red [OF this, of True]
  have z': "zip_rep (set_red s w True) c (Nd t p kp rp (Nd wl w kw True wr))"
    by (simp add: zip_up)
  have "fix_remove_left_black s p w = Inr (set_red s w True, Some p, cpar c, False)"
    using z inv is_red_ptr [of s "Some w"]
    by (auto simp: fix_remove_left_black_def Let_def zip_rep_def)
  then show ?thesis
    unfolding moved_up_def using z' inv
    by (intro exI [of _ "set_red s w True"] exI [of _ "Nd t p kp rp (Nd wl w kw True wr)"])
      (auto simp: short_def paint_idle)
qed

lemma black_left_far:
  assumes z: "zip_rep s c (Nd t p kp rp (Nd wl w kw False wr))"
    and inv: "short A (Frame DL p kp rp (Nd wl w kw False wr) # c) t" "\<not> redt t" "redt wr"
  shows "finished A s c (Nd t p kp rp (Nd wl w kw False wr)) (fix_remove_left_black s p w)"
proof -
  define s5 where "s5 = set_red_if (set_red (set_red s w rp) p False) (ptr wr) False"
  have "zip_rep s5 c (Nd t p kp False (Nd wl w kw rp (paint False wr)))"
    unfolding s5_def using z by (rule recolor_right3)
  from left_rotate_zip [OF this, of A] inv(1)
  obtain s6 where s6: "left_rotate s5 p = Inr s6"
    "zip_rep s6 c (Nd (Nd t p kp False wl) w kw rp (paint False wr))" "keeps A s5 s6"
    by (auto simp: short_def)
  have "keeps A s s6"
    by (rule keeps_trans [OF _ s6(3)]) (use inv(1) in \<open>auto simp: s5_def short_def\<close>)
  moreover have "fix_remove_left_black s p w = Inr (s6, rb_root s6, Some p, True)"
    using z inv(3) s6(1) is_red_ptr [of s "Some w" wr]
    by (auto simp: fix_remove_left_black_def Let_def zip_rep_def s5_def set_red_if_def)
  moreover have "rb_inv (plug c (Nd (Nd t p kp False wl) w kw rp (paint False wr)))"
    using inv by (auto simp: rb_inv_plug short_def bh_paint_red paint_idle)
  ultimately show ?thesis
    unfolding finished_def using s6(2) by (intro exI conjI) (assumption | simp)+
qed

lemma black_left_near:
  assumes z: "zip_rep s c (Nd t p kp rp (Nd (Nd a v kv True b) w kw False wr))"
    and inv: "short A (Frame DL p kp rp (Nd (Nd a v kv True b) w kw False wr) # c) t"
      "\<not> redt t" "\<not> redt wr"
  shows "finished A s c (Nd t p kp rp (Nd (Nd a v kv True b) w kw False wr))
           (fix_remove_left_black s p w)"
proof -
  define s1 where "s1 = set_red (set_red s v False) w True"
  have "zip_rep s (Frame DR p kp rp t # c) (Nd (Nd a v kv True b) w kw False wr)"
    using z by (simp add: zip_up)
  from zip_rep_set_red_left [OF this, of False True]
  have "zip_rep s1 (Frame DR p kp rp t # c) (Nd (Nd a v kv False b) w kw True wr)"
    unfolding s1_def .
  from right_rotate_zip [OF this, of A] inv(1)
  obtain s2 where s2: "right_rotate s1 w = Inr s2" "keeps A s1 s2"
    "zip_rep s2 c (Nd t p kp rp (Nd a v kv False (Nd b w kw True wr)))"
    by (auto simp: short_def zip_up)
  define s5 where "s5 = set_red_if (set_red (set_red s2 v rp) p False) (ptr (Nd b w kw True wr)) False"
  have "zip_rep s5 c (Nd t p kp False (Nd a v kv rp (Nd b w kw False wr)))"
    unfolding s5_def using recolor_right3 [OF s2(3), of rp False False] by simp
  from left_rotate_zip [OF this, of A] inv(1)
  obtain s6 where s6: "left_rotate s5 p = Inr s6"
    "zip_rep s6 c (Nd (Nd t p kp False a) v kv rp (Nd b w kw False wr))" "keeps A s5 s6"
    by (auto simp: short_def)
  have "keeps A s s1" using inv(1) by (auto simp: s1_def short_def)
  then have "keeps A s s5"
    using keeps_trans [OF _ s2(2)] inv(1) unfolding s5_def short_def by (intro keeps_set keeps_set_if) auto
  then have "keeps A s s6" using s6(3) by (rule keeps_trans)
  moreover have "fix_remove_left_black s p w = Inr (s6, rb_root s6, Some p, True)"
  proof -
    have e: "left_of s w = Some v" "right_of s w = ptr wr" "red_of s v"
      "\<not> is_red s (right_of s w)"
      using z inv(3) is_red_ptr [of s "Some w" wr] by (simp_all add: zip_rep_def)
    have "right_of s2 p = Some v" "red_of s2 p = rp" "right_of s2 v = Some w" "v \<noteq> p" "v \<noteq> w" "w \<noteq> p"
      using s2(3) by (auto simp: zip_rep_def)
    with e s2(1) s6(1) show ?thesis
      by (simp add: fix_remove_left_black_def Let_def s1_def s5_def set_red_if_def is_red_def)
  qed
  moreover have "rb_inv (plug c (Nd (Nd t p kp False a) v kv rp (Nd b w kw False wr)))"
    using inv by (auto simp: rb_inv_plug short_def paint_idle)
  ultimately show ?thesis
    unfolding finished_def using s6(2) by (intro exI conjI) (assumption | simp)+
qed

lemma black_right_up:
  assumes z: "zip_rep s c (Nd (Nd wl w kw False wr) p kp rp t)"
    and inv: "short A (Frame DR p kp rp (Nd wl w kw False wr) # c) t" "\<not> redt t"
      "\<not> redt wl" "\<not> redt wr"
  shows "moved_up A s c (Nd (Nd wl w kw False wr) p kp rp t) rp (fix_remove_right_black s p w)"
proof -
  have "zip_rep s (Frame DL p kp rp t # c) (Nd wl w kw False wr)"
    using z by (simp add: zip_up)
  from zip_rep_set_red [OF this, of True]
  have z': "zip_rep (set_red s w True) c (Nd (Nd wl w kw True wr) p kp rp t)"
    by (simp add: zip_up)
  have "fix_remove_right_black s p w = Inr (set_red s w True, Some p, cpar c, False)"
    using z inv is_red_ptr [of s "Some w"]
    by (auto simp: fix_remove_right_black_def Let_def zip_rep_def)
  then show ?thesis
    unfolding moved_up_def using z' inv
    by (intro exI [of _ "set_red s w True"] exI [of _ "Nd (Nd wl w kw True wr) p kp rp t"])
      (auto simp: short_def paint_idle)
qed

lemma black_right_far:
  assumes z: "zip_rep s c (Nd (Nd wl w kw False wr) p kp rp t)"
    and inv: "short A (Frame DR p kp rp (Nd wl w kw False wr) # c) t" "\<not> redt t" "redt wl"
  shows "finished A s c (Nd (Nd wl w kw False wr) p kp rp t) (fix_remove_right_black s p w)"
proof -
  define s5 where "s5 = set_red_if (set_red (set_red s w rp) p False) (ptr wl) False"
  have "zip_rep s5 c (Nd (Nd (paint False wl) w kw rp wr) p kp False t)"
    unfolding s5_def using z by (rule recolor_left3)
  from right_rotate_zip [OF this, of A] inv(1)
  obtain s6 where s6: "right_rotate s5 p = Inr s6"
    "zip_rep s6 c (Nd (paint False wl) w kw rp (Nd wr p kp False t))" "keeps A s5 s6"
    by (auto simp: short_def)
  have "keeps A s s6"
    by (rule keeps_trans [OF _ s6(3)]) (use inv(1) in \<open>auto simp: s5_def short_def\<close>)
  moreover have "fix_remove_right_black s p w = Inr (s6, rb_root s6, Some p, True)"
    using z inv(3) s6(1) is_red_ptr [of s "Some w" wl]
    by (auto simp: fix_remove_right_black_def Let_def zip_rep_def s5_def set_red_if_def)
  moreover have "rb_inv (plug c (Nd (paint False wl) w kw rp (Nd wr p kp False t)))"
    using inv by (auto simp: rb_inv_plug short_def bh_paint_red paint_idle)
  ultimately show ?thesis
    unfolding finished_def using s6(2) by (intro exI conjI) (assumption | simp)+
qed

lemma black_right_near:
  assumes z: "zip_rep s c (Nd (Nd wl w kw False (Nd a v kv True b)) p kp rp t)"
    and inv: "short A (Frame DR p kp rp (Nd wl w kw False (Nd a v kv True b)) # c) t"
      "\<not> redt t" "\<not> redt wl"
  shows "finished A s c (Nd (Nd wl w kw False (Nd a v kv True b)) p kp rp t)
           (fix_remove_right_black s p w)"
proof -
  define s1 where "s1 = set_red (set_red s v False) w True"
  have "zip_rep s (Frame DL p kp rp t # c) (Nd wl w kw False (Nd a v kv True b))"
    using z by (simp add: zip_up)
  from zip_rep_set_red_right [OF this, of False True]
  have "zip_rep s1 (Frame DL p kp rp t # c) (Nd wl w kw True (Nd a v kv False b))"
    unfolding s1_def .
  from left_rotate_zip [OF this, of A] inv(1)
  obtain s2 where s2: "left_rotate s1 w = Inr s2" "keeps A s1 s2"
    "zip_rep s2 c (Nd (Nd (Nd wl w kw True a) v kv False b) p kp rp t)"
    by (auto simp: short_def zip_up)
  define s5 where "s5 = set_red_if (set_red (set_red s2 v rp) p False) (ptr (Nd wl w kw True a)) False"
  have "zip_rep s5 c (Nd (Nd (Nd wl w kw False a) v kv rp b) p kp False t)"
    unfolding s5_def using recolor_left3 [OF s2(3), of rp False False] by simp
  from right_rotate_zip [OF this, of A] inv(1)
  obtain s6 where s6: "right_rotate s5 p = Inr s6"
    "zip_rep s6 c (Nd (Nd wl w kw False a) v kv rp (Nd b p kp False t))" "keeps A s5 s6"
    by (auto simp: short_def)
  have "keeps A s s1" using inv(1) by (auto simp: s1_def short_def)
  then have "keeps A s s5"
    using keeps_trans [OF _ s2(2)] inv(1) unfolding s5_def short_def by (intro keeps_set keeps_set_if) auto
  then have "keeps A s s6" using s6(3) by (rule keeps_trans)
  moreover have "fix_remove_right_black s p w = Inr (s6, rb_root s6, Some p, True)"
  proof -
    have e: "right_of s w = Some v" "left_of s w = ptr wl" "red_of s v"
      "\<not> is_red s (left_of s w)"
      using z inv(3) is_red_ptr [of s "Some w" wl] by (simp_all add: zip_rep_def)
    have "left_of s2 p = Some v" "red_of s2 p = rp" "left_of s2 v = Some w" "v \<noteq> p" "v \<noteq> w" "w \<noteq> p"
      using s2(3) by (auto simp: zip_rep_def)
    with e s2(1) s6(1) show ?thesis
      by (simp add: fix_remove_right_black_def Let_def s1_def s5_def set_red_if_def is_red_def)
  qed
  moreover have "rb_inv (plug c (Nd (Nd wl w kw False a) v kv rp (Nd b p kp False t)))"
    using inv by (auto simp: rb_inv_plug short_def paint_idle)
  ultimately show ?thesis
    unfolding finished_def using s6(2) by (intro exI conjI) (assumption | simp)+
qed

lemma black_left:
  assumes "zip_rep s c (Nd t p kp rp (Nd wl w kw False wr))" "\<not> redt t"
    "short A (Frame DL p kp rp (Nd wl w kw False wr) # c) t"
  shows "moved_up A s c (Nd t p kp rp (Nd wl w kw False wr)) rp (fix_remove_left_black s p w) \<or>
         finished A s c (Nd t p kp rp (Nd wl w kw False wr)) (fix_remove_left_black s p w)"
proof (cases "redt wr")
  case True
  then show ?thesis using black_left_far [OF assms(1,3,2)] by simp
next
  case wr: False
  show ?thesis
  proof (cases "redt wl")
    case True
    then obtain a v kv b where n: "wl = Nd a v kv True b" by (cases wl) auto
    show ?thesis using black_left_near [OF assms(1,3) [unfolded n] assms(2) wr] n by simp
  next
    case False
    then show ?thesis using black_left_up [OF assms(1,3,2)] wr by simp
  qed
qed

lemma black_right:
  assumes "zip_rep s c (Nd (Nd wl w kw False wr) p kp rp t)" "\<not> redt t"
    "short A (Frame DR p kp rp (Nd wl w kw False wr) # c) t"
  shows "moved_up A s c (Nd (Nd wl w kw False wr) p kp rp t) rp (fix_remove_right_black s p w) \<or>
         finished A s c (Nd (Nd wl w kw False wr) p kp rp t) (fix_remove_right_black s p w)"
proof (cases "redt wl")
  case True
  then show ?thesis using black_right_far [OF assms(1,3,2)] by simp
next
  case wl: False
  show ?thesis
  proof (cases "redt wr")
    case True
    then obtain a v kv b where n: "wr = Nd a v kv True b" by (cases wr) auto
    show ?thesis using black_right_near [OF assms(1,3) [unfolded n] assms(2) wl] n by simp
  next
    case False
    then show ?thesis using black_right_up [OF assms(1,3,2)] wl by simp
  qed
qed

text \<open>A red sibling: after the rotation the sibling is black and the parent red.\<close>

lemma red_left:
  assumes z: "zip_rep s c (Nd t p kp False (Nd wl w kw True wr))" "\<not> redt t"
    and inv: "short A (Frame DL p kp False (Nd wl w kw True wr) # c) t"
  shows "moved_up A s (Frame DL w kw False wr # c) (Nd t p kp True wl) True (fix_remove_left s p) \<or>
         finished A s (Frame DL w kw False wr # c) (Nd t p kp True wl) (fix_remove_left s p)"
proof -
  let ?s = "set_red (set_red s w False) p True"
  obtain l v k r where wl: "wl = Nd l v k False r" using inv by (cases wl) (auto simp: short_def)
  from left_rotate_zip [OF zip_rep_set_red_right [OF z(1)], of A False True] inv
  obtain s1 where s1: "left_rotate ?s p = Inr s1" "keeps A ?s s1"
    "zip_rep s1 (Frame DL w kw False wr # c) (Nd t p kp True wl)"
    by (auto simp: short_def zip_up)
  have "fix_remove_left s p = fix_remove_left_black s1 p v"
    using z(1) s1(1,3) wl by (simp add: fix_remove_left_def fix_remove_left_red_def zip_rep_def)
  moreover have "short A (Frame DL p kp True wl # Frame DL w kw False wr # c) t"
    using inv wl by (auto simp: short_def)
  moreover have "keeps A s s1"
    by (rule keeps_trans [OF _ s1(2)]) (use inv in \<open>auto simp: short_def\<close>)
  ultimately show ?thesis
    using black_left [OF s1(3) [unfolded wl] z(2), folded wl] moved_up_from finished_from by metis
qed

lemma red_right:
  assumes z: "zip_rep s c (Nd (Nd wl w kw True wr) p kp False t)" "\<not> redt t"
    and inv: "short A (Frame DR p kp False (Nd wl w kw True wr) # c) t"
  shows "moved_up A s (Frame DR w kw False wl # c) (Nd wr p kp True t) True (fix_remove_right s p) \<or>
         finished A s (Frame DR w kw False wl # c) (Nd wr p kp True t) (fix_remove_right s p)"
proof -
  let ?s = "set_red (set_red s w False) p True"
  obtain l v k r where wr: "wr = Nd l v k False r" using inv by (cases wr) (auto simp: short_def)
  from right_rotate_zip [OF zip_rep_set_red_left [OF z(1)], of A False True] inv
  obtain s1 where s1: "right_rotate ?s p = Inr s1" "keeps A ?s s1"
    "zip_rep s1 (Frame DR w kw False wl # c) (Nd wr p kp True t)"
    by (auto simp: short_def zip_up)
  have "fix_remove_right s p = fix_remove_right_black s1 p v"
    using z(1) s1(1,3) wr by (simp add: fix_remove_right_def fix_remove_right_red_def zip_rep_def)
  moreover have "short A (Frame DR p kp True wr # Frame DR w kw False wl # c) t"
    using inv wr by (auto simp: short_def)
  moreover have "keeps A s s1"
    by (rule keeps_trans [OF _ s1(2)]) (use inv in \<open>auto simp: short_def\<close>)
  ultimately show ?thesis
    using black_right [OF s1(3) [unfolded wr] z(2), folded wr] moved_up_from finished_from by metis
qed

lemma set_red_same:
  assumes "red_of s x = b"
  shows "set_red s x b = s"
proof -
  have "(rb_mem s x)\<lparr>rb_red := b\<rparr> = rb_mem s x" using assms by (cases "rb_mem s x") simp
  then show ?thesis by (simp add: set_red_def rb_upd_def)
qed

lemma set_red_if_black:
  assumes "rb_rep s t" "\<not> redt t"
  shows "set_red_if s (ptr t) False = s"
  using assms by (cases t) (auto simp: zip_rep_def set_red_if_def set_red_same)

text \<open>One iteration, for a tree that is black and not the root.\<close>

lemma remove_fixed_finished:
  assumes "zip_rep s (f # c') t" "\<not> redt t"
    "r = (if ptr t = left_of s p then fix_remove_left s p else fix_remove_right s p)"
    "finished A s c T r"
  shows "remove_fixed A s (ptr t) (Some p) (elems (plug c T))"
proof -
  obtain s' T' q where f: "r = Inr (s', rb_root s', q, True)" "zip_rep s' c T'" "rb_inv (plug c T')"
    "elems T' = elems T" "keeps A s s'" using assms(4) by (auto simp: finished_def)
  have "\<not> is_red s (ptr t)" using assms(1,2) by (auto simp: zip_rep_def)
  then have "fix_remove_loop s (ptr t) (Some p) = Some (Inr (s', rb_root s'))"
    using f(1) assms(3) zip_not_root [OF assms(1)]
    by (subst fix_remove_loop.simps) (auto split: if_splits)
  moreover have "rb_rep s' (plug c T')" using f(2) by (simp only: zip_plug [symmetric])
  moreover have "set_red_if s' (ptr (plug c T')) False = s'"
    using calculation(2) f(3) by (intro set_red_if_black) (auto simp: rb_inv_def)
  ultimately show ?thesis
    unfolding remove_fixed_def fix_remove_def using f
    by (intro exI [of _ s'] exI [of _ "plug c T'"]) (simp add: zip_rep_def)
qed

lemma remove_fixed_up:
  assumes "zip_rep s (f # c') t" "\<not> redt t"
    "r = (if ptr t = left_of s p then fix_remove_left s p else fix_remove_right s p)"
    "moved_up A s c T b r"
    and rest: "\<And>s' t'. zip_rep s' c t' \<Longrightarrow> short A c t' \<Longrightarrow> redt t' = b \<Longrightarrow>
       remove_fixed A s' (ptr t') (cpar c) (elems (plug c t'))"
  shows "remove_fixed A s (ptr t) (Some p) (elems (plug c T))"
proof -
  obtain s' t' where m: "r = Inr (s', ptr t', cpar c, False)" "zip_rep s' c t'" "short A c t'"
    "redt t' = b" "elems t' = elems T" "keeps A s s'" using assms(4) by (auto simp: moved_up_def)
  have "\<not> is_red s (ptr t)" using assms(1,2) by (auto simp: zip_rep_def)
  then have "fix_remove_loop s (ptr t) (Some p) = fix_remove_loop s' (ptr t') (cpar c)"
    using m(1) assms(3) zip_not_root [OF assms(1)]
    by (subst fix_remove_loop.simps) (auto split: if_splits)
  then show ?thesis
    using rest [OF m(2-4)] m(5,6) unfolding remove_fixed_def fix_remove_def elems_plug
    by (metis keeps_trans)
qed

lemma left_child_test:
  assumes "zip_rep s (Frame d p kp rp w # c) t" "short A (Frame d p kp rp w # c) t"
  shows "(ptr t = left_of s p) = (d = DL)"
proof (cases d)
  case DL
  then show ?thesis using assms by (auto simp: zip_rep_def)
next
  case DR
  from assms(2) have "bh w = Suc (bh t)" by (simp add: short_def)
  then obtain l x k r rt where "w = Nd l x k r rt" by (rule bh_Suc_cases)
  with DR assms(1) show ?thesis by (auto simp: zip_rep_def dest: ptr_ids)
qed

definition iterated ::
  "'n set \<Rightarrow> 'n rbtree_t \<Rightarrow> 'n ctx \<Rightarrow> 'n shape \<Rightarrow>
   ('n rbtree_t \<times> 'n option \<times> 'n option \<times> bool) res \<Rightarrow> bool" where
  "iterated A s c t r \<longleftrightarrow>
     (\<exists>b. moved_up A s c t b r) \<or> finished A s c t r \<or>
     (\<exists>f t'. elems (plug1 f t') = elems t \<and>
             (moved_up A s (f # c) t' True r \<or> finished A s (f # c) t' r))"

lemma iterated_left:
  assumes z: "zip_rep s c (Nd t p kp rp w)" and t: "\<not> redt t"
    and inv: "short A (Frame DL p kp rp w # c) t"
  shows "iterated A s c (Nd t p kp rp w) (fix_remove_left s p)"
proof -
  from inv have "bh w = Suc (bh t)" by (simp add: short_def)
  then obtain wl x k r wr where w: "w = Nd wl x k r wr" by (rule bh_Suc_cases)
  show ?thesis
  proof (cases r)
    case True
    with inv w have rp: "rp = False" by (auto simp: short_def)
    show ?thesis
      using red_left [of s c t p kp wl x k wr A] z t inv
      unfolding iterated_def w rp True eqTrueI [OF True]
      by (intro disjI2, intro exI [of _ "Frame DL x k False wr"] exI [of _ "Nd t p kp True wl"]) auto
  next
    case False
    then have "fix_remove_left s p = fix_remove_left_black s p x"
      using z w by (simp add: fix_remove_left_def fix_remove_left_red_def zip_rep_def)
    then show ?thesis
      using black_left [of s c t p kp rp wl x k wr A] z t inv False w unfolding iterated_def by auto
  qed
qed

lemma iterated_right:
  assumes z: "zip_rep s c (Nd w p kp rp t)" and t: "\<not> redt t"
    and inv: "short A (Frame DR p kp rp w # c) t"
  shows "iterated A s c (Nd w p kp rp t) (fix_remove_right s p)"
proof -
  from inv have "bh w = Suc (bh t)" by (simp add: short_def)
  then obtain wl x k r wr where w: "w = Nd wl x k r wr" by (rule bh_Suc_cases)
  show ?thesis
  proof (cases r)
    case True
    with inv w have rp: "rp = False" by (auto simp: short_def)
    show ?thesis
      using red_right [of s c wl x k wr p kp t A] z t inv
      unfolding iterated_def w rp True eqTrueI [OF True]
      by (intro disjI2, intro exI [of _ "Frame DR x k False wl"] exI [of _ "Nd wr p kp True t"]) auto
  next
    case False
    then have "fix_remove_right s p = fix_remove_right_black s p x"
      using z w by (simp add: fix_remove_right_def fix_remove_right_red_def zip_rep_def)
    then show ?thesis
      using black_right [of s c wl x k wr p kp rp t A] z t inv False w unfolding iterated_def by auto
  qed
qed

lemma remove_iteration:
  assumes z: "zip_rep s (f # c) t" "cpar (f # c) = Some p" and inv: "short A (f # c) t"
    and t: "\<not> redt t"
    and rest: "\<And>s' t'. zip_rep s' c t' \<Longrightarrow> short A c t' \<Longrightarrow>
       remove_fixed A s' (ptr t') (cpar c) (elems (plug c t'))"
  shows "remove_fixed A s (ptr t) (Some p) (elems (plug (f # c) t))"
proof -
  obtain d kp rp w where f: "f = Frame d p kp rp w" using z(2) by (cases f) auto
  define r where "r = (if ptr t = left_of s p then fix_remove_left s p else fix_remove_right s p)"
  have "iterated A s c (plug1 f t) r"
    using iterated_left [of s c t p kp rp w A] iterated_right [of s c w p kp rp t A] z(1) t inv
      left_child_test [of s d p kp rp w c t A]
    by (cases d) (auto simp: r_def f zip_up)
  note it = this [unfolded iterated_def]
  note up = remove_fixed_up [OF z(1) t r_def] and fin = remove_fixed_finished [OF z(1) t r_def]
  from it consider b where "moved_up A s c (plug1 f t) b r" | "finished A s c (plug1 f t) r"
    | g u where "elems (plug1 g u) = elems (plug1 f t)" "moved_up A s (g # c) u True r"
    | g u where "elems (plug1 g u) = elems (plug1 f t)" "finished A s (g # c) u r"
    by blast
  then show ?thesis
  proof cases
    case 1
    then show ?thesis using up rest by (metis plug.simps(2))
  next
    case 2
    then show ?thesis using fin by (metis plug.simps(2))
  next
    case (3 g u)
    then have "remove_fixed A s (ptr t) (Some p) (elems (plug (g # c) u))"
      using up remove_fixed_stop by metis
    then show ?thesis using 3(1) by simp
  next
    case (4 g u)
    then have "remove_fixed A s (ptr t) (Some p) (elems (plug (g # c) u))"
      using fin by metis
    then show ?thesis using 4(1) by simp
  qed
qed

lemma fix_remove_zip:
  "zip_rep s c t \<Longrightarrow> short A c t \<Longrightarrow> remove_fixed A s (ptr t) (cpar c) (elems (plug c t))"
proof (induction c arbitrary: s t)
  case Nil
  then show ?case by (intro remove_fixed_stop) auto
next
  case (Cons f c)
  then obtain p where p: "cpar (f # c) = Some p" by (cases f) auto
  show ?case
    using remove_fixed_stop [OF Cons.prems] remove_iteration [OF Cons.prems(1) p Cons.prems(2)] Cons.IH p
    by (cases "redt t") auto
qed

end
