(* ===== verification/Rbtree_Splice.thy ===== *)
theory Rbtree_Splice
  imports Rbtree_Remove
begin

text \<open>
  The first half of \<^verbatim>\<open>rb_remove\<close> (splicing the node out), the whole removal, and the in-order
  traversal \<^verbatim>\<open>rb_first\<close>/\<^verbatim>\<open>rb_next\<close>.
\<close>

section \<open>Minimum and transplant\<close>

fun spine :: "'n ctx \<Rightarrow> 'n shape \<Rightarrow> 'n ctx \<times> 'n shape" where
  "spine c Lf = (c, Lf)"
| "spine c (Nd l x k r rt) = (if l = Lf then (c, Nd l x k r rt) else spine (Frame DL x k r rt # c) l)"

lemma spine_plug: "spine c t = (c', t') \<Longrightarrow> plug c' t' = plug c t"
  by (induction c t rule: spine.induct) (auto split: if_splits)

lemma spine_min: "spine c t = (c', t') \<Longrightarrow> t \<noteq> Lf \<Longrightarrow> \<exists>x k r rt. t' = Nd Lf x k r rt"
  by (induction c t rule: spine.induct) (auto split: if_splits)

lemma spine_before: "spine c t = (c', t') \<Longrightarrow> before c' = before c"
  by (induction c t rule: spine.induct) (auto split: if_splits)

lemma tree_min_spine: "tree_rep s p t \<Longrightarrow> tree_min s (ptr t) = Some (ptr (snd (spine c t)))"
proof (induction c t arbitrary: p rule: spine.induct)
  case (1 c)
  show ?case by (simp add: tree_min.simps)
next
  case (2 c l x k r rt)
  then have l: "left_of s x = ptr l" "tree_rep s (Some x) l" by auto
  show ?case
  proof (cases "l = Lf")
    case True
    then show ?thesis using l by (simp add: tree_min.simps)
  next
    case False
    then obtain y where "ptr l = Some y" by (cases l) auto
    then show ?thesis using 2 l False by (subst tree_min.simps) simp
  qed
qed

lemma cids_append [simp]: "cids (d @ c) = cids d \<union> cids c"
  by (induction d rule: cids.induct) auto

lemma zip_append: "zip_rep s (d @ c) t = zip_rep s c (plug d t)"
  by (induction d arbitrary: t) (auto simp: zip_up)

lemma transplant_zip:
  assumes z: "zip_rep s c (Nd l z k r rt)"
    and v: "tree_rep s q v" "distinct_t v" "ids v \<inter> cids c = {}" "z \<notin> ids v"
  shows "zip_rep (transplant s z (ptr v)) c v"
    and "\<And>i. i \<notin> cids c \<union> ids v \<Longrightarrow> rb_mem (transplant s z (ptr v)) i = rb_mem s i"
    and "cids c \<union> ids v \<subseteq> A \<Longrightarrow> keeps A s (transplant s z (ptr v))"
proof -
  define s1 where "s1 = set_hole s (cpar c) z (ptr v)"
  have zc: "z \<notin> cids c" "parent_of s z = cpar c" "ctx_rep s c (Some z)" "distinct_c c"
    using z by (auto simp: zip_rep_def)
  have "parent_of s1 z = cpar c" unfolding s1_def using zc by (simp add: set_hole_mem)
  then have eq: "transplant s z (ptr v) = set_parent_if s1 (ptr v) (cpar c)"
    using zc by (simp add: transplant_def s1_def set_hole_def Let_def)
  have "ctx_rep s1 c (ptr v)" unfolding s1_def by (rule ctx_rep_set_hole) (use zc in auto)
  moreover have "tree_rep s1 q v" unfolding s1_def using v by (simp add: tree_rep_set_hole)
  ultimately show "zip_rep (transplant s z (ptr v)) c v"
    unfolding eq zip_rep_def using v zc by (auto intro!: tree_rep_reparent)
  show "rb_mem (transplant s z (ptr v)) i = rb_mem s i" if "i \<notin> cids c \<union> ids v" for i
    unfolding eq s1_def using that by (simp add: set_if_mem set_hole_mem)
  show "keeps A s (transplant s z (ptr v))" if "cids c \<union> ids v \<subseteq> A"
    unfolding eq s1_def using that by (intro keeps_set_if keeps_set_hole) auto
qed

section \<open>Splicing out a node\<close>

text \<open>What the splice has to establish for the tree \<open>Nd l z k r rt\<close> in the context \<open>c\<close>.\<close>

definition spliced :: "'n rbtree_t \<Rightarrow> 'n ctx \<Rightarrow> 'n shape \<Rightarrow> 'n shape \<Rightarrow> 'n \<Rightarrow> bool \<Rightarrow> bool" where
  "spliced s c l rt z ok \<longleftrightarrow>
     (\<exists>s' c' x red. rb_splice s z = Some (Inr (s', ptr x, cpar c', red)) \<and> zip_rep s' c' x \<and>
        elems (plug c' x) = before c @ elems l @ elems rt @ after c \<and>
        (ok \<longrightarrow> (if red then rb_inv (plug c' x) else cinv c' (Suc (bh x)) \<and> invc x \<and> invh x)) \<and>
        keeps (insert z (ids l \<union> ids rt \<union> cids c)) s s')"

lemma splice_no_left:
  assumes z: "zip_rep s c (Nd Lf z k r rt)"
  shows "spliced s c Lf rt z (rb_inv (plug c (Nd Lf z k r rt)))"
proof -
  let ?s = "transplant s z (ptr rt)"
  have rt: "tree_rep s (Some z) rt" "distinct_t rt" "ids rt \<inter> cids c = {}" "z \<notin> ids rt"
    using z by (auto simp: zip_rep_def)
  have "rb_splice s z = Some (Inr (?s, ptr rt, cpar c, r))"
    using z by (simp add: rb_splice_def zip_rep_def)
  moreover have "rb_inv (plug c (Nd Lf z k r rt)) \<longrightarrow>
      (if r then rb_inv (plug c rt) else cinv c (Suc (bh rt)) \<and> invc rt \<and> invh rt)"
    by (auto simp: rb_inv_plug)
  ultimately show ?thesis
    unfolding spliced_def using transplant_zip(1) [OF z rt] transplant_zip(3) [OF z rt, of "insert z (ids rt \<union> cids c)"]
    by (intro exI [of _ ?s] exI [of _ c] exI [of _ rt] exI [of _ r]) auto
qed

lemma splice_no_right:
  assumes z: "zip_rep s c (Nd l z k r Lf)" and l: "l \<noteq> Lf"
  shows "spliced s c l Lf z (rb_inv (plug c (Nd l z k r Lf)))"
proof -
  let ?s = "transplant s z (ptr l)"
  have lt: "tree_rep s (Some z) l" "distinct_t l" "ids l \<inter> cids c = {}" "z \<notin> ids l"
    using z by (auto simp: zip_rep_def)
  have "rb_splice s z = Some (Inr (?s, ptr l, cpar c, r))"
    using z l by (simp add: rb_splice_def zip_rep_def)
  moreover have "rb_inv (plug c (Nd l z k r Lf)) \<longrightarrow>
      (if r then rb_inv (plug c l) else cinv c (Suc (bh l)) \<and> invc l \<and> invh l)"
    by (auto simp: rb_inv_plug)
  ultimately show ?thesis
    unfolding spliced_def using transplant_zip(1) [OF z lt] transplant_zip(3) [OF z lt, of "insert z (ids l \<union> cids c)"]
    by (intro exI [of _ ?s] exI [of _ c] exI [of _ l] exI [of _ r]) auto
qed

text \<open>
  With two children: \<open>y\<close> is unlinked from the right subtree (\<open>splice_succ\<close>), then takes the
  place of \<open>z\<close> (\<open>splice_top\<close>).
\<close>

definition splice_succ :: "'n rbtree_t \<Rightarrow> 'n \<Rightarrow> 'n \<Rightarrow> 'n rbtree_t \<times> 'n option" where
  "splice_succ s z y =
     (if parent_of s y = Some z
      then (set_parent_if s (right_of s y) (Some y), Some y)
      else let t1 = transplant s y (right_of s y);
               t2 = set_right t1 y (right_of t1 z);
               t3 = set_parent_if t2 (right_of t2 y) (Some y)
           in (t3, parent_of t3 y))"

definition splice_top :: "'n rbtree_t \<Rightarrow> 'n \<Rightarrow> 'n \<Rightarrow> 'n rbtree_t" where
  "splice_top s1 z y =
     (let s2 = transplant s1 z (Some y);
          s3 = set_left s2 y (left_of s2 z);
          s4 = set_parent_if s3 (left_of s3 y) (Some y)
      in set_red s4 y (red_of s4 z))"

lemma rb_splice_two:
  assumes "left_of s z \<noteq> None" "right_of s z \<noteq> None" "tree_min s (right_of s z) = Some (Some y)"
  shows "rb_splice s z = Some (Inr (splice_top (fst (splice_succ s z y)) z y, right_of s y,
           snd (splice_succ s z y), red_of s y))"
  using assms
  by (cases "parent_of s y = Some z") (auto simp: rb_splice_def splice_succ_def splice_top_def Let_def)

text \<open>The state between the two steps: \<open>y\<close> is off the tree and holds the right subtree.\<close>

definition lifted ::
  "'n rbtree_t \<Rightarrow> 'n ctx \<Rightarrow> 'n shape \<Rightarrow> 'n \<Rightarrow> bool \<Rightarrow> 'n \<Rightarrow> u64 \<Rightarrow> 'n shape \<Rightarrow> bool" where
  "lifted s c l z r y ky rt \<longleftrightarrow>
     ctx_rep s c (Some z) \<and> distinct_c c \<and> parent_of s z = cpar c \<and> left_of s z = ptr l \<and>
     red_of s z = r \<and> tree_rep s (Some z) l \<and> distinct_t l \<and> key_of s y = ky \<and>
     right_of s y = ptr rt \<and> tree_rep s (Some y) rt \<and> distinct_t rt \<and>
     z \<notin> cids c \<union> ids l \<union> ids rt \<and> y \<notin> cids c \<union> ids l \<union> ids rt \<and> z \<noteq> y \<and>
     ids l \<inter> cids c = {} \<and> ids rt \<inter> cids c = {} \<and> ids l \<inter> ids rt = {}"

lemma splice_top_zip:
  assumes L: "lifted s c l z r y ky rt" and A: "insert y (cids c \<union> ids l) \<subseteq> A"
  shows "zip_rep (splice_top s z y) c (Nd l y ky r rt) \<and> keeps A s (splice_top s z y)"
proof -
  note L = L [unfolded lifted_def]
  define s1 where "s1 = set_hole s (cpar c) z (Some y)"
  have m1: "rb_mem s1 i = rb_mem s i" if "i \<notin> cids c" for i
    unfolding s1_def using that by (rule set_hole_mem)
  have t1: "tree_rep s1 p t = tree_rep s p t" if "ids t \<inter> cids c = {}" for p t
    unfolding s1_def using that by (rule tree_rep_set_hole)
  have c1: "ctx_rep s1 c (Some y)" unfolding s1_def using L by (intro ctx_rep_set_hole) auto
  have eq: "transplant s z (Some y) = set_parent s1 y (cpar c)"
    using L m1 [of z] by (simp add: transplant_def s1_def set_hole_def Let_def set_parent_if_def)
  have st: "splice_top s z y = set_red (set_parent_if (set_left (set_parent s1 y (cpar c)) y (ptr l)) (ptr l) (Some y)) y r"
    using L by (simp add: splice_top_def eq Let_def m1 set_if_mem)
  have "keeps A s (splice_top s z y)"
    unfolding st s1_def using A by (intro keeps_set keeps_set_if keeps_set_hole) auto
  moreover have "tree_rep (set_parent_if (set_left (set_parent s1 y (cpar c)) y (ptr l)) (ptr l) (Some y)) (Some y) l"
    using L t1 [of l] by (intro tree_rep_reparent) auto
  moreover have "zip_rep (splice_top s z y) c (Nd l y ky r rt)"
    unfolding zip_rep_def st using L t1 [of rt] c1 calculation(2) m1 [of y]
    by (auto simp: set_if_mem)
  ultimately show ?thesis by blast
qed

lemma splice_succ_direct:
  assumes z: "zip_rep s c (Nd l z k r (Nd Lf y ky ry x))" and A: "ids x \<subseteq> A"
  shows "\<exists>s1. splice_succ s z y = (s1, Some y) \<and> lifted s1 c l z r y ky x \<and> keeps A s s1"
proof -
  let ?s = "set_parent_if s (ptr x) (Some y)"
  have e: "parent_of s y = Some z" "right_of s y = ptr x" using z by (auto simp: zip_rep_def)
  have "ids x \<inter> cids c = {}" "ids x \<inter> ids l = {}" using z by (auto simp: zip_rep_def)
  then have "lifted ?s c l z r y ky x"
    using z by (auto simp: lifted_def zip_rep_def set_if_mem intro!: tree_rep_reparent)
  then show ?thesis
    using e A by (auto simp: splice_succ_def)
qed

lemma splice_succ_deep:
  assumes z: "zip_rep s c (Nd l z k r (plug cm (Nd Lf y ky ry x)))" and cm: "cm \<noteq> []"
    and A: "insert y (ids x \<union> cids cm \<union> insert z (ids l \<union> cids c)) \<subseteq> A"
  shows "\<exists>s1. splice_succ s z y = (s1, cpar cm) \<and> lifted s1 c l z r y ky (plug cm x) \<and> keeps A s s1"
proof -
  let ?c = "cm @ Frame DR z k r l # c"
  define t1 where "t1 = transplant s y (ptr x)"
  define t2 where "t2 = set_right t1 y (ptr (plug cm x))"
  define t3 where "t3 = set_parent_if t2 (ptr (plug cm x)) (Some y)"
  have zy: "zip_rep s ?c (Nd Lf y ky ry x)" using z by (simp add: zip_append zip_up)
  have cp: "cpar ?c = cpar cm" using cm by (cases cm rule: cpar.cases) auto
  have x: "tree_rep s (Some y) x" "distinct_t x" "ids x \<inter> cids ?c = {}" "y \<notin> ids x"
    and y: "parent_of s y = cpar cm" "right_of s y = ptr x" "key_of s y = ky" "y \<notin> cids ?c"
    using zy cp by (auto simp: zip_rep_def)
  note tr = transplant_zip [OF zy x]
  have z1: "zip_rep t1 c (Nd l z k r (plug cm x))" using tr(1) by (simp add: t1_def zip_append zip_up)
  have ydis: "y \<notin> cids c" "y \<noteq> z" "y \<notin> ids l" "y \<notin> ids (plug cm x)"
    using z x y by (auto simp: zip_rep_def)
  have m1: "rb_mem t1 y = rb_mem s y" unfolding t1_def using tr(2) x y by auto
  have "z \<notin> cids cm" using z by (auto simp: zip_rep_def)
  then have "cpar cm \<noteq> Some z" by (cases cm rule: cpar.cases) auto
  then have succ: "splice_succ s z y = (t3, cpar cm)"
    using y z1 m1 ydis by (simp add: splice_succ_def Let_def t1_def [symmetric] t2_def t3_def zip_rep_def set_if_mem)
  moreover have "tree_rep t3 (Some y) (plug cm x)"
    unfolding t3_def using z1 ydis by (intro tree_rep_reparent) (auto simp: t2_def zip_rep_def)
  moreover have "ids (plug cm x) \<inter> cids c = {}" "ids (plug cm x) \<inter> ids l = {}"
    using z1 by (auto simp: zip_rep_def)
  ultimately have "lifted t3 c l z r y ky (plug cm x)"
    using z1 ydis m1 y(3) unfolding lifted_def
    by (auto simp: t3_def t2_def zip_rep_def set_if_mem)
  moreover have "keeps A s t3"
    unfolding t3_def t2_def t1_def using A tr(3) [of A] by (intro keeps_set keeps_set_if) auto
  ultimately show ?thesis using succ by blast
qed

lemma cred_append: "cred (cm @ Frame d x k r u # c) = cred (cm @ Frame d x' k' r u # c)"
  by (cases cm rule: cred.cases) auto

lemma cinv_rename: "cinv (cm @ Frame d x k r u # c) n = cinv (cm @ Frame d x' k' r u # c) n"
  by (induction cm n rule: cinv.induct) (auto simp: cred_append [of _ d x k r u c x' k'])

lemma splice_succ_zip:
  assumes z: "zip_rep s c (Nd l z k r (plug cm (Nd Lf y ky ry x)))"
    and A: "insert y (ids x \<union> cids cm \<union> insert z (ids l \<union> cids c)) \<subseteq> A"
  shows "\<exists>s1. splice_succ s z y = (s1, cpar (cm @ Frame DR y ky r l # c)) \<and>
              lifted s1 c l z r y ky (plug cm x) \<and> keeps A s s1"
proof (cases "cm = []")
  case True
  then show ?thesis using splice_succ_direct [of s c l z k r y ky ry x A] z A by simp
next
  case False
  then have "cpar (cm @ Frame DR y ky r l # c) = cpar cm" by (cases cm rule: cpar.cases) auto
  then show ?thesis using splice_succ_deep [OF z False A] by simp
qed

lemma splice_both:
  assumes z: "zip_rep s c (Nd l z k r rt)" and ne: "l \<noteq> Lf" "rt \<noteq> Lf"
  shows "spliced s c l rt z (rb_inv (plug c (Nd l z k r rt)))"
proof -
  let ?A = "insert z (ids l \<union> ids rt \<union> cids c)"
  obtain cm t' where sp: "spine [] rt = (cm, t')" by fastforce
  then obtain y ky ry x where t': "t' = Nd Lf y ky ry x" using spine_min ne(2) by blast
  note sp = sp [unfolded t']
  have rt: "rt = plug cm (Nd Lf y ky ry x)" using spine_plug [OF sp] by simp
  have b: "before cm = []" using spine_before [OF sp] by simp
  have zy: "zip_rep s (cm @ Frame DR z k r l # c) (Nd Lf y ky ry x)"
    using z by (simp add: rt zip_append zip_up)
  obtain s1 where s1: "splice_succ s z y = (s1, cpar (cm @ Frame DR y ky r l # c))"
    "lifted s1 c l z r y ky (plug cm x)" "keeps ?A s s1"
    using splice_succ_zip [OF z [unfolded rt], of ?A] rt by auto
  from splice_top_zip [OF s1(2), of ?A]
  have top: "zip_rep (splice_top s1 z y) (cm @ Frame DR y ky r l # c) x"
    "keeps ?A s1 (splice_top s1 z y)"
    by (auto simp: zip_append zip_up rt)
  have "left_of s z \<noteq> None" "right_of s z = ptr rt" "tree_rep s (Some z) rt" "right_of s z \<noteq> None"
    using z ne by (auto simp: zip_rep_def)
  moreover have "tree_min s (ptr rt) = Some (Some y)"
    using tree_min_spine [of s "Some z" rt "[]"] sp calculation by simp
  moreover have "right_of s y = ptr x" "red_of s y = ry" using zy by (auto simp: zip_rep_def)
  ultimately have eq: "rb_splice s z =
      Some (Inr (splice_top s1 z y, ptr x, cpar (cm @ Frame DR y ky r l # c), ry))"
    using rb_splice_two [of s z y] s1(1) by simp
  have el: "elems (plug (cm @ Frame DR y ky r l # c) x) = before c @ elems l @ elems rt @ after c"
    by (simp add: rt b before_append after_append)
  have iv: "rb_inv (plug c (Nd l z k r rt)) \<longrightarrow>
      (if ry then rb_inv (plug (cm @ Frame DR y ky r l # c) x)
       else cinv (cm @ Frame DR y ky r l # c) (Suc (bh x)) \<and> invc x \<and> invh x)"
  proof -
    have "rb_inv (plug c (Nd l z k r rt)) = rb_inv (plug (cm @ Frame DR z k r l # c) (Nd Lf y ky ry x))"
      by (simp add: rt)
    then show ?thesis
      unfolding rb_inv_plug using cinv_rename [of cm DR z k r l c _ y ky] by (auto split: if_splits)
  qed
  show ?thesis
    unfolding spliced_def
    using eq top(1) el iv keeps_trans [OF s1(3) top(2)]
    by (intro exI [of _ "splice_top s1 z y"] exI [of _ "cm @ Frame DR y ky r l # c"]
        exI [of _ x] exI [of _ ry] conjI)
qed

lemma rb_splice_zip:
  assumes "zip_rep s c (Nd l z k r rt)"
  shows "spliced s c l rt z (rb_inv (plug c (Nd l z k r rt)))"
  using assms splice_no_left splice_no_right splice_both by metis

section \<open>The whole removal\<close>

lemma rb_remove_absent:
  assumes "rbtree_ok s es" "rb_lookup es key = None"
  shows "rb_remove s key = Some (Inr (s, None))"
  using rb_find_ok [OF assms(1), of key] assms(2) by (simp add: rb_remove_def)

lemma zip_rep_off:
  assumes "x \<notin> ids t \<union> cids c"
  shows "zip_rep (set_parent s x p) c t = zip_rep s c t" "zip_rep (set_left s x p) c t = zip_rep s c t"
    "zip_rep (set_right s x p) c t = zip_rep s c t" "zip_rep (set_red s x b) c t = zip_rep s c t"
  using assms by (auto simp: zip_rep_def)

lemma filter_one_key:
  assumes "es = pre @ (z, key :: u64) # post" "sorted_wrt (<) (map snd es)"
  shows "filter (\<lambda>e. snd e \<noteq> key) es = pre @ post"
proof -
  have "\<forall>e \<in> set pre. snd e < key" "\<forall>e \<in> set post. key < snd e"
    using assms by (simp_all add: sorted_wrt_append)
  then have "\<forall>e \<in> set (pre @ post). snd e \<noteq> key" by auto
  then have "filter (\<lambda>e. snd e \<noteq> key) (pre @ post) = pre @ post" by (rule filter_True)
  then show ?thesis by (simp add: assms(1))
qed

lemma rb_remove_present:
  assumes ok: "rbtree_ok s es" and look: "rb_lookup es key = Some z"
  shows "\<exists>s'. rb_remove s key = Some (Inr (s', Some z)) \<and>
              rbtree_ok s' (filter (\<lambda>e. snd e \<noteq> key) es) \<and>
              parent_of s' z = None \<and> left_of s' z = None \<and> right_of s' z = None \<and> \<not> red_of s' z \<and>
              keeps (fst ` set es) s s'"
proof -
  let ?A = "fst ` set es"
  obtain t where t: "rb_rep s t" "rb_inv t" "bst t" "elems t = es"
    using ok by (auto simp: rbtree_ok_def)
  obtain c t' where d: "descend key [] t = (c, t')" by fastforce
  then have "ptr t' = Some z" using descend_lookup [OF t(3), of key "[]"] t(4) look by simp
  then obtain l k r rt where t': "t' = Nd l z k r rt" by (cases t') auto
  note d = d [unfolded t']
  have pl: "plug c (Nd l z k r rt) = t" using descend_plug [OF d] by simp
  have zc: "zip_rep s c (Nd l z k r rt)" using pl t(1) zip_plug [of s c "Nd l z k r rt"] by simp
  have es: "es = before c @ elems l @ (z, key) # elems rt @ after c"
    using pl t(4) descend_found [OF d] by auto
  have A: "insert z (ids l \<union> ids rt \<union> cids c) \<subseteq> ?A"
    using ids_plug [of c "Nd l z k r rt"] pl t(4) ids_elems [of t] by auto
  have flt: "filter (\<lambda>e. snd e \<noteq> key) es = before c @ elems l @ elems rt @ after c"
    using t(3,4) filter_one_key [of es "before c @ elems l" z key "elems rt @ after c"]
    by (simp add: bst_def es)
  have dz: "z \<notin> fst ` set (filter (\<lambda>e. snd e \<noteq> key) es)"
  proof -
    have "key_of s z = k'" if "(z, k') \<in> set es" for k'
      using that tree_rep_keys [of s None t z k'] t(1,4) by (simp add: zip_rep_def)
    moreover have "(z, key) \<in> set es" by (simp add: es)
    ultimately have "k' = key" if "(z, k') \<in> set es" for k' using that by metis
    then show ?thesis by auto
  qed
  obtain s1 c1 x red where s1: "rb_splice s z = Some (Inr (s1, ptr x, cpar c1, red))" "zip_rep s1 c1 x"
    "elems (plug c1 x) = filter (\<lambda>e. snd e \<noteq> key) es"
    "if red then rb_inv (plug c1 x) else cinv c1 (Suc (bh x)) \<and> invc x \<and> invh x" "keeps ?A s s1"
    using rb_splice_zip [OF zc, unfolded pl spliced_def flt [symmetric]] t(2) keeps_mono [OF _ A] by blast
  have A1: "ids x \<union> cids c1 \<subseteq> ?A"
    using ids_plug [of c1 x] ids_elems [of "plug c1 x", unfolded s1(3)] by auto
  have "\<exists>s2 t2. (if \<not> red then fix_remove s1 (ptr x) (cpar c1) else Some (Inr s1)) = Some (Inr s2) \<and>
          rb_rep s2 t2 \<and> rb_inv t2 \<and> elems t2 = filter (\<lambda>e. snd e \<noteq> key) es \<and> keeps ?A s1 s2"
  proof (cases red)
    case True
    then show ?thesis using s1(2-4) zip_plug [of s1 c1 x] by auto
  next
    case False
    then show ?thesis
      using fix_remove_zip [OF s1(2), of ?A] s1(3,4) A1 by (auto simp: short_def remove_fixed_def)
  qed
  then obtain s2 t2 where s2: "(if \<not> red then fix_remove s1 (ptr x) (cpar c1) else Some (Inr s1)) = Some (Inr s2)"
    "rb_rep s2 t2" "rb_inv t2" "elems t2 = filter (\<lambda>e. snd e \<noteq> key) es" "keeps ?A s1 s2" by blast
  define s3 where "s3 = set_red (set_right (set_left (set_parent s2 z None) z None) z None) z False"
  have "rb_find s key = Some (Some z)" using rb_find_ok [OF ok, of key] look by simp
  then have "rb_remove s key = Some (Inr (s3, Some z))"
    using s1(1) s2(1) by (simp add: rb_remove_def s3_def)
  moreover have "rb_rep s3 t2"
    unfolding s3_def using s2(2) dz s2(4) ids_elems [of t2] by (simp add: zip_rep_off del: set_filter)
  moreover have "bst t2"
    using t(3,4) s2(4) by (simp add: bst_def sorted_wrt_map sorted_wrt_filter)
  moreover have "keeps ?A s s3"
    unfolding s3_def using keeps_trans [OF s1(5) s2(5)] A by (intro keeps_set) auto
  ultimately show ?thesis
    using s2(3,4) unfolding rbtree_ok_def by (intro exI [of _ s3]) (auto simp: s3_def)
qed

section \<open>Traversal\<close>

fun first_entry :: "('n \<times> u64) list \<Rightarrow> 'n option" where
  "first_entry [] = None"
| "first_entry (e # es) = Some (fst e)"

lemma spine_first: "t \<noteq> Lf \<Longrightarrow> ptr (snd (spine c t)) = first_entry (elems t @ es)"
proof (induction c t arbitrary: es rule: spine.induct)
  case (2 c l x k r rt)
  then show ?case by (cases "l = Lf") auto
qed simp

lemma rb_next_up_after:
  "ctx_rep s c (Some n) \<Longrightarrow> n \<notin> cids c \<Longrightarrow> distinct_c c \<Longrightarrow>
   rb_next_up s n (cpar c) = Some (first_entry (after c))"
proof (induction c arbitrary: n)
  case Nil
  then show ?case by (simp add: rb_next_up.simps)
next
  case (Cons f c)
  then show ?case
    by (cases f rule: frame_cases; subst rb_next_up.simps) auto
qed

lemma rb_next_zip:
  assumes "zip_rep s c (Nd l n k r rt)"
  shows "rb_next s (Some n) = Some (first_entry (elems rt @ after c))"
proof (cases "rt = Lf")
  case True
  then show ?thesis
    using assms rb_next_up_after [of s c n] by (auto simp: rb_next_def zip_rep_def)
next
  case False
  then show ?thesis
    using assms tree_min_spine [of s "Some n" rt "[]"] spine_first [of rt "[]" "after c"]
    by (auto simp: rb_next_def zip_rep_def)
qed

lemma rb_first_ok: "rbtree_ok s es \<Longrightarrow> rb_first s = Some (first_entry es)"
proof -
  assume "rbtree_ok s es"
  then obtain t where t: "rb_rep s t" "elems t = es" by (auto simp: rbtree_ok_def)
  then show ?thesis
    using tree_min_spine [of s None t "[]"] spine_first [of t "[]" "[]"]
    by (cases "t = Lf") (auto simp: rb_first_def zip_rep_def)
qed

lemma focus_on:
  "elems t = pre @ (n, k) # post \<Longrightarrow>
   \<exists>c l r rt. t = plug c (Nd l n k r rt) \<and> before c @ elems l = pre \<and> elems rt @ after c = post"
proof (induction t arbitrary: pre post)
  case (Nd l x kx r rt)
  then consider us where "elems l = pre @ (n, k) # us" "post = us @ (x, kx) # elems rt"
    | "pre = elems l" "(x, kx) = (n, k)" "post = elems rt"
    | us where "pre = elems l @ (x, kx) # us" "elems rt = us @ (n, k) # post"
    by (auto simp: append_eq_append_conv2 append_eq_Cons_conv Cons_eq_append_conv)
  then show ?case
  proof cases
    case (1 us)
    then obtain c l' r' rt' where "l = plug c (Nd l' n k r' rt')" "before c @ elems l' = pre"
      "elems rt' @ after c = us" using Nd.IH(1) by blast
    with 1 show ?thesis
      by (intro exI [of _ "c @ [Frame DL x kx r rt]"] exI [of _ l'] exI [of _ r'] exI [of _ rt'])
        (auto simp: before_append after_append)
  next
    case 2
    then show ?thesis
      by (intro exI [of _ "[]"] exI [of _ l] exI [of _ r] exI [of _ rt]) auto
  next
    case (3 us)
    then obtain c l' r' rt' where "rt = plug c (Nd l' n k r' rt')" "before c @ elems l' = us"
      "elems rt' @ after c = post" using Nd.IH(2) by blast
    with 3 show ?thesis
      by (intro exI [of _ "c @ [Frame DR x kx r l]"] exI [of _ l'] exI [of _ r'] exI [of _ rt'])
        (auto simp: before_append after_append)
  qed
qed simp

lemma rb_next_ok:
  assumes "rbtree_ok s (pre @ (n, k) # post)"
  shows "rb_next s (Some n) = Some (first_entry post)"
proof -
  obtain t where t: "rb_rep s t" "elems t = pre @ (n, k) # post"
    using assms by (auto simp: rbtree_ok_def)
  from focus_on [OF t(2)] obtain c l r rt where "t = plug c (Nd l n k r rt)" "elems rt @ after c = post"
    by blast
  then show ?thesis using t(1) rb_next_zip [of s c l n k r rt] zip_plug [of s c "Nd l n k r rt"] by simp
qed

section \<open>Properties\<close>

text \<open>On a well-formed tree the search ends and returns the node with the key, if there is one.\<close>

theorem rb_find_correct:
  assumes "rbtree_ok s es"
  shows "rb_find s key = Some (rb_lookup es key)"
  using assms by (rule rb_find_ok)

text \<open>C14: insertion into a well-formed tree always ends, without following a null pointer.  A node
  whose key is present is refused and the tree is left alone; otherwise the node is entered at its
  place in the key order, the result is again a red-black search tree, and no other node outside
  the tree is written.\<close>

theorem rb_insert_correct:
  assumes "rbtree_ok s es"
  shows "\<exists>s'. rb_insert s z = Some (Inr (s', rb_lookup es (key_of s z) = None)) \<and>
           (if rb_lookup es (key_of s z) = None
            then rbtree_ok s' (insort_key snd (z, key_of s z) es) \<and> keeps (insert z (fst ` set es)) s s'
            else s' = s)"
  using rb_insert_new [OF assms, of z] rb_insert_duplicate [OF assms, of z]
  by (cases "rb_lookup es (key_of s z) = None") (auto simp: rb_lookup_None)

text \<open>C15: removal from a well-formed tree always ends, without following a null pointer.  It returns
  the node with the key, if there is one; the result is a red-black search tree with the remaining
  entries, and no node outside the tree is written.\<close>

theorem rb_remove_correct:
  assumes "rbtree_ok s es"
  shows "\<exists>s'. rb_remove s key = Some (Inr (s', rb_lookup es key)) \<and>
           rbtree_ok s' (filter (\<lambda>e. snd e \<noteq> key) es) \<and> keeps (fst ` set es) s s'"
proof (cases "rb_lookup es key")
  case None
  then have "filter (\<lambda>e. snd e \<noteq> key) es = es"
    by (auto simp: rb_lookup_None filter_id_conv)
  then show ?thesis using rb_remove_absent [OF assms None] assms None by auto
next
  case (Some z)
  then show ?thesis using rb_remove_present [OF assms Some] by auto
qed

text \<open>\<^verbatim>\<open>rb_first\<close> returns the first node in key order and \<^verbatim>\<open>rb_next\<close> the one after a given
  node, or null behind the last.\<close>

theorem rb_traverse_correct:
  assumes "rbtree_ok s (pre @ (n, k) # post)"
  shows "rb_first s = Some (first_entry (pre @ (n, k) # post)) \<and>
         rb_next s (Some n) = Some (first_entry post)"
  using rb_first_ok [OF assms] rb_next_ok [OF assms] by simp

definition rb_example :: "nat rbtree_t" where
  "rb_example =
     \<lparr>rb_root = Some 2,
      rb_mem = (\<lambda>_. RBTREE_NODE_INIT\<lparr>rb_key := 12\<rparr>)
        (1 := \<lparr>rb_key = 10, rb_value = 0, rb_parent = Some 2, rb_left = None, rb_right = None, rb_red = True\<rparr>,
         2 := \<lparr>rb_key = 20, rb_value = 0, rb_parent = None, rb_left = Some 1, rb_right = Some 3, rb_red = False\<rparr>,
         3 := \<lparr>rb_key = 30, rb_value = 0, rb_parent = Some 2, rb_left = None, rb_right = None, rb_red = True\<rparr>)\<rparr>"

lemma rb_example_ok: "rbtree_ok rb_example [(1, 10), (2, 20), (3, 30)]"
  unfolding rbtree_ok_def
  by (rule exI [of _ "Nd (Nd Lf 1 10 True Lf) 2 20 False (Nd Lf 3 30 True Lf)"])
    (simp add: zip_rep_def rb_example_def rb_inv_def bst_def)

theorem rb_insert_correct_witness:
  "\<exists>s'. rb_insert rb_example 4 = Some (Inr (s', True)) \<and>
        rbtree_ok s' [(1, 10), (4, 12), (2, 20), (3, 30)]"
  using rb_insert_correct [OF rb_example_ok, of 4]
  by (auto simp: rb_lookup_def rb_example_def)

theorem rb_remove_correct_witness:
  "\<exists>s'. rb_remove rb_example 20 = Some (Inr (s', Some 2)) \<and> rbtree_ok s' [(1, 10), (3, 30)]"
  using rb_remove_correct [OF rb_example_ok, of 20] by (auto simp: rb_lookup_def)

end
