(* ===== verification/Spinlock.thy ===== *)
theory Spinlock
  imports Prelude
begin

text \<open>
  The spin lock of \<^verbatim>\<open>kernel/src/common/sync/spinlock.c\<close>, twice.  The sequential operations are
  what the other components call: on one CPU, with nobody to release it, a lock that is already
  taken makes the spin counter run out and the kernel panic.  The protocol \<open>sl_step\<close> interleaves
  the atomic accesses of any number of CPUs; its invariant gives mutual exclusion and the
  restoration of the interrupt flag.
\<close>

section \<open>Sequential operations\<close>

record spinlock_t =
  sl_lock :: u8
  prev_int_state :: bool

definition SPINLOCK_INIT :: spinlock_t where
  "SPINLOCK_INIT = \<lparr>sl_lock = 0, prev_int_state = False\<rparr>"

text \<open>The first argument is the interrupt flag of the CPU.\<close>

definition spinlock_acquire :: "bool \<Rightarrow> spinlock_t \<Rightarrow> (bool \<times> spinlock_t) res" where
  "spinlock_acquire int_on l =
     (if sl_lock l \<noteq> 0 then Inl Panic
      else Inr (False, \<lparr>sl_lock = 1, prev_int_state = int_on\<rparr>))"

definition spinlock_release :: "bool \<Rightarrow> spinlock_t \<Rightarrow> bool \<times> spinlock_t" where
  "spinlock_release int_on l = (if prev_int_state l then True else int_on, l\<lparr>sl_lock := 0\<rparr>)"

definition spinlock_primitive_acquire :: "spinlock_t \<Rightarrow> spinlock_t res" where
  "spinlock_primitive_acquire l = (if sl_lock l \<noteq> 0 then Inl Panic else Inr (l\<lparr>sl_lock := 1\<rparr>))"

definition spinlock_primitive_release :: "spinlock_t \<Rightarrow> spinlock_t" where
  "spinlock_primitive_release l = l\<lparr>sl_lock := 0\<rparr>"

lemma acquire_release:
  assumes "spinlock_acquire i l = Inr (i', l')"
  shows "sl_lock l = 0 \<and> i' = False \<and> sl_lock l' = 1 \<and>
         spinlock_release i' l' = (i, \<lparr>sl_lock = 0, prev_int_state = i\<rparr>)"
  using assms by (auto simp: spinlock_acquire_def spinlock_release_def split: if_splits)

section \<open>The protocol\<close>

text \<open>
  Where a CPU is: outside, before the atomic test-and-set, in the inner spin loop (with the
  value of \<^verbatim>\<open>deadlock_cnt\<close>), between taking the lock and masking interrupts, inside, and in the
  three stages of the release.
\<close>

datatype sl_pc =
    Outside | Try u64 | Spin u64 | Save | Mask | Inside | Clear bool | Unmask bool | Panicked

definition DEADLOCK_LIMIT :: u64 where "DEADLOCK_LIMIT = 3000000"

record sl_state =
  lk :: spinlock_t
  pcs :: "nat \<Rightarrow> sl_pc"
  ints :: "nat \<Rightarrow> bool"
  entry :: "nat \<Rightarrow> bool"

definition move :: "nat \<Rightarrow> sl_pc \<Rightarrow> sl_state \<Rightarrow> sl_state" where
  "move c p s = s\<lparr>pcs := (pcs s)(c := p)\<rparr>"

text \<open>The field \<open>entry\<close> records the interrupt flag with which a CPU called \<^verbatim>\<open>spinlock_acquire\<close>.\<close>

inductive sl_step :: "sl_state \<Rightarrow> sl_state \<Rightarrow> bool" where
  call: "pcs s c = Outside \<Longrightarrow>
    sl_step s (move c (Try 0) (s\<lparr>entry := (entry s)(c := ints s c)\<rparr>))"
| tas_won: "pcs s c = Try n \<Longrightarrow> sl_lock (lk s) = 0 \<Longrightarrow>
    sl_step s (move c Save (s\<lparr>lk := (lk s)\<lparr>sl_lock := 1\<rparr>\<rparr>))"
| tas_lost: "pcs s c = Try n \<Longrightarrow> sl_lock (lk s) \<noteq> 0 \<Longrightarrow>
    sl_step s (move c (Spin n) (s\<lparr>lk := (lk s)\<lparr>sl_lock := 1\<rparr>\<rparr>))"
| spin_end: "pcs s c = Spin n \<Longrightarrow> sl_lock (lk s) = 0 \<Longrightarrow> sl_step s (move c (Try n) s)"
| spin: "pcs s c = Spin n \<Longrightarrow> sl_lock (lk s) \<noteq> 0 \<Longrightarrow> n < DEADLOCK_LIMIT \<Longrightarrow>
    sl_step s (move c (Spin (n + 1)) s)"
| spin_panic: "pcs s c = Spin n \<Longrightarrow> sl_lock (lk s) \<noteq> 0 \<Longrightarrow> DEADLOCK_LIMIT \<le> n \<Longrightarrow>
    sl_step s (move c Panicked s)"
| save: "pcs s c = Save \<Longrightarrow>
    sl_step s (move c Mask (s\<lparr>lk := (lk s)\<lparr>prev_int_state := ints s c\<rparr>\<rparr>))"
| mask: "pcs s c = Mask \<Longrightarrow>
    sl_step s (move c Inside (s\<lparr>ints := (ints s)(c := False)\<rparr>))"
| load: "pcs s c = Inside \<Longrightarrow> sl_step s (move c (Clear (prev_int_state (lk s))) s)"
| clear: "pcs s c = Clear p \<Longrightarrow>
    sl_step s (move c (Unmask p) (s\<lparr>lk := (lk s)\<lparr>sl_lock := 0\<rparr>\<rparr>))"
| unmask: "pcs s c = Unmask p \<Longrightarrow>
    sl_step s (move c Outside (s\<lparr>ints := (ints s)(c := (p \<or> ints s c))\<rparr>))"

inductive_cases sl_stepE: "sl_step s s'"

definition sl_init :: "sl_state \<Rightarrow> bool" where
  "sl_init s \<longleftrightarrow> lk s = SPINLOCK_INIT \<and> (\<forall>c. pcs s c = Outside) \<and> entry s = ints s"

fun holds :: "sl_pc \<Rightarrow> bool" where
  "holds Save = True"
| "holds Mask = True"
| "holds Inside = True"
| "holds (Clear p) = True"
| "holds _ = False"

text \<open>
  The interrupt flag \<open>i\<close> of a CPU, the saved flag \<open>q\<close> in the lock and the flag \<open>e\<close> at the call,
  by the place where the CPU is.
\<close>

fun int_ok :: "sl_pc \<Rightarrow> bool \<Rightarrow> bool \<Rightarrow> bool \<Rightarrow> bool" where
  "int_ok Mask i q e = (i = e \<and> q = e)"
| "int_ok Inside i q e = (\<not> i \<and> q = e)"
| "int_ok (Clear p) i q e = (\<not> i \<and> p = e)"
| "int_ok (Unmask p) i q e = (\<not> i \<and> p = e)"
| "int_ok _ i q e = (i = e)"

definition sl_excl :: "sl_state \<Rightarrow> bool" where
  "sl_excl s \<longleftrightarrow>
     (\<forall>c. holds (pcs s c) \<longrightarrow> sl_lock (lk s) \<noteq> 0) \<and>
     (\<forall>c d. holds (pcs s c) \<longrightarrow> holds (pcs s d) \<longrightarrow> c = d)"

definition sl_ints :: "sl_state \<Rightarrow> bool" where
  "sl_ints s \<longleftrightarrow> (\<forall>c. int_ok (pcs s c) (ints s c) (prev_int_state (lk s)) (entry s c))"

lemma sl_excl_step:
  assumes "sl_step s s'" "sl_excl s"
  shows "sl_excl s'"
  using assms
  by (cases rule: sl_step.cases) (auto simp: sl_excl_def move_def, (metis holds.simps)+)

lemma int_ok_saved: "\<not> holds p \<Longrightarrow> int_ok p i q e = int_ok p i q' e"
  by (cases p) auto

lemma sl_ints_move:
  assumes "sl_ints s" "pcs s' = (pcs s)(c := p)" "\<forall>d. d \<noteq> c \<longrightarrow> ints s' d = ints s d \<and> entry s' d = entry s d"
    "prev_int_state (lk s') = prev_int_state (lk s)"
    "int_ok p (ints s' c) (prev_int_state (lk s)) (entry s' c)"
  shows "sl_ints s'"
  using assms by (simp add: sl_ints_def)

lemma sl_ints_step:
  assumes "sl_step s s'" "sl_excl s" "sl_ints s"
  shows "sl_ints s'"
proof -
  have ok: "pcs s c = p \<Longrightarrow> int_ok p (ints s c) (prev_int_state (lk s)) (entry s c)" for c p
    using assms(3) by (auto simp: sl_ints_def)
  show ?thesis
    using assms(1)
  proof (cases rule: sl_step.cases)
    case (save c)
    have "int_ok (pcs s d) (ints s d) (ints s c) (entry s d)" if "d \<noteq> c" for d
    proof -
      have "\<not> holds (pcs s d)" using assms(2) save(2) that by (auto simp: sl_excl_def)
      then show ?thesis using ok [of d] int_ok_saved by blast
    qed
    then show ?thesis using save ok [of c Save] by (simp add: sl_ints_def move_def)
  next
    case (mask c)
    then show ?thesis using ok [of c Mask] by (intro sl_ints_move [OF assms(3)]) (auto simp: move_def)
  next
    case (load c)
    then show ?thesis using ok [of c Inside] by (intro sl_ints_move [OF assms(3)]) (auto simp: move_def)
  qed (rule sl_ints_move [OF assms(3)], auto simp: move_def dest: ok)+
qed

lemma sl_reachable:
  assumes "sl_step\<^sup>*\<^sup>* s0 s" "sl_init s0"
  shows "sl_excl s \<and> sl_ints s"
  using assms(1)
proof (induction rule: rtranclp_induct)
  case base
  show ?case using assms(2) by (simp add: sl_init_def sl_excl_def sl_ints_def)
qed (auto intro: sl_excl_step sl_ints_step)

section \<open>Properties\<close>

text \<open>C5: however the CPUs interleave, at most one of them is between taking and releasing the lock;
  a CPU in its critical section runs with interrupts masked; and when a CPU leaves
  \<^verbatim>\<open>spinlock_release\<close>, its interrupt flag is what it was at the call of \<^verbatim>\<open>spinlock_acquire\<close>.\<close>

theorem spinlock_exclusion:
  assumes "sl_init s0" "sl_step\<^sup>*\<^sup>* s0 s"
  shows "(\<forall>c d. holds (pcs s c) \<and> holds (pcs s d) \<longrightarrow> c = d) \<and>
         (\<forall>c. pcs s c = Inside \<longrightarrow> \<not> ints s c) \<and>
         (\<forall>c. pcs s c = Outside \<longrightarrow> ints s c = entry s c)"
proof -
  have inv: "sl_excl s" "sl_ints s" using sl_reachable assms by auto
  have "int_ok (pcs s c) (ints s c) (prev_int_state (lk s)) (entry s c)" for c
    using inv(2) by (simp add: sl_ints_def)
  then have "pcs s c = Inside \<longrightarrow> \<not> ints s c" "pcs s c = Outside \<longrightarrow> ints s c = entry s c" for c
    by (metis int_ok.simps(2), metis int_ok.simps(5))
  then show ?thesis using inv(1) by (auto simp: sl_excl_def)
qed

definition sl_boot :: sl_state where
  "sl_boot = \<lparr>lk = SPINLOCK_INIT, pcs = \<lambda>_. Outside, ints = \<lambda>_. True, entry = \<lambda>_. True\<rparr>"

lemma sl_boot_run:
  "sl_step\<^sup>*\<^sup>* sl_boot
     \<lparr>lk = \<lparr>sl_lock = 1, prev_int_state = True\<rparr>, pcs = (\<lambda>_. Outside)(0 := Inside),
      ints = (\<lambda>_. True)(0 := False), entry = \<lambda>_. True\<rparr>"
proof -
  let ?l = "\<lparr>sl_lock = 1, prev_int_state = False\<rparr>"
  let ?s = "\<lambda>l p i. \<lparr>lk = l, pcs = (\<lambda>_. Outside)(0 := p), ints = (\<lambda>_. True)(0 := i), entry = \<lambda>_. True\<rparr>"
  have "sl_step sl_boot (?s SPINLOCK_INIT (Try 0) True)"
    using sl_step.call [of sl_boot 0] by (simp add: sl_boot_def move_def fun_upd_idem)
  moreover have "sl_step (?s SPINLOCK_INIT (Try 0) True) (?s ?l Save True)"
    using sl_step.tas_won [of "?s SPINLOCK_INIT (Try 0) True" 0 0]
    by (simp add: move_def SPINLOCK_INIT_def)
  moreover have "sl_step (?s ?l Save True) (?s (?l\<lparr>prev_int_state := True\<rparr>) Mask True)"
    using sl_step.save [of "?s ?l Save True" 0] by (simp add: move_def)
  moreover have "sl_step (?s (?l\<lparr>prev_int_state := True\<rparr>) Mask True)
      (?s (?l\<lparr>prev_int_state := True\<rparr>) Inside False)"
    using sl_step.mask [of "?s (?l\<lparr>prev_int_state := True\<rparr>) Mask True" 0] by (simp add: move_def)
  ultimately show ?thesis by simp
qed

theorem spinlock_exclusion_witness:
  "\<exists>s. sl_init sl_boot \<and> sl_step\<^sup>*\<^sup>* sl_boot s \<and> pcs s 0 = Inside \<and> \<not> ints s 0 \<and> \<not> holds (pcs s 1)"
proof -
  let ?s = "\<lparr>lk = \<lparr>sl_lock = 1, prev_int_state = True\<rparr>, pcs = (\<lambda>_. Outside)(0 := Inside),
      ints = (\<lambda>_. True)(0 := False), entry = \<lambda>_. True\<rparr>"
  have "sl_init sl_boot" by (simp add: sl_init_def sl_boot_def)
  from spinlock_exclusion [OF this sl_boot_run] show ?thesis
    using sl_boot_run \<open>sl_init sl_boot\<close> by (intro exI [of _ ?s]) auto
qed

end
