(* ===== verification/Pmm.thy ===== *)
theory Pmm
  imports Klist Spinlock
begin

text \<open>
  The buddy allocator of \<^verbatim>\<open>kernel/src/mm/pmm.c\<close>.  The array \<^verbatim>\<open>blocks\<close> is a function on the
  indices below \<^verbatim>\<open>block_count\<close> (any other access is a fault), the \<^verbatim>\<open>list_elem\<close> members of its
  entries are a memory of list nodes named by the index, and the free lists \<^verbatim>\<open>levels\<close> are list
  headers over that memory.  The memory map and the offset \<^verbatim>\<open>HHDM\<close> come from the boot loader and
  are arguments.
\<close>

section \<open>Data\<close>

record pmm_block_t =
  pb_addr :: uptr
  pb_order :: u8
  pb_free :: bool

record pmm_t =
  pm_blocks :: "nat \<Rightarrow> pmm_block_t"
  pm_elems :: "nat nodes"
  pm_count :: u64
  pm_levels :: "nat \<Rightarrow> nat list_t"
  pm_slock :: spinlock_t
  pm_int :: bool

definition PMM_MAX_ORDER :: nat where "PMM_MAX_ORDER = 10"

definition SIZEOF_PMM_BLOCK :: u64 where "SIZEOF_PMM_BLOCK = 32"

definition set_block :: "pmm_t \<Rightarrow> nat \<Rightarrow> u8 \<Rightarrow> bool \<Rightarrow> pmm_t" where
  "set_block st i ord fr =
     st\<lparr>pm_blocks := (pm_blocks st)(i := (pm_blocks st i)\<lparr>pb_order := ord, pb_free := fr\<rparr>)\<rparr>"

definition check_block :: "pmm_t \<Rightarrow> nat \<Rightarrow> unit res" where
  "check_block st i = (if i < unat (pm_count st) then Inr () else Inl OutOfBounds)"

definition check_level :: "nat \<Rightarrow> unit res" where
  "check_level k = (if k \<le> PMM_MAX_ORDER then Inr () else Inl OutOfBounds)"

definition level_append :: "pmm_t \<Rightarrow> nat \<Rightarrow> nat \<Rightarrow> pmm_t res" where
  "level_append st k i =
     rbind (check_level k) (\<lambda>_.
     rbind (list_append (pm_elems st) (pm_levels st k) i) (\<lambda>(h, l).
       Inr (st\<lparr>pm_elems := h, pm_levels := (pm_levels st)(k := l)\<rparr>)))"

definition level_remove :: "pmm_t \<Rightarrow> nat \<Rightarrow> nat option \<Rightarrow> pmm_t res" where
  "level_remove st k p =
     rbind (check_level k) (\<lambda>_.
     rbind (list_remove (pm_elems st) (pm_levels st k) p) (\<lambda>(h, l).
       Inr (st\<lparr>pm_elems := h, pm_levels := (pm_levels st)(k := l)\<rparr>)))"

section \<open>Orders\<close>

text \<open>\<^verbatim>\<open>__builtin_clzll\<close>: the number of leading zero bits.\<close>

definition clzll :: "u64 \<Rightarrow> nat" where
  "clzll w = length (takeWhile (\<lambda>i. \<not> bit w i) (rev [0..<64]))"

definition pmm_pagecount_to_order :: "u64 \<Rightarrow> u8" where
  "pmm_pagecount_to_order pages = (if pages = 1 then 0 else of_nat (64 - clzll (pages - 1)))"

definition pmm_order_to_pagecount :: "u8 \<Rightarrow> u64" where
  "pmm_order_to_pagecount order = push_bit (unat order) 1"

text \<open>The amount of free memory \<^verbatim>\<open>pmm_debug_info\<close> prints.\<close>

definition pmm_free_ram :: "pmm_t \<Rightarrow> u64" where
  "pmm_free_ram st =
     (\<Sum>i \<leftarrow> [0..<Suc PMM_MAX_ORDER].
        pmm_order_to_pagecount (of_nat i) * l_length (pm_levels st i) * ARCH_PAGE_GRAN)"

section \<open>Allocation\<close>

function pmm_find_level :: "pmm_t \<Rightarrow> nat \<Rightarrow> nat res" where
  "pmm_find_level st i =
     rbind (check_level i) (\<lambda>_.
     rbind (list_is_empty (pm_levels st i)) (\<lambda>e.
       if e then (if Suc i > PMM_MAX_ORDER then Inl Panic else pmm_find_level st (Suc i))
       else Inr i))"
  by pat_completeness auto
termination
  by (relation "measure (\<lambda>(st, i). Suc PMM_MAX_ORDER - i)") auto

declare pmm_find_level.simps [simp del]

text \<open>The splitting loop, from order \<open>i\<close> down to the requested one.\<close>

fun pmm_split :: "pmm_t \<Rightarrow> nat \<Rightarrow> nat \<Rightarrow> nat \<Rightarrow> pmm_t res" where
  "pmm_split st block order i =
     (if order < i then
        let r_idx = unat ((pb_addr (pm_blocks st block) div ARCH_PAGE_GRAN) XOR
                          pmm_order_to_pagecount (of_nat (i - 1)))
        in rbind (check_block st r_idx) (\<lambda>_.
           rbind (level_append (set_block st r_idx (of_nat (i - 1)) True) (i - 1) r_idx) (\<lambda>st'.
             pmm_split st' block order (i - 1)))
      else Inr st)"

declare pmm_split.simps [simp del]

definition pmm_alloc :: "pmm_t \<Rightarrow> u8 \<Rightarrow> (pmm_t \<times> uptr) res" where
  "pmm_alloc st order =
     rbind (assert_c (unat order \<le> PMM_MAX_ORDER)) (\<lambda>_.
     rbind (spinlock_acquire (pm_int st) (pm_slock st)) (\<lambda>(int1, slock1).
     let st1 = st\<lparr>pm_int := int1, pm_slock := slock1\<rparr> in
     rbind (pmm_find_level st1 (unat order)) (\<lambda>i.
     rbind (deref (l_head (pm_levels st1 i))) (\<lambda>block.
     rbind (level_remove st1 i (Some block)) (\<lambda>st2.
     rbind (pmm_split st2 block (unat order) i) (\<lambda>st3.
       let st4 = set_block st3 block order False;
           (int2, slock2) = spinlock_release (pm_int st4) (pm_slock st4)
       in Inr (st4\<lparr>pm_int := int2, pm_slock := slock2\<rparr>, pb_addr (pm_blocks st4 block))))))))"

section \<open>Release\<close>

text \<open>The merging loop: the new state, the index of the merged block and its order.\<close>

function pmm_merge :: "pmm_t \<Rightarrow> nat \<Rightarrow> nat \<Rightarrow> (pmm_t \<times> nat \<times> nat) res" where
  "pmm_merge st idx i =
     (if i < PMM_MAX_ORDER then
        let b_idx = unat ((of_nat idx :: u64) XOR pmm_order_to_pagecount (of_nat i))
        in if b_idx \<ge> unat (pm_count st) then Inr (st, idx, i)
           else if pb_free (pm_blocks st b_idx) \<and> unat (pb_order (pm_blocks st b_idx)) = i then
             rbind (level_remove st i (Some b_idx)) (\<lambda>st'.
               pmm_merge st' (if idx < b_idx then idx else b_idx) (Suc i))
           else Inr (st, idx, i)
      else Inr (st, idx, i))"
  by pat_completeness auto
termination
  by (relation "measure (\<lambda>(st, idx, i). PMM_MAX_ORDER - i)") auto

declare pmm_merge.simps [simp del]

definition pmm_free :: "uptr \<Rightarrow> pmm_t \<Rightarrow> uptr \<Rightarrow> pmm_t res" where
  "pmm_free HHDM st addr =
     rbind (assert_c (addr < HHDM)) (\<lambda>_.
     rbind (spinlock_acquire (pm_int st) (pm_slock st)) (\<lambda>(int1, slock1).
     let st1 = st\<lparr>pm_int := int1, pm_slock := slock1\<rparr>;
         idx = unat (addr div ARCH_PAGE_GRAN)
     in rbind (check_block st1 idx) (\<lambda>_.
        rbind (assert_c (\<not> pb_free (pm_blocks st1 idx))) (\<lambda>_.
        rbind (pmm_merge st1 idx (unat (pb_order (pm_blocks st1 idx)))) (\<lambda>(st2, block, i).
        rbind (level_append (set_block st2 block (of_nat i) True) i block) (\<lambda>st3.
          let (int2, slock2) = spinlock_release (pm_int st3) (pm_slock st3)
          in Inr (st3\<lparr>pm_int := int2, pm_slock := slock2\<rparr>)))))))"

section \<open>Initialisation\<close>

record memmap_entry =
  me_base :: u64
  me_length :: u64
  me_usable :: bool

definition me_end :: "memmap_entry \<Rightarrow> u64" where
  "me_end e = me_base e + me_length e"

fun last_usable_entry :: "memmap_entry list \<Rightarrow> memmap_entry option" where
  "last_usable_entry [] = None"
| "last_usable_entry (e # es) =
     (case last_usable_entry es of
        Some x \<Rightarrow> Some x
      | None \<Rightarrow> if me_usable e then Some e else None)"

definition find_blocks_entry :: "memmap_entry list \<Rightarrow> u64 \<Rightarrow> memmap_entry option" where
  "find_blocks_entry es count =
     find (\<lambda>e. me_usable e \<and> me_length e \<ge> count * SIZEOF_PMM_BLOCK) es"

text \<open>
  The greedy loop over one usable entry.  A span is the size of a block of the current order;
  decrementing order 0 would shift by 255 next, which C leaves undefined.
\<close>

partial_function (option) pmm_init_entry :: "pmm_t \<Rightarrow> uptr \<Rightarrow> u8 \<Rightarrow> uptr \<Rightarrow> pmm_t res option" where
  "pmm_init_entry st fin order addr =
     (if addr = fin then Some (Inr st)
      else
        let span = pmm_order_to_pagecount order * ARCH_PAGE_GRAN in
        if addr + span > fin \<or> addr mod span \<noteq> 0 then
          (if order = 0 then Some (Inl Undefined) else pmm_init_entry st fin (order - 1) addr)
        else
          let idx = unat (addr div ARCH_PAGE_GRAN) in
          (case rbind (check_block st idx)
                  (\<lambda>_. level_append (set_block st idx order True) (unat order) idx) of
             Inl e \<Rightarrow> Some (Inl e)
           | Inr st' \<Rightarrow> pmm_init_entry st' fin (of_nat PMM_MAX_ORDER) (addr + span)))"

definition pmm_init_start :: "u64 \<Rightarrow> memmap_entry \<Rightarrow> memmap_entry \<Rightarrow> uptr" where
  "pmm_init_start count be e =
     (if me_base e = me_base be
      then me_base e + (count * SIZEOF_PMM_BLOCK + (ARCH_PAGE_GRAN - 1)) div ARCH_PAGE_GRAN * ARCH_PAGE_GRAN
      else me_base e)"

fun pmm_init_entries :: "memmap_entry \<Rightarrow> pmm_t \<Rightarrow> memmap_entry list \<Rightarrow> pmm_t res option" where
  "pmm_init_entries be st [] = Some (Inr st)"
| "pmm_init_entries be st (e # es) =
     (if \<not> me_usable e then pmm_init_entries be st es
      else (case pmm_init_entry st (me_end e) (of_nat PMM_MAX_ORDER) (pmm_init_start (pm_count st) be e) of
              None \<Rightarrow> None
            | Some (Inl f) \<Rightarrow> Some (Inl f)
            | Some (Inr st') \<Rightarrow> pmm_init_entries be st' es))"

definition pmm_init_blocks :: "u64 \<Rightarrow> pmm_t" where
  "pmm_init_blocks count =
     \<lparr>pm_blocks = \<lambda>i. \<lparr>pb_addr = ARCH_PAGE_GRAN * of_nat i, pb_order = 0, pb_free = False\<rparr>,
      pm_elems = \<lambda>i. LIST_NODE_INIT, pm_count = count, pm_levels = \<lambda>k. LIST_INIT,
      pm_slock = SPINLOCK_INIT, pm_int = False\<rparr>"

definition pmm_init :: "uptr \<Rightarrow> memmap_entry list \<Rightarrow> pmm_t res option" where
  "pmm_init HHDM es =
     (case last_usable_entry es of
        None \<Rightarrow> Some (Inl Undefined)
      | Some lu \<Rightarrow>
          let count = me_end lu div ARCH_PAGE_GRAN in
          (case find_blocks_entry es count of
             None \<Rightarrow> Some (Inl AssertFailed)
           | Some be \<Rightarrow>
               if me_base be + HHDM = 0 then Some (Inl AssertFailed)
               else pmm_init_entries be (pmm_init_blocks count) es))"

end
