(* ===== verification/Pmm_Correct.thy ===== *)
theory Pmm_Correct
  imports Pmm
begin

text \<open>
  Correctness of the buddy allocator.  The state is described by a tiling of the block indices
  into aligned intervals of power-of-two length and by the contents of the free lists.  While an
  operation runs, one tile is pending: it is on no list and its header is not up to date.
\<close>

section \<open>Tilings\<close>

definition pages :: "nat \<Rightarrow> nat \<Rightarrow> nat set" where
  "pages s k = {s..<s + 2 ^ k}"

definition tiling :: "nat \<Rightarrow> (nat \<rightharpoonup> nat) \<Rightarrow> bool" where
  "tiling N T \<longleftrightarrow>
     (\<forall>s k. T s = Some k \<longrightarrow> k \<le> PMM_MAX_ORDER \<and> 2 ^ k dvd s \<and> s + 2 ^ k \<le> N) \<and>
     (\<forall>p < N. \<exists>s k. T s = Some k \<and> p \<in> pages s k) \<and>
     (\<forall>s k s' k'. T s = Some k \<longrightarrow> T s' = Some k' \<longrightarrow> s \<noteq> s' \<longrightarrow> pages s k \<inter> pages s' k' = {})"

lemma pages_split: "pages s (Suc k) = pages s k \<union> pages (s + 2 ^ k) k"
  by (auto simp: pages_def)

lemma pages_halves: "pages s k \<inter> pages (s + 2 ^ k) k = {}"
  by (auto simp: pages_def)

lemma pages_self [simp]: "s \<in> pages s k"
  by (simp add: pages_def)

lemma tiling_bounds:
  assumes "tiling N T" "T s = Some k"
  shows "k \<le> PMM_MAX_ORDER" "2 ^ k dvd s" "s + 2 ^ k \<le> N" "s < N"
proof -
  show "k \<le> PMM_MAX_ORDER" "2 ^ k dvd s" and le: "s + 2 ^ k \<le> N"
    using assms by (auto simp: tiling_def)
  then show "s < N" using less_le_trans [of s "s + 2 ^ k" N] by simp
qed

lemma tiling_overlap:
  assumes "tiling N T" "T s = Some k" "T s' = Some k'" "p \<in> pages s k" "p \<in> pages s' k'"
  shows "s = s' \<and> k = k'"
  using assms unfolding tiling_def by (metis disjoint_iff option.inject)

lemma tiling_cover:
  assumes "tiling N T" "p < N"
  obtains s k where "T s = Some k" "p \<in> pages s k"
  using assms by (auto simp: tiling_def)

lemma tiling_inside:
  assumes "tiling N T" "T s = Some k" "t \<in> pages s k" "t \<noteq> s"
  shows "T t = None"
  using tiling_overlap [OF assms(1,2), of t _ t] assms(3,4) by (cases "T t") auto

lemma aligned_half:
  assumes "2 ^ Suc k dvd (s :: nat)"
  shows "2 ^ k dvd s" "2 ^ k dvd s + 2 ^ k"
  using assms by (auto intro: dvd_trans [of "2 ^ k" "2 ^ Suc k"])

lemma tiling_split:
  assumes T: "tiling N T" and s: "T s = Some (Suc k)"
  shows "tiling N (T(s \<mapsto> k, s + 2 ^ k \<mapsto> k))"
proof -
  note b = tiling_bounds [OF T s]
  have sub: "pages s k \<subseteq> pages s (Suc k)" "pages (s + 2 ^ k) k \<subseteq> pages s (Suc k)"
    by (auto simp: pages_def)
  have dis: "pages t j \<inter> pages s (Suc k) = {}" if "T t = Some j" "t \<noteq> s" for t j
    using T s that unfolding tiling_def by blast
  let ?T = "T(s \<mapsto> k, s + 2 ^ k \<mapsto> k)"
  have T': "t = s \<and> j = k \<or> t = s + 2 ^ k \<and> j = k \<or> T t = Some j \<and> t \<noteq> s" if "?T t = Some j" for t j
    using that by (auto split: if_splits)
  have "\<exists>t j. ?T t = Some j \<and> p \<in> pages t j" if "p < N" for p
  proof -
    from that obtain t j where t: "T t = Some j" "p \<in> pages t j" using T tiling_cover by blast
    show ?thesis
    proof (cases "t = s")
      case True
      then have "p \<in> pages s k \<or> p \<in> pages (s + 2 ^ k) k" using t s pages_split [of s k] by auto
      then show ?thesis by (metis fun_upd_apply)
    next
      case False
      then have "t \<noteq> s + 2 ^ k" using dis [OF t(1) False] sub(2) pages_self by blast
      then show ?thesis using t False by auto
    qed
  qed
  moreover have "j \<le> PMM_MAX_ORDER \<and> 2 ^ j dvd t \<and> t + 2 ^ j \<le> N" if "?T t = Some j" for t j
    using T' [OF that] b tiling_bounds [OF T, of t j] aligned_half [OF b(2)] by auto
  moreover have "pages t j \<inter> pages t' j' = {}" if "?T t = Some j" "?T t' = Some j'" "t \<noteq> t'" for t j t' j'
  proof -
    have "pages u i \<inter> pages u' i' = {}" if "T u = Some i" "T u' = Some i'" "u \<noteq> u'" for u i u' i'
      using T that unfolding tiling_def by blast
    then show ?thesis
      using T' [OF that(1)] T' [OF that(2)] that(3) dis [of t j] dis [of t' j'] sub pages_halves [of s k]
      by blast
  qed
  ultimately show ?thesis unfolding tiling_def by blast
qed

text \<open>Replacing all tiles in an interval by one tile.\<close>

definition join_tile :: "(nat \<rightharpoonup> nat) \<Rightarrow> nat \<Rightarrow> nat \<Rightarrow> nat \<rightharpoonup> nat" where
  "join_tile T s k = (\<lambda>t. if t = s then Some k else if t \<in> pages s k then None else T t)"

lemma tiling_join:
  assumes T: "tiling N T" and s: "k \<le> PMM_MAX_ORDER" "2 ^ k dvd s" "s + 2 ^ k \<le> N"
    and inside: "\<And>t j. T t = Some j \<Longrightarrow> pages t j \<inter> pages s k \<noteq> {} \<Longrightarrow> pages t j \<subseteq> pages s k"
  shows "tiling N (join_tile T s k)"
proof -
  have out: "t \<notin> pages s k \<and> pages t j \<inter> pages s k = {}"
    if "join_tile T s k t = Some j" "t \<noteq> s" for t j
  proof -
    have t: "t \<notin> pages s k" "T t = Some j" using that by (auto simp: join_tile_def split: if_splits)
    then show ?thesis using inside [OF t(2)] pages_self [of t j] by blast
  qed
  have T': "join_tile T s k t = Some j \<Longrightarrow> t \<noteq> s \<Longrightarrow> T t = Some j" for t j
    by (auto simp: join_tile_def split: if_splits)
  have s': "join_tile T s k s = Some k" by (simp add: join_tile_def)
  have "\<exists>t j. join_tile T s k t = Some j \<and> p \<in> pages t j" if "p < N" for p
  proof (cases "p \<in> pages s k")
    case True
    then show ?thesis using s' by blast
  next
    case False
    from \<open>p < N\<close> obtain t j where t: "T t = Some j" "p \<in> pages t j" using T tiling_cover by blast
    then have "t \<notin> pages s k" using inside [OF t(1)] False pages_self [of t j] by blast
    then have "join_tile T s k t = Some j" using t pages_self [of s k] by (auto simp: join_tile_def)
    then show ?thesis using t by blast
  qed
  moreover have "j \<le> PMM_MAX_ORDER \<and> 2 ^ j dvd t \<and> t + 2 ^ j \<le> N" if "join_tile T s k t = Some j" for t j
    using that s s' T' [OF that] tiling_bounds [OF T] by (cases "t = s") auto
  moreover have "pages t j \<inter> pages t' j' = {}"
    if "join_tile T s k t = Some j" "join_tile T s k t' = Some j'" "t \<noteq> t'" for t j t' j'
    using that out [of t j] out [of t' j'] s' T' tiling_overlap [OF T, of t j t' j']
    by (cases "t = s"; cases "t' = s") auto
  ultimately show ?thesis unfolding tiling_def by blast
qed

section \<open>Buddies\<close>

lemma aligned_odd:
  assumes "2 ^ k dvd (s :: nat)" "\<not> 2 ^ Suc k dvd s"
  shows "2 ^ k \<le> s" "2 ^ Suc k dvd s - 2 ^ k" "s - 2 ^ k < s"
proof -
  obtain q where q: "s = 2 ^ k * q" using assms(1) by blast
  then have "odd q" using assms(2) by auto
  then obtain r where r: "q = Suc (2 * r)" by (elim oddE) simp
  show le: "2 ^ k \<le> s" and "2 ^ Suc k dvd s - 2 ^ k" using q r by (auto simp: algebra_simps)
  show "s - 2 ^ k < s" using less_le_trans [OF _ le, of 0] by simp
qed

lemma xor_bit_even:
  fixes s :: nat
  assumes "2 ^ Suc k dvd s"
  shows "s XOR 2 ^ k = s + 2 ^ k"
proof -
  obtain q where q: "s = 2 ^ k * (2 * q)" using assms by (auto elim: dvdE)
  have "\<not> bit s k" by (simp add: q bit_iff_odd)
  moreover have "s XOR 2 ^ k = flip_bit k s" by (simp add: flip_bit_def push_bit_eq_mult)
  ultimately show ?thesis by (simp add: flip_bit_eq_if set_bit_eq)
qed

lemma xor_bit:
  fixes s :: nat
  assumes "2 ^ k dvd s"
  shows "s XOR 2 ^ k = (if 2 ^ Suc k dvd s then s + 2 ^ k else s - 2 ^ k)"
proof (cases "2 ^ Suc k dvd s")
  case True
  then show ?thesis using xor_bit_even [OF True] by simp
next
  case False
  note a = aligned_odd [OF assms False]
  have "(s - 2 ^ k) XOR 2 ^ k = s" using xor_bit_even [OF a(2)] a(1) by simp
  then have "s XOR 2 ^ k = (s - 2 ^ k) XOR (2 ^ k XOR 2 ^ k)" by (metis xor.assoc)
  then show ?thesis using False by simp
qed

lemma aligned_step:
  assumes "d dvd a" "d dvd b" "a < (b :: nat)"
  shows "a + d \<le> b"
proof -
  have "d dvd b - a" by (rule dvd_diff_nat [OF assms(2,1)])
  then have "d \<le> b - a" using assms(3) by (intro dvd_imp_le) auto
  then show ?thesis using assms(3) by simp
qed

lemma pages_nested:
  assumes "2 ^ i dvd m" "2 ^ j dvd t" "i \<le> j" "x \<in> pages m i" "x \<in> pages t j"
  shows "pages m i \<subseteq> pages t j"
proof -
  have d: "2 ^ i dvd t" "2 ^ i dvd t + 2 ^ j"
    using assms(2,3) by (auto intro: dvd_trans [OF le_imp_power_dvd] dvd_add le_imp_power_dvd)
  have "t \<le> m" using aligned_step [OF assms(1) d(1)] assms(4,5) by (force simp: pages_def)
  moreover have "m + 2 ^ i \<le> t + 2 ^ j"
    using aligned_step [OF assms(1) d(2)] assms(4,5) by (auto simp: pages_def)
  ultimately show ?thesis by (auto simp: pages_def)
qed

lemma buddy_pair:
  assumes "2 ^ k dvd s"
  defines "b \<equiv> s XOR 2 ^ k"
  shows "2 ^ Suc k dvd min s b" "pages (min s b) (Suc k) = pages s k \<union> pages b k" "s \<noteq> b"
    "2 ^ k dvd b" "pages s k \<inter> pages b k = {}"
  using aligned_odd [OF assms(1)] aligned_half [of k s] pages_split [of "min s b" k]
  by (auto simp: b_def xor_bit [OF assms(1)] pages_def min_def split: if_splits)

text \<open>The buddy of a tile is inside the range of indices only as a tile of at most the same order.\<close>

lemma buddy_head:
  assumes T: "tiling N T" and s: "T s = Some k" and b: "b = s XOR 2 ^ k" "b < N"
  shows "\<exists>j \<le> k. T b = Some j"
proof -
  note bd = tiling_bounds [OF T s]
  note bp = buddy_pair [OF bd(2), folded b(1)]
  obtain t j where t: "T t = Some j" "b \<in> pages t j" using T b(2) tiling_cover by blast
  note bt = tiling_bounds [OF T t(1)]
  show ?thesis
  proof (cases "j \<le> k")
    case True
    then have "b = t"
      using pages_nested [OF bt(2) bp(4) True t(2) pages_self] t(2) pages_self [of t j]
      by (force simp: pages_def)
    then show ?thesis using t(1) True by blast
  next
    case False
    then have "pages (min s b) (Suc k) \<subseteq> pages t j"
      using pages_nested [OF bp(1) bt(2) _ _ t(2)] bp(2) by auto
    then have "s \<in> pages t j" using bp(2) pages_self [of s k] by blast
    then have "s = t \<and> k = j" using tiling_overlap [OF T s t(1)] pages_self by blast
    then show ?thesis using False by simp
  qed
qed

lemma buddy_below:
  assumes "tiling N T" "T s = Some k" "b = s XOR 2 ^ k" "b < N" "T b = Some k" "k < PMM_MAX_ORDER"
  shows "tiling N (join_tile T (min s b) (Suc k))"
proof (rule tiling_join)
  note bd = tiling_bounds [OF assms(1,2)] and bb = tiling_bounds [OF assms(1,5)]
  note bp = buddy_pair [OF bd(2), folded assms(3)]
  show "Suc k \<le> PMM_MAX_ORDER" using assms(6) by simp
  show "2 ^ Suc k dvd min s b" by (rule bp(1))
  show "min s b + 2 ^ Suc k \<le> N"
    using bd(3) bb(3) aligned_odd [OF bd(2)] assms(3) xor_bit [OF bd(2)]
    by (cases "2 ^ Suc k dvd s") (simp_all add: min_def)
  show "pages t j \<subseteq> pages (min s b) (Suc k)"
    if "T t = Some j" "pages t j \<inter> pages (min s b) (Suc k) \<noteq> {}" for t j
    using that tiling_overlap [OF assms(1) that(1) assms(2)] tiling_overlap [OF assms(1) that(1) assms(5)]
    unfolding bp(2) by blast
qed (rule assms(1))

section \<open>Words and levels\<close>

lemma unat_pagecount:
  assumes "i \<le> PMM_MAX_ORDER"
  shows "unat (pmm_order_to_pagecount (of_nat i)) = 2 ^ i"
proof -
  have "unat (of_nat i :: u8) = i"
    using assms by (intro unat_of_nat_small) (simp add: PMM_MAX_ORDER_def)
  moreover have "(2 :: nat) ^ i < 2 ^ LENGTH(64)"
    using assms by (intro power_strict_increasing) (auto simp: PMM_MAX_ORDER_def)
  moreover have "push_bit i 1 = (of_nat (2 ^ i) :: u64)" by (simp add: push_bit_eq_mult)
  ultimately show ?thesis
    unfolding pmm_order_to_pagecount_def by (simp only: unat_of_nat_small)
qed

lemma unat_buddy:
  assumes "i \<le> PMM_MAX_ORDER" "s < 2 ^ 52"
  shows "unat ((of_nat s :: u64) XOR pmm_order_to_pagecount (of_nat i)) = s XOR 2 ^ i"
proof -
  have "unat (of_nat s :: u64) = s" using assms(2) by (intro unat_of_nat_small) simp
  then show ?thesis by (simp add: unsigned_xor_eq unat_pagecount [OF assms(1)])
qed

lemma addr_index:
  assumes "s < 2 ^ 52"
  shows "(of_nat (4096 * s) :: u64) div ARCH_PAGE_GRAN = of_nat s"
proof -
  have "unat (of_nat (4096 * s) :: u64) = 4096 * s" "unat (of_nat s :: u64) = s"
    using assms by (intro unat_of_nat_small; simp)+
  then show ?thesis
    by (simp add: word_unat_eq_iff unat_div ARCH_PAGE_GRAN_def ARCH_PAGE_SIZE_4K_def)
qed

definition levels_ok :: "pmm_t \<Rightarrow> (nat \<Rightarrow> nat list) \<Rightarrow> bool" where
  "levels_ok st L \<longleftrightarrow>
     (\<forall>k \<le> PMM_MAX_ORDER. list_rep (pm_elems st) (pm_levels st k) (L k)) \<and>
     (\<forall>j \<le> PMM_MAX_ORDER. \<forall>k \<le> PMM_MAX_ORDER. j \<noteq> k \<longrightarrow> set (L j) \<inter> set (L k) = {})"

lemma level_append_ok:
  assumes L: "levels_ok st L" and k: "k \<le> PMM_MAX_ORDER"
    and i: "\<And>j. j \<le> PMM_MAX_ORDER \<Longrightarrow> i \<notin> set (L j)" "Suc (length (L k)) < 2 ^ 64"
  shows "\<exists>h l. level_append st k i = Inr (st\<lparr>pm_elems := h, pm_levels := l\<rparr>) \<and>
               levels_ok (st\<lparr>pm_elems := h, pm_levels := l\<rparr>) (L(k := L k @ [i]))"
proof -
  have rep: "list_rep (pm_elems st) (pm_levels st j) (L j)" if "j \<le> PMM_MAX_ORDER" for j
    using L that by (simp add: levels_ok_def)
  obtain h l where app: "list_append (pm_elems st) (pm_levels st k) i = Inr (h, l)"
    "list_rep h l (L k @ [i])" "agree_off (insert i (set (L k))) (pm_elems st) h"
    using klist.append_ok [OF rep [OF k] i(1) [OF k] i(2)] by blast
  have "list_rep h (pm_levels st j) (L j)" if "j \<le> PMM_MAX_ORDER" "j \<noteq> k" for j
  proof (rule klist.rep_agree [OF rep [OF that(1)] app(3)])
    have "set (L k) \<inter> set (L j) = {}" using L k that unfolding levels_ok_def by metis
    then show "insert i (set (L k)) \<inter> set (L j) = {}" using i(1) [OF that(1)] by simp
  qed
  then have "levels_ok (st\<lparr>pm_elems := h, pm_levels := (pm_levels st)(k := l)\<rparr>) (L(k := L k @ [i]))"
    using L app(2) i(1) by (auto simp: levels_ok_def)
  then show ?thesis
    using app(1) k by (auto simp: level_append_def check_level_def)
qed

lemma level_remove_ok:
  assumes L: "levels_ok st L" and k: "k \<le> PMM_MAX_ORDER" and i: "i \<in> set (L k)"
  shows "\<exists>h l. level_remove st k (Some i) = Inr (st\<lparr>pm_elems := h, pm_levels := l\<rparr>) \<and>
               levels_ok (st\<lparr>pm_elems := h, pm_levels := l\<rparr>) (L(k := remove1 i (L k)))"
proof -
  have rep: "list_rep (pm_elems st) (pm_levels st j) (L j)" if "j \<le> PMM_MAX_ORDER" for j
    using L that by (simp add: levels_ok_def)
  obtain as bs where ab: "L k = as @ i # bs" using split_list [OF i] by blast
  have dist: "distinct (L k)" using rep [OF k] klist.rep_distinct by blast
  then have rm: "remove1 i (L k) = as @ bs" by (simp add: ab remove1_append)
  obtain h l where rem: "list_remove (pm_elems st) (pm_levels st k) (Some i) = Inr (h, l)"
    "list_rep h l (as @ bs)" "agree_off (set (as @ bs)) (pm_elems st) h"
    using klist.remove_ok [OF rep [OF k, unfolded ab]] by blast
  have dj: "set (as @ bs) \<inter> set (L j) = {}" if "j \<le> PMM_MAX_ORDER" "j \<noteq> k" for j
  proof -
    have "set (L k) \<inter> set (L j) = {}" using L k that unfolding levels_ok_def by metis
    then show ?thesis by (auto simp: ab)
  qed
  have "list_rep h (pm_levels st j) (L j)" if "j \<le> PMM_MAX_ORDER" "j \<noteq> k" for j
    by (rule klist.rep_agree [OF rep [OF that(1)] rem(3) dj [OF that]])
  then have "levels_ok (st\<lparr>pm_elems := h, pm_levels := (pm_levels st)(k := l)\<rparr>) (L(k := remove1 i (L k)))"
    using L rem(2) dj unfolding rm levels_ok_def by (auto simp: Int_commute)
  then show ?thesis
    using rem(1) k by (auto simp: level_remove_def check_level_def)
qed

section \<open>The invariant\<close>

definition pmm_inv :: "pmm_t \<Rightarrow> (nat \<rightharpoonup> nat) \<Rightarrow> (nat \<Rightarrow> nat list) \<Rightarrow> nat set \<Rightarrow> bool" where
  "pmm_inv st T L pend \<longleftrightarrow>
     unat (pm_count st) \<le> 2 ^ 52 \<and> tiling (unat (pm_count st)) T \<and>
     (\<forall>i < unat (pm_count st). pb_addr (pm_blocks st i) = of_nat (4096 * i)) \<and>
     (\<forall>s k. T s = Some k \<longrightarrow> s \<notin> pend \<longrightarrow> unat (pb_order (pm_blocks st s)) = k) \<and>
     levels_ok st L \<and>
     (\<forall>k \<le> PMM_MAX_ORDER. set (L k) = {s. T s = Some k \<and> s \<notin> pend \<and> pb_free (pm_blocks st s)})"

text \<open>The free pages, the allocated blocks, and that no two free blocks could be merged.\<close>

definition free_pages :: "(nat \<Rightarrow> nat list) \<Rightarrow> nat set" where
  "free_pages L = (\<Union>k \<le> PMM_MAX_ORDER. \<Union>s \<in> set (L k). pages s k)"

definition used :: "pmm_t \<Rightarrow> (nat \<rightharpoonup> nat) \<Rightarrow> nat set \<Rightarrow> (nat \<times> nat) set" where
  "used st T pend = {(s, k). T s = Some k \<and> s \<notin> pend \<and> \<not> pb_free (pm_blocks st s)}"

definition merged :: "(nat \<Rightarrow> nat list) \<Rightarrow> bool" where
  "merged L \<longleftrightarrow> (\<forall>k < PMM_MAX_ORDER. \<forall>s \<in> set (L k). s XOR 2 ^ k \<notin> set (L k))"

definition same_env :: "pmm_t \<Rightarrow> pmm_t \<Rightarrow> bool" where
  "same_env st st' \<longleftrightarrow> pm_count st' = pm_count st \<and> pm_slock st' = pm_slock st \<and> pm_int st' = pm_int st"

lemma pmm_inv_length:
  assumes "pmm_inv st T L pend" "k \<le> PMM_MAX_ORDER"
  shows "length (L k) \<le> 2 ^ 52"
proof -
  have T: "tiling (unat (pm_count st)) T" "unat (pm_count st) \<le> 2 ^ 52" and L: "levels_ok st L"
    and set: "set (L k) = {s. T s = Some k \<and> s \<notin> pend \<and> pb_free (pm_blocks st s)}"
    using assms by (auto simp: pmm_inv_def)
  have "distinct (L k)"
    using L assms(2) klist.rep_distinct by (auto simp: levels_ok_def)
  then have "length (L k) = card (set (L k))" by (simp add: distinct_card)
  also have "\<dots> \<le> card {..<unat (pm_count st)}"
    using tiling_bounds(4) [OF T(1)] by (intro card_mono) (auto simp: set)
  finally show ?thesis using T(2) by simp
qed

lemma free_pages_iff:
  "p \<in> free_pages L \<longleftrightarrow> (\<exists>k \<le> PMM_MAX_ORDER. \<exists>s \<in> set (L k). p \<in> pages s k)"
  by (auto simp: free_pages_def)

lemma free_pages_append:
  assumes "k \<le> PMM_MAX_ORDER"
  shows "free_pages (L(k := L k @ [i])) = free_pages L \<union> pages i k"
proof -
  have "p \<in> free_pages L \<Longrightarrow> p \<in> free_pages (L(k := L k @ [i]))" for p
    unfolding free_pages_iff by (metis Un_iff fun_upd_apply set_append)
  moreover have "p \<in> pages i k \<Longrightarrow> p \<in> free_pages (L(k := L k @ [i]))" for p
    unfolding free_pages_iff using assms by (intro exI [of _ k]) simp
  moreover have "p \<in> free_pages (L(k := L k @ [i])) \<Longrightarrow> p \<in> free_pages L \<union> pages i k" for p
    unfolding free_pages_iff Un_iff by (auto split: if_splits)
  ultimately show ?thesis by blast
qed

lemma free_pages_remove:
  assumes inv: "pmm_inv st T L pend" and k: "k \<le> PMM_MAX_ORDER" and i: "i \<in> set (L k)"
  shows "free_pages (L(k := remove1 i (L k))) = free_pages L - pages i k"
proof -
  have T: "tiling (unat (pm_count st)) T" and L: "levels_ok st L"
    and set: "\<And>j s. j \<le> PMM_MAX_ORDER \<Longrightarrow> s \<in> set (L j) \<Longrightarrow> T s = Some j"
    using inv by (auto simp: pmm_inv_def)
  have "distinct (L k)" using L k klist.rep_distinct by (auto simp: levels_ok_def)
  then have rm: "set (remove1 i (L k)) = set (L k) - {i}" by simp
  have "p \<notin> pages i k" if "j \<le> PMM_MAX_ORDER" "s \<in> set (L j)" "s \<noteq> i" "p \<in> pages s j" for s j p
    using tiling_overlap [OF T set [OF that(1,2)] set [OF k i]] that(3,4) by blast
  moreover have "set ((L(k := remove1 i (L k))) j) = set (L j) - {i}" if "j \<le> PMM_MAX_ORDER" for j
    using rm set [OF that] set [OF k i] by auto
  ultimately have "p \<in> free_pages (L(k := remove1 i (L k))) \<longleftrightarrow>
      (\<exists>j \<le> PMM_MAX_ORDER. \<exists>s \<in> set (L j) - {i}. p \<in> pages s j) \<and> p \<notin> pages i k" for p
    unfolding free_pages_iff by (metis DiffE insertI1)
  moreover have "(\<exists>j \<le> PMM_MAX_ORDER. \<exists>s \<in> set (L j) - {i}. p \<in> pages s j) \<longleftrightarrow> p \<in> free_pages L"
    if "p \<notin> pages i k" for p
    using that set [OF _ i] set [OF k i] i unfolding free_pages_iff
    by (metis DiffD1 DiffI option.inject set singletonD)
  ultimately show ?thesis by blast
qed

lemma merged_append:
  assumes "merged L" "k \<le> PMM_MAX_ORDER" "k < PMM_MAX_ORDER \<Longrightarrow> i XOR 2 ^ k \<notin> set (L k)"
  shows "merged (L(k := L k @ [i]))"
proof -
  have x: "(s XOR 2 ^ k) XOR 2 ^ k = s" for s :: nat by (simp add: xor.assoc)
  have ne: "i XOR 2 ^ k \<noteq> i"
  proof
    assume "i XOR 2 ^ k = i"
    then have "i XOR (i XOR 2 ^ k) = i XOR i" by simp
    then show False by (simp add: xor.assoc [symmetric])
  qed
  have "s XOR 2 ^ k \<noteq> i" if "k < PMM_MAX_ORDER" "s \<in> set (L k)" for s
    using assms(3) [OF that(1)] that(2) x [of s] by auto
  then show ?thesis using assms ne by (auto simp: merged_def)
qed

lemma merged_remove: "merged L \<Longrightarrow> merged (L(k := remove1 i (L k)))"
  using set_remove1_subset [of i "L k"] by (auto simp: merged_def subset_iff)

end
