(* ===== verification/Pmm_Alloc.thy ===== *)
theory Pmm_Alloc
  imports Pmm_Correct
begin

text \<open>
  What \<^verbatim>\<open>pmm_alloc\<close> and \<^verbatim>\<open>pmm_free\<close> do to the set of free pages and the set of allocated blocks.
\<close>

section \<open>Orders and page counts\<close>

lemma clzll_bits:
  assumes "w \<noteq> 0"
  shows "clzll w < 64" "bit w (63 - clzll w)" "\<And>i. 64 - clzll w \<le> i \<Longrightarrow> \<not> bit w i"
proof -
  define xs where "xs = rev [0..<64 :: nat]"
  let ?P = "\<lambda>i. \<not> bit w i"
  have cz: "clzll w = length (takeWhile ?P xs)" by (simp only: clzll_def xs_def)
  have len: "length xs = 64" by (simp only: xs_def length_rev length_upt)
  have nth: "xs ! c = 63 - c" if "c < 64" for c
  proof -
    have "xs ! c = [0..<64] ! (64 - Suc c)"
      unfolding xs_def by (subst rev_nth) (use that in \<open>simp_all only: length_upt diff_zero\<close>)
    then show ?thesis using nth_upt [of 0 "64 - Suc c" 64] that by simp
  qed
  obtain i where i: "bit w i" using assms by (auto simp: bit_eq_iff)
  then have "i < 64" using bit_imp_le_length [of w i] by simp
  then have "i \<in> set xs" by (simp only: xs_def set_rev set_upt) simp
  then have "takeWhile ?P xs \<noteq> xs" using i by (metis takeWhile_eq_all_conv)
  then show lt: "clzll w < 64"
    unfolding cz using length_takeWhile_le [of ?P xs] len
    by (metis le_neq_implies_less take_all_iff takeWhile_eq_take order_refl)
  show "bit w (63 - clzll w)"
    using nth_length_takeWhile [of ?P xs] lt nth [OF lt] len by (simp add: cz)
  show "\<not> bit w i" if "64 - clzll w \<le> i" for i
  proof (cases "i < 64")
    case True
    then have less: "63 - i < length (takeWhile ?P xs)" using that lt cz by simp
    then have "\<not> bit w (xs ! (63 - i))"
      using set_takeWhileD [of "takeWhile ?P xs ! (63 - i)" ?P xs] takeWhile_nth [OF less] nth_mem [OF less]
      by metis
    then show ?thesis using nth [of "63 - i"] True by simp
  next
    case False
    then show ?thesis using bit_imp_le_length [of w i] by auto
  qed
qed

lemma clzll_bounds:
  assumes "w \<noteq> 0"
  shows "2 ^ (63 - clzll w) \<le> unat w" "unat w < 2 ^ (64 - clzll w)"
proof -
  note b = clzll_bits [OF assms]
  have bit: "bit (unat w) i = bit w i" for i
    using bit_imp_le_length [of w i] by (auto simp: bit_unsigned_iff)
  have "bit (unat w) (63 - clzll w)" using b(2) bit by simp
  then have "odd (unat w div 2 ^ (63 - clzll w))" unfolding bit_iff_odd .
  then show "2 ^ (63 - clzll w) \<le> unat w" by (metis div_less even_zero not_le)
  have "take_bit (64 - clzll w) (unat w) = unat w"
  proof (rule bit_eqI)
    show "bit (take_bit (64 - clzll w) (unat w)) i = bit (unat w) i" for i
      using b(3) [of i] by (cases "i < 64 - clzll w") (simp_all add: bit_take_bit_iff bit)
  qed
  then show "unat w < 2 ^ (64 - clzll w)" by (metis take_bit_nat_less_exp)
qed

section \<open>Entering a block into a free list\<close>

lemma same_env_refl [simp]: "same_env st st"
  by (simp add: same_env_def)

lemma same_env_trans: "same_env a b \<Longrightarrow> same_env b c \<Longrightarrow> same_env a c"
  by (simp add: same_env_def)

lemma set_block_simps [simp]:
  "pm_elems (set_block st i ord fr) = pm_elems st" "pm_levels (set_block st i ord fr) = pm_levels st"
  "pm_count (set_block st i ord fr) = pm_count st" "same_env st (set_block st i ord fr)"
  "pm_slock (set_block st i ord fr) = pm_slock st" "pm_int (set_block st i ord fr) = pm_int st"
  "pm_blocks (set_block st i ord fr) =
     (pm_blocks st)(i := (pm_blocks st i)\<lparr>pb_order := ord, pb_free := fr\<rparr>)"
  by (simp_all add: set_block_def same_env_def)

lemma levels_ok_cong:
  "pm_elems st' = pm_elems st \<Longrightarrow> pm_levels st' = pm_levels st \<Longrightarrow> levels_ok st' L = levels_ok st L"
  by (simp add: levels_ok_def)

lemma pmm_inv_append:
  assumes inv: "pmm_inv st T L pend" and T': "tiling (unat (pm_count st)) T'" "T' r = Some j"
    and r: "r \<notin> pend'" "\<And>k. k \<le> PMM_MAX_ORDER \<Longrightarrow> r \<notin> set (L k)"
    and new: "\<And>s k. s \<noteq> r \<Longrightarrow> s \<notin> pend' \<Longrightarrow> T' s = Some k \<Longrightarrow> T s = Some k \<and> s \<notin> pend"
    and old: "\<And>s k. k \<le> PMM_MAX_ORDER \<Longrightarrow> s \<in> set (L k) \<Longrightarrow> T' s = Some k \<and> s \<notin> pend'"
  shows "\<exists>st'. level_append (set_block st r (of_nat j) True) j r = Inr st' \<and>
           pmm_inv st' T' (L(j := L j @ [r])) pend' \<and> same_env st st' \<and>
           pm_blocks st' = pm_blocks (set_block st r (of_nat j) True)"
proof -
  let ?st = "set_block st r (of_nat j) True"
  note j = tiling_bounds(1) [OF T']
  have lev: "levels_ok ?st L" using inv by (simp add: pmm_inv_def levels_ok_cong [of ?st st])
  have len: "Suc (length (L j)) < 2 ^ 64" using pmm_inv_length [OF inv j] by simp
  obtain h l where app: "level_append ?st j r = Inr (?st\<lparr>pm_elems := h, pm_levels := l\<rparr>)"
    "levels_ok (?st\<lparr>pm_elems := h, pm_levels := l\<rparr>) (L(j := L j @ [r]))"
    using level_append_ok [OF lev j r(2) len] by blast
  have set: "set (L k) = {s. T s = Some k \<and> s \<notin> pend \<and> pb_free (pm_blocks st s)}" if "k \<le> PMM_MAX_ORDER" for k
    using inv that by (simp add: pmm_inv_def)
  have "set ((L(j := L j @ [r])) k) = {s. T' s = Some k \<and> s \<notin> pend' \<and> pb_free (pm_blocks ?st s)}"
    if k: "k \<le> PMM_MAX_ORDER" for k
  proof -
    have "s \<in> set (L k) \<longleftrightarrow> T' s = Some k \<and> s \<notin> pend' \<and> pb_free (pm_blocks st s)" if "s \<noteq> r" for s
      using old [OF k, of s] new [OF that, of k] set [OF k] by blast
    then show ?thesis using r T'(2) k by (auto split: if_splits)
  qed
  moreover have "unat (of_nat j :: u8) = j"
    using j by (intro unat_of_nat_small) (simp add: PMM_MAX_ORDER_def)
  ultimately have "pmm_inv (?st\<lparr>pm_elems := h, pm_levels := l\<rparr>) T' (L(j := L j @ [r])) pend'"
    using inv T' app(2) new unfolding pmm_inv_def by simp
  then show ?thesis using app(1) by (auto simp: same_env_def)
qed

lemma used_append:
  assumes "pm_blocks st' = pm_blocks (set_block st r ord True)"
    "\<And>s k. s \<noteq> r \<Longrightarrow> (T' s = Some k \<and> s \<notin> pend') = (T s = Some k \<and> s \<notin> pend)"
    "r \<in> pend \<or> T r = None \<or> pb_free (pm_blocks st r)"
  shows "used st' T' pend' = used st T pend"
proof -
  have "(a, b) \<in> used st' T' pend' \<longleftrightarrow> (a, b) \<in> used st T pend" for a b
    using assms by (cases "a = r") (auto simp: used_def)
  then show ?thesis by auto
qed

section \<open>Splitting\<close>

lemma pmm_split_ok:
  assumes "pmm_inv st T L {s}" "T s = Some i" "order \<le> i"
  shows "\<exists>st' T' L'. pmm_split st s order i = Inr st' \<and> pmm_inv st' T' L' {s} \<and> T' s = Some order \<and>
           free_pages L' = free_pages L \<union> (pages s i - pages s order) \<and>
           used st' T' {s} = used st T {s} \<and> same_env st st' \<and> (merged L \<longrightarrow> merged L')"
  using assms
proof (induction i arbitrary: st T L)
  case 0
  then show ?case by (subst pmm_split.simps) fastforce
next
  case (Suc i)
  show ?case
  proof (cases "order = Suc i")
    case True
    then show ?thesis using Suc.prems by (subst pmm_split.simps) fastforce
  next
    case False
    then have le: "order \<le> i" "order < Suc i" using Suc.prems(3) by auto
    let ?r = "s + 2 ^ i" and ?T = "T(s \<mapsto> i, s + 2 ^ i \<mapsto> i)"
    have T: "tiling (unat (pm_count st)) T" "unat (pm_count st) \<le> 2 ^ 52"
      and addr: "\<And>i. i < unat (pm_count st) \<Longrightarrow> pb_addr (pm_blocks st i) = of_nat (4096 * i)"
      and set: "\<And>k. k \<le> PMM_MAX_ORDER \<Longrightarrow> set (L k) = {t. T t = Some k \<and> t \<noteq> s \<and> pb_free (pm_blocks st t)}"
      using Suc.prems(1) by (auto simp: pmm_inv_def)
    note b = tiling_bounds [OF T(1) Suc.prems(2)]
    have s52: "s < 2 ^ 52" using b(4) T(2) by simp
    have ri: "unat ((pb_addr (pm_blocks st s) div ARCH_PAGE_GRAN) XOR pmm_order_to_pagecount (of_nat i)) = ?r"
      using b addr [OF b(4)] addr_index [OF s52] unat_buddy [OF _ s52, of i] xor_bit_even [OF b(2)] by simp
    have rN: "?r < unat (pm_count st)" using b(3) less_le_trans [of ?r "s + 2 ^ Suc i"] by simp
    have rT: "T ?r = None"
      using tiling_inside [OF T(1) Suc.prems(2), of ?r] by (simp add: pages_def)
    have "\<exists>st'. level_append (set_block st ?r (of_nat i) True) i ?r = Inr st' \<and>
           pmm_inv st' ?T (L(i := L i @ [?r])) {s} \<and> same_env st st' \<and>
           pm_blocks st' = pm_blocks (set_block st ?r (of_nat i) True)"
      using tiling_split [OF T(1) Suc.prems(2)] rT set
      by (intro pmm_inv_append [OF Suc.prems(1)]) auto
    then obtain st1 where st1: "level_append (set_block st ?r (of_nat i) True) i ?r = Inr st1"
      "pmm_inv st1 ?T (L(i := L i @ [?r])) {s}" "same_env st st1"
      "pm_blocks st1 = pm_blocks (set_block st ?r (of_nat i) True)" by blast
    have "?T s = Some i" by simp
    from Suc.IH [OF st1(2) this le(1)] obtain st' T' L' where IH: "pmm_split st1 s order i = Inr st'"
      "pmm_inv st' T' L' {s}" "T' s = Some order"
      "free_pages L' = free_pages (L(i := L i @ [?r])) \<union> (pages s i - pages s order)"
      "used st' T' {s} = used st1 ?T {s}" "same_env st1 st'"
      "merged (L(i := L i @ [?r])) \<longrightarrow> merged L'" by blast
    have "pmm_split st s order (Suc i) = Inr st'"
      using IH(1) st1(1) ri rN le by (subst pmm_split.simps) (simp add: check_block_def)
    moreover have "free_pages L' = free_pages L \<union> (pages s (Suc i) - pages s order)"
    proof -
      have "pages s order \<subseteq> pages s i" using le(1) power_increasing [OF le(1), of 2] by (auto simp: pages_def)
      then show ?thesis
        using b(1) pages_halves [of s i] by (auto simp: IH(4) free_pages_append pages_split)
    qed
    moreover have "used st1 ?T {s} = used st T {s}"
      using rT by (intro used_append [OF st1(4)]) auto
    moreover have "merged L \<longrightarrow> merged L'"
    proof -
      have "?r XOR 2 ^ i = s" using xor_bit_even [OF b(2)] by (metis xor.assoc xor.right_neutral xor_self_eq)
      then show ?thesis using IH(7) merged_append [of L i ?r] b(1) set [of i] by auto
    qed
    ultimately show ?thesis using IH same_env_trans [OF st1(3)] by metis
  qed
qed

section \<open>Taking a block off its list\<close>

lemma pmm_inv_remove:
  assumes inv: "pmm_inv st T L pend" and k: "k \<le> PMM_MAX_ORDER" and i: "i \<in> set (L k)"
  shows "\<exists>st'. level_remove st k (Some i) = Inr st' \<and> same_env st st' \<and> pm_blocks st' = pm_blocks st \<and>
           pmm_inv st' T (L(k := remove1 i (L k))) (insert i pend)"
proof -
  have lev: "levels_ok st L"
    and set: "\<And>j. j \<le> PMM_MAX_ORDER \<Longrightarrow> set (L j) = {s. T s = Some j \<and> s \<notin> pend \<and> pb_free (pm_blocks st s)}"
    using inv by (auto simp: pmm_inv_def)
  have "distinct (L k)" using lev k klist.rep_distinct by (auto simp: levels_ok_def)
  then have "set ((L(k := remove1 i (L k))) j) = {s. T s = Some j \<and> s \<notin> insert i pend \<and> pb_free (pm_blocks st s)}"
    if "j \<le> PMM_MAX_ORDER" for j
    using set [OF that] set [OF k] i by auto
  moreover obtain h l where "level_remove st k (Some i) = Inr (st\<lparr>pm_elems := h, pm_levels := l\<rparr>)"
    "levels_ok (st\<lparr>pm_elems := h, pm_levels := l\<rparr>) (L(k := remove1 i (L k)))"
    using level_remove_ok [OF lev k i] by blast
  ultimately show ?thesis
    using inv by (auto simp: pmm_inv_def same_env_def)
qed

lemma pmm_find_level_ok:
  assumes "levels_ok st L" "i \<le> PMM_MAX_ORDER"
  shows "pmm_find_level st i =
           (if \<forall>k. i \<le> k \<and> k \<le> PMM_MAX_ORDER \<longrightarrow> L k = [] then Inl Panic
            else Inr (LEAST k. i \<le> k \<and> L k \<noteq> []))"
  using assms(2)
proof (induction "PMM_MAX_ORDER - i" arbitrary: i)
  case 0
  then have "i = PMM_MAX_ORDER" by simp
  moreover have "list_is_empty (pm_levels st i) = Inr (L i = [])"
    using assms(1) 0 klist.is_empty_ok by (auto simp: levels_ok_def)
  ultimately show ?case
    by (subst pmm_find_level.simps) (auto simp: check_level_def intro!: Least_equality [symmetric])
next
  case (Suc n)
  have e: "list_is_empty (pm_levels st i) = Inr (L i = [])"
    using assms(1) Suc.prems klist.is_empty_ok by (auto simp: levels_ok_def)
  show ?case
  proof (cases "L i = []")
    case True
    then have eq: "(i \<le> k \<and> L k \<noteq> []) = (Suc i \<le> k \<and> L k \<noteq> [])" for k
      using le_eq_less_or_eq [of i k] by (auto simp: Suc_le_eq)
    have "(\<forall>k. i \<le> k \<and> k \<le> PMM_MAX_ORDER \<longrightarrow> L k = []) = (\<forall>k. Suc i \<le> k \<and> k \<le> PMM_MAX_ORDER \<longrightarrow> L k = [])"
      using eq by blast
    then show ?thesis
      using Suc.hyps(1) [of "Suc i"] Suc.hyps(2) Suc.prems True e unfolding eq
      by (subst pmm_find_level.simps) (simp add: check_level_def)
  next
    case False
    then have "(LEAST k. i \<le> k \<and> L k \<noteq> []) = i" by (auto intro: Least_equality)
    then show ?thesis
      using False e Suc.prems by (subst pmm_find_level.simps) (auto simp: check_level_def)
  qed
qed

section \<open>Allocation\<close>

text \<open>
  The abstract state of the allocator: the free page indices \<open>F\<close> and the allocated blocks \<open>U\<close>
  (first page and order).  With \<open>m\<close>, free buddies are always merged.
\<close>

definition pmm_ok :: "bool \<Rightarrow> pmm_t \<Rightarrow> nat set \<Rightarrow> (nat \<times> nat) set \<Rightarrow> bool" where
  "pmm_ok m st F U \<longleftrightarrow>
     sl_lock (pm_slock st) = 0 \<and>
     (\<exists>T L. pmm_inv st T L {} \<and> F = free_pages L \<and> U = used st T {} \<and> (m \<longrightarrow> merged L))"

lemma pmm_inv_env:
  "pm_blocks st' = pm_blocks st \<Longrightarrow> pm_elems st' = pm_elems st \<Longrightarrow> pm_levels st' = pm_levels st \<Longrightarrow>
   pm_count st' = pm_count st \<Longrightarrow> pmm_inv st' T L pend = pmm_inv st T L pend"
  by (simp add: pmm_inv_def levels_ok_def)

lemma pmm_alloc_some:
  assumes ok: "pmm_ok m st F U" and T: "pmm_inv st T L {}" "F = free_pages L" "U = used st T {}" "m \<longrightarrow> merged L"
    and ord: "unat order \<le> PMM_MAX_ORDER" and ex: "\<not> (\<forall>k. unat order \<le> k \<and> k \<le> PMM_MAX_ORDER \<longrightarrow> L k = [])"
  shows "\<exists>st' s. pmm_alloc st order = Inr (st', of_nat (4096 * s)) \<and> 2 ^ unat order dvd s \<and>
           pages s (unat order) \<subseteq> F \<and> pmm_ok m st' (F - pages s (unat order)) (insert (s, unat order) U) \<and>
           pm_int st' = pm_int st \<and> pm_count st' = pm_count st"
proof -
  define i where "i = (LEAST k. unat order \<le> k \<and> L k \<noteq> [])"
  from ex obtain k where k: "unat order \<le> k" "k \<le> PMM_MAX_ORDER" "L k \<noteq> []" by blast
  then have "unat order \<le> i \<and> L i \<noteq> []" 
    using LeastI [of "\<lambda>k. unat order \<le> k \<and> L k \<noteq> []" k] by (simp add: i_def)
  moreover have "i \<le> k" using Least_le [of "\<lambda>k. unat order \<le> k \<and> L k \<noteq> []" k] k by (simp add: i_def)
  ultimately have i: "unat order \<le> i" "L i \<noteq> []" "i \<le> PMM_MAX_ORDER" using k(2) by auto
  define s where "s = hd (L i)"
  have s: "s \<in> set (L i)" using i(2) by (simp add: s_def)
  define st1 where "st1 = st\<lparr>pm_int := False, pm_slock := \<lparr>sl_lock = 1, prev_int_state = pm_int st\<rparr>\<rparr>"
  have inv1: "pmm_inv st1 T L {}" using T(1) pmm_inv_env [of st1 st T L "{}"] by (simp add: st1_def)
  have Ts: "T s = Some i" using inv1 s i(3) by (auto simp: pmm_inv_def)
  obtain st2 where st2: "level_remove st1 i (Some s) = Inr st2" "same_env st1 st2" "pm_blocks st2 = pm_blocks st1"
    "pmm_inv st2 T (L(i := remove1 s (L i))) {s}"
    using pmm_inv_remove [OF inv1 i(3) s] by auto
  obtain st3 T3 L3 where st3: "pmm_split st2 s (unat order) i = Inr st3" "pmm_inv st3 T3 L3 {s}"
    "T3 s = Some (unat order)" "free_pages L3 = (free_pages L - pages s i) \<union> (pages s i - pages s (unat order))"
    "used st3 T3 {s} = used st2 T {s}" "same_env st2 st3" "m \<longrightarrow> merged L3"
    using pmm_split_ok [OF st2(4) Ts i(1)] free_pages_remove [OF inv1 i(3) s] merged_remove T(4) by metis
  have sub: "pages s (unat order) \<subseteq> pages s i" "pages s i \<subseteq> free_pages L"
    using i s power_increasing [OF i(1), of "2 :: nat"] by (auto simp: free_pages_def pages_def)
  have "pmm_alloc st order = Inr ((set_block st3 s order False)\<lparr>pm_int := pm_int st,
          pm_slock := \<lparr>sl_lock = 0, prev_int_state = pm_int st\<rparr>\<rparr>, of_nat (4096 * s))"
    (is "_ = Inr (?st, _)")
  proof -
    have env: "pm_int st3 = False" "pm_slock st3 = \<lparr>sl_lock = 1, prev_int_state = pm_int st\<rparr>"
      using st2(2) st3(6) by (auto simp: same_env_def st1_def)
    have find: "pmm_find_level st1 (unat order) = Inr i"
      using pmm_find_level_ok [OF _ ord, of st1 L] ex inv1 by (auto simp: pmm_inv_def i_def)
    have head: "l_head (pm_levels st1 i) = Some s"
      using inv1 i by (auto simp: pmm_inv_def levels_ok_def list_rep_def s_def neq_Nil_conv)
    have "tiling (unat (pm_count st3)) T3" using st3(2) by (simp add: pmm_inv_def)
    then have addr: "pb_addr (pm_blocks st3 s) = of_nat (4096 * s)"
      using st3(2) tiling_bounds(4) [of "unat (pm_count st3)" T3 s] st3(3) by (simp add: pmm_inv_def)
    have "spinlock_acquire (pm_int st) (pm_slock st) = Inr (False, \<lparr>sl_lock = 1, prev_int_state = pm_int st\<rparr>)"
      using ok by (simp add: spinlock_acquire_def pmm_ok_def)
    then show ?thesis
      using ord find head st2(1) st3(1) env addr unfolding st1_def
      by (simp add: pmm_alloc_def Let_def spinlock_release_def)
  qed
  moreover have "pmm_ok m ?st (F - pages s (unat order)) (insert (s, unat order) U)"
  proof -
    have "pmm_inv (set_block st3 s order False) T3 L3 {}"
      using st3(2,3) by (auto simp: pmm_inv_def levels_ok_def)
    then have "pmm_inv ?st T3 L3 {}"
      using pmm_inv_env [of ?st "set_block st3 s order False" T3 L3 "{}"] by simp
    moreover have "used ?st T3 {} = insert (s, unat order) U"
    proof -
      have "used ?st T3 {} = insert (s, unat order) (used st3 T3 {s})"
        using st3(3) by (auto simp: used_def split: if_splits)
      moreover have "used st2 T {s} = U"
        using s inv1 i(3) by (auto simp: used_def st2(3) T(3) st1_def pmm_inv_def)
      ultimately show ?thesis using st3(5) by simp
    qed
    moreover have "free_pages L3 = F - pages s (unat order)"
      using sub by (auto simp: st3(4) T(2))
    ultimately show ?thesis using st3(7) unfolding pmm_ok_def by auto
  qed
  moreover have "2 ^ unat order dvd s" "pages s (unat order) \<subseteq> F"
  proof -
    show "2 ^ unat order dvd s"
      using st3(2,3) tiling_bounds(2) [of "unat (pm_count st3)" T3 s] by (simp add: pmm_inv_def)
    show "pages s (unat order) \<subseteq> F" using sub by (simp add: T(2))
  qed
  moreover have "pm_count st3 = pm_count st" using st2(2) st3(6) by (simp add: same_env_def st1_def)
  ultimately show ?thesis by (intro exI [of _ ?st] exI [of _ s]) simp
qed

text \<open>With all free buddies merged, an aligned run of free pages lies in one free block.\<close>

lemma merged_complete:
  assumes inv: "pmm_inv st T L {}" and m: "merged L"
    and s: "2 ^ n dvd s" "n \<le> PMM_MAX_ORDER" "pages s n \<subseteq> free_pages L"
  shows "\<exists>k. n \<le> k \<and> k \<le> PMM_MAX_ORDER \<and> L k \<noteq> []"
proof (rule ccontr)
  assume none: "\<nexists>k. n \<le> k \<and> k \<le> PMM_MAX_ORDER \<and> L k \<noteq> []"
  have T: "tiling (unat (pm_count st)) T"
    and set: "\<And>k. k \<le> PMM_MAX_ORDER \<Longrightarrow> set (L k) = {s. T s = Some k \<and> pb_free (pm_blocks st s)}"
    using inv by (auto simp: pmm_inv_def)
  have cover: "\<exists>t j. j < n \<and> t \<in> set (L j) \<and> p \<in> pages t j \<and> pages t j \<subseteq> pages s n" if "p \<in> pages s n" for p
  proof -
    from that s(3) obtain t j where t: "j \<le> PMM_MAX_ORDER" "t \<in> set (L j)" "p \<in> pages t j"
      by (auto simp: free_pages_def)
    then have "j < n" using none by (metis empty_iff leI list.set(1))
    moreover have "2 ^ j dvd t" using t set tiling_bounds [OF T] by blast
    ultimately show ?thesis using pages_nested [OF _ s(1) _ t(3) that] t by (metis less_imp_le)
  qed
  define j where "j = (LEAST j. \<exists>t. j < n \<and> t \<in> set (L j) \<and> pages t j \<subseteq> pages s n)"
  have "\<exists>j t. j < n \<and> t \<in> set (L j) \<and> pages t j \<subseteq> pages s n" using cover [OF pages_self] by blast
  from LeastI_ex [OF this] obtain t where t: "j < n" "t \<in> set (L j)" "pages t j \<subseteq> pages s n"
    unfolding j_def by blast
  have least: "j \<le> i" if "i < n" "u \<in> set (L i)" "pages u i \<subseteq> pages s n" for i u
    unfolding j_def using that by (intro Least_le) blast
  have jM: "j < PMM_MAX_ORDER" using t(1) s(2) by simp
  have Tt: "T t = Some j" using set [of j] t(2) jM by auto
  note bp = buddy_pair [OF tiling_bounds(2) [OF T Tt]]
  have "t \<in> pages s n" using t(3) pages_self by blast
  then have "pages (min t (t XOR 2 ^ j)) (Suc j) \<subseteq> pages s n"
    using pages_nested [OF bp(1) s(1), of t] t(1) bp(2) pages_self [of t j] by (simp add: Suc_le_eq)
  then have "t XOR 2 ^ j \<in> pages s n" using bp(2) pages_self by blast
  from cover [OF this] obtain u i where u: "i < n" "u \<in> set (L i)" "t XOR 2 ^ j \<in> pages u i" "pages u i \<subseteq> pages s n"
    by blast
  have Tu: "T u = Some i" using set [of i] u(1,2) s(2) by auto
  have "t XOR 2 ^ j < unat (pm_count st)"
    using u(3) tiling_bounds(3) [OF T Tu] by (auto simp: pages_def)
  from buddy_head [OF T Tt refl this] obtain j' where j': "j' \<le> j" "T (t XOR 2 ^ j) = Some j'" by blast
  then have "u = t XOR 2 ^ j" "i = j'" using tiling_overlap [OF T Tu j'(2) u(3) pages_self] by auto
  with least [OF u(1,2,4)] j'(1) u(2) have "t XOR 2 ^ j \<in> set (L j)" by simp
  then show False using m t(2) jM by (auto simp: merged_def)
qed

lemma pmm_alloc_none:
  assumes "sl_lock (pm_slock st) = 0" "pmm_inv st T L {}" "unat order \<le> PMM_MAX_ORDER"
    "\<forall>k. unat order \<le> k \<and> k \<le> PMM_MAX_ORDER \<longrightarrow> L k = []"
  shows "pmm_alloc st order = Inl Panic"
proof -
  define st1 where "st1 = st\<lparr>pm_int := False, pm_slock := \<lparr>sl_lock = 1, prev_int_state = pm_int st\<rparr>\<rparr>"
  have "levels_ok st L" using assms(2) by (simp add: pmm_inv_def)
  then have "levels_ok st1 L" using levels_ok_cong [of st1 st L] by (simp add: st1_def)
  from pmm_find_level_ok [OF this assms(3)] show ?thesis
    using assms unfolding st1_def by (simp add: pmm_alloc_def spinlock_acquire_def)
qed

section \<open>Release\<close>

lemma pmm_inv_retile:
  assumes inv: "pmm_inv st T L pend" and T': "tiling (unat (pm_count st)) T'"
    and K: "\<And>t k. (T' t = Some k \<and> t \<notin> pend') = (T t = Some k \<and> t \<notin> pend)"
  shows "pmm_inv st T' L pend'"
proof -
  have "{s. T' s = Some k \<and> s \<notin> pend' \<and> P s} = {s. T s = Some k \<and> s \<notin> pend \<and> P s}" for k P
    using K by blast
  moreover have "\<forall>s k. T' s = Some k \<longrightarrow> s \<notin> pend' \<longrightarrow> unat (pb_order (pm_blocks st s)) = k"
    using inv K unfolding pmm_inv_def by blast
  ultimately show ?thesis using inv T' unfolding pmm_inv_def by simp
qed

lemma join_buddies:
  assumes T: "tiling N T" and s: "T s = Some i" and b: "b = s XOR 2 ^ i" "T b = Some i"
  shows "(join_tile T (min s b) (Suc i) t = Some k \<and> t \<noteq> min s b) = (T t = Some k \<and> t \<noteq> s \<and> t \<noteq> b)"
proof -
  note bp = buddy_pair [OF tiling_bounds(2) [OF T s], folded b(1)]
  have mem: "s \<in> pages (min s b) (Suc i)" "b \<in> pages (min s b) (Suc i)" "min s b = s \<or> min s b = b"
    by (auto simp: bp(2))
  have "t \<notin> pages (min s b) (Suc i)" if "T t = Some k" "t \<noteq> s" "t \<noteq> b"
    using tiling_overlap [OF T that(1) s pages_self] tiling_overlap [OF T that(1) b(2) pages_self] that
    by (auto simp: bp(2))
  then show ?thesis using mem by (auto simp: join_tile_def)
qed

lemma pmm_merge_ok:
  assumes "pmm_inv st T L {s}" "T s = Some i"
  shows "\<exists>st' T' L' s' i'. pmm_merge st s i = Inr (st', s', i') \<and> pmm_inv st' T' L' {s'} \<and> T' s' = Some i' \<and>
           free_pages L' \<union> pages s' i' = free_pages L \<union> pages s i \<and>
           used st' T' {s'} = used st T {s} \<and> same_env st st' \<and>
           (merged L \<longrightarrow> merged L') \<and> (i' < PMM_MAX_ORDER \<longrightarrow> s' XOR 2 ^ i' \<notin> set (L' i'))"
  using assms
proof (induction "PMM_MAX_ORDER - i" arbitrary: st T L s i rule: less_induct)
  case less
  have T: "tiling (unat (pm_count st)) T" "unat (pm_count st) \<le> 2 ^ 52"
    and ord: "\<And>t k. T t = Some k \<Longrightarrow> t \<noteq> s \<Longrightarrow> unat (pb_order (pm_blocks st t)) = k"
    and set: "\<And>k. k \<le> PMM_MAX_ORDER \<Longrightarrow> set (L k) = {t. T t = Some k \<and> t \<noteq> s \<and> pb_free (pm_blocks st t)}"
    using less.prems(1) by (auto simp: pmm_inv_def)
  note b = tiling_bounds [OF T(1) less.prems(2)]
  let ?b = "s XOR 2 ^ i"
  have bi: "unat ((of_nat s :: u64) XOR pmm_order_to_pagecount (of_nat i)) = ?b"
    using unat_buddy [of i s] b T(2) by simp
  note bp = buddy_pair [OF b(2)]
  show ?case
  proof (cases "i < PMM_MAX_ORDER \<and> ?b \<in> set (L i)")
    case False
    have "pmm_merge st s i = Inr (st, s, i)"
    proof -
      have "\<not> (?b < unat (pm_count st) \<and> pb_free (pm_blocks st ?b) \<and> unat (pb_order (pm_blocks st ?b)) = i)"
        if "i < PMM_MAX_ORDER"
        using that False buddy_head [OF T(1) less.prems(2) refl] ord [of ?b] set [of i] bp(3) by auto
      then show ?thesis using bi by (subst pmm_merge.simps) (auto simp: Let_def)
    qed
    then show ?thesis using less.prems False
      by (intro exI [of _ st] exI [of _ T] exI [of _ L] exI [of _ s] exI [of _ i]) auto
  next
    case True
    then have i: "i < PMM_MAX_ORDER" "?b \<in> set (L i)" "i \<le> PMM_MAX_ORDER" by auto
    have Tb: "T ?b = Some i" "pb_free (pm_blocks st ?b)" using set [of i] i by auto
    obtain st1 where st1: "level_remove st i (Some ?b) = Inr st1" "same_env st st1" "pm_blocks st1 = pm_blocks st"
      "pmm_inv st1 T (L(i := remove1 ?b (L i))) {?b, s}"
      using pmm_inv_remove [OF less.prems(1) i(3,2)] by auto
    let ?T = "join_tile T (min s ?b) (Suc i)" and ?L = "L(i := remove1 ?b (L i))" and ?s = "min s ?b"
    have T': "tiling (unat (pm_count st)) ?T"
      using buddy_below [OF T(1) less.prems(2) refl _ Tb(1) i(1)] tiling_bounds(4) [OF T(1) Tb(1)] by simp
    have K: "(?T t = Some k \<and> t \<noteq> ?s) = (T t = Some k \<and> t \<noteq> s \<and> t \<noteq> ?b)" for t k
      by (rule join_buddies [OF T(1) less.prems(2) refl Tb(1)])
    have inv1: "pmm_inv st1 ?T ?L {?s}"
      using T' K st1(2) by (intro pmm_inv_retile [OF st1(4)]) (auto simp: same_env_def)
    have "?T ?s = Some (Suc i)" by (simp add: join_tile_def)
    moreover have "PMM_MAX_ORDER - Suc i < PMM_MAX_ORDER - i" using i(1) by simp
    ultimately obtain st' T2 L2 s2 i2 where IH:
      "pmm_merge st1 ?s (Suc i) = Inr (st', s2, i2)" "pmm_inv st' T2 L2 {s2}" "T2 s2 = Some i2"
      "free_pages L2 \<union> pages s2 i2 = free_pages ?L \<union> pages ?s (Suc i)"
      "used st' T2 {s2} = used st1 ?T {?s}" "same_env st1 st'" "merged ?L \<longrightarrow> merged L2"
      "i2 < PMM_MAX_ORDER \<longrightarrow> s2 XOR 2 ^ i2 \<notin> set (L2 i2)"
      using less.hyps [OF _ inv1] by blast
    have "pmm_merge st s i = Inr (st', s2, i2)"
      using IH(1) st1(1) bi i(1) Tb ord [of ?b] bp(3) tiling_bounds(4) [OF T(1) Tb(1)]
      by (subst pmm_merge.simps) (auto simp: Let_def min_def split: if_splits)
    moreover have "free_pages L2 \<union> pages s2 i2 = free_pages L \<union> pages s i"
      using i free_pages_remove [OF less.prems(1) i(3,2)] bp(2) by (auto simp: IH(4) free_pages_iff)
    moreover have "used st1 ?T {?s} = used st T {s}"
    proof -
      have "(t, k) \<in> used st1 ?T {?s} \<longleftrightarrow> (t, k) \<in> used st T {s}" for t k
        using K [of t k] Tb(2) unfolding used_def st1(3) by auto
      then show ?thesis by auto
    qed
    ultimately show ?thesis
      using IH same_env_trans [OF st1(2) IH(6)] merged_remove
      by (intro exI [of _ st'] exI [of _ T2] exI [of _ L2] exI [of _ s2] exI [of _ i2]) auto
  qed
qed

lemma pmm_free_ok:
  assumes ok: "pmm_ok m st F U" and s: "(s, k) \<in> U" and low: "of_nat (4096 * s) < HHDM"
  shows "\<exists>st'. pmm_free HHDM st (of_nat (4096 * s)) = Inr st' \<and>
           pmm_ok m st' (F \<union> pages s k) (U - {(s, k)}) \<and> pm_int st' = pm_int st \<and> pm_count st' = pm_count st"
proof -
  obtain T L where T: "pmm_inv st T L {}" "F = free_pages L" "U = used st T {}" "m \<longrightarrow> merged L"
    using ok by (auto simp: pmm_ok_def)
  have Ts: "T s = Some k" "\<not> pb_free (pm_blocks st s)" using s T(3) by (auto simp: used_def)
  define st1 where "st1 = st\<lparr>pm_int := False, pm_slock := \<lparr>sl_lock = 1, prev_int_state = pm_int st\<rparr>\<rparr>"
  have til: "tiling (unat (pm_count st)) T" "unat (pm_count st) \<le> 2 ^ 52" using T(1) by (auto simp: pmm_inv_def)
  note b = tiling_bounds [OF til(1) Ts(1)]
  have "pmm_inv st1 T L {}" using T(1) pmm_inv_env [of st1 st T L "{}"] by (simp add: st1_def)
  then have inv1: "pmm_inv st1 T L {s}" using Ts(2) by (auto simp: pmm_inv_def st1_def)
  obtain st2 T2 L2 s2 i2 where M: "pmm_merge st1 s k = Inr (st2, s2, i2)" "pmm_inv st2 T2 L2 {s2}" "T2 s2 = Some i2"
    "free_pages L2 \<union> pages s2 i2 = free_pages L \<union> pages s k" "used st2 T2 {s2} = used st1 T {s}"
    "same_env st1 st2" "merged L \<longrightarrow> merged L2" "i2 < PMM_MAX_ORDER \<longrightarrow> s2 XOR 2 ^ i2 \<notin> set (L2 i2)"
    using pmm_merge_ok [OF inv1 Ts(1)] by blast
  have til2: "tiling (unat (pm_count st2)) T2" using M(2) by (simp add: pmm_inv_def)
  note i2 = tiling_bounds(1) [OF til2 M(3)]
  have set2: "k \<le> PMM_MAX_ORDER \<Longrightarrow> set (L2 k) = {t. T2 t = Some k \<and> t \<notin> {s2} \<and> pb_free (pm_blocks st2 t)}" for k
    using M(2) by (simp add: pmm_inv_def)
  obtain st3 where st3: "level_append (set_block st2 s2 (of_nat i2) True) i2 s2 = Inr st3"
    "pmm_inv st3 T2 (L2(i2 := L2 i2 @ [s2])) {}" "same_env st2 st3"
    "pm_blocks st3 = pm_blocks (set_block st2 s2 (of_nat i2) True)"
    using pmm_inv_append [OF M(2) til2 M(3), of "{}"] set2 by blast
  let ?st = "st3\<lparr>pm_int := pm_int st, pm_slock := \<lparr>sl_lock = 0, prev_int_state = pm_int st\<rparr>\<rparr>"
  have idx: "unat ((of_nat (4096 * s) :: u64) div ARCH_PAGE_GRAN) = s"
    using addr_index [of s] b(4) til(2) unat_of_nat_small [of s, where 'a = 64] by simp
  have "pmm_free HHDM st (of_nat (4096 * s)) = Inr ?st"
  proof -
    have env: "pm_int st3 = False" "pm_slock st3 = \<lparr>sl_lock = 1, prev_int_state = pm_int st\<rparr>"
      using M(6) st3(3) by (auto simp: same_env_def st1_def)
    have acq: "spinlock_acquire (pm_int st) (pm_slock st) = Inr (False, \<lparr>sl_lock = 1, prev_int_state = pm_int st\<rparr>)"
      using ok by (simp add: spinlock_acquire_def pmm_ok_def)
    have "unat (pb_order (pm_blocks st s)) = k" using T(1) Ts(1) by (auto simp: pmm_inv_def)
    then show ?thesis
      using low acq idx Ts(2) b(4) M(1) st3(1) env unfolding st1_def
      by (simp add: pmm_free_def Let_def check_block_def spinlock_release_def del: of_nat_mult)
  qed
  moreover have "pmm_ok m ?st (F \<union> pages s k) (U - {(s, k)})"
  proof -
    have "pmm_inv ?st T2 (L2(i2 := L2 i2 @ [s2])) {}"
      using st3(2) pmm_inv_env [of ?st st3 T2 "L2(i2 := L2 i2 @ [s2])" "{}"] by simp
    moreover have "used ?st T2 {} = U - {(s, k)}"
    proof -
      have "used st3 T2 {} = used st2 T2 {s2}" by (rule used_append [OF st3(4)]) auto
      also have "\<dots> = U - {(s, k)}" using M(5) Ts(1) by (auto simp: used_def T(3) st1_def)
      finally show ?thesis by (simp add: used_def)
    qed
    moreover have "m \<longrightarrow> merged (L2(i2 := L2 i2 @ [s2]))" using merged_append [OF _ i2] M(7,8) T(4) by blast
    moreover have "free_pages (L2(i2 := L2 i2 @ [s2])) = F \<union> pages s k"
      using M(4) by (simp add: free_pages_append [OF i2] T(2))
    ultimately show ?thesis unfolding pmm_ok_def by auto
  qed
  moreover have "pm_count st3 = pm_count st" using M(6) st3(3) by (simp add: same_env_def st1_def)
  ultimately show ?thesis by (intro exI [of _ ?st]) simp
qed

section \<open>Properties\<close>

text \<open>The order computed for a number of pages is the least one whose block has that many pages.\<close>

theorem pmm_pagecount_to_order_correct:
  assumes "1 \<le> unat count" "unat count \<le> 2 ^ 63"
  shows "unat count \<le> 2 ^ unat (pmm_pagecount_to_order count) \<and>
         (\<forall>n. unat count \<le> 2 ^ n \<longrightarrow> unat (pmm_pagecount_to_order count) \<le> n)"
proof (cases "count = 1")
  case True
  then show ?thesis by (simp add: pmm_pagecount_to_order_def)
next
  case False
  let ?w = "count - 1"
  have w: "unat ?w = unat count - 1"
    using assms(1) by (subst unat_sub_nowrap) (simp_all add: word_le_nat_alt)
  have nz: "?w \<noteq> 0" using False by simp
  note b = clzll_bounds [OF nz] and c = clzll_bits(1) [OF nz]
  have o: "unat (pmm_pagecount_to_order count) = 64 - clzll ?w"
    using False unat_of_nat_small [of "64 - clzll ?w", where 'a = 8] by (simp add: pmm_pagecount_to_order_def)
  have "unat count \<le> 2 ^ (64 - clzll ?w)" using b(2) w assms(1) by simp
  moreover have "64 - clzll ?w \<le> n" if "unat count \<le> 2 ^ n" for n
  proof -
    have "2 ^ (63 - clzll ?w) < unat count" using b(1) w assms(1) by linarith
    then have "2 ^ (63 - clzll ?w) < (2 :: nat) ^ n" using that by (rule less_le_trans)
    then have "63 - clzll ?w < n" by simp
    then show ?thesis using c by simp
  qed
  ultimately show ?thesis unfolding o by blast
qed

text \<open>C1: an allocation of order \<open>n \<le> 10\<close> either returns the address of an aligned run of \<open>2 ^ n\<close> pages
  that were free and are now recorded as one allocated block, all other pages and blocks being as
  before, or panics; with free buddies merged, it panics only if no aligned run of that size is
  free.  The allocator's lock and the interrupt flag are as before the call.\<close>

theorem pmm_alloc_correct:
  assumes ok: "pmm_ok m st F U" and ord: "unat order \<le> PMM_MAX_ORDER"
  shows "(\<exists>st' s. pmm_alloc st order = Inr (st', of_nat (4096 * s)) \<and> 2 ^ unat order dvd s \<and>
            pages s (unat order) \<subseteq> F \<and> pmm_ok m st' (F - pages s (unat order)) (insert (s, unat order) U) \<and>
            pm_int st' = pm_int st) \<or>
         (pmm_alloc st order = Inl Panic \<and>
          (m \<longrightarrow> (\<nexists>s. 2 ^ unat order dvd s \<and> pages s (unat order) \<subseteq> F)))"
proof -
  obtain T L where T: "pmm_inv st T L {}" "F = free_pages L" "U = used st T {}" "m \<longrightarrow> merged L"
    and lock: "sl_lock (pm_slock st) = 0" using ok by (auto simp: pmm_ok_def)
  show ?thesis
  proof (cases "\<forall>k. unat order \<le> k \<and> k \<le> PMM_MAX_ORDER \<longrightarrow> L k = []")
    case True
    then show ?thesis
      using pmm_alloc_none [OF lock T(1) ord True] merged_complete [OF T(1) _ _ ord] T(2,4) by blast
  next
    case False
    show ?thesis using pmm_alloc_some [OF ok T ord False] by blast
  qed
qed

text \<open>C2: releasing an allocated block returns exactly its pages to the free pages and forgets the
  block; no assertion fails, and the result is again well formed (with free buddies merged, if
  they were).\<close>

theorem pmm_free_correct:
  assumes "pmm_ok m st F U" "(s, k) \<in> U" "of_nat (4096 * s) < HHDM"
  shows "\<exists>st'. pmm_free HHDM st (of_nat (4096 * s)) = Inr st' \<and>
           pmm_ok m st' (F \<union> pages s k) (U - {(s, k)}) \<and> pm_int st' = pm_int st"
  using pmm_free_ok [OF assms] by blast

end
