(* ===== verification/Pmm_Init.thy ===== *)
theory Pmm_Init
  imports Pmm_Alloc
begin

text \<open>
  Initialisation of the buddy allocator from the memory map: the greedy loop covers each usable
  entry exactly, and the array of blocks itself is left out.
\<close>

section \<open>One usable entry\<close>

text \<open>Addresses are page numbers here; \<open>adr\<close> is the address of a page.\<close>

definition adr :: "nat \<Rightarrow> uptr" where "adr a = of_nat (4096 * a)"

definition fits :: "nat \<Rightarrow> nat \<Rightarrow> nat \<Rightarrow> bool" where
  "fits a e k \<longleftrightarrow> a + 2 ^ k \<le> e \<and> 2 ^ k dvd a"

lemma unat_adr: "a \<le> 2 ^ 40 \<Longrightarrow> unat (adr a) = 4096 * a"
  unfolding adr_def by (rule unat_of_nat_small) simp

lemma adr_inject: "a \<le> 2 ^ 40 \<Longrightarrow> b \<le> 2 ^ 40 \<Longrightarrow> adr a = adr b \<longleftrightarrow> a = b"
  by (metis mult_left_cancel unat_adr zero_neq_numeral)

lemma unat_span:
  assumes "k \<le> PMM_MAX_ORDER"
  shows "unat (pmm_order_to_pagecount (of_nat k) * ARCH_PAGE_GRAN) = 4096 * 2 ^ k" "(2 :: nat) ^ k \<le> 1024"
proof -
  show le: "(2 :: nat) ^ k \<le> 1024"
    using assms power_increasing [of k 10 "2 :: nat"] by (simp add: PMM_MAX_ORDER_def)
  then show "unat (pmm_order_to_pagecount (of_nat k) * ARCH_PAGE_GRAN) = 4096 * 2 ^ k"
    using unat_pagecount [OF assms]
    by (subst unat_mult_nowrap) (simp_all add: ARCH_PAGE_GRAN_def ARCH_PAGE_SIZE_4K_def)
qed

lemma adr_span:
  assumes "k \<le> PMM_MAX_ORDER" "a \<le> 2 ^ 40"
  shows "adr a + pmm_order_to_pagecount (of_nat k) * ARCH_PAGE_GRAN = adr (a + 2 ^ k)"
    "unat (adr a + pmm_order_to_pagecount (of_nat k) * ARCH_PAGE_GRAN) = 4096 * (a + 2 ^ k)"
proof -
  note sp = unat_span [OF assms(1)]
  have u: "unat (adr a + pmm_order_to_pagecount (of_nat k) * ARCH_PAGE_GRAN) = 4096 * (a + 2 ^ k)"
    using sp assms(2) by (subst unat_add_nowrap) (simp_all add: unat_adr)
  then show "unat (adr a + pmm_order_to_pagecount (of_nat k) * ARCH_PAGE_GRAN) = 4096 * (a + 2 ^ k)" .
  have "unat (adr (a + 2 ^ k)) = 4096 * (a + 2 ^ k)"
    unfolding adr_def by (rule unat_of_nat_small) (use sp assms(2) in simp)
  with u show "adr a + pmm_order_to_pagecount (of_nat k) * ARCH_PAGE_GRAN = adr (a + 2 ^ k)"
    by (simp only: word_unat_eq_iff)
qed

lemma init_test:
  assumes "k \<le> PMM_MAX_ORDER" "a \<le> 2 ^ 40" "e \<le> 2 ^ 40"
  shows "(adr a + pmm_order_to_pagecount (of_nat k) * ARCH_PAGE_GRAN > adr e \<or>
          adr a mod (pmm_order_to_pagecount (of_nat k) * ARCH_PAGE_GRAN) \<noteq> 0) = (\<not> fits a e k)"
proof -
  have "(adr a + pmm_order_to_pagecount (of_nat k) * ARCH_PAGE_GRAN > adr e) = (\<not> a + 2 ^ k \<le> e)"
    using adr_span(2) [OF assms(1,2)] unat_adr [OF assms(3)] by (simp add: word_less_nat_alt not_le) arith
  moreover have "(adr a mod (pmm_order_to_pagecount (of_nat k) * ARCH_PAGE_GRAN) = 0) = (2 ^ k dvd a)"
    using unat_span(1) [OF assms(1)] unat_adr [OF assms(2)]
    by (simp add: word_unat_eq_iff unat_mod mult_mod_right [symmetric] dvd_eq_mod_eq_0)
  ultimately show ?thesis by (simp add: fits_def)
qed

definition init_put :: "pmm_t \<Rightarrow> nat \<Rightarrow> nat \<Rightarrow> pmm_t res" where
  "init_put st a k =
     rbind (check_block st a) (\<lambda>_. level_append (set_block st a (of_nat k) True) k a)"

lemma init_entry_search:
  assumes "o' \<le> PMM_MAX_ORDER" "k \<le> o'" "fits a e k" "\<And>j. k < j \<Longrightarrow> j \<le> o' \<Longrightarrow> \<not> fits a e j"
    "a < e" "e \<le> 2 ^ 40" "init_put st a k = Inr st'"
  shows "pmm_init_entry st (adr e) (of_nat o') (adr a) =
         pmm_init_entry st' (adr e) (of_nat PMM_MAX_ORDER) (adr (a + 2 ^ k))"
  using assms
proof (induction o')
  case 0
  have a: "a \<le> 2 ^ 40" using 0 by simp
  have "adr a \<noteq> adr e" using adr_inject [OF a 0(6)] 0(5) by simp
  moreover have "unat (adr a div ARCH_PAGE_GRAN) = a"
    using unat_adr [OF a] by (simp add: unat_div ARCH_PAGE_GRAN_def ARCH_PAGE_SIZE_4K_def)
  ultimately show ?case
    using 0 init_test [of 0 a e] adr_span(1) [of 0 a] a
    by (subst pmm_init_entry.simps) (simp add: Let_def init_put_def)
next
  case (Suc o')
  have a: "a \<le> 2 ^ 40" using Suc.prems by simp
  have ne: "adr a \<noteq> adr e" using adr_inject [OF a Suc.prems(6)] Suc.prems(5) by simp
  have idx: "unat (adr a div ARCH_PAGE_GRAN) = a"
    using unat_adr [OF a] by (simp add: unat_div ARCH_PAGE_GRAN_def ARCH_PAGE_SIZE_4K_def)
  have small: "unat (of_nat (Suc o') :: u8) = Suc o'"
    using Suc.prems(1) by (intro unat_of_nat_small) (simp add: PMM_MAX_ORDER_def)
  then have nz: "(of_nat (Suc o') :: u8) \<noteq> 0" by (metis nat.simps(3) unsigned_0)
  show ?case
  proof (cases "k = Suc o'")
    case True
    then show ?thesis
      using Suc.prems init_test [OF Suc.prems(1) a Suc.prems(6)] adr_span(1) [OF Suc.prems(1) a] ne idx small
      by (subst pmm_init_entry.simps) (simp add: Let_def init_put_def)
  next
    case False
    then have "\<not> fits a e (Suc o')" using Suc.prems by simp
    then have "pmm_init_entry st (adr e) (of_nat (Suc o')) (adr a) = pmm_init_entry st (adr e) (of_nat o') (adr a)"
      using init_test [OF Suc.prems(1) a Suc.prems(6)] ne nz
      by (subst pmm_init_entry.simps) (simp add: Let_def)
    then show ?thesis using Suc False by simp
  qed
qed

text \<open>
  The state while the pages from \<open>b\<close> up to \<open>a\<close> of the entry from \<open>b\<close> to \<open>e\<close> have been entered:
  \<open>F\<close> are the free pages, all below \<open>a\<close>, and every other page is a used block of order 0.  With
  \<open>m\<close>, no free block of the entry could have been larger.
\<close>

definition filling :: "bool \<Rightarrow> nat \<Rightarrow> nat \<Rightarrow> nat \<Rightarrow> pmm_t \<Rightarrow> nat set \<Rightarrow> bool" where
  "filling m b e a st F \<longleftrightarrow>
     (\<exists>T L. pmm_inv st T L {} \<and> F = free_pages L \<and> used st T {} = {(p, 0) | p. p < unat (pm_count st) \<and> p \<notin> F} \<and>
        (\<forall>k \<le> PMM_MAX_ORDER. \<forall>s \<in> set (L k). s + 2 ^ k \<le> a) \<and>
        (m \<longrightarrow> merged L \<and>
           (\<forall>k < PMM_MAX_ORDER. \<forall>s \<in> set (L k).
              (b \<le> s \<longrightarrow> \<not> fits s e (Suc k)) \<and> (s < b \<longrightarrow> s + 2 ^ k < b))))"

lemma filling_buddy:
  assumes "fits a e k" "b \<le> a" and below: "\<forall>s \<in> S. s + 2 ^ k \<le> a"
    and big: "\<forall>s \<in> S. (b \<le> s \<longrightarrow> \<not> fits s e (Suc k)) \<and> (s < b \<longrightarrow> s + 2 ^ k < b)"
  shows "a XOR 2 ^ k \<notin> S"
proof
  assume S: "a XOR 2 ^ k \<in> S"
  have a: "2 ^ k dvd a" "a + 2 ^ k \<le> e" using assms(1) by (auto simp: fits_def)
  show False
  proof (cases "2 ^ Suc k dvd a")
    case True
    then show False using S below xor_bit_even [OF True] by fastforce
  next
    case False
    note o' = aligned_odd [OF a(1) False]
    have x: "a XOR 2 ^ k = a - 2 ^ k" using xor_bit [OF a(1)] False by simp
    have "fits (a - 2 ^ k) e (Suc k)" using o' a by (simp add: fits_def)
    then show False using S big o' assms(2) unfolding x by fastforce
  qed
qed

lemma filling_put:
  assumes fil: "filling m b e a st F" and ba: "b \<le> a" and k: "k \<le> PMM_MAX_ORDER" "fits a e k"
    and e: "e \<le> unat (pm_count st)" and max: "k < PMM_MAX_ORDER \<longrightarrow> \<not> fits a e (Suc k)"
  shows "\<exists>st'. init_put st a k = Inr st' \<and> filling m b e (a + 2 ^ k) st' (F \<union> pages a k) \<and> same_env st st'"
proof -
  obtain T L where T: "pmm_inv st T L {}" "F = free_pages L"
    "used st T {} = {(p, 0) | p. p < unat (pm_count st) \<and> p \<notin> F}"
    and below: "\<forall>k \<le> PMM_MAX_ORDER. \<forall>s \<in> set (L k). s + 2 ^ k \<le> a"
    and m: "m \<Longrightarrow> merged L" "m \<Longrightarrow> \<forall>k < PMM_MAX_ORDER. \<forall>s \<in> set (L k).
              (b \<le> s \<longrightarrow> \<not> fits s e (Suc k)) \<and> (s < b \<longrightarrow> s + 2 ^ k < b)"
    using fil unfolding filling_def by blast
  have til: "tiling (unat (pm_count st)) T"
    and set: "\<And>j. j \<le> PMM_MAX_ORDER \<Longrightarrow> set (L j) = {s. T s = Some j \<and> pb_free (pm_blocks st s)}"
    using T(1) by (auto simp: pmm_inv_def)
  have Fa: "p < a" if "p \<in> F" for p
    using that below unfolding T(2) free_pages_iff pages_def by fastforce
  have single: "j = 0" if "T t = Some j" "p \<in> pages t j" "a \<le> p" for t j p
  proof -
    have "\<not> pb_free (pm_blocks st t)"
    proof
      assume "pb_free (pm_blocks st t)"
      then have "t \<in> set (L j)" using set tiling_bounds(1) [OF til that(1)] that(1) by simp
      then have "p \<in> F" using that(2) tiling_bounds(1) [OF til that(1)] by (auto simp: T(2) free_pages_iff)
      then show False using Fa that(3) by fastforce
    qed
    then have "(t, j) \<in> used st T {}" using that(1) by (simp add: used_def)
    then show ?thesis by (auto simp: T(3))
  qed
  have T': "tiling (unat (pm_count st)) (join_tile T a k)"
  proof (rule tiling_join [OF til k(1)])
    show "2 ^ k dvd a" "a + 2 ^ k \<le> unat (pm_count st)" using k(2) e by (auto simp: fits_def)
    show "pages t j \<subseteq> pages a k" if "T t = Some j" "pages t j \<inter> pages a k \<noteq> {}" for t j
    proof -
      from that(2) obtain p where "p \<in> pages t j" "p \<in> pages a k" by blast
      moreover from this have "j = 0" using single [OF that(1)] by (auto simp: pages_def)
      ultimately show ?thesis by (auto simp: pages_def)
    qed
  qed
  have keep: "s \<notin> pages a k \<and> s \<noteq> a" if "j \<le> PMM_MAX_ORDER" "s \<in> set (L j)" for s j
  proof -
    have "s + 2 ^ j \<le> a" using below that by blast
    then have "s < a" using less_le_trans [of s "s + 2 ^ j" a] by simp
    then show ?thesis by (simp add: pages_def)
  qed
  have ap: "\<exists>st'. level_append (set_block st a (of_nat k) True) k a = Inr st' \<and>
           pmm_inv st' (join_tile T a k) (L(k := L k @ [a])) {} \<and> same_env st st' \<and>
           pm_blocks st' = pm_blocks (set_block st a (of_nat k) True)"
    using keep set by (intro pmm_inv_append [OF T(1) T']) (auto simp: join_tile_def split: if_splits)
  then obtain st' where st': "level_append (set_block st a (of_nat k) True) k a = Inr st'"
    "pmm_inv st' (join_tile T a k) (L(k := L k @ [a])) {}" "same_env st st'"
    "pm_blocks st' = pm_blocks (set_block st a (of_nat k) True)" by blast
  have "a < unat (pm_count st)" using k(2) e less_le_trans [of a "a + 2 ^ k"] by (auto simp: fits_def)
  then have put: "init_put st a k = Inr st'" using st'(1) by (simp add: init_put_def check_block_def)
  have "used st' (join_tile T a k) {} = {(p, 0) | p. p < unat (pm_count st') \<and> p \<notin> F \<union> pages a k}"
  proof -
    have "(t, j) \<in> used st' (join_tile T a k) {} \<longleftrightarrow> (t, j) \<in> used st T {} \<and> t \<notin> pages a k" for t j
      unfolding used_def st'(4) by (auto simp: join_tile_def)
    then show ?thesis using st'(3) by (auto simp: T(3) same_env_def)
  qed
  moreover have "\<forall>j \<le> PMM_MAX_ORDER. \<forall>s \<in> set ((L(k := L k @ [a])) j). s + 2 ^ j \<le> a + 2 ^ k"
    using below k(1) by (auto intro: trans_le_add1) (blast dest: add_leD1)
  moreover have "merged (L(k := L k @ [a]))" if m
  proof (rule merged_append [OF m(1) [OF that] k(1)])
    assume "k < PMM_MAX_ORDER"
    then show "a XOR 2 ^ k \<notin> set (L k)"
      using filling_buddy [OF k(2) ba, of "set (L k)"] below m(2) [OF that] k(1) by blast
  qed
  moreover have "\<forall>j < PMM_MAX_ORDER. \<forall>s \<in> set ((L(k := L k @ [a])) j).
      (b \<le> s \<longrightarrow> \<not> fits s e (Suc j)) \<and> (s < b \<longrightarrow> s + 2 ^ j < b)" if m
    using m(2) [OF that] max ba by auto
  ultimately have "filling m b e (a + 2 ^ k) st' (F \<union> pages a k)"
    unfolding filling_def using st'(2) free_pages_append [OF k(1), of L a] T(2) by blast
  then show ?thesis using put st'(3) by blast
qed

lemma fits_max:
  assumes "a < e"
  obtains k where "k \<le> PMM_MAX_ORDER" "fits a e k" "\<And>j. k < j \<Longrightarrow> j \<le> PMM_MAX_ORDER \<Longrightarrow> \<not> fits a e j"
proof -
  let ?K = "{k. k \<le> PMM_MAX_ORDER \<and> fits a e k}"
  have K: "finite ?K" "0 \<in> ?K" using assms by (auto simp: fits_def)
  then have "Max ?K \<in> ?K" using Max_in by blast
  moreover have "\<not> fits a e j" if "Max ?K < j" "j \<le> PMM_MAX_ORDER" for j
    using Max_ge [OF K(1)] that by (metis (mono_tags, lifting) mem_Collect_eq not_le)
  ultimately show thesis using that by blast
qed

lemma init_entry_fill:
  assumes "filling m b e a st F" "b \<le> a" "a \<le> e" "e \<le> unat (pm_count st)" "e \<le> 2 ^ 40"
  shows "\<exists>st'. pmm_init_entry st (adr e) (of_nat PMM_MAX_ORDER) (adr a) = Some (Inr st') \<and>
           filling m b e e st' (F \<union> {a..<e}) \<and> same_env st st'"
  using assms
proof (induction "e - a" arbitrary: a st F rule: less_induct)
  case less
  show ?case
  proof (cases "a = e")
    case True
    then show ?thesis using less.prems by (subst pmm_init_entry.simps) auto
  next
    case False
    then have ae: "a < e" using less.prems(3) by simp
    then obtain k where k: "k \<le> PMM_MAX_ORDER" "fits a e k"
      "\<And>j. k < j \<Longrightarrow> j \<le> PMM_MAX_ORDER \<Longrightarrow> \<not> fits a e j" by (rule fits_max) blast
    obtain st1 where st1: "init_put st a k = Inr st1" "filling m b e (a + 2 ^ k) st1 (F \<union> pages a k)" "same_env st st1"
      using filling_put [OF less.prems(1,2) k(1,2) less.prems(4)] k(3) by auto
    have fit: "a + 2 ^ k \<le> e" using k(2) by (simp add: fits_def)
    have "e - (a + 2 ^ k) < e - a" using ae zero_less_power [of "2 :: nat" k] by linarith
    then obtain st' where st': "pmm_init_entry st1 (adr e) (of_nat PMM_MAX_ORDER) (adr (a + 2 ^ k)) = Some (Inr st')"
      "filling m b e e st' (F \<union> pages a k \<union> {a + 2 ^ k..<e})" "same_env st1 st'"
      using less.hyps [OF _ st1(2) _ fit] less.prems(2,4,5) st1(3) by (auto simp: same_env_def)
    have "pages a k \<union> {a + 2 ^ k..<e} = {a..<e}" using fit by (auto simp: pages_def)
    then have "filling m b e e st' (F \<union> {a..<e})" using st'(2) by (simp add: Un_assoc)
    moreover have "pmm_init_entry st (adr e) (of_nat PMM_MAX_ORDER) (adr a) = Some (Inr st')"
      using init_entry_search [OF le_refl k(1,2) k(3) ae less.prems(5) st1(1)] st'(1) by simp
    ultimately show ?thesis using same_env_trans [OF st1(3) st'(3)] by blast
  qed
qed

section \<open>The whole memory map\<close>

text \<open>
  What the boot protocol guarantees of the usable entries: page-aligned, below the architectural
  limit of 52 address bits, in ascending order and without overlap.
\<close>

definition entry_ok :: "memmap_entry \<Rightarrow> bool" where
  "entry_ok e \<longleftrightarrow>
     4096 dvd unat (me_base e) \<and> 4096 dvd unat (me_length e) \<and> me_length e \<noteq> 0 \<and>
     unat (me_base e) + unat (me_length e) \<le> 2 ^ 52"

definition first_page :: "memmap_entry \<Rightarrow> nat" where "first_page e = unat (me_base e) div 4096"
definition end_page :: "memmap_entry \<Rightarrow> nat" where
  "end_page e = (unat (me_base e) + unat (me_length e)) div 4096"

definition usable :: "memmap_entry list \<Rightarrow> memmap_entry list" where "usable es = filter me_usable es"

definition memmap_ok :: "memmap_entry list \<Rightarrow> bool" where
  "memmap_ok es \<longleftrightarrow>
     (\<forall>e \<in> set (usable es). entry_ok e) \<and> sorted_wrt (\<lambda>d e. end_page d \<le> first_page e) (usable es)"

definition separated :: "memmap_entry list \<Rightarrow> bool" where
  "separated es \<longleftrightarrow> sorted_wrt (\<lambda>d e. end_page d < first_page e) (usable es)"

text \<open>The number of pages the array of blocks takes, and the pages it leaves of an entry.\<close>

definition array_pages :: "nat \<Rightarrow> nat" where "array_pages n = (n * 32 + 4095) div 4096"

definition entry_pages :: "memmap_entry \<Rightarrow> nat \<Rightarrow> memmap_entry \<Rightarrow> nat set" where
  "entry_pages be n e =
     {first_page e + (if me_base e = me_base be then array_pages n else 0)..<end_page e}"

lemma entry_adr:
  assumes "entry_ok e"
  shows "me_base e = adr (first_page e)" "me_end e = adr (end_page e)"
    "end_page e \<le> 2 ^ 40" "first_page e < end_page e" "unat (me_length e) = 4096 * (end_page e - first_page e)"
proof -
  obtain p q where pq: "unat (me_base e) = 4096 * p" "unat (me_length e) = 4096 * q" "p + q \<le> 2 ^ 40"
    using assms by (auto simp: entry_ok_def elim!: dvdE)
  have "unat (me_length e) \<noteq> 0" using assms by (simp add: entry_ok_def unat_eq_zero)
  then have "q > 0" using pq(2) by simp
  have "4096 * p + 4096 * q = 4096 * (p + q)" by simp
  with pq have fe: "first_page e = p" "end_page e = p + q"
    unfolding first_page_def end_page_def by (simp_all only: nonzero_mult_div_cancel_left)
  then show "end_page e \<le> 2 ^ 40" "first_page e < end_page e" "unat (me_length e) = 4096 * (end_page e - first_page e)"
    using pq \<open>q > 0\<close> by auto
  show "me_base e = adr (first_page e)" using pq fe by (simp add: word_unat_eq_iff unat_adr)
  have "unat (me_end e) = 4096 * (p + q)"
    unfolding me_end_def using pq by (subst unat_add_nowrap) auto
  then show "me_end e = adr (end_page e)" using pq fe by (simp add: word_unat_eq_iff unat_adr)
qed

lemma init_blocks_filling:
  assumes "unat count \<le> 2 ^ 52"
  shows "filling m 0 0 0 (pmm_init_blocks count) {}"
proof -
  define T where "T = (\<lambda>s. if s < unat count then Some (0 :: nat) else None)"
  have T: "tiling (unat count) T" by (auto simp: tiling_def T_def pages_def split: if_splits)
  have lists: "levels_ok (pmm_init_blocks count) (\<lambda>_. [])"
    by (simp add: levels_ok_def pmm_init_blocks_def list_rep_def LIST_INIT_def)
  have "pmm_inv (pmm_init_blocks count) T (\<lambda>_. []) {}"
    using assms T lists
    by (auto simp: pmm_inv_def pmm_init_blocks_def ARCH_PAGE_GRAN_def ARCH_PAGE_SIZE_4K_def T_def)
  moreover have "used (pmm_init_blocks count) T {} = {(p, 0) | p. p < unat (pm_count (pmm_init_blocks count)) \<and> p \<notin> {}}"
    by (auto simp: used_def pmm_init_blocks_def T_def split: if_splits)
  ultimately show ?thesis
    unfolding filling_def by (intro exI [of _ T] exI [of _ "\<lambda>_. []"]) (auto simp: free_pages_def merged_def)
qed

lemma filling_next:
  assumes "filling m b e e st F" "e \<le> b'" "m \<Longrightarrow> e < b' \<or> F = {}"
  shows "filling m b' e' b' st F"
proof -
  obtain T L where T: "pmm_inv st T L {}" "F = free_pages L"
    "used st T {} = {(p, 0) | p. p < unat (pm_count st) \<and> p \<notin> F}"
    and bel: "\<forall>k \<le> PMM_MAX_ORDER. \<forall>s \<in> set (L k). s + 2 ^ k \<le> e" and m: "m \<Longrightarrow> merged L"
    using assms(1) unfolding filling_def by blast
  have below: "s + 2 ^ k \<le> e" if "k \<le> PMM_MAX_ORDER" "s \<in> set (L k)" for k s using bel that by blast
  have "(b' \<le> s \<longrightarrow> \<not> fits s e' (Suc k)) \<and> (s < b' \<longrightarrow> s + 2 ^ k < b')"
    if "m" "k < PMM_MAX_ORDER" "s \<in> set (L k)" for k s
  proof -
    have "s \<in> F" using that pages_self [of s k] unfolding T(2) free_pages_iff by (metis less_imp_le)
    then have "e < b'" using assms(3) [OF that(1)] by auto
    moreover have "s + 2 ^ k \<le> e" using below that by simp
    ultimately show ?thesis by auto
  qed
  moreover have "\<forall>k \<le> PMM_MAX_ORDER. \<forall>s \<in> set (L k). s + 2 ^ k \<le> b'"
    using below assms(2) order_trans by blast
  ultimately show ?thesis using T m unfolding filling_def by blast
qed

lemma filling_ok:
  assumes "filling m b e a st F" "sl_lock (pm_slock st) = 0"
  shows "pmm_ok m st F {(p, 0) | p. p < unat (pm_count st) \<and> p \<notin> F}"
  using assms unfolding pmm_ok_def filling_def by metis

lemma init_start_adr:
  assumes "entry_ok e" "unat count \<le> 2 ^ 40"
  shows "pmm_init_start count be e =
         adr (first_page e + (if me_base e = me_base be then array_pages (unat count) else 0))"
proof -
  have "unat (count * SIZEOF_PMM_BLOCK + (ARCH_PAGE_GRAN - 1)) = unat count * 32 + 4095"
    using assms(2)
    by (subst unat_add_nowrap; subst unat_mult_nowrap)
      (simp_all add: SIZEOF_PMM_BLOCK_def ARCH_PAGE_GRAN_def ARCH_PAGE_SIZE_4K_def)
  then have "unat ((count * SIZEOF_PMM_BLOCK + (ARCH_PAGE_GRAN - 1)) div ARCH_PAGE_GRAN) = array_pages (unat count)"
    by (simp add: unat_div array_pages_def ARCH_PAGE_GRAN_def ARCH_PAGE_SIZE_4K_def)
  then have "(count * SIZEOF_PMM_BLOCK + (ARCH_PAGE_GRAN - 1)) div ARCH_PAGE_GRAN = of_nat (array_pages (unat count))"
    by (metis of_nat_unat ucast_id)
  then show ?thesis
    using entry_adr(1) [OF assms(1)]
    by (simp add: pmm_init_start_def adr_def ARCH_PAGE_GRAN_def ARCH_PAGE_SIZE_4K_def algebra_simps)
qed

lemma usable_simps [simp]:
  "usable [] = []" "me_usable e \<Longrightarrow> usable (e # es) = e # usable es" "\<not> me_usable e \<Longrightarrow> usable (e # es) = usable es"
  by (simp_all add: usable_def)

lemma init_entries_fill:
  assumes "\<forall>e \<in> set (usable es). entry_ok e \<and> end_page e \<le> unat (pm_count st) \<and> c \<le> first_page e \<and>
             (me_base e = me_base be \<longrightarrow> first_page e + array_pages (unat (pm_count st)) \<le> end_page e)"
    "sorted_wrt (\<lambda>d e. end_page d \<le> first_page e) (usable es)"
    "m \<longrightarrow> sorted_wrt (\<lambda>d e. end_page d < first_page e) (usable es)"
    "m \<longrightarrow> F = {} \<or> (\<forall>e \<in> set (usable es). c < first_page e)"
    "filling m b c c st F" "unat (pm_count st) \<le> 2 ^ 40"
  shows "\<exists>st' b' c'. pmm_init_entries be st es = Some (Inr st') \<and> same_env st st' \<and>
           filling m b' c' c' st' (F \<union> (\<Union>e \<in> set (usable es). entry_pages be (unat (pm_count st)) e))"
  using assms
proof (induction es arbitrary: b c st F)
  case Nil
  then show ?case by auto
next
  case (Cons e es)
  show ?case
  proof (cases "me_usable e")
    case False
    then have u: "usable (e # es) = usable es" by simp
    show ?thesis using Cons.IH [OF Cons.prems [unfolded u]] False by (simp add: u)
  next
    case True
    let ?N = "unat (pm_count st)"
    let ?a = "first_page e + (if me_base e = me_base be then array_pages ?N else 0)"
    have e: "entry_ok e" "end_page e \<le> ?N" "c \<le> first_page e"
      "me_base e = me_base be \<longrightarrow> first_page e + array_pages ?N \<le> end_page e"
      using Cons.prems(1) True by auto
    note ea = entry_adr [OF e(1)]
    have "filling m ?a (end_page e) ?a st F"
      by (rule filling_next [OF Cons.prems(5)]) (use e(3) Cons.prems(4) True in auto)
    moreover have "?a \<le> end_page e" using e(4) ea(4) by auto
    ultimately obtain st1 where st1:
      "pmm_init_entry st (adr (end_page e)) (of_nat PMM_MAX_ORDER) (adr ?a) = Some (Inr st1)"
      "filling m ?a (end_page e) (end_page e) st1 (F \<union> {?a..<end_page e})" "same_env st st1"
      using init_entry_fill [OF _ le_refl _ e(2) ea(3)] by blast
    have N: "pm_count st1 = pm_count st" using st1(3) by (simp add: same_env_def)
    have ep: "entry_pages be ?N e = {?a..<end_page e}" by (simp add: entry_pages_def)
    have "\<exists>st' b' c'. pmm_init_entries be st1 es = Some (Inr st') \<and> same_env st1 st' \<and>
           filling m b' c' c' st' (F \<union> {?a..<end_page e} \<union> (\<Union>e \<in> set (usable es). entry_pages be (unat (pm_count st1)) e))"
      by (rule Cons.IH [OF _ _ _ _ st1(2)]) (use Cons.prems True N in auto)
    then obtain st' b' c' where st': "pmm_init_entries be st1 es = Some (Inr st')" "same_env st1 st'"
      "filling m b' c' c' st' (F \<union> {?a..<end_page e} \<union> (\<Union>e \<in> set (usable es). entry_pages be ?N e))"
      unfolding N by blast
    have "pmm_init_entries be st (e # es) = Some (Inr st')"
      using True st1(1) st'(1) init_start_adr [OF e(1) Cons.prems(6), of be] ea(2) by simp
    then show ?thesis
      using True st'(3) same_env_trans [OF st1(3) st'(2)]
      by (intro exI [of _ st'] exI [of _ b'] exI [of _ c']) (simp add: ep Un_assoc)
  qed
qed

lemma last_usable: "last_usable_entry es = (if usable es = [] then None else Some (last (usable es)))"
  by (induction es) (auto simp: usable_def)

lemma sorted_pages_inject:
  assumes "\<forall>e \<in> set us. entry_ok e" "sorted_wrt (\<lambda>d e. end_page d \<le> first_page e) us"
    "d \<in> set us" "e \<in> set us" "first_page d = first_page e"
  shows "d = e"
  using assms
proof (induction us)
  case (Cons u us)
  have ne: "first_page u \<noteq> first_page x" if "x \<in> set us" for x
    using Cons.prems(1,2) that entry_adr(4) [of u] by fastforce
  show ?case using Cons.prems ne [of d] ne [of e] Cons.IH by (cases "d = u"; cases "e = u") simp_all
qed simp

lemma last_end:
  assumes "\<forall>e \<in> set us. entry_ok e" "sorted_wrt (\<lambda>d e. end_page d \<le> first_page e) us" "e \<in> set us"
  shows "end_page e \<le> end_page (last us)"
  using assms
proof (induction us)
  case (Cons u us)
  have "end_page u \<le> end_page x" if "x \<in> set us" for x
    using Cons.prems(1,2) that entry_adr(4) [of x] by fastforce
  then show ?case using Cons last_in_set [of us] by (cases "us = []") auto
qed simp

lemma pmm_init_ok:
  assumes mm: "memmap_ok es" and lu: "usable es \<noteq> []"
    and be: "find_blocks_entry es (me_end (last (usable es)) div ARCH_PAGE_GRAN) = Some be" "me_base be + HHDM \<noteq> 0"
  defines "n \<equiv> end_page (last (usable es))"
  defines "F \<equiv> (\<Union>e \<in> set (usable es). entry_pages be n e)"
  shows "\<exists>st. pmm_init HHDM es = Some (Inr st) \<and> pmm_ok (separated es) st F {(p, 0) | p. p < n \<and> p \<notin> F} \<and>
           pm_int st = False \<and> unat (pm_count st) = n"
proof -
  let ?l = "last (usable es)" and ?c = "me_end (last (usable es)) div ARCH_PAGE_GRAN"
  have us: "\<forall>e \<in> set (usable es). entry_ok e" "sorted_wrt (\<lambda>d e. end_page d \<le> first_page e) (usable es)"
    using mm by (auto simp: memmap_ok_def)
  have "?l \<in> set (usable es)" using lu by simp
  then have l: "entry_ok ?l" using us(1) by blast
  note el = entry_adr [OF l]
  have c: "unat ?c = n"
    using el(2,3) unat_adr [OF el(3)] by (simp add: n_def unat_div ARCH_PAGE_GRAN_def ARCH_PAGE_SIZE_4K_def)
  have n40: "n \<le> 2 ^ 40" using el(3) by (simp add: n_def)
  have be': "be \<in> set (usable es)" "?c * SIZEOF_PMM_BLOCK \<le> me_length be"
    using be(1) by (auto simp: find_blocks_entry_def find_Some_iff usable_def)
  have eb: "entry_ok be" using us(1) be'(1) by blast
  have "unat (?c * SIZEOF_PMM_BLOCK) = n * 32"
    using c n40 by (subst unat_mult_nowrap) (auto simp: SIZEOF_PMM_BLOCK_def)
  then have "n * 32 \<le> 4096 * (end_page be - first_page be)"
    using be'(2) entry_adr(5) [OF eb] by (simp add: word_le_nat_alt)
  then have fit: "first_page be + array_pages n \<le> end_page be"
    using entry_adr(4) [OF eb] by (simp add: array_pages_def)
  have "\<exists>st' b' c'. pmm_init_entries be (pmm_init_blocks ?c) es = Some (Inr st') \<and> same_env (pmm_init_blocks ?c) st' \<and>
      filling (separated es) b' c' c' st' ({} \<union> (\<Union>e \<in> set (usable es). entry_pages be (unat (pm_count (pmm_init_blocks ?c))) e))"
  proof (rule init_entries_fill)
    show "filling (separated es) 0 0 0 (pmm_init_blocks ?c) {}" using c n40 by (intro init_blocks_filling) simp
    have "e = be" if "e \<in> set (usable es)" "me_base e = me_base be" for e
      using sorted_pages_inject [OF us that(1) be'(1)] that(2) by (simp add: first_page_def)
    then show "\<forall>e \<in> set (usable es). entry_ok e \<and> end_page e \<le> unat (pm_count (pmm_init_blocks ?c)) \<and> 0 \<le> first_page e \<and>
        (me_base e = me_base be \<longrightarrow> first_page e + array_pages (unat (pm_count (pmm_init_blocks ?c))) \<le> end_page e)"
      using us last_end [OF us] fit c by (auto simp: pmm_init_blocks_def n_def)
  qed (use us c n40 in \<open>auto simp: separated_def pmm_init_blocks_def\<close>)
  then obtain st b' c' where st: "pmm_init_entries be (pmm_init_blocks ?c) es = Some (Inr st)"
    "same_env (pmm_init_blocks ?c) st" "filling (separated es) b' c' c' st F"
    using c by (auto simp: F_def pmm_init_blocks_def)
  have env: "pm_count st = ?c" "pm_slock st = SPINLOCK_INIT" "pm_int st = False"
    using st(2) by (auto simp: same_env_def pmm_init_blocks_def)
  have "pmm_init HHDM es = Some (Inr st)"
    using st(1) be lu by (simp add: pmm_init_def last_usable)
  moreover have "pmm_ok (separated es) st F {(p, 0) | p. p < n \<and> p \<notin> F}"
    using filling_ok [OF st(3)] env c by (simp add: SPINLOCK_INIT_def)
  ultimately show ?thesis using env c by (intro exI [of _ st] conjI) simp_all
qed

section \<open>Properties\<close>

text \<open>C10: for a memory map as the boot protocol describes it, with a usable entry large enough for the
  array of blocks, initialisation ends; afterwards the free pages are exactly the pages of the
  usable entries without those of the array, every other page is a used block of its own, and free
  buddies are merged if no two usable entries touch.\<close>

theorem pmm_init_correct:
  assumes "memmap_ok es" "usable es \<noteq> []"
    "find_blocks_entry es (me_end (last (usable es)) div ARCH_PAGE_GRAN) = Some be" "me_base be + HHDM \<noteq> 0"
    "n = end_page (last (usable es))" "F = (\<Union>e \<in> set (usable es). entry_pages be n e)"
  shows "\<exists>st. pmm_init HHDM es = Some (Inr st) \<and>
           pmm_ok (separated es) st F {(p, 0) | p. p < n \<and> p \<notin> F}"
  using pmm_init_ok [OF assms(1-4)] assms(5,6) by blast

text \<open>A machine with 16 usable pages from address 0x10000, a reserved hole, and 4 more from 0x30000.\<close>

definition example_map :: "memmap_entry list" where
  "example_map =
     [\<lparr>me_base = 0x10000, me_length = 0x10000, me_usable = True\<rparr>,
      \<lparr>me_base = 0x20000, me_length = 0x10000, me_usable = False\<rparr>,
      \<lparr>me_base = 0x30000, me_length = 0x4000, me_usable = True\<rparr>]"

lemma example_map_ok:
  "memmap_ok example_map" "usable example_map \<noteq> []" "separated example_map"
  "find_blocks_entry example_map (me_end (last (usable example_map)) div ARCH_PAGE_GRAN) =
     Some \<lparr>me_base = 0x10000, me_length = 0x10000, me_usable = True\<rparr>"
  "end_page (last (usable example_map)) = 52"
  "(\<Union>e \<in> set (usable example_map).
      entry_pages \<lparr>me_base = 0x10000, me_length = 0x10000, me_usable = True\<rparr> 52 e) = {17..<32} \<union> {48..<52}"
  by (simp_all add: example_map_def memmap_ok_def separated_def usable_def entry_ok_def end_page_def
      first_page_def find_blocks_entry_def me_end_def ARCH_PAGE_GRAN_def ARCH_PAGE_SIZE_4K_def
      SIZEOF_PMM_BLOCK_def entry_pages_def array_pages_def)

definition example_HHDM :: uptr where "example_HHDM = 0xFFFF800000000000"

definition example_free :: "nat set" where "example_free = {17..<32} \<union> {48..<52}"
definition example_used :: "(nat \<times> nat) set" where "example_used = {(p, 0) | p. p < 52 \<and> p \<notin> example_free}"

lemma example_base: "me_base \<lparr>me_base = 0x10000, me_length = 0x10000, me_usable = True\<rparr> + example_HHDM \<noteq> 0"
  by (simp add: example_HHDM_def)

lemma example_pmm:
  "\<exists>st. pmm_init example_HHDM example_map = Some (Inr st) \<and> pmm_ok True st example_free example_used"
  using pmm_init_ok [OF example_map_ok(1,2,4) example_base, unfolded example_map_ok(5,6)] example_map_ok(3)
  by (auto simp only: example_free_def example_used_def)

theorem pmm_init_correct_witness:
  "\<exists>st. pmm_init example_HHDM example_map = Some (Inr st) \<and> pmm_ok True st example_free example_used"
  using pmm_init_correct [OF example_map_ok(1,2,4) example_base example_map_ok(5) [symmetric]
      example_map_ok(6) [symmetric]] example_map_ok(3)
  by (auto simp only: example_free_def example_used_def)

theorem pmm_alloc_correct_witness:
  "\<exists>st st' s. pmm_init example_HHDM example_map = Some (Inr st) \<and>
     pmm_alloc st 3 = Inr (st', of_nat (4096 * s)) \<and> 8 dvd s \<and> pages s 3 \<subseteq> {17..<32}"
proof -
  obtain st where st: "pmm_init example_HHDM example_map = Some (Inr st)" "pmm_ok True st example_free example_used"
    using example_pmm by blast
  have three: "unat (3 :: u8) = 3" by simp
  have ord: "unat (3 :: u8) \<le> PMM_MAX_ORDER" by (simp add: PMM_MAX_ORDER_def)
  have sub: "2 ^ 3 dvd (24 :: nat)" "pages 24 3 \<subseteq> example_free" by (auto simp: pages_def example_free_def)
  with pmm_alloc_correct [OF st(2) ord] obtain st' s where s: "pmm_alloc st 3 = Inr (st', of_nat (4096 * s))"
    "2 ^ 3 dvd s" "pages s 3 \<subseteq> example_free" unfolding three by blast
  have "s \<in> pages s 3" "s + 7 \<in> pages s 3" by (simp_all add: pages_def)
  with s(3) have "s \<in> example_free" "s + 7 \<in> example_free" by blast+
  then have "pages s 3 \<subseteq> {17..<32}" by (auto simp: pages_def example_free_def)
  then show ?thesis using st(1) s(1,2) by auto
qed

theorem pmm_free_correct_witness:
  "\<exists>st st'. pmm_init example_HHDM example_map = Some (Inr st) \<and>
     pmm_free example_HHDM st 0x10000 = Inr st' \<and>
     pmm_ok True st' (example_free \<union> pages 16 0) (example_used - {(16, 0)})"
proof -
  obtain st where st: "pmm_init example_HHDM example_map = Some (Inr st)" "pmm_ok True st example_free example_used"
    using example_pmm by blast
  have "(16, 0) \<in> example_used" by (simp add: example_used_def example_free_def)
  moreover have "of_nat (4096 * 16) < example_HHDM" by (simp add: example_HHDM_def)
  ultimately obtain st' where "pmm_free example_HHDM st (of_nat (4096 * 16)) = Inr st'"
    "pmm_ok True st' (example_free \<union> pages 16 0) (example_used - {(16, 0)})"
    using pmm_free_correct [OF st(2)] by blast
  moreover have "of_nat (4096 * 16) = (0x10000 :: u64)" by simp
  ultimately show ?thesis using st(1) by auto
qed

end
