(* ===== verification/Frames.thy ===== *)
theory Frames
  imports Pmm_Init
begin

text \<open>
  The contract under which the rest of the kernel takes page frames from the physical allocator,
  as a locale, and its interpretation on \<open>pmm_alloc\<close> of order 0.  A frame is its physical address.
\<close>

definition page_addr_ok :: "uptr \<Rightarrow> bool" where
  "page_addr_ok f \<longleftrightarrow> f AND 0x000FFFFFFFFFF000 = f"

text \<open>A frame also lies below \<open>2\<^sup>4\<^sup>7\<close>, so that the direct map of the kernel half can hold it.\<close>

definition frame_ok :: "uptr \<Rightarrow> bool" where
  "frame_ok f \<longleftrightarrow> page_addr_ok f \<and> unat f < 2 ^ 47"

text \<open>In the state \<open>s\<close> the frames \<open>U\<close> are in use and \<open>n\<close> frames are free.\<close>

locale frame_allocator =
  fixes frames :: "'s \<Rightarrow> uptr set \<Rightarrow> nat \<Rightarrow> bool"
    and alloc :: "'s \<Rightarrow> ('s \<times> uptr) res"
  assumes alloc_frame: "frames s U n \<Longrightarrow> 0 < n \<Longrightarrow>
      \<exists>s' f. alloc s = Inr (s', f) \<and> frames s' (insert f U) (n - 1) \<and> f \<notin> U \<and> frame_ok f \<and> f \<noteq> 0"
    and alloc_none: "frames s U 0 \<Longrightarrow> alloc s = Inl Panic"

section \<open>The physical allocator provides frames\<close>

definition pmm_alloc_frame :: "pmm_t \<Rightarrow> (pmm_t \<times> uptr) res" where
  "pmm_alloc_frame st = pmm_alloc st 0"

text \<open>
  The addresses have to fit the page-table entries, and the page at address 0, which the boot
  loader never reports as usable, is not free.
\<close>

definition pmm_frames :: "pmm_t \<Rightarrow> uptr set \<Rightarrow> nat \<Rightarrow> bool" where
  "pmm_frames st U n \<longleftrightarrow>
     (\<exists>m F B. pmm_ok m st F B \<and> unat (pm_count st) \<le> 2 ^ 35 \<and> 0 \<notin> F \<and> card F = n \<and>
        U = {of_nat (4096 * p) | p. \<exists>(s, k) \<in> B. p \<in> pages s k})"

lemma pmm_framesI:
  assumes "pmm_ok m st F B" "unat (pm_count st) \<le> 2 ^ 35" "0 \<notin> F" "card F = n"
    "U = {of_nat (4096 * p) | p. \<exists>(s, k) \<in> B. p \<in> pages s k}"
  shows "pmm_frames st U n"
  unfolding pmm_frames_def using assms by (intro exI [of _ m] exI [of _ F] exI [of _ B]) simp

lemma page_addr_ok_page:
  assumes "p < 2 ^ 40"
  shows "page_addr_ok (of_nat (4096 * p))"
proof -
  let ?f = "of_nat (4096 * p) :: u64"
  have f: "?f = push_bit 12 (of_nat p)" by (simp add: push_bit_eq_mult)
  have hi: "\<not> bit (of_nat p :: u64) i" if "40 \<le> i" for i
  proof -
    have "take_bit 40 p = p" using assms by (intro take_bit_nat_eq_self) simp
    then have "\<not> bit p i" using that by (metis bit_take_bit_iff not_le)
    then show ?thesis by (simp add: bit_of_nat_iff)
  qed
  have mask: "bit (0x000FFFFFFFFFF000 :: u64) i \<longleftrightarrow> 12 \<le> i \<and> i < 52" for i
  proof -
    have m: "(0x000FFFFFFFFFF000 :: u64) = push_bit 12 (mask 40)" by (simp add: mask_eq_decr_exp push_bit_eq_mult)
    show ?thesis unfolding m by (auto simp: bit_push_bit_iff bit_mask_iff simp del: push_bit_of_1)
  qed
  have "bit ?f i \<Longrightarrow> 12 \<le> i \<and> i < 52" for i
    unfolding f bit_push_bit_iff using hi [of "i - 12"] by (cases "i < 52") auto
  then show ?thesis
    unfolding page_addr_ok_def by (intro bit_eqI) (auto simp only: bit_and_iff mask)
qed

lemma frame_ok_page:
  assumes "p < 2 ^ 35"
  shows "frame_ok (of_nat (4096 * p))"
proof -
  have "page_addr_ok (of_nat (4096 * p))" using assms by (intro page_addr_ok_page) simp
  moreover have "unat (of_nat (4096 * p) :: u64) = 4096 * p" using assms by (intro unat_of_nat_small) simp
  ultimately show ?thesis using assms by (simp add: frame_ok_def)
qed

lemma pmm_ok_blocks:
  assumes "pmm_ok m st F U"
  shows "\<And>s k p. (s, k) \<in> U \<Longrightarrow> p \<in> pages s k \<Longrightarrow> p \<notin> F" "\<And>p. p \<in> F \<Longrightarrow> p < unat (pm_count st)"
    "\<And>s k p. (s, k) \<in> U \<Longrightarrow> p \<in> pages s k \<Longrightarrow> p < unat (pm_count st)"
proof -
  obtain T L where T: "pmm_inv st T L {}" "F = free_pages L" "U = used st T {}"
    using assms by (auto simp: pmm_ok_def)
  have til: "tiling (unat (pm_count st)) T"
    and set: "\<And>k. k \<le> PMM_MAX_ORDER \<Longrightarrow> set (L k) = {s. T s = Some k \<and> pb_free (pm_blocks st s)}"
    using T(1) by (auto simp: pmm_inv_def)
  have F: "\<exists>t j. T t = Some j \<and> pb_free (pm_blocks st t) \<and> p \<in> pages t j" if "p \<in> F" for p
    using that set unfolding T(2) free_pages_iff by blast
  show "p \<notin> F" if "(s, k) \<in> U" "p \<in> pages s k" for s k p
    using F [of p] that tiling_overlap [OF til] unfolding T(3) used_def by blast
  show "p < unat (pm_count st)" if "p \<in> F" for p
    using F [OF that] tiling_bounds(3) [OF til] by (fastforce simp: pages_def)
  show "p < unat (pm_count st)" if "(s, k) \<in> U" "p \<in> pages s k" for s k p
    using that tiling_bounds(3) [OF til] by (fastforce simp: pages_def T(3) used_def)
qed

lemma pages_0: "pages s 0 = {s}"
  by (auto simp: pages_def)

lemma pmm_frames_alloc:
  assumes ok: "pmm_ok m st F B" and F: "F \<noteq> {}"
  shows "\<exists>st' s. pmm_alloc_frame st = Inr (st', of_nat (4096 * s)) \<and> s \<in> F \<and>
    pmm_ok m st' (F - {s}) (insert (s, 0) B) \<and> pm_count st' = pm_count st"
proof -
  from ok obtain T L where T: "pmm_inv st T L {}" "F = free_pages L" "B = used st T {}" "m \<longrightarrow> merged L"
    by (auto simp: pmm_ok_def)
  have "\<not> (\<forall>k. unat (0 :: u8) \<le> k \<and> k \<le> PMM_MAX_ORDER \<longrightarrow> L k = [])"
    using F T(2) by (auto simp: free_pages_def)
  from pmm_alloc_some [OF ok T _ this] show ?thesis by (auto simp: pmm_alloc_frame_def pages_0)
qed

lemma pmm_frames_none:
  assumes ok: "pmm_ok m st {} B"
  shows "pmm_alloc_frame st = Inl Panic"
proof -
  from ok obtain T L where T: "pmm_inv st T L {}" "free_pages L = {}" "sl_lock (pm_slock st) = 0"
    by (auto simp: pmm_ok_def)
  have "L k = []" if "k \<le> PMM_MAX_ORDER" for k
  proof (rule ccontr)
    assume "L k \<noteq> []"
    then have "hd (L k) \<in> set (L k)" "hd (L k) \<in> pages (hd (L k)) k" by (simp_all add: pages_def)
    then have "hd (L k) \<in> free_pages L" using that free_pages_iff by blast
    then show False using T(2) by simp
  qed
  then show ?thesis using pmm_alloc_none [OF T(3,1)] by (simp add: pmm_alloc_frame_def)
qed

interpretation pmm: frame_allocator pmm_frames pmm_alloc_frame
proof
  fix st U and n :: nat
  assume fr: "pmm_frames st U n" and n: "0 < n"
  obtain m F B where ok: "pmm_ok m st F B" and c: "unat (pm_count st) \<le> 2 ^ 35" "0 \<notin> F" "card F = n"
    and U: "U = {of_nat (4096 * p) | p. \<exists>(s, k) \<in> B. p \<in> pages s k}"
    using fr by (auto simp: pmm_frames_def)
  have "F \<noteq> {}" using c(3) n by auto
  from pmm_frames_alloc [OF ok this] obtain st' s where s: "pmm_alloc_frame st = Inr (st', of_nat (4096 * s))" "s \<in> F"
    "pmm_ok m st' (F - {s}) (insert (s, 0) B)" "pm_count st' = pm_count st" by blast
  note bl = pmm_ok_blocks [OF ok]
  have small: "unat (of_nat (4096 * p) :: u64) = 4096 * p" if "p < 2 ^ 35" for p
    using that by (intro unat_of_nat_small) simp
  have sN: "s < 2 ^ 35" using bl(2) [OF s(2)] c(1) by simp
  have "of_nat (4096 * s) \<notin> U"
  proof
    assume "of_nat (4096 * s) \<in> U"
    then obtain p t k where p: "(of_nat (4096 * s) :: u64) = of_nat (4096 * p)" "(t, k) \<in> B" "p \<in> pages t k" using U by auto
    have "p < 2 ^ 35" using bl(3) [OF p(2,3)] c(1) by simp
    then have "p = s" using small sN p(1) by (metis mult_cancel1 zero_neq_numeral)
    then show False using bl(1) [OF p(2,3)] s(2) by simp
  qed
  moreover have "(of_nat (4096 * s) :: u64) \<noteq> 0"
    using small [OF sN] s(2) c(2) by (metis mult_eq_0_iff unat_0 zero_neq_numeral)
  moreover have "pmm_frames st' (insert (of_nat (4096 * s)) U) (n - 1)"
  proof -
    have "insert (of_nat (4096 * s)) U = {of_nat (4096 * p) | p. \<exists>(t, k) \<in> insert (s, 0) B. p \<in> pages t k}"
      unfolding U by (auto simp: pages_0)
    moreover have "card (F - {s}) = n - 1" using s(2) c(3) n by (simp add: card_Diff_singleton)
    ultimately show ?thesis
      using s(3,4) c by (intro pmm_framesI [of m st' "F - {s}" "insert (s, 0) B"]) simp_all
  qed
  ultimately show "\<exists>s' f. pmm_alloc_frame st = Inr (s', f) \<and> pmm_frames s' (insert f U) (n - 1) \<and>
      f \<notin> U \<and> frame_ok f \<and> f \<noteq> 0"
    using s(1) frame_ok_page [OF sN] by blast
next
  fix st U
  assume "pmm_frames st U 0"
  then obtain m F B where ok: "pmm_ok m st F B" and F: "card F = 0" by (auto simp: pmm_frames_def)
  have "finite F" using pmm_ok_blocks(2) [OF ok] by (meson finite_lessThan finite_subset lessThan_iff subsetI)
  then show "pmm_alloc_frame st = Inl Panic" using F ok pmm_frames_none by simp
qed

section \<open>An allocator with free frames\<close>

text \<open>Four MiB of memory from 1 MiB on: 1014 frames remain besides the block array.\<close>

definition memory_map :: "memmap_entry list" where
  "memory_map = [\<lparr>me_base = 0x100000, me_length = 0x400000, me_usable = True\<rparr>]"

lemma memory_map_frames:
  "\<exists>st U. pmm_init example_HHDM memory_map = Some (Inr st) \<and> pmm_frames st U 1014"
proof -
  let ?e = "\<lparr>me_base = 0x100000, me_length = 0x400000, me_usable = True\<rparr>"
  have m: "memmap_ok memory_map" "usable memory_map \<noteq> []"
    "find_blocks_entry memory_map (me_end (last (usable memory_map)) div ARCH_PAGE_GRAN) = Some ?e"
    "end_page (last (usable memory_map)) = 1280"
    "(\<Union>e \<in> set (usable memory_map). entry_pages ?e 1280 e) = {266..<1280}"
    by (simp_all add: memory_map_def memmap_ok_def usable_def entry_ok_def end_page_def
      first_page_def find_blocks_entry_def me_end_def ARCH_PAGE_GRAN_def ARCH_PAGE_SIZE_4K_def
      SIZEOF_PMM_BLOCK_def entry_pages_def array_pages_def)
  have "me_base ?e + example_HHDM \<noteq> 0" by (simp add: example_HHDM_def)
  from pmm_init_ok [OF m(1,2,3) this, unfolded m(4,5)] obtain st B where
    st: "pmm_init example_HHDM memory_map = Some (Inr st)" "pmm_ok (separated memory_map) st {266..<1280} B"
    and c: "unat (pm_count st) = 1280" by blast
  from c have "pmm_frames st {of_nat (4096 * p) | p. \<exists>(s, k) \<in> B. p \<in> pages s k} 1014"
    by (intro pmm_framesI [OF st(2)]) simp_all
  then show ?thesis using st(1) by blast
qed

end
