(* ===== verification/Ptm.thy ===== *)
theory Ptm
  imports Prelude
begin

text \<open>
  The page-table managers \<^verbatim>\<open>kernel/src/arch/x86_64/ptm.c\<close> and \<^verbatim>\<open>kernel/src/arch/aarch64/ptm.c\<close>.

  The tables live in physical frames that the code reaches through the higher-half direct map, so
  memory is a function from the virtual address of a table to its 512 entries.  The state holds
  this memory, the state of the frame allocator and the global of each file.  The allocator and
  the offset \<open>HHDM\<close> are arguments; the two files share the walk and differ in the flags they
  write, so the flags are an argument of the shared definitions.  A table pointer is its address
  and \<open>NULL\<close> is 0.
\<close>

section \<open>Entries\<close>

type_synonym pte_t = u64

definition PRESENT :: u64 where "PRESENT = 1"
definition WRITE :: u64 where "WRITE = 2"
definition USER :: u64 where "USER = 4"
definition HUGE :: u64 where "HUGE = 128"
definition GLOBAL :: u64 where "GLOBAL = 256"

definition TABLE_aarch64 :: u64 where "TABLE_aarch64 = 2"
definition PAGE_4K_aarch64 :: u64 where "PAGE_4K_aarch64 = 2"
definition ACCESS_aarch64 :: u64 where "ACCESS_aarch64 = 1024"

definition PTE_GET_ADDR :: "pte_t \<Rightarrow> u64" where
  "PTE_GET_ADDR v = v AND 0x000FFFFFFFFFF000"

definition pte_present :: "pte_t \<Rightarrow> bool" where
  "pte_present v \<longleftrightarrow> v AND PRESENT \<noteq> 0"

definition table_entries :: "uptr \<Rightarrow> u64 list" where
  "table_entries virt =
     [drop_bit 12 virt AND 0x1FF, drop_bit 21 virt AND 0x1FF,
      drop_bit 30 virt AND 0x1FF, drop_bit 39 virt AND 0x1FF]"

section \<open>State\<close>

record 's ptm =
  pt_al :: 's
  pt_mem :: "uptr \<Rightarrow> u64 \<Rightarrow> pte_t"
  higher_half_entries :: "pte_t list"
  higher_half_pml4 :: uptr

type_synonym 's frame_alloc = "'s \<Rightarrow> ('s \<times> uptr) res"
type_synonym 's frame_free = "'s \<Rightarrow> uptr \<Rightarrow> 's res"

definition pt_read :: "'s ptm \<Rightarrow> uptr \<Rightarrow> u64 \<Rightarrow> pte_t res" where
  "pt_read st table idx = (if table = 0 then Inl NullDeref else Inr (pt_mem st table idx))"

definition pt_write :: "uptr \<Rightarrow> u64 \<Rightarrow> pte_t \<Rightarrow> 's ptm \<Rightarrow> 's ptm" where
  "pt_write table idx v st = st\<lparr>pt_mem := (pt_mem st)(table := (pt_mem st table)(idx := v))\<rparr>"

definition pt_zero :: "uptr \<Rightarrow> 's ptm \<Rightarrow> 's ptm" where
  "pt_zero table st = st\<lparr>pt_mem := (pt_mem st)(table := \<lambda>_. 0)\<rparr>"

definition pt_alloc :: "'s frame_alloc \<Rightarrow> 's ptm \<Rightarrow> ('s ptm \<times> uptr) res" where
  "pt_alloc al st = rbind (al (pt_al st)) (\<lambda>(a, phys). Inr (st\<lparr>pt_al := a\<rparr>, phys))"

section \<open>Walking the tables\<close>

definition get_next_level ::
  "u64 \<Rightarrow> 's frame_alloc \<Rightarrow> uptr \<Rightarrow> 's ptm \<Rightarrow> uptr \<Rightarrow> u64 \<Rightarrow> bool \<Rightarrow> ('s ptm \<times> uptr) res" where
  "get_next_level flags al HHDM st top_level idx alloc =
     rbind (pt_read st top_level idx) (\<lambda>entry.
     if pte_present entry then Inr (st, PTE_GET_ADDR entry + HHDM)
     else if \<not> alloc then Inr (st, 0)
     else rbind (pt_alloc al st) (\<lambda>(st1, phys).
       let next_level = phys + HHDM;
           st2 = pt_zero next_level st1
       in Inr (pt_write top_level idx ((next_level - HHDM) OR flags) st2, next_level)))"

fun walk_alloc ::
  "u64 \<Rightarrow> 's frame_alloc \<Rightarrow> uptr \<Rightarrow> 's ptm \<Rightarrow> uptr \<Rightarrow> u64 list \<Rightarrow> ('s ptm \<times> uptr) res" where
  "walk_alloc flags al HHDM st table [] = Inr (st, table)"
| "walk_alloc flags al HHDM st table (i # is) =
     rbind (get_next_level flags al HHDM st table i True) (\<lambda>(st1, table1).
     walk_alloc flags al HHDM st1 table1 is)"

fun walk_find :: "'s frame_alloc \<Rightarrow> uptr \<Rightarrow> 's ptm \<Rightarrow> uptr \<Rightarrow> u64 list \<Rightarrow> uptr option res" where
  "walk_find al HHDM st table [] = Inr (Some table)"
| "walk_find al HHDM st table (i # is) =
     rbind (get_next_level 0 al HHDM st table i False) (\<lambda>(_, table1).
     if table1 = 0 then Inr None else walk_find al HHDM st table1 is)"

fun walk_unchecked :: "'s frame_alloc \<Rightarrow> uptr \<Rightarrow> 's ptm \<Rightarrow> uptr \<Rightarrow> u64 list \<Rightarrow> uptr res" where
  "walk_unchecked al HHDM st table [] = Inr table"
| "walk_unchecked al HHDM st table (i # is) =
     rbind (get_next_level 0 al HHDM st table i False) (\<lambda>(_, table1).
     walk_unchecked al HHDM st table1 is)"

definition mod_assert :: "u64 \<Rightarrow> u64 \<Rightarrow> unit res" where
  "mod_assert v sz = (if sz = 0 then Inl Undefined else assert_c (v mod sz = 0))"

definition upper_entries :: "uptr \<Rightarrow> u64 list" where
  "upper_entries virt = [table_entries virt ! 3, table_entries virt ! 2, table_entries virt ! 1]"

definition ptm_map_at ::
  "u64 \<Rightarrow> u64 \<Rightarrow> 's frame_alloc \<Rightarrow> uptr \<Rightarrow> 's ptm \<Rightarrow> uptr \<Rightarrow> uptr \<Rightarrow> uptr \<Rightarrow> u64 \<Rightarrow> 's ptm res" where
  "ptm_map_at tflags pflags al HHDM st root virt phys sz =
     rbind (mod_assert virt sz) (\<lambda>_.
     rbind (mod_assert phys sz) (\<lambda>_.
     rbind (walk_alloc tflags al HHDM st root (upper_entries virt)) (\<lambda>(st1, table).
     Inr (pt_write table (table_entries virt ! 0) (phys OR pflags) st1))))"

definition ptm_unmap_at ::
  "'s frame_alloc \<Rightarrow> uptr \<Rightarrow> 's ptm \<Rightarrow> uptr \<Rightarrow> uptr \<Rightarrow> uptr \<Rightarrow> u64 \<Rightarrow> 's ptm res" where
  "ptm_unmap_at al HHDM st root virt phys sz =
     rbind (mod_assert virt sz) (\<lambda>_.
     rbind (mod_assert phys sz) (\<lambda>_.
     rbind (walk_find al HHDM st root (upper_entries virt)) (\<lambda>table.
     case table of
       None \<Rightarrow> Inr st
     | Some t \<Rightarrow> Inr (pt_write t (table_entries virt ! 0) 0 st))))"

text \<open>
  The recursion of \<^verbatim>\<open>delete_level\<close>, by the number of levels below the table: \<^verbatim>\<open>depth\<close> is a \<^verbatim>\<open>u8\<close>
  that is decremented until it is 1.  The predicate \<open>skip\<close> says which entries lead to no table.
\<close>

definition pt_free :: "'s frame_free \<Rightarrow> 's ptm \<Rightarrow> uptr \<Rightarrow> 's ptm res" where
  "pt_free fr st phys = rbind (fr (pt_al st) phys) (\<lambda>a. Inr (st\<lparr>pt_al := a\<rparr>))"

primrec delete_below ::
  "nat \<Rightarrow> (pte_t \<Rightarrow> bool) \<Rightarrow> 's frame_free \<Rightarrow> uptr \<Rightarrow> 's ptm \<Rightarrow> uptr \<Rightarrow> 's ptm res" where
  "delete_below 0 skip fr HHDM st lvl = pt_free fr st (lvl - HHDM)"
| "delete_below (Suc k) skip fr HHDM st lvl =
     rbind (for_each (\<lambda>s i. rbind (pt_read s lvl i) (\<lambda>entry.
              if skip entry then Inr s
              else delete_below k skip fr HHDM s (PTE_GET_ADDR entry + HHDM)))
            (map of_nat [0..<512]) st) (\<lambda>st1.
     pt_free fr st1 (lvl - HHDM))"

section \<open>x86-64\<close>

definition delete_level :: "'s frame_free \<Rightarrow> uptr \<Rightarrow> 's ptm \<Rightarrow> uptr \<Rightarrow> u8 \<Rightarrow> 's ptm res" where
  "delete_level fr HHDM st lvl depth =
     delete_below (unat (depth - 1)) (\<lambda>e. \<not> pte_present e \<or> e AND HUGE \<noteq> 0) fr HHDM st lvl"

definition table_flags :: u64 where "table_flags = PRESENT OR WRITE OR USER"

definition arch_ptm_map ::
  "'s frame_alloc \<Rightarrow> uptr \<Rightarrow> 's ptm \<Rightarrow> uptr \<Rightarrow> uptr \<Rightarrow> uptr \<Rightarrow> u64 \<Rightarrow> 's ptm res" where
  "arch_ptm_map al HHDM st pml4 virt phys sz =
     ptm_map_at table_flags (PRESENT OR WRITE OR USER) al HHDM st pml4 virt phys sz"

definition arch_ptm_unmap ::
  "'s frame_alloc \<Rightarrow> uptr \<Rightarrow> 's ptm \<Rightarrow> uptr \<Rightarrow> uptr \<Rightarrow> uptr \<Rightarrow> u64 \<Rightarrow> 's ptm res" where
  "arch_ptm_unmap al HHDM st pml4 virt phys sz = ptm_unmap_at al HHDM st pml4 virt phys sz"

definition arch_ptm_load_map :: "uptr \<Rightarrow> uptr \<Rightarrow> uptr" where
  "arch_ptm_load_map HHDM pml4 = pml4 - HHDM"

definition arch_ptm_new_map :: "'s frame_alloc \<Rightarrow> uptr \<Rightarrow> 's ptm \<Rightarrow> ('s ptm \<times> uptr) res" where
  "arch_ptm_new_map al HHDM st =
     rbind (pt_alloc al st) (\<lambda>(st1, phys).
     let pml4 = phys + HHDM;
         st2 = pt_zero pml4 st1
     in Inr (foldl (\<lambda>s i. pt_write pml4 (of_nat (i + 256)) (higher_half_entries s ! i) s) st2 [0..<256], pml4))"

definition arch_ptm_virt_to_phys :: "'s frame_alloc \<Rightarrow> uptr \<Rightarrow> 's ptm \<Rightarrow> uptr \<Rightarrow> uptr \<Rightarrow> uptr res" where
  "arch_ptm_virt_to_phys al HHDM st pml4 virt =
     rbind (walk_find al HHDM st pml4 (upper_entries virt)) (\<lambda>table.
     case table of
       None \<Rightarrow> Inr BAD_ADDRESS
     | Some t \<Rightarrow> rbind (pt_read st t (table_entries virt ! 0)) (\<lambda>pte.
         if \<not> pte_present pte then Inr BAD_ADDRESS
         else Inr (PTE_GET_ADDR pte + (virt AND 0xFFF))))"

definition arch_ptm_clear_map :: "'s frame_free \<Rightarrow> uptr \<Rightarrow> 's ptm \<Rightarrow> uptr \<Rightarrow> 's ptm res" where
  "arch_ptm_clear_map fr HHDM st pml4 = delete_level fr HHDM st pml4 4"

fun ptm_init_entries :: "'s frame_alloc \<Rightarrow> uptr \<Rightarrow> 's ptm \<Rightarrow> nat list \<Rightarrow> 's ptm res" where
  "ptm_init_entries al HHDM st [] = Inr st"
| "ptm_init_entries al HHDM st (i # is) =
     rbind (pt_alloc al st) (\<lambda>(st1, phys).
     if phys = 0 then Inl Panic
     else
       let st2 = pt_zero (phys + HHDM) st1;
           entry = phys OR PRESENT OR WRITE OR GLOBAL
       in ptm_init_entries al HHDM
            (st2\<lparr>higher_half_entries := (higher_half_entries st2)[i := entry]\<rparr>) is)"

definition arch_ptm_init :: "'s frame_alloc \<Rightarrow> uptr \<Rightarrow> 's ptm \<Rightarrow> 's ptm res" where
  "arch_ptm_init al HHDM st = ptm_init_entries al HHDM st [0..<256]"

section \<open>AArch64\<close>

text \<open>A map holds two roots, \<open>pml4[0]\<close> and \<open>pml4[1]\<close>; bit 63 of the address selects one.\<close>

type_synonym arch_ptm_map_t_aarch64 = "uptr \<times> uptr"

definition root_of :: "arch_ptm_map_t_aarch64 \<Rightarrow> uptr \<Rightarrow> uptr" where
  "root_of mp virt = (if virt AND push_bit 63 1 \<noteq> 0 then snd mp else fst mp)"

definition arch_ptm_map_aarch64 ::
  "'s frame_alloc \<Rightarrow> uptr \<Rightarrow> 's ptm \<Rightarrow> arch_ptm_map_t_aarch64 \<Rightarrow> uptr \<Rightarrow> uptr \<Rightarrow> u64 \<Rightarrow> 's ptm res" where
  "arch_ptm_map_aarch64 al HHDM st mp virt phys sz =
     ptm_map_at (PRESENT OR TABLE_aarch64) (PRESENT OR PAGE_4K_aarch64 OR ACCESS_aarch64) al HHDM st
       (root_of mp virt) virt phys sz"

definition arch_ptm_unmap_aarch64 ::
  "'s frame_alloc \<Rightarrow> uptr \<Rightarrow> 's ptm \<Rightarrow> arch_ptm_map_t_aarch64 \<Rightarrow> uptr \<Rightarrow> uptr \<Rightarrow> u64 \<Rightarrow> 's ptm res" where
  "arch_ptm_unmap_aarch64 al HHDM st mp virt phys sz =
     ptm_unmap_at al HHDM st (root_of mp virt) virt phys sz"

definition arch_ptm_load_map_aarch64 :: "uptr \<Rightarrow> arch_ptm_map_t_aarch64 \<Rightarrow> uptr \<times> uptr" where
  "arch_ptm_load_map_aarch64 HHDM mp = (fst mp - HHDM, snd mp - HHDM)"

definition arch_ptm_new_map_aarch64 ::
  "'s frame_alloc \<Rightarrow> uptr \<Rightarrow> 's ptm \<Rightarrow> ('s ptm \<times> arch_ptm_map_t_aarch64) res" where
  "arch_ptm_new_map_aarch64 al HHDM st =
     rbind (pt_alloc al st) (\<lambda>(st1, phys).
     Inr (pt_zero (phys + HHDM) st1, (phys + HHDM, higher_half_pml4 st1)))"

definition delete_level_aarch64 :: "'s frame_free \<Rightarrow> uptr \<Rightarrow> 's ptm \<Rightarrow> uptr \<Rightarrow> u8 \<Rightarrow> 's ptm res" where
  "delete_level_aarch64 fr HHDM st lvl depth =
     delete_below (unat (depth - 1)) (\<lambda>e. \<not> pte_present e \<or> drop_bit 1 e AND 1 = 0) fr HHDM st lvl"

definition arch_ptm_clear_map_aarch64 ::
  "'s frame_free \<Rightarrow> uptr \<Rightarrow> 's ptm \<Rightarrow> arch_ptm_map_t_aarch64 \<Rightarrow> 's ptm res" where
  "arch_ptm_clear_map_aarch64 fr HHDM st mp = delete_level_aarch64 fr HHDM st (fst mp) 4"

definition arch_ptm_virt_to_phys_aarch64 ::
  "'s frame_alloc \<Rightarrow> uptr \<Rightarrow> 's ptm \<Rightarrow> arch_ptm_map_t_aarch64 \<Rightarrow> uptr \<Rightarrow> uptr res" where
  "arch_ptm_virt_to_phys_aarch64 al HHDM st mp virt =
     rbind (walk_unchecked al HHDM st (root_of mp virt) (upper_entries virt)) (\<lambda>table.
     rbind (pt_read st table (table_entries virt ! 0)) (\<lambda>pte.
     Inr (PTE_GET_ADDR pte + (virt AND 0xFFF))))"

definition arch_ptm_init_aarch64 :: "'s frame_alloc \<Rightarrow> uptr \<Rightarrow> 's ptm \<Rightarrow> 's ptm res" where
  "arch_ptm_init_aarch64 al HHDM st =
     rbind (pt_alloc al st) (\<lambda>(st1, phys).
     Inr (pt_zero (phys + HHDM) (st1\<lparr>higher_half_pml4 := phys + HHDM\<rparr>)))"

end
