(* ===== verification/Ptm_Correct.thy ===== *)
theory Ptm_Correct
  imports Ptm Frames
begin

text \<open>
  The trees of page tables.  Every table has an identity: the root it belongs to (none for the
  tables of the kernel half that all maps share on x86-64) and the path of indices that leads to
  it.  The invariant says that the present entries of a table lead to the tables of the extended
  paths and to no others, so that a write changes one translation only.
\<close>

section \<open>Identities of tables\<close>

type_synonym ident = "uptr option \<times> u64 list"

definition child :: "(u64 \<Rightarrow> bool) \<Rightarrow> ident \<Rightarrow> u64 \<Rightarrow> ident" where
  "child sh d i = (if snd d = [] \<and> sh i then (None, [i]) else (fst d, snd d @ [i]))"

definition hhdm_ok :: "uptr \<Rightarrow> bool" where
  "hhdm_ok HHDM \<longleftrightarrow> HHDM \<noteq> 0 \<and> unat HHDM + 2 ^ 47 \<le> 2 ^ 64"

definition next_table :: "uptr \<Rightarrow> pte_t \<Rightarrow> uptr" where
  "next_table HHDM e = PTE_GET_ADDR e + HHDM"

definition he_entry :: "'s ptm \<Rightarrow> u64 \<Rightarrow> pte_t" where
  "he_entry st i = higher_half_entries st ! (unat i - 256)"

definition typed :: "uptr \<Rightarrow> uptr set \<Rightarrow> (uptr \<rightharpoonup> ident) \<Rightarrow> bool" where
  "typed HHDM U ty \<longleftrightarrow>
     (\<forall>t d. ty t = Some d \<longrightarrow> t - HHDM \<in> U \<and> frame_ok (t - HHDM) \<and> length (snd d) \<le> 3 \<and> d \<noteq> (None, [])) \<and>
     (\<forall>t t' d. ty t = Some d \<longrightarrow> ty t' = Some d \<longrightarrow> t = t') \<and>
     (\<forall>t r. ty t = Some (Some r, []) \<longrightarrow> t = r) \<and>
     (\<forall>c b p i. ty c = Some (b, p @ [i]) \<longrightarrow> b \<noteq> None \<or> p \<noteq> [] \<longrightarrow> (\<exists>t. ty t = Some (b, p)))"

definition linked :: "(u64 \<Rightarrow> bool) \<Rightarrow> uptr \<Rightarrow> (uptr \<rightharpoonup> ident) \<Rightarrow> (uptr \<Rightarrow> u64 \<Rightarrow> pte_t) \<Rightarrow> bool" where
  "linked sh HHDM ty m \<longleftrightarrow>
     (\<forall>t d i c. ty t = Some d \<longrightarrow> length (snd d) < 3 \<longrightarrow> i < 512 \<longrightarrow>
        (ty c = Some (child sh d i) \<longleftrightarrow> pte_present (m t i) \<and> c = next_table HHDM (m t i)))"

definition shared :: "(u64 \<Rightarrow> bool) \<Rightarrow> uptr \<Rightarrow> (uptr \<rightharpoonup> ident) \<Rightarrow> 's ptm \<Rightarrow> bool" where
  "shared sh HHDM ty st \<longleftrightarrow>
     (\<forall>i < 512. sh i \<longrightarrow> pte_present (he_entry st i) \<and> ty (next_table HHDM (he_entry st i)) = Some (None, [i]))"

definition pt_inv where
  "pt_inv sh frames HHDM U n ty st \<longleftrightarrow>
     hhdm_ok HHDM \<and> frames (pt_al st) U n \<and> typed HHDM U ty \<and> linked sh HHDM ty (pt_mem st) \<and> shared sh HHDM ty st"

lemma pt_invD:
  assumes "pt_inv sh frames HHDM U n ty st"
  shows "hhdm_ok HHDM" "frames (pt_al st) U n" "typed HHDM U ty" "linked sh HHDM ty (pt_mem st)" "shared sh HHDM ty st"
  using assms by (simp_all add: pt_inv_def)

lemma typedD:
  assumes "typed HHDM U ty" "ty t = Some d"
  shows "t - HHDM \<in> U" "frame_ok (t - HHDM)" "length (snd d) \<le> 3" "d \<noteq> (None, [])"
  using assms unfolding typed_def by blast+

lemma typed_inj: "typed HHDM U ty \<Longrightarrow> ty t = Some d \<Longrightarrow> ty t' = Some d \<Longrightarrow> t = t'"
  unfolding typed_def by blast

lemma typed_root: "typed HHDM U ty \<Longrightarrow> ty t = Some (Some r, []) \<Longrightarrow> t = r"
  unfolding typed_def by blast

lemma typed_parent:
  "typed HHDM U ty \<Longrightarrow> ty c = Some (b, p @ [i]) \<Longrightarrow> b \<noteq> None \<or> p \<noteq> [] \<Longrightarrow> \<exists>t. ty t = Some (b, p)"
  unfolding typed_def by blast

lemma linkedD:
  assumes "linked sh HHDM ty m" "ty t = Some d" "length (snd d) < 3" "i < 512"
  shows "ty c = Some (child sh d i) \<longleftrightarrow> pte_present (m t i) \<and> c = next_table HHDM (m t i)"
  using assms unfolding linked_def by blast

lemma sharedD:
  assumes "shared sh HHDM ty st" "i < 512" "sh i"
  shows "pte_present (he_entry st i)" "ty (next_table HHDM (he_entry st i)) = Some (None, [i])"
  using assms unfolding shared_def by blast+

lemma typed_nonzero:
  assumes "hhdm_ok HHDM" "typed HHDM U ty" "ty t = Some d"
  shows "t \<noteq> 0"
proof
  assume "t = 0"
  then have f: "unat (- HHDM) < 2 ^ 47" using typedD(2) [OF assms(2,3)] by (simp add: frame_ok_def)
  then have "unat (- HHDM + HHDM) = unat (- HHDM) + unat HHDM"
    using assms(1) by (intro unat_add_nowrap) (simp add: hhdm_ok_def)
  then show False using assms(1) by (simp add: hhdm_ok_def unat_eq_zero)
qed

section \<open>Translations\<close>

primrec leaf :: "(uptr \<Rightarrow> u64 \<Rightarrow> pte_t) \<Rightarrow> uptr \<Rightarrow> uptr \<Rightarrow> u64 list \<Rightarrow> pte_t option" where
  "leaf m HHDM t [] = None"
| "leaf m HHDM t (i # is) =
     (if \<not> pte_present (m t i) then None
      else if is = [] then Some (m t i)
      else leaf m HHDM (next_table HHDM (m t i)) is)"

definition page_path :: "uptr \<Rightarrow> u64 list" where
  "page_path virt = upper_entries virt @ [table_entries virt ! 0]"

lemma index_less: "x AND 0x1FF < (512 :: u64)"
proof -
  have "x AND 0x1FF \<le> (0x1FF :: u64)" by (rule word_and_le1)
  also have "\<dots> < 512" by simp
  finally show ?thesis .
qed

lemma page_path_less: "\<forall>i \<in> set (page_path virt). i < 512"
  by (auto simp: page_path_def upper_entries_def table_entries_def index_less)

lemma page_path_parts:
  "length (upper_entries virt) = 3" "length (page_path virt) = 4" "page_path virt \<noteq> []"
  "\<forall>i \<in> set (upper_entries virt). i < 512" "table_entries virt ! 0 < 512"
  "hd (page_path virt) = table_entries virt ! 3"
  using page_path_less [of virt] by (auto simp: page_path_def upper_entries_def)

lemma child_nonempty [simp]: "snd (child sh d i) \<noteq> []"
  by (simp add: child_def)

lemma child_below: "snd d \<noteq> [] \<Longrightarrow> child sh d i = (fst d, snd d @ [i])"
  by (simp add: child_def)

lemma foldl_child: "snd x \<noteq> [] \<Longrightarrow> foldl (child sh) x ys = (fst x, snd x @ ys)"
  by (induction ys arbitrary: x) (auto simp: child_def)

lemma typed_prefix:
  assumes "typed HHDM U ty"
  shows "ty c = Some (b, p @ q) \<Longrightarrow> p \<noteq> [] \<Longrightarrow> \<exists>c'. ty c' = Some (b, p)"
proof (induction q arbitrary: c rule: rev_induct)
  case (snoc x q)
  then obtain c' where "ty c' = Some (b, p @ q)"
    using typed_parent [OF assms, of c b "p @ q" x] by auto
  with snoc show ?case by blast
qed auto

lemma leaf_changed:
  assumes "\<And>i. i \<in> set is \<Longrightarrow> i < 512" "length (snd d) + length is = 4" "ty t = Some d" "is \<noteq> []"
    "typed HHDM U ty" "linked sh HHDM ty m"
    "\<And>t d i. ty t = Some d \<Longrightarrow> i < 512 \<Longrightarrow> m' t i = m t i \<or>
       (length (snd d) < 3 \<and> \<not> pte_present (m t i) \<and> (\<forall>j. \<not> pte_present (m' (next_table HHDM (m' t i)) j)))"
  shows "leaf m' HHDM t is = leaf m HHDM t is"
  using assms(1-4)
proof (induction "is" arbitrary: t d)
  case (Cons i "is")
  have ch: "m' t i = m t i \<or> (length (snd d) < 3 \<and> \<not> pte_present (m t i) \<and>
      (\<forall>j. \<not> pte_present (m' (next_table HHDM (m' t i)) j)))"
    by (rule assms(7)) (use Cons.prems in auto)
  show ?case
  proof (cases "m' t i = m t i")
    case True
    show ?thesis
    proof (cases "is = [] \<or> \<not> pte_present (m t i)")
      case False
      then have "ty (next_table HHDM (m t i)) = Some (child sh d i)"
        using linkedD [OF assms(6) Cons.prems(3), of i] Cons.prems by (cases "is") auto
      then have "leaf m' HHDM (next_table HHDM (m t i)) is = leaf m HHDM (next_table HHDM (m t i)) is"
        using Cons False by (intro Cons.IH [of "child sh d i"]) (auto simp: child_def)
      then show ?thesis using True False by simp
    qed (use True in auto)
  next
    case False
    then have "is \<noteq> []" "\<not> pte_present (m t i)" "\<And>j. \<not> pte_present (m' (next_table HHDM (m' t i)) j)"
      using ch Cons.prems by auto
    then show ?thesis by (cases "is") auto
  qed
qed simp

lemma leaf_written:
  assumes "\<And>i. i \<in> set is \<Longrightarrow> i < 512" "length (snd d) + length is = 4" "ty t = Some d" "is \<noteq> []"
    "typed HHDM U ty" "linked sh HHDM ty m" "ty t0 = Some d0" "length (snd d0) = 3"
  shows "leaf (m(t0 := (m t0)(j := e))) HHDM t is =
    (if foldl (child sh) d is = child sh d0 j then if pte_present e then Some e else None else leaf m HHDM t is)"
proof -
  define m' where "m' = m(t0 := (m t0)(j := e))"
  have m': "m' t0 = (m t0)(j := e)" "\<And>t. t \<noteq> t0 \<Longrightarrow> m' t = m t" by (simp_all add: m'_def)
  have "leaf m' HHDM t is =
    (if foldl (child sh) d is = child sh d0 j then if pte_present e then Some e else None else leaf m HHDM t is)"
    using assms(1-4)
  proof (induction "is" arbitrary: t d)
    case (Cons i "is")
    show ?case
    proof (cases "is = []")
      case True
      then have l: "length (snd d) = 3" using Cons.prems by simp
      then have "child sh d i = child sh d0 j \<longleftrightarrow> d = d0 \<and> i = j"
        using assms(8) by (cases d; cases d0) (auto simp: child_def)
      moreover have "d = d0 \<longleftrightarrow> t = t0" using Cons.prems(3) assms(7) typed_inj [OF assms(5)] by (metis option.inject)
      ultimately show ?thesis using True m' by (cases "t = t0") auto
    next
      case False
      then have l: "length (snd d) < 3" using Cons.prems by (cases "is") auto
      then have "t \<noteq> t0" using Cons.prems(3) assms(7,8) by auto
      moreover have "foldl (child sh) (child sh d i) is \<noteq> child sh d0 j" if "\<not> pte_present (m t i)"
      proof
        assume eq: "foldl (child sh) (child sh d i) is = child sh d0 j"
        have "child sh d0 j = (fst d0, snd d0 @ [j])" using assms(8) by (auto simp: child_def)
        moreover have "foldl (child sh) (child sh d i) is = (fst (child sh d i), snd (child sh d i) @ is)"
          by (rule foldl_child) simp
        ultimately have d0: "fst (child sh d i) = fst d0" "snd (child sh d i) @ butlast is = snd d0"
          using eq False by (auto simp: butlast_append) (metis butlast_append butlast_snoc)
        have "ty t0 = Some (fst (child sh d i), snd (child sh d i) @ butlast is)" using d0 assms(7) by simp
        then obtain c where "ty c = Some (fst (child sh d i), snd (child sh d i))"
          using typed_prefix [OF assms(5)] child_nonempty by blast
        then show False using linkedD [OF assms(6) Cons.prems(3) l, of i c] Cons.prems(1) that by simp
      qed
      moreover have "leaf m' HHDM (next_table HHDM (m t i)) is =
        (if foldl (child sh) (child sh d i) is = child sh d0 j then if pte_present e then Some e else None
         else leaf m HHDM (next_table HHDM (m t i)) is)" if "pte_present (m t i)"
        using linkedD [OF assms(6) Cons.prems(3) l, of i] Cons.prems False that
        by (intro Cons.IH) (auto simp: child_def)
      ultimately show ?thesis using False m' by auto
    qed
  qed simp
  then show ?thesis unfolding m'_def .
qed

section \<open>New tables\<close>

lemma child_eq:
  assumes "child sh d i = child sh d' i'" "d \<noteq> (None, [])" "d' \<noteq> (None, [])" "\<not> (snd d = [] \<and> sh i)"
  shows "d = d' \<and> i = i'"
  using assms by (cases d; cases d') (auto simp: child_def split: if_splits)

lemma typed_new:
  assumes "typed HHDM U ty" "frame_ok f" "f \<notin> U"
    "length (snd d') \<le> 3" "d' \<noteq> (None, [])" "\<forall>c. ty c \<noteq> Some d'" "\<And>r. d' = (Some r, []) \<Longrightarrow> r = f + HHDM"
    "\<And>b p i. d' = (b, p @ [i]) \<Longrightarrow> b \<noteq> None \<or> p \<noteq> [] \<Longrightarrow> \<exists>t. ty t = Some (b, p)"
  shows "typed HHDM (insert f U) (ty(f + HHDM \<mapsto> d'))"
proof -
  have "ty (f + HHDM) = None" using typedD(1) [OF assms(1), of "f + HHDM"] assms(3) by (cases "ty (f + HHDM)") auto
  note fresh = this
  let ?ty = "ty(f + HHDM \<mapsto> d')"
  have old: "?ty t = Some d \<Longrightarrow> t \<noteq> f + HHDM \<Longrightarrow> ty t = Some d" for t d by simp
  show ?thesis
    unfolding typed_def
  proof (intro conjI allI impI)
    show "t - HHDM \<in> insert f U" "frame_ok (t - HHDM)" "length (snd d) \<le> 3" "d \<noteq> (None, [])"
      if "?ty t = Some d" for t d
      using that typedD [OF assms(1)] assms(2,4,5) by (auto split: if_splits)
    show "t = t'" if "?ty t = Some d" "?ty t' = Some d" for t t' d
      using that typed_inj [OF assms(1)] assms(6) by (auto split: if_splits)
    show "t = r" if "?ty t = Some (Some r, [])" for t r
      using that typed_root [OF assms(1)] assms(7) by (auto split: if_splits)
    show "\<exists>t. ?ty t = Some (b, p)" if "?ty c = Some (b, p @ [i])" "b \<noteq> None \<or> p \<noteq> []" for c b p i
    proof -
      have "\<exists>t. ty t = Some (b, p)"
        using that typed_parent [OF assms(1), of c b p i] assms(8) by (auto split: if_splits)
      then show ?thesis using fresh by (metis fun_upd_other option.distinct(1))
    qed
  qed
qed

text \<open>The step \<open>pt_ext\<close>: tables were added, no translation changed, no other page was written.\<close>

definition pt_ext where
  "pt_ext HHDM ty st ty' st' \<longleftrightarrow>
     ty \<subseteq>\<^sub>m ty' \<and> (\<forall>t r. ty' t = Some (Some r, []) \<longrightarrow> ty t = Some (Some r, [])) \<and>
     (\<forall>t d is. ty t = Some d \<longrightarrow> length (snd d) + length is = 4 \<longrightarrow> is \<noteq> [] \<longrightarrow> (\<forall>i \<in> set is. i < 512) \<longrightarrow>
        leaf (pt_mem st') HHDM t is = leaf (pt_mem st) HHDM t is) \<and>
     (\<forall>v. ty' v = None \<longrightarrow> pt_mem st' v = pt_mem st v) \<and>
     higher_half_entries st' = higher_half_entries st \<and> higher_half_pml4 st' = higher_half_pml4 st"

lemma pt_ext_refl: "pt_ext HHDM ty st ty st"
  by (simp add: pt_ext_def)

lemma pt_extD:
  assumes "pt_ext HHDM ty st ty' st'"
  shows "ty t = Some d \<Longrightarrow> ty' t = Some d" "ty' t = Some (Some r, []) \<Longrightarrow> ty t = Some (Some r, [])"
    "ty t = Some d \<Longrightarrow> length (snd d) + length is = 4 \<Longrightarrow> is \<noteq> [] \<Longrightarrow> \<forall>i \<in> set is. i < 512 \<Longrightarrow>
      leaf (pt_mem st') HHDM t is = leaf (pt_mem st) HHDM t is"
    "ty' v = None \<Longrightarrow> pt_mem st' v = pt_mem st v"
    "higher_half_entries st' = higher_half_entries st" "higher_half_pml4 st' = higher_half_pml4 st"
proof -
  show "ty t = Some d \<Longrightarrow> ty' t = Some d"
    using assms unfolding pt_ext_def map_le_def dom_def by (metis (mono_tags) mem_Collect_eq option.distinct(1))
qed (use assms in \<open>unfold pt_ext_def, blast+\<close>)

lemma pt_ext_trans:
  assumes "pt_ext HHDM ty st ty1 st1" "pt_ext HHDM ty1 st1 ty2 st2"
  shows "pt_ext HHDM ty st ty2 st2"
  unfolding pt_ext_def
proof (intro conjI allI impI)
  note e1 = pt_extD [OF assms(1)] and e2 = pt_extD [OF assms(2)]
  show "ty \<subseteq>\<^sub>m ty2" using e1(1) e2(1) by (auto simp: map_le_def)
  show "ty t = Some (Some r, [])" if "ty2 t = Some (Some r, [])" for t r using that e1(2) e2(2) by blast
  show "leaf (pt_mem st2) HHDM t is = leaf (pt_mem st) HHDM t is"
    if "ty t = Some d" "length (snd d) + length is = 4" "is \<noteq> []" "\<forall>i \<in> set is. i < 512" for t d "is"
    using that e1(3) [of t d "is"] e2(3) [of t d "is"] e1(1) [of t d] by simp
  show "pt_mem st2 v = pt_mem st v" if "ty2 v = None" for v
    using that e1(4) [of v] e2(4) [of v] e2(1) [of v] by (cases "ty1 v") auto
  show "higher_half_entries st2 = higher_half_entries st" "higher_half_pml4 st2 = higher_half_pml4 st"
    using e1(5,6) e2(5,6) by simp_all
qed

text \<open>Whether the address \<open>v\<close> in the map \<open>r'\<close> is governed by the entry of \<open>virt\<close> in the map \<open>r\<close>.\<close>

definition same_entry :: "(u64 \<Rightarrow> bool) \<Rightarrow> uptr \<Rightarrow> uptr \<Rightarrow> uptr \<Rightarrow> uptr \<Rightarrow> bool" where
  "same_entry sh r' v r virt \<longleftrightarrow> page_path v = page_path virt \<and> (r' = r \<or> sh (table_entries virt ! 3))"

section \<open>Walks\<close>

locale page_tables = frame_allocator frames alloc
  for frames :: "'s \<Rightarrow> uptr set \<Rightarrow> nat \<Rightarrow> bool" and alloc :: "'s frame_alloc" +
  fixes sh :: "u64 \<Rightarrow> bool" and tflags :: u64
  assumes flags_addr: "PTE_GET_ADDR tflags = 0"
    and flags_present: "pte_present tflags"
begin

lemma table_entry:
  assumes "frame_ok f"
  shows "pte_present (f OR tflags)" "PTE_GET_ADDR (f OR tflags) = f"
  using assms flags_addr flags_present
  by (simp_all add: pte_present_def PTE_GET_ADDR_def frame_ok_def page_addr_ok_def and.commute bit.conj_disj_distrib2 or_eq_0_iff)
    (metis and.commute bit.conj_disj_distrib or_eq_0_iff)

lemma get_next_level_find:
  assumes "pt_inv sh frames HHDM U n ty st" "ty t = Some d"
  shows "get_next_level fl alloc HHDM st t i False =
    Inr (st, if pte_present (pt_mem st t i) then next_table HHDM (pt_mem st t i) else 0)"
  using typed_nonzero [OF pt_invD(1) [OF assms(1)] pt_invD(3) [OF assms(1)] assms(2)]
  by (simp add: get_next_level_def pt_read_def next_table_def)

lemma walk_find_spec:
  assumes inv: "pt_inv sh frames HHDM U n ty st"
  shows "ty t = Some d \<Longrightarrow> length (snd d) + length is \<le> 3 \<Longrightarrow> \<forall>i \<in> set is. i < 512 \<Longrightarrow>
    \<exists>p. walk_find alloc HHDM st t is = Inr p \<and>
      (case p of
         None \<Rightarrow> \<forall>j. leaf (pt_mem st) HHDM t (is @ [j]) = None
       | Some c \<Rightarrow> ty c = Some (foldl (child sh) d is) \<and>
          (\<forall>j. leaf (pt_mem st) HHDM t (is @ [j]) = leaf (pt_mem st) HHDM c [j]))"
proof (induction "is" arbitrary: t d)
  case (Cons i "is")
  let ?e = "pt_mem st t i"
  show ?case
  proof (cases "pte_present ?e")
    case True
    then have ty: "ty (next_table HHDM ?e) = Some (child sh d i)"
      using linkedD [OF pt_invD(4) [OF inv] Cons.prems(1)] Cons.prems by simp
    have "length (snd (child sh d i)) + length is \<le> 3" using Cons.prems by (auto simp: child_def)
    from Cons.IH [OF ty this] Cons.prems obtain p where p: "walk_find alloc HHDM st (next_table HHDM ?e) is = Inr p"
      "case p of None \<Rightarrow> \<forall>j. leaf (pt_mem st) HHDM (next_table HHDM ?e) (is @ [j]) = None
       | Some c \<Rightarrow> ty c = Some (foldl (child sh) (child sh d i) is) \<and>
          (\<forall>j. leaf (pt_mem st) HHDM (next_table HHDM ?e) (is @ [j]) = leaf (pt_mem st) HHDM c [j])" by auto
    moreover have "next_table HHDM ?e \<noteq> 0" by (rule typed_nonzero [OF pt_invD(1,3) [OF inv] ty])
    ultimately show ?thesis
      using True get_next_level_find [OF inv Cons.prems(1)] by (auto simp: append_eq_Cons_conv split: option.splits)
  qed (use get_next_level_find [OF inv Cons.prems(1)] in simp)
qed simp

lemma linked_new:
  assumes "typed HHDM U ty" "linked sh HHDM ty m" "ty t = Some d" "length (snd d) < 3" "i < 512"
    "\<not> (snd d = [] \<and> sh i)" "\<not> pte_present (m t i)" "ty c = None"
    "pte_present e" "next_table HHDM e = c"
    "\<And>t'. t' \<noteq> t \<Longrightarrow> t' \<noteq> c \<Longrightarrow> m' t' = m t'" "m' t = (m t)(i := e)" "m' c = (\<lambda>_. 0)"
  shows "linked sh HHDM (ty(c \<mapsto> child sh d i)) m'"
  unfolding linked_def
proof (intro allI impI)
  fix t' d' and j :: u64 and c'
  let ?ty = "ty(c \<mapsto> child sh d i)"
  assume ty: "?ty t' = Some d'" and l: "length (snd d') < 3" and j: "j < 512"
  have none: "ty x \<noteq> Some (child sh d i)" for x
    using linkedD [OF assms(2-5)] assms(7) by blast
  have tc: "t \<noteq> c" using assms(3,8) by auto
  show "?ty c' = Some (child sh d' j) \<longleftrightarrow> pte_present (m' t' j) \<and> c' = next_table HHDM (m' t' j)"
  proof (cases "t' = c")
    case True
    then have d': "d' = child sh d i" using ty by simp
    have "ty c' \<noteq> Some (child sh d' j)"
    proof
      assume "ty c' = Some (child sh d' j)"
      then have "ty c' = Some (fst d', snd d' @ [j])" using d' by (simp add: child_below)
      then obtain x where "ty x = Some (fst d', snd d')" using typed_parent [OF assms(1)] d' child_nonempty by blast
      then show False using none d' by simp
    qed
    moreover have "child sh d' j \<noteq> child sh d i" unfolding d' by (simp add: child_below prod_eq_iff)
    moreover have "\<not> pte_present 0" by (simp add: pte_present_def)
    ultimately show ?thesis using True assms(13) by auto
  next
    case False
    then have ty': "ty t' = Some d'" using ty by simp
    have new: "child sh d' j = child sh d i \<longleftrightarrow> t' = t \<and> j = i"
    proof
      assume eq: "child sh d' j = child sh d i"
      then have "d = d' \<and> i = j"
        using assms(6) typedD(4) [OF assms(1,3)] typedD(4) [OF assms(1) ty'] by (intro child_eq [of sh]) auto
      then show "t' = t \<and> j = i" using typed_inj [OF assms(1,3)] ty' by auto
    qed (use assms(3) ty' in auto)
    show ?thesis
    proof (cases "t' = t \<and> j = i")
      case True
      then show ?thesis using new none assms(9,10,12) by auto
    next
      case other: False
      then have "m' t' j = m t' j" using assms(11,12) False by (cases "t' = t") auto
      moreover have "ty c' = Some (child sh d' j) \<longleftrightarrow> pte_present (m t' j) \<and> c' = next_table HHDM (m t' j)"
        by (rule linkedD [OF assms(2) ty' l j])
      moreover have "c' = c \<Longrightarrow> ty c' \<noteq> Some (child sh d' j)" using assms(8) by simp
      ultimately show ?thesis using new other by auto
    qed
  qed
qed

lemma shared_not_absent:
  assumes "pt_inv sh frames HHDM U n ty st" "ty t = Some d" "i < 512" "\<not> pte_present (pt_mem st t i)"
  shows "\<not> (snd d = [] \<and> sh i)"
proof
  assume s: "snd d = [] \<and> sh i"
  then have "ty (next_table HHDM (he_entry st i)) = Some (child sh d i)"
    using sharedD(2) [OF pt_invD(5) [OF assms(1)] assms(3)] by (simp add: child_def)
  then show False using linkedD [OF pt_invD(4) [OF assms(1)] assms(2)] assms(3,4) s by auto
qed

lemma add_table:
  assumes inv: "pt_inv sh frames HHDM U n ty st" and ty: "ty t = Some d" and l: "length (snd d) < 3" and i: "i < 512"
    and np: "\<not> pte_present (pt_mem st t i)" and f: "frames a (insert f U) (n - 1)" "f \<notin> U" "frame_ok f"
    and st': "st' = pt_write t i (f OR tflags) (pt_zero (f + HHDM) (st\<lparr>pt_al := a\<rparr>))"
  defines "ty' \<equiv> ty(f + HHDM \<mapsto> child sh d i)"
  shows "pt_inv sh frames HHDM (insert f U) (n - 1) ty' st' \<and> pt_ext HHDM ty st ty' st'"
proof -
  note I = pt_invD [OF inv]
  have fresh: "ty (f + HHDM) = None" using typedD(1) [OF I(3), of "f + HHDM"] f(2) by (cases "ty (f + HHDM)") auto
  then have ne: "t \<noteq> f + HHDM" using ty by auto
  have ns: "\<not> (snd d = [] \<and> sh i)" by (rule shared_not_absent [OF inv ty i np])
  have nt: "next_table HHDM (f OR tflags) = f + HHDM" using table_entry(2) [OF f(3)] by (simp add: next_table_def)
  have none: "\<forall>c. ty c \<noteq> Some (child sh d i)" using linkedD [OF I(4) ty l i] np by blast
  have m': "\<And>t'. t' \<noteq> t \<Longrightarrow> t' \<noteq> f + HHDM \<Longrightarrow> pt_mem st' t' = pt_mem st t'"
    "pt_mem st' t = (pt_mem st t)(i := f OR tflags)" "pt_mem st' (f + HHDM) = (\<lambda>_. 0)"
    using ne by (auto simp: st' pt_write_def pt_zero_def)
  have ch: "child sh d i = (fst d, snd d @ [i])" using ns by (auto simp: child_def)
  have "typed HHDM (insert f U) ty'"
    unfolding ty'_def
  proof (rule typed_new [OF I(3) f(3,2) _ _ none])
    show "\<exists>t. ty t = Some (b, p)" if "child sh d i = (b, p @ [j])" for b p j
      using that ty ch by (cases d) auto
  qed (use ch l in \<open>auto simp: prod_eq_iff\<close>)
  moreover have "linked sh HHDM ty' (pt_mem st')"
    unfolding ty'_def by (rule linked_new [OF I(3,4) ty l i ns np fresh table_entry(1) [OF f(3)] nt m'])
  moreover have "shared sh HHDM ty' st'"
    using I(5) fresh by (auto simp: shared_def ty'_def st' he_entry_def pt_write_def pt_zero_def)
  ultimately have "pt_inv sh frames HHDM (insert f U) (n - 1) ty' st'"
    using I(1) f(1) by (simp add: pt_inv_def st' pt_write_def pt_zero_def)
  moreover have "pt_ext HHDM ty st ty' st'"
    unfolding pt_ext_def
  proof (intro conjI allI impI)
    show "ty \<subseteq>\<^sub>m ty'" using fresh by (auto simp: map_le_def ty'_def)
    show "ty x = Some (Some r, [])" if "ty' x = Some (Some r, [])" for x r
      using that ch by (auto simp: ty'_def split: if_splits)
    show "leaf (pt_mem st') HHDM x is = leaf (pt_mem st) HHDM x is"
      if "ty x = Some e" "length (snd e) + length is = 4" "is \<noteq> []" "\<forall>i \<in> set is. i < 512" for x e "is"
    proof (rule leaf_changed [OF _ that(2,1,3) I(3,4)])
      show "pt_mem st' t1 k = pt_mem st t1 k \<or> (length (snd d1) < 3 \<and> \<not> pte_present (pt_mem st t1 k) \<and>
          (\<forall>j. \<not> pte_present (pt_mem st' (next_table HHDM (pt_mem st' t1 k)) j)))"
        if "ty t1 = Some d1" for t1 d1 k
      proof (cases "t1 = t \<and> k = i")
        case True
        then show ?thesis using that ty l np m' nt by (auto simp: pte_present_def)
      next
        case False
        moreover have "t1 \<noteq> f + HHDM" using that fresh by auto
        ultimately show ?thesis using m'(1) [of t1] m'(2) by (cases "t1 = t") auto
      qed
    qed (use that in simp)
    show "pt_mem st' v = pt_mem st v" if "ty' v = None" for v
      using that m'(1) ty ne by (cases "v = t") (auto simp: ty'_def split: if_splits)
  qed (simp_all add: st' pt_write_def pt_zero_def)
  ultimately show ?thesis by simp
qed

lemma get_next_level_alloc:
  assumes inv: "pt_inv sh frames HHDM U n ty st" and ty: "ty t = Some d" and l: "length (snd d) < 3" and i: "i < 512"
  shows "n = 0 \<and> get_next_level tflags alloc HHDM st t i True = Inl Panic \<or>
    (\<exists>st' c U' n' ty'. get_next_level tflags alloc HHDM st t i True = Inr (st', c) \<and> U \<subseteq> U' \<and> n \<le> n' + 1 \<and>
       pt_inv sh frames HHDM U' n' ty' st' \<and> pt_ext HHDM ty st ty' st' \<and> ty' c = Some (child sh d i))"
proof -
  have t: "t \<noteq> 0" by (rule typed_nonzero [OF pt_invD(1,3) [OF inv] ty])
  show ?thesis
  proof (cases "pte_present (pt_mem st t i)")
    case True
    then have "ty (next_table HHDM (pt_mem st t i)) = Some (child sh d i)"
      using linkedD [OF pt_invD(4) [OF inv] ty l i] by simp
    then show ?thesis
      using True t inv pt_ext_refl [of HHDM ty st] 
      by (auto simp: get_next_level_def pt_read_def next_table_def intro!: exI [of _ U] exI [of _ n] exI [of _ ty])
  next
    case np: False
    show ?thesis
    proof (cases "n = 0")
      case True
      then show ?thesis
        using np t alloc_none pt_invD(2) [OF inv] by (simp add: get_next_level_def pt_read_def pt_alloc_def)
    next
      case False
      then obtain a f where al: "alloc (pt_al st) = Inr (a, f)" "frames a (insert f U) (n - 1)" "f \<notin> U" "frame_ok f"
        using alloc_frame [OF pt_invD(2) [OF inv]] by blast
      let ?st = "pt_write t i (f OR tflags) (pt_zero (f + HHDM) (st\<lparr>pt_al := a\<rparr>))"
      have "get_next_level tflags alloc HHDM st t i True = Inr (?st, f + HHDM)"
        using np t al(1) by (simp add: get_next_level_def pt_read_def pt_alloc_def Let_def)
      moreover have "pt_inv sh frames HHDM (insert f U) (n - 1) (ty(f + HHDM \<mapsto> child sh d i)) ?st \<and>
          pt_ext HHDM ty st (ty(f + HHDM \<mapsto> child sh d i)) ?st"
        using add_table [OF inv ty l i np al(2-4)] by blast
      ultimately show ?thesis
        by (auto intro!: exI [of _ "insert f U"] exI [of _ "n - 1"] exI [of _ "ty(f + HHDM \<mapsto> child sh d i)"])
    qed
  qed
qed

lemma walk_alloc_spec:
  assumes "pt_inv sh frames HHDM U n ty st" "ty t = Some d" "length (snd d) + length is \<le> 3" "\<forall>i \<in> set is. i < 512"
  shows "n < length is \<and> walk_alloc tflags alloc HHDM st t is = Inl Panic \<or>
    (\<exists>st' c U' n' ty'. walk_alloc tflags alloc HHDM st t is = Inr (st', c) \<and> U \<subseteq> U' \<and> n \<le> n' + length is \<and>
       pt_inv sh frames HHDM U' n' ty' st' \<and> pt_ext HHDM ty st ty' st' \<and> ty' c = Some (foldl (child sh) d is))"
  using assms
proof (induction "is" arbitrary: U n ty st t d)
  case Nil
  then show ?case using pt_ext_refl [of HHDM ty st] by auto
next
  case (Cons i "is")
  have "length (snd d) < 3" "i < 512" using Cons.prems by auto
  from get_next_level_alloc [OF Cons.prems(1,2) this] show ?case
  proof (elim disjE exE conjE)
    fix st1 c1 U1 n1 ty1
    assume g: "get_next_level tflags alloc HHDM st t i True = Inr (st1, c1)" "U \<subseteq> U1" "n \<le> n1 + 1"
      "pt_inv sh frames HHDM U1 n1 ty1 st1" "pt_ext HHDM ty st ty1 st1" "ty1 c1 = Some (child sh d i)"
    have len: "length (snd (child sh d i)) + length is \<le> 3" using Cons.prems(3) by (auto simp: child_def)
    have "\<forall>i \<in> set is. i < 512" using Cons.prems(4) by simp
    from Cons.IH [OF g(4,6) len this] show ?case
    proof (elim disjE exE conjE)
      fix st2 c2 U2 n2 ty2
      assume "walk_alloc tflags alloc HHDM st1 c1 is = Inr (st2, c2)" "U1 \<subseteq> U2" "n1 \<le> n2 + length is"
        "pt_inv sh frames HHDM U2 n2 ty2 st2" "pt_ext HHDM ty1 st1 ty2 st2" "ty2 c2 = Some (foldl (child sh) (child sh d i) is)"
      then show ?case
        using g pt_ext_trans [OF g(5)] by (intro disjI2 exI [of _ st2] exI [of _ c2] exI [of _ U2] exI [of _ n2] exI [of _ ty2]) auto
    qed (use g in simp)
  qed simp
qed

lemma write_leaf_inv:
  assumes inv: "pt_inv sh frames HHDM U n ty st" and ty: "ty t0 = Some d0" and l: "length (snd d0) = 3"
  shows "pt_inv sh frames HHDM U n ty (pt_write t0 j e st)"
proof -
  have "linked sh HHDM ty (pt_mem (pt_write t0 j e st))"
    unfolding linked_def
  proof (intro allI impI)
    fix t d and i :: u64 and c
    assume a: "ty t = Some d" "length (snd d) < 3" "i < 512"
    then have "t \<noteq> t0" using ty l by auto
    then show "ty c = Some (child sh d i) \<longleftrightarrow> pte_present (pt_mem (pt_write t0 j e st) t i) \<and>
        c = next_table HHDM (pt_mem (pt_write t0 j e st) t i)"
      using linkedD [OF pt_invD(4) [OF inv] a] by (simp add: pt_write_def)
  qed
  moreover have "shared sh HHDM ty (pt_write t0 j e st)"
    using pt_invD(5) [OF inv] by (simp add: shared_def he_entry_def pt_write_def)
  ultimately show ?thesis using inv by (simp add: pt_inv_def) (simp add: pt_write_def)
qed

lemma foldl_child_root:
  "is \<noteq> [] \<Longrightarrow> foldl (child sh) (Some r, []) is = (if sh (hd is) then None else Some r, is)"
  by (cases "is") (simp_all add: foldl_child child_def)

lemma write_page:
  assumes inv: "pt_inv sh frames HHDM U n ty st" and c: "ty c = Some (foldl (child sh) (Some r, []) (upper_entries virt))"
    and r': "ty r' = Some (Some r', [])"
  shows "leaf (pt_mem (pt_write c (table_entries virt ! 0) e st)) HHDM r' (page_path v) =
    (if same_entry sh r' v r virt then if pte_present e then Some e else None
     else leaf (pt_mem st) HHDM r' (page_path v))"
proof -
  let ?d = "foldl (child sh) (Some r, []) (upper_entries virt)"
  have d: "?d = (if sh (table_entries virt ! 3) then None else Some r, upper_entries virt)"
    by (subst foldl_child_root) (simp_all add: upper_entries_def)
  have path: "child sh ?d (table_entries virt ! 0) = foldl (child sh) (Some r, []) (page_path virt)"
    by (simp add: page_path_def)
  have "foldl (child sh) (Some r', []) (page_path v) = child sh ?d (table_entries virt ! 0) \<longleftrightarrow> same_entry sh r' v r virt"
    unfolding path foldl_child_root [OF page_path_parts(3)] page_path_parts(6) same_entry_def by (auto simp flip: page_path_parts(6))
  then show ?thesis
    using leaf_written [of "page_path v" "(Some r', [])" ty r' HHDM U sh "pt_mem st" c ?d "table_entries virt ! 0" e]
      page_path_less [of v] page_path_parts [of v] r' pt_invD(3,4) [OF inv] c page_path_parts(1) [of virt] d
    by (simp add: pt_write_def)
qed

lemma map_at_spec:
  assumes inv: "pt_inv sh frames HHDM U n ty st" and r: "ty r = Some (Some r, [])" and sz: "sz \<noteq> 0" "virt mod sz = 0" "phys mod sz = 0"
    and e: "pte_present (phys OR pflags)"
  shows "n < 3 \<and> ptm_map_at tflags pflags alloc HHDM st r virt phys sz = Inl Panic \<or>
    (\<exists>st' U' n' ty'. ptm_map_at tflags pflags alloc HHDM st r virt phys sz = Inr st' \<and> U \<subseteq> U' \<and> n \<le> n' + 3 \<and>
       pt_inv sh frames HHDM U' n' ty' st' \<and> ty \<subseteq>\<^sub>m ty' \<and> (\<forall>x y. ty' x = Some (Some y, []) \<longrightarrow> ty x = Some (Some y, [])) \<and>
       (\<forall>v. ty' v = None \<longrightarrow> pt_mem st' v = pt_mem st v) \<and> higher_half_pml4 st' = higher_half_pml4 st \<and>
       higher_half_entries st' = higher_half_entries st \<and>
       (\<forall>r' v. ty r' = Some (Some r', []) \<longrightarrow> leaf (pt_mem st') HHDM r' (page_path v) =
          (if same_entry sh r' v r virt then Some (phys OR pflags) else leaf (pt_mem st) HHDM r' (page_path v))))"
proof -
  have w: "length (snd (Some r, [])) + length (upper_entries virt) \<le> 3" by (simp add: page_path_parts)
  note sp = page_path_parts [of virt]
  from walk_alloc_spec [OF inv r w sp(4)] show ?thesis
  proof (elim disjE exE conjE)
    fix st1 c U' n' ty'
    assume a: "walk_alloc tflags alloc HHDM st r (upper_entries virt) = Inr (st1, c)" "U \<subseteq> U'"
      and n: "n \<le> n' + length (upper_entries virt)" and a':
      "pt_inv sh frames HHDM U' n' ty' st1" "pt_ext HHDM ty st ty' st1" "ty' c = Some (foldl (child sh) (Some r, []) (upper_entries virt))"
    let ?st = "pt_write c (table_entries virt ! 0) (phys OR pflags) st1"
    note x = pt_extD [OF a'(2)]
    have len: "length (snd (foldl (child sh) (Some r, []) (upper_entries virt))) = 3"
      by (subst foldl_child_root) (simp_all add: upper_entries_def)
    have "pt_inv sh frames HHDM U' n' ty' ?st" by (rule write_leaf_inv [OF a'(1,3) len])
    moreover have "leaf (pt_mem ?st) HHDM r' (page_path v) =
          (if same_entry sh r' v r virt then Some (phys OR pflags) else leaf (pt_mem st) HHDM r' (page_path v))"
      if "ty r' = Some (Some r', [])" for r' v
      using write_page [OF a'(1,3) x(1) [OF that]] x(3) [OF that] page_path_less page_path_parts [of v] e by simp
    moreover have "ptm_map_at tflags pflags alloc HHDM st r virt phys sz = Inr ?st"
      using sz a(1) by (simp add: ptm_map_at_def mod_assert_def)
    moreover have "ty \<subseteq>\<^sub>m ty'" using a'(2) by (simp add: pt_ext_def)
    moreover have "pt_mem ?st v = pt_mem st v" if "ty' v = None" for v
      using x(4) [OF that] that a'(3) by (auto simp: pt_write_def)
    ultimately show ?thesis using a(2) n sp(1) x(2,5,6) by (intro disjI2 exI [of _ ?st] exI [of _ U'] exI [of _ n'] exI [of _ ty']) (simp add: pt_write_def)
  qed (use sz sp(1) in \<open>simp add: ptm_map_at_def mod_assert_def\<close>)
qed

lemma shared_leaf:
  assumes inv: "pt_inv sh frames HHDM U n ty st" and r: "ty r = Some (Some r, [])" "ty r' = Some (Some r', [])"
    and s: "sh (table_entries v ! 3)"
  shows "leaf (pt_mem st) HHDM r' (page_path v) = leaf (pt_mem st) HHDM r (page_path v)"
proof -
  let ?i = "table_entries v ! 3"
  obtain "is" where p: "page_path v = ?i # is" "is \<noteq> []" by (auto simp: page_path_def upper_entries_def)
  then have i: "?i < 512" using page_path_less [of v] by simp
  have "pte_present (pt_mem st x ?i) \<and> next_table HHDM (he_entry st ?i) = next_table HHDM (pt_mem st x ?i)"
    if "ty x = Some (Some x, [])" for x
    using linkedD [OF pt_invD(4) [OF inv] that _ i] sharedD(2) [OF pt_invD(5) [OF inv] i s] s by (simp add: child_def)
  from this [OF r(1)] this [OF r(2)] show ?thesis using p by simp
qed

lemma unmap_at_spec:
  assumes inv: "pt_inv sh frames HHDM U n ty st" and r: "ty r = Some (Some r, [])" and sz: "sz \<noteq> 0" "virt mod sz = 0" "phys mod sz = 0"
  shows "\<exists>st'. ptm_unmap_at alloc HHDM st r virt phys sz = Inr st' \<and> pt_inv sh frames HHDM U n ty st' \<and>
       higher_half_pml4 st' = higher_half_pml4 st \<and> higher_half_entries st' = higher_half_entries st \<and>
       (\<forall>v. ty v = None \<longrightarrow> pt_mem st' v = pt_mem st v) \<and>
       (\<forall>r' v. ty r' = Some (Some r', []) \<longrightarrow> leaf (pt_mem st') HHDM r' (page_path v) =
          (if same_entry sh r' v r virt then None else leaf (pt_mem st) HHDM r' (page_path v)))"
proof -
  have w: "length (snd (Some r, [])) + length (upper_entries virt) \<le> 3" by (simp add: page_path_parts)
  note sp = page_path_parts [of virt]
  obtain p where p: "walk_find alloc HHDM st r (upper_entries virt) = Inr p"
    "case p of None \<Rightarrow> \<forall>j. leaf (pt_mem st) HHDM r (upper_entries virt @ [j]) = None
     | Some c \<Rightarrow> ty c = Some (foldl (child sh) (Some r, []) (upper_entries virt)) \<and>
         (\<forall>j. leaf (pt_mem st) HHDM r (upper_entries virt @ [j]) = leaf (pt_mem st) HHDM c [j])"
    using walk_find_spec [OF inv r w sp(4)] by blast
  show ?thesis
  proof (cases p)
    case None
    have "leaf (pt_mem st) HHDM r' (page_path v) = None"
      if "ty r' = Some (Some r', [])" "same_entry sh r' v r virt" for r' v
      using that p(2) None shared_leaf [OF inv r that(1), of virt] by (auto simp: same_entry_def page_path_def [of virt])
    then show ?thesis using sz p(1) None inv by (auto simp: ptm_unmap_at_def mod_assert_def)
  next
    case (Some c)
    then have c: "ty c = Some (foldl (child sh) (Some r, []) (upper_entries virt))" using p(2) by simp
    let ?st = "pt_write c (table_entries virt ! 0) 0 st"
    have len: "length (snd (foldl (child sh) (Some r, []) (upper_entries virt))) = 3"
      by (subst foldl_child_root) (simp_all add: upper_entries_def)
    have "ptm_unmap_at alloc HHDM st r virt phys sz = Inr ?st"
      using sz p(1) Some by (simp add: ptm_unmap_at_def mod_assert_def)
    moreover have "pt_inv sh frames HHDM U n ty ?st" by (rule write_leaf_inv [OF inv c len])
    moreover have "pt_mem ?st v = pt_mem st v" if "ty v = None" for v using that c by (auto simp: pt_write_def)
    ultimately show ?thesis using write_page [OF inv c] by (intro exI [of _ ?st]) (simp add: pte_present_def, simp add: pt_write_def)
  qed
qed

lemma translate_leaf:
  assumes inv: "pt_inv sh frames HHDM U n ty st" and r: "ty r = Some (Some r, [])"
  shows "arch_ptm_virt_to_phys alloc HHDM st r v =
    Inr (case leaf (pt_mem st) HHDM r (page_path v) of
           None \<Rightarrow> BAD_ADDRESS | Some pte \<Rightarrow> PTE_GET_ADDR pte + (v AND 0xFFF))"
proof -
  have w: "length (snd (Some r, [])) + length (upper_entries v) \<le> 3" by (simp add: page_path_parts)
  obtain p where p: "walk_find alloc HHDM st r (upper_entries v) = Inr p"
    "case p of None \<Rightarrow> \<forall>j. leaf (pt_mem st) HHDM r (upper_entries v @ [j]) = None
     | Some c \<Rightarrow> ty c = Some (foldl (child sh) (Some r, []) (upper_entries v)) \<and>
         (\<forall>j. leaf (pt_mem st) HHDM r (upper_entries v @ [j]) = leaf (pt_mem st) HHDM c [j])"
    using walk_find_spec [OF inv r w page_path_parts(4)] by blast
  then show ?thesis
    using typed_nonzero [OF pt_invD(1,3) [OF inv]]
    by (auto simp: arch_ptm_virt_to_phys_def page_path_def pt_read_def split: option.splits)
qed

text \<open>A frame made the root of a new map.\<close>

lemma add_root:
  assumes inv: "pt_inv sh frames HHDM U n ty st" and f: "frames a (insert f U) (n - 1)" "f \<notin> U" "frame_ok f"
    and mem: "\<And>t. t \<noteq> f + HHDM \<Longrightarrow> pt_mem st' t = pt_mem st t"
      "\<And>i. i < 512 \<Longrightarrow> pt_mem st' (f + HHDM) i = (if sh i then he_entry st i else 0)"
    and st': "pt_al st' = a" "higher_half_entries st' = higher_half_entries st"
  defines "r \<equiv> f + HHDM"
  defines "ty' \<equiv> ty(r \<mapsto> (Some r, []))"
  shows "pt_inv sh frames HHDM (insert f U) (n - 1) ty' st' \<and> ty r = None \<and>
    (\<forall>v. \<not> sh (table_entries v ! 3) \<longrightarrow> leaf (pt_mem st') HHDM r (page_path v) = None) \<and>
    (\<forall>x v. ty x = Some (Some x, []) \<longrightarrow> leaf (pt_mem st') HHDM x (page_path v) = leaf (pt_mem st) HHDM x (page_path v))"
proof -
  note I = pt_invD [OF inv]
  have fresh: "ty r = None" using typedD(1) [OF I(3), of r] f(2) by (cases "ty r") (auto simp: r_def)
  have none: "ty c \<noteq> Some (Some r, p)" for c p
  proof
    assume "ty c = Some (Some r, p)"
    moreover have "\<exists>c'. ty c' = Some (Some r, [])" if "ty c = Some (Some r, p)" for c p
      using that
    proof (induction p arbitrary: c rule: rev_induct)
      case (snoc i p)
      then show ?case using typed_parent [OF I(3), of c "Some r" p i] by auto
    qed blast
    ultimately obtain c' where "ty c' = Some (Some r, [])" by blast
    then show False using typed_root [OF I(3)] fresh by fastforce
  qed
  have np: "\<not> pte_present 0" by (simp add: pte_present_def)
  have typed': "typed HHDM (insert f U) ty'"
    unfolding ty'_def r_def by (rule typed_new [OF I(3) f(3,2)]) (use none in \<open>auto simp: r_def\<close>)
  have linked': "linked sh HHDM ty' (pt_mem st')"
    unfolding linked_def
  proof (intro allI impI)
    fix t d and i :: u64 and c
    assume t: "ty' t = Some d" "length (snd d) < 3" and i: "i < 512"
    show "ty' c = Some (child sh d i) \<longleftrightarrow> pte_present (pt_mem st' t i) \<and> c = next_table HHDM (pt_mem st' t i)"
    proof (cases "t = r")
      case True
      then have d: "d = (Some r, [])" using t(1) by (simp add: ty'_def)
      show ?thesis
      proof (cases "sh i")
        case s: True
        note sd = sharedD [OF I(5) i s]
        have "ty' c = Some (None, [i]) \<longleftrightarrow> c = next_table HHDM (he_entry st i)"
          using sd(2) typed_inj [OF I(3)] fresh by (auto simp: ty'_def)
        then show ?thesis using d s True mem(2) [OF i] sd(1) by (simp add: child_def r_def)
      next
        case False
        then show ?thesis using d True mem(2) [OF i] none np by (auto simp: child_def r_def ty'_def)
      qed
    next
      case False
      then have "ty t = Some d" using t(1) by (simp add: ty'_def)
      moreover have "child sh d i \<noteq> (Some r, [])" by (simp add: child_def)
      moreover have "ty r \<noteq> Some (child sh d i)" using fresh by simp
      ultimately show ?thesis
        using linkedD [OF I(4) _ t(2) i, of t c] mem(1) [of t] False
        by (cases "c = r") (auto simp: ty'_def r_def)
    qed
  qed
  have "shared sh HHDM ty' st'"
    using I(5) fresh st'(2) by (auto simp: shared_def ty'_def he_entry_def)
  then have "pt_inv sh frames HHDM (insert f U) (n - 1) ty' st'"
    using I(1) f(1) typed' linked' st'(1) by (simp add: pt_inv_def)
  moreover have "leaf (pt_mem st') HHDM r (page_path v) = None" if "\<not> sh (table_entries v ! 3)" for v
  proof -
    have "table_entries v ! 3 < 512" using page_path_less [of v] by (simp add: page_path_def upper_entries_def)
    then show ?thesis using that mem(2) np by (simp add: page_path_def upper_entries_def r_def)
  qed
  moreover have "leaf (pt_mem st') HHDM x (page_path v) = leaf (pt_mem st) HHDM x (page_path v)"
    if "ty x = Some (Some x, [])" for x v
  proof (rule leaf_changed [of _ "(Some x, [])" ty x HHDM U sh])
    show "pt_mem st' t i = pt_mem st t i \<or> (length (snd d) < 3 \<and> \<not> pte_present (pt_mem st t i) \<and>
        (\<forall>j. \<not> pte_present (pt_mem st' (next_table HHDM (pt_mem st' t i)) j)))" if "ty t = Some d" for t d i
    proof -
      have "t \<noteq> r" using that fresh by auto
      then show ?thesis using mem(1) by (simp add: r_def)
    qed
  qed (use that I page_path_less page_path_parts in auto)
  ultimately show ?thesis using fresh by blast
qed

end

end
