(* ===== verification/Ptm_Maps.thy ===== *)
theory Ptm_Maps
  imports Ptm_Correct
begin

text \<open>
  What the page-table managers promise: the maps of x86-64, which share the tables of the kernel
  half, and those of AArch64, which share the second root.
\<close>

section \<open>Pages\<close>

text \<open>Two addresses are of one page when bits 12 to 47 agree.\<close>

definition same_page :: "uptr \<Rightarrow> uptr \<Rightarrow> bool" where
  "same_page v w \<longleftrightarrow> take_bit 36 (drop_bit 12 v) = take_bit 36 (drop_bit 12 w)"

lemma index_take_bit: "(x :: u64) AND 0x1FF = take_bit 9 x"
  by (simp add: take_bit_eq_mask mask_eq_exp_minus_1)

lemma take_drop_eq:
  "n \<le> 64 \<Longrightarrow> take_bit n (drop_bit k (v :: u64)) = take_bit n (drop_bit k w) \<longleftrightarrow> (\<forall>i < n. bit v (k + i) = bit w (k + i))"
  by (auto simp: bit_eq_iff bit_take_bit_iff bit_drop_bit_eq) (metis order_less_le_trans)+

lemma page_path_eq: "page_path v = page_path w \<longleftrightarrow> same_page v w"
proof -
  have "page_path v = page_path w \<longleftrightarrow>
      (\<forall>i < 9. bit v (39 + i) = bit w (39 + i)) \<and> (\<forall>i < 9. bit v (30 + i) = bit w (30 + i)) \<and>
      (\<forall>i < 9. bit v (21 + i) = bit w (21 + i)) \<and> (\<forall>i < 9. bit v (12 + i) = bit w (12 + i))"
    by (simp add: page_path_def upper_entries_def table_entries_def index_take_bit take_drop_eq)
  also have "\<dots> \<longleftrightarrow> (\<forall>i < 36. bit v (12 + i) = bit w (12 + i))" (is "?l \<longleftrightarrow> ?r")
  proof
    assume l: ?l
    show ?r
    proof (intro allI impI)
      fix i :: nat
      assume i: "i < 36"
      consider "i < 9" | "9 \<le> i \<and> i - 9 < 9" | "18 \<le> i \<and> i - 18 < 9" | "27 \<le> i \<and> i - 27 < 9" using i by linarith
      then show "bit v (12 + i) = bit w (12 + i)"
      proof cases
        case 1
        then show ?thesis using l by blast
      next
        case 2
        then have "bit v (21 + (i - 9)) = bit w (21 + (i - 9))" using l by blast
        then show ?thesis using 2 by simp
      next
        case 3
        then have "bit v (30 + (i - 18)) = bit w (30 + (i - 18))" using l by blast
        then show ?thesis using 3 by simp
      next
        case 4
        then have "bit v (39 + (i - 27)) = bit w (39 + (i - 27))" using l by blast
        then show ?thesis using 4 by simp
      qed
    qed
  next
    assume r: ?r
    have "bit v (12 + (k + i)) = bit w (12 + (k + i))" if "i < 9" "k \<le> 27" for i k using r that by simp
    from this [of _ 27] this [of _ 18] this [of _ 9] this [of _ 0] show ?l by (simp add: add.assoc [symmetric])
  qed
  finally show ?thesis by (simp add: same_page_def take_drop_eq)
qed

lemma kernel_index: "256 \<le> table_entries v ! 3 \<longleftrightarrow> bit v 47"
proof -
  define x where "x = drop_bit 39 v"
  have b: "bit (take_bit 9 x) 8 \<longleftrightarrow> bit v 47" by (simp add: x_def bit_take_bit_iff bit_drop_bit_eq)
  have "256 \<le> take_bit 9 x \<longleftrightarrow> bit (take_bit 9 x) 8"
  proof
    assume le: "256 \<le> take_bit 9 x"
    show "bit (take_bit 9 x) 8"
    proof (rule ccontr)
      assume n: "\<not> bit (take_bit 9 x) 8"
      have "take_bit 9 x = take_bit 8 x"
        by (rule bit_eqI) (use n in \<open>auto simp: bit_take_bit_iff less_Suc_eq numeral_eq_Suc\<close>)
      moreover have "unat (take_bit 8 x) < 2 ^ 8" by (simp only: unsigned_take_bit_eq take_bit_nat_less_exp)
      ultimately show False using le by (simp add: word_le_nat_alt)
    qed
  next
    assume bt: "bit (take_bit 9 x) 8"
    have "256 OR take_bit 9 x = take_bit 9 x"
    proof (rule bit_eqI)
      fix i
      have e: "(256 :: u64) = 2 ^ 8" by simp
      show "bit (256 OR take_bit 9 x) i = bit (take_bit 9 x) i"
        unfolding e bit_or_iff bit_exp_iff using bt by auto
    qed
    then show "256 \<le> take_bit 9 x" using le_word_or2 [of 256 "take_bit 9 x"] by simp
  qed
  then show ?thesis by (simp add: table_entries_def index_take_bit b flip: x_def)
qed

lemma map_le_Some:
  assumes "f \<subseteq>\<^sub>m g" "f x = Some d"
  shows "g x = Some d"
proof -
  have "x \<in> dom f" using assms(2) by blast
  then show ?thesis using assms by (simp add: map_le_def)
qed

section \<open>x86-64\<close>

definition kernel_half :: "u64 \<Rightarrow> bool" where "kernel_half i \<longleftrightarrow> 256 \<le> i"

lemma table_flags_ok: "PTE_GET_ADDR table_flags = 0" "pte_present table_flags"
  by (simp_all add: PTE_GET_ADDR_def pte_present_def table_flags_def PRESENT_def WRITE_def USER_def)

interpretation x86: page_tables pmm_frames pmm_alloc_frame kernel_half table_flags
  by unfold_locales (simp_all add: table_flags_ok)

text \<open>The page tables hold the maps with the roots \<open>R\<close>, and \<open>n\<close> frames are free.\<close>

definition ptm_ok :: "uptr \<Rightarrow> pmm_t ptm \<Rightarrow> uptr set \<Rightarrow> nat \<Rightarrow> bool" where
  "ptm_ok HHDM st R n \<longleftrightarrow>
     (\<exists>U ty. pt_inv kernel_half pmm_frames HHDM U n ty st \<and> length (higher_half_entries st) = 256 \<and>
        R = {r. ty r = Some (Some r, [])})"

lemma ptm_okI:
  assumes "pt_inv kernel_half pmm_frames HHDM U n ty st" "length (higher_half_entries st) = 256"
    "\<And>x. x \<in> R \<longleftrightarrow> ty x = Some (Some x, [])"
  shows "ptm_ok HHDM st R n"
proof -
  have "R = {r. ty r = Some (Some r, [])}" using assms(3) by blast
  then show ?thesis unfolding ptm_ok_def using assms(1,2) by blast
qed

definition translate :: "uptr \<Rightarrow> pmm_t ptm \<Rightarrow> uptr \<Rightarrow> uptr \<Rightarrow> uptr res" where
  "translate HHDM st r v = arch_ptm_virt_to_phys pmm_alloc_frame HHDM st r v"

lemma pte_or_flags:
  assumes "page_addr_ok phys" "PTE_GET_ADDR fl = 0" "pte_present fl"
  shows "PTE_GET_ADDR (phys OR fl) = phys" "pte_present (phys OR fl)"
  using assms by (simp_all add: PTE_GET_ADDR_def pte_present_def page_addr_ok_def or_eq_0_iff bit.conj_disj_distrib2)

lemma same_entry_kernel: "same_entry kernel_half r' v r virt \<longleftrightarrow> same_page v virt \<and> (r' = r \<or> bit virt 47)"
  by (simp add: same_entry_def page_path_eq kernel_half_def kernel_index)

lemma map_ok:
  assumes "ptm_ok HHDM st R n" "r \<in> R" "page_addr_ok phys" "virt mod 0x1000 = 0" "phys mod 0x1000 = 0"
  shows "case arch_ptm_map pmm_alloc_frame HHDM st r virt phys 0x1000 of
      Inl e \<Rightarrow> e = Panic \<and> n < 3
    | Inr st' \<Rightarrow> (\<exists>n'. n \<le> n' + 3 \<and> ptm_ok HHDM st' R n') \<and>
        (\<forall>r' \<in> R. \<forall>v. translate HHDM st' r' v =
           (if same_page v virt \<and> (r' = r \<or> bit virt 47) then Inr (phys + (v AND 0xFFF)) else translate HHDM st r' v))"
proof -
  obtain U ty where inv: "pt_inv kernel_half pmm_frames HHDM U n ty st" and he: "length (higher_half_entries st) = 256"
    and R: "R = {r. ty r = Some (Some r, [])}" using assms(1) by (auto simp: ptm_ok_def)
  have r: "ty r = Some (Some r, [])" using assms(2) R by simp
  let ?fl = "PRESENT OR WRITE OR USER"
  note e = pte_or_flags [OF assms(3) table_flags_ok, unfolded table_flags_def]
  have nz: "(0x1000 :: u64) \<noteq> 0" by simp
  from x86.map_at_spec [OF inv r nz assms(4,5) e(2)] show ?thesis
  proof (elim disjE exE conjE)
    fix st' U' n' ty'
    assume a: "ptm_map_at table_flags ?fl pmm_alloc_frame HHDM st r virt phys 0x1000 = Inr st'" "n \<le> n' + 3"
      "pt_inv kernel_half pmm_frames HHDM U' n' ty' st'" "ty \<subseteq>\<^sub>m ty'"
      and roots: "\<forall>x y. ty' x = Some (Some y, []) \<longrightarrow> ty x = Some (Some y, [])"
      and he': "higher_half_entries st' = higher_half_entries st"
      and lf: "\<forall>r' v. ty r' = Some (Some r', []) \<longrightarrow> leaf (pt_mem st') HHDM r' (page_path v) =
          (if same_entry kernel_half r' v r virt then Some (phys OR ?fl) else leaf (pt_mem st) HHDM r' (page_path v))"
    have up: "ty' x = Some d" if "ty x = Some d" for x d by (rule map_le_Some [OF a(4) that])
    have "x \<in> R \<longleftrightarrow> ty' x = Some (Some x, [])" for x
      using roots [rule_format, of x x] up [of x "(Some x, [])"] by (auto simp: R)
    then have "ptm_ok HHDM st' R n'" using he he' by (intro ptm_okI [OF a(3)]) simp_all
    moreover have "translate HHDM st' r' v =
        (if same_page v virt \<and> (r' = r \<or> bit virt 47) then Inr (phys + (v AND 0xFFF)) else translate HHDM st r' v)"
      if "r' \<in> R" for r' v
    proof -
      have r': "ty r' = Some (Some r', [])" using that R by simp
      show ?thesis
        unfolding translate_def x86.translate_leaf [OF a(3) up [OF r']] x86.translate_leaf [OF inv r']
        using lf r' e(1) by (auto simp: same_entry_kernel)
    qed
    ultimately show ?thesis using a(1,2) by (auto simp: arch_ptm_map_def)
  qed (simp add: arch_ptm_map_def)
qed

text \<open>C3: with three free frames mapping a page succeeds (with fewer it may panic); afterwards the page
  translates to the frame in this map, and in every map when the page is in the kernel half, and
  every other translation of every map is what it was.\<close>

theorem arch_ptm_map_correct:
  assumes "ptm_ok HHDM st R n" "r \<in> R" "page_addr_ok phys" "virt mod 0x1000 = 0" "phys mod 0x1000 = 0"
  shows "case arch_ptm_map pmm_alloc_frame HHDM st r virt phys 0x1000 of
      Inl e \<Rightarrow> e = Panic \<and> n < 3
    | Inr st' \<Rightarrow> (\<exists>n'. n \<le> n' + 3 \<and> ptm_ok HHDM st' R n') \<and>
        (\<forall>r' \<in> R. \<forall>v. translate HHDM st' r' v =
           (if same_page v virt \<and> (r' = r \<or> bit virt 47) then Inr (phys + (v AND 0xFFF)) else translate HHDM st r' v))"
  using assms by (rule map_ok)

text \<open>Unmapping never faults; afterwards the page has no translation in this map, nor in any
  map when it is in the kernel half, and every other translation is what it was.\<close>

theorem arch_ptm_unmap_correct:
  assumes "ptm_ok HHDM st R n" "r \<in> R" "virt mod 0x1000 = 0" "phys mod 0x1000 = 0"
  shows "\<exists>st'. arch_ptm_unmap pmm_alloc_frame HHDM st r virt phys 0x1000 = Inr st' \<and> ptm_ok HHDM st' R n \<and>
    (\<forall>r' \<in> R. \<forall>v. translate HHDM st' r' v =
       (if same_page v virt \<and> (r' = r \<or> bit virt 47) then Inr BAD_ADDRESS else translate HHDM st r' v))"
proof -
  obtain U ty where inv: "pt_inv kernel_half pmm_frames HHDM U n ty st" and he: "length (higher_half_entries st) = 256"
    and R: "R = {r. ty r = Some (Some r, [])}" using assms(1) by (auto simp: ptm_ok_def)
  have r: "ty r = Some (Some r, [])" using assms(2) R by simp
  have nz: "(0x1000 :: u64) \<noteq> 0" by simp
  from x86.unmap_at_spec [OF inv r nz assms(3,4)] obtain st' where
    a: "ptm_unmap_at pmm_alloc_frame HHDM st r virt phys 0x1000 = Inr st'"
      "pt_inv kernel_half pmm_frames HHDM U n ty st'" "higher_half_entries st' = higher_half_entries st"
      and lf: "\<forall>r' v. ty r' = Some (Some r', []) \<longrightarrow> leaf (pt_mem st') HHDM r' (page_path v) =
          (if same_entry kernel_half r' v r virt then None else leaf (pt_mem st) HHDM r' (page_path v))" by blast
  have "translate HHDM st' r' v =
      (if same_page v virt \<and> (r' = r \<or> bit virt 47) then Inr BAD_ADDRESS else translate HHDM st r' v)"
    if "r' \<in> R" for r' v
  proof -
    have r': "ty r' = Some (Some r', [])" using that R by simp
    show ?thesis
      unfolding translate_def x86.translate_leaf [OF a(2) r'] x86.translate_leaf [OF inv r']
      using lf r' by (auto simp: same_entry_kernel)
  qed
  moreover have "ptm_ok HHDM st' R n" using a R he by (auto simp: ptm_ok_def)
  ultimately show ?thesis using a(1) by (auto simp: arch_ptm_unmap_def)
qed

text \<open>A frame taken for data leaves the maps as they are.\<close>

lemma data_frame_ok:
  assumes "ptm_ok HHDM st R n" "0 < n"
  shows "\<exists>a f. pmm_alloc_frame (pt_al st) = Inr (a, f) \<and> frame_ok f \<and> f \<noteq> 0 \<and>
    ptm_ok HHDM (st\<lparr>pt_al := a\<rparr>) R (n - 1) \<and>
    (\<forall>r \<in> R. \<forall>v. translate HHDM (st\<lparr>pt_al := a\<rparr>) r v = translate HHDM st r v)"
proof -
  obtain U ty where inv: "pt_inv kernel_half pmm_frames HHDM U n ty st" and he: "length (higher_half_entries st) = 256"
    and R: "R = {r. ty r = Some (Some r, [])}" using assms(1) by (auto simp: ptm_ok_def)
  note I = pt_invD [OF inv]
  obtain a f where f: "pmm_alloc_frame (pt_al st) = Inr (a, f)" "pmm_frames a (insert f U) (n - 1)" "frame_ok f" "f \<noteq> 0"
    using pmm.alloc_frame [OF I(2) assms(2)] by blast
  have ty: "typed HHDM (insert f U) ty"
    unfolding typed_def
  proof (intro conjI allI impI)
    show "t - HHDM \<in> insert f U" "frame_ok (t - HHDM)" "length (snd d) \<le> 3" "d \<noteq> (None, [])" if "ty t = Some d" for t d
      using typedD [OF I(3) that] by simp_all
  qed (use typed_inj [OF I(3)] typed_root [OF I(3)] typed_parent [OF I(3)] in blast)+
  have inv': "pt_inv kernel_half pmm_frames HHDM (insert f U) (n - 1) ty (st\<lparr>pt_al := a\<rparr>)"
    using I(1,4,5) f(2) ty by (simp add: pt_inv_def shared_def he_entry_def)
  have "ptm_ok HHDM (st\<lparr>pt_al := a\<rparr>) R (n - 1)" by (rule ptm_okI [OF inv']) (use he R in auto)
  moreover have "translate HHDM (st\<lparr>pt_al := a\<rparr>) r v = translate HHDM st r v" if "r \<in> R" for r v
    using that R x86.translate_leaf [OF inv', of r v] x86.translate_leaf [OF inv, of r v] by (simp add: translate_def)
  ultimately show ?thesis using f by blast
qed

section \<open>New maps\<close>

definition copied :: "'s ptm \<Rightarrow> uptr \<Rightarrow> nat \<Rightarrow> u64 \<Rightarrow> pte_t" where
  "copied st p k i = (if 256 \<le> unat i \<and> unat i < 256 + k then he_entry st i else pt_mem st p i)"

lemma new_map_copy:
  assumes "k \<le> 256"
  shows "foldl (\<lambda>s i. pt_write p (of_nat (i + 256)) (higher_half_entries s ! i) s) st [0..<k] =
    st\<lparr>pt_mem := (pt_mem st)(p := copied st p k)\<rparr>"
  using assms
proof (induction k)
  case 0
  have "copied st p 0 = pt_mem st p" by (intro ext) (auto simp: copied_def)
  then show ?case by simp
next
  case (Suc k)
  have u: "unat (of_nat (k + 256) :: u64) = k + 256" using Suc.prems by (intro unat_of_nat_small) simp
  have "copied st p (Suc k) = (copied st p k)(of_nat (k + 256) := higher_half_entries st ! k)"
  proof
    fix i :: u64
    have "i = of_nat (k + 256) \<longleftrightarrow> unat i = k + 256" using u by (metis word_unat_eq_iff)
    then show "copied st p (Suc k) i = ((copied st p k)(of_nat (k + 256) := higher_half_entries st ! k)) i"
      by (auto simp: he_entry_def copied_def)
  qed
  moreover have "foldl (\<lambda>s i. pt_write p (of_nat (i + 256)) (higher_half_entries s ! i) s) st [0..<Suc k] =
      pt_write p (of_nat (k + 256)) (higher_half_entries st ! k) (st\<lparr>pt_mem := (pt_mem st)(p := copied st p k)\<rparr>)"
    using Suc.IH Suc.prems by (simp only: upt_Suc_append foldl_append foldl.simps le0 Suc_leD) simp
  moreover have "pt_write p i e (st\<lparr>pt_mem := (pt_mem st)(p := g)\<rparr>) = st\<lparr>pt_mem := (pt_mem st)(p := g(i := e))\<rparr>" for i e g
    by (simp add: pt_write_def)
  ultimately show ?case by (simp only:)
qed

lemma new_map_ok:
  assumes "ptm_ok HHDM st R n" "0 < n"
  shows "\<exists>st' r. arch_ptm_new_map pmm_alloc_frame HHDM st = Inr (st', r) \<and> r \<notin> R \<and> ptm_ok HHDM st' (insert r R) (n - 1) \<and>
    (\<forall>v. \<not> bit v 47 \<longrightarrow> translate HHDM st' r v = Inr BAD_ADDRESS) \<and>
    (\<forall>v. \<forall>r' \<in> R. translate HHDM st' r' v = translate HHDM st r' v \<and>
       (bit v 47 \<longrightarrow> translate HHDM st' r v = translate HHDM st' r' v))"
proof -
  obtain U ty where inv: "pt_inv kernel_half pmm_frames HHDM U n ty st" and he: "length (higher_half_entries st) = 256"
    and R: "R = {r. ty r = Some (Some r, [])}" using assms(1) by (auto simp: ptm_ok_def)
  obtain a f where f: "pmm_alloc_frame (pt_al st) = Inr (a, f)" "pmm_frames a (insert f U) (n - 1)" "f \<notin> U" "frame_ok f"
    using pmm.alloc_frame [OF pt_invD(2) [OF inv] assms(2)] by blast
  let ?r = "f + HHDM" and ?ty = "ty(f + HHDM \<mapsto> (Some (f + HHDM), []))"
  define st1 where "st1 = pt_zero ?r (st\<lparr>pt_al := a\<rparr>)"
  define st' where "st' = st1\<lparr>pt_mem := (pt_mem st1)(?r := copied st1 ?r 256)\<rparr>"
  have run: "arch_ptm_new_map pmm_alloc_frame HHDM st = Inr (st', ?r)"
    using f(1) new_map_copy [of 256 ?r st1]
    by (simp add: arch_ptm_new_map_def pt_alloc_def Let_def st1_def st'_def)
  have mem: "\<And>t. t \<noteq> ?r \<Longrightarrow> pt_mem st' t = pt_mem st t"
    "\<And>i. i < 512 \<Longrightarrow> pt_mem st' ?r i = (if kernel_half i then he_entry st i else 0)"
    by (auto simp: st'_def st1_def pt_zero_def copied_def he_entry_def kernel_half_def word_le_nat_alt word_less_nat_alt)
  have fields: "pt_al st' = a" "higher_half_entries st' = higher_half_entries st"
    by (simp_all add: st'_def st1_def pt_zero_def)
  from x86.add_root [OF inv f(2-4) mem fields]
  have new: "pt_inv kernel_half pmm_frames HHDM (insert f U) (n - 1) ?ty st'" "ty ?r = None"
    "\<And>v. \<not> kernel_half (table_entries v ! 3) \<Longrightarrow> leaf (pt_mem st') HHDM ?r (page_path v) = None"
    "\<And>x v. ty x = Some (Some x, []) \<Longrightarrow> leaf (pt_mem st') HHDM x (page_path v) = leaf (pt_mem st) HHDM x (page_path v)"
    by blast+
  have "ptm_ok HHDM st' (insert ?r R) (n - 1)"
    by (rule ptm_okI [OF new(1)]) (use he fields R in auto)
  moreover have "?r \<notin> R" using new(2) R by simp
  moreover have "translate HHDM st' ?r v = Inr BAD_ADDRESS" if "\<not> bit v 47" for v
    using that new(3) [of v] x86.translate_leaf [OF new(1)] by (simp add: translate_def kernel_half_def kernel_index)
  moreover have "translate HHDM st' r' v = translate HHDM st r' v \<and>
      (bit v 47 \<longrightarrow> translate HHDM st' ?r v = translate HHDM st' r' v)" if "r' \<in> R" for r' v
  proof -
    have r': "ty r' = Some (Some r', [])" "?ty r' = Some (Some r', [])" using that R new(2) by auto
    have "bit v 47 \<Longrightarrow> leaf (pt_mem st') HHDM ?r (page_path v) = leaf (pt_mem st') HHDM r' (page_path v)"
      using x86.shared_leaf [OF new(1) r'(2), of ?r v] by (simp add: kernel_half_def kernel_index)
    then show ?thesis
      unfolding translate_def x86.translate_leaf [OF new(1) r'(2)] x86.translate_leaf [OF inv r'(1)] new(4) [OF r'(1)]
      using x86.translate_leaf [OF new(1), of ?r v] new(4) [OF r'(1)] by simp
  qed
  ultimately show ?thesis using run by blast
qed

text \<open>C9: with a free frame a new map is created; it translates no address of the user half, shares
  the kernel half with every other map, and the other maps are unchanged.\<close>

theorem arch_ptm_new_map_correct:
  assumes "ptm_ok HHDM st R n" "0 < n"
  shows "\<exists>st' r. arch_ptm_new_map pmm_alloc_frame HHDM st = Inr (st', r) \<and> r \<notin> R \<and> ptm_ok HHDM st' (insert r R) (n - 1) \<and>
    (\<forall>v. \<not> bit v 47 \<longrightarrow> translate HHDM st' r v = Inr BAD_ADDRESS) \<and>
    (\<forall>v. \<forall>r' \<in> R. translate HHDM st' r' v = translate HHDM st r' v \<and>
       (bit v 47 \<longrightarrow> translate HHDM st' r v = translate HHDM st' r' v))"
  using assms by (rule new_map_ok)

section \<open>Initialisation\<close>

text \<open>After \<open>k\<close> rounds the first \<open>k\<close> entries lead to fresh empty tables.\<close>

definition partial_half :: "nat \<Rightarrow> u64 \<Rightarrow> bool" where
  "partial_half k i \<longleftrightarrow> 256 \<le> unat i \<and> unat i < 256 + k"

definition shared_tables :: "uptr \<Rightarrow> nat \<Rightarrow> (uptr \<rightharpoonup> ident) \<Rightarrow> bool" where
  "shared_tables HHDM k ty \<longleftrightarrow> (\<forall>t d. ty t = Some d \<longrightarrow> (\<exists>i. d = (None, [i]) \<and> partial_half k i))"

lemma init_entry:
  assumes inv: "pt_inv (partial_half k) pmm_frames HHDM U n ty st" and k: "k < 256" and sh: "shared_tables HHDM k ty"
    and zero: "\<forall>t i. ty t \<noteq> None \<longrightarrow> pt_mem st t i = 0" and he: "length (higher_half_entries st) = 256" and n: "0 < n"
  shows "\<exists>st' U' ty'. (\<forall>is. ptm_init_entries pmm_alloc_frame HHDM st (k # is) = ptm_init_entries pmm_alloc_frame HHDM st' is) \<and>
    pt_inv (partial_half (Suc k)) pmm_frames HHDM U' (n - 1) ty' st' \<and> shared_tables HHDM (Suc k) ty' \<and>
    (\<forall>t i. ty' t \<noteq> None \<longrightarrow> pt_mem st' t i = 0) \<and> length (higher_half_entries st') = 256"
proof -
  note I = pt_invD [OF inv]
  obtain a f where f: "pmm_alloc_frame (pt_al st) = Inr (a, f)" "pmm_frames a (insert f U) (n - 1)" "f \<notin> U"
    "frame_ok f" "f \<noteq> 0" using pmm.alloc_frame [OF I(2) n] by blast
  let ?e = "f OR PRESENT OR WRITE OR GLOBAL" and ?i = "of_nat (k + 256) :: u64"
  define st' where "st' = (pt_zero (f + HHDM) (st\<lparr>pt_al := a\<rparr>))\<lparr>higher_half_entries := (higher_half_entries st)[k := ?e]\<rparr>"
  let ?ty = "ty(f + HHDM \<mapsto> (None, [?i]))"
  have ui: "unat ?i = k + 256" using k by (intro unat_of_nat_small) simp
  have e: "PTE_GET_ADDR ?e = f" "pte_present ?e"
    by (rule pte_or_flags [OF f(4) [unfolded frame_ok_def, THEN conjunct1]];
        simp add: PTE_GET_ADDR_def pte_present_def PRESENT_def WRITE_def GLOBAL_def)+
  have fresh: "ty (f + HHDM) = None" using typedD(1) [OF I(3), of "f + HHDM"] f(3) by (cases "ty (f + HHDM)") auto
  have run: "ptm_init_entries pmm_alloc_frame HHDM st (k # is) = ptm_init_entries pmm_alloc_frame HHDM st' is" for "is"
    using f by (simp add: pt_alloc_def Let_def st'_def pt_zero_def)
  have none: "\<forall>c. ty c \<noteq> Some (None, [?i])"
    using sh ui unfolding shared_tables_def partial_half_def by fastforce
  have sh': "shared_tables HHDM (Suc k) ?ty"
    using sh ui unfolding shared_tables_def partial_half_def by (auto split: if_splits) fastforce
  have zero': "\<forall>t i. ?ty t \<noteq> None \<longrightarrow> pt_mem st' t i = 0"
    using zero by (simp add: st'_def pt_zero_def)
  have "typed HHDM (insert f U) ?ty"
    by (rule typed_new [OF I(3) f(4,3) _ _ none]) auto
  moreover have "linked (partial_half (Suc k)) HHDM ?ty (pt_mem st')"
    unfolding linked_def
  proof (intro allI impI)
    fix t d and i :: u64 and c
    assume t: "?ty t = Some d"
    obtain j where d: "d = (None, [j])" using sh' t unfolding shared_tables_def by blast
    have "?ty c \<noteq> Some (child (partial_half (Suc k)) d i)"
      using sh' d unfolding shared_tables_def child_def by fastforce
    moreover have "pt_mem st' t i = 0" using zero' t by blast
    ultimately show "?ty c = Some (child (partial_half (Suc k)) d i) \<longleftrightarrow>
        pte_present (pt_mem st' t i) \<and> c = next_table HHDM (pt_mem st' t i)" by (simp add: pte_present_def)
  qed
  moreover have "shared (partial_half (Suc k)) HHDM ?ty st'"
    unfolding shared_def
  proof (intro allI impI)
    fix i :: u64
    assume i: "i < 512" "partial_half (Suc k) i"
    show "pte_present (he_entry st' i) \<and> ?ty (next_table HHDM (he_entry st' i)) = Some (None, [i])"
    proof (cases "partial_half k i")
      case True
      then have "he_entry st' i = he_entry st i" by (auto simp: he_entry_def st'_def partial_half_def)
      then show ?thesis using sharedD [OF I(5) i(1) True] fresh by auto
    next
      case False
      then have "unat i = k + 256" using i(2) by (auto simp: partial_half_def)
      then have "i = ?i" "he_entry st' i = ?e" using ui he k by (auto simp: word_unat_eq_iff he_entry_def st'_def)
      then show ?thesis using e by (simp add: next_table_def)
    qed
  qed
  ultimately have "pt_inv (partial_half (Suc k)) pmm_frames HHDM (insert f U) (n - 1) ?ty st'"
    using I(1) f(2) by (simp add: pt_inv_def) (simp add: st'_def pt_zero_def)
  then show ?thesis using run sh' zero' he by (intro exI [of _ st'] exI [of _ "insert f U"] exI [of _ ?ty]) (simp add: st'_def pt_zero_def)
qed

lemma init_entries:
  assumes "pt_inv (partial_half k) pmm_frames HHDM U n ty st" "shared_tables HHDM k ty"
    "\<forall>t i. ty t \<noteq> None \<longrightarrow> pt_mem st t i = 0" "length (higher_half_entries st) = 256" "k + m = 256" "m \<le> n"
  shows "\<exists>st' U' ty'. ptm_init_entries pmm_alloc_frame HHDM st [k..<256] = Inr st' \<and>
    pt_inv (partial_half 256) pmm_frames HHDM U' (n - m) ty' st' \<and> shared_tables HHDM 256 ty' \<and> length (higher_half_entries st') = 256"
  using assms
proof (induction m arbitrary: k U n ty st)
  case 0
  then show ?case by auto
next
  case (Suc m)
  then have k: "k < 256" "0 < n" by auto
  then have u: "[k..<256] = k # [Suc k..<256]" by (simp add: upt_conv_Cons)
  from init_entry [OF Suc.prems(1) k(1) Suc.prems(2-4) k(2)] obtain st1 U1 ty1 where
    s: "\<forall>is. ptm_init_entries pmm_alloc_frame HHDM st (k # is) = ptm_init_entries pmm_alloc_frame HHDM st1 is"
    "pt_inv (partial_half (Suc k)) pmm_frames HHDM U1 (n - 1) ty1 st1" "shared_tables HHDM (Suc k) ty1"
    "\<forall>t i. ty1 t \<noteq> None \<longrightarrow> pt_mem st1 t i = 0" "length (higher_half_entries st1) = 256" by blast
  have "Suc k + m = 256" "m \<le> n - 1" using Suc.prems by auto
  from Suc.IH [OF s(2-5) this] show ?case unfolding u s(1) [rule_format] by simp
qed

lemma init_ok:
  assumes "hhdm_ok HHDM" "pmm_frames (pt_al st) U n" "256 \<le> n" "length (higher_half_entries st) = 256"
  shows "\<exists>st'. arch_ptm_init pmm_alloc_frame HHDM st = Inr st' \<and> ptm_ok HHDM st' {} (n - 256)"
proof -
  have "pt_inv (partial_half 0) pmm_frames HHDM U n Map.empty st"
    using assms(1,2) by (simp add: pt_inv_def typed_def linked_def shared_def partial_half_def)
  from init_entries [OF this _ _ assms(4) _ assms(3)] obtain st' U' ty' where
    s: "ptm_init_entries pmm_alloc_frame HHDM st [0..<256] = Inr st'"
    "pt_inv (partial_half 256) pmm_frames HHDM U' (n - 256) ty' st'" "shared_tables HHDM 256 ty'"
    "length (higher_half_entries st') = 256" by (auto simp: shared_tables_def)
  have "child (partial_half 256) d i = child kernel_half d i" if "i < 512" for d i
    using that by (auto simp: child_def partial_half_def kernel_half_def word_le_nat_alt word_less_nat_alt)
  then have "linked kernel_half HHDM ty' (pt_mem st')" using pt_invD(4) [OF s(2)] by (simp add: linked_def)
  moreover have "shared kernel_half HHDM ty' st'"
    using pt_invD(5) [OF s(2)] by (simp add: shared_def partial_half_def kernel_half_def word_le_nat_alt word_less_nat_alt)
  ultimately have "pt_inv kernel_half pmm_frames HHDM U' (n - 256) ty' st'" using s(2) by (simp add: pt_inv_def)
  then have "ptm_ok HHDM st' {} (n - 256)"
    by (rule ptm_okI [OF _ s(4)]) (use s(3) in \<open>auto simp: shared_tables_def\<close>)
  then show ?thesis using s(1) by (auto simp: arch_ptm_init_def)
qed

text \<open>With 256 free frames the initialisation succeeds: it uses exactly 256 frames, for the shared
  tables of the kernel half, and leaves page tables with no maps.\<close>

theorem arch_ptm_init_correct:
  assumes "hhdm_ok HHDM" "pmm_frames (pt_al st) U n" "256 \<le> n" "length (higher_half_entries st) = 256"
  shows "\<exists>st'. arch_ptm_init pmm_alloc_frame HHDM st = Inr st' \<and> ptm_ok HHDM st' {} (n - 256)"
  using assms by (rule init_ok)

section \<open>Clearing a map\<close>

text \<open>A release function that only records the frames it is given.\<close>

definition log_free :: "uptr list frame_free" where
  "log_free fs phys = Inr (fs @ [phys])"

lemma pt_free_log: "pt_free log_free st phys = Inr (st\<lparr>pt_al := pt_al st @ [phys]\<rparr>)"
  by (simp add: pt_free_def log_free_def)

text \<open>The entries of the tables name addresses within the direct map.\<close>

definition in_direct_map :: "pte_t \<Rightarrow> bool" where
  "in_direct_map e \<longleftrightarrow> unat (PTE_GET_ADDR e) < 2 ^ 47"

lemma next_nonzero:
  assumes "hhdm_ok HHDM" "unat f < 2 ^ 47"
  shows "f + HHDM \<noteq> 0"
proof
  assume z: "f + HHDM = 0"
  have "unat (f + HHDM) = unat f + unat HHDM" using assms by (intro unat_add_nowrap) (simp add: hhdm_ok_def)
  then show False using assms(1) z by (simp add: hhdm_ok_def unat_eq_zero)
qed

lemma delete_below_log:
  assumes "hhdm_ok HHDM" "lvl \<noteq> 0" "\<forall>t i. in_direct_map (pt_mem st t i)"
  shows "\<exists>L. delete_below k skip log_free HHDM st lvl = Inr (st\<lparr>pt_al := pt_al st @ L @ [lvl - HHDM]\<rparr>) \<and>
    (0 < k \<longrightarrow> (\<forall>i < 512. \<not> skip (pt_mem st lvl (of_nat i)) \<longrightarrow> PTE_GET_ADDR (pt_mem st lvl (of_nat i)) \<in> set L))"
  using assms(2,3)
proof (induction k arbitrary: st lvl)
  case 0
  then show ?case by (auto simp: pt_free_log intro!: exI [of _ "[]"])
next
  case (Suc k)
  note IH = Suc.IH
  have lvl: "lvl \<noteq> 0" by (rule Suc.prems)
  have mapped: "\<forall>t i. in_direct_map (pt_mem st t i)" by (rule Suc.prems)
  define body where "body = (\<lambda>s i. rbind (pt_read s lvl i) (\<lambda>entry.
      if skip entry then Inr s else delete_below k skip log_free HHDM s (PTE_GET_ADDR entry + HHDM)))"
  have loop: "\<exists>L. for_each body (map of_nat [0..<j]) st = Inr (st\<lparr>pt_al := pt_al st @ L\<rparr>) \<and>
    (\<forall>i < j. \<not> skip (pt_mem st lvl (of_nat i)) \<longrightarrow> PTE_GET_ADDR (pt_mem st lvl (of_nat i)) \<in> set L)" for j
  proof (induction j)
    case 0
    show ?case by (auto intro!: exI [of _ "[]"])
  next
    case (Suc j)
    then obtain L where L: "for_each body (map of_nat [0..<j]) st = Inr (st\<lparr>pt_al := pt_al st @ L\<rparr>)"
      "\<forall>i < j. \<not> skip (pt_mem st lvl (of_nat i)) \<longrightarrow> PTE_GET_ADDR (pt_mem st lvl (of_nat i)) \<in> set L" by blast
    let ?s = "st\<lparr>pt_al := pt_al st @ L\<rparr>" and ?e = "pt_mem st lvl (of_nat j)"
    show ?case
    proof (cases "skip ?e")
      case True
      then have "body ?s (of_nat j) = Inr ?s" using lvl by (simp add: body_def pt_read_def)
      then show ?thesis using L True by (auto simp: less_Suc_eq intro!: exI [of _ L])
    next
      case False
      obtain M where "delete_below k skip log_free HHDM ?s (PTE_GET_ADDR ?e + HHDM) =
          Inr (?s\<lparr>pt_al := pt_al ?s @ M @ [PTE_GET_ADDR ?e + HHDM - HHDM]\<rparr>)"
        using IH [OF next_nonzero [OF assms(1)], of "PTE_GET_ADDR ?e" ?s] mapped by (auto simp: in_direct_map_def)
      then have "body ?s (of_nat j) = Inr (st\<lparr>pt_al := pt_al st @ (L @ M @ [PTE_GET_ADDR ?e])\<rparr>)"
        using False lvl by (simp add: body_def pt_read_def)
      then show ?thesis using L by (intro exI [of _ "L @ M @ [PTE_GET_ADDR ?e]"]) (auto simp: less_Suc_eq)
    qed
  qed
  obtain L where "for_each body (map of_nat [0..<512]) st = Inr (st\<lparr>pt_al := pt_al st @ L\<rparr>)"
    "\<forall>i < 512. \<not> skip (pt_mem st lvl (of_nat i)) \<longrightarrow> PTE_GET_ADDR (pt_mem st lvl (of_nat i)) \<in> set L" using loop by blast
  moreover have "delete_below (Suc k) skip log_free HHDM st lvl =
      rbind (for_each body (map of_nat [0..<512]) st) (\<lambda>s. pt_free log_free s (lvl - HHDM))"
    by (simp only: delete_below.simps body_def)
  ultimately show ?case by (auto simp: pt_free_log simp del: delete_below.simps intro!: exI [of _ L])
qed

text \<open>\<^verbatim>\<open>arch_ptm_clear_map\<close> of x86-64 also releases the tables of the kernel half that all maps share:
  cleared right after its creation, a map has every shared frame given back to the allocator,
  while \<^verbatim>\<open>higher_half_entries\<close>, from which the next map is built, still names them.\<close>

theorem arch_ptm_clear_map_frees_shared:
  assumes "hhdm_ok HHDM" "i < 256" "al (pt_al st) = Inr (a, f)" "frame_ok f"
    "\<forall>t i. in_direct_map (pt_mem st t i)" "\<forall>e \<in> set (higher_half_entries st). in_direct_map e"
    "length (higher_half_entries st) = 256" "pte_present (higher_half_entries st ! i)" "higher_half_entries st ! i AND HUGE = 0"
  shows "\<exists>st1 r st2 L. arch_ptm_new_map al HHDM st = Inr (st1, r) \<and>
    arch_ptm_clear_map log_free HHDM st1 r = Inr st2 \<and> pt_al st2 = a @ L \<and>
    PTE_GET_ADDR (higher_half_entries st ! i) \<in> set L \<and> higher_half_entries st2 = higher_half_entries st"
proof -
  let ?r = "f + HHDM"
  define st0 where "st0 = pt_zero ?r (st\<lparr>pt_al := a\<rparr>)"
  define st1 where "st1 = st0\<lparr>pt_mem := (pt_mem st0)(?r := copied st0 ?r 256)\<rparr>"
  have new: "arch_ptm_new_map al HHDM st = Inr (st1, ?r)"
    using assms(3) new_map_copy [of 256 ?r st0] by (simp add: arch_ptm_new_map_def pt_alloc_def Let_def st0_def st1_def)
  have r: "?r \<noteq> 0" using next_nonzero [OF assms(1), of f] assms(4) by (simp add: frame_ok_def)
  have "in_direct_map (copied st0 ?r 256 j)" for j
    using assms(5-7) by (auto simp: copied_def he_entry_def st0_def pt_zero_def in_direct_map_def PTE_GET_ADDR_def)
  then have "\<forall>t j. in_direct_map (pt_mem st1 t j)"
    using assms(5) by (auto simp: st1_def st0_def pt_zero_def)
  from delete_below_log [OF assms(1) r this, of 3 "\<lambda>e. \<not> pte_present e \<or> e AND HUGE \<noteq> 0"] obtain L where
    L: "delete_below 3 (\<lambda>e. \<not> pte_present e \<or> e AND HUGE \<noteq> 0) log_free HHDM st1 ?r =
        Inr (st1\<lparr>pt_al := pt_al st1 @ L @ [?r - HHDM]\<rparr>)"
      "\<forall>j < 512. pte_present (pt_mem st1 ?r (of_nat j)) \<and> pt_mem st1 ?r (of_nat j) AND HUGE = 0 \<longrightarrow>
         PTE_GET_ADDR (pt_mem st1 ?r (of_nat j)) \<in> set L" by auto
  have u: "unat (of_nat (i + 256) :: u64) = i + 256" using assms(2) by (intro unat_of_nat_small) simp
  have "pt_mem st1 ?r (of_nat (i + 256)) = copied st0 ?r 256 (of_nat (i + 256))" by (simp add: st1_def)
  also have "\<dots> = higher_half_entries st ! i"
    unfolding copied_def he_entry_def u using assms(2) by (simp add: st0_def pt_zero_def)
  finally have "PTE_GET_ADDR (higher_half_entries st ! i) \<in> set L"
    using L(2) [rule_format, of "i + 256"] assms(2,8,9) by simp
  moreover have "arch_ptm_clear_map log_free HHDM st1 ?r = Inr (st1\<lparr>pt_al := pt_al st1 @ L @ [?r - HHDM]\<rparr>)"
    using L(1) by (simp add: arch_ptm_clear_map_def delete_level_def)
  ultimately show ?thesis using new by (auto simp: st1_def st0_def pt_zero_def)
qed

section \<open>AArch64\<close>

definition aarch64_flags :: u64 where "aarch64_flags = PRESENT OR TABLE_aarch64"

lemma aarch64_flags_ok: "PTE_GET_ADDR aarch64_flags = 0" "pte_present aarch64_flags"
  by (simp_all add: PTE_GET_ADDR_def pte_present_def aarch64_flags_def PRESENT_def TABLE_aarch64_def)

interpretation a64: page_tables pmm_frames pmm_alloc_frame "\<lambda>_. False" aarch64_flags
  by unfold_locales (simp_all add: aarch64_flags_ok)

text \<open>The page tables hold the roots \<open>R\<close>, among them the shared one for the addresses with bit 63.\<close>

definition ptm_ok_aarch64 :: "uptr \<Rightarrow> pmm_t ptm \<Rightarrow> uptr set \<Rightarrow> nat \<Rightarrow> bool" where
  "ptm_ok_aarch64 HHDM st R n \<longleftrightarrow>
     (\<exists>U ty. pt_inv (\<lambda>_. False) pmm_frames HHDM U n ty st \<and> higher_half_pml4 st \<in> R \<and>
        (\<forall>r. r \<in> R \<longleftrightarrow> ty r = Some (Some r, [])))"

text \<open>The table entry that governs an address, if the walk reaches one that is present.\<close>

definition entry_aarch64 :: "uptr \<Rightarrow> pmm_t ptm \<Rightarrow> arch_ptm_map_t_aarch64 \<Rightarrow> uptr \<Rightarrow> pte_t option" where
  "entry_aarch64 HHDM st mp v = leaf (pt_mem st) HHDM (root_of mp v) (page_path v)"

lemma walk_unchecked_spec:
  assumes inv: "pt_inv (\<lambda>_. False) pmm_frames HHDM U n ty st"
  shows "ty t = Some d \<Longrightarrow> length (snd d) + length is \<le> 3 \<Longrightarrow> \<forall>i \<in> set is. i < 512 \<Longrightarrow>
    leaf (pt_mem st) HHDM t (is @ [j]) = Some e \<Longrightarrow>
    \<exists>c. walk_unchecked pmm_alloc_frame HHDM st t is = Inr c \<and> c \<noteq> 0 \<and> pt_mem st c j = e"
proof (induction "is" arbitrary: t d)
  case Nil
  then show ?case using typed_nonzero [OF pt_invD(1,3) [OF inv]] by (auto split: if_splits)
next
  case (Cons i "is")
  have p: "pte_present (pt_mem st t i)" using Cons.prems(4) by (auto split: if_splits)
  then have "ty (next_table HHDM (pt_mem st t i)) = Some (child (\<lambda>_. False) d i)"
    using linkedD [OF pt_invD(4) [OF inv] Cons.prems(1), of i] Cons.prems by simp
  then obtain c where "walk_unchecked pmm_alloc_frame HHDM st (next_table HHDM (pt_mem st t i)) is = Inr c" "c \<noteq> 0" "pt_mem st c j = e"
    using Cons.IH [of "next_table HHDM (pt_mem st t i)" "child (\<lambda>_. False) d i"] Cons.prems p by (auto simp: child_def)
  then show ?case using p a64.get_next_level_find [OF inv Cons.prems(1)] by simp
qed

lemma ptm_ok_aarch64I:
  assumes "pt_inv (\<lambda>_. False) pmm_frames HHDM U n ty st" "higher_half_pml4 st \<in> R"
    "\<And>x. x \<in> R \<longleftrightarrow> ty x = Some (Some x, [])"
  shows "ptm_ok_aarch64 HHDM st R n"
  unfolding ptm_ok_aarch64_def using assms by blast

lemma virt_to_phys_entry:
  assumes inv: "pt_inv (\<lambda>_. False) pmm_frames HHDM U n ty st" and r: "ty (root_of mp v) = Some (Some (root_of mp v), [])"
    and e: "entry_aarch64 HHDM st mp v = Some e"
  shows "arch_ptm_virt_to_phys_aarch64 pmm_alloc_frame HHDM st mp v = Inr (PTE_GET_ADDR e + (v AND 0xFFF))"
proof -
  have "length (snd (Some (root_of mp v), [])) + length (upper_entries v) \<le> 3" by (simp add: page_path_parts)
  from walk_unchecked_spec [OF inv r this page_path_parts(4), of "table_entries v ! 0" e] e
  obtain c where "walk_unchecked pmm_alloc_frame HHDM st (root_of mp v) (upper_entries v) = Inr c" "c \<noteq> 0"
    "pt_mem st c (table_entries v ! 0) = e" by (auto simp: entry_aarch64_def page_path_def)
  then show ?thesis by (simp add: arch_ptm_virt_to_phys_aarch64_def pt_read_def)
qed

text \<open>C35: on AArch64, with three free frames mapping a page succeeds; afterwards the page translates to
  the frame under the root its address selects, and the entries of all other addresses in all
  maps are what they were.\<close>

theorem arch_ptm_map_aarch64_correct:
  assumes "ptm_ok_aarch64 HHDM st R n" "root_of mp virt \<in> R" "page_addr_ok phys" "virt mod 0x1000 = 0" "phys mod 0x1000 = 0"
  shows "case arch_ptm_map_aarch64 pmm_alloc_frame HHDM st mp virt phys 0x1000 of
      Inl e \<Rightarrow> e = Panic \<and> n < 3
    | Inr st' \<Rightarrow> (\<exists>n'. n \<le> n' + 3 \<and> ptm_ok_aarch64 HHDM st' R n') \<and>
        (\<forall>mp' v. root_of mp' v \<in> R \<longrightarrow>
           (if same_page v virt \<and> root_of mp' v = root_of mp virt
            then arch_ptm_virt_to_phys_aarch64 pmm_alloc_frame HHDM st' mp' v = Inr (phys + (v AND 0xFFF))
            else entry_aarch64 HHDM st' mp' v = entry_aarch64 HHDM st mp' v))"
proof -
  obtain U ty where inv: "pt_inv (\<lambda>_. False) pmm_frames HHDM U n ty st" and hh: "higher_half_pml4 st \<in> R"
    and R: "\<And>r. r \<in> R \<longleftrightarrow> ty r = Some (Some r, [])" using assms(1) by (auto simp: ptm_ok_aarch64_def)
  let ?fl = "PRESENT OR PAGE_4K_aarch64 OR ACCESS_aarch64" and ?r = "root_of mp virt"
  have e: "PTE_GET_ADDR (phys OR ?fl) = phys" "pte_present (phys OR ?fl)"
    by (rule pte_or_flags [OF assms(3)];
        simp add: PTE_GET_ADDR_def pte_present_def PRESENT_def PAGE_4K_aarch64_def ACCESS_aarch64_def)+
  have nz: "(0x1000 :: u64) \<noteq> 0" by simp
  from a64.map_at_spec [OF inv R [THEN iffD1, OF assms(2)] nz assms(4,5) e(2)] show ?thesis
  proof (elim disjE exE conjE)
    fix st' U' n' ty'
    assume a: "ptm_map_at aarch64_flags ?fl pmm_alloc_frame HHDM st ?r virt phys 0x1000 = Inr st'" "n \<le> n' + 3"
      "pt_inv (\<lambda>_. False) pmm_frames HHDM U' n' ty' st'" "ty \<subseteq>\<^sub>m ty'"
      and roots: "\<forall>x y. ty' x = Some (Some y, []) \<longrightarrow> ty x = Some (Some y, [])"
      and hh': "higher_half_pml4 st' = higher_half_pml4 st"
      and lf: "\<forall>r' v. ty r' = Some (Some r', []) \<longrightarrow> leaf (pt_mem st') HHDM r' (page_path v) =
          (if same_entry (\<lambda>_. False) r' v ?r virt then Some (phys OR ?fl) else leaf (pt_mem st) HHDM r' (page_path v))"
    have R': "x \<in> R \<longleftrightarrow> ty' x = Some (Some x, [])" for x
      using roots [rule_format, of x x] map_le_Some [OF a(4), of x "(Some x, [])"] R by blast
    then have "ptm_ok_aarch64 HHDM st' R n'" using hh hh' by (intro ptm_ok_aarch64I [OF a(3)]) simp_all
    moreover have "if same_page v virt \<and> root_of mp' v = ?r
        then arch_ptm_virt_to_phys_aarch64 pmm_alloc_frame HHDM st' mp' v = Inr (phys + (v AND 0xFFF))
        else entry_aarch64 HHDM st' mp' v = entry_aarch64 HHDM st mp' v" if r': "root_of mp' v \<in> R" for mp' v
    proof -
      have "entry_aarch64 HHDM st' mp' v = (if same_page v virt \<and> root_of mp' v = ?r then Some (phys OR ?fl)
          else entry_aarch64 HHDM st mp' v)"
        using lf R r' by (simp add: entry_aarch64_def same_entry_def page_path_eq)
      then show ?thesis using virt_to_phys_entry [OF a(3) R' [THEN iffD1, OF r'], of "phys OR ?fl"] e(1) by simp
    qed
    ultimately show ?thesis using a(1,2) unfolding arch_ptm_map_aarch64_def aarch64_flags_def by auto
  qed (simp add: arch_ptm_map_aarch64_def flip: aarch64_flags_def)
qed

text \<open>On AArch64 a fresh map shares the second root, and asking it for the translation of a user
  address dereferences a null table: \<^verbatim>\<open>arch_ptm_virt_to_phys\<close> does not check what the walk returns.\<close>

theorem arch_ptm_virt_to_phys_aarch64_fault:
  assumes "ptm_ok_aarch64 HHDM st R n" "0 < n"
  shows "\<exists>st' mp. arch_ptm_new_map_aarch64 pmm_alloc_frame HHDM st = Inr (st', mp) \<and>
    fst mp \<notin> R \<and> snd mp = higher_half_pml4 st \<and> ptm_ok_aarch64 HHDM st' (insert (fst mp) R) (n - 1) \<and>
    (\<forall>v. \<not> bit v 63 \<longrightarrow> arch_ptm_virt_to_phys_aarch64 pmm_alloc_frame HHDM st' mp v = Inl NullDeref)"
proof -
  obtain U ty where inv: "pt_inv (\<lambda>_. False) pmm_frames HHDM U n ty st" and hh: "higher_half_pml4 st \<in> R"
    and R: "\<And>r. r \<in> R \<longleftrightarrow> ty r = Some (Some r, [])" using assms(1) by (auto simp: ptm_ok_aarch64_def)
  obtain a f where f: "pmm_alloc_frame (pt_al st) = Inr (a, f)" "pmm_frames a (insert f U) (n - 1)" "f \<notin> U" "frame_ok f"
    using pmm.alloc_frame [OF pt_invD(2) [OF inv] assms(2)] by blast
  let ?r = "f + HHDM" and ?mp = "(f + HHDM, higher_half_pml4 st)" and ?ty = "ty(f + HHDM \<mapsto> (Some (f + HHDM), []))"
  define st' where "st' = pt_zero ?r (st\<lparr>pt_al := a\<rparr>)"
  have run: "arch_ptm_new_map_aarch64 pmm_alloc_frame HHDM st = Inr (st', ?mp)"
    using f(1) by (simp add: arch_ptm_new_map_aarch64_def pt_alloc_def st'_def pt_zero_def)
  have mem: "\<And>t. t \<noteq> ?r \<Longrightarrow> pt_mem st' t = pt_mem st t" "\<And>i. i < 512 \<Longrightarrow> pt_mem st' ?r i = (if False then he_entry st i else 0)"
    "pt_al st' = a" "higher_half_entries st' = higher_half_entries st" "higher_half_pml4 st' = higher_half_pml4 st"
    by (simp_all add: st'_def pt_zero_def)
  from a64.add_root [OF inv f(2-4) mem(1-4)]
  have new: "pt_inv (\<lambda>_. False) pmm_frames HHDM (insert f U) (n - 1) ?ty st'" "ty ?r = None" by auto
  have "ptm_ok_aarch64 HHDM st' (insert ?r R) (n - 1)"
    by (rule ptm_ok_aarch64I [OF new(1)]) (use hh R mem(5) in auto)
  moreover have "arch_ptm_virt_to_phys_aarch64 pmm_alloc_frame HHDM st' ?mp v = Inl NullDeref" if "\<not> bit v 63" for v
  proof -
    have "v AND push_bit 63 1 = 0"
    proof (rule bit_eqI)
      fix i
      have "i = 63 \<Longrightarrow> \<not> bit v i" using that by simp
      then show "bit (v AND push_bit 63 1) i \<longleftrightarrow> bit (0 :: u64) i"
        unfolding bit_and_iff bit_push_bit_iff bit_1_iff by (cases "i = 63") auto
    qed
    then have root: "root_of ?mp v = ?r" by (simp only: root_of_def fst_conv simp_thms if_False)
    have "table_entries v ! 3 < 512" using page_path_less [of v] by (simp add: page_path_def upper_entries_def)
    then have "pt_mem st' ?r (table_entries v ! 3) = 0" using mem(2) by simp
    moreover have "?r \<noteq> 0" using typed_nonzero [OF pt_invD(1,3) [OF new(1)], of ?r] by simp
    ultimately have "walk_unchecked pmm_alloc_frame HHDM st' ?r (upper_entries v) = Inl NullDeref"
      by (simp add: upper_entries_def get_next_level_def pt_read_def pte_present_def)
    then show ?thesis by (simp add: arch_ptm_virt_to_phys_aarch64_def root)
  qed
  ultimately show ?thesis using run new(2) R by (intro exI [of _ st'] exI [of _ ?mp]) auto
qed

section \<open>A concrete run\<close>

definition ptm_boot :: "'s \<Rightarrow> 's ptm" where
  "ptm_boot al = \<lparr>pt_al = al, pt_mem = \<lambda>_ _. 0, higher_half_entries = replicate 256 0, higher_half_pml4 = 0\<rparr>"

lemma example_hhdm: "hhdm_ok example_HHDM"
  by (simp add: hhdm_ok_def example_HHDM_def)

lemma example_maps:
  "\<exists>pmm st st1 r. pmm_init example_HHDM memory_map = Some (Inr pmm) \<and>
     arch_ptm_init pmm_alloc_frame example_HHDM (ptm_boot pmm) = Inr st \<and>
     arch_ptm_new_map pmm_alloc_frame example_HHDM st = Inr (st1, r) \<and>
     ptm_ok example_HHDM st {} 758 \<and> ptm_ok example_HHDM st1 {r} 757"
proof -
  obtain pmm U where p: "pmm_init example_HHDM memory_map = Some (Inr pmm)" "pmm_frames pmm U 1014"
    using memory_map_frames by blast
  then obtain st where st: "arch_ptm_init pmm_alloc_frame example_HHDM (ptm_boot pmm) = Inr st" "ptm_ok example_HHDM st {} 758"
    using init_ok [OF example_hhdm, of "ptm_boot pmm" U 1014] by (auto simp: ptm_boot_def)
  then show ?thesis using p(1) new_map_ok [OF st(2)] by auto
qed

theorem arch_ptm_new_map_correct_witness:
  "\<exists>st st' r. ptm_ok example_HHDM st {} 758 \<and> arch_ptm_new_map pmm_alloc_frame example_HHDM st = Inr (st', r) \<and>
     ptm_ok example_HHDM st' {r} 757 \<and> translate example_HHDM st' r 0x400123 = Inr BAD_ADDRESS"
proof -
  obtain st where st: "ptm_ok example_HHDM st {} 758" using example_maps by blast
  have "\<not> bit (0x400123 :: u64) 47" by simp
  with st arch_ptm_new_map_correct [OF st] show ?thesis by auto
qed

theorem arch_ptm_map_correct_witness:
  "\<exists>st st' r. ptm_ok example_HHDM st {r} 757 \<and>
     arch_ptm_map pmm_alloc_frame example_HHDM st r 0x400000 0x200000 0x1000 = Inr st' \<and>
     translate example_HHDM st' r 0x400123 = Inr 0x200123"
proof -
  obtain st r where st: "ptm_ok example_HHDM st {r} 757" using example_maps by blast
  have p: "page_addr_ok 0x200000" "(0x400000 :: u64) mod 0x1000 = 0" "(0x200000 :: u64) mod 0x1000 = 0"
    by (simp_all add: page_addr_ok_def)
  have v: "same_page 0x400123 0x400000" by (simp add: same_page_def)
  from arch_ptm_map_correct [OF st _ p, of r] obtain st' where
    "arch_ptm_map pmm_alloc_frame example_HHDM st r 0x400000 0x200000 0x1000 = Inr st'"
    "\<forall>v. translate example_HHDM st' r v =
      (if same_page v 0x400000 \<and> (r = r \<or> bit (0x400000 :: u64) 47) then Inr (0x200000 + (v AND 0xFFF)) else translate example_HHDM st r v)"
    by (auto split: sum.splits)
  with st v show ?thesis by (intro exI [of _ st] exI [of _ st'] exI [of _ r]) simp
qed

lemma example_aarch64:
  "\<exists>st r. ptm_ok_aarch64 example_HHDM st {r} 1013"
proof -
  obtain pmm U where p: "pmm_frames pmm U 1014" using memory_map_frames by blast
  from pmm.alloc_frame [OF this] obtain a f where f: "pmm_alloc_frame pmm = Inr (a, f)" "pmm_frames a (insert f U) 1013"
    "f \<notin> U" "frame_ok f" by auto
  let ?r = "f + example_HHDM"
  have "pt_inv (\<lambda>_. False) pmm_frames example_HHDM U 1014 Map.empty (ptm_boot pmm)"
    using p example_hhdm by (simp add: pt_inv_def typed_def linked_def shared_def ptm_boot_def)
  from a64.add_root [OF this, of a f "(ptm_boot a)\<lparr>higher_half_pml4 := ?r\<rparr>"] f
  have inv: "pt_inv (\<lambda>_. False) pmm_frames example_HHDM (insert f U) 1013 [?r \<mapsto> (Some ?r, [])] ((ptm_boot a)\<lparr>higher_half_pml4 := ?r\<rparr>)"
    by (auto simp: ptm_boot_def)
  have "ptm_ok_aarch64 example_HHDM ((ptm_boot a)\<lparr>higher_half_pml4 := ?r\<rparr>) {?r} 1013"
    by (rule ptm_ok_aarch64I [OF inv]) auto
  then show ?thesis by blast
qed

theorem arch_ptm_map_aarch64_correct_witness:
  "\<exists>st st' r. ptm_ok_aarch64 example_HHDM st {r} 1013 \<and>
     arch_ptm_map_aarch64 pmm_alloc_frame example_HHDM st (r, r) 0x400000 0x200000 0x1000 = Inr st' \<and>
     arch_ptm_virt_to_phys_aarch64 pmm_alloc_frame example_HHDM st' (r, r) 0x400123 = Inr 0x200123"
proof -
  obtain st r where st: "ptm_ok_aarch64 example_HHDM st {r} 1013" using example_aarch64 by blast
  have r: "root_of (r, r) v = r" for v by (simp add: root_of_def)
  have p: "page_addr_ok 0x200000" "(0x400000 :: u64) mod 0x1000 = 0" "(0x200000 :: u64) mod 0x1000 = 0"
    by (simp_all add: page_addr_ok_def)
  have v: "same_page 0x400123 0x400000" by (simp add: same_page_def)
  from arch_ptm_map_aarch64_correct [OF st _ p, of "(r, r)"] obtain st' where
    s: "arch_ptm_map_aarch64 pmm_alloc_frame example_HHDM st (r, r) 0x400000 0x200000 0x1000 = Inr st'"
    and q: "\<forall>mp' v. root_of mp' v \<in> {r} \<longrightarrow>
           (if same_page v 0x400000 \<and> root_of mp' v = root_of (r, r) 0x400000
            then arch_ptm_virt_to_phys_aarch64 pmm_alloc_frame example_HHDM st' mp' v = Inr (0x200000 + (v AND 0xFFF))
            else entry_aarch64 example_HHDM st' mp' v = entry_aarch64 example_HHDM st mp' v)"
    unfolding r by (auto split: sum.splits)
  have "arch_ptm_virt_to_phys_aarch64 pmm_alloc_frame example_HHDM st' (r, r) 0x400123 = Inr 0x200123"
    using q [rule_format, of "(r, r)" "0x400123"] v by (simp add: r)
  with st s show ?thesis by blast
qed

end
