(* ===== verification/Kstring.thy ===== *)
theory Kstring
  imports Prelude
begin

text \<open>
  The string and memory routines of \<^verbatim>\<open>kernel/src/lib/string.c\<close>, the paths of
  \<^verbatim>\<open>kernel/src/lib/path.c\<close> and the hash of \<^verbatim>\<open>kernel/src/lib/hash.c\<close>, on a memory of bytes.
  A loop over an index is a fold, a loop that only a terminating zero ends is a
  \<open>partial_function\<close>, for which not returning is \<open>None\<close>.  A pointer result is an option, \<open>None\<close>
  being \<open>NULL\<close>.
\<close>

type_synonym bytes = "uptr \<Rightarrow> u8"

section \<open>Copying\<close>

definition copy_byte :: "uptr \<Rightarrow> uptr \<Rightarrow> bytes \<Rightarrow> nat \<Rightarrow> bytes" where
  "copy_byte dest src m i = m(dest + of_nat i := m (src + of_nat i))"

definition set_byte :: "uptr \<Rightarrow> u8 \<Rightarrow> bytes \<Rightarrow> nat \<Rightarrow> bytes" where
  "set_byte s c m i = m(s + of_nat i := c)"

definition memcpy :: "bytes \<Rightarrow> uptr \<Rightarrow> uptr \<Rightarrow> u64 \<Rightarrow> bytes" where
  "memcpy m dest src n = foldl (copy_byte dest src) m [0..<unat n]"

definition memmove :: "bytes \<Rightarrow> uptr \<Rightarrow> uptr \<Rightarrow> u64 \<Rightarrow> bytes" where
  "memmove m dest src n =
     (if dest < src then foldl (copy_byte dest src) m [0..<unat n]
      else if src < dest then foldl (copy_byte dest src) m (rev [0..<unat n])
      else m)"

partial_function (option) strcpy :: "bytes \<Rightarrow> uptr \<Rightarrow> uptr \<Rightarrow> bytes option" where
  "strcpy m dest src =
     (let m1 = m(dest := m src)
      in if m src = 0 then Some m1 else strcpy m1 (dest + 1) (src + 1))"

text \<open>The first loop of \<^verbatim>\<open>strncpy\<close> yields the memory, the next destination and the remaining count.\<close>

function strncpy_copy :: "bytes \<Rightarrow> uptr \<Rightarrow> uptr \<Rightarrow> u64 \<Rightarrow> bytes \<times> uptr \<times> u64" where
  "strncpy_copy m dest src n =
     (if n = 0 then (m, dest, n)
      else let m1 = m(dest := m src)
           in if m src = 0 then (m1, dest + 1, n) else strncpy_copy m1 (dest + 1) (src + 1) (n - 1))"
  by pat_completeness auto
termination
  by (relation "measure (\<lambda>(m, dest, src, n). unat n)") (auto simp: unat_minus_one unat_gt_0)

declare strncpy_copy.simps [simp del]

definition strncpy :: "bytes \<Rightarrow> uptr \<Rightarrow> uptr \<Rightarrow> u64 \<Rightarrow> bytes" where
  "strncpy m dest src n =
     (let (m1, dest1, n1) = strncpy_copy m dest src n
      in foldl (set_byte dest1 0) m1 [0..<unat n1])"

section \<open>Concatenation\<close>

partial_function (option) str_end :: "bytes \<Rightarrow> uptr \<Rightarrow> uptr option" where
  "str_end m dest = (if m dest = 0 then Some dest else str_end m (dest + 1))"

definition strcat :: "bytes \<Rightarrow> uptr \<Rightarrow> uptr \<Rightarrow> bytes option" where
  "strcat m dest src = (case str_end m dest of None \<Rightarrow> None | Some d \<Rightarrow> strcpy m d src)"

section \<open>Comparison\<close>

fun memcmp_from :: "bytes \<Rightarrow> uptr \<Rightarrow> uptr \<Rightarrow> nat list \<Rightarrow> int" where
  "memcmp_from m s1 s2 [] = 0"
| "memcmp_from m s1 s2 (i # is) =
     (if m (s1 + of_nat i) \<noteq> m (s2 + of_nat i)
      then (if m (s1 + of_nat i) < m (s2 + of_nat i) then - 1 else 1)
      else memcmp_from m s1 s2 is)"

definition memcmp :: "bytes \<Rightarrow> uptr \<Rightarrow> uptr \<Rightarrow> u64 \<Rightarrow> int" where
  "memcmp m s1 s2 n = memcmp_from m s1 s2 [0..<unat n]"

partial_function (option) strcmp :: "bytes \<Rightarrow> uptr \<Rightarrow> uptr \<Rightarrow> int option" where
  "strcmp m s1 s2 =
     (if m s1 \<noteq> 0 \<and> m s1 = m s2 then strcmp m (s1 + 1) (s2 + 1)
      else Some (uint (m s1) - uint (m s2)))"

function strncmp :: "bytes \<Rightarrow> uptr \<Rightarrow> uptr \<Rightarrow> u64 \<Rightarrow> int" where
  "strncmp m s1 s2 n =
     (if n \<noteq> 0 \<and> m s1 \<noteq> 0 \<and> m s1 = m s2 then strncmp m (s1 + 1) (s2 + 1) (n - 1)
      else if n = 0 then 0
      else uint (m s1) - uint (m s2))"
  by pat_completeness auto
termination
  by (relation "measure (\<lambda>(m, s1, s2, n). unat n)") (auto simp: unat_minus_one unat_gt_0)

declare strncmp.simps [simp del]

section \<open>Searching\<close>

partial_function (option) strchr :: "bytes \<Rightarrow> uptr \<Rightarrow> u8 \<Rightarrow> uptr option option" where
  "strchr m s c =
     (if m s = 0 then Some None
      else if m s = c then Some (Some s)
      else strchr m (s + 1) c)"

text \<open>The character of \<^verbatim>\<open>strrchr\<close> is an \<^verbatim>\<open>int\<close>, compared with a signed \<^verbatim>\<open>char\<close>.\<close>

partial_function (option) strrchr_from :: "bytes \<Rightarrow> uptr \<Rightarrow> int \<Rightarrow> uptr option \<Rightarrow> uptr option option" where
  "strrchr_from m s c ret =
     (if m s = 0 then Some ret
      else strrchr_from m (s + 1) c (if sint (m s) = c then Some s else ret))"

definition strrchr :: "bytes \<Rightarrow> uptr \<Rightarrow> int \<Rightarrow> uptr option option" where
  "strrchr m s c = strrchr_from m s c None"

partial_function (option) strstr_match :: "bytes \<Rightarrow> uptr \<Rightarrow> uptr \<Rightarrow> uptr option" where
  "strstr_match m h n =
     (if m h \<noteq> 0 \<and> m n \<noteq> 0 \<and> m h = m n then strstr_match m (h + 1) (n + 1) else Some n)"

partial_function (option) strstr_from :: "bytes \<Rightarrow> uptr \<Rightarrow> uptr \<Rightarrow> uptr option option" where
  "strstr_from m s1 s2 =
     (if m s1 = 0 then Some None
      else case strstr_match m s1 s2 of
        None \<Rightarrow> None
      | Some n \<Rightarrow> if m n = 0 then Some (Some s1) else strstr_from m (s1 + 1) s2)"

definition strstr :: "bytes \<Rightarrow> uptr \<Rightarrow> uptr \<Rightarrow> uptr option option" where
  "strstr m s1 s2 = (if m s2 = 0 then Some (Some s1) else strstr_from m s1 s2)"

section \<open>Other\<close>

definition memset :: "bytes \<Rightarrow> uptr \<Rightarrow> u8 \<Rightarrow> u64 \<Rightarrow> bytes" where
  "memset m s c n = foldl (set_byte s c) m [0..<unat n]"

partial_function (option) strlen_from :: "bytes \<Rightarrow> uptr \<Rightarrow> u64 \<Rightarrow> u64 option" where
  "strlen_from m s len = (if m s = 0 then Some len else strlen_from m (s + 1) (len + 1))"

definition strlen :: "bytes \<Rightarrow> uptr \<Rightarrow> u64 option" where
  "strlen m s = strlen_from m s 0"

text \<open>The allocator \<open>ha\<close> stands for \<^verbatim>\<open>heap_alloc\<close>; 0 is \<open>NULL\<close>.\<close>

definition strdup :: "('s \<Rightarrow> u64 \<Rightarrow> ('s \<times> uptr) res) \<Rightarrow> 's \<Rightarrow> bytes \<Rightarrow> uptr \<Rightarrow> ('s \<times> bytes \<times> uptr) res option" where
  "strdup ha st m s =
     (if s = 0 then Some (Inr (st, m, 0))
      else case strlen m s of
        None \<Rightarrow> None
      | Some n \<Rightarrow> (case ha st (n + 1) of
          Inl e \<Rightarrow> Some (Inl e)
        | Inr (st1, dup) \<Rightarrow>
            if dup = 0 then Some (Inr (st1, m, 0))
            else (case strcpy m dup s of None \<Rightarrow> None | Some m1 \<Rightarrow> Some (Inr (st1, m1, dup)))))"

section \<open>Paths\<close>

definition SLASH :: u8 where "SLASH = 47"
definition DOT :: u8 where "DOT = 46"

partial_function (option) consume_loop :: "bytes \<Rightarrow> uptr \<Rightarrow> uptr \<Rightarrow> (bytes \<times> uptr \<times> uptr) option" where
  "consume_loop m str out =
     (if m str \<noteq> 0 \<and> m str \<noteq> SLASH then consume_loop (m(out := m str)) (str + 1) (out + 1)
      else Some (m, str, out))"

definition path_consume_comp :: "bytes \<Rightarrow> uptr \<Rightarrow> uptr \<Rightarrow> (bytes \<times> uptr) option" where
  "path_consume_comp m str out_comp =
     (let str1 = (if m str = SLASH then str + 1 else str)
      in case consume_loop m str1 out_comp of
           None \<Rightarrow> None
         | Some (m1, str2, out1) \<Rightarrow>
             let m2 = m1(out1 := 0)
             in Some (m2, if m2 str2 = SLASH then str2 + 1 else str2))"

partial_function (option) skip_slashes :: "bytes \<Rightarrow> uptr \<Rightarrow> uptr option" where
  "skip_slashes m p = (if m p = SLASH then skip_slashes m (p + 1) else Some p)"

partial_function (option) normalize_loop :: "bytes \<Rightarrow> uptr \<Rightarrow> uptr \<Rightarrow> (bytes \<times> uptr) option" where
  "normalize_loop m p n =
     (if m p = 0 then Some (m, n)
      else if m p = SLASH then
        (let m1 = m(n := SLASH)
         in case skip_slashes m1 p of None \<Rightarrow> None | Some p1 \<Rightarrow> normalize_loop m1 p1 (n + 1))
      else if m p = DOT \<and> (m (p + 1) = SLASH \<or> m (p + 1) = 0) then
        normalize_loop m (if m (p + 1) = SLASH then p + 2 else p + 1) n
      else normalize_loop (m(n := m p)) (p + 1) (n + 1))"

definition path_normalize :: "bytes \<Rightarrow> uptr \<Rightarrow> uptr \<Rightarrow> bytes option" where
  "path_normalize m path normalized =
     (case normalize_loop m path normalized of
        None \<Rightarrow> None
      | Some (m1, n) \<Rightarrow>
          let n1 = (if normalized + 1 < n \<and> m1 (n - 1) = SLASH then n - 1 else n)
          in Some (m1(n1 := 0)))"

section \<open>Hashing\<close>

partial_function (option) hash_loop :: "bytes \<Rightarrow> uptr \<Rightarrow> u32 \<Rightarrow> u32 option" where
  "hash_loop m str hash =
     (if m str = 0 then Some hash
      else hash_loop m (str + 1) ((push_bit 5 hash + hash) + scast (m str)))"

definition hash_str :: "bytes \<Rightarrow> uptr \<Rightarrow> u32 option" where
  "hash_str m str = hash_loop m str 5381"

end
