(* ===== verification/Kstring_Correct.thy ===== *)
theory Kstring_Correct
  imports Kstring "HOL-Library.Sublist"
begin

text \<open>
  What the string routines compute.  Blocks of memory are described by the distance of an
  address from the start of the block, strings by the predicate \<open>str_at\<close>.
\<close>

section \<open>Blocks\<close>

lemma u64_bound: "unat (n :: u64) < 2 ^ 64"
  using unsigned_less [of n, where 'a = nat] by simp

lemma of_nat_u64: "k < 2 ^ 64 \<Longrightarrow> unat (of_nat k :: u64) = k"
  by (intro unat_of_nat_small) simp

lemma dist_step:
  fixes x d :: u64
  shows "x \<noteq> d \<Longrightarrow> unat (x - d) = Suc (unat (x - (d + 1)))"
proof -
  assume "x \<noteq> d"
  then have "x - d \<noteq> 0" by simp
  then have "unat (x - d - 1) = unat (x - d) - 1" "unat (x - d) = Suc (unat (x - d) - 1)" by (simp_all add: unat_minus_one unat_gt_0)
  moreover have "x - (d + 1) = x - d - 1" by (simp add: algebra_simps)
  ultimately show ?thesis by (simp only:)
qed

lemma dist_of_nat:
  fixes x d :: u64
  assumes "k < 2 ^ 64"
  shows "x = d + of_nat k \<longleftrightarrow> unat (x - d) = k"
proof -
  have "unat (of_nat k :: u64) = k" using assms by (intro unat_of_nat_small) simp
  moreover have "x = d + of_nat k \<longleftrightarrow> x - d = of_nat k" by (simp add: algebra_simps)
  ultimately show ?thesis by (metis word_unat_eq_iff)
qed

lemma dist_swap:
  fixes a b :: u64
  assumes "a \<noteq> b"
  shows "unat (a - b) + unat (b - a) = 2 ^ 64"
proof -
  have "unat ((a - b) + (b - a)) = 0" by simp
  then have "(unat (a - b) + unat (b - a)) mod 2 ^ 64 = 0" by (simp only: unat_word_ariths len_bit0 len_num1) simp
  then obtain q where q: "unat (a - b) + unat (b - a) = 2 ^ 64 * q" by auto
  have "0 < unat (a - b)" using assms by (simp add: unat_gt_0)
  then have "0 < q" using q by (cases q) auto
  moreover have "2 ^ 64 * q < 2 ^ 64 * 2" using q u64_bound [of "a - b"] u64_bound [of "b - a"] by linarith
  ultimately have "q = 1" by simp
  then show ?thesis using q by simp
qed

lemma copy_byte_at: "copy_byte d s m i x = (if x = d + of_nat i then m (s + of_nat i) else m x)"
  by (simp add: copy_byte_def)

lemma set_byte_at: "set_byte d c m i x = (if x = d + of_nat i then c else m x)"
  by (simp add: set_byte_def)

lemma set_bytes:
  assumes "k \<le> 2 ^ 64"
  shows "foldl (set_byte s c) m [0..<k] x = (if unat (x - s) < k then c else m x)"
  using assms
proof (induction k)
  case (Suc k)
  then show ?case using dist_of_nat [of k x s] by (auto simp: less_Suc_eq set_byte_at)
qed simp

lemma memset_at: "memset m s c n x = (if unat (x - s) < unat n then c else m x)"
  unfolding memset_def by (rule set_bytes) (use u64_bound [of n] in simp)

text \<open>An ascending copy is right unless the destination begins inside the source.\<close>

lemma copy_up:
  fixes m :: bytes
  assumes "k \<le> n" "n < 2 ^ 64" "d = s \<or> n \<le> unat (d - s)"
  shows "foldl (copy_byte d s) m [0..<k] x =
    (if unat (x - d) < k then m (s + (x - d)) else m x)"
  using assms(1)
proof (induction k arbitrary: x)
  case (Suc k)
  have k: "unat (of_nat k :: u64) = k" using Suc.prems assms(2) by (intro unat_of_nat_small) simp
  have "\<not> unat (s + of_nat k - d) < k" if "d \<noteq> s"
  proof
    assume j: "unat (s + of_nat k - d) < k"
    define j where "j = unat (s + of_nat k - d)"
    have "s + of_nat k = d + of_nat j" by (simp add: j_def)
    then have "d - s = of_nat k - of_nat j" by (simp add: algebra_simps)
    also have "\<dots> = of_nat (k - j)" using j by (simp add: j_def of_nat_diff)
    finally have "d - s = of_nat (k - j)" .
    moreover have "k - j < 2 ^ 64" using Suc.prems assms(2) by linarith
    ultimately have "unat (d - s) = k - j" by (simp only: of_nat_u64)
    then show False using assms(3) that Suc.prems by simp
  qed
  then have src: "foldl (copy_byte d s) m [0..<k] (s + of_nat k) = m (s + of_nat k)"
    using Suc k by (cases "d = s") auto
  have x: "x = d + of_nat k \<longleftrightarrow> unat (x - d) = k" using dist_of_nat Suc.prems assms(2) by simp
  have "foldl (copy_byte d s) m [0..<Suc k] x = copy_byte d s (foldl (copy_byte d s) m [0..<k]) k x" by simp
  also have "\<dots> = (if x = d + of_nat k then m (s + of_nat k) else foldl (copy_byte d s) m [0..<k] x)"
    unfolding src [symmetric] by (rule copy_byte_at)
  finally show ?case using x k Suc by (cases "x = d + of_nat k") (simp_all add: less_Suc_eq)
qed simp

lemma copy_down:
  fixes m :: bytes
  assumes "k \<le> n" "n < 2 ^ 64" "d = s \<or> n \<le> unat (s - d)"
  shows "foldl (copy_byte d s) m (rev [n - k..<n]) x =
    (if n - k \<le> unat (x - d) \<and> unat (x - d) < n then m (s + (x - d)) else m x)"
  using assms(1)
proof (induction k arbitrary: x)
  case (Suc k)
  define i where "i = n - Suc k"
  have i: "n - k = Suc i" "i < n" "n - Suc k = i" using Suc.prems by (auto simp: i_def)
  have split: "rev [n - Suc k..<n] = rev [n - k..<n] @ [i]"
    using i by (simp add: upt_conv_Cons)
  let ?m = "foldl (copy_byte d s) m (rev [n - k..<n])"
  have "\<not> (Suc i \<le> unat (s + of_nat i - d) \<and> unat (s + of_nat i - d) < n)" if "d \<noteq> s"
  proof
    assume j: "Suc i \<le> unat (s + of_nat i - d) \<and> unat (s + of_nat i - d) < n"
    define j where "j = unat (s + of_nat i - d)"
    have "s + of_nat i = d + of_nat j" by (simp add: j_def)
    then have "s - d = of_nat j - of_nat i" by (simp add: algebra_simps)
    also have "\<dots> = of_nat (j - i)" using j by (simp add: j_def of_nat_diff)
    finally have "s - d = of_nat (j - i)" .
    moreover have "j - i < 2 ^ 64" using j assms(2) unfolding j_def by linarith
    ultimately have "unat (s - d) = j - i" by (simp only: of_nat_u64)
    then have "n \<le> j - i" using assms(3) that by simp
    then show False using j unfolding j_def by linarith
  qed
  moreover have u: "unat (of_nat i :: u64) = i" using i(2) assms(2) by (simp add: of_nat_u64)
  ultimately have src: "?m (s + of_nat i) = m (s + of_nat i)"
    using Suc i by (cases "d = s") auto
  have x: "x = d + of_nat i \<longleftrightarrow> unat (x - d) = i" using dist_of_nat i(2) assms(2) by simp
  have "foldl (copy_byte d s) m (rev [n - Suc k..<n]) x = copy_byte d s ?m i x" unfolding split by simp
  also have "\<dots> = (if x = d + of_nat i then m (s + of_nat i) else ?m x)"
    unfolding src [symmetric] by (rule copy_byte_at)
  finally show ?case using x u i Suc by (cases "x = d + of_nat i") (auto simp: Suc_le_eq le_less)
qed auto

lemma memcpy_at:
  assumes "dest = src \<or> unat n \<le> unat (dest - src)"
  shows "memcpy m dest src n x = (if unat (x - dest) < unat n then m (src + (x - dest)) else m x)"
  unfolding memcpy_def by (rule copy_up) (use assms u64_bound [of n] in auto)

text \<open>\<^verbatim>\<open>memmove\<close> copies the source block as it was, also when the blocks overlap, and writes
  nothing outside the destination.\<close>

theorem memmove_correct:
  assumes "unat src + unat n \<le> 2 ^ 64" "unat dest + unat n \<le> 2 ^ 64"
  shows "memmove m dest src n x = (if unat (x - dest) < unat n then m (src + (x - dest)) else m x)"
proof -
  consider "dest < src" | "src < dest" | "src = dest" using less_linear by blast
  then show ?thesis
  proof cases
    case 1
    then have "unat (src - dest) = unat src - unat dest" by (simp add: unat_sub)
    then have "unat n \<le> unat (dest - src)" using dist_swap [of dest src] less_imp_neq [OF 1] assms(1) by linarith
    then show ?thesis using 1 memcpy_at [of dest src n m x] by (simp add: memmove_def memcpy_def)
  next
    case 2
    then have d: "unat (dest - src) = unat dest - unat src" by (simp add: unat_sub)
    have "unat (dest - src) + unat (src - dest) = 2 ^ 64" using 2 by (intro dist_swap) auto
    then have "unat n \<le> unat (src - dest)" using d assms(2) by linarith
    then show ?thesis
      using 2 copy_down [of "unat n" "unat n" dest src m x] u64_bound [of n] by (auto simp: memmove_def)
  qed (auto simp: memmove_def)
qed

section \<open>Strings\<close>

text \<open>The characters at \<open>p\<close> up to the terminating zero.\<close>

primrec str_at :: "bytes \<Rightarrow> uptr \<Rightarrow> u8 list \<Rightarrow> bool" where
  "str_at m p [] \<longleftrightarrow> m p = 0"
| "str_at m p (c # cs) \<longleftrightarrow> c \<noteq> 0 \<and> m p = c \<and> str_at m (p + 1) cs"

lemma str_at_nth: "str_at m p s \<Longrightarrow> i \<le> length s \<Longrightarrow> m (p + of_nat i) = (s @ [0]) ! i"
proof (induction s arbitrary: p i)
  case (Cons c s)
  show ?case
  proof (cases i)
    case (Suc j)
    then show ?thesis using Cons.IH [of "p + 1" j] Cons.prems by (simp add: add.assoc)
  qed (use Cons in simp)
qed simp

lemma str_at_drop: "str_at m p s \<Longrightarrow> i \<le> length s \<Longrightarrow> str_at m (p + of_nat i) (drop i s)"
proof (induction s arbitrary: p i)
  case (Cons c s)
  show ?case
  proof (cases i)
    case (Suc j)
    then show ?thesis using Cons.IH [of "p + 1" j] Cons.prems by (simp add: add.assoc)
  qed (use Cons in simp)
qed simp

lemma str_at_nonzero: "str_at m p s \<Longrightarrow> 0 \<notin> set s"
  by (induction s arbitrary: p) auto

lemma str_at_cong:
  "(\<And>i. i \<le> length s \<Longrightarrow> m' (p + of_nat i) = m (p + of_nat i)) \<Longrightarrow> str_at m' p s = str_at m p s"
proof (induction s arbitrary: p)
  case (Cons c s)
  have "m' (p + 1 + of_nat i) = m (p + 1 + of_nat i)" if "i \<le> length s" for i
    using Cons.prems [of "Suc i"] that by (simp add: add.assoc)
  then show ?case using Cons.IH [of "p + 1"] Cons.prems [of 0] by simp
qed simp

lemma strlen_at: "str_at m p s \<Longrightarrow> strlen m p = Some (of_nat (length s))"
proof -
  have "str_at m p s \<Longrightarrow> strlen_from m p n = Some (n + of_nat (length s))" for n
    by (induction s arbitrary: p n) (auto simp: strlen_from.simps [of m] add.assoc)
  then show "str_at m p s \<Longrightarrow> ?thesis" by (simp add: strlen_def)
qed

lemma str_end_at: "str_at m p s \<Longrightarrow> str_end m p = Some (p + of_nat (length s))"
  by (induction s arbitrary: p) (auto simp: str_end.simps [of m] add.assoc)

text \<open>Two blocks that have no address in common.\<close>

definition apart :: "uptr \<Rightarrow> nat \<Rightarrow> uptr \<Rightarrow> nat \<Rightarrow> bool" where
  "apart d n p k \<longleftrightarrow> (\<forall>i < n. \<forall>j < k. d + of_nat i \<noteq> p + of_nat j)"

lemma apart_Suc:
  assumes "apart d (Suc n) p (Suc k)"
  shows "apart (d + 1) n (p + 1) k" "i \<le> k \<Longrightarrow> d \<noteq> p + of_nat i"
proof -
  have "d + of_nat (Suc i) \<noteq> p + of_nat (Suc j)" if "i < n" "j < k" for i j
    using assms that unfolding apart_def by blast
  then show "apart (d + 1) n (p + 1) k" by (simp add: apart_def add.assoc)
  have "d + of_nat 0 \<noteq> p + of_nat i" if "i \<le> k" using assms that unfolding apart_def by (meson le_imp_less_Suc zero_less_Suc)
  then show "i \<le> k \<Longrightarrow> d \<noteq> p + of_nat i" by simp
qed

text \<open>A string with its terminator written at \<open>d\<close>.\<close>

definition put_str :: "bytes \<Rightarrow> uptr \<Rightarrow> u8 list \<Rightarrow> bytes" where
  "put_str m d s x = (if unat (x - d) \<le> length s then (s @ [0]) ! unat (x - d) else m x)"

lemma put_str_Cons:
  assumes "length s < 2 ^ 64 - 1"
  shows "put_str m d (c # s) = put_str (m(d := c)) (d + 1) s"
proof
  fix x
  show "put_str m d (c # s) x = put_str (m(d := c)) (d + 1) s x"
  proof (cases "x = d")
    case True
    have "unat (d - (d + 1)) = 2 ^ 64 - 1" using dist_swap [of d "d + 1"] by simp
    then show ?thesis using True assms by (simp add: put_str_def)
  next
    case False
    then show ?thesis by (simp add: put_str_def dist_step [of x d])
  qed
qed

lemma strcpy_at:
  assumes "str_at m p s" "length s < 2 ^ 64 - 1" "apart d (Suc (length s)) p (Suc (length s))"
  shows "strcpy m d p = Some (put_str m d s)"
  using assms
proof (induction s arbitrary: m d p)
  case Nil
  have "m(d := 0) = put_str m d []"
    by (rule ext) (auto simp: put_str_def unat_eq_zero)
  then show ?case using Nil by (simp add: strcpy.simps [of m] Let_def)
next
  case (Cons c s)
  note ap = apart_Suc [OF Cons.prems(3) [simplified length_Cons]]
  define m1 where "m1 = m(d := c)"
  have "str_at m1 (p + 1) s = str_at m (p + 1) s"
  proof (rule str_at_cong)
    show "m1 (p + 1 + of_nat i) = m (p + 1 + of_nat i)" if "i \<le> length s" for i
      using ap(2) [of "Suc i"] that by (simp add: add.assoc m1_def)
  qed
  then have "strcpy m1 (d + 1) (p + 1) = Some (put_str m1 (d + 1) s)"
    using Cons.prems ap(1) by (intro Cons.IH) simp_all
  then show ?case using Cons.prems put_str_Cons [of s m d c] by (simp add: strcpy.simps [of m] Let_def m1_def)
qed

lemma put_str_at:
  assumes "0 \<notin> set s" "length s < 2 ^ 64"
  shows "str_at (put_str m d s) d s"
proof -
  have "str_at (put_str m d s) (d + of_nat i) (drop i s)" if "i \<le> length s" for i
    using that
  proof (induction "length s - i" arbitrary: i)
    case 0
    then have i: "i = length s" by simp
    have "unat (of_nat (length s) :: u64) = length s" using assms(2) by (rule of_nat_u64)
    then show ?case by (simp add: i put_str_def nth_append)
  next
    case (Suc n)
    have n: "n = length s - Suc i" "Suc i \<le> length s" using Suc.hyps(2) by auto
    have "str_at (put_str m d s) (d + of_nat (Suc i)) (drop (Suc i) s)" by (rule Suc.hyps(1) [OF n])
    then have r: "str_at (put_str m d s) (d + of_nat i + 1) (drop (Suc i) s)" by (simp add: ac_simps)
    have "unat (of_nat i :: u64) = i" using n assms(2) by (intro of_nat_u64) simp
    then have "put_str m d s (d + of_nat i) = s ! i" using n by (simp add: put_str_def nth_append)
    moreover have "s ! i \<noteq> 0" using assms(1) n nth_mem [of i s] by (metis Suc_le_lessD)
    moreover have "drop i s = s ! i # drop (Suc i) s" using n by (simp add: Cons_nth_drop_Suc)
    ultimately show ?case using r by simp
  qed
  from this [of 0] show ?thesis by simp
qed

section \<open>Comparison\<close>

lemma byte_diff [simp]:
  fixes a b :: u8
  shows "uint a - uint b = 0 \<longleftrightarrow> a = b" "uint a - uint b < 0 \<longleftrightarrow> a < b" "uint a = uint b \<longleftrightarrow> a = b"
    "uint a = 0 \<longleftrightarrow> a = 0" "0 = uint a \<longleftrightarrow> a = 0" "uint a < uint b \<longleftrightarrow> a < b"
  by (auto simp: word_less_def word_uint_eq_iff)

lemma byte_pos [simp]: "0 < uint (a :: u8) \<longleftrightarrow> a \<noteq> 0"
  using uint_ge_0 [of a] byte_diff(4) [of a] by linarith

lemma strcmp_at:
  "str_at m p s \<Longrightarrow> str_at m q t \<Longrightarrow>
    \<exists>r. strcmp m p q = Some r \<and> (r = 0 \<longleftrightarrow> s = t) \<and> (r < 0 \<longleftrightarrow> ord_class.lexordp s t)"
proof (induction s arbitrary: p q t)
  case Nil
  then show ?case by (cases t) (auto simp: strcmp.simps [of m p q] word_gt_0)
next
  case (Cons c s)
  show ?case
  proof (cases t)
    case Nil
    then show ?thesis using Cons.prems by (auto simp: strcmp.simps [of m p q])
  next
    case (Cons d u)
    show ?thesis
    proof (cases "c = d")
      case True
      obtain r where "strcmp m (p + 1) (q + 1) = Some r \<and> (r = 0 \<longleftrightarrow> s = u) \<and> (r < 0 \<longleftrightarrow> ord_class.lexordp s u)"
        using Cons.IH [of "p + 1" "q + 1" u] Cons.prems Cons by auto
      then show ?thesis using True Cons.prems Cons by (simp add: strcmp.simps [of m p q])
    next
      case False
      then show ?thesis using Cons.prems Cons by (auto simp: strcmp.simps [of m p q])
    qed
  qed
qed

lemma strncmp_at:
  "str_at m p s \<Longrightarrow> str_at m q t \<Longrightarrow>
    (strncmp m p q n = 0 \<longleftrightarrow> take (unat n) s = take (unat n) t)"
proof (induction s arbitrary: p q t n)
  case Nil
  then show ?case by (cases t; cases "n = 0") (auto simp: strncmp.simps [of m p q] take_Cons' unat_eq_zero)
next
  case (Cons c s)
  show ?case
  proof (cases "n = 0 \<or> t = [] \<or> hd t \<noteq> c")
    case True
    then show ?thesis using Cons.prems
      by (cases t; cases "n = 0") (auto simp: strncmp.simps [of m p q] take_Cons' unat_eq_zero)
  next
    case False
    then obtain u where t: "t = c # u" by (cases t) auto
    have "unat n = Suc (unat (n - 1))" using False by (simp add: unat_minus_one unat_gt_0)
    then show ?thesis using Cons.IH [of "p + 1" "q + 1" u "n - 1"] Cons.prems t False
      by (simp add: strncmp.simps [of m p q])
  qed
qed

text \<open>On two strings \<^verbatim>\<open>strcmp\<close> returns; the result is 0 for equal strings, negative when the first
  precedes the second in lexicographic order, and positive otherwise.\<close>

theorem strcmp_correct:
  assumes "str_at m p s" "str_at m q t"
  shows "\<exists>r. strcmp m p q = Some r \<and> (r = 0 \<longleftrightarrow> s = t) \<and> (r < 0 \<longleftrightarrow> ord_class.lexordp s t) \<and> (0 < r \<longleftrightarrow> ord_class.lexordp t s)"
proof -
  obtain r where "strcmp m p q = Some r" "r = 0 \<longleftrightarrow> s = t" "r < 0 \<longleftrightarrow> ord_class.lexordp s t"
    using strcmp_at [OF assms] by blast
  moreover have "\<not> (ord_class.lexordp s t \<and> ord_class.lexordp t s)" "\<not> ord_class.lexordp s s"
    using lexordp_antisym [of s t] lexordp_antisym [of s s] by blast+
  ultimately show ?thesis using lexordp_linear [of s t] by (cases "r < 0"; cases "r = 0") auto
qed

section \<open>Searching\<close>

lemma strchr_at:
  "str_at m p s \<Longrightarrow> strchr m p c =
    Some (if c \<in> set s then Some (p + of_nat (length (takeWhile (\<lambda>x. x \<noteq> c) s))) else None)"
proof (induction s arbitrary: p)
  case (Cons x s)
  then show ?case by (auto simp: strchr.simps [of m p] add.assoc)
qed (simp add: strchr.simps)

lemma takeWhile_shorter: "\<exists>x \<in> set xs. \<not> P x \<Longrightarrow> length (takeWhile P xs) < length xs"
  by (induction xs) auto

lemma strrchr_from_at:
  "str_at m p s \<Longrightarrow> strrchr_from m p c r =
    Some (if \<exists>x \<in> set s. sint x = c
          then Some (p + of_nat (length s - 1 - length (takeWhile (\<lambda>x. sint x \<noteq> c) (rev s)))) else r)"
proof (induction s arbitrary: p r)
  case (Cons x s)
  have IH: "strrchr_from m (p + 1) c (if sint x = c then Some p else r) =
    Some (if \<exists>x \<in> set s. sint x = c
          then Some (p + 1 + of_nat (length s - 1 - length (takeWhile (\<lambda>x. sint x \<noteq> c) (rev s))))
          else (if sint x = c then Some p else r))"
    using Cons by simp
  show ?case
  proof (cases "\<exists>y \<in> set s. sint y = c")
    case True
    then have "length (takeWhile (\<lambda>x. sint x \<noteq> c) (rev s)) < length s"
      using takeWhile_shorter [of "rev s"] by simp
    then have "length (x # s) - 1 - length (takeWhile (\<lambda>x. sint x \<noteq> c) (rev s)) =
        Suc (length s - 1 - length (takeWhile (\<lambda>x. sint x \<noteq> c) (rev s)))" by simp
    moreover have "takeWhile (\<lambda>x. sint x \<noteq> c) (rev (x # s)) = takeWhile (\<lambda>x. sint x \<noteq> c) (rev s)"
      using True by (auto simp: takeWhile_append1)
    ultimately show ?thesis using IH True Cons.prems by (simp add: strrchr_from.simps [of m p] add.assoc)
  next
    case False
    then have "takeWhile (\<lambda>x. sint x \<noteq> c) (rev s @ [x]) = rev s @ takeWhile (\<lambda>x. sint x \<noteq> c) [x]"
      by (intro takeWhile_append2) auto
    then show ?thesis using IH False Cons.prems by (auto simp: strrchr_from.simps [of m p])
  qed
qed (simp add: strrchr_from.simps)

lemma strstr_match_at:
  "str_at m h s \<Longrightarrow> str_at m n t \<Longrightarrow>
    \<exists>q. strstr_match m h n = Some q \<and> (m q = 0 \<longleftrightarrow> prefix t s)"
proof (induction t arbitrary: h n s)
  case Nil
  then show ?case by (auto simp: strstr_match.simps [of m h n])
next
  case (Cons c t)
  show ?case
  proof (cases "s \<noteq> [] \<and> hd s = c")
    case True
    then obtain u where "s = c # u" by (cases s) auto
    then show ?thesis using Cons.IH [of "h + 1" u "n + 1"] Cons.prems by (simp add: strstr_match.simps [of m h n])
  next
    case False
    then show ?thesis using Cons.prems by (cases s) (auto simp: strstr_match.simps [of m h n])
  qed
qed

lemma strstr_from_at:
  assumes "str_at m q t" "t \<noteq> []"
  shows "str_at m p s \<Longrightarrow> \<exists>r. strstr_from m p q = Some r \<and>
    (case r of
       None \<Rightarrow> \<forall>i. \<not> prefix t (drop i s)
     | Some x \<Rightarrow> \<exists>i \<le> length s. x = p + of_nat i \<and> prefix t (drop i s) \<and> (\<forall>j < i. \<not> prefix t (drop j s)))"
proof (induction s arbitrary: p)
  case Nil
  then show ?case using assms(2) by (simp add: strstr_from.simps [of m p])
next
  case (Cons c s)
  obtain e where e: "strstr_match m p q = Some e" "m e = 0 \<longleftrightarrow> prefix t (c # s)"
    using strstr_match_at [OF Cons.prems assms(1)] by blast
  show ?case
  proof (cases "prefix t (c # s)")
    case True
    then show ?thesis using e Cons.prems by (auto simp: strstr_from.simps [of m p] intro!: exI [of _ 0])
  next
    case False
    obtain r where r: "strstr_from m (p + 1) q = Some r" "case r of
       None \<Rightarrow> \<forall>i. \<not> prefix t (drop i s)
     | Some x \<Rightarrow> \<exists>i \<le> length s. x = p + 1 + of_nat i \<and> prefix t (drop i s) \<and> (\<forall>j < i. \<not> prefix t (drop j s))"
      using Cons by auto
    have run: "strstr_from m p q = Some r" using False e Cons.prems r(1) by (simp add: strstr_from.simps [of m p])
    show ?thesis
    proof (cases r)
      case None
      then have "\<not> prefix t (drop i (c # s))" for i using False r(2) by (cases i) auto
      then show ?thesis using run None by auto
    next
      case (Some x)
      then obtain i where i: "i \<le> length s" "x = p + 1 + of_nat i" "prefix t (drop i s)" "\<forall>j < i. \<not> prefix t (drop j s)"
        using r(2) by auto
      have "\<not> prefix t (drop j (c # s))" if "j < Suc i" for j using that False i(4) by (cases j) auto
      then show ?thesis using run Some i by (auto intro!: exI [of _ "Suc i"] simp: add.assoc)
    qed
  qed
qed

text \<open>\<^verbatim>\<open>strstr\<close> returns, and yields the first position at which the second string occurs in the
  first one, \<open>NULL\<close> when there is none.\<close>

theorem strstr_correct:
  assumes "str_at m p s" "str_at m q t"
  shows "\<exists>r. strstr m p q = Some r \<and>
    (case r of
       None \<Rightarrow> \<forall>i. \<not> prefix t (drop i s)
     | Some x \<Rightarrow> \<exists>i \<le> length s. x = p + of_nat i \<and> prefix t (drop i s) \<and> (\<forall>j < i. \<not> prefix t (drop j s)))"
proof (cases t)
  case Nil
  then show ?thesis using assms by (auto simp: strstr_def intro!: exI [of _ 0])
next
  case (Cons c u)
  then show ?thesis using strstr_from_at [OF assms(2) _ assms(1)] assms(2) by (auto simp: strstr_def)
qed

section \<open>Bounded copy\<close>

text \<open>A list of bytes written at \<open>d\<close>.\<close>

definition put_bytes :: "bytes \<Rightarrow> uptr \<Rightarrow> u8 list \<Rightarrow> bytes" where
  "put_bytes m d xs x = (if unat (x - d) < length xs then xs ! unat (x - d) else m x)"

lemma put_bytes_Nil [simp]: "put_bytes m d [] = m"
  by (rule ext) (simp add: put_bytes_def)

lemma put_bytes_Cons:
  assumes "length xs < 2 ^ 64"
  shows "put_bytes m d (c # xs) = put_bytes (m(d := c)) (d + 1) xs"
proof
  fix x
  show "put_bytes m d (c # xs) x = put_bytes (m(d := c)) (d + 1) xs x"
  proof (cases "x = d")
    case True
    have "unat (d - (d + 1)) = 2 ^ 64 - 1" using dist_swap [of d "d + 1"] by simp
    then show ?thesis using True assms by (simp add: put_bytes_def)
  next
    case False
    then show ?thesis by (simp add: put_bytes_def dist_step [of x d])
  qed
qed

lemma strncpy_copy_at:
  assumes "str_at m p s" "apart d (Suc (length s)) p (Suc (length s))"
  shows "strncpy_copy m d p n =
    (if length s < unat n then (put_bytes m d (s @ [0]), d + of_nat (Suc (length s)), n - of_nat (length s))
     else (put_bytes m d (take (unat n) s), d + n, 0))"
  using assms
proof (induction s arbitrary: m d p n)
  case Nil
  have "put_bytes m d [0] = m(d := 0)" by (rule ext) (auto simp: put_bytes_def unat_eq_zero)
  then show ?case using Nil by (cases "n = 0") (auto simp: strncpy_copy.simps [of m d p] Let_def unat_eq_zero unat_gt_0)
next
  case (Cons c s)
  show ?case
  proof (cases "n = 0")
    case True
    then show ?thesis by (simp add: strncpy_copy.simps [of m d p])
  next
    case False
    note ap = apart_Suc [OF Cons.prems(2) [simplified length_Cons]]
    define m1 where "m1 = m(d := c)"
    have "str_at m1 (p + 1) s = str_at m (p + 1) s"
    proof (rule str_at_cong)
      show "m1 (p + 1 + of_nat i) = m (p + 1 + of_nat i)" if "i \<le> length s" for i
        using ap(2) [of "Suc i"] that by (simp add: add.assoc m1_def)
    qed
    then have s: "str_at m1 (p + 1) s" using Cons.prems by simp
    have n: "unat n = Suc (unat (n - 1))" using False by (simp add: unat_minus_one unat_gt_0)
    have step: "strncpy_copy m d p n = strncpy_copy m1 (d + 1) (p + 1) (n - 1)"
      using False Cons.prems by (simp add: strncpy_copy.simps [of m d p] Let_def m1_def)
    have len: "length (take (unat (n - 1)) s) < 2 ^ 64" "length s < unat (n - 1) \<Longrightarrow> length (s @ [0]) < 2 ^ 64"
      using u64_bound [of "n - 1"] by auto
    have "put_bytes m1 (d + 1) (take (unat (n - 1)) s) = put_bytes m d (take (unat n) (c # s))"
      using put_bytes_Cons [OF len(1), of m d c] n by (simp add: m1_def)
    moreover have "length s < unat (n - 1) \<Longrightarrow> put_bytes m1 (d + 1) (s @ [0]) = put_bytes m d ((c # s) @ [0])"
      using put_bytes_Cons [OF len(2), of m d c] by (simp add: m1_def)
    ultimately show ?thesis
      unfolding step Cons.IH [OF s ap(1)] using n by (auto simp: algebra_simps)
  qed
qed

lemma dist_shift:
  fixes x d :: u64
  assumes "j < 2 ^ 64"
  shows "unat (x - (d + of_nat j)) = (if j \<le> unat (x - d) then unat (x - d) - j else unat (x - d) + 2 ^ 64 - j)"
proof -
  have "x - (d + of_nat j) = (x - d) - of_nat j" by (simp add: algebra_simps)
  moreover have "unat (of_nat j :: u64) = j" using assms by (rule of_nat_u64)
  ultimately show ?thesis by (simp only: unat_sub_if') (simp add: word_size)
qed

text \<open>When the source is shorter than the bound, \<^verbatim>\<open>strncpy\<close> writes one byte more than the bound: the
  zero that ends the first loop is not counted, so the byte at \<open>dest + n\<close> becomes 0 as well.\<close>

theorem strncpy_overrun:
  assumes "str_at m p s" "apart d (Suc (length s)) p (Suc (length s))" "length s < unat n" "unat n < 2 ^ 64 - 1"
  shows "strncpy m d p n x =
    (if unat (x - d) \<le> unat n then (if unat (x - d) < length s then s ! unat (x - d) else 0) else m x)"
proof -
  let ?l = "length s" and ?k = "unat (x - d)"
  have l: "unat (of_nat ?l :: u64) = ?l" using assms(3,4) by (intro of_nat_u64) simp
  then have r: "unat (n - of_nat ?l) = unat n - ?l" using assms(3) by (subst unat_sub) (simp_all add: word_le_nat_alt)
  have "strncpy m d p n x = foldl (set_byte (d + of_nat (Suc ?l)) 0) (put_bytes m d (s @ [0])) [0..<unat n - ?l] x"
    unfolding strncpy_def strncpy_copy_at [OF assms(1,2)] using assms(3) r by (simp only: if_True Let_def case_prod_conv)
  also have "\<dots> = (if unat (x - (d + of_nat (Suc ?l))) < unat n - ?l then 0 else put_bytes m d (s @ [0]) x)"
    by (rule set_bytes) (use u64_bound [of n] in simp)
  also have "\<dots> = (if ?k \<le> unat n then (if ?k < ?l then s ! ?k else 0) else m x)"
    using dist_shift [of "Suc ?l" x d] assms(3,4) u64_bound [of "x - d"]
    by (auto simp: put_bytes_def nth_append)
  finally show ?thesis .
qed

section \<open>Paths\<close>

lemma consume_loop_at:
  assumes "str_at m p s" "apart out (Suc (length s)) p (Suc (length s))" "length s < 2 ^ 64 - 1"
  shows "consume_loop m p out =
    (let c = takeWhile (\<lambda>x. x \<noteq> SLASH) s
     in Some (put_bytes m out c, p + of_nat (length c), out + of_nat (length c)))"
  using assms
proof (induction s arbitrary: m p out)
  case Nil
  then show ?case by (simp add: consume_loop.simps [of m p])
next
  case (Cons c s)
  show ?case
  proof (cases "c = SLASH")
    case True
    then show ?thesis using Cons.prems by (simp add: consume_loop.simps [of m p])
  next
    case False
    note ap = apart_Suc [OF Cons.prems(2) [simplified length_Cons]]
    define m1 where "m1 = m(out := c)"
    have "str_at m1 (p + 1) s = str_at m (p + 1) s"
    proof (rule str_at_cong)
      show "m1 (p + 1 + of_nat i) = m (p + 1 + of_nat i)" if "i \<le> length s" for i
        using ap(2) [of "Suc i"] that by (simp add: add.assoc m1_def)
    qed
    then have s: "str_at m1 (p + 1) s" using Cons.prems by simp
    have "consume_loop m p out = consume_loop m1 (p + 1) (out + 1)"
      using False Cons.prems by (simp add: consume_loop.simps [of m p] m1_def)
    moreover have "length (takeWhile (\<lambda>x. x \<noteq> SLASH) s) < 2 ^ 64"
      using length_takeWhile_le [of "\<lambda>x. x \<noteq> SLASH" s] Cons.prems(3) by (simp del: length_takeWhile_le)
    ultimately show ?thesis
      using Cons.IH [OF s ap(1)] Cons.prems(3) False put_bytes_Cons [of "takeWhile (\<lambda>x. x \<noteq> SLASH) s" m out c, folded m1_def]
      by (simp add: Let_def add.assoc)
  qed
qed

text \<open>The reference for \<^verbatim>\<open>path_normalize\<close>, on lists of characters.\<close>

function norm_chars :: "u8 list \<Rightarrow> u8 list" where
  "norm_chars [] = []"
| "norm_chars (c # cs) =
     (if c = SLASH then SLASH # norm_chars (dropWhile (\<lambda>x. x = SLASH) cs)
      else if c = DOT \<and> (cs = [] \<or> hd cs = SLASH) then norm_chars (tl cs)
      else c # norm_chars cs)"
  by pat_completeness auto
termination
  by (relation "measure length") (auto simp: le_imp_less_Suc length_dropWhile_le)

definition norm_path :: "u8 list \<Rightarrow> u8 list" where
  "norm_path s = (let r = norm_chars s in if 1 < length r \<and> last r = SLASH then butlast r else r)"

lemma norm_chars_length: "length (norm_chars s) \<le> length s"
proof (induction s rule: norm_chars.induct)
  case (2 c cs)
  consider "c = SLASH" | "c \<noteq> SLASH" "c = DOT \<and> (cs = [] \<or> hd cs = SLASH)"
    | "c \<noteq> SLASH" "\<not> (c = DOT \<and> (cs = [] \<or> hd cs = SLASH))" by blast
  then show ?case
  proof cases
    case 1
    have "length (norm_chars (dropWhile (\<lambda>x. x = SLASH) cs)) \<le> length (dropWhile (\<lambda>x. x = SLASH) cs)"
      by (rule "2.IH"(1)) (use 1 in simp)
    then have "length (norm_chars (dropWhile (\<lambda>x. x = SLASH) cs)) \<le> length cs"
      using length_dropWhile_le [of "\<lambda>x. x = SLASH" cs] by (rule le_trans)
    then show ?thesis using 1 by simp
  next
    case 2
    have "length (norm_chars (tl cs)) \<le> length (tl cs)" by (rule "2.IH"(2)) (use 2 in auto)
    then show ?thesis using 2 by (simp only: norm_chars.simps if_False if_True simp_thms) simp
  next
    case 3
    then have "length (norm_chars cs) \<le> length cs" by (rule "2.IH"(3))
    then show ?thesis using 3 by (simp only: norm_chars.simps if_False simp_thms) simp
  qed
qed simp

lemma skip_slashes_at:
  "str_at m p s \<Longrightarrow> skip_slashes m p = Some (p + of_nat (length (takeWhile (\<lambda>x. x = SLASH) s)))"
proof (induction s arbitrary: p)
  case Nil
  then show ?case by (simp add: skip_slashes.simps [of m p] SLASH_def)
next
  case (Cons c s)
  then show ?case by (auto simp: skip_slashes.simps [of m p] add.assoc)
qed

lemma put_bytes_apart:
  assumes "apart d (length xs) p (Suc (length s))" "length xs < 2 ^ 64"
  shows "str_at (put_bytes m d xs) p s = str_at m p s"
proof (rule str_at_cong)
  fix i
  assume i: "i \<le> length s"
  have "p + of_nat i \<noteq> d + of_nat j" if "j < length xs" for j using assms(1) i that unfolding apart_def by (metis le_imp_less_Suc)
  from this [of "unat (p + of_nat i - d)"] show "put_bytes m d xs (p + of_nat i) = m (p + of_nat i)"
    by (auto simp: put_bytes_def)
qed

lemma apart_mono: "apart d n p k \<Longrightarrow> n' \<le> n \<Longrightarrow> k' \<le> k \<Longrightarrow> apart d n' p k'"
  unfolding apart_def by (meson less_le_trans)

lemma apart_shift:
  assumes "apart d n p k" "a + n' \<le> n" "b + k' \<le> k"
  shows "apart (d + of_nat a) n' (p + of_nat b) k'"
  unfolding apart_def
proof (intro allI impI)
  fix i j
  assume "i < n'" "j < k'"
  then have "a + i < n" "b + j < k" using assms(2,3) by auto
  then have "d + of_nat (a + i) \<noteq> p + of_nat (b + j)" using assms(1) unfolding apart_def by blast
  then show "d + of_nat a + of_nat i \<noteq> p + of_nat b + of_nat j" by (simp add: add.assoc)
qed

lemma normalize_loop_at:
  assumes "str_at m p s" "apart d (Suc (length s)) p (Suc (length s))" "length s < 2 ^ 64 - 1"
  shows "normalize_loop m p d = Some (put_bytes m d (norm_chars s), d + of_nat (length (norm_chars s)))"
  using assms
proof (induction s arbitrary: m p d rule: norm_chars.induct)
  case 1
  then show ?case by (simp add: normalize_loop.simps [of m p])
next
  case (2 c cs)
  note ap = apart_Suc [OF "2.prems"(2) [simplified length_Cons]]
  have nz: "c \<noteq> 0" "m p = c" "str_at m (p + 1) cs" using "2.prems"(1) by auto
  define m1 where "m1 = m(d := c)"
  have s1: "str_at m1 (p + 1) cs"
  proof -
    have "str_at m1 (p + 1) cs = str_at m (p + 1) cs"
    proof (rule str_at_cong)
      show "m1 (p + 1 + of_nat i) = m (p + 1 + of_nat i)" if "i \<le> length cs" for i
        using ap(2) [of "Suc i"] that by (simp add: add.assoc m1_def)
    qed
    then show ?thesis using nz(3) by simp
  qed
  have len: "length (norm_chars xs) < 2 ^ 64" if "length xs \<le> length cs" for xs
    using norm_chars_length [of xs] that "2.prems"(3) by simp
  have put: "put_bytes m1 (d + 1) (norm_chars xs) = put_bytes m d (c # norm_chars xs)" if "length xs \<le> length cs" for xs
    using put_bytes_Cons [OF len [OF that], of m d c] by (simp add: m1_def)
  consider "c = SLASH" | "c \<noteq> SLASH" "c = DOT \<and> (cs = [] \<or> hd cs = SLASH)"
    | "c \<noteq> SLASH" "\<not> (c = DOT \<and> (cs = [] \<or> hd cs = SLASH))" by blast
  then show ?case
  proof cases
    case 1
    let ?t = "dropWhile (\<lambda>x. x = SLASH) cs" and ?k = "length (takeWhile (\<lambda>x. x = SLASH) cs)"
    have drop: "drop ?k cs = ?t" by (simp add: dropWhile_eq_drop)
    have k: "?k + length ?t = length cs" by (metis length_append takeWhile_dropWhile_id)
    have sp: "m1 p = SLASH" using nz(2) 1 ap(2) [of 0] by (auto simp: m1_def)
    have "skip_slashes m1 p = skip_slashes m1 (p + 1)" using sp by (simp add: skip_slashes.simps [of m1 p])
    then have skip: "skip_slashes m1 p = Some (p + 1 + of_nat ?k)" using skip_slashes_at [OF s1] by simp
    have st: "str_at m1 (p + 1 + of_nat ?k) ?t" using str_at_drop [OF s1, of ?k] k drop by simp
    have "apart (d + 1 + of_nat 0) (Suc (length ?t)) (p + 1 + of_nat ?k) (Suc (length ?t))"
      by (rule apart_shift [OF ap(1)]) (use k in auto)
    then have "normalize_loop m1 (p + 1 + of_nat ?k) (d + 1) =
        Some (put_bytes m1 (d + 1) (norm_chars ?t), d + 1 + of_nat (length (norm_chars ?t)))"
      using "2.IH"(1) [OF 1 st] "2.prems"(3) k by simp
    moreover have "normalize_loop m p d = normalize_loop m1 (p + 1 + of_nat ?k) (d + 1)"
      using 1 nz skip by (simp add: normalize_loop.simps [of m p] Let_def m1_def)
    ultimately show ?thesis using put [of ?t] k 1 by (simp add: add.assoc)
  next
    case 2
    have t: "str_at m (if m (p + 1) = SLASH then p + 2 else p + 1) (tl cs)" and e: "m (p + 1) = SLASH \<or> m (p + 1) = 0"
      and n: "m (p + 1) = SLASH \<longleftrightarrow> cs \<noteq> []"
      using nz(3) 2 by (cases cs; simp add: SLASH_def add.assoc)+
    have "apart (d + of_nat 0) (Suc (length (tl cs))) (p + of_nat (if m (p + 1) = SLASH then 2 else 1)) (Suc (length (tl cs)))"
      by (rule apart_shift [OF "2.prems"(2)]) (use n in \<open>cases cs; auto\<close>)+
    then have "apart d (Suc (length (tl cs))) (if m (p + 1) = SLASH then p + 2 else p + 1) (Suc (length (tl cs)))"
      by (simp split: if_splits)
    moreover have "length (tl cs) < 2 ^ 64 - 1" using "2.prems"(3) by simp
    ultimately have "normalize_loop m (if m (p + 1) = SLASH then p + 2 else p + 1) d =
        Some (put_bytes m d (norm_chars (tl cs)), d + of_nat (length (norm_chars (tl cs))))"
      by (rule "2.IH"(2) [OF 2 t])
    moreover have "normalize_loop m p d = normalize_loop m (if m (p + 1) = SLASH then p + 2 else p + 1) d"
      using 2 nz e by (subst normalize_loop.simps) auto
    ultimately show ?thesis using 2 by simp
  next
    case 3
    have e: "\<not> (m (p + 1) = SLASH \<or> m (p + 1) = 0)" if "c = DOT" using nz(3) 3 that by (cases cs) (auto simp: SLASH_def)
    have "normalize_loop m1 (p + 1) (d + 1) = Some (put_bytes m1 (d + 1) (norm_chars cs), d + 1 + of_nat (length (norm_chars cs)))"
      by (rule "2.IH"(3) [OF 3 s1 ap(1)]) (use "2.prems"(3) in simp)
    moreover have "normalize_loop m p d = normalize_loop m1 (p + 1) (d + 1)"
      unfolding m1_def using 3 nz e by (subst normalize_loop.simps) auto
    ultimately show ?thesis using put [of cs] 3 by (auto simp: add.assoc)
  qed
qed

fun no_double :: "u8 list \<Rightarrow> bool" where
  "no_double (a # b # xs) \<longleftrightarrow> \<not> (a = SLASH \<and> b = SLASH) \<and> no_double (b # xs)"
| "no_double _ \<longleftrightarrow> True"

lemma no_double_Cons: "no_double (a # xs) \<longleftrightarrow> (xs = [] \<or> \<not> (a = SLASH \<and> hd xs = SLASH)) \<and> no_double xs"
  by (cases xs) auto

lemma no_double_butlast: "no_double xs \<Longrightarrow> no_double (butlast xs)"
  by (induction xs rule: no_double.induct) (auto simp: no_double_Cons split: if_splits)

lemma no_double_last: "no_double xs \<Longrightarrow> 1 < length xs \<Longrightarrow> last xs = SLASH \<Longrightarrow> last (butlast xs) \<noteq> SLASH"
  by (induction xs rule: no_double.induct) (auto split: if_splits)

lemma norm_chars_hd: "DOT \<notin> set s \<Longrightarrow> norm_chars s \<noteq> [] \<Longrightarrow> hd (norm_chars s) = hd s"
  by (cases s) auto

lemma norm_chars_no_double: "DOT \<notin> set s \<Longrightarrow> no_double (norm_chars s)"
proof (induction s rule: norm_chars.induct)
  case (2 c cs)
  show ?case
  proof (cases "c = SLASH")
    case True
    let ?t = "dropWhile (\<lambda>x. x = SLASH) cs"
    have sub: "DOT \<notin> set ?t" using 2(4) set_dropWhileD by fastforce
    have "no_double (norm_chars ?t)" by (rule 2(1) [OF True sub])
    moreover have "norm_chars ?t = [] \<or> hd (norm_chars ?t) \<noteq> SLASH"
    proof (cases "?t = []")
      case False
      then have "hd ?t \<noteq> SLASH" using hd_dropWhile [of "\<lambda>x. x = SLASH" cs] by simp
      then show ?thesis using norm_chars_hd [OF sub] by auto
    next
      case True
      then show ?thesis by (simp only: norm_chars.simps simp_thms)
    qed
    ultimately show ?thesis using True by (simp add: no_double_Cons)
  next
    case False
    then show ?thesis using 2 norm_chars_hd [of cs] by (auto simp: no_double_Cons)
  qed
qed simp

lemma put_bytes_end:
  assumes "length r < 2 ^ 64"
  shows "(put_bytes m d r)(d + of_nat (length r) := 0) = put_str m d r"
proof
  fix x
  show "((put_bytes m d r)(d + of_nat (length r) := 0)) x = put_str m d r x"
    using dist_of_nat [OF assms, of x d] by (auto simp: put_bytes_def put_str_def nth_append)
qed

lemma norm_chars_nonzero: "0 \<notin> set s \<Longrightarrow> 0 \<notin> set (norm_chars s)"
proof (induction s rule: norm_chars.induct)
  case (2 c cs)
  have "0 \<notin> set (dropWhile (\<lambda>x. x = SLASH) cs)" using 2(4) set_dropWhileD by fastforce
  moreover have "0 \<notin> set (tl cs)" using 2(4) by (cases cs) auto
  ultimately show ?case using 2 by (auto simp: SLASH_def)
qed simp

lemma path_normalize_at:
  assumes "str_at m p s" "apart d (Suc (length s)) p (Suc (length s))" "unat d + length s < 2 ^ 64 - 1"
  shows "\<exists>m'. path_normalize m p d = Some m' \<and> str_at m' d (norm_path s) \<and>
    (DOT \<notin> set s \<longrightarrow> no_double (norm_path s) \<and> (1 < length (norm_path s) \<longrightarrow> last (norm_path s) \<noteq> SLASH))"
proof -
  let ?r = "norm_chars s"
  let ?m = "put_bytes m d ?r" and ?e = "d + of_nat (length ?r)"
  have len: "length ?r \<le> length s" by (rule norm_chars_length)
  have run: "normalize_loop m p d = Some (?m, ?e)" by (rule normalize_loop_at) (use assms in auto)
  have e: "unat ?e = unat d + length ?r" "unat (d + 1) = unat d + 1"
    using assms(3) len by (subst unat_add_nowrap; simp add: of_nat_u64)+
  have cond: "(d + 1 < ?e \<and> ?m (?e - 1) = SLASH) \<longleftrightarrow> (1 < length ?r \<and> last ?r = SLASH)"
  proof (cases "1 < length ?r")
    case True
    define k where "k = length ?r - 1"
    have "?e - 1 = d + of_nat k" using True by (simp add: k_def of_nat_diff algebra_simps)
    moreover have "unat (of_nat k :: u64) = k" using len assms(3) by (intro of_nat_u64) (simp add: k_def)
    moreover have "k < length ?r" using True by (simp add: k_def)
    ultimately have "?m (?e - 1) = ?r ! (length ?r - 1)" unfolding k_def [symmetric] by (simp add: put_bytes_def)
    also have "\<dots> = last ?r" using True by (intro last_conv_nth [symmetric]) auto
    finally show ?thesis using True e by (simp add: word_less_nat_alt)
  qed (use e in \<open>simp add: word_less_nat_alt\<close>)
  have put: "path_normalize m p d = Some (put_str (if 1 < length ?r \<and> last ?r = SLASH then ?m else m) d (norm_path s))"
  proof (cases "1 < length ?r \<and> last ?r = SLASH")
    case True
    have l: "length (butlast ?r) = length ?r - 1" by simp
    have "?e - 1 = d + of_nat (length (butlast ?r))" using True by (simp add: of_nat_diff algebra_simps)
    moreover have "put_bytes ?m d (butlast ?r) = ?m"
      by (rule ext) (auto simp: put_bytes_def nth_butlast)
    moreover have "(put_bytes ?m d (butlast ?r))(d + of_nat (length (butlast ?r)) := 0) = put_str ?m d (butlast ?r)"
      by (rule put_bytes_end) (use len assms(3) in simp)
    ultimately have "?m(?e - 1 := 0) = put_str ?m d (butlast ?r)" by (simp only:)
    then show ?thesis using True run cond by (simp add: path_normalize_def norm_path_def Let_def)
  next
    case False
    have "?m(?e := 0) = put_str m d ?r" by (rule put_bytes_end) (use len assms(3) in simp)
    then show ?thesis using False run cond by (auto simp: path_normalize_def norm_path_def Let_def)
  qed
  have "set (norm_path s) \<subseteq> set ?r" by (auto simp: norm_path_def Let_def dest: in_set_butlastD)
  then have "0 \<notin> set (norm_path s)" using norm_chars_nonzero [OF str_at_nonzero [OF assms(1)]] by blast
  moreover have "length (norm_path s) < 2 ^ 64" using len assms(3) by (auto simp: norm_path_def Let_def)
  ultimately have str: "\<And>m'. str_at (put_str m' d (norm_path s)) d (norm_path s)" by (rule put_str_at)
  have "DOT \<notin> set s \<longrightarrow> no_double (norm_path s) \<and> (1 < length (norm_path s) \<longrightarrow> last (norm_path s) \<noteq> SLASH)"
    using norm_chars_no_double [of s] no_double_butlast [of ?r] no_double_last [of ?r] by (auto simp: norm_path_def Let_def)
  then show ?thesis using put str by blast
qed

text \<open>C40: for a path and a buffer as large that does not overlap it, \<^verbatim>\<open>path_normalize\<close> returns with
  \<open>norm_path\<close> of the path in the buffer.  Of a path without dots the result has no two adjacent
  slashes, and none at the end unless it is the root.\<close>

theorem path_normalize_correct:
  assumes "str_at m p s" "apart d (Suc (length s)) p (Suc (length s))" "unat d + length s < 2 ^ 64 - 1"
  shows "\<exists>m'. path_normalize m p d = Some m' \<and> str_at m' d (norm_path s) \<and>
    (DOT \<notin> set s \<longrightarrow> no_double (norm_path s) \<and> (1 < length (norm_path s) \<longrightarrow> last (norm_path s) \<noteq> SLASH))"
  using assms by (rule path_normalize_at)

section \<open>Hashing\<close>

lemma hash_str_at:
  assumes "str_at m p s"
  shows "hash_str m p = Some (foldl (\<lambda>h c. 33 * h + scast c) 5381 s)"
proof -
  have "hash_loop m p h = Some (foldl (\<lambda>h c. 33 * h + scast c) h s)" for h
    using assms
  proof (induction s arbitrary: p h)
    case (Cons c s)
    have "push_bit 5 h + h = 33 * h" by (simp add: push_bit_eq_mult algebra_simps)
    then show ?case using Cons by (simp add: hash_loop.simps [of m p])
  qed (simp add: hash_loop.simps)
  then show ?thesis by (simp add: hash_str_def)
qed

section \<open>Concrete strings\<close>

text \<open>A memory with a string at one address.\<close>

definition mem_str :: "uptr \<Rightarrow> u8 list \<Rightarrow> bytes" where
  "mem_str p s = put_str (\<lambda>_. 0) p s"

lemma mem_str_at: "0 \<notin> set s \<Longrightarrow> length s < 2 ^ 64 \<Longrightarrow> str_at (mem_str p s) p s"
  unfolding mem_str_def by (rule put_str_at)

lemma apart_offsets:
  assumes "unat d + n \<le> unat p" "unat p + k \<le> 2 ^ 64"
  shows "apart d n p k"
  unfolding apart_def
proof (intro allI impI)
  fix i j
  assume "i < n" "j < k"
  then have "unat (d + of_nat i) = unat d + i" "unat (p + of_nat j) = unat p + j"
    using assms by (subst unat_add_nowrap; simp add: of_nat_u64)+
  then show "d + of_nat i \<noteq> p + of_nat j" using assms \<open>i < n\<close> by auto
qed

text \<open>The path \<open>/a//b/\<close>.\<close>

theorem path_normalize_correct_witness:
  "\<exists>m'. path_normalize (mem_str 0x2000 [47, 97, 47, 47, 98, 47]) 0x2000 0x1000 = Some m' \<and>
     str_at m' 0x1000 [47, 97, 47, 98]"
proof -
  let ?s = "[47, 97, 47, 47, 98, 47] :: u8 list"
  have s: "str_at (mem_str 0x2000 ?s) 0x2000 ?s" by (rule mem_str_at) simp_all
  have a: "apart 0x1000 (Suc (length ?s)) 0x2000 (Suc (length ?s))" by (rule apart_offsets) simp_all
  have "norm_path ?s = [47, 97, 47, 98]" by (simp add: norm_path_def SLASH_def DOT_def)
  then show ?thesis using path_normalize_correct [OF s a] by auto
qed

text \<open>\<^verbatim>\<open>path_normalize\<close> takes a dot before a slash for a component of its own also when it ends a
  longer name, so \<open>/a/../b\<close> becomes \<open>/a/.b\<close>, and \<open>/.//x\<close> keeps two adjacent slashes.\<close>

theorem path_normalize_dots:
  "(\<exists>m'. path_normalize (mem_str 0x2000 [47, 97, 47, 46, 46, 47, 98]) 0x2000 0x1000 = Some m' \<and>
      str_at m' 0x1000 [47, 97, 47, 46, 98]) \<and>
   (\<exists>m'. path_normalize (mem_str 0x2000 [47, 46, 47, 47, 120]) 0x2000 0x1000 = Some m' \<and>
      str_at m' 0x1000 [47, 47, 120])"
proof -
  have run: "\<exists>m'. path_normalize (mem_str 0x2000 s) 0x2000 0x1000 = Some m' \<and> str_at m' 0x1000 (norm_path s)"
    if "0 \<notin> set s" "length s < 16" for s
  proof -
    have "str_at (mem_str 0x2000 s) 0x2000 s" by (rule mem_str_at) (use that in simp_all)
    moreover have "apart 0x1000 (Suc (length s)) 0x2000 (Suc (length s))" by (rule apart_offsets) (use that in simp_all)
    ultimately show ?thesis using path_normalize_at that by fastforce
  qed
  have "norm_path [47, 97, 47, 46, 46, 47, 98] = [47, 97, 47, 46, 98]" "norm_path [47, 46, 47, 47, 120] = [47, 47, 120]"
    by (simp_all add: norm_path_def SLASH_def DOT_def)
  then show ?thesis
    using run [of "[47, 97, 47, 46, 46, 47, 98]"] run [of "[47, 46, 47, 47, 120]"] by simp_all
qed

end
