(* ===== verification/Pages.thy ===== *)
theory Pages
  imports Frames Kstring_Correct
begin

text \<open>
  Arithmetic of addresses and their pages of 4096 bytes, shared by the code that walks a range
  page by page.
\<close>

lemma page_gran: "ARCH_PAGE_GRAN = 0x1000" "unat ARCH_PAGE_GRAN = 4096"
  by (simp_all add: ARCH_PAGE_GRAN_def ARCH_PAGE_SIZE_4K_def)

lemma and_fff: "(v :: u64) AND 0xFFF = v mod 0x1000"
proof -
  have "v AND 0xFFF = take_bit 12 v" by (simp add: take_bit_eq_mask mask_eq_exp_minus_1)
  then show ?thesis by (simp add: take_bit_eq_mod)
qed

lemma unat_mod_page: "unat ((v :: u64) mod 0x1000) = unat v mod 4096"
  by (simp add: unat_mod)

lemma page_plus:
  assumes "(p :: u64) mod 0x1000 = 0" "unat k < 4096"
  shows "unat (p + k) = unat p + unat k" "(p + k) AND 0xFFF = k" "(p + k) AND NOT 0xFFF = p"
proof -
  have m: "unat p mod 4096 = 0" using assms(1) unat_mod_page [of p] by simp
  then obtain q where q: "unat p = 4096 * q" by auto
  then have "q < 2 ^ 52" using u64_bound [of p] by simp
  then have "unat p + unat k < 2 ^ 64" using q assms(2) by simp
  then show u: "unat (p + k) = unat p + unat k" by (intro unat_add_nowrap) simp
  show k: "(p + k) AND 0xFFF = k"
    using m assms(2) unfolding and_fff word_unat_eq_iff unat_mod_page u by (metis mod_add_left_eq mod_less plus_nat.add_0)
  have "((p + k) AND 0xFFF) + ((p + k) AND NOT 0xFFF) = ((p + k) AND 0xFFF) OR ((p + k) AND NOT 0xFFF)"
    by (intro disjunctive_add_eq_or) (simp add: bit_eq_iff bit_simps)
  also have "\<dots> = p + k" by (auto simp: bit_eq_iff bit_simps)
  finally have "((p + k) AND 0xFFF) + ((p + k) AND NOT 0xFFF) = p + k" .
  then show "(p + k) AND NOT 0xFFF = p" unfolding k by simp
qed

lemma page_plus_inj:
  assumes "(p :: u64) mod 0x1000 = 0" "unat k < 4096" "q mod 0x1000 = 0" "unat l < 4096" "p + k = q + l"
  shows "p = q \<and> k = l"
  using page_plus(2,3) [OF assms(1,2)] page_plus(2,3) [OF assms(3,4)] assms(5) by simp

lemma frame_ok_aligned: "frame_ok f \<Longrightarrow> page_addr_ok f \<and> f mod 0x1000 = 0"
proof -
  assume "frame_ok f"
  then have m: "f AND 0x000FFFFFFFFFF000 = f" by (simp add: frame_ok_def page_addr_ok_def)
  have "take_bit 12 f = take_bit 12 (f AND 0x000FFFFFFFFFF000)" using m by simp
  also have "\<dots> = take_bit 12 f AND take_bit 12 0x000FFFFFFFFFF000" by (rule take_bit_and)
  also have "take_bit 12 (0x000FFFFFFFFFF000 :: u64) = 0" by simp
  finally have "f mod 0x1000 = 0" by (simp add: take_bit_eq_mod)
  then show ?thesis using \<open>frame_ok f\<close> by (simp add: frame_ok_def)
qed

lemma aligned_add:
  assumes "(p :: u64) mod 0x1000 = 0" "q mod 0x1000 = 0"
  shows "(p + q) mod 0x1000 = 0"
proof -
  have "(4096 :: nat) dvd 2 ^ 64" by simp
  then have "(unat p + unat q) mod 2 ^ 64 mod 4096 = (unat p + unat q) mod 4096" by (rule mod_mod_cancel)
  then have "unat (p + q) mod 4096 = (unat p + unat q) mod 4096" by (simp add: unat_word_ariths)
  also have "\<dots> = 0" using assms unat_mod_page [of p] unat_mod_page [of q] by auto
  finally show ?thesis by (simp add: unat_eq_zero [symmetric] unat_mod_page)
qed

text \<open>
  A range is copied page by page: the bytes from position \<open>i\<close> of \<open>count\<close> that lie in one page.
\<close>

definition chunk_len :: "uptr \<Rightarrow> u64 \<Rightarrow> u64 \<Rightarrow> u64" where
  "chunk_len dest count i = MIN_c (count - i) (ARCH_PAGE_GRAN - (dest + i) mod ARCH_PAGE_GRAN)"

lemma chunk_len_progress:
  assumes "i < count"
  shows "i + chunk_len dest count i \<le> count" "i < i + chunk_len dest count i"
proof -
  have p: "0 < ARCH_PAGE_GRAN - (dest + i) mod ARCH_PAGE_GRAN"
    using word_mod_less_divisor [of "ARCH_PAGE_GRAN" "dest + i"]
    by (simp add: ARCH_PAGE_GRAN_def ARCH_PAGE_SIZE_4K_def word_gt_0)
  let ?l = "chunk_len dest count i"
  have l: "?l \<le> count - i" "0 < ?l"
    using p assms by (auto simp: chunk_len_def MIN_c_def word_gt_0 not_less)
  have "unat ?l \<le> unat count - unat i" "0 < unat ?l" "unat i < unat count"
    using l assms by (simp_all add: word_le_nat_alt word_less_nat_alt unat_sub less_imp_le)
  moreover then have "unat (i + ?l) = unat i + unat ?l"
    using unsigned_less [of count, where 'a = nat] by (intro unat_add_nowrap) simp
  ultimately show "i + ?l \<le> count" "i < i + ?l" by (simp_all add: word_le_nat_alt word_less_nat_alt)
qed

lemma chunk_len_measure:
  "i < count \<Longrightarrow> unat count - unat (i + chunk_len dest count i) < unat count - unat i"
  using chunk_len_progress [of i count dest] by (simp add: word_less_nat_alt word_le_nat_alt)

end
