(* ===== verification/Vmm.thy ===== *)
theory Vmm
  imports Ptm_Maps Pages
begin

text \<open>
  The virtual memory manager \<^verbatim>\<open>kernel/src/mm/vmm.c\<close> over the x86-64 page tables.

  An address space holds its segments as a list, in the order of the intrusive list of the code
  (theory \<open>Klist\<close>).  Data pages are bytes at their address in the direct map, apart from the page
  tables, which live in other frames.  The page cache of a vnode is the map its red-black tree
  represents (theory \<open>Rbtree_Splice\<close>).  The operations of other components, the allocators, the
  file system and the reference counts of vnodes, are fields of an environment.
\<close>

section \<open>Data\<close>

datatype vmm_seg_type_t = VMM_SEG_VNODE | VMM_SEG_KERNEL

record 'v vmm_seg_t =
  seg_type :: vmm_seg_type_t
  seg_base :: uptr
  seg_len :: u64
  seg_prot :: u32
  seg_flags :: u32
  seg_vnode :: "'v option"
  seg_offset :: uptr

record 'v vmm_addr_space_t =
  segments :: "'v vmm_seg_t list"
  limit_low :: uptr
  limit_high :: uptr
  ptm_map :: uptr
  as_slock :: spinlock_t

definition VMM_PROT_NONE :: u32 where "VMM_PROT_NONE = 0x0"
definition VMM_PROT_READ :: u32 where "VMM_PROT_READ = 0x1"
definition VMM_PROT_WRITE :: u32 where "VMM_PROT_WRITE = 0x2"
definition VMM_PROT_EXEC :: u32 where "VMM_PROT_EXEC = 0x4"
definition VMM_PROT_FULL :: u32 where "VMM_PROT_FULL = VMM_PROT_READ OR VMM_PROT_WRITE OR VMM_PROT_EXEC"

definition VMM_MAP_PRIVATE :: u32 where "VMM_MAP_PRIVATE = 0x01"
definition VMM_MAP_SHARED :: u32 where "VMM_MAP_SHARED = 0x02"
definition VMM_MAP_ANON :: u32 where "VMM_MAP_ANON = 0x04"
definition VMM_MAP_FIXED :: u32 where "VMM_MAP_FIXED = 0x08"
definition VMM_MAP_POPULATE :: u32 where "VMM_MAP_POPULATE = 0x20"
definition VMM_MAP_FAILED :: uptr where "VMM_MAP_FAILED = - 1"

definition flag_set :: "u32 \<Rightarrow> u32 \<Rightarrow> bool" where
  "flag_set flags f \<longleftrightarrow> flags AND f \<noteq> 0"

text \<open>The state: page tables and frame allocator, data bytes, page caches, the interrupt flag.\<close>

record ('s, 'v) vmm =
  vm_ptm :: "'s ptm"
  vm_bytes :: bytes
  vm_cache :: "'v \<Rightarrow> u64 \<rightharpoonup> uptr"
  vm_int :: bool

text \<open>
  The environment: the frame allocator, \<^verbatim>\<open>kmem_alloc_cache\<close> and \<^verbatim>\<open>kmem_free_cache\<close> on the segment
  cache, \<^verbatim>\<open>heap_alloc\<close> and \<^verbatim>\<open>heap_free\<close> (their effect on the allocator), \<^verbatim>\<open>vfs_read\<close> with the
  vnode, the offset, the buffer and the count, and \<^verbatim>\<open>VN_RELE\<close>.
\<close>

record ('s, 'v) vmm_env =
  ve_HHDM :: uptr
  ve_alloc :: "'s frame_alloc"
  ve_seg_alloc :: "('s, 'v) vmm \<Rightarrow> ('s, 'v) vmm res"
  ve_seg_free :: "('s, 'v) vmm \<Rightarrow> ('s, 'v) vmm res"
  ve_heap_alloc :: "('s, 'v) vmm \<Rightarrow> ('s, 'v) vmm res"
  ve_heap_free :: "('s, 'v) vmm \<Rightarrow> ('s, 'v) vmm res"
  ve_read :: "'v \<Rightarrow> u64 \<Rightarrow> uptr \<Rightarrow> u64 \<Rightarrow> ('s, 'v) vmm \<Rightarrow> ('s, 'v) vmm res"
  ve_rele :: "'v \<Rightarrow> ('s, 'v) vmm \<Rightarrow> ('s, 'v) vmm res"

definition vm_alloc :: "('s, 'v) vmm_env \<Rightarrow> ('s, 'v) vmm \<Rightarrow> (('s, 'v) vmm \<times> uptr) res" where
  "vm_alloc env st =
     rbind (pt_alloc (ve_alloc env) (vm_ptm st)) (\<lambda>(p, phys). Inr (st\<lparr>vm_ptm := p\<rparr>, phys))"

definition vm_map :: "('s, 'v) vmm_env \<Rightarrow> ('s, 'v) vmm \<Rightarrow> uptr \<Rightarrow> uptr \<Rightarrow> uptr \<Rightarrow> ('s, 'v) vmm res" where
  "vm_map env st pml4 virt phys =
     rbind (arch_ptm_map (ve_alloc env) (ve_HHDM env) (vm_ptm st) pml4 virt phys ARCH_PAGE_GRAN) (\<lambda>p.
     Inr (st\<lparr>vm_ptm := p\<rparr>))"

section \<open>Segments\<close>

definition vmm_insert_seg ::
  "bool \<Rightarrow> 'v vmm_addr_space_t \<Rightarrow> 'v vmm_seg_t \<Rightarrow> (bool \<times> 'v vmm_addr_space_t) res" where
  "vmm_insert_seg int_on as seg =
     rbind (spinlock_acquire int_on (as_slock as)) (\<lambda>(int1, l1).
     let pos = length (takeWhile (\<lambda>i. seg_base i < seg_base seg) (segments as));
         segs = take pos (segments as) @ seg # drop pos (segments as);
         (int2, l2) = spinlock_release int1 l1
     in Inr (int2, as\<lparr>segments := segs, as_slock := l2\<rparr>))"

fun find_space_loop :: "'v vmm_seg_t list \<Rightarrow> u64 \<Rightarrow> uptr \<Rightarrow> uptr" where
  "find_space_loop [] len start = start"
| "find_space_loop (seg # segs) len start =
     (if start + len < seg_base seg then start
      else find_space_loop segs len (seg_base seg + seg_len seg))"

definition vmm_find_space :: "'v vmm_addr_space_t \<Rightarrow> u64 \<Rightarrow> uptr" where
  "vmm_find_space as len =
     (if segments as = [] then limit_low as
      else
        let start = find_space_loop (segments as) len (limit_low as)
        in if start + len - 1 \<le> limit_high as then start else 0)"

definition vmm_check_collision :: "'v vmm_addr_space_t \<Rightarrow> uptr \<Rightarrow> u64 \<Rightarrow> bool" where
  "vmm_check_collision as base len =
     (let fin = base + len - 1
      in \<exists>seg \<in> set (segments as). seg_base seg \<le> fin \<and> base \<le> seg_base seg + seg_len seg - 1)"

definition vmm_is_in_bounds :: "'v vmm_addr_space_t \<Rightarrow> uptr \<Rightarrow> u64 \<Rightarrow> bool" where
  "vmm_is_in_bounds as base len \<longleftrightarrow> \<not> (base < limit_low as \<or> limit_high as < base + len)"

definition vmm_addr_to_seg :: "'v vmm_addr_space_t \<Rightarrow> uptr \<Rightarrow> 'v vmm_seg_t option" where
  "vmm_addr_to_seg as addr =
     find (\<lambda>seg. seg_base seg \<le> addr \<and> addr < seg_base seg + seg_len seg) (segments as)"

section \<open>Pages\<close>

text \<open>The page of a private mapping: a new frame, zeroed or filled from the file.\<close>

definition map_private ::
  "('s, 'v) vmm_env \<Rightarrow> ('s, 'v) vmm \<Rightarrow> uptr \<Rightarrow> u32 \<Rightarrow> 'v option \<Rightarrow> uptr \<Rightarrow> u64 \<Rightarrow> ('s, 'v) vmm res" where
  "map_private env st pml4 flags vnode virt off =
     rbind (vm_alloc env st) (\<lambda>(st1, phys).
     rbind (vm_map env st1 pml4 virt phys) (\<lambda>st2.
     if flag_set flags VMM_MAP_ANON
     then Inr (st2\<lparr>vm_bytes := memset (vm_bytes st2) (phys + ve_HHDM env) 0 ARCH_PAGE_GRAN\<rparr>)
     else rbind (deref vnode) (\<lambda>v. ve_read env v off (phys + ve_HHDM env) ARCH_PAGE_GRAN st2)))"

text \<open>The page of a shared mapping: the cached page, or a new one that enters the cache.\<close>

definition map_shared ::
  "('s, 'v) vmm_env \<Rightarrow> ('s, 'v) vmm \<Rightarrow> uptr \<Rightarrow> 'v option \<Rightarrow> uptr \<Rightarrow> u64 \<Rightarrow> ('s, 'v) vmm res" where
  "map_shared env st pml4 vnode virt page_offset =
     rbind (deref vnode) (\<lambda>v.
     rbind (case vm_cache st v page_offset of
              Some page_addr \<Rightarrow> Inr (st, page_addr)
            | None \<Rightarrow>
                rbind (ve_heap_alloc env st) (\<lambda>st1.
                rbind (vm_alloc env st1) (\<lambda>(st2, page_addr).
                rbind (ve_read env v page_offset page_addr ARCH_PAGE_GRAN st2) (\<lambda>st3.
                Inr (st3\<lparr>vm_cache := (vm_cache st3)(v := (vm_cache st3 v)(page_offset \<mapsto> page_addr))\<rparr>, page_addr)))))
       (\<lambda>(st4, page_addr). vm_map env st4 pml4 virt page_addr))"

definition vmm_pagefault_handler ::
  "('s, 'v) vmm_env \<Rightarrow> ('s, 'v) vmm \<Rightarrow> 'v vmm_addr_space_t \<Rightarrow> uptr \<Rightarrow> (('s, 'v) vmm \<times> bool) res" where
  "vmm_pagefault_handler env st as addr =
     (case vmm_addr_to_seg as addr of
        None \<Rightarrow> Inr (st, False)
      | Some seg \<Rightarrow>
          if seg_type seg = VMM_SEG_KERNEL then Inl Panic
          else
            let virt = FLOOR addr ARCH_PAGE_GRAN
            in rbind (if flag_set (seg_flags seg) VMM_MAP_PRIVATE
                      then map_private env st (ptm_map as) (seg_flags seg) (seg_vnode seg) virt
                             (addr - seg_base seg + seg_offset seg)
                      else map_shared env st (ptm_map as) (seg_vnode seg) virt
                             (seg_offset seg + (virt - seg_base seg)))
                 (\<lambda>st1. Inr (st1, True)))"

section \<open>Mappings\<close>

text \<open>The offsets a loop over the pages of a length that is a multiple of the page size visits.\<close>

definition page_offsets :: "u64 \<Rightarrow> u64 list" where
  "page_offsets len = map (\<lambda>k. ARCH_PAGE_GRAN * of_nat k) [0..<unat (len div ARCH_PAGE_GRAN)]"

definition vmm_mmap ::
  "('s, 'v) vmm_env \<Rightarrow> ('s, 'v) vmm \<Rightarrow> 'v vmm_addr_space_t \<Rightarrow> uptr \<Rightarrow> u64 \<Rightarrow> u32 \<Rightarrow> u32 \<Rightarrow> 'v option \<Rightarrow> u64 \<Rightarrow>
   (('s, 'v) vmm \<times> 'v vmm_addr_space_t \<times> uptr) res" where
  "vmm_mmap env st as virt len prot flags vnode offset =
     rbind (assert_c (virt mod ARCH_PAGE_GRAN = 0 \<and> len mod ARCH_PAGE_GRAN = 0)) (\<lambda>_.
     rbind (assert_c (flag_set flags VMM_MAP_PRIVATE \<noteq> flag_set flags VMM_MAP_SHARED)) (\<lambda>_.
     rbind (assert_c (flag_set flags VMM_MAP_ANON \<noteq> (vnode \<noteq> None))) (\<lambda>_.
     let bad = vmm_check_collision as virt len \<or> \<not> vmm_is_in_bounds as virt len
     in if bad \<and> flag_set flags VMM_MAP_FIXED then Inr (st, as, VMM_MAP_FAILED)
        else
          let virt1 = (if bad then vmm_find_space as len else virt);
              created_seg = \<lparr>seg_type = VMM_SEG_VNODE, seg_base = virt1, seg_len = len, seg_prot = prot,
                             seg_flags = flags, seg_vnode = vnode, seg_offset = offset\<rparr>
          in rbind (ve_seg_alloc env st) (\<lambda>st1.
             rbind (vmm_insert_seg (vm_int st1) as created_seg) (\<lambda>(int1, as1).
             let st2 = st1\<lparr>vm_int := int1\<rparr>
             in if \<not> flag_set flags VMM_MAP_POPULATE then Inr (st2, as1, virt1)
                else
                  rbind (for_each (\<lambda>s i.
                           if flag_set flags VMM_MAP_PRIVATE
                           then map_private env s (ptm_map as) flags vnode (virt1 + i) (offset + i)
                           else map_shared env s (ptm_map as) vnode (virt1 + i) (offset + i))
                         (page_offsets len) st2) (\<lambda>st3.
                  Inr (st3, as1, virt1)))))))"

definition vmm_map_kernel ::
  "('s, 'v) vmm_env \<Rightarrow> ('s, 'v) vmm \<Rightarrow> 'v vmm_addr_space_t \<Rightarrow> uptr \<Rightarrow> u64 \<Rightarrow> u32 \<Rightarrow> uptr \<Rightarrow>
   (('s, 'v) vmm \<times> 'v vmm_addr_space_t) res" where
  "vmm_map_kernel env st as virt len prot phys =
     rbind (assert_c (virt mod ARCH_PAGE_GRAN = 0 \<and> len mod ARCH_PAGE_GRAN = 0)) (\<lambda>_.
     let created_seg = \<lparr>seg_type = VMM_SEG_KERNEL, seg_base = virt, seg_len = len, seg_prot = prot,
                        seg_flags = 0, seg_vnode = None, seg_offset = 0\<rparr>
     in rbind (ve_seg_alloc env st) (\<lambda>st1.
        rbind (vmm_insert_seg (vm_int st1) as created_seg) (\<lambda>(int1, as1).
        rbind (spinlock_acquire int1 (as_slock as1)) (\<lambda>(int2, l2).
        rbind (for_each (\<lambda>s addr. vm_map env s (ptm_map as) (virt + addr) (phys + addr))
               (page_offsets len) (st1\<lparr>vm_int := int2\<rparr>)) (\<lambda>st2.
        let (int3, l3) = spinlock_release (vm_int st2) l2
        in Inr (st2\<lparr>vm_int := int3\<rparr>, as1\<lparr>as_slock := l3\<rparr>))))))"

definition vmm_virt_to_phys :: "('s, 'v) vmm_env \<Rightarrow> ('s, 'v) vmm \<Rightarrow> 'v vmm_addr_space_t \<Rightarrow> uptr \<Rightarrow> uptr res" where
  "vmm_virt_to_phys env st as virt =
     arch_ptm_virt_to_phys (ve_alloc env) (ve_HHDM env) (vm_ptm st) (ptm_map as) virt"

section \<open>Address spaces\<close>

definition vmm_new_addr_space ::
  "('s, 'v) vmm_env \<Rightarrow> ('s, 'v) vmm \<Rightarrow> uptr \<Rightarrow> uptr \<Rightarrow> (('s, 'v) vmm \<times> 'v vmm_addr_space_t) res" where
  "vmm_new_addr_space env st low high =
     rbind (ve_heap_alloc env st) (\<lambda>st1.
     rbind (arch_ptm_new_map (ve_alloc env) (ve_HHDM env) (vm_ptm st1)) (\<lambda>(p, pml4).
     Inr (st1\<lparr>vm_ptm := p\<rparr>,
          \<lparr>segments = [], limit_low = low, limit_high = high, ptm_map = pml4, as_slock = SPINLOCK_INIT\<rparr>)))"

definition vmm_destroy_addr_space ::
  "('s, 'v) vmm_env \<Rightarrow> ('s, 'v) vmm \<Rightarrow> 'v vmm_addr_space_t \<Rightarrow> ('s, 'v) vmm res" where
  "vmm_destroy_addr_space env st as =
     rbind (for_each (\<lambda>s seg.
              rbind (case seg_vnode seg of None \<Rightarrow> Inr s | Some v \<Rightarrow> ve_rele env v s) (ve_seg_free env))
            (segments as) st)
       (ve_heap_free env)"

definition vmm_load_addr_space :: "('s, 'v) vmm_env \<Rightarrow> 'v vmm_addr_space_t \<Rightarrow> uptr" where
  "vmm_load_addr_space env as = arch_ptm_load_map (ve_HHDM env) (ptm_map as)"

text \<open>
  The kernel address space.  An entry of the memory map is its base, its length and whether it is
  of a type that is skipped; \<open>vbase\<close> and \<open>pbase\<close> are the addresses of the kernel image.  A missing
  memory map is \<open>None\<close>.
\<close>

definition vmm_init ::
  "('s, 'v) vmm_env \<Rightarrow> ('s, 'v) vmm \<Rightarrow> uptr \<Rightarrow> uptr \<Rightarrow> (u64 \<times> u64 \<times> bool) list option \<Rightarrow>
   (('s, 'v) vmm \<times> 'v vmm_addr_space_t \<times> uptr) res" where
  "vmm_init env st vbase pbase memmap =
     (case memmap of
        None \<Rightarrow> Inl Panic
      | Some entries \<Rightarrow>
          rbind (arch_ptm_init (ve_alloc env) (ve_HHDM env) (vm_ptm st)) (\<lambda>p.
          rbind (ve_heap_alloc env (st\<lparr>vm_ptm := p\<rparr>)) (\<lambda>st1.
          rbind (vmm_new_addr_space env st1 ARCH_KERNEL_MIN_VIRT ARCH_KERNEL_MAX_VIRT) (\<lambda>(st2, as2).
          rbind (vmm_map_kernel env st2 as2 (ve_HHDM env) (4 * GIB) VMM_PROT_FULL 0) (\<lambda>(st3, as3).
          rbind (vmm_map_kernel env st3 as3 vbase (2 * GIB) VMM_PROT_FULL pbase) (\<lambda>(st4, as4).
          rbind (for_each (\<lambda>(s, as) (base0, len0, skipped).
                   if skipped then Inr (s, as)
                   else
                     let base = FLOOR base0 ARCH_PAGE_GRAN;
                         len = CEIL (base0 + len0) ARCH_PAGE_GRAN - base
                     in vmm_map_kernel env s as (base + ve_HHDM env) len VMM_PROT_FULL base)
                 entries (st4, as4)) (\<lambda>(st5, as5).
          Inr (st5, as5, vmm_load_addr_space env as5))))))))"

section \<open>Access to another address space\<close>

text \<open>The physical address of a byte, after a page fault if it has none yet.\<close>

definition vmm_resolve ::
  "('s, 'v) vmm_env \<Rightarrow> ('s, 'v) vmm \<Rightarrow> 'v vmm_addr_space_t \<Rightarrow> uptr \<Rightarrow> (('s, 'v) vmm \<times> uptr) res" where
  "vmm_resolve env st as addr =
     rbind (vmm_virt_to_phys env st as addr) (\<lambda>phys.
     if phys \<noteq> BAD_ADDRESS then Inr (st, phys)
     else
       rbind (vmm_pagefault_handler env st as addr) (\<lambda>(st1, _).
       rbind (vmm_virt_to_phys env st1 as addr) (\<lambda>phys1.
       if phys1 = BAD_ADDRESS then Inl Panic else Inr (st1, phys1))))"

function copy_to_loop ::
  "('s, 'v) vmm_env \<Rightarrow> 'v vmm_addr_space_t \<Rightarrow> uptr \<Rightarrow> uptr \<Rightarrow> u64 \<Rightarrow> ('s, 'v) vmm \<Rightarrow> u64 \<Rightarrow> (('s, 'v) vmm \<times> u64) res" where
  "copy_to_loop env as dest_addr src count st i =
     (if i < count then
        rbind (vmm_resolve env st as (dest_addr + i)) (\<lambda>(st1, phys).
        let len = chunk_len dest_addr count i
        in copy_to_loop env as dest_addr src count
             (st1\<lparr>vm_bytes := memcpy (vm_bytes st1) (phys + ve_HHDM env) (src + i) len\<rparr>) (i + len))
      else Inr (st, i))"
  by pat_completeness auto
termination
  by (relation "measure (\<lambda>(env, as, dest, src, count, st, i). unat count - unat i)")
    (simp_all add: chunk_len_measure)

declare copy_to_loop.simps [simp del]

definition vmm_copy_to ::
  "('s, 'v) vmm_env \<Rightarrow> ('s, 'v) vmm \<Rightarrow> 'v vmm_addr_space_t \<Rightarrow> uptr \<Rightarrow> uptr \<Rightarrow> u64 \<Rightarrow> (('s, 'v) vmm \<times> u64) res" where
  "vmm_copy_to env st as dest_addr src count = copy_to_loop env as dest_addr src count st 0"

function zero_out_loop ::
  "('s, 'v) vmm_env \<Rightarrow> 'v vmm_addr_space_t \<Rightarrow> uptr \<Rightarrow> u64 \<Rightarrow> ('s, 'v) vmm \<Rightarrow> u64 \<Rightarrow> (('s, 'v) vmm \<times> u64) res" where
  "zero_out_loop env as dest_addr count st i =
     (if i < count then
        rbind (vmm_resolve env st as (dest_addr + i)) (\<lambda>(st1, phys).
        let len = chunk_len dest_addr count i
        in zero_out_loop env as dest_addr count
             (st1\<lparr>vm_bytes := memset (vm_bytes st1) (phys + ve_HHDM env) 0 len\<rparr>) (i + len))
      else Inr (st, i))"
  by pat_completeness auto
termination
  by (relation "measure (\<lambda>(env, as, dest, count, st, i). unat count - unat i)")
    (simp_all add: chunk_len_measure)

declare zero_out_loop.simps [simp del]

definition vmm_zero_out ::
  "('s, 'v) vmm_env \<Rightarrow> ('s, 'v) vmm \<Rightarrow> 'v vmm_addr_space_t \<Rightarrow> uptr \<Rightarrow> u64 \<Rightarrow> (('s, 'v) vmm \<times> u64) res" where
  "vmm_zero_out env st as dest_addr count = zero_out_loop env as dest_addr count st 0"

end
