(* ===== verification/Vmm_Correct.thy ===== *)
theory Vmm_Correct
  imports Vmm
begin

text \<open>
  Properties of the virtual memory manager: the segments of an address space stay sorted and
  disjoint, page faults and kernel mappings make the intended translations, and copies into
  another address space reach the right bytes.
\<close>

section \<open>Segments\<close>

definition seg_end :: "'v vmm_seg_t \<Rightarrow> nat" where
  "seg_end s = unat (seg_base s) + unat (seg_len s)"

text \<open>Segments in order, disjoint, not empty and within the limits.\<close>

definition segs_ok :: "uptr \<Rightarrow> uptr \<Rightarrow> 'v vmm_seg_t list \<Rightarrow> bool" where
  "segs_ok low high segs \<longleftrightarrow>
     sorted_wrt (\<lambda>s t. seg_end s \<le> unat (seg_base t)) segs \<and>
     (\<forall>s \<in> set segs. 0 < unat (seg_len s) \<and> unat low \<le> unat (seg_base s) \<and> seg_end s \<le> unat high + 1)"

definition as_ok :: "'v vmm_addr_space_t \<Rightarrow> bool" where
  "as_ok as \<longleftrightarrow> segs_ok (limit_low as) (limit_high as) (segments as) \<and> sl_lock (as_slock as) = 0"

definition clear_of :: "'v vmm_seg_t list \<Rightarrow> nat \<Rightarrow> nat \<Rightarrow> bool" where
  "clear_of segs b n \<longleftrightarrow> (\<forall>s \<in> set segs. b + n \<le> unat (seg_base s) \<or> seg_end s \<le> b)"

lemma segs_ok_Cons:
  "segs_ok low high (s # segs) \<longleftrightarrow>
     (\<forall>t \<in> set segs. seg_end s \<le> unat (seg_base t)) \<and> 0 < unat (seg_len s) \<and> unat low \<le> unat (seg_base s) \<and>
     seg_end s \<le> unat high + 1 \<and> segs_ok low high segs"
  by (auto simp: segs_ok_def)

lemma unat_last:
  fixes base len :: u64
  assumes "0 < unat len" "unat base + unat len \<le> 2 ^ 64"
  shows "unat (base + len - 1) = unat base + unat len - 1"
proof -
  have "unat (len - 1) = unat len - 1" using assms(1) by (intro unat_minus_one) auto
  then have "unat (base + (len - 1)) = unat base + (unat len - 1)"
    using assms by (subst unat_add_nowrap) auto
  then show ?thesis using assms(1) by (simp add: add_diff_eq)
qed

lemma seg_no_wrap:
  assumes "segs_ok low high segs" "s \<in> set segs"
  shows "seg_end s \<le> 2 ^ 64" "unat (seg_base s + seg_len s - 1) = seg_end s - 1" "0 < seg_end s"
proof -
  have b: "0 < unat (seg_len s)" "seg_end s \<le> unat high + 1" using assms by (auto simp: segs_ok_def)
  then show e: "seg_end s \<le> 2 ^ 64" using u64_bound [of high] by simp
  show p: "0 < seg_end s" using b by (simp add: seg_end_def)
  show "unat (seg_base s + seg_len s - 1) = seg_end s - 1"
    using unat_last [OF b(1)] e by (simp add: seg_end_def)
qed

text \<open>The search for space: the start it returns has every earlier segment behind it.\<close>

lemma find_space_loop_ok:
  assumes "segs_ok low high segs" "unat high + unat len + 1 < 2 ^ 64" "unat start \<le> unat high + 1"
    "\<forall>s \<in> set segs. unat start \<le> unat (seg_base s)"
  shows "unat start \<le> unat (find_space_loop segs len start) \<and> unat (find_space_loop segs len start) \<le> unat high + 1 \<and>
    clear_of segs (unat (find_space_loop segs len start)) (unat len)"
  using assms
proof (induction segs arbitrary: start)
  case (Cons s segs)
  have add: "unat (start + len) = unat start + unat len"
    using Cons.prems(2,3) by (intro unat_add_nowrap) simp
  show ?case
  proof (cases "start + len < seg_base s")
    case True
    then have lt: "unat start + unat len < unat (seg_base s)" using add by (simp add: word_less_nat_alt)
    moreover have "unat (seg_base s) \<le> unat (seg_base t)" if "t \<in> set segs" for t
      using Cons.prems(1) that by (auto simp: segs_ok_Cons seg_end_def)
    ultimately show ?thesis using True Cons.prems(3) by (fastforce simp: clear_of_def)
  next
    case False
    have e: "unat (seg_base s + seg_len s) = seg_end s"
      unfolding seg_end_def by (rule unat_add_nowrap) (use Cons.prems(1,2) in \<open>auto simp: segs_ok_Cons seg_end_def\<close>)
    have "unat start \<le> seg_end s" using Cons.prems(4) by (simp add: seg_end_def)
    moreover have "seg_end s \<le> unat (find_space_loop segs len (seg_base s + seg_len s)) \<and>
        unat (find_space_loop segs len (seg_base s + seg_len s)) \<le> unat high + 1 \<and>
        clear_of segs (unat (find_space_loop segs len (seg_base s + seg_len s))) (unat len)"
      using Cons.IH [of "seg_base s + seg_len s"] Cons.prems(1,2) e by (auto simp: segs_ok_Cons)
    ultimately show ?thesis using False by (auto simp: clear_of_def)
  qed
qed (simp add: clear_of_def)

lemma vmm_find_space_ok:
  assumes "as_ok as" "0 < unat len" "unat (limit_high as) + unat len + 1 < 2 ^ 64" "unat (limit_low as) \<le> unat (limit_high as)"
    "segments as \<noteq> []" "vmm_find_space as len \<noteq> 0"
  shows "limit_low as \<le> vmm_find_space as len" "unat (vmm_find_space as len) + unat len \<le> unat (limit_high as) + 1"
    "clear_of (segments as) (unat (vmm_find_space as len)) (unat len)"
proof -
  let ?r = "find_space_loop (segments as) len (limit_low as)"
  have ok: "segs_ok (limit_low as) (limit_high as) (segments as)" using assms(1) by (simp add: as_ok_def)
  have r: "unat (limit_low as) \<le> unat ?r" "unat ?r \<le> unat (limit_high as) + 1" "clear_of (segments as) (unat ?r) (unat len)"
    using find_space_loop_ok [OF ok assms(3), of "limit_low as"] assms(4) ok by (auto simp: segs_ok_def)
  have f: "vmm_find_space as len = ?r" "?r + len - 1 \<le> limit_high as"
    using assms(5,6) by (auto simp: vmm_find_space_def Let_def split: if_splits)
  have "unat (?r + len - 1) = unat ?r + unat len - 1"
    using assms(2,3) r(2) by (intro unat_last) auto
  then show "unat (vmm_find_space as len) + unat len \<le> unat (limit_high as) + 1"
    using f assms(2) by (simp add: word_le_nat_alt)
  show "limit_low as \<le> vmm_find_space as len" "clear_of (segments as) (unat (vmm_find_space as len)) (unat len)"
    using r f(1) by (simp_all add: word_le_nat_alt)
qed

lemma no_collision:
  assumes "as_ok as" "0 < unat len" "unat base + unat len \<le> 2 ^ 64" "\<not> vmm_check_collision as base len"
  shows "clear_of (segments as) (unat base) (unat len)"
  unfolding clear_of_def
proof
  fix s
  assume s: "s \<in> set (segments as)"
  have ok: "segs_ok (limit_low as) (limit_high as) (segments as)" using assms(1) by (simp add: as_ok_def)
  have e: "unat (base + len - 1) = unat base + unat len - 1" by (rule unat_last [OF assms(2,3)])
  have "\<not> (seg_base s \<le> base + len - 1 \<and> base \<le> seg_base s + seg_len s - 1)"
    using assms(4) s by (auto simp: vmm_check_collision_def Let_def)
  then show "unat base + unat len \<le> unat (seg_base s) \<or> seg_end s \<le> unat base"
    using e seg_no_wrap [OF ok s] assms(2) by (auto simp: word_le_nat_alt)
qed

lemma insert_seg_ok:
  assumes "segs_ok low high segs" "0 < unat (seg_len s)" "unat low \<le> unat (seg_base s)" "seg_end s \<le> unat high + 1"
    "clear_of segs (unat (seg_base s)) (unat (seg_len s))"
  shows "segs_ok low high (takeWhile (\<lambda>i. seg_base i < seg_base s) segs @ s # dropWhile (\<lambda>i. seg_base i < seg_base s) segs)"
  using assms
proof (induction segs)
  case (Cons t segs)
  note c = Cons.prems(5) [unfolded clear_of_def]
  show ?case
  proof (cases "seg_base t < seg_base s")
    case True
    then have "seg_end t \<le> unat (seg_base s)" using c by (auto simp: word_less_nat_alt)
    moreover have "set (takeWhile (\<lambda>i. seg_base i < seg_base s) segs) \<subseteq> set segs" "set (dropWhile (\<lambda>i. seg_base i < seg_base s) segs) \<subseteq> set segs"
      by (auto dest: set_takeWhileD set_dropWhileD)
    ultimately show ?thesis using True Cons by (auto simp: segs_ok_Cons clear_of_def)
  next
    case False
    have t: "0 < unat (seg_len t)" using Cons.prems(1) by (simp add: segs_ok_Cons)
    then have "\<not> seg_end t \<le> unat (seg_base s)" using False by (simp add: word_less_nat_alt seg_end_def)
    then have "seg_end s \<le> unat (seg_base t)" using c by (auto simp: seg_end_def)
    moreover have "unat (seg_base t) \<le> unat (seg_base u)" if "u \<in> set segs" for u
      using Cons.prems(1) that by (auto simp: segs_ok_Cons seg_end_def)
    ultimately show ?thesis using False Cons.prems by (fastforce simp: segs_ok_Cons)
  qed
qed (simp add: segs_ok_Cons segs_ok_def)

definition mmap_seg :: "uptr \<Rightarrow> u64 \<Rightarrow> u32 \<Rightarrow> u32 \<Rightarrow> 'v option \<Rightarrow> u64 \<Rightarrow> 'v vmm_seg_t" where
  "mmap_seg virt len prot flags vnode offset =
     \<lparr>seg_type = VMM_SEG_VNODE, seg_base = virt, seg_len = len, seg_prot = prot,
      seg_flags = flags, seg_vnode = vnode, seg_offset = offset\<rparr>"

text \<open>The insertion itself, wherever the segment is.\<close>

definition with_seg :: "bool \<Rightarrow> 'v vmm_seg_t \<Rightarrow> 'v vmm_addr_space_t \<Rightarrow> 'v vmm_addr_space_t" where
  "with_seg int_on s as = as\<lparr>segments := takeWhile (\<lambda>i. seg_base i < seg_base s) (segments as) @ s # dropWhile (\<lambda>i. seg_base i < seg_base s) (segments as),
     as_slock := \<lparr>sl_lock = 0, prev_int_state = int_on\<rparr>\<rparr>"

lemma insert_seg_with: "as_ok as \<Longrightarrow> vmm_insert_seg int_on as s = Inr (int_on, with_seg int_on s as)"
  by (simp add: as_ok_def with_seg_def vmm_insert_seg_def spinlock_acquire_def spinlock_release_def Let_def
      takeWhile_eq_take [symmetric] dropWhile_eq_drop [symmetric])

lemma with_seg_set: "set (segments (with_seg int_on s as)) = insert s (set (segments as))"
  by (simp add: with_seg_def) (metis set_append takeWhile_dropWhile_id)

lemma with_seg_sel:
  "limit_low (with_seg int_on s as) = limit_low as" "limit_high (with_seg int_on s as) = limit_high as" "ptm_map (with_seg int_on s as) = ptm_map as"
  by (simp_all add: with_seg_def)

lemma insert_seg_run:
  assumes "as_ok as" "0 < unat (seg_len s)" "unat (limit_low as) \<le> unat (seg_base s)" "seg_end s \<le> unat (limit_high as) + 1"
    "clear_of (segments as) (unat (seg_base s)) (unat (seg_len s))"
  shows "\<exists>as'. vmm_insert_seg int_on as s = Inr (int_on, as') \<and> as_ok as' \<and>
    set (segments as') = insert s (set (segments as)) \<and> limit_low as' = limit_low as \<and> limit_high as' = limit_high as \<and>
    ptm_map as' = ptm_map as"
proof -
  have "segs_ok (limit_low as) (limit_high as) (segments as)" using assms(1) by (simp add: as_ok_def)
  then have "as_ok (with_seg int_on s as)" using insert_seg_ok [OF _ assms(2-5)] by (simp add: as_ok_def with_seg_def)
  then show ?thesis using insert_seg_with [OF assms(1)] by (intro exI [of _ "with_seg int_on s as"]) (simp add: with_seg_set with_seg_sel)
qed


section \<open>Overlaps\<close>

definition plain_env :: "'s frame_alloc \<Rightarrow> uptr \<Rightarrow> ('s, 'v) vmm_env" where
  "plain_env al HHDM = \<lparr>ve_HHDM = HHDM, ve_alloc = al, ve_seg_alloc = Inr, ve_seg_free = Inr, ve_heap_alloc = Inr,
     ve_heap_free = Inr, ve_read = \<lambda>_ _ _ _. Inr, ve_rele = \<lambda>_. Inr\<rparr>"

definition user_space :: "uptr \<Rightarrow> 'v vmm_addr_space_t" where
  "user_space pml4 = \<lparr>segments = [], limit_low = ARCH_USER_MIN_VIRT, limit_high = ARCH_USER_MAX_VIRT,
     ptm_map = pml4, as_slock = SPINLOCK_INIT\<rparr>"

text \<open>The bounds check wraps around: a fixed mapping of two pages at the last page of the address
  space is accepted in a user address space, although it lies outside the limits.\<close>

theorem vmm_mmap_wraps:
  "\<exists>st' as'. vmm_mmap (plain_env al HHDM) st (user_space pml4) 0xFFFFFFFFFFFFF000 0x2000 0 0x0D None 0 =
     Inr (st', as', 0xFFFFFFFFFFFFF000) \<and> limit_high as' < 0xFFFFFFFFFFFFF000"
  by (simp add: vmm_mmap_def plain_env_def user_space_def flag_set_def VMM_MAP_PRIVATE_def VMM_MAP_SHARED_def
      VMM_MAP_ANON_def VMM_MAP_FIXED_def VMM_MAP_POPULATE_def ARCH_PAGE_GRAN_def ARCH_PAGE_SIZE_4K_def
      vmm_check_collision_def vmm_is_in_bounds_def ARCH_USER_MIN_VIRT_def ARCH_USER_MAX_VIRT_def
      vmm_insert_seg_def spinlock_acquire_def spinlock_release_def SPINLOCK_INIT_def Let_def)

text \<open>The segments \<^verbatim>\<open>vmm_init\<close> makes overlap: the direct map of 4 GiB holds the segments of the memory
  map.  Then the space found for a new mapping may lie inside a segment.\<close>

definition kernel_space :: "unit vmm_addr_space_t" where
  "kernel_space =
     \<lparr>segments =
        [\<lparr>seg_type = VMM_SEG_KERNEL, seg_base = 0xFFFF800000000000, seg_len = 0x100000000, seg_prot = 7,
          seg_flags = 0, seg_vnode = None, seg_offset = 0\<rparr>,
         \<lparr>seg_type = VMM_SEG_KERNEL, seg_base = 0xFFFF800000100000, seg_len = 0x400000, seg_prot = 7,
          seg_flags = 0, seg_vnode = None, seg_offset = 0\<rparr>],
      limit_low = ARCH_KERNEL_MIN_VIRT, limit_high = ARCH_KERNEL_MAX_VIRT, ptm_map = 0, as_slock = SPINLOCK_INIT\<rparr>"

lemma vmm_find_space_overlap:
  "vmm_find_space kernel_space 0x1000 = 0xFFFF800000500000 \<and>
   vmm_check_collision kernel_space (vmm_find_space kernel_space 0x1000) 0x1000"
  by (simp add: vmm_find_space_def vmm_check_collision_def kernel_space_def ARCH_KERNEL_MIN_VIRT_def
      ARCH_KERNEL_MAX_VIRT_def Let_def)

section \<open>Pages\<close>

lemma drop_12: "drop_bit 12 (v :: u64) = v div 0x1000"
  by (simp add: drop_bit_eq_div)

lemma floor_page:
  "FLOOR v ARCH_PAGE_GRAN mod 0x1000 = 0" "drop_bit 12 (FLOOR v ARCH_PAGE_GRAN) = drop_bit 12 v"
proof -
  have "unat (v div 0x1000) * 4096 < 2 ^ 64" using u64_bound [of v] by (simp add: unat_div)
  then have u: "unat (v div 0x1000 * 0x1000) = unat v div 4096 * 4096"
    by (subst unat_mult_nowrap) (simp_all add: unat_div)
  then show "FLOOR v ARCH_PAGE_GRAN mod 0x1000 = 0"
    by (simp add: FLOOR_def page_gran word_unat_eq_iff unat_mod)
  show "drop_bit 12 (FLOOR v ARCH_PAGE_GRAN) = drop_bit 12 v"
    unfolding drop_12 FLOOR_def page_gran word_unat_eq_iff unat_div u by simp
qed

lemma same_page_cong: "drop_bit 12 w = drop_bit 12 w' \<Longrightarrow> same_page v w = same_page v w'"
  by (simp add: same_page_def)

lemma bit_47_drop: "drop_bit 12 w = drop_bit 12 w' \<Longrightarrow> bit w 47 = bit (w' :: u64) 47"
proof -
  have "bit w 47 = bit (drop_bit 12 w) 35" for w :: u64 by (simp add: bit_drop_bit_eq)
  then show "drop_bit 12 w = drop_bit 12 w' \<Longrightarrow> ?thesis" by metis
qed

text \<open>The environment uses the physical allocator for frames.\<close>

definition pmm_env :: "uptr \<Rightarrow> (pmm_t, 'v) vmm_env \<Rightarrow> bool" where
  "pmm_env HHDM env \<longleftrightarrow> ve_alloc env = pmm_alloc_frame \<and> ve_HHDM env = HHDM"

definition mapped_page where
  "mapped_page HHDM R root virt f p p' \<longleftrightarrow>
     (\<forall>r \<in> R. \<forall>v. translate HHDM p' r v =
        (if same_page v virt \<and> (r = root \<or> bit virt 47) then Inr (f + (v AND 0xFFF)) else translate HHDM p r v))"

lemma vm_map_ok:
  assumes "pmm_env HHDM env" "ptm_ok HHDM (vm_ptm st) R n" "3 \<le> n" "root \<in> R" "page_addr_ok f" "virt mod 0x1000 = 0" "f mod 0x1000 = 0"
  shows "\<exists>p' n'. vm_map env st root virt f = Inr (st\<lparr>vm_ptm := p'\<rparr>) \<and> n \<le> n' + 3 \<and> ptm_ok HHDM p' R n' \<and>
    mapped_page HHDM R root virt f (vm_ptm st) p'"
proof -
  have e: "ve_alloc env = pmm_alloc_frame" "ve_HHDM env = HHDM" using assms(1) by (auto simp: pmm_env_def)
  obtain p' n' where "arch_ptm_map pmm_alloc_frame HHDM (vm_ptm st) root virt f 0x1000 = Inr p'" "n \<le> n' + 3"
    "ptm_ok HHDM p' R n'" "mapped_page HHDM R root virt f (vm_ptm st) p'"
    using map_ok [OF assms(2,4-7)] assms(3) unfolding mapped_page_def
    by (cases "arch_ptm_map pmm_alloc_frame HHDM (vm_ptm st) root virt f 0x1000") auto
  then show ?thesis by (intro exI [of _ p'] exI [of _ n']) (simp add: vm_map_def e page_gran(1))
qed

text \<open>C6: a page fault in an anonymous private segment, with four frames free, is resolved: the frame the
  allocator hands out is mapped at the page, in this address space only (or in all, for a page of
  the kernel half), the page reads as zero, and no other translation and no other byte changes.\<close>

theorem vmm_pagefault_anon:
  assumes "pmm_env HHDM env" "ptm_ok HHDM (vm_ptm st) R n" "4 \<le> n" "ptm_map as \<in> R"
    "vmm_addr_to_seg as addr = Some seg" "seg_type seg = VMM_SEG_VNODE"
    "flag_set (seg_flags seg) VMM_MAP_PRIVATE" "flag_set (seg_flags seg) VMM_MAP_ANON"
  shows "\<exists>st' a f n'. vmm_pagefault_handler env st as addr = Inr (st', True) \<and>
    pmm_alloc_frame (pt_al (vm_ptm st)) = Inr (a, f) \<and> ptm_ok HHDM (vm_ptm st') R n' \<and> n \<le> n' + 4 \<and>
    mapped_page HHDM R (ptm_map as) addr f (vm_ptm st) (vm_ptm st') \<and>
    (\<forall>x. vm_bytes st' x = (if unat (x - (f + HHDM)) < 4096 then 0 else vm_bytes st x))"
proof -
  let ?virt = "FLOOR addr ARCH_PAGE_GRAN"
  have e: "ve_alloc env = pmm_alloc_frame" "ve_HHDM env = HHDM" using assms(1) by (auto simp: pmm_env_def)
  obtain a f where f: "pmm_alloc_frame (pt_al (vm_ptm st)) = Inr (a, f)" "frame_ok f"
    "ptm_ok HHDM ((vm_ptm st)\<lparr>pt_al := a\<rparr>) R (n - 1)"
    "\<forall>r \<in> R. \<forall>v. translate HHDM ((vm_ptm st)\<lparr>pt_al := a\<rparr>) r v = translate HHDM (vm_ptm st) r v"
    using data_frame_ok [OF assms(2)] assms(3) by auto
  let ?st1 = "st\<lparr>vm_ptm := (vm_ptm st)\<lparr>pt_al := a\<rparr>\<rparr>"
  have al: "vm_alloc env st = Inr (?st1, f)" using f(1) e by (simp add: vm_alloc_def pt_alloc_def)
  note fa = frame_ok_aligned [OF f(2)]
  have "ptm_ok HHDM (vm_ptm ?st1) R (n - 1)" "3 \<le> n - 1" using f(3) assms(3) by simp_all
  from vm_map_ok [OF assms(1) this assms(4) fa [THEN conjunct1] floor_page(1) fa [THEN conjunct2]] obtain p' n' where
    p: "vm_map env ?st1 (ptm_map as) ?virt f = Inr (?st1\<lparr>vm_ptm := p'\<rparr>)" "n - 1 \<le> n' + 3" "ptm_ok HHDM p' R n'"
      "mapped_page HHDM R (ptm_map as) ?virt f (vm_ptm ?st1) p'" by blast
  let ?st2 = "?st1\<lparr>vm_ptm := p'\<rparr>"
  let ?st' = "?st2\<lparr>vm_bytes := memset (vm_bytes ?st2) (f + HHDM) 0 ARCH_PAGE_GRAN\<rparr>"
  have "vmm_pagefault_handler env st as addr = Inr (?st', True)"
    using assms(5-8) al p(1) e(2) by (simp add: vmm_pagefault_handler_def map_private_def Let_def)
  moreover have "mapped_page HHDM R (ptm_map as) addr f (vm_ptm st) p'"
    using p(4) f(4) same_page_cong [OF floor_page(2)] bit_47_drop [OF floor_page(2)] by (auto simp: mapped_page_def)
  moreover have "n \<le> n' + 4" using p(2) assms(3) by simp
  ultimately show ?thesis
    using f(1) p(3) by (intro exI [of _ ?st'] exI [of _ a] exI [of _ f] exI [of _ n']) (simp add: memset_at page_gran(2))
qed

end
