(* ===== verification/Vmm_Access.thy ===== *)
theory Vmm_Access
  imports Vmm_Correct
begin

text \<open>
  Kernel mappings of whole ranges, and copies into another address space byte by byte.
\<close>

section \<open>Arithmetic of pages\<close>

lemma same_page_nat: "same_page v w \<longleftrightarrow> (unat v div 4096) mod 2 ^ 36 = (unat w div 4096) mod 2 ^ 36"
proof -
  have "unat (take_bit 36 (drop_bit 12 x)) = (unat x div 4096) mod 2 ^ 36" for x :: u64
    by (simp add: take_bit_eq_mod drop_12 unat_div unat_mod)
  then show ?thesis unfolding same_page_def word_unat_eq_iff by simp
qed

definition page_at :: "uptr \<Rightarrow> nat \<Rightarrow> uptr" where
  "page_at base k = base + ARCH_PAGE_GRAN * of_nat k"

lemma page_at_index:
  assumes "base mod 0x1000 = 0" "k < 2 ^ 52"
  shows "(unat (page_at base k) div 4096) mod 2 ^ 36 = (unat base div 4096 + k) mod 2 ^ 36"
    "unat (page_at base k) mod 4096 = 0"
proof -
  have b: "unat base = 4096 * (unat base div 4096)"
    using assms(1) unat_mod_page [of base] by auto
  have "unat (ARCH_PAGE_GRAN * of_nat k) = 4096 * k"
    using assms(2) by (subst unat_mult_nowrap) (simp_all add: page_gran of_nat_u64)
  then have u: "unat (page_at base k) = (4096 * (unat base div 4096 + k)) mod (4096 * 2 ^ 52)"
    using b unat_word_ariths(1) [of base "ARCH_PAGE_GRAN * of_nat k"] by (simp add: page_at_def)
  then have d: "unat (page_at base k) = 4096 * ((unat base div 4096 + k) mod 2 ^ 52)" by (simp only: mult_mod_right)
  then show "unat (page_at base k) mod 4096 = 0" by simp
  have "(2 ^ 36 :: nat) dvd 2 ^ 52" by (intro le_imp_power_dvd) simp
  then have "x mod 2 ^ 52 mod 2 ^ 36 = x mod (2 ^ 36 :: nat)" for x by (rule mod_mod_cancel)
  then show "(unat (page_at base k) div 4096) mod 2 ^ 36 = (unat base div 4096 + k) mod 2 ^ 36"
    unfolding d by simp
qed

lemma pages_distinct:
  assumes "base mod 0x1000 = 0" "i < 2 ^ 36" "j < 2 ^ 36" "same_page v (page_at base i)" "same_page v (page_at base j)"
  shows "i = j"
proof -
  have "i < 2 ^ 52" "j < 2 ^ 52" using assms(2,3) by simp_all
  then have "(unat base div 4096 + i) mod 2 ^ 36 = (unat base div 4096 + j) mod 2 ^ 36"
    using assms(4,5) page_at_index(1) [OF assms(1)] by (simp add: same_page_nat)
  then have "i mod 2 ^ 36 = j mod 2 ^ 36" by (auto simp: nat_mod_eq_iff)
  then show ?thesis using assms(2,3) by simp
qed

lemma page_at_aligned:
  assumes "base mod 0x1000 = 0" "k < 2 ^ 52"
  shows "page_at base k mod 0x1000 = 0"
  using page_at_index(2) [OF assms] unat_mod_page [of "page_at base k"] by (simp add: unat_eq_zero)

lemma same_page_plus:
  assumes "(p :: u64) mod 0x1000 = 0" "unat k < 4096"
  shows "same_page (p + k) p"
proof -
  obtain q where "unat p = 4096 * q" using assms(1) unat_mod_page [of p] by auto
  then show ?thesis using assms(2) unfolding same_page_nat page_plus(1) [OF assms] by simp
qed

lemma page_at_step:
  assumes "base mod 0x1000 = 0"
  shows "same_page (base + a) (page_at base (unat a div 4096))" "(base + a) AND 0xFFF = a AND 0xFFF"
    "page_at base (unat a div 4096) + (a AND 0xFFF) = base + a"
proof -
  let ?k = "unat a div 4096"
  have "of_nat (4096 * ?k + unat a mod 4096) = (of_nat (unat a) :: u64)" by (simp only: mult_div_mod_eq)
  then have "of_nat (4096 * ?k) + of_nat (unat a mod 4096) = a" unfolding of_nat_add by simp
  moreover have "of_nat (unat a mod 4096) = a AND 0xFFF" by (simp add: and_fff flip: unat_mod_page)
  ultimately show s: "page_at base ?k + (a AND 0xFFF) = base + a" by (simp add: page_at_def page_gran add.assoc)
  have "?k < 2 ^ 52" using u64_bound [of a] by auto
  then have "page_at base ?k mod 0x1000 = 0" using assms by (intro page_at_aligned)
  moreover have "unat (a AND 0xFFF) < 4096" by (simp add: and_fff unat_mod_page)
  ultimately show "same_page (base + a) (page_at base ?k)" "(base + a) AND 0xFFF = a AND 0xFFF"
    using page_plus(2) same_page_plus unfolding s [symmetric] by simp_all
qed

section \<open>Mapping a range for the kernel\<close>

text \<open>The pages of a range are mapped one after the other, each to its own frame.\<close>

definition mapped_range :: "uptr \<Rightarrow> uptr \<Rightarrow> uptr \<Rightarrow> nat \<Rightarrow> uptr \<Rightarrow> pmm_t ptm \<Rightarrow> pmm_t ptm \<Rightarrow> bool" where
  "mapped_range HHDM root virt k phys p p' \<longleftrightarrow>
     (\<forall>j < k. \<forall>v. same_page v (page_at virt j) \<longrightarrow> translate HHDM p' root v = Inr (page_at phys j + (v AND 0xFFF))) \<and>
     (\<forall>v. (\<forall>j < k. \<not> same_page v (page_at virt j)) \<longrightarrow> translate HHDM p' root v = translate HHDM p root v)"

lemma mapped_range_Suc:
  assumes "virt mod 0x1000 = 0" "k < 2 ^ 36" "root \<in> R" "mapped_range HHDM root virt k phys p p'"
    "mapped_page HHDM R root (page_at virt k) (page_at phys k) p' p''"
  shows "mapped_range HHDM root virt (Suc k) phys p p''"
proof -
  have m: "translate HHDM p'' root v =
      (if same_page v (page_at virt k) then Inr (page_at phys k + (v AND 0xFFF)) else translate HHDM p' root v)" for v
    using assms(3,5) by (simp add: mapped_page_def)
  have d: "\<not> same_page v (page_at virt k)" if "j < k" "same_page v (page_at virt j)" for j v
    using pages_distinct [OF assms(1) _ assms(2) that(2)] that(1) assms(2) by auto
  show ?thesis
    using assms(4) d unfolding mapped_range_def m by (auto simp: less_Suc_eq)
qed

lemma page_at_phys:
  assumes "phys mod 0x1000 = 0" "unat phys + 4096 * k \<le> 2 ^ 52" "j < k"
  shows "page_addr_ok (page_at phys j)" "page_at phys j mod 0x1000 = 0"
proof -
  let ?q = "unat phys div 4096 + j"
  have "unat phys mod 4096 = 0" using assms(1) unat_mod_page [of phys] by auto
  then have "4096 * (unat phys div 4096) = unat phys" by auto
  then have "of_nat (4096 * (unat phys div 4096)) = (of_nat (unat phys) :: u64)" by (simp only:)
  then have "page_at phys j = of_nat (4096 * ?q)"
    unfolding page_at_def page_gran distrib_left of_nat_add by simp
  moreover have "?q < 2 ^ 40" using assms(2,3) by auto
  ultimately show "page_addr_ok (page_at phys j)" using page_addr_ok_page [of ?q] by (simp only:)
  show "page_at phys j mod 0x1000 = 0" using assms by (intro page_at_aligned) auto
qed

lemma map_range_ok:
  assumes "pmm_env HHDM env" "root \<in> R" "virt mod 0x1000 = 0" "phys mod 0x1000 = 0" "unat phys + 4096 * N \<le> 2 ^ 52" "N \<le> 2 ^ 36"
    "ptm_ok HHDM (vm_ptm st) R n" "3 * N \<le> n"
  shows "k \<le> N \<Longrightarrow> \<exists>p' n'. for_each (\<lambda>s addr. vm_map env s root (virt + addr) (phys + addr))
      (map (\<lambda>j. ARCH_PAGE_GRAN * of_nat j) [0..<k]) st = Inr (st\<lparr>vm_ptm := p'\<rparr>) \<and> n \<le> n' + 3 * k \<and>
    ptm_ok HHDM p' R n' \<and> mapped_range HHDM root virt k phys (vm_ptm st) p'"
proof (induction k)
  case 0
  show ?case using assms(7) by (intro exI [of _ "vm_ptm st"] exI [of _ n]) (simp add: mapped_range_def)
next
  case (Suc k)
  then obtain p' n' where h: "for_each (\<lambda>s addr. vm_map env s root (virt + addr) (phys + addr))
      (map (\<lambda>j. ARCH_PAGE_GRAN * of_nat j) [0..<k]) st = Inr (st\<lparr>vm_ptm := p'\<rparr>)" "n \<le> n' + 3 * k"
    "ptm_ok HHDM p' R n'" "mapped_range HHDM root virt k phys (vm_ptm st) p'" by auto
  have "3 \<le> n'" "k < N" using h(2) assms(8) Suc.prems by linarith+
  moreover have "page_at virt k mod 0x1000 = 0"
    using assms(3,6) \<open>k < N\<close> by (intro page_at_aligned) auto
  ultimately obtain p'' n'' where "vm_map env (st\<lparr>vm_ptm := p'\<rparr>) root (page_at virt k) (page_at phys k) = Inr (st\<lparr>vm_ptm := p''\<rparr>)"
    "n' \<le> n'' + 3" "ptm_ok HHDM p'' R n''" "mapped_page HHDM R root (page_at virt k) (page_at phys k) p' p''"
    using vm_map_ok [OF assms(1), of "st\<lparr>vm_ptm := p'\<rparr>" R n' root "page_at phys k" "page_at virt k"] h(3)
      page_at_phys [OF assms(4,5)] assms(2) by auto
  moreover then have "mapped_range HHDM root virt (Suc k) phys (vm_ptm st) p''"
    using mapped_range_Suc [OF assms(3) _ assms(2) h(4)] \<open>k < N\<close> assms(6) by simp
  ultimately show ?case using h(1,2)
    by (intro exI [of _ p''] exI [of _ n'']) (simp add: page_at_def)
qed

lemma insert_seg_any:
  assumes "sl_lock (as_slock as) = 0"
  shows "\<exists>as'. vmm_insert_seg i as s = Inr (i, as') \<and> set (segments as') = insert s (set (segments as)) \<and>
    ptm_map as' = ptm_map as \<and> sl_lock (as_slock as') = 0"
proof -
  let ?P = "\<lambda>x. seg_base x < seg_base s"
  have "set (takeWhile ?P (segments as)) \<union> set (dropWhile ?P (segments as)) = set (segments as)"
    by (metis set_append takeWhile_dropWhile_id)
  then show ?thesis
    using assms by (simp add: vmm_insert_seg_def spinlock_acquire_def spinlock_release_def Let_def
        takeWhile_eq_take [symmetric] dropWhile_eq_drop [symmetric])
qed

text \<open>C11: \<^verbatim>\<open>vmm_map_kernel\<close> with enough free frames maps the range: afterwards every byte of the virtual
  range translates to the byte of the physical range at the same offset, every address of another
  page translates as before, and the address space has the new segment.\<close>

theorem vmm_map_kernel_correct:
  assumes "pmm_env HHDM env" "ptm_ok HHDM (vm_ptm st1) R n" "ptm_map as \<in> R" "ve_seg_alloc env st = Inr st1"
    "sl_lock (as_slock as) = 0" "virt mod ARCH_PAGE_GRAN = 0" "len mod ARCH_PAGE_GRAN = 0" "phys mod ARCH_PAGE_GRAN = 0"
    "unat phys + unat len \<le> 2 ^ 52" "unat len \<le> 2 ^ 48" "3 * (unat len div 4096) \<le> n"
  shows "\<exists>st' as' n'. vmm_map_kernel env st as virt len prot phys = Inr (st', as') \<and>
    ptm_ok HHDM (vm_ptm st') R n' \<and> n \<le> n' + 3 * (unat len div 4096) \<and> vm_bytes st' = vm_bytes st1 \<and>
    (\<forall>a < len. translate HHDM (vm_ptm st') (ptm_map as) (virt + a) = Inr (phys + a)) \<and>
    (\<forall>v. (\<forall>a < len. \<not> same_page v (virt + a)) \<longrightarrow>
       translate HHDM (vm_ptm st') (ptm_map as) v = translate HHDM (vm_ptm st1) (ptm_map as) v) \<and>
    set (segments as') = insert \<lparr>seg_type = VMM_SEG_KERNEL, seg_base = virt, seg_len = len, seg_prot = prot,
       seg_flags = 0, seg_vnode = None, seg_offset = 0\<rparr> (set (segments as))"
proof -
  let ?N = "unat len div 4096"
  have al: "virt mod 0x1000 = 0" "phys mod 0x1000 = 0" using assms(6,8) by (simp_all add: page_gran)
  have "unat len mod 4096 = 0" using assms(7) unat_mod_page [of len] by (simp add: page_gran)
  then have N: "unat len = 4096 * ?N" by auto
  have pages: "page_offsets len = map (\<lambda>j. ARCH_PAGE_GRAN * of_nat j) [0..<?N]"
    by (simp add: page_offsets_def page_gran unat_div)
  let ?s = "\<lparr>seg_type = VMM_SEG_KERNEL, seg_base = virt, seg_len = len, seg_prot = prot, seg_flags = 0, seg_vnode = None, seg_offset = 0\<rparr>"
  obtain as1 where as1: "vmm_insert_seg (vm_int st1) as ?s = Inr (vm_int st1, as1)" "set (segments as1) = insert ?s (set (segments as))"
    "ptm_map as1 = ptm_map as" "sl_lock (as_slock as1) = 0" using insert_seg_any [OF assms(5)] by blast
  define st2 where "st2 = st1\<lparr>vm_int := False\<rparr>"
  have "ptm_ok HHDM (vm_ptm st2) R n" using assms(2) by (simp add: st2_def)
  then obtain p' n' where loop: "for_each (\<lambda>s addr. vm_map env s (ptm_map as) (virt + addr) (phys + addr)) (page_offsets len) st2 =
      Inr (st2\<lparr>vm_ptm := p'\<rparr>)" "n \<le> n' + 3 * ?N" "ptm_ok HHDM p' R n'" "mapped_range HHDM (ptm_map as) virt ?N phys (vm_ptm st2) p'"
    using map_range_ok [OF assms(1,3) al, of ?N st2 n ?N] N assms(9-11) pages by auto
  have "vmm_map_kernel env st as virt len prot phys =
      Inr (st1\<lparr>vm_int := vm_int st1, vm_ptm := p'\<rparr>, as1\<lparr>as_slock := \<lparr>sl_lock = 0, prev_int_state = vm_int st1\<rparr>\<rparr>)"
    using as1 loop(1) assms(4,6,7) by (simp add: vmm_map_kernel_def spinlock_acquire_def spinlock_release_def Let_def st2_def)
  moreover have "translate HHDM p' (ptm_map as) (virt + a) = Inr (phys + a)" if "a < len" for a
  proof -
    have "unat a div 4096 < ?N" using that N by (simp add: word_less_nat_alt)
    then show ?thesis using loop(4) page_at_step [OF al(1)] page_at_step(3) [OF al(2)] by (simp add: mapped_range_def)
  qed
  moreover have "translate HHDM p' (ptm_map as) v = translate HHDM (vm_ptm st1) (ptm_map as) v"
    if "\<forall>a < len. \<not> same_page v (virt + a)" for v
  proof -
    have "\<not> same_page v (page_at virt j)" if "j < ?N" for j
    proof -
      have "unat (ARCH_PAGE_GRAN * of_nat j) = 4096 * j"
        using that u64_bound [of len] by (subst unat_mult_nowrap) (simp_all add: page_gran of_nat_u64)
      then have "ARCH_PAGE_GRAN * of_nat j < len" using that N by (simp add: word_less_nat_alt)
      then show ?thesis using \<open>\<forall>a < len. _ a\<close> by (simp add: page_at_def)
    qed
    then show ?thesis using loop(4) by (simp add: mapped_range_def st2_def)
  qed
  ultimately show ?thesis using loop(2,3) as1(2) by auto
qed

section \<open>Copies into an address space\<close>

text \<open>Inside a page, virtual and physical addresses advance together.\<close>

lemma translate_offset:
  assumes "ptm_ok HHDM p R n" "r \<in> R" "translate HHDM p r v = Inr ph" "ph \<noteq> BAD_ADDRESS" "unat (v mod 0x1000) + unat k < 4096"
  shows "translate HHDM p r (v + k) = Inr (ph + k)"
proof -
  obtain U ty where inv: "pt_inv kernel_half pmm_frames HHDM U n ty p" and r: "ty r = Some (Some r, [])"
    using assms(1,2) by (auto simp: ptm_ok_def)
  define q where "q = v - v mod 0x1000"
  have q: "q mod 0x1000 = 0"
    using floor_page(1) [of v] by (simp add: q_def FLOOR_def page_gran minus_mod_eq_div_mult)
  have v: "v = q + v mod 0x1000" "v + k = q + (v mod 0x1000 + k)" by (simp_all add: q_def)
  have u: "unat (v mod 0x1000 + k) = unat (v mod 0x1000) + unat k" using assms(5) by (intro unat_add_nowrap) simp
  have "same_page v q" "v AND 0xFFF = v mod 0x1000" "same_page (v + k) q" "(v + k) AND 0xFFF = v mod 0x1000 + k"
    using page_plus(2) [OF q, of "v mod 0x1000"] page_plus(2) [OF q, of "v mod 0x1000 + k"] same_page_plus [OF q, of "v mod 0x1000"] same_page_plus [OF q, of "v mod 0x1000 + k"] assms(5) u
    unfolding v(1,2) [symmetric] by simp_all
  moreover then have "page_path (v + k) = page_path v" by (simp add: page_path_eq same_page_def)
  ultimately show ?thesis
    using assms(3,4) unfolding translate_def x86.translate_leaf [OF inv r]
    by (auto split: option.splits)
qed

lemma chunk_in_page:
  "unat ((dest + i) mod 0x1000) + unat (chunk_len dest count i) \<le> 4096"
proof -
  let ?m = "(dest + i) mod 0x1000"
  have "unat ?m < 4096" by (simp add: unat_mod_page)
  then have "unat (ARCH_PAGE_GRAN - ?m) = 4096 - unat ?m" by (subst unat_sub) (simp_all add: page_gran word_le_nat_alt)
  moreover have "chunk_len dest count i \<le> ARCH_PAGE_GRAN - ?m" by (auto simp: chunk_len_def MIN_c_def page_gran)
  ultimately show ?thesis using \<open>unat ?m < 4096\<close> by (simp add: word_le_nat_alt)
qed

text \<open>The bytes copied so far are at their place and nothing else has changed.\<close>

definition copied :: "uptr \<Rightarrow> (u64 \<Rightarrow> uptr) \<Rightarrow> uptr \<Rightarrow> u64 \<Rightarrow> bytes \<Rightarrow> bytes \<Rightarrow> bool" where
  "copied HHDM P src i m m' \<longleftrightarrow>
     (\<forall>k < i. m' (P k + HHDM) = m (src + k)) \<and> (\<forall>x. (\<forall>k < i. x \<noteq> P k + HHDM) \<longrightarrow> m' x = m x)"

lemma copied_step:
  assumes c: "copied HHDM P src i m m'" and i: "i < count" "unat i + unat l \<le> unat count"
    and P: "\<And>k. k < l \<Longrightarrow> P (i + k) = P i + k"
    and inj: "\<And>j k. j < count \<Longrightarrow> k < count \<Longrightarrow> P j = P k \<Longrightarrow> j = k"
    and src: "\<And>j k. j < count \<Longrightarrow> k < count \<Longrightarrow> P j + HHDM \<noteq> src + k"
  shows "copied HHDM P src (i + l) m (memcpy m' (P i + HHDM) (src + i) l)"
proof -
  have add: "i + k < count \<and> i \<le> i + k \<and> i + k < i + l" if "k < l" for k
  proof -
    have "unat (i + k) = unat i + unat k" "unat (i + l) = unat i + unat l"
      using that i(2) u64_bound [of count] by (intro unat_add_nowrap; simp add: word_less_nat_alt)+
    then show ?thesis using that i(2) by (simp add: word_less_nat_alt word_le_nat_alt)
  qed
  have split: "k < i + l \<longleftrightarrow> k < i \<or> (\<exists>j < l. k = i + j)" for k
  proof -
    have "unat (i + l) = unat i + unat l" using i(2) u64_bound [of count] by (intro unat_add_nowrap) simp
    moreover have "\<exists>j < l. k = i + j" if "i \<le> k" "k < i + l"
      using that calculation by (intro exI [of _ "k - i"]) (simp add: word_less_nat_alt word_le_nat_alt unat_sub)
    ultimately show ?thesis using add by (fastforce simp: word_less_nat_alt word_le_nat_alt not_less)
  qed
  have "\<not> unat (P i + HHDM - (src + i)) < unat l"
  proof
    assume a: "unat (P i + HHDM - (src + i)) < unat l"
    then have "i + (P i + HHDM - (src + i)) < count" using add unfolding word_less_nat_alt [of _ l] by blast
    from src [OF i(1) this] show False by simp
  qed
  then have at: "memcpy m' (P i + HHDM) (src + i) l x =
      (if unat (x - (P i + HHDM)) < unat l then m' (src + i + (x - (P i + HHDM))) else m' x)" for x
    by (intro memcpy_at) simp
  have src_kept: "m' (src + k) = m (src + k)" if "k < count" for k
    using c src [OF _ that] i(1) unfolding copied_def by (metis order.strict_trans)
  show ?thesis unfolding copied_def
  proof (intro conjI allI impI)
    fix k assume "k < i + l"
    then consider "k < i" | j where "j < l" "k = i + j" using split by blast
    then show "memcpy m' (P i + HHDM) (src + i) l (P k + HHDM) = m (src + k)"
    proof cases
      case 1
      have "\<not> unat (P k + HHDM - (P i + HHDM)) < unat l"
      proof
        assume "unat (P k + HHDM - (P i + HHDM)) < unat l"
        then have "P k - P i < l" by (simp add: word_less_nat_alt)
        then have "P (i + (P k - P i)) = P k" "i + (P k - P i) < count" "i \<le> i + (P k - P i)" using P add by auto
        then show False using inj 1 i(1) by (metis not_less order.strict_trans)
      qed
      then show ?thesis using 1 c by (simp add: at copied_def)
    next
      case 2
      then show ?thesis using P [OF 2(1)] add [OF 2(1)] src_kept [of "i + j"] by (simp add: at word_less_nat_alt add.assoc)
    qed
  next
    fix x assume x: "\<forall>k < i + l. x \<noteq> P k + HHDM"
    have "\<not> unat (x - (P i + HHDM)) < unat l"
    proof
      assume "unat (x - (P i + HHDM)) < unat l"
      then have "P (i + (x - (P i + HHDM))) + HHDM = x" "i + (x - (P i + HHDM)) < i + l"
        using P add by (auto simp: word_less_nat_alt)
      then show False using x by metis
    qed
    then show "memcpy m' (P i + HHDM) (src + i) l x = m x" using x c split by (simp add: at copied_def)
  qed
qed

lemma copy_to_loop_ok:
  assumes e: "pmm_env HHDM env" and R: "ptm_map as \<in> R"
    and P: "\<And>k. k < count \<Longrightarrow> translate HHDM p (ptm_map as) (dest + k) = Inr (P k) \<and> P k \<noteq> BAD_ADDRESS"
    and inj: "\<And>j k. j < count \<Longrightarrow> k < count \<Longrightarrow> P j = P k \<Longrightarrow> j = k"
    and src: "\<And>j k. j < count \<Longrightarrow> k < count \<Longrightarrow> P j + HHDM \<noteq> src + k"
    and ok: "ptm_ok HHDM p R n"
  shows "i \<le> count \<Longrightarrow> vm_ptm st = p \<Longrightarrow> copied HHDM P src i m (vm_bytes st) \<Longrightarrow>
    \<exists>st'. copy_to_loop env as dest src count st i = Inr (st', count) \<and> vm_ptm st' = p \<and> copied HHDM P src count m (vm_bytes st')"
proof (induction "unat count - unat i" arbitrary: st i rule: less_induct)
  case less
  show ?case
  proof (cases "i < count")
    case False
    then show ?thesis using less.prems by (subst copy_to_loop.simps) auto
  next
    case True
    define l where "l = chunk_len dest count i"
    have l: "i + l \<le> count" "i < i + l" using chunk_len_progress [OF True, of dest] by (simp_all add: l_def)
    then have "unat (i + l) = unat i + unat l" using unat_plus_simple [of i l] by (simp add: less_imp_le)
    then have il: "unat i + unat l \<le> unat count" using l(1) by (simp add: word_le_nat_alt)
    have step: "P (i + k) = P i + k" if "k < l" for k
    proof -
      have "unat ((dest + i) mod 0x1000) + unat k < 4096"
        using chunk_in_page [of dest i count] that by (simp add: l_def word_less_nat_alt)
      then have "translate HHDM p (ptm_map as) (dest + i + k) = Inr (P i + k)"
        using P [OF True] by (intro translate_offset [OF ok R]) auto
      moreover have "unat (i + k) = unat i + unat k"
        using that il u64_bound [of count] by (intro unat_add_nowrap) (simp add: word_less_nat_alt)
      then have "i + k < count" using that il by (simp add: word_less_nat_alt)
      ultimately show ?thesis using P [of "i + k"] by (simp add: add.assoc)
    qed
    define st1 where "st1 = st\<lparr>vm_bytes := memcpy (vm_bytes st) (P i + HHDM) (src + i) l\<rparr>"
    have "copied HHDM P src (i + l) m (memcpy (vm_bytes st) (P i + HHDM) (src + i) l)"
      by (rule copied_step [OF less.prems(3) True il]) (fact step inj src)+
    then have "copied HHDM P src (i + l) m (vm_bytes st1)" by (simp add: st1_def)
    moreover have "copy_to_loop env as dest src count st i = copy_to_loop env as dest src count st1 (i + l)"
      using True P [OF True] e less.prems(2)
      by (subst copy_to_loop.simps) (simp add: vmm_resolve_def vmm_virt_to_phys_def pmm_env_def translate_def l_def st1_def Let_def)
    moreover have "unat count - unat (i + l) < unat count - unat i"
      using chunk_len_measure [OF True] by (simp add: l_def)
    ultimately show ?thesis using less.hyps [of "i + l" st1] l(1) less.prems(2) by (simp add: st1_def)
  qed
qed

text \<open>C12: \<^verbatim>\<open>vmm_copy_to\<close> on a range that is mapped, to distinct frames that do not hold the source, copies
  every byte: the byte at each physical address of the range is the byte of the source, all other
  bytes and all translations are unchanged, and the count is returned.\<close>

theorem vmm_copy_to_correct:
  assumes "pmm_env HHDM env" "ptm_ok HHDM (vm_ptm st) R n" "ptm_map as \<in> R"
    "\<And>k. k < count \<Longrightarrow> translate HHDM (vm_ptm st) (ptm_map as) (dest + k) = Inr (P k) \<and> P k \<noteq> BAD_ADDRESS"
    "\<And>j k. j < count \<Longrightarrow> k < count \<Longrightarrow> P j = P k \<Longrightarrow> j = k"
    "\<And>j k. j < count \<Longrightarrow> k < count \<Longrightarrow> P j + HHDM \<noteq> src + k"
  shows "\<exists>st'. vmm_copy_to env st as dest src count = Inr (st', count) \<and> vm_ptm st' = vm_ptm st \<and>
    (\<forall>k < count. vm_bytes st' (P k + HHDM) = vm_bytes st (src + k)) \<and>
    (\<forall>x. (\<forall>k < count. x \<noteq> P k + HHDM) \<longrightarrow> vm_bytes st' x = vm_bytes st x)"
proof -
  have c: "copied HHDM P src 0 (vm_bytes st) (vm_bytes st)" by (simp add: copied_def)
  have "\<exists>st'. copy_to_loop env as dest src count st 0 = Inr (st', count) \<and> vm_ptm st' = vm_ptm st \<and>
      copied HHDM P src count (vm_bytes st) (vm_bytes st')"
    by (rule copy_to_loop_ok [where R = R and n = n]) (fact assms c | simp)+
  then show ?thesis unfolding vmm_copy_to_def copied_def .
qed

section \<open>Witnesses\<close>

definition example_vmm :: "pmm_t ptm \<Rightarrow> (pmm_t, unit) vmm" where
  "example_vmm p = \<lparr>vm_ptm = p, vm_bytes = \<lambda>_. 0, vm_cache = \<lambda>_ _. None, vm_int = True\<rparr>"

lemma example_env: "pmm_env example_HHDM (plain_env pmm_alloc_frame example_HHDM)"
  by (simp add: pmm_env_def plain_env_def)

theorem vmm_map_kernel_correct_witness:
  "\<exists>p r st' as'. ptm_ok example_HHDM p {r} 757 \<and>
     vmm_map_kernel (plain_env pmm_alloc_frame example_HHDM) (example_vmm p) (user_space r) 0xFFFF800000000000 0x3000 7 0 =
       Inr (st', as') \<and>
     translate example_HHDM (vm_ptm st') r 0xFFFF800000002123 = Inr 0x2123"
proof -
  obtain p r where p: "ptm_ok example_HHDM p {r} 757" using example_maps by blast
  have h: "ptm_ok example_HHDM (vm_ptm (example_vmm p)) {r} 757" "ptm_map (user_space r) \<in> {r}"
    "ve_seg_alloc (plain_env pmm_alloc_frame example_HHDM) (example_vmm p) = Inr (example_vmm p)" "sl_lock (as_slock (user_space r)) = 0"
    "(0xFFFF800000000000 :: u64) mod ARCH_PAGE_GRAN = 0" "(0x3000 :: u64) mod ARCH_PAGE_GRAN = 0" "(0 :: u64) mod ARCH_PAGE_GRAN = 0"
    "unat (0 :: u64) + unat (0x3000 :: u64) \<le> 2 ^ 52" "unat (0x3000 :: u64) \<le> 2 ^ 48" "3 * (unat (0x3000 :: u64) div 4096) \<le> 757"
    using p by (simp_all add: example_vmm_def user_space_def plain_env_def SPINLOCK_INIT_def page_gran)
  obtain st' as' where s: "vmm_map_kernel (plain_env pmm_alloc_frame example_HHDM) (example_vmm p) (user_space r) 0xFFFF800000000000 0x3000 7 0 =
      Inr (st', as')" "\<forall>a < 0x3000. translate example_HHDM (vm_ptm st') r (0xFFFF800000000000 + a) = Inr (0 + a)"
    using vmm_map_kernel_correct [OF example_env h, of 7] by (auto simp: user_space_def)
  from s(2) [rule_format, of "0x2123"] have "translate example_HHDM (vm_ptm st') r 0xFFFF800000002123 = Inr 0x2123" by simp
  with p s(1) show ?thesis by blast
qed

theorem vmm_copy_to_correct_witness:
  "\<exists>p r n st'. ptm_ok example_HHDM (vm_ptm p) {r} n \<and> 754 \<le> n \<and>
     vmm_copy_to (plain_env pmm_alloc_frame example_HHDM) (p :: (pmm_t, unit) vmm) (user_space r) 0x400000 0xFFFF800000300000 16 = Inr (st', 16) \<and>
     vm_bytes st' 0xFFFF800000200003 = vm_bytes p 0xFFFF800000300003"
proof -
  obtain p0 r where p0: "ptm_ok example_HHDM p0 {r} 757" using example_maps by blast
  have a: "page_addr_ok 0x200000" "(0x400000 :: u64) mod 0x1000 = 0" "(0x200000 :: u64) mod 0x1000 = 0"
    by (simp_all add: page_addr_ok_def)
  obtain p n where p: "ptm_ok example_HHDM p {r} n" "757 \<le> n + 3"
    "\<And>v. same_page v 0x400000 \<Longrightarrow> translate example_HHDM p r v = Inr (0x200000 + (v AND 0xFFF))"
    using vm_map_ok [OF example_env, of "example_vmm p0" "{r}" 757 r "0x200000" "0x400000"] p0 a
    by (auto simp: mapped_page_def example_vmm_def)
  let ?st = "example_vmm p" and ?env = "plain_env pmm_alloc_frame example_HHDM" and ?as = "user_space r"
  have ok: "ptm_ok example_HHDM (vm_ptm ?st) {r} n" "ptm_map ?as \<in> {r}" using p(1) by (simp_all add: example_vmm_def user_space_def)
  have P: "translate example_HHDM (vm_ptm ?st) (ptm_map ?as) (0x400000 + k) = Inr (0x200000 + k) \<and> 0x200000 + k \<noteq> BAD_ADDRESS"
    if k: "k < 16" for k
  proof -
    have u: "unat k < 4096" using k by (simp add: word_less_nat_alt)
    have "unat (0x200000 + k) = 0x200000 + unat k" using u by (subst unat_add_nowrap) simp_all
    then have "0x200000 + k \<noteq> BAD_ADDRESS" using u by (auto simp: word_unat_eq_iff BAD_ADDRESS_def unsigned_minus_1_eq_mask mask_eq_exp_minus_1)
    then show ?thesis
      using p(3) page_plus(2) [OF a(2) u] same_page_plus [OF a(2) u] by (simp add: example_vmm_def user_space_def)
  qed
  have d: "0x200000 + j + example_HHDM \<noteq> 0xFFFF800000300000 + k" if "j < 16" "k < 16" for j k :: u64
  proof
    assume "0x200000 + j + example_HHDM = 0xFFFF800000300000 + k"
    then have "j = 0x100000 + k" by (simp add: example_HHDM_def algebra_simps) 
    moreover have "unat (0x100000 + k) = 0x100000 + unat k" using that by (subst unat_add_nowrap) (simp_all add: word_less_nat_alt)
    ultimately show False using that by (simp add: word_less_nat_alt)
  qed
  have "\<exists>st'. vmm_copy_to ?env ?st ?as 0x400000 0xFFFF800000300000 16 = Inr (st', 16) \<and> vm_ptm st' = vm_ptm ?st \<and>
    (\<forall>k < 16. vm_bytes st' (0x200000 + k + example_HHDM) = vm_bytes ?st (0xFFFF800000300000 + k)) \<and>
    (\<forall>x. (\<forall>k < 16. x \<noteq> 0x200000 + k + example_HHDM) \<longrightarrow> vm_bytes st' x = vm_bytes ?st x)"
    by (rule vmm_copy_to_correct [OF example_env ok]) (fact P d | simp)+
  then obtain st' where s: "vmm_copy_to ?env ?st ?as 0x400000 0xFFFF800000300000 16 = Inr (st', 16)"
    "\<forall>k < 16. vm_bytes st' (0x200000 + k + example_HHDM) = vm_bytes ?st (0xFFFF800000300000 + k)" by blast
  from s(2) [rule_format, of 3] have "vm_bytes st' 0xFFFF800000200003 = vm_bytes ?st 0xFFFF800000300003" by (simp add: example_HHDM_def)
  moreover have "754 \<le> n" using p(2) by simp
  ultimately show ?thesis using s(1) ok(1) by blast
qed


definition example_space :: "uptr \<Rightarrow> unit vmm_addr_space_t" where
  "example_space r = (user_space r)\<lparr>segments := [mmap_seg 0x400000 0x3000 3 5 None 0]\<rparr>"

theorem vmm_pagefault_anon_witness:
  "\<exists>p r st' f. ptm_ok example_HHDM p {r} 757 \<and>
     vmm_pagefault_handler (plain_env pmm_alloc_frame example_HHDM) (example_vmm p) (example_space r) 0x401123 = Inr (st', True) \<and>
     translate example_HHDM (vm_ptm st') r 0x401123 = Inr (f + 0x123)"
proof -
  obtain p r where p: "ptm_ok example_HHDM p {r} 757" using example_maps by blast
  let ?seg = "mmap_seg 0x400000 0x3000 3 5 None 0 :: unit vmm_seg_t"
  have h: "ptm_ok example_HHDM (vm_ptm (example_vmm p)) {r} 757" "4 \<le> (757 :: nat)" "ptm_map (example_space r) \<in> {r}"
    "vmm_addr_to_seg (example_space r) 0x401123 = Some ?seg" "seg_type ?seg = VMM_SEG_VNODE"
    "flag_set (seg_flags ?seg) VMM_MAP_PRIVATE" "flag_set (seg_flags ?seg) VMM_MAP_ANON"
    using p by (simp_all add: example_vmm_def example_space_def user_space_def vmm_addr_to_seg_def mmap_seg_def flag_set_def
        VMM_MAP_PRIVATE_def VMM_MAP_ANON_def)
  have "same_page 0x401123 0x401123" by (simp add: same_page_def)
  moreover have "ptm_map (example_space r) = r" "(0x401123 :: u64) AND 0xFFF = 0x123" by (simp_all add: example_space_def user_space_def)
  moreover obtain st' f where "vmm_pagefault_handler (plain_env pmm_alloc_frame example_HHDM) (example_vmm p) (example_space r) 0x401123 = Inr (st', True)"
    "mapped_page example_HHDM {r} (ptm_map (example_space r)) 0x401123 f (vm_ptm (example_vmm p)) (vm_ptm st')"
    using vmm_pagefault_anon [OF example_env h] by blast
  ultimately show ?thesis using p
    by (intro exI [of _ p] exI [of _ r] exI [of _ st'] exI [of _ f]) (simp add: mapped_page_def)
qed

end
