(* ===== verification/Kmem.thy ===== *)
theory Kmem
  imports Frames Kstring_Correct
begin

text \<open>
  The object caches of \<^verbatim>\<open>kernel/src/mm/kmem.c\<close> and the heap of \<^verbatim>\<open>kernel/src/mm/heap.c\<close> on top of them.
  Slabs, magazines and caches are structures at addresses, so the state is a store: a slab and a
  magazine occupy a page each, and the free objects of a slab are linked through their first word
  (\<open>km_words\<close>).  The lists of slabs and of magazines are lists of addresses.
\<close>

section \<open>Data\<close>

definition MAG_SIZE :: nat where "MAG_SIZE = 32"
definition SLAB_SIZE :: u64 where "SLAB_SIZE = 0x1000"
definition MAX_CPUS :: nat where "MAX_CPUS = 32"

record kmem_magazine_t =
  mag_count :: nat
  mag_objects :: "nat \<Rightarrow> uptr"

record kmem_cpu_cache_t =
  loaded :: uptr
  previous :: uptr

record kmem_cache_t =
  cache_name :: string
  object_size :: u64
  slabs_full :: "uptr list"
  slabs_partial :: "uptr list"
  slabs_lock :: spinlock_t
  magazines_full :: "uptr list"
  magazines_empty :: "uptr list"
  magazines_lock :: spinlock_t
  cpu_cache :: "kmem_cpu_cache_t list"

record kmem_slab_t =
  slab_cache :: uptr
  freelist :: uptr

definition SIZEOF_KMEM_SLAB :: u64 where "SIZEOF_KMEM_SLAB = 32"

text \<open>The store, the frame allocator and the interrupt flag of the running CPU.\<close>

record 's kmem =
  km_al :: 's
  km_int :: bool
  km_words :: "uptr \<Rightarrow> uptr"
  km_slabs :: "uptr \<Rightarrow> kmem_slab_t"
  km_mags :: "uptr \<Rightarrow> kmem_magazine_t"
  km_caches :: "uptr \<Rightarrow> kmem_cache_t"

type_synonym 's frame_source = "'s \<Rightarrow> ('s \<times> uptr) res"

definition km_page :: "'s frame_source \<Rightarrow> uptr \<Rightarrow> 's kmem \<Rightarrow> ('s kmem \<times> uptr) res" where
  "km_page al HHDM st = rbind (al (km_al st)) (\<lambda>(a, f). Inr (st\<lparr>km_al := a\<rparr>, f + HHDM))"

definition set_slab :: "uptr \<Rightarrow> kmem_slab_t \<Rightarrow> 's kmem \<Rightarrow> 's kmem" where
  "set_slab p s st = st\<lparr>km_slabs := (km_slabs st)(p := s)\<rparr>"

definition set_mag :: "uptr \<Rightarrow> kmem_magazine_t \<Rightarrow> 's kmem \<Rightarrow> 's kmem" where
  "set_mag p m st = st\<lparr>km_mags := (km_mags st)(p := m)\<rparr>"

definition set_cache :: "uptr \<Rightarrow> kmem_cache_t \<Rightarrow> 's kmem \<Rightarrow> 's kmem" where
  "set_cache p c st = st\<lparr>km_caches := (km_caches st)(p := c)\<rparr>"

section \<open>Slabs\<close>

text \<open>One object is put at the head of the free list.\<close>

definition slab_push :: "uptr \<Rightarrow> uptr \<Rightarrow> 's kmem \<Rightarrow> 's kmem" where
  "slab_push slab obj st =
     (let st1 = st\<lparr>km_words := (km_words st)(obj := freelist (km_slabs st slab))\<rparr>
      in set_slab slab ((km_slabs st1 slab)\<lparr>freelist := obj\<rparr>) st1)"

definition slot :: "uptr \<Rightarrow> u64 \<Rightarrow> nat \<Rightarrow> uptr" where
  "slot slab sz i = slab + SIZEOF_KMEM_SLAB + of_nat i * sz"

definition slab_capacity :: "u64 \<Rightarrow> nat" where
  "slab_capacity sz = unat ((pmm_order_to_pagecount 0 * ARCH_PAGE_GRAN - SIZEOF_KMEM_SLAB) div sz)"

definition cache_make_slab :: "'s frame_source \<Rightarrow> uptr \<Rightarrow> uptr \<Rightarrow> 's kmem \<Rightarrow> ('s kmem \<times> uptr) res" where
  "cache_make_slab al HHDM cache st =
     rbind (km_page al HHDM st) (\<lambda>(st1, slab).
     let st2 = set_slab slab \<lparr>slab_cache = cache, freelist = 0\<rparr> st1;
         sz = object_size (km_caches st2 cache)
     in if sz = 0 then Inl Undefined
        else Inr (foldl (\<lambda>s i. slab_push slab (slot slab sz i) s) st2 [0..<slab_capacity sz], slab))"

definition cache_alloc_from_slabs :: "'s frame_source \<Rightarrow> uptr \<Rightarrow> uptr \<Rightarrow> 's kmem \<Rightarrow> ('s kmem \<times> uptr) res" where
  "cache_alloc_from_slabs al HHDM cache st =
     rbind (if slabs_partial (km_caches st cache) = []
            then rbind (cache_make_slab al HHDM cache st) (\<lambda>(s, slab).
                 let c = km_caches s cache
                 in Inr (set_cache cache (c\<lparr>slabs_partial := slabs_partial c @ [slab]\<rparr>) s))
            else Inr st) (\<lambda>st1.
     case slabs_partial (km_caches st1 cache) of
       [] \<Rightarrow> Inl NullDeref
     | slab # _ \<Rightarrow>
         rbind (assert_c (freelist (km_slabs st1 slab) \<noteq> 0)) (\<lambda>_.
         let obj = freelist (km_slabs st1 slab);
             st2 = set_slab slab ((km_slabs st1 slab)\<lparr>freelist := km_words st1 obj\<rparr>) st1;
             c = km_caches st2 cache;
             st3 = (if freelist (km_slabs st2 slab) = 0
                    then set_cache cache (c\<lparr>slabs_partial := remove1 slab (slabs_partial c),
                           slabs_full := slabs_full c @ [slab]\<rparr>) st2
                    else st2)
         in Inr (st3, obj)))"

section \<open>Locks of a cache\<close>

definition lock_slabs :: "uptr \<Rightarrow> 's kmem \<Rightarrow> 's kmem res" where
  "lock_slabs cache st =
     rbind (spinlock_acquire (km_int st) (slabs_lock (km_caches st cache))) (\<lambda>(i, l).
     Inr (set_cache cache ((km_caches st cache)\<lparr>slabs_lock := l\<rparr>) (st\<lparr>km_int := i\<rparr>)))"

definition unlock_slabs :: "uptr \<Rightarrow> 's kmem \<Rightarrow> 's kmem" where
  "unlock_slabs cache st =
     (let (i, l) = spinlock_release (km_int st) (slabs_lock (km_caches st cache))
      in set_cache cache ((km_caches st cache)\<lparr>slabs_lock := l\<rparr>) (st\<lparr>km_int := i\<rparr>))"

definition lock_magazines :: "uptr \<Rightarrow> 's kmem \<Rightarrow> 's kmem res" where
  "lock_magazines cache st =
     rbind (spinlock_acquire (km_int st) (magazines_lock (km_caches st cache))) (\<lambda>(i, l).
     Inr (set_cache cache ((km_caches st cache)\<lparr>magazines_lock := l\<rparr>) (st\<lparr>km_int := i\<rparr>)))"

definition unlock_magazines :: "uptr \<Rightarrow> 's kmem \<Rightarrow> 's kmem" where
  "unlock_magazines cache st =
     (let (i, l) = spinlock_release (km_int st) (magazines_lock (km_caches st cache))
      in set_cache cache ((km_caches st cache)\<lparr>magazines_lock := l\<rparr>) (st\<lparr>km_int := i\<rparr>))"

section \<open>Magazines\<close>

definition mag_store :: "uptr \<Rightarrow> nat \<Rightarrow> uptr \<Rightarrow> 's kmem \<Rightarrow> 's kmem res" where
  "mag_store mag i obj st =
     (if i < MAG_SIZE
      then Inr (set_mag mag ((km_mags st mag)\<lparr>mag_objects := (mag_objects (km_mags st mag))(i := obj)\<rparr>) st)
      else Inl OutOfBounds)"

text \<open>\<^verbatim>\<open>mag->objects[--mag->count]\<close> and \<^verbatim>\<open>mag->objects[mag->count++] = obj\<close>.\<close>

definition mag_pop :: "uptr \<Rightarrow> 's kmem \<Rightarrow> ('s kmem \<times> uptr) res" where
  "mag_pop mag st =
     (let m = km_mags st mag
      in if 0 < mag_count m \<and> mag_count m \<le> MAG_SIZE
         then Inr (set_mag mag (m\<lparr>mag_count := mag_count m - 1\<rparr>) st, mag_objects m (mag_count m - 1))
         else Inl OutOfBounds)"

definition mag_push :: "uptr \<Rightarrow> uptr \<Rightarrow> 's kmem \<Rightarrow> 's kmem res" where
  "mag_push mag obj st =
     (let m = km_mags st mag
      in mag_store mag (mag_count m) obj (set_mag mag (m\<lparr>mag_count := mag_count m + 1\<rparr>) st))"

definition cache_make_magazine :: "'s frame_source \<Rightarrow> uptr \<Rightarrow> uptr \<Rightarrow> bool \<Rightarrow> 's kmem \<Rightarrow> ('s kmem \<times> uptr) res" where
  "cache_make_magazine al HHDM cache populate st =
     rbind (km_page al HHDM st) (\<lambda>(st1, mag).
     rbind (lock_slabs cache st1) (\<lambda>st2.
     rbind (for_each (\<lambda>s i.
              rbind (if populate then cache_alloc_from_slabs al HHDM cache s else Inr (s, 0)) (\<lambda>(s1, obj).
              mag_store mag i obj s1)) [0..<MAG_SIZE] st2) (\<lambda>st3.
     let st4 = unlock_slabs cache st3
     in Inr (set_mag mag ((km_mags st4 mag)\<lparr>mag_count := (if populate then MAG_SIZE else 0)\<rparr>) st4, mag))))"

section \<open>Caches\<close>

definition NULL_CPU_CACHE :: kmem_cpu_cache_t where "NULL_CPU_CACHE = \<lparr>loaded = 0, previous = 0\<rparr>"

definition set_cpu :: "uptr \<Rightarrow> nat \<Rightarrow> kmem_cpu_cache_t \<Rightarrow> 's kmem \<Rightarrow> 's kmem" where
  "set_cpu cache i cc st =
     (let c = km_caches st cache in set_cache cache (c\<lparr>cpu_cache := (cpu_cache c)[i := cc]\<rparr>) st)"

definition kmem_cache_intialize ::
  "'s frame_source \<Rightarrow> uptr \<Rightarrow> uptr \<Rightarrow> string \<Rightarrow> u64 \<Rightarrow> 's kmem \<Rightarrow> 's kmem res" where
  "kmem_cache_intialize al HHDM cache name sz st =
     for_each (\<lambda>s i.
         rbind (cache_make_magazine al HHDM cache True s) (\<lambda>(s1, ld).
         rbind (cache_make_magazine al HHDM cache False s1) (\<lambda>(s2, prev).
         Inr (set_cpu cache i \<lparr>loaded = ld, previous = prev\<rparr> s2))))
       [0..<MAX_CPUS]
       (set_cache cache
          \<lparr>cache_name = name, object_size = sz, slabs_full = [], slabs_partial = [], slabs_lock = SPINLOCK_INIT,
           magazines_full = [], magazines_empty = [], magazines_lock = SPINLOCK_INIT,
           cpu_cache = replicate MAX_CPUS NULL_CPU_CACHE\<rparr> st)"

text \<open>The CPU: 0 until the others run (\<^verbatim>\<open>g_smp_initialized\<close>), then the core of the thread.\<close>

definition kmem_cpu :: "uptr \<Rightarrow> u64 option \<Rightarrow> 's kmem \<Rightarrow> (nat \<times> kmem_cpu_cache_t) res" where
  "kmem_cpu cache core st =
     (let cpu_id = (case core of None \<Rightarrow> 0 | Some i \<Rightarrow> unat i); ccs = cpu_cache (km_caches st cache)
      in if cpu_id < length ccs then Inr (cpu_id, ccs ! cpu_id) else Inl OutOfBounds)"

definition kmem_alloc_cache :: "'s frame_source \<Rightarrow> uptr \<Rightarrow> uptr \<Rightarrow> u64 option \<Rightarrow> 's kmem \<Rightarrow> ('s kmem \<times> uptr) res" where
  "kmem_alloc_cache al HHDM cache core st =
     rbind (kmem_cpu cache core st) (\<lambda>(cpu, cc).
     if 0 < mag_count (km_mags st (loaded cc)) then mag_pop (loaded cc) st
     else
       rbind (assert_c (previous cc \<noteq> 0)) (\<lambda>_.
       if mag_count (km_mags st (previous cc)) = MAG_SIZE
       then mag_pop (previous cc) (set_cpu cache cpu \<lparr>loaded = previous cc, previous = loaded cc\<rparr> st)
       else
         rbind (lock_magazines cache st) (\<lambda>st1.
         let c = km_caches st1 cache
         in case magazines_full c of
              mag # rest \<Rightarrow>
                let st2 = set_cache cache (c\<lparr>magazines_full := rest, magazines_empty := magazines_empty c @ [previous cc]\<rparr>) st1;
                    st3 = set_cpu cache cpu \<lparr>loaded = mag, previous = loaded cc\<rparr> st2
                in mag_pop mag (unlock_magazines cache st3)
            | [] \<Rightarrow>
                rbind (lock_slabs cache (unlock_magazines cache st1)) (\<lambda>st2.
                rbind (cache_alloc_from_slabs al HHDM cache st2) (\<lambda>(st3, obj).
                Inr (unlock_slabs cache st3, obj))))))"

definition kmem_free_cache :: "'s frame_source \<Rightarrow> uptr \<Rightarrow> uptr \<Rightarrow> u64 option \<Rightarrow> uptr \<Rightarrow> 's kmem \<Rightarrow> 's kmem res" where
  "kmem_free_cache al HHDM cache core obj st =
     rbind (kmem_cpu cache core st) (\<lambda>(cpu, cc).
     if mag_count (km_mags st (loaded cc)) < MAG_SIZE then mag_push (loaded cc) obj st
     else if mag_count (km_mags st (previous cc)) = 0
     then mag_push (previous cc) obj (set_cpu cache cpu \<lparr>loaded = previous cc, previous = loaded cc\<rparr> st)
     else
       rbind (lock_magazines cache st) (\<lambda>st1.
       let c = km_caches st1 cache;
           full = magazines_full c @ [loaded cc];
           st2 = unlock_magazines cache (set_cache cache (c\<lparr>magazines_full := tl full\<rparr>) st1)
       in rbind (case full of mag # _ \<Rightarrow> Inr (st2, mag) | [] \<Rightarrow> cache_make_magazine al HHDM cache False st2) (\<lambda>(st3, new_mag).
          let st4 = set_cpu cache cpu \<lparr>loaded = new_mag, previous = loaded cc\<rparr> st3
          in mag_push new_mag obj (set_mag new_mag ((km_mags st4 new_mag)\<lparr>mag_count := 0\<rparr>) st4))))"

definition kmem_new_cache :: "'s frame_source \<Rightarrow> uptr \<Rightarrow> string \<Rightarrow> u64 \<Rightarrow> 's kmem \<Rightarrow> ('s kmem \<times> uptr) res" where
  "kmem_new_cache al HHDM name sz st =
     rbind (km_page al HHDM st) (\<lambda>(st1, cache).
     rbind (kmem_cache_intialize al HHDM cache name sz st1) (\<lambda>st2. Inr (st2, cache)))"

definition SIZEOF_KMEM_CACHE :: u64 where "SIZEOF_KMEM_CACHE = 640"

definition kmem_init :: "unit res" where
  "kmem_init = assert_c (SIZEOF_KMEM_CACHE \<le> ARCH_PAGE_GRAN)"

section \<open>Heap\<close>

text \<open>The caches \<^verbatim>\<open>g_caches\<close> lie one after the other at the address \<open>G\<close>.\<close>

definition g_cache_sizes :: "u64 list" where
  "g_cache_sizes = [8, 16, 32, 64, 128, 256, 512, 1024]"

definition g_cache_names :: "string list" where
  "g_cache_names = [''heap-8'', ''heap-16'', ''heap-32'', ''heap-64'', ''heap-128'', ''heap-256'', ''heap-512'', ''heap-1024'']"

definition g_caches :: "uptr \<Rightarrow> int \<Rightarrow> uptr res" where
  "g_caches G i = (if 0 \<le> i \<and> i < 8 then Inr (G + of_int i * SIZEOF_KMEM_CACHE) else Inl OutOfBounds)"

definition heap_order :: "u64 \<Rightarrow> int" where
  "heap_order sz = (if sz \<le> 8 then 0 else 61 - int (clzll (sz - 1)))"

definition heap_alloc :: "'s frame_source \<Rightarrow> uptr \<Rightarrow> uptr \<Rightarrow> u64 option \<Rightarrow> u64 \<Rightarrow> 's kmem \<Rightarrow> ('s kmem \<times> uptr) res" where
  "heap_alloc al HHDM G core sz st =
     rbind (assert_c (sz \<le> 1024)) (\<lambda>_.
     rbind (g_caches G (heap_order sz)) (\<lambda>c. kmem_alloc_cache al HHDM c core st))"

definition heap_free_size ::
  "'s frame_source \<Rightarrow> uptr \<Rightarrow> uptr \<Rightarrow> u64 option \<Rightarrow> uptr \<Rightarrow> u64 \<Rightarrow> 's kmem \<Rightarrow> 's kmem res" where
  "heap_free_size al HHDM G core obj sz st =
     rbind (g_caches G (heap_order sz)) (\<lambda>c. kmem_free_cache al HHDM c core obj st)"

definition heap_free :: "'s frame_source \<Rightarrow> uptr \<Rightarrow> uptr \<Rightarrow> u64 option \<Rightarrow> uptr \<Rightarrow> 's kmem \<Rightarrow> 's kmem res" where
  "heap_free al HHDM G core obj st =
     (let slab = obj AND NOT (SLAB_SIZE - 1);
          sz = object_size (km_caches st (slab_cache (km_slabs st slab)))
      in heap_free_size al HHDM G core obj sz st)"

text \<open>The contents of the objects are in the byte memory \<open>m\<close>.\<close>

definition heap_realloc ::
  "'s frame_source \<Rightarrow> uptr \<Rightarrow> uptr \<Rightarrow> u64 option \<Rightarrow> uptr \<Rightarrow> u64 \<Rightarrow> u64 \<Rightarrow> bytes \<Rightarrow> 's kmem \<Rightarrow> ('s kmem \<times> bytes \<times> uptr) res" where
  "heap_realloc al HHDM G core obj old_size new_size m st =
     rbind (heap_alloc al HHDM G core new_size st) (\<lambda>(st1, new_obj).
     if obj \<noteq> 0
     then rbind (heap_free_size al HHDM G core obj old_size st1) (\<lambda>st2. Inr (st2, memcpy m new_obj obj old_size, new_obj))
     else Inr (st1, m, new_obj))"

definition heap_init :: "'s frame_source \<Rightarrow> uptr \<Rightarrow> uptr \<Rightarrow> 's kmem \<Rightarrow> 's kmem res" where
  "heap_init al HHDM G st =
     for_each (\<lambda>s i. rbind (g_caches G (int i)) (\<lambda>c.
         kmem_cache_intialize al HHDM c (g_cache_names ! i) (g_cache_sizes ! i) s)) [0..<8] st"

end
