(* ===== verification/Kmem_Correct.thy ===== *)
theory Kmem_Correct
  imports Kmem Pages
begin

text \<open>
  The invariant of the object caches: every object has one owner, a slab, a magazine or the
  client, so an object handed out is in nobody else's hands.  The proofs use the contract of the
  frame allocator only.
\<close>

section \<open>Slots of a slab\<close>

definition size_ok :: "u64 \<Rightarrow> bool" where
  "size_ok sz \<longleftrightarrow> 8 \<le> unat sz \<and> unat sz \<le> 4064"

lemma slab_capacity_nat: "size_ok sz \<Longrightarrow> slab_capacity sz = 4064 div unat sz"
  by (simp add: slab_capacity_def pmm_order_to_pagecount_def page_gran SIZEOF_KMEM_SLAB_def unat_div)

lemma slab_capacity_pos: "size_ok sz \<Longrightarrow> 0 < slab_capacity sz"
  by (simp add: slab_capacity_nat) (simp add: size_ok_def div_greater_zero_iff)

lemma slot_offset:
  assumes "size_ok sz" "i < slab_capacity sz"
  shows "\<exists>k. slot s sz i = s + k \<and> unat k = 32 + i * unat sz \<and> unat k + unat sz \<le> 4096"
proof -
  have "Suc i \<le> 4064 div unat sz" using assms by (simp add: slab_capacity_nat)
  then have le: "Suc i * unat sz \<le> 4064" by (metis div_times_less_eq_dividend le_trans mult_le_mono1)
  then have i: "i * unat sz + unat sz \<le> 4064" by simp
  have "i * 8 \<le> i * unat sz" using assms(1) by (simp add: size_ok_def)
  then have "i * 8 \<le> 4064" using i by linarith
  then have "unat (of_nat i :: u64) = i" by (intro unat_of_nat_small) simp
  then have "unat (of_nat i * sz) = i * unat sz" using i by (subst unat_mult_nowrap) simp_all
  then have "unat (32 + of_nat i * sz) = 32 + i * unat sz" using i by (subst unat_add_nowrap) simp_all
  then show ?thesis
    using i by (intro exI [of _ "32 + of_nat i * sz"]) (simp add: slot_def SIZEOF_KMEM_SLAB_def add.assoc)
qed

lemma slot_inj:
  assumes "size_ok sz" "i < slab_capacity sz" "size_ok sz'" "j < slab_capacity sz'" "s mod 0x1000 = 0" "s' mod 0x1000 = 0"
    "slot s sz i = slot s' sz' j"
  shows "s = s' \<and> (sz = sz' \<longrightarrow> i = j)"
proof -
  obtain k where k: "slot s sz i = s + k" "unat k = 32 + i * unat sz" "unat k + unat sz \<le> 4096"
    using slot_offset [OF assms(1,2)] by blast
  obtain l where l: "slot s' sz' j = s' + l" "unat l = 32 + j * unat sz'" "unat l + unat sz' \<le> 4096"
    using slot_offset [OF assms(3,4)] by blast
  have "0 < unat sz" "0 < unat sz'" using assms(1,3) by (auto simp: size_ok_def)
  then have "s = s' \<and> k = l" using page_plus_inj [OF assms(5) _ assms(6), of k l] k l assms(7) by simp
  moreover then have "sz = sz' \<longrightarrow> i = j" using k(2) l(2) \<open>0 < unat sz\<close> by auto
  ultimately show ?thesis by simp
qed

lemma slot_nz:
  assumes "size_ok sz" "i < slab_capacity sz" "s mod 0x1000 = 0"
  shows "slot s sz i \<noteq> 0" "slot s sz i AND NOT 0xFFF = s"
proof -
  obtain k where k: "slot s sz i = s + k" "unat k = 32 + i * unat sz" "unat k + unat sz \<le> 4096"
    using slot_offset [OF assms(1,2)] by blast
  have "unat k < 4096" using k(3) assms(1) by (simp add: size_ok_def)
  from page_plus [OF assms(3) this] k(1,2) show "slot s sz i \<noteq> 0" "slot s sz i AND NOT 0xFFF = s"
    by (simp_all add: unat_eq_zero [symmetric])
qed

section \<open>Free lists\<close>

fun chain :: "(uptr \<Rightarrow> uptr) \<Rightarrow> uptr \<Rightarrow> uptr list \<Rightarrow> bool" where
  "chain w p [] \<longleftrightarrow> p = 0"
| "chain w p (x # xs) \<longleftrightarrow> p = x \<and> x \<noteq> 0 \<and> chain w (w x) xs"

lemma chain_cong: "(\<And>x. x \<in> set xs \<Longrightarrow> w x = w' x) \<Longrightarrow> chain w p xs = chain w' p xs"
  by (induction xs arbitrary: p) auto

lemma set_slab_simps [simp]:
  "km_slabs (set_slab p s st) q = (if q = p then s else km_slabs st q)"
  "km_words (set_slab p s st) = km_words st" "km_mags (set_slab p s st) = km_mags st"
  "km_caches (set_slab p s st) = km_caches st" "km_al (set_slab p s st) = km_al st" "km_int (set_slab p s st) = km_int st"
  by (simp_all add: set_slab_def)

lemma set_mag_simps [simp]:
  "km_mags (set_mag p m st) q = (if q = p then m else km_mags st q)"
  "km_words (set_mag p m st) = km_words st" "km_slabs (set_mag p m st) = km_slabs st"
  "km_caches (set_mag p m st) = km_caches st" "km_al (set_mag p m st) = km_al st" "km_int (set_mag p m st) = km_int st"
  by (simp_all add: set_mag_def)

lemma set_cache_simps [simp]:
  "km_caches (set_cache p c st) q = (if q = p then c else km_caches st q)"
  "km_words (set_cache p c st) = km_words st" "km_slabs (set_cache p c st) = km_slabs st"
  "km_mags (set_cache p c st) = km_mags st" "km_al (set_cache p c st) = km_al st" "km_int (set_cache p c st) = km_int st"
  by (simp_all add: set_cache_def)

definition same_but_slab :: "uptr \<Rightarrow> 's kmem \<Rightarrow> 's kmem \<Rightarrow> bool" where
  "same_but_slab slab st st' \<longleftrightarrow> km_al st' = km_al st \<and> km_int st' = km_int st \<and> km_mags st' = km_mags st \<and>
     km_caches st' = km_caches st \<and> (\<forall>p. p \<noteq> slab \<longrightarrow> km_slabs st' p = km_slabs st p) \<and>
     slab_cache (km_slabs st' slab) = slab_cache (km_slabs st slab)"

lemma slab_push_simps:
  "km_words (slab_push slab obj st) = (km_words st)(obj := freelist (km_slabs st slab))"
  "freelist (km_slabs (slab_push slab obj st) slab) = obj"
  "same_but_slab slab st (slab_push slab obj st)"
  by (simp_all add: slab_push_def Let_def same_but_slab_def)

lemma push_slots:
  fixes st :: "'s kmem"
  assumes "size_ok sz" "slab mod 0x1000 = 0" "freelist (km_slabs st slab) = 0" "k \<le> slab_capacity sz"
  defines "fill \<equiv> \<lambda>j. foldl (\<lambda>s i. slab_push slab (slot slab sz i) s) st [0..<j]"
  shows "chain (km_words (fill k)) (freelist (km_slabs (fill k) slab)) (map (slot slab sz) (rev [0..<k])) \<and>
    same_but_slab slab st (fill k) \<and> (\<forall>x. (\<forall>i < k. x \<noteq> slot slab sz i) \<longrightarrow> km_words (fill k) x = km_words st x)"
  using assms(4)
proof (induction k)
  case 0
  then show ?case using assms(3) by (simp add: fill_def same_but_slab_def)
next
  case (Suc k)
  let ?xs = "map (slot slab sz) (rev [0..<k])" and ?o = "slot slab sz k"
  from Suc have c: "chain (km_words (fill k)) (freelist (km_slabs (fill k) slab)) ?xs" and s: "same_but_slab slab st (fill k)"
    and w: "\<forall>x. (\<forall>i < k. x \<noteq> slot slab sz i) \<longrightarrow> km_words (fill k) x = km_words st x" by simp_all
  have n: "?o \<noteq> 0" using slot_nz [OF assms(1) _ assms(2)] Suc.prems by simp
  have d: "slot slab sz i \<noteq> ?o" if "i < k" for i
    using slot_inj [OF assms(1) _ assms(1) _ assms(2,2), of i k] that Suc.prems by auto
  have f: "fill (Suc k) = slab_push slab ?o (fill k)" by (simp add: fill_def)
  define v where "v = km_words (slab_push slab ?o (fill k))"
  have v: "v ?o = freelist (km_slabs (fill k) slab)" "\<And>x. x \<noteq> ?o \<Longrightarrow> v x = km_words (fill k) x"
    by (simp_all add: v_def slab_push_simps)
  have e: "v x = km_words (fill k) x" if "x \<in> set ?xs" for x using that v(2) d by auto
  have "chain v (freelist (km_slabs (fill k) slab)) ?xs" using c chain_cong [of ?xs v "km_words (fill k)", OF e] by simp
  moreover have "same_but_slab slab st (slab_push slab ?o (fill k))"
    using s slab_push_simps(3) [of slab "fill k" ?o] by (simp add: same_but_slab_def)
  ultimately show ?case using n w v unfolding f v_def [symmetric] slab_push_simps(2) by (simp add: less_Suc_eq)
qed

section \<open>The invariant\<close>

datatype owner = InSlab uptr | InMag uptr | InUse

definition cslabs :: "kmem_cache_t \<Rightarrow> uptr list" where
  "cslabs c = slabs_partial c @ slabs_full c"

text \<open>The object \<open>x\<close> is one of the slots of the slab \<open>s\<close>, and of some slab of the cache.\<close>

definition in_slab :: "'s kmem \<Rightarrow> uptr \<Rightarrow> uptr \<Rightarrow> uptr \<Rightarrow> bool" where
  "in_slab st ca s x \<longleftrightarrow> (let sz = object_size (km_caches st ca) in \<exists>i < slab_capacity sz. x = slot s sz i)"

definition in_cache :: "'s kmem \<Rightarrow> uptr \<Rightarrow> uptr \<Rightarrow> bool" where
  "in_cache st ca x \<longleftrightarrow> (\<exists>s \<in> set (cslabs (km_caches st ca)). in_slab st ca s x)"

definition page_in :: "uptr \<Rightarrow> uptr set \<Rightarrow> uptr \<Rightarrow> bool" where
  "page_in HHDM U p \<longleftrightarrow> p mod 0x1000 = 0 \<and> p - HHDM \<in> U"

definition slab_ok :: "'s kmem \<Rightarrow> (uptr \<rightharpoonup> owner) \<Rightarrow> uptr \<Rightarrow> uptr \<Rightarrow> bool" where
  "slab_ok st own ca s \<longleftrightarrow>
     (\<exists>xs. xs \<noteq> [] \<and> chain (km_words st) (freelist (km_slabs st s)) xs \<and> distinct xs \<and>
        (\<forall>x \<in> set xs. own x = Some (InSlab s) \<and> in_slab st ca s x))"

definition cache_ok :: "uptr \<Rightarrow> uptr set \<Rightarrow> 's kmem \<Rightarrow> (uptr \<rightharpoonup> owner) \<Rightarrow> uptr \<Rightarrow> bool" where
  "cache_ok HHDM U st own ca \<longleftrightarrow>
     (let c = km_caches st ca in
        size_ok (object_size c) \<and> distinct (cslabs c) \<and>
        (\<forall>s \<in> set (cslabs c). page_in HHDM U s \<and> slab_cache (km_slabs st s) = ca) \<and>
        (\<forall>s \<in> set (slabs_partial c). slab_ok st own ca s))"

text \<open>The direct map of physical memory: page-aligned, and addresses below \<open>2\<^sup>4\<^sup>7\<close> do not wrap.\<close>

definition direct_map :: "uptr \<Rightarrow> bool" where
  "direct_map HHDM \<longleftrightarrow> HHDM mod 0x1000 = 0 \<and> unat HHDM + 2 ^ 47 \<le> 2 ^ 64"

definition slab_inv ::
  "('s \<Rightarrow> uptr set \<Rightarrow> nat \<Rightarrow> bool) \<Rightarrow> uptr \<Rightarrow> uptr set \<Rightarrow> 's kmem \<Rightarrow> uptr set \<Rightarrow> nat \<Rightarrow> (uptr \<rightharpoonup> owner) \<Rightarrow> bool" where
  "slab_inv frames HHDM C st U n own \<longleftrightarrow>
     frames (km_al st) U n \<and> direct_map HHDM \<and> (\<forall>ca \<in> C. cache_ok HHDM U st own ca) \<and>
     (\<forall>x. own x \<noteq> None \<longrightarrow> (\<exists>ca \<in> C. in_cache st ca x))"

text \<open>The magazines of the CPUs hold objects of their cache; the depots stay empty.\<close>

definition mag_ok :: "'s kmem \<Rightarrow> (uptr \<rightharpoonup> owner) \<Rightarrow> uptr \<Rightarrow> uptr \<Rightarrow> bool" where
  "mag_ok st own ca m \<longleftrightarrow>
     mag_count (km_mags st m) \<le> MAG_SIZE \<and> inj_on (mag_objects (km_mags st m)) {..<mag_count (km_mags st m)} \<and>
     (\<forall>i < mag_count (km_mags st m). own (mag_objects (km_mags st m) i) = Some (InMag m) \<and> in_cache st ca (mag_objects (km_mags st m) i))"

definition cpu_mags :: "kmem_cache_t \<Rightarrow> uptr set" where
  "cpu_mags c = (\<Union>cc \<in> set (cpu_cache c). {loaded cc, previous cc})"

definition cpus_ok :: "uptr \<Rightarrow> uptr set \<Rightarrow> 's kmem \<Rightarrow> (uptr \<rightharpoonup> owner) \<Rightarrow> uptr \<Rightarrow> bool" where
  "cpus_ok HHDM U st own ca \<longleftrightarrow>
     (\<forall>m \<in> cpu_mags (km_caches st ca). m \<noteq> 0 \<and> page_in HHDM U m \<and> mag_ok st own ca m)"

definition idle :: "kmem_cache_t \<Rightarrow> bool" where
  "idle c \<longleftrightarrow> sl_lock (slabs_lock c) = 0 \<and> sl_lock (magazines_lock c) = 0 \<and> magazines_full c = [] \<and>
     magazines_empty c = [] \<and> length (cpu_cache c) = MAX_CPUS"

definition kmem_inv ::
  "('s \<Rightarrow> uptr set \<Rightarrow> nat \<Rightarrow> bool) \<Rightarrow> uptr \<Rightarrow> uptr set \<Rightarrow> 's kmem \<Rightarrow> uptr set \<Rightarrow> nat \<Rightarrow> (uptr \<rightharpoonup> owner) \<Rightarrow> bool" where
  "kmem_inv frames HHDM C st U n own \<longleftrightarrow>
     slab_inv frames HHDM C st U n own \<and> (\<forall>ca \<in> C. cpus_ok HHDM U st own ca \<and> idle (km_caches st ca)) \<and>
     (\<forall>ca \<in> C. \<forall>cb \<in> C. ca \<noteq> cb \<longrightarrow> cpu_mags (km_caches st ca) \<inter> cpu_mags (km_caches st cb) = {})"

section \<open>Allocation from the slabs\<close>

text \<open>What an allocation from the slabs of the cache \<open>ca\<close> leaves as it was.\<close>

definition grown :: "uptr \<Rightarrow> 's kmem \<Rightarrow> 's kmem \<Rightarrow> bool" where
  "grown ca st st' \<longleftrightarrow> km_int st' = km_int st \<and>
     (\<forall>c. c \<noteq> ca \<longrightarrow> km_caches st' c = km_caches st c) \<and>
     (km_caches st' ca)\<lparr>slabs_partial := [], slabs_full := []\<rparr> = (km_caches st ca)\<lparr>slabs_partial := [], slabs_full := []\<rparr> \<and>
     set (cslabs (km_caches st ca)) \<subseteq> set (cslabs (km_caches st' ca))"

lemma grown_caches:
  assumes "grown ca st st'"
  shows "object_size (km_caches st' c) = object_size (km_caches st c)" "cpu_cache (km_caches st' c) = cpu_cache (km_caches st c)"
    "slabs_lock (km_caches st' c) = slabs_lock (km_caches st c)" "idle (km_caches st' c) = idle (km_caches st c)"
    "set (cslabs (km_caches st c)) \<subseteq> set (cslabs (km_caches st' c))" "in_slab st' c = in_slab st c"
    "in_cache st c x \<Longrightarrow> in_cache st' c x"
proof -
  have ne: "c \<noteq> ca \<Longrightarrow> km_caches st' c = km_caches st c" using assms by (auto simp: grown_def)
  let ?e = "\<lambda>c. c\<lparr>slabs_partial := [], slabs_full := []\<rparr>"
  have e: "?e (km_caches st' c) = ?e (km_caches st c)" using ne assms by (cases "c = ca") (simp_all add: grown_def)
  show o: "object_size (km_caches st' c) = object_size (km_caches st c)" "cpu_cache (km_caches st' c) = cpu_cache (km_caches st c)"
    "slabs_lock (km_caches st' c) = slabs_lock (km_caches st c)" "idle (km_caches st' c) = idle (km_caches st c)"
    using arg_cong [OF e, of object_size] arg_cong [OF e, of cpu_cache] arg_cong [OF e, of slabs_lock]
      arg_cong [OF e, of idle] by (simp_all add: idle_def)
  show s: "set (cslabs (km_caches st c)) \<subseteq> set (cslabs (km_caches st' c))" using assms ne by (cases "c = ca") (simp_all add: grown_def)
  show i: "in_slab st' c = in_slab st c" by (simp add: fun_eq_iff in_slab_def o(1))
  show "in_cache st c x \<Longrightarrow> in_cache st' c x" using s unfolding in_cache_def i by blast
qed

lemma grown_trans: "grown ca s t \<Longrightarrow> grown ca t u \<Longrightarrow> grown ca s u"
  unfolding grown_def by auto

text \<open>Taking the first object of the first partial slab.\<close>

definition slab_take :: "uptr \<Rightarrow> uptr \<Rightarrow> 's kmem \<Rightarrow> 's kmem" where
  "slab_take ca slab st =
     (let st2 = set_slab slab ((km_slabs st slab)\<lparr>freelist := km_words st (freelist (km_slabs st slab))\<rparr>) st;
          c = km_caches st2 ca
      in if freelist (km_slabs st2 slab) = 0
         then set_cache ca (c\<lparr>slabs_partial := remove1 slab (slabs_partial c), slabs_full := slabs_full c @ [slab]\<rparr>) st2
         else st2)"

lemma slab_take_simps:
  assumes "slabs_partial (km_caches st ca) = slab # rest"
  shows "km_words (slab_take ca slab st) = km_words st" "km_al (slab_take ca slab st) = km_al st"
    "s \<noteq> slab \<Longrightarrow> km_slabs (slab_take ca slab st) s = km_slabs st s" "slab_cache (km_slabs (slab_take ca slab st) s) = slab_cache (km_slabs st s)"
    "freelist (km_slabs (slab_take ca slab st) slab) = km_words st (freelist (km_slabs st slab))"
    "grown ca st (slab_take ca slab st)" "set (cslabs (km_caches (slab_take ca slab st) c)) = set (cslabs (km_caches st c))"
    "distinct (cslabs (km_caches (slab_take ca slab st) c)) = distinct (cslabs (km_caches st c))"
    "set (slabs_partial (km_caches (slab_take ca slab st) c)) \<subseteq> set (slabs_partial (km_caches st c))"
    "km_words st (freelist (km_slabs st slab)) = 0 \<Longrightarrow> slabs_partial (km_caches (slab_take ca slab st) ca) = rest"
    "km_mags (slab_take ca slab st) = km_mags st"
  using assms by (auto simp: slab_take_def Let_def grown_def cslabs_def)

lemma slab_take_ok:
  assumes inv: "slab_inv frames HHDM C st U n own" and ca: "ca \<in> C" and p: "slabs_partial (km_caches st ca) = slab # rest"
  defines "obj \<equiv> freelist (km_slabs st slab)"
  shows "slab_inv frames HHDM C (slab_take ca slab st) U n (own(obj \<mapsto> InUse))" "own obj = Some (InSlab slab)" "in_slab st ca slab obj" "obj \<noteq> 0"
proof -
  note sim = slab_take_simps [OF p]
  have cok: "cache_ok HHDM U st own c" if "c \<in> C" for c using inv that by (simp add: slab_inv_def)
  have "slab_ok st own ca slab" using cok [OF ca] p by (auto simp: cache_ok_def Let_def)
  then obtain xs where xs: "chain (km_words st) obj (obj # xs)" "distinct (obj # xs)"
    "\<forall>x \<in> set (obj # xs). own x = Some (InSlab slab) \<and> in_slab st ca slab x"
    unfolding slab_ok_def obj_def by (metis chain.simps(2) neq_Nil_conv)
  then show own: "own obj = Some (InSlab slab)" "in_slab st ca slab obj" "obj \<noteq> 0" by auto
  have home: "slab_cache (km_slabs st s) = c" if "c \<in> C" "s \<in> set (cslabs (km_caches st c))" for c s
    using cok [OF that(1)] that(2) by (auto simp: cache_ok_def Let_def)
  have slab: "slab_ok (slab_take ca slab st) (own(obj \<mapsto> InUse)) c s" if c: "c \<in> C" "s \<in> set (slabs_partial (km_caches (slab_take ca slab st) c))" for c s
  proof (cases "s = slab")
    case False
    have "s \<in> set (slabs_partial (km_caches st c))" using c(2) sim(9) by blast
    then have "slab_ok st own c s" using cok [OF c(1)] by (simp add: cache_ok_def Let_def)
    then show ?thesis using False own(1) unfolding slab_ok_def sim(1) sim(3) [OF False] grown_caches(6) [OF sim(6)] by fastforce
  next
    case True
    have "s \<in> set (cslabs (km_caches st c))" using c(2) sim(9) by (auto simp: cslabs_def)
    then have "c = ca" using True home [OF c(1)] home [OF ca, of slab] p by (auto simp: cslabs_def)
    moreover have "distinct (slab # rest)" using cok [OF ca] p by (simp add: cache_ok_def Let_def cslabs_def)
    ultimately have "km_words st obj \<noteq> 0" using c(2) True sim(10) by (auto simp: obj_def)
    then show ?thesis using xs \<open>c = ca\<close> unfolding True slab_ok_def sim(1,5) grown_caches(6) [OF sim(6)]
      by (intro exI [of _ xs]) (auto simp: obj_def)
  qed
  have "cache_ok HHDM U (slab_take ca slab st) (own(obj \<mapsto> InUse)) c" if "c \<in> C" for c
    using cok [OF that] slab [OF that] by (simp add: cache_ok_def Let_def grown_caches(1) [OF sim(6)] sim(4,7,8))
  moreover have "in_cache (slab_take ca slab st) c x = in_cache st c x" for c x
    by (simp add: in_cache_def sim(7) grown_caches(6) [OF sim(6)])
  moreover have "in_cache st ca obj" using own(2) p by (auto simp: in_cache_def cslabs_def)
  ultimately show "slab_inv frames HHDM C (slab_take ca slab st) U n (own(obj \<mapsto> InUse))"
    using inv ca by (auto simp: slab_inv_def sim(2))
qed

text \<open>A fresh slab holds its objects on its free list.\<close>

definition with_slab :: "uptr \<Rightarrow> uptr \<Rightarrow> 's kmem \<Rightarrow> 's kmem" where
  "with_slab ca slab st = (let c = km_caches st ca in set_cache ca (c\<lparr>slabs_partial := slabs_partial c @ [slab]\<rparr>) st)"

lemma with_slab_grown:
  assumes "km_caches st' = km_caches st" "km_int st' = km_int st"
  shows "grown ca st (with_slab ca slab st')"
  using assms by (auto simp: grown_def with_slab_def Let_def cslabs_def)

lemma cache_alloc_unfold:
  "cache_alloc_from_slabs al HHDM ca st =
     rbind (if slabs_partial (km_caches st ca) = [] then rbind (cache_make_slab al HHDM ca st) (\<lambda>(s, slab). Inr (with_slab ca slab s))
            else Inr st) (\<lambda>st1.
     case slabs_partial (km_caches st1 ca) of
       [] \<Rightarrow> Inl NullDeref
     | slab # _ \<Rightarrow> rbind (assert_c (freelist (km_slabs st1 slab) \<noteq> 0)) (\<lambda>_. Inr (slab_take ca slab st1, freelist (km_slabs st1 slab))))"
  by (simp add: cache_alloc_from_slabs_def with_slab_def slab_take_def Let_def cong: list.case_cong)

text \<open>An object from the slabs was in nobody's hands; the other objects keep their owners.\<close>

definition taken :: "(uptr \<rightharpoonup> owner) \<Rightarrow> (uptr \<rightharpoonup> owner) \<Rightarrow> uptr \<Rightarrow> owner \<Rightarrow> bool" where
  "taken own own' obj w \<longleftrightarrow> own' obj = Some w \<and> (\<forall>m. own obj \<noteq> Some (InMag m)) \<and> own obj \<noteq> Some InUse \<and>
     (\<forall>x. x \<noteq> obj \<longrightarrow> own' x = own x \<or> own x = None \<and> (\<exists>s. own' x = Some (InSlab s)))"

context frame_allocator
begin

lemma page_ok:
  assumes "frames (km_al st) U n" "0 < n" "direct_map HHDM"
  shows "\<exists>st1 p. km_page alloc HHDM st = Inr (st1, p) \<and> st1 = st\<lparr>km_al := km_al st1\<rparr> \<and> frames (km_al st1) (insert (p - HHDM) U) (n - 1) \<and>
    p - HHDM \<notin> U \<and> p mod 0x1000 = 0 \<and> p \<noteq> 0"
proof -
  obtain a f where f: "alloc (km_al st) = Inr (a, f)" "frames a (insert f U) (n - 1)" "f \<notin> U" "frame_ok f" "f \<noteq> 0"
    using alloc_frame [OF assms(1,2)] by blast
  have "(f + HHDM) mod 0x1000 = 0" using frame_ok_aligned [OF f(4)] assms(3) by (intro aligned_add) (auto simp: direct_map_def)
  moreover have "f + HHDM \<noteq> 0"
  proof -
    have "unat f < 2 ^ 47" using f(4) by (simp add: frame_ok_def)
    then have "unat (f + HHDM) = unat f + unat HHDM" using assms(3) by (intro unat_add_nowrap) (simp add: direct_map_def)
    moreover have "0 < unat f" using f(5) by (simp add: unat_gt_0)
    ultimately show ?thesis by auto
  qed
  moreover have "km_page alloc HHDM st = Inr (st\<lparr>km_al := a\<rparr>, f + HHDM)" using f(1) by (simp add: km_page_def)
  ultimately show ?thesis using f(2,3) by (intro exI [of _ "st\<lparr>km_al := a\<rparr>"] exI [of _ "f + HHDM"]) simp
qed

lemma make_slab_ok:
  assumes inv: "slab_inv frames HHDM C st U n own" and ca: "ca \<in> C" and n: "0 < n"
  shows "\<exists>st' slab own'. cache_make_slab alloc HHDM ca st = Inr (st', slab) \<and>
    slab_inv frames HHDM C (with_slab ca slab st') (insert (slab - HHDM) U) (n - 1) own' \<and> grown ca st (with_slab ca slab st') \<and>
    (\<forall>x. own x \<noteq> None \<longrightarrow> own' x = own x) \<and> (\<forall>x. own' x \<noteq> own x \<longrightarrow> own' x = Some (InSlab slab)) \<and>
    slabs_partial (km_caches (with_slab ca slab st') ca) = slabs_partial (km_caches st ca) @ [slab] \<and> km_mags (with_slab ca slab st') = km_mags st"
proof -
  let ?sz = "object_size (km_caches st ca)"
  have fr: "frames (km_al st) U n" "direct_map HHDM" and cok: "\<And>c. c \<in> C \<Longrightarrow> cache_ok HHDM U st own c"
    and owned: "\<And>x. own x \<noteq> None \<Longrightarrow> \<exists>c \<in> C. in_cache st c x" using inv by (auto simp: slab_inv_def)
  obtain st1 slab where pg: "km_page alloc HHDM st = Inr (st1, slab)" "frames (km_al st1) (insert (slab - HHDM) U) (n - 1)"
    "slab - HHDM \<notin> U" "slab mod 0x1000 = 0" and st1: "st1 = st\<lparr>km_al := km_al st1\<rparr>"
    using page_ok [OF fr(1) n fr(2)] by (elim exE conjE) (rule that; assumption)
  define a where "a = km_al st1"
  have sz: "size_ok (object_size (km_caches st c))" if "c \<in> C" for c using cok [OF that] by (simp add: cache_ok_def Let_def)
  define st2 where "st2 = set_slab slab \<lparr>slab_cache = ca, freelist = 0\<rparr> st1"
  define st3 where "st3 = foldl (\<lambda>s i. slab_push slab (slot slab ?sz i) s) st2 [0..<slab_capacity ?sz]"
  have s1: "km_caches st1 = km_caches st" "km_al st1 = a" "km_words st1 = km_words st" "km_slabs st1 = km_slabs st" "km_mags st1 = km_mags st" "km_int st1 = km_int st"
    by (subst st1; simp add: a_def)+
  have mk: "cache_make_slab alloc HHDM ca st = Inr (st3, slab)"
    using pg(1) s1(1) sz [OF ca] by (auto simp: cache_make_slab_def st2_def st3_def Let_def size_ok_def)
  have "freelist (km_slabs st2 slab) = 0" by (simp add: st2_def)
  from push_slots [OF sz [OF ca] pg(4) this order.refl, folded st3_def]
  have ch: "chain (km_words st3) (freelist (km_slabs st3 slab)) (map (slot slab ?sz) (rev [0..<slab_capacity ?sz]))"
    and sb: "same_but_slab slab st2 st3" and w: "\<And>x. \<not> in_slab st ca slab x \<Longrightarrow> km_words st3 x = km_words st2 x"
    by (auto simp: in_slab_def Let_def)
  define st4 where "st4 = with_slab ca slab st3"
  have same: "km_caches st3 = km_caches st" "km_al st3 = a" "slab_cache (km_slabs st3 slab) = ca"
    "\<And>s. s \<noteq> slab \<Longrightarrow> km_slabs st3 s = km_slabs st s" "km_words st2 = km_words st" "km_mags st3 = km_mags st" "km_int st3 = km_int st"
    using sb s1 by (auto simp: same_but_slab_def st2_def)
  have st4: "km_words st4 = km_words st3" "km_slabs st4 = km_slabs st3" "km_al st4 = a" "grown ca st st4"
    "slabs_partial (km_caches st4 ca) = slabs_partial (km_caches st ca) @ [slab]"
    "c \<noteq> ca \<Longrightarrow> km_caches st4 c = km_caches st c" "slabs_full (km_caches st4 c) = slabs_full (km_caches st c)" "km_mags st4 = km_mags st" for c
    unfolding st4_def using with_slab_grown [OF same(1,7)] same(1,2,6) by (simp_all add: with_slab_def Let_def)
  define own' where "own' = (\<lambda>x. if in_slab st ca slab x then Some (InSlab slab) else own x)"
  have fresh: "slab \<noteq> s" if "c \<in> C" "s \<in> set (cslabs (km_caches st c))" for c s
    using cok [OF that(1)] that(2) pg(3) by (auto simp: cache_ok_def Let_def page_in_def)
  have none: "\<not> in_slab st ca slab x" if "own x \<noteq> None" for x
  proof
    assume x: "in_slab st ca slab x"
    from owned [OF that] obtain c s where c: "c \<in> C" "s \<in> set (cslabs (km_caches st c))" "in_slab st c s x" by (auto simp: in_cache_def)
    have al: "s mod 0x1000 = 0" using cok [OF c(1)] c(2) by (auto simp: cache_ok_def Let_def page_in_def)
    obtain i j where ij: "i < slab_capacity ?sz" "j < slab_capacity (object_size (km_caches st c))"
      "slot slab ?sz i = slot s (object_size (km_caches st c)) j" using x c(3) by (auto simp: in_slab_def Let_def)
    have "slab = s" using slot_inj [OF sz [OF ca] ij(1) sz [OF c(1)] ij(2) pg(4) al ij(3)] by (rule conjunct1)
    then show False using fresh [OF c(1,2)] by simp
  qed
  note ins = grown_caches(6) [OF st4(4)]
  have new: "slab_ok st4 own' ca slab" using ch slab_capacity_pos [OF sz [OF ca]]
    unfolding slab_ok_def st4(1,2) ins
    by (intro exI [of _ "map (slot slab ?sz) (rev [0..<slab_capacity ?sz])"])
      (auto simp: own'_def in_slab_def Let_def distinct_map intro!: inj_onI dest: slot_inj [OF sz [OF ca] _ sz [OF ca] _ pg(4,4)])
  have old: "slab_ok st4 own' c s" if c: "c \<in> C" "s \<in> set (slabs_partial (km_caches st c))" for c s
  proof -
    have s: "s \<noteq> slab" using fresh [OF c(1), of s] c(2) by (auto simp: cslabs_def)
    obtain xs where xs: "xs \<noteq> []" "chain (km_words st) (freelist (km_slabs st s)) xs" "distinct xs"
      "\<forall>x \<in> set xs. own x = Some (InSlab s) \<and> in_slab st c s x" using cok [OF c(1)] c(2) by (auto simp: cache_ok_def Let_def slab_ok_def)
    then have "km_words st3 x = km_words st x" if "x \<in> set xs" for x using none [of x] that w [of x] same(5) by simp
    then have "chain (km_words st3) (freelist (km_slabs st3 s)) xs" using xs(2) same(4) [OF s] chain_cong [of xs "km_words st3" "km_words st"] by simp
    moreover have "\<forall>x \<in> set xs. own' x = Some (InSlab s)" using xs(4) none by (auto simp: own'_def)
    ultimately show ?thesis using xs unfolding slab_ok_def st4(1,2) ins by blast
  qed
  have csl: "set (cslabs (km_caches st4 c)) = (if c = ca then insert slab else id) (set (cslabs (km_caches st c)))"
    "set (slabs_partial (km_caches st4 c)) = (if c = ca then insert slab else id) (set (slabs_partial (km_caches st c)))" for c
    using st4(5-7) by (auto simp: cslabs_def)
  have "cache_ok HHDM (insert (slab - HHDM) U) st4 own' c" if c: "c \<in> C" for c
  proof -
    have "distinct (cslabs (km_caches st4 c))" using cok [OF c] fresh [OF c] st4(5-7)
      by (cases "c = ca") (auto simp: cache_ok_def Let_def cslabs_def)
    moreover have "page_in HHDM (insert (slab - HHDM) U) s \<and> slab_cache (km_slabs st4 s) = c" if "s \<in> set (cslabs (km_caches st4 c))" for s
    proof (cases "s = slab")
      case True
      then have "c = ca" using that csl(1) [of c] fresh [OF c, of s] by (auto split: if_splits)
      then show ?thesis using True pg(4) same(3) by (simp add: page_in_def st4(2))
    next
      case False
      then have "s \<in> set (cslabs (km_caches st c))" using that csl(1) [of c] by (auto split: if_splits)
      then show ?thesis using False cok [OF c] same(4) [OF False] by (auto simp: cache_ok_def Let_def page_in_def st4(2))
    qed
    moreover have "slab_ok st4 own' c s" if "s \<in> set (slabs_partial (km_caches st4 c))" for s
      using that new old [OF c] csl(2) [of c] by (auto split: if_splits)
    ultimately show ?thesis using sz [OF c] by (simp add: cache_ok_def Let_def grown_caches(1) [OF st4(4)])
  qed
  moreover have "\<exists>c \<in> C. in_cache st4 c x" if "own' x \<noteq> None" for x
  proof (cases "in_slab st ca slab x")
    case True
    then show ?thesis using ca csl(1) [of ca] by (intro bexI [of _ ca]) (auto simp: in_cache_def ins)
  next
    case False
    then show ?thesis using that owned [of x] grown_caches(7) [OF st4(4)] by (auto simp: own'_def)
  qed
  ultimately have "slab_inv frames HHDM C st4 (insert (slab - HHDM) U) (n - 1) own'"
    using pg(2) fr(2) st4(3) by (simp add: slab_inv_def a_def)
  then show ?thesis using mk st4(4,5,8) none unfolding st4_def
    by (intro exI [of _ st3] exI [of _ slab] exI [of _ own']) (auto simp: own'_def)
qed

lemma cache_alloc_ok:
  assumes inv: "slab_inv frames HHDM C st U n own" and ca: "ca \<in> C" and n: "0 < n \<or> slabs_partial (km_caches st ca) \<noteq> []"
  shows "\<exists>st' obj U' n' own'. cache_alloc_from_slabs alloc HHDM ca st = Inr (st', obj) \<and> slab_inv frames HHDM C st' U' n' own' \<and>
    n \<le> n' + 1 \<and> U \<subseteq> U' \<and> grown ca st st' \<and> in_cache st' ca obj \<and> obj \<noteq> 0 \<and> taken own own' obj InUse \<and> km_mags st' = km_mags st"
proof -
  have take: "\<exists>own'. slab_inv frames HHDM C (slab_take ca slab s) V m own' \<and> grown ca s (slab_take ca slab s) \<and>
      in_cache (slab_take ca slab s) ca (freelist (km_slabs s slab)) \<and> freelist (km_slabs s slab) \<noteq> 0 \<and>
      own' = o1(freelist (km_slabs s slab) \<mapsto> InUse) \<and> o1 (freelist (km_slabs s slab)) = Some (InSlab slab)"
    if "slab_inv frames HHDM C s V m o1" "slabs_partial (km_caches s ca) = slab # rest" for s V m o1 slab rest
    using slab_take_ok [OF that(1) ca that(2)] slab_take_simps(6,7) [OF that(2)] grown_caches(6) [OF slab_take_simps(6) [OF that(2)]] that(2)
    by (auto simp: in_cache_def cslabs_def)
  show ?thesis
  proof (cases "slabs_partial (km_caches st ca)")
    case (Cons slab rest)
    from take [OF inv this] obtain own' where "slab_inv frames HHDM C (slab_take ca slab st) U n own'" "grown ca st (slab_take ca slab st)"
      "in_cache (slab_take ca slab st) ca (freelist (km_slabs st slab))" and nz: "freelist (km_slabs st slab) \<noteq> 0"
      "own' = own(freelist (km_slabs st slab) \<mapsto> InUse)" "own (freelist (km_slabs st slab)) = Some (InSlab slab)" by blast
    moreover have "cache_alloc_from_slabs alloc HHDM ca st = Inr (slab_take ca slab st, freelist (km_slabs st slab))"
      using Cons nz(1) by (simp add: cache_alloc_unfold)
    ultimately show ?thesis
      by (intro exI [of _ "slab_take ca slab st"] exI [of _ "freelist (km_slabs st slab)"] exI [of _ U] exI [of _ n] exI [of _ own'])
        (simp add: taken_def slab_take_simps(11) [OF Cons])
  next
    case Nil
    with n make_slab_ok [OF inv ca] obtain s slab o1 where mk: "cache_make_slab alloc HHDM ca st = Inr (s, slab)"
      and i1: "slab_inv frames HHDM C (with_slab ca slab s) (insert (slab - HHDM) U) (n - 1) o1" and g: "grown ca st (with_slab ca slab s)"
      and o1: "\<forall>x. own x \<noteq> None \<longrightarrow> o1 x = own x" "\<forall>x. o1 x \<noteq> own x \<longrightarrow> o1 x = Some (InSlab slab)"
      and p: "slabs_partial (km_caches (with_slab ca slab s) ca) = [slab]" and mg: "km_mags (with_slab ca slab s) = km_mags st" by auto
    define t where "t = with_slab ca slab s"
    define obj where "obj = freelist (km_slabs t slab)"
    from take [OF i1 p] obtain own' where r: "slab_inv frames HHDM C (slab_take ca slab t) (insert (slab - HHDM) U) (n - 1) own'"
      "grown ca t (slab_take ca slab t)" "in_cache (slab_take ca slab t) ca obj" "obj \<noteq> 0"
      "own' = o1(obj \<mapsto> InUse)" "o1 obj = Some (InSlab slab)" unfolding t_def obj_def by blast
    have "cache_alloc_from_slabs alloc HHDM ca st = Inr (slab_take ca slab t, obj)"
      using Nil mk p r(4) by (simp add: cache_alloc_unfold t_def obj_def)
    moreover have "grown ca st (slab_take ca slab t)" using g r(2) unfolding t_def by (rule grown_trans)
    moreover have "taken own own' obj InUse" using r(5,6) o1 unfolding taken_def by (metis fun_upd_apply option.inject owner.distinct(1) owner.distinct(3) option.distinct(1))
    moreover have "km_mags (slab_take ca slab t) = km_mags st" using slab_take_simps(11) [OF p] mg by (simp add: t_def)
    ultimately show ?thesis using r(1,3,4)
      by (intro exI [of _ "slab_take ca slab t"] exI [of _ obj] exI [of _ "insert (slab - HHDM) U"] exI [of _ "n - 1"] exI [of _ own']) auto
  qed
qed

lemma cache_alloc_none:
  assumes inv: "slab_inv frames HHDM C st U 0 own" and ca: "ca \<in> C" and n: "slabs_partial (km_caches st ca) = []"
  shows "cache_alloc_from_slabs alloc HHDM ca st = Inl Panic"
  using inv n alloc_none [of "km_al st" U] by (simp add: cache_alloc_unfold cache_make_slab_def km_page_def slab_inv_def)

end

end
