(* ===== verification/Kmem_Alloc.thy ===== *)
theory Kmem_Alloc
  imports Kmem_Correct
begin

text \<open>
  Allocation and release through the magazines: an object handed out is in nobody else's hands,
  and an object given back is only in the hands of its cache.
\<close>

section \<open>What the invariant depends on\<close>

definition slab_view :: "'s kmem \<Rightarrow> 's \<times> (uptr \<Rightarrow> uptr) \<times> (uptr \<Rightarrow> kmem_slab_t) \<times> (uptr \<Rightarrow> u64 \<times> uptr list \<times> uptr list)" where
  "slab_view st = (km_al st, km_words st, km_slabs st,
     \<lambda>c. (object_size (km_caches st c), slabs_partial (km_caches st c), slabs_full (km_caches st c)))"

lemma slab_viewD:
  assumes "slab_view st' = slab_view st"
  shows "km_al st' = km_al st" "km_words st' = km_words st" "km_slabs st' = km_slabs st"
    "object_size (km_caches st' c) = object_size (km_caches st c)" "slabs_partial (km_caches st' c) = slabs_partial (km_caches st c)"
    "slabs_full (km_caches st' c) = slabs_full (km_caches st c)" "cslabs (km_caches st' c) = cslabs (km_caches st c)"
    "in_slab st' c = in_slab st c" "in_cache st' c = in_cache st c"
  using assms unfolding slab_view_def by (auto simp: fun_eq_iff cslabs_def in_slab_def in_cache_def)

text \<open>Passing an object between client and magazines does not concern the slabs.\<close>

lemma slab_inv_pass:
  assumes "slab_inv frames HHDM C st U n own" "slab_view st' = slab_view st"
    "\<And>x s. own x = Some (InSlab s) \<Longrightarrow> own' x = own x" "\<And>x. own' x \<noteq> None \<Longrightarrow> own x \<noteq> None"
  shows "slab_inv frames HHDM C st' U n own'"
proof -
  note v = slab_viewD [OF assms(2)]
  have "slab_ok st' own' c s" if "slab_ok st own c s" for c s
    using that assms(3) unfolding slab_ok_def v by metis
  then show ?thesis using assms(1,4) unfolding slab_inv_def cache_ok_def Let_def v by auto
qed

lemma cpus_keep:
  assumes "cpus_ok HHDM U st own c" "cpu_mags (km_caches st' c) \<subseteq> cpu_mags (km_caches st c)" "U \<subseteq> U'"
    "\<And>m. m \<in> cpu_mags (km_caches st c) \<Longrightarrow> mag_ok st own c m \<Longrightarrow> mag_ok st' own' c m"
  shows "cpus_ok HHDM U' st' own' c"
  using assms unfolding cpus_ok_def page_in_def by (meson subsetD)

lemma mag_keep:
  assumes "mag_ok st own c m" "km_mags st' m = km_mags st m" "\<And>x. in_cache st c x \<Longrightarrow> in_cache st' c x"
    "\<And>x. own x = Some (InMag m) \<Longrightarrow> own' x = Some (InMag m)"
  shows "mag_ok st' own' c m"
  using assms unfolding mag_ok_def by auto

section \<open>Magazines\<close>

lemma set_mag_view [simp]: "slab_view (set_mag m x st) = slab_view st" "in_cache (set_mag m x st) c = in_cache st c"
proof -
  show v: "slab_view (set_mag m x st) = slab_view st" by (simp add: slab_view_def)
  show "in_cache (set_mag m x st) c = in_cache st c" by (rule slab_viewD(9) [OF v])
qed

lemma mag_pop_ok:
  assumes "mag_ok st own ca m" "0 < mag_count (km_mags st m)"
  shows "\<exists>st' obj. mag_pop m st = Inr (st', obj) \<and> own obj = Some (InMag m) \<and> in_cache st ca obj \<and>
    slab_view st' = slab_view st \<and> km_caches st' = km_caches st \<and> km_int st' = km_int st \<and>
    (\<forall>c m'. mag_ok st own c m' \<longrightarrow> mag_ok st' (own(obj \<mapsto> InUse)) c m')"
proof -
  let ?m = "km_mags st m"
  let ?st = "set_mag m (?m\<lparr>mag_count := mag_count ?m - 1\<rparr>) st" and ?o = "mag_objects ?m (mag_count ?m - 1)"
  have o: "own ?o = Some (InMag m)" "in_cache st ca ?o" using assms by (auto simp: mag_ok_def)
  have ne: "mag_objects ?m i \<noteq> ?o" if "i < mag_count ?m - 1" for i
    using assms that by (auto simp: mag_ok_def dest: inj_onD)
  have "mag_ok ?st (own(?o \<mapsto> InUse)) c m'" if "mag_ok st own c m'" for c m'
  proof (cases "m' = m")
    case True
    then show ?thesis using that ne by (auto simp: mag_ok_def intro: inj_on_subset)
  next
    case False
    then have "mag_objects (km_mags st m') i \<noteq> ?o" if "i < mag_count (km_mags st m')" for i
      using \<open>mag_ok st own c m'\<close> that o(1) by (auto simp: mag_ok_def)
    then show ?thesis using that False by (auto simp: mag_ok_def)
  qed
  moreover have "mag_pop m st = Inr (?st, ?o)" using assms by (simp add: mag_pop_def Let_def mag_ok_def)
  ultimately show ?thesis using o by (intro exI [of _ ?st] exI [of _ ?o]) simp
qed

lemma mag_push_ok:
  assumes "mag_count (km_mags st m) < MAG_SIZE" "own obj = Some InUse" "in_cache st ca obj"
  shows "\<exists>st'. mag_push m obj st = Inr st' \<and> slab_view st' = slab_view st \<and> km_caches st' = km_caches st \<and> km_int st' = km_int st \<and>
    (\<forall>c m'. (m' = m \<longrightarrow> c = ca) \<longrightarrow> mag_ok st own c m' \<longrightarrow> mag_ok st' (own(obj \<mapsto> InMag m)) c m')"
proof -
  let ?m = "km_mags st m" and ?n = "mag_count (km_mags st m)"
  define m2 where "m2 = ?m\<lparr>mag_count := Suc ?n, mag_objects := (mag_objects ?m)(?n := obj)\<rparr>"
  let ?st = "set_mag m m2 st"
  have "mag_push m obj st = Inr ?st" using assms(1) by (simp add: mag_push_def mag_store_def Let_def m2_def set_mag_def)
  moreover have "mag_ok ?st (own(obj \<mapsto> InMag m)) c m'" if "m' = m \<longrightarrow> c = ca" "mag_ok st own c m'" for c m'
  proof -
    have ne: "mag_objects (km_mags st m') i \<noteq> obj" if "i < mag_count (km_mags st m')" for i
      using \<open>mag_ok st own c m'\<close> that assms(2) by (auto simp: mag_ok_def)
    show ?thesis
    proof (cases "m' = m")
      case True
      have "inj_on ((mag_objects ?m)(?n := obj)) {..<Suc ?n}"
        using that(2) ne unfolding True by (fastforce simp: inj_on_def mag_ok_def less_Suc_eq)
      then show ?thesis using True that assms(1,3) ne by (auto simp: mag_ok_def m2_def less_Suc_eq)
    next
      case False
      then show ?thesis using that(2) ne by (auto simp: mag_ok_def)
    qed
  qed
  ultimately show ?thesis by (intro exI [of _ ?st]) simp
qed

section \<open>Caches\<close>

lemma kmem_invD:
  assumes "kmem_inv frames HHDM C st U n own" "ca \<in> C"
  shows "slab_inv frames HHDM C st U n own" "cpus_ok HHDM U st own ca" "idle (km_caches st ca)"
  using assms by (auto simp: kmem_inv_def)

text \<open>An operation on the cache \<open>ca\<close> that keeps the others, and its own magazines up to their contents.\<close>

lemma kmem_invI:
  assumes inv: "kmem_inv frames HHDM C st U n own" and s: "slab_inv frames HHDM C st' U' n' own'" and U: "U \<subseteq> U'"
    and caches: "\<And>c. c \<in> C \<Longrightarrow> cpu_mags (km_caches st' c) \<subseteq> cpu_mags (km_caches st c)" "\<And>c. c \<in> C \<Longrightarrow> idle (km_caches st' c)"
    and mags: "\<And>c m. c \<in> C \<Longrightarrow> m \<in> cpu_mags (km_caches st c) \<Longrightarrow> mag_ok st own c m \<Longrightarrow> mag_ok st' own' c m"
  shows "kmem_inv frames HHDM C st' U' n' own'"
proof -
  have "cpus_ok HHDM U' st' own' c" if "c \<in> C" for c
    using cpus_keep [OF kmem_invD(2) [OF inv that] caches(1) [OF that] U] mags [OF that] by blast
  moreover have "cpu_mags (km_caches st' a) \<inter> cpu_mags (km_caches st' b) = {}" if "a \<in> C" "b \<in> C" "a \<noteq> b" for a b
    using inv that caches(1) [of a] caches(1) [of b] unfolding kmem_inv_def by blast
  ultimately show ?thesis using s caches(2) by (simp add: kmem_inv_def)
qed

lemma set_cpu_view [simp]: "slab_view (set_cpu ca i cc st) = slab_view st" "km_mags (set_cpu ca i cc st) = km_mags st" "km_int (set_cpu ca i cc st) = km_int st"
  "in_cache (set_cpu ca i cc st) c = in_cache st c" "mag_ok (set_cpu ca i cc st) own c m = mag_ok st own c m"
  "idle (km_caches (set_cpu ca i cc st) c) = idle (km_caches st c)"
proof -
  show v: "slab_view (set_cpu ca i cc st) = slab_view st" "km_mags (set_cpu ca i cc st) = km_mags st" "km_int (set_cpu ca i cc st) = km_int st"
    by (auto simp: slab_view_def set_cpu_def Let_def)
  show i: "in_cache (set_cpu ca i cc st) c = in_cache st c" for c by (rule slab_viewD(9) [OF v(1)])
  show "mag_ok (set_cpu ca i cc st) own c m = mag_ok st own c m" by (simp add: mag_ok_def v i)
  show "idle (km_caches (set_cpu ca i cc st) c) = idle (km_caches st c)" by (auto simp: idle_def set_cpu_def Let_def)
qed

lemma set_cpu_mags:
  assumes "i < length (cpu_cache (km_caches st ca))" "{loaded cc, previous cc} \<subseteq> {loaded (cpu_cache (km_caches st ca) ! i), previous (cpu_cache (km_caches st ca) ! i)}"
  shows "cpu_mags (km_caches (set_cpu ca i cc st) c) \<subseteq> cpu_mags (km_caches st c)"
proof -
  have "set ((cpu_cache (km_caches st ca))[i := cc]) \<subseteq> insert cc (set (cpu_cache (km_caches st ca)))" by (rule set_update_subset_insert)
  moreover have "cpu_cache (km_caches st ca) ! i \<in> set (cpu_cache (km_caches st ca))" using assms(1) by simp
  ultimately have "(\<Union>x \<in> set ((cpu_cache (km_caches st ca))[i := cc]). {loaded x, previous x}) \<subseteq> cpu_mags (km_caches st ca)"
    using assms(2) unfolding cpu_mags_def by blast
  then show ?thesis by (cases "c = ca") (simp_all add: cpu_mags_def set_cpu_def Let_def)
qed

text \<open>The magazine lock is taken and released; the depot is empty.\<close>

lemma depot_empty:
  assumes "idle (km_caches st ca)"
  shows "\<exists>st1. lock_magazines ca st = Inr st1 \<and> magazines_full (km_caches st1 ca) = [] \<and> slab_view st1 = slab_view st \<and> km_mags st1 = km_mags st \<and>
    (\<forall>c. cpu_cache (km_caches st1 c) = cpu_cache (km_caches st c)) \<and>
    (let st2 = unlock_magazines ca st1 in slab_view st2 = slab_view st \<and> km_mags st2 = km_mags st \<and> km_int st2 = km_int st \<and>
      (\<forall>c. cpu_cache (km_caches st2 c) = cpu_cache (km_caches st c)) \<and> (\<forall>c. c \<noteq> ca \<longrightarrow> km_caches st2 c = km_caches st c) \<and> idle (km_caches st2 ca))"
  using assms by (auto simp: idle_def lock_magazines_def unlock_magazines_def spinlock_acquire_def spinlock_release_def slab_view_def Let_def)

section \<open>Allocation and release\<close>

definition core_ok :: "u64 option \<Rightarrow> bool" where
  "core_ok core \<longleftrightarrow> (case core of None \<Rightarrow> True | Some i \<Rightarrow> unat i < MAX_CPUS)"

lemma kmem_cpu_ok:
  assumes "idle (km_caches st ca)" "core_ok core"
  shows "\<exists>i. kmem_cpu ca core st = Inr (i, cpu_cache (km_caches st ca) ! i) \<and> i < length (cpu_cache (km_caches st ca))"
  using assms by (auto simp: kmem_cpu_def idle_def core_ok_def MAX_CPUS_def Let_def split: option.splits)

lemma cpu_mags_nth:
  "i < length (cpu_cache c) \<Longrightarrow> loaded (cpu_cache c ! i) \<in> cpu_mags c \<and> previous (cpu_cache c ! i) \<in> cpu_mags c"
  by (auto simp: cpu_mags_def)

lemma pop_inv:
  assumes inv: "kmem_inv frames HHDM C st U n own" and ca: "ca \<in> C" and m: "m \<in> cpu_mags (km_caches st ca)" "0 < mag_count (km_mags st m)"
  shows "\<exists>st' obj. mag_pop m st = Inr (st', obj) \<and> own obj = Some (InMag m) \<and> in_cache st' ca obj \<and>
    kmem_inv frames HHDM C st' U n (own(obj \<mapsto> InUse))"
proof -
  have "mag_ok st own ca m" using kmem_invD(2) [OF inv ca] m(1) by (simp add: cpus_ok_def)
  from mag_pop_ok [OF this m(2)] obtain st' obj where r: "mag_pop m st = Inr (st', obj)" "own obj = Some (InMag m)" "in_cache st ca obj"
    "slab_view st' = slab_view st" "km_caches st' = km_caches st" and mags: "\<And>c m'. mag_ok st own c m' \<Longrightarrow> mag_ok st' (own(obj \<mapsto> InUse)) c m'" by blast
  have "slab_inv frames HHDM C st' U n (own(obj \<mapsto> InUse))"
    by (rule slab_inv_pass [OF kmem_invD(1) [OF inv ca] r(4)]) (use r(2) in \<open>auto split: if_splits\<close>)
  then have "kmem_inv frames HHDM C st' U n (own(obj \<mapsto> InUse))"
    by (rule kmem_invI [OF inv]) (use r(5) mags kmem_invD(3) [OF inv] in auto)
  then show ?thesis using r(1-3) slab_viewD(9) [OF r(4)] by auto
qed

lemma push_inv:
  assumes inv: "kmem_inv frames HHDM C st U n own" and ca: "ca \<in> C" and m: "m \<in> cpu_mags (km_caches st ca)" "mag_count (km_mags st m) < MAG_SIZE"
    and obj: "own obj = Some InUse" "in_cache st ca obj"
  shows "\<exists>st'. mag_push m obj st = Inr st' \<and> kmem_inv frames HHDM C st' U n (own(obj \<mapsto> InMag m))"
proof -
  from mag_push_ok [where own = own, OF m(2) obj] obtain st' where r: "mag_push m obj st = Inr st'" "slab_view st' = slab_view st" "km_caches st' = km_caches st"
    and mags: "\<And>c m'. (m' = m \<longrightarrow> c = ca) \<Longrightarrow> mag_ok st own c m' \<Longrightarrow> mag_ok st' (own(obj \<mapsto> InMag m)) c m'" by blast
  have home: "c = ca" if "c \<in> C" "m \<in> cpu_mags (km_caches st c)" for c
    using inv ca that m(1) unfolding kmem_inv_def by blast
  have mags': "mag_ok st' (own(obj \<mapsto> InMag m)) c m'" if "c \<in> C" "m' \<in> cpu_mags (km_caches st c)" "mag_ok st own c m'" for c m'
  proof -
    have "m' = m \<longrightarrow> c = ca" using home [OF that(1)] that(2) by auto
    then show ?thesis using that(3) by (rule mags)
  qed
  have "slab_inv frames HHDM C st' U n (own(obj \<mapsto> InMag m))"
    by (rule slab_inv_pass [OF kmem_invD(1) [OF inv ca] r(2)]) (use obj(1) in \<open>auto split: if_splits\<close>)
  then have "kmem_inv frames HHDM C st' U n (own(obj \<mapsto> InMag m))"
    by (rule kmem_invI [OF inv]) (use r(3) mags' kmem_invD(3) [OF inv] in auto)
  then show ?thesis using r(1) by blast
qed

lemma set_cpu_inv:
  assumes inv: "kmem_inv frames HHDM C st U n own" and ca: "ca \<in> C" and i: "i < length (cpu_cache (km_caches st ca))"
    and cc: "{loaded cc, previous cc} \<subseteq> {loaded (cpu_cache (km_caches st ca) ! i), previous (cpu_cache (km_caches st ca) ! i)}"
  shows "kmem_inv frames HHDM C (set_cpu ca i cc st) U n own" "loaded cc \<in> cpu_mags (km_caches (set_cpu ca i cc st) ca)"
proof -
  have "slab_inv frames HHDM C (set_cpu ca i cc st) U n own" by (rule slab_inv_pass [OF kmem_invD(1) [OF inv ca]]) simp_all
  then show "kmem_inv frames HHDM C (set_cpu ca i cc st) U n own"
    by (rule kmem_invI [OF inv]) (use set_cpu_mags [OF i cc] kmem_invD(3) [OF inv] in auto)
  show "loaded cc \<in> cpu_mags (km_caches (set_cpu ca i cc st) ca)" using i by (auto simp: cpu_mags_def set_cpu_def Let_def set_update_memI)
qed

definition in_use :: "(uptr \<rightharpoonup> owner) \<Rightarrow> uptr set" where
  "in_use own = {x. own x = Some InUse}"

lemma taken_in_use: "taken own own' obj InUse \<Longrightarrow> in_use own' = insert obj (in_use own) \<and> obj \<notin> in_use own"
  unfolding taken_def in_use_def by (auto simp: set_eq_iff)

lemma grown_idle:
  assumes "grown ca st st'"
  shows "idle ((km_caches st' ca)\<lparr>slabs_lock := l\<rparr>) = idle ((km_caches st ca)\<lparr>slabs_lock := l\<rparr>)"
proof -
  have "(km_caches st' ca)\<lparr>slabs_partial := [], slabs_full := []\<rparr> = (km_caches st ca)\<lparr>slabs_partial := [], slabs_full := []\<rparr>"
    using assms by (simp add: grown_def)
  from arg_cong [OF this, of "\<lambda>c. idle (c\<lparr>slabs_lock := l\<rparr>)"] show ?thesis by (simp add: idle_def)
qed

lemma slab_lock:
  assumes "idle (km_caches st ca)"
  shows "\<exists>st1. lock_slabs ca st = Inr st1 \<and> slab_view st1 = slab_view st \<and> km_mags st1 = km_mags st \<and>
    (\<forall>c. cpu_cache (km_caches st1 c) = cpu_cache (km_caches st c)) \<and> (\<forall>c. c \<noteq> ca \<longrightarrow> km_caches st1 c = km_caches st c) \<and>
    (\<forall>st2. grown ca st1 st2 \<longrightarrow> (let st3 = unlock_slabs ca st2 in slab_view st3 = slab_view st2 \<and> km_mags st3 = km_mags st2 \<and>
      (\<forall>c. cpu_cache (km_caches st3 c) = cpu_cache (km_caches st c)) \<and> (\<forall>c. c \<noteq> ca \<longrightarrow> km_caches st3 c = km_caches st c) \<and> idle (km_caches st3 ca)))"
proof -
  let ?l = "\<lparr>sl_lock = 1, prev_int_state = km_int st\<rparr>"
  let ?st1 = "set_cache ca ((km_caches st ca)\<lparr>slabs_lock := ?l\<rparr>) (st\<lparr>km_int := False\<rparr>)"
  have l: "lock_slabs ca st = Inr ?st1" using assms by (simp add: lock_slabs_def spinlock_acquire_def idle_def)
  have "let st3 = unlock_slabs ca st2 in slab_view st3 = slab_view st2 \<and> km_mags st3 = km_mags st2 \<and>
      (\<forall>c. cpu_cache (km_caches st3 c) = cpu_cache (km_caches st c)) \<and> (\<forall>c. c \<noteq> ca \<longrightarrow> km_caches st3 c = km_caches st c) \<and> idle (km_caches st3 ca)"
    if g: "grown ca ?st1 st2" for st2
  proof -
    have i: "idle ((km_caches st2 ca)\<lparr>slabs_lock := \<lparr>sl_lock = 0, prev_int_state = b\<rparr>\<rparr>)" for b
      using grown_idle [OF g, of "\<lparr>sl_lock = 0, prev_int_state = b\<rparr>"] assms by (simp add: idle_def)
    have c: "cpu_cache (km_caches st2 c) = cpu_cache (km_caches st c)" for c using grown_caches(2) [OF g, of c] by simp
    show ?thesis using g i c grown_caches(3) [OF g, of ca]
      by (auto simp: unlock_slabs_def spinlock_release_def Let_def slab_view_def grown_def)
  qed
  then show ?thesis using l by (intro exI [of _ ?st1]) (auto simp: slab_view_def)
qed

lemma depot_path:
  assumes inv: "kmem_inv frames HHDM C st U n own" and ca: "ca \<in> C"
  shows "\<exists>st1. lock_magazines ca st = Inr st1 \<and> magazines_full (km_caches st1 ca) = [] \<and>
    kmem_inv frames HHDM C (unlock_magazines ca st1) U n own \<and> slab_view (unlock_magazines ca st1) = slab_view st \<and>
    km_mags (unlock_magazines ca st1) = km_mags st \<and> cpu_cache (km_caches (unlock_magazines ca st1) ca) = cpu_cache (km_caches st ca)"
proof -
  obtain st1 where d: "lock_magazines ca st = Inr st1" "magazines_full (km_caches st1 ca) = []" and st2: "slab_view (unlock_magazines ca st1) = slab_view st"
    "km_mags (unlock_magazines ca st1) = km_mags st" "\<And>c. cpu_cache (km_caches (unlock_magazines ca st1) c) = cpu_cache (km_caches st c)"
    "\<And>c. c \<noteq> ca \<Longrightarrow> km_caches (unlock_magazines ca st1) c = km_caches st c" "idle (km_caches (unlock_magazines ca st1) ca)"
    using depot_empty [OF kmem_invD(3) [OF inv ca]] unfolding Let_def by blast
  define s where "s = unlock_magazines ca st1"
  have "slab_inv frames HHDM C s U n own" by (rule slab_inv_pass [OF kmem_invD(1) [OF inv ca] st2(1) [folded s_def]]) simp_all
  then have "kmem_inv frames HHDM C s U n own"
  proof (rule kmem_invI [OF inv _ order.refl])
    show "cpu_mags (km_caches s c) \<subseteq> cpu_mags (km_caches st c)" for c by (simp add: cpu_mags_def s_def st2(3))
    show "idle (km_caches s c)" if "c \<in> C" for c using st2(4,5) kmem_invD(3) [OF inv that] by (cases "c = ca") (simp_all add: s_def)
    show "mag_ok s own c m" if "mag_ok st own c m" for c m
      by (rule mag_keep [OF that]) (simp_all add: s_def st2(2) slab_viewD(9) [OF st2(1)])
  qed
  then show ?thesis using d st2(1-3) by (auto simp: s_def)
qed

lemma mag_empty_inv:
  assumes inv: "kmem_inv frames HHDM C st U n own" and ca: "ca \<in> C"
  shows "kmem_inv frames HHDM C (set_mag m ((km_mags st m)\<lparr>mag_count := 0\<rparr>) st) U n own"
proof (rule kmem_invI [OF inv _ order.refl])
  show "slab_inv frames HHDM C (set_mag m ((km_mags st m)\<lparr>mag_count := 0\<rparr>) st) U n own"
    by (rule slab_inv_pass [OF kmem_invD(1) [OF inv ca]]) simp_all
  show "mag_ok (set_mag m ((km_mags st m)\<lparr>mag_count := 0\<rparr>) st) own c m'" if "mag_ok st own c m'" for c m'
    using that by (auto simp: mag_ok_def)
qed (use kmem_invD(3) [OF inv] in simp_all)

context frame_allocator
begin

lemma slab_path:
  assumes inv: "kmem_inv frames HHDM C st U n own" and ca: "ca \<in> C" and n: "0 < n \<or> slabs_partial (km_caches st ca) \<noteq> []"
  shows "\<exists>st1 st2 obj U' n' own'. lock_slabs ca st = Inr st1 \<and> cache_alloc_from_slabs alloc HHDM ca st1 = Inr (st2, obj) \<and>
    kmem_inv frames HHDM C (unlock_slabs ca st2) U' n' own' \<and> n \<le> n' + 1 \<and> in_cache (unlock_slabs ca st2) ca obj \<and> taken own own' obj InUse"
proof -
  obtain st1 where l: "lock_slabs ca st = Inr st1" and v1: "slab_view st1 = slab_view st" and m1: "km_mags st1 = km_mags st"
    and un: "\<And>st2 st3. grown ca st1 st2 \<Longrightarrow> st3 = unlock_slabs ca st2 \<Longrightarrow> slab_view st3 = slab_view st2 \<and> km_mags st3 = km_mags st2 \<and>
      (\<forall>c. cpu_cache (km_caches st3 c) = cpu_cache (km_caches st c)) \<and> (\<forall>c. c \<noteq> ca \<longrightarrow> km_caches st3 c = km_caches st c) \<and> idle (km_caches st3 ca)"
    using slab_lock [OF kmem_invD(3) [OF inv ca]] unfolding Let_def by blast
  have "slab_inv frames HHDM C st1 U n own" by (rule slab_inv_pass [OF kmem_invD(1) [OF inv ca] v1]) simp_all
  moreover have "0 < n \<or> slabs_partial (km_caches st1 ca) \<noteq> []" using n slab_viewD(5) [OF v1] by simp
  ultimately obtain st2 obj U' n' own' where al: "cache_alloc_from_slabs alloc HHDM ca st1 = Inr (st2, obj)"
    and i2: "slab_inv frames HHDM C st2 U' n' own'" "n \<le> n' + 1" "U \<subseteq> U'" and g: "grown ca st1 st2" and o: "in_cache st2 ca obj" "taken own own' obj InUse" and m2: "km_mags st2 = km_mags st1"
    using cache_alloc_ok [OF _ ca] by blast
  define st3 where "st3 = unlock_slabs ca st2"
  note u = un [OF g st3_def]
  have v3: "slab_view st3 = slab_view st2" using u by blast
  have "slab_inv frames HHDM C st3 U' n' own'" by (rule slab_inv_pass [OF i2(1) v3]) simp_all
  then have "kmem_inv frames HHDM C st3 U' n' own'"
  proof (rule kmem_invI [OF inv _ i2(3)])
    show "cpu_mags (km_caches st3 c) \<subseteq> cpu_mags (km_caches st c)" for c using u by (simp add: cpu_mags_def)
    show "idle (km_caches st3 c)" if "c \<in> C" for c using u kmem_invD(3) [OF inv that] by (cases "c = ca") auto
    show "mag_ok st3 own' c m" if "mag_ok st own c m" for c m
    proof (rule mag_keep [OF that])
      show "km_mags st3 m = km_mags st m" using u m1 m2 by simp
      show "in_cache st3 c x" if "in_cache st c x" for x
        using that grown_caches(7) [OF g] slab_viewD(9) [OF v1] slab_viewD(9) [OF v3] by simp
      show "own' x = Some (InMag m)" if "own x = Some (InMag m)" for x using that o(2) unfolding taken_def by (metis option.distinct(1))
    qed
  qed
  then show ?thesis using l al i2(2) o slab_viewD(9) [OF v3] unfolding st3_def by auto
qed

lemma kmem_alloc_inv:
  assumes inv: "kmem_inv frames HHDM C st U n own" and ca: "ca \<in> C" and core: "core_ok core" and n: "0 < n"
  shows "\<exists>st' obj U' n' own'. kmem_alloc_cache alloc HHDM ca core st = Inr (st', obj) \<and> kmem_inv frames HHDM C st' U' n' own' \<and>
    n \<le> n' + 1 \<and> in_cache st' ca obj \<and> in_use own' = insert obj (in_use own) \<and> obj \<notin> in_use own"
proof -
  obtain i where i: "kmem_cpu ca core st = Inr (i, cpu_cache (km_caches st ca) ! i)" "i < length (cpu_cache (km_caches st ca))"
    using kmem_cpu_ok [OF kmem_invD(3) [OF inv ca] core] by blast
  define cc where "cc = cpu_cache (km_caches st ca) ! i"
  have m: "loaded cc \<in> cpu_mags (km_caches st ca)" "previous cc \<in> cpu_mags (km_caches st ca)" using cpu_mags_nth [OF i(2)] by (simp_all add: cc_def)
  have nz: "previous cc \<noteq> 0" using m(2) kmem_invD(2) [OF inv ca] by (auto simp: cpus_ok_def)
  have pop: ?thesis if "kmem_inv frames HHDM C s U n own" "mg \<in> cpu_mags (km_caches s ca)" "0 < mag_count (km_mags s mg)"
    "kmem_alloc_cache alloc HHDM ca core st = mag_pop mg s" for s mg
  proof -
    from pop_inv [OF that(1) ca that(2,3)] obtain st' obj where "mag_pop mg s = Inr (st', obj)" "own obj = Some (InMag mg)"
      "in_cache st' ca obj" "kmem_inv frames HHDM C st' U n (own(obj \<mapsto> InUse))" by blast
    then show ?thesis using that(4)
      by (intro exI [of _ st'] exI [of _ obj] exI [of _ U] exI [of _ n] exI [of _ "own(obj \<mapsto> InUse)"]) (auto simp: in_use_def)
  qed
  consider "0 < mag_count (km_mags st (loaded cc))" | "mag_count (km_mags st (loaded cc)) = 0" "mag_count (km_mags st (previous cc)) = MAG_SIZE" |
    "mag_count (km_mags st (loaded cc)) = 0" "mag_count (km_mags st (previous cc)) \<noteq> MAG_SIZE" by auto
  then show ?thesis
  proof cases
    case 1
    then show ?thesis using i(1) by (intro pop [OF inv m(1)]) (simp_all add: kmem_alloc_cache_def cc_def)
  next
    case 2
    have "{loaded \<lparr>loaded = previous cc, previous = loaded cc\<rparr>, previous \<lparr>loaded = previous cc, previous = loaded cc\<rparr>} \<subseteq>
      {loaded (cpu_cache (km_caches st ca) ! i), previous (cpu_cache (km_caches st ca) ! i)}" by (auto simp: cc_def)
    from set_cpu_inv [OF inv ca i(2) this] show ?thesis
      using 2 i(1) nz by (intro pop [of "set_cpu ca i \<lparr>loaded = previous cc, previous = loaded cc\<rparr> st" "previous cc"])
        (simp_all add: kmem_alloc_cache_def cc_def MAG_SIZE_def)
  next
    case 3
    obtain st1 where d: "lock_magazines ca st = Inr st1" "magazines_full (km_caches st1 ca) = []"
      "kmem_inv frames HHDM C (unlock_magazines ca st1) U n own" using depot_path [OF inv ca] by blast
    define s where "s = unlock_magazines ca st1"
    have "kmem_inv frames HHDM C s U n own" using d(3) by (simp add: s_def)
    from slab_path [OF this ca] n obtain s1 s2 obj U' n' own' where p: "lock_slabs ca s = Inr s1" "cache_alloc_from_slabs alloc HHDM ca s1 = Inr (s2, obj)"
      "kmem_inv frames HHDM C (unlock_slabs ca s2) U' n' own'" "n \<le> n' + 1" "in_cache (unlock_slabs ca s2) ca obj" "taken own own' obj InUse" by blast
    have "kmem_alloc_cache alloc HHDM ca core st = Inr (unlock_slabs ca s2, obj)"
      using 3 i(1) nz d p(1,2) by (simp add: kmem_alloc_cache_def cc_def s_def Let_def)
    then show ?thesis using p(3-5) taken_in_use [OF p(6)] by blast
  qed
qed

lemma kmem_free_inv:
  assumes inv: "kmem_inv frames HHDM C st U n own" and ca: "ca \<in> C" and core: "core_ok core"
    and obj: "obj \<in> in_use own" "in_cache st ca obj"
  shows "\<exists>st' own'. kmem_free_cache alloc HHDM ca core obj st = Inr st' \<and> kmem_inv frames HHDM C st' U n own' \<and> in_use own' = in_use own - {obj}"
proof -
  obtain i where i: "kmem_cpu ca core st = Inr (i, cpu_cache (km_caches st ca) ! i)" "i < length (cpu_cache (km_caches st ca))"
    using kmem_cpu_ok [OF kmem_invD(3) [OF inv ca] core] by blast
  define cc where "cc = cpu_cache (km_caches st ca) ! i"
  have m: "loaded cc \<in> cpu_mags (km_caches st ca)" using cpu_mags_nth [OF i(2)] by (simp add: cc_def)
  have push: ?thesis if "kmem_inv frames HHDM C s U n own" "mg \<in> cpu_mags (km_caches s ca)" "mag_count (km_mags s mg) < MAG_SIZE" "in_cache s ca obj"
    "kmem_free_cache alloc HHDM ca core obj st = mag_push mg obj s" for s mg
    using push_inv [OF that(1) ca that(2,3) _ that(4)] obj(1) that(5)
    by (auto simp: in_use_def intro!: exI [of _ "own(obj \<mapsto> InMag mg)"] split: if_splits)
  have swap: "{loaded \<lparr>loaded = a, previous = loaded cc\<rparr>, previous \<lparr>loaded = a, previous = loaded cc\<rparr>} \<subseteq>
      {loaded (cpu_cache (km_caches st ca) ! i), previous (cpu_cache (km_caches st ca) ! i)}" if "a \<in> {loaded cc, previous cc}" for a
    using that by (auto simp: cc_def)
  consider "mag_count (km_mags st (loaded cc)) < MAG_SIZE" | "\<not> mag_count (km_mags st (loaded cc)) < MAG_SIZE" "mag_count (km_mags st (previous cc)) = 0" |
    "\<not> mag_count (km_mags st (loaded cc)) < MAG_SIZE" "mag_count (km_mags st (previous cc)) \<noteq> 0" by auto
  then show ?thesis
  proof cases
    case 1
    then show ?thesis using i(1) obj(2) by (intro push [OF inv m]) (simp_all add: kmem_free_cache_def cc_def)
  next
    case 2
    from set_cpu_inv [OF inv ca i(2) swap [of "previous cc"]] show ?thesis
      using 2 i(1) obj(2) by (intro push [of "set_cpu ca i \<lparr>loaded = previous cc, previous = loaded cc\<rparr> st" "previous cc"])
        (simp_all add: kmem_free_cache_def cc_def MAG_SIZE_def)
  next
    case 3
    obtain st1 where d: "lock_magazines ca st = Inr st1" "magazines_full (km_caches st1 ca) = []"
      "kmem_inv frames HHDM C (unlock_magazines ca st1) U n own" "slab_view (unlock_magazines ca st1) = slab_view st"
      "cpu_cache (km_caches (unlock_magazines ca st1) ca) = cpu_cache (km_caches st ca)" using depot_path [OF inv ca] by blast
    define s where "s = unlock_magazines ca st1"
    define s1 where "s1 = set_cpu ca i \<lparr>loaded = loaded cc, previous = loaded cc\<rparr> s"
    define s2 where "s2 = set_mag (loaded cc) ((km_mags s1 (loaded cc))\<lparr>mag_count := 0\<rparr>) s1"
    have "(km_caches st1 ca)\<lparr>magazines_full := []\<rparr> = km_caches st1 ca" using d(2) by (cases "km_caches st1 ca") simp
    then have "set_cache ca ((km_caches st1 ca)\<lparr>magazines_full := []\<rparr>) st1 = st1" by (simp add: set_cache_def)
    then have "kmem_free_cache alloc HHDM ca core obj st = mag_push (loaded cc) obj s2"
      using 3 i(1) d(1,2) by (simp add: kmem_free_cache_def cc_def s_def s1_def s2_def Let_def)
    moreover have "kmem_inv frames HHDM C s1 U n own" "loaded cc \<in> cpu_mags (km_caches s1 ca)"
      using set_cpu_inv [of frames HHDM C s U n own ca i "\<lparr>loaded = loaded cc, previous = loaded cc\<rparr>"] d(3,5) ca i(2) swap [of "loaded cc"]
      by (simp_all add: s_def s1_def)
    moreover then have "kmem_inv frames HHDM C s2 U n own" using mag_empty_inv ca by (simp add: s2_def)
    moreover have "in_cache s2 ca obj" using obj(2) slab_viewD(9) [OF d(4)] by (simp add: s2_def s1_def s_def)
    ultimately show ?thesis by (intro push [of s2 "loaded cc"]) (simp_all add: s2_def MAG_SIZE_def)
  qed
qed

end

end
