(* ===== verification/Kmem_Init.thy ===== *)
theory Kmem_Init
  imports Kmem_Alloc
begin

text \<open>
  A cache after \<^verbatim>\<open>kmem_cache_intialize\<close>: every CPU has a full and an empty magazine of its own, and
  the invariant holds for the new cache beside the old ones.
\<close>

section \<open>Filling a magazine\<close>

definition mag_fill :: "'s frame_source \<Rightarrow> uptr \<Rightarrow> uptr \<Rightarrow> uptr \<Rightarrow> 's kmem \<Rightarrow> nat \<Rightarrow> 's kmem res" where
  "mag_fill al HHDM ca mag s i =
     rbind (cache_alloc_from_slabs al HHDM ca s) (\<lambda>(s1, obj). mag_store mag i obj s1)"

lemma mag_store_ok:
  assumes "i < MAG_SIZE"
  shows "\<exists>st'. mag_store mag i obj st = Inr st' \<and> slab_view st' = slab_view st \<and> km_caches st' = km_caches st \<and> km_int st' = km_int st \<and>
    (\<forall>m. m \<noteq> mag \<longrightarrow> km_mags st' m = km_mags st m) \<and> mag_objects (km_mags st' mag) = (mag_objects (km_mags st mag))(i := obj)"
  using assms by (simp add: mag_store_def)

text \<open>The objects of a magazine under construction.\<close>

definition filled :: "uptr \<Rightarrow> uptr \<Rightarrow> nat \<Rightarrow> 's kmem \<Rightarrow> (uptr \<rightharpoonup> owner) \<Rightarrow> bool" where
  "filled ca mag k st own \<longleftrightarrow> inj_on (mag_objects (km_mags st mag)) {..<k} \<and>
     (\<forall>j < k. own (mag_objects (km_mags st mag) j) = Some (InMag mag) \<and> in_cache st ca (mag_objects (km_mags st mag) j))"

definition kept_mags :: "uptr \<Rightarrow> 's kmem \<Rightarrow> 's kmem \<Rightarrow> (uptr \<rightharpoonup> owner) \<Rightarrow> (uptr \<rightharpoonup> owner) \<Rightarrow> bool" where
  "kept_mags mag st st' own own' \<longleftrightarrow> (\<forall>m. m \<noteq> mag \<longrightarrow> km_mags st' m = km_mags st m) \<and>
     (\<forall>x m. own x = Some (InMag m) \<longrightarrow> own' x = Some (InMag m)) \<and> in_use own' = in_use own"

lemma mag_clear_loop:
  "k \<le> MAG_SIZE \<Longrightarrow> \<exists>st'. for_each (\<lambda>s i. mag_store mag i 0 s) [0..<k] st = Inr st' \<and> slab_view st' = slab_view st \<and>
     km_caches st' = km_caches st \<and> km_int st' = km_int st \<and> (\<forall>m. m \<noteq> mag \<longrightarrow> km_mags st' m = km_mags st m)"
proof (induction k)
  case (Suc k)
  then obtain s where s: "for_each (\<lambda>s i. mag_store mag i 0 s) [0..<k] st = Inr s" "slab_view s = slab_view st"
    "km_caches s = km_caches st" "km_int s = km_int st" "\<forall>m. m \<noteq> mag \<longrightarrow> km_mags s m = km_mags st m" by auto
  have "k < MAG_SIZE" using Suc.prems by simp
  from mag_store_ok [OF this, of mag 0 s] s show ?case by auto
qed simp

text \<open>One iteration of the loop over the CPUs.\<close>

definition init_cpu :: "'s frame_source \<Rightarrow> uptr \<Rightarrow> uptr \<Rightarrow> 's kmem \<Rightarrow> nat \<Rightarrow> 's kmem res" where
  "init_cpu al HHDM ca s i =
     rbind (cache_make_magazine al HHDM ca True s) (\<lambda>(s1, ld).
     rbind (cache_make_magazine al HHDM ca False s1) (\<lambda>(s2, prev). Inr (set_cpu ca i \<lparr>loaded = ld, previous = prev\<rparr> s2)))"

text \<open>Magazines \<open>m\<close> that belong to the caches \<open>c\<close>, for the pairs \<open>(c, m)\<close> of a set.\<close>

definition mags_inv :: "uptr \<Rightarrow> uptr set \<Rightarrow> 's kmem \<Rightarrow> (uptr \<rightharpoonup> owner) \<Rightarrow> (uptr \<times> uptr) set \<Rightarrow> bool" where
  "mags_inv HHDM U st own M \<longleftrightarrow>
     (\<forall>c m. (c, m) \<in> M \<longrightarrow> m \<noteq> 0 \<and> page_in HHDM U m \<and> mag_ok st own c m) \<and>
     (\<forall>c d m. (c, m) \<in> M \<longrightarrow> (d, m) \<in> M \<longrightarrow> c = d)"

lemma mags_inv_set_cpu: "mags_inv HHDM U (set_cpu ca i cc st) own M = mags_inv HHDM U st own M"
  by (simp add: mags_inv_def)

lemma kmem_inv_mags:
  "kmem_inv frames HHDM C st U n own \<longleftrightarrow>
     slab_inv frames HHDM C st U n own \<and> mags_inv HHDM U st own {(c, m). c \<in> C \<and> m \<in> cpu_mags (km_caches st c)} \<and>
     (\<forall>c \<in> C. idle (km_caches st c))"
  unfolding kmem_inv_def mags_inv_def cpus_ok_def by blast

lemma mags_inv_step:
  assumes "mags_inv HHDM U st own M" "kept_mags mag st st' own own'" "\<And>c m. (c, m) \<in> M \<Longrightarrow> m \<noteq> mag" "U \<subseteq> U'"
    "\<And>c x. in_cache st c x \<Longrightarrow> in_cache st' c x" "mag \<noteq> 0" "page_in HHDM U' mag" "mag_ok st' own' ca mag"
  shows "mags_inv HHDM U' st' own' (insert (ca, mag) M)"
proof -
  have "mag_ok st' own' c m" if "(c, m) \<in> M" for c m
    by (rule mag_keep [of st own c m]) (use assms(1,2,3,5) that in \<open>auto simp: mags_inv_def kept_mags_def\<close>)
  moreover have "page_in HHDM U' m" if "(c, m) \<in> M" for c m using assms(1,4) that by (auto simp: mags_inv_def page_in_def)
  ultimately show ?thesis using assms(1,3,6,7,8) unfolding mags_inv_def by blast
qed

lemma slab_inv_page:
  assumes "slab_inv frames HHDM C st U n own" "frames (km_al st') U' m" "U \<subseteq> U'" "st' = st\<lparr>km_al := km_al st'\<rparr>"
  shows "slab_inv frames HHDM C st' U' m own"
proof -
  have s: "km_caches st' = km_caches st" "km_slabs st' = km_slabs st" "km_words st' = km_words st" by (subst assms(4); simp)+
  have i: "in_slab st' = in_slab st" "in_cache st' = in_cache st" by (simp_all add: fun_eq_iff in_slab_def in_cache_def s)
  have "cache_ok HHDM U' st' own c" if "cache_ok HHDM U st own c" for c
    using that assms(3) by (auto simp: cache_ok_def Let_def s page_in_def slab_ok_def i)
  then show ?thesis using assms(1,2) by (auto simp: slab_inv_def i)
qed

context frame_allocator
begin

lemma mag_fill_ok:
  assumes inv: "slab_inv frames HHDM C st U n own" and ca: "ca \<in> C" and n: "0 < n" and k: "k < MAG_SIZE" and f: "filled ca mag k st own"
  shows "\<exists>st' U' n' own'. mag_fill alloc HHDM ca mag st k = Inr st' \<and> slab_inv frames HHDM C st' U' n' own' \<and> n \<le> n' + 1 \<and> U \<subseteq> U' \<and>
    grown ca st st' \<and> kept_mags mag st st' own own' \<and> filled ca mag (Suc k) st' own'"
proof -
  obtain s1 obj U' n' o1 where a: "cache_alloc_from_slabs alloc HHDM ca st = Inr (s1, obj)" "slab_inv frames HHDM C s1 U' n' o1" "n \<le> n' + 1" "U \<subseteq> U'"
    "grown ca st s1" "in_cache s1 ca obj" "taken own o1 obj InUse" "km_mags s1 = km_mags st"
    using cache_alloc_ok [OF inv ca] n by blast
  obtain s2 where s: "mag_store mag k obj s1 = Inr s2" "slab_view s2 = slab_view s1" "km_caches s2 = km_caches s1" "km_int s2 = km_int s1"
    "\<forall>m. m \<noteq> mag \<longrightarrow> km_mags s2 m = km_mags s1 m" "mag_objects (km_mags s2 mag) = (mag_objects (km_mags s1 mag))(k := obj)"
    using mag_store_ok [OF k] by blast
  define o2 where "o2 = o1(obj \<mapsto> InMag mag)"
  have "slab_inv frames HHDM C s2 U' n' o2"
    by (rule slab_inv_pass [OF a(2) s(2)]) (use a(7) in \<open>auto simp: o2_def taken_def split: if_splits\<close>)
  moreover have "grown ca st s2" using a(5) s(3,4) by (simp add: grown_def)
  moreover have inmag: "o2 x = Some (InMag m)" if "own x = Some (InMag m)" for x m
    using that a(7) unfolding taken_def o2_def by (metis fun_upd_apply option.distinct(1))
  moreover have "in_use o2 = in_use own" using taken_in_use [OF a(7)] a(7) by (auto simp: in_use_def o2_def taken_def)
  moreover have "filled ca mag (Suc k) s2 o2"
  proof -
    have "mag_objects (km_mags st mag) j \<noteq> obj" if "j < k" for j
      using f that a(7) by (auto simp: filled_def taken_def)
    moreover have "in_cache s2 ca (mag_objects (km_mags st mag) j)" if "j < k" for j
      using f that grown_caches(7) [OF a(5)] slab_viewD(9) [OF s(2)] by (simp add: filled_def)
    moreover have "in_cache s2 ca obj" using a(6) slab_viewD(9) [OF s(2)] by simp
    ultimately show ?thesis using f inmag unfolding filled_def s(6) a(8)
      by (auto simp: less_Suc_eq o2_def inj_on_def) (metis)+
  qed
  ultimately show ?thesis using a(1,3,4,8) s(1,5)
    by (intro exI [of _ s2] exI [of _ U'] exI [of _ n'] exI [of _ o2]) (simp add: mag_fill_def kept_mags_def)
qed

lemma mag_fill_loop:
  assumes inv: "slab_inv frames HHDM C st U n own" and ca: "ca \<in> C"
  shows "k \<le> MAG_SIZE \<Longrightarrow> k \<le> n \<Longrightarrow> \<exists>st' U' n' own'. for_each (mag_fill alloc HHDM ca mag) [0..<k] st = Inr st' \<and>
    slab_inv frames HHDM C st' U' n' own' \<and> n \<le> n' + k \<and> U \<subseteq> U' \<and> grown ca st st' \<and> kept_mags mag st st' own own' \<and> filled ca mag k st' own'"
proof (induction k)
  case 0
  show ?case using inv
    by (intro exI [of _ st] exI [of _ U] exI [of _ n] exI [of _ own]) (simp add: grown_def kept_mags_def filled_def)
next
  case (Suc k)
  then obtain s V m o1 where s: "for_each (mag_fill alloc HHDM ca mag) [0..<k] st = Inr s" "slab_inv frames HHDM C s V m o1" "n \<le> m + k" "U \<subseteq> V"
    "grown ca st s" "kept_mags mag st s own o1" "filled ca mag k s o1" by auto
  have "0 < m" "k < MAG_SIZE" using s(3) Suc.prems by simp_all
  from mag_fill_ok [OF s(2) ca this s(7)] obtain st' U' n' own' where r: "mag_fill alloc HHDM ca mag s k = Inr st'" "slab_inv frames HHDM C st' U' n' own'"
    "m \<le> n' + 1" "V \<subseteq> U'" "grown ca s st'" "kept_mags mag s st' o1 own'" "filled ca mag (Suc k) st' own'" by blast
  have "kept_mags mag st st' own own'" using s(6) r(6) by (simp add: kept_mags_def)
  then show ?case using s r grown_trans [OF s(5) r(5)]
    by (intro exI [of _ st'] exI [of _ U'] exI [of _ n'] exI [of _ own']) auto
qed

lemma make_magazine_ok:
  assumes inv: "slab_inv frames HHDM C st U n own" and ca: "ca \<in> C" and idle: "idle (km_caches st ca)" and n: "(if populate then 33 else 1) \<le> n"
    and M: "mags_inv HHDM U st own M"
  shows "\<exists>st' mag U' n' own'. cache_make_magazine alloc HHDM ca populate st = Inr (st', mag) \<and> slab_inv frames HHDM C st' U' n' own' \<and>
    n \<le> n' + (if populate then 33 else 1) \<and> U \<subseteq> U' \<and> mags_inv HHDM U' st' own' (insert (ca, mag) M) \<and> (\<forall>c. cpu_cache (km_caches st' c) = cpu_cache (km_caches st c)) \<and>
    (\<forall>c. c \<noteq> ca \<longrightarrow> km_caches st' c = km_caches st c) \<and> idle (km_caches st' ca) \<and> in_use own' = in_use own \<and>
    object_size (km_caches st' ca) = object_size (km_caches st ca)"
proof -
  have fr: "frames (km_al st) U n" "direct_map HHDM" using inv by (auto simp: slab_inv_def)
  have n0: "0 < n" using n by (simp split: if_splits)
  obtain s0 mag where pg: "km_page alloc HHDM st = Inr (s0, mag)" and s0: "s0 = st\<lparr>km_al := km_al s0\<rparr>" and V: "frames (km_al s0) (insert (mag - HHDM) U) (n - 1)"
    "mag - HHDM \<notin> U" "mag mod 0x1000 = 0" "mag \<noteq> 0" using page_ok [OF fr(1) n0 fr(2)] by (elim exE conjE) (rule that; assumption)
  define V0 where "V0 = insert (mag - HHDM) U"
  have c0: "km_caches s0 = km_caches st" "km_mags s0 = km_mags st" "in_cache s0 = in_cache st"
    by (subst s0; simp add: fun_eq_iff in_cache_def in_slab_def)+
  have I0: "slab_inv frames HHDM C s0 V0 (n - 1) own" using slab_inv_page [OF inv V(1) _ s0] by (auto simp: V0_def)
  obtain s1 where l: "lock_slabs ca s0 = Inr s1" and v1: "slab_view s1 = slab_view s0" and m1: "km_mags s1 = km_mags s0"
    and un: "\<And>s2 s3. grown ca s1 s2 \<Longrightarrow> s3 = unlock_slabs ca s2 \<Longrightarrow> slab_view s3 = slab_view s2 \<and> km_mags s3 = km_mags s2 \<and>
      (\<forall>c. cpu_cache (km_caches s3 c) = cpu_cache (km_caches s0 c)) \<and> (\<forall>c. c \<noteq> ca \<longrightarrow> km_caches s3 c = km_caches s0 c) \<and> idle (km_caches s3 ca)"
    using slab_lock [of s0 ca] idle c0(1) unfolding Let_def by auto
  have I1: "slab_inv frames HHDM C s1 V0 (n - 1) own" by (rule slab_inv_pass [OF I0 v1]) simp_all
  define body where "body = (\<lambda>s i. rbind (if populate then cache_alloc_from_slabs alloc HHDM ca s else Inr (s, 0)) (\<lambda>(s1, obj). mag_store mag i obj s1))"
  have "\<exists>s2 U' n' own'. for_each body [0..<MAG_SIZE] s1 = Inr s2 \<and> slab_inv frames HHDM C s2 U' n' own' \<and> n - 1 \<le> n' + (if populate then 32 else 0) \<and> V0 \<subseteq> U' \<and>
      grown ca s1 s2 \<and> kept_mags mag s1 s2 own own' \<and> (populate \<longrightarrow> filled ca mag MAG_SIZE s2 own')"
  proof (cases populate)
    case True
    then have "body = mag_fill alloc HHDM ca mag" by (simp add: body_def mag_fill_def fun_eq_iff)
    moreover have "MAG_SIZE \<le> n - 1" using n True by (simp add: MAG_SIZE_def)
    ultimately show ?thesis using mag_fill_loop [OF I1 ca order.refl, of mag] True by (simp add: MAG_SIZE_def)
  next
    case False
    then have b: "body = (\<lambda>s i. mag_store mag i 0 s)" by (simp add: body_def fun_eq_iff)
    obtain s2 where s2: "for_each body [0..<MAG_SIZE] s1 = Inr s2" "slab_view s2 = slab_view s1" "km_caches s2 = km_caches s1" "km_int s2 = km_int s1"
      "\<forall>m. m \<noteq> mag \<longrightarrow> km_mags s2 m = km_mags s1 m" using mag_clear_loop [of MAG_SIZE mag s1] unfolding b by auto
    have "slab_inv frames HHDM C s2 V0 (n - 1) own" by (rule slab_inv_pass [OF I1 s2(2)]) simp_all
    then show ?thesis using s2 False
      by (intro exI [of _ s2] exI [of _ V0] exI [of _ "n - 1"] exI [of _ own]) (simp add: grown_def kept_mags_def)
  qed
  then obtain s2 U' n' own' where loop: "for_each body [0..<MAG_SIZE] s1 = Inr s2" and I2: "slab_inv frames HHDM C s2 U' n' own'" "n - 1 \<le> n' + (if populate then 32 else 0)" "V0 \<subseteq> U'"
    and g: "grown ca s1 s2" and k: "kept_mags mag s1 s2 own own'" "populate \<longrightarrow> filled ca mag MAG_SIZE s2 own'" by blast
  define s3 where "s3 = unlock_slabs ca s2"
  define s4 where "s4 = set_mag mag ((km_mags s3 mag)\<lparr>mag_count := (if populate then MAG_SIZE else 0)\<rparr>) s3"
  note u = un [OF g s3_def]
  have v3: "slab_view s3 = slab_view s2" using u by blast
  have v4: "slab_view s4 = slab_view s2" using v3 by (simp add: s4_def)
  have "cache_make_magazine alloc HHDM ca populate st = Inr (s4, mag)"
    using pg l loop by (simp add: cache_make_magazine_def body_def s3_def s4_def Let_def)
  moreover have "slab_inv frames HHDM C s4 U' n' own'" by (rule slab_inv_pass [OF I2(1) v4]) simp_all
  moreover have "mags_inv HHDM U' s4 own' (insert (ca, mag) M)"
  proof (rule mags_inv_step [OF M])
    show "kept_mags mag st s4 own own'" using k(1) u m1 c0(2) by (simp add: kept_mags_def s4_def)
    show "m \<noteq> mag" if "(c, m) \<in> M" for c m using that M V(2) by (auto simp: mags_inv_def page_in_def)
    show "U \<subseteq> U'" "mag \<noteq> 0" "page_in HHDM U' mag" using I2(3) V(3,4) by (auto simp: V0_def page_in_def)
    show "in_cache s4 c x" if "in_cache st c x" for c x
      using that grown_caches(7) [OF g] by (simp add: slab_viewD(9) [OF v4] slab_viewD(9) [OF v1] c0(3))
    show "mag_ok s4 own' ca mag" using k(2) u by (auto simp: mag_ok_def filled_def s4_def slab_viewD(9) [OF v3])
  qed
  moreover have "(\<forall>c. cpu_cache (km_caches s4 c) = cpu_cache (km_caches st c)) \<and> (\<forall>c. c \<noteq> ca \<longrightarrow> km_caches s4 c = km_caches st c) \<and> idle (km_caches s4 ca)"
    using u c0(1) by (simp add: s4_def)
  moreover have "object_size (km_caches s4 ca) = object_size (km_caches st ca)"
    using slab_viewD(4) [OF v4] grown_caches(1) [OF g] slab_viewD(4) [OF v1] c0(1) by simp
  moreover have "in_use own' = in_use own" "n \<le> n' + (if populate then 33 else 1)" "U \<subseteq> U'" using k(1) I2(2,3) by (auto simp: kept_mags_def V0_def)
  ultimately show ?thesis by blast
qed

lemma init_cpu_ok:
  assumes inv: "slab_inv frames HHDM C st U n own" and ca: "ca \<in> C" and idle: "idle (km_caches st ca)" and n: "34 \<le> n" and i: "i < MAX_CPUS"
    and M: "mags_inv HHDM U st own M"
  shows "\<exists>st' cc U' n' own'. init_cpu alloc HHDM ca st i = Inr st' \<and>
    slab_inv frames HHDM C st' U' n' own' \<and> n \<le> n' + 34 \<and> U \<subseteq> U' \<and> mags_inv HHDM U' st' own' (M \<union> {ca} \<times> {loaded cc, previous cc}) \<and>
    cpu_cache (km_caches st' ca) = (cpu_cache (km_caches st ca))[i := cc] \<and> (\<forall>c. c \<noteq> ca \<longrightarrow> km_caches st' c = km_caches st c) \<and>
    idle (km_caches st' ca) \<and> in_use own' = in_use own \<and> object_size (km_caches st' ca) = object_size (km_caches st ca)"
proof -
  have "(if True then 33 else 1) \<le> n" using n by simp
  from make_magazine_ok [OF inv ca idle this M] obtain s1 ld U1 n1 o1 where
    a: "cache_make_magazine alloc HHDM ca True st = Inr (s1, ld)" "slab_inv frames HHDM C s1 U1 n1 o1" "n \<le> n1 + 33" "U \<subseteq> U1"
    "mags_inv HHDM U1 s1 o1 (insert (ca, ld) M)" "\<forall>c. cpu_cache (km_caches s1 c) = cpu_cache (km_caches st c)"
    "\<forall>c. c \<noteq> ca \<longrightarrow> km_caches s1 c = km_caches st c" "idle (km_caches s1 ca)" "in_use o1 = in_use own" "object_size (km_caches s1 ca) = object_size (km_caches st ca)" by auto
  have "(if False then 33 else 1) \<le> n1" using n a(3) by simp
  from make_magazine_ok [OF a(2) ca a(8) this a(5)] obtain s2 prev U2 n2 o2 where
    b: "cache_make_magazine alloc HHDM ca False s1 = Inr (s2, prev)" "slab_inv frames HHDM C s2 U2 n2 o2" "n1 \<le> n2 + 1" "U1 \<subseteq> U2"
    "mags_inv HHDM U2 s2 o2 (insert (ca, prev) (insert (ca, ld) M))" "\<forall>c. cpu_cache (km_caches s2 c) = cpu_cache (km_caches s1 c)"
    "\<forall>c. c \<noteq> ca \<longrightarrow> km_caches s2 c = km_caches s1 c" "idle (km_caches s2 ca)" "in_use o2 = in_use o1" "object_size (km_caches s2 ca) = object_size (km_caches s1 ca)" by auto
  define cc where "cc = \<lparr>loaded = ld, previous = prev\<rparr>"
  define s3 where "s3 = set_cpu ca i cc s2"
  have "slab_inv frames HHDM C s3 U2 n2 o2" by (rule slab_inv_pass [OF b(2)]) (simp_all add: s3_def)
  moreover have "insert (ca, prev) (insert (ca, ld) M) = M \<union> {ca} \<times> {loaded cc, previous cc}" by (auto simp: cc_def)
  then have "mags_inv HHDM U2 s3 o2 (M \<union> {ca} \<times> {loaded cc, previous cc})" using b(5) by (simp only: s3_def mags_inv_set_cpu)
  moreover have "cpu_cache (km_caches s3 ca) = (cpu_cache (km_caches st ca))[i := cc]" "\<forall>c. c \<noteq> ca \<longrightarrow> km_caches s3 c = km_caches st c"
    using a(6,7) b(6,7) by (simp_all add: s3_def set_cpu_def Let_def)
  moreover have "idle (km_caches s3 ca)" "object_size (km_caches s3 ca) = object_size (km_caches st ca)"
    using a(10) b(8,10) slab_viewD(4) [OF set_cpu_view(1), of ca i cc s2 ca] by (simp_all add: s3_def)
  moreover have "init_cpu alloc HHDM ca st i = Inr s3" using a(1) b(1) by (simp add: init_cpu_def s3_def cc_def)
  moreover have "n \<le> n2 + 34" "U \<subseteq> U2" "in_use o2 = in_use own" using a(3,4,9) b(3,4,9) by auto
  ultimately show ?thesis by blast
qed

lemma init_loop:
  assumes inv: "slab_inv frames HHDM C st U n own" and ca: "ca \<in> C" and idle: "idle (km_caches st ca)" and M: "mags_inv HHDM U st own M"
  shows "k \<le> MAX_CPUS \<Longrightarrow> 34 * k \<le> n \<Longrightarrow> \<exists>st' U' n' own'. for_each (init_cpu alloc HHDM ca) [0..<k] st = Inr st' \<and>
    slab_inv frames HHDM C st' U' n' own' \<and> n \<le> n' + 34 * k \<and> idle (km_caches st' ca) \<and> in_use own' = in_use own \<and>
    object_size (km_caches st' ca) = object_size (km_caches st ca) \<and> (\<forall>c. c \<noteq> ca \<longrightarrow> km_caches st' c = km_caches st c) \<and>
    mags_inv HHDM U' st' own' (M \<union> {ca} \<times> (\<Union>j < k. {loaded (cpu_cache (km_caches st' ca) ! j), previous (cpu_cache (km_caches st' ca) ! j)}))"
proof (induction k)
  case 0
  show ?case using inv idle M by (intro exI [of _ st] exI [of _ U] exI [of _ n] exI [of _ own]) simp
next
  case (Suc k)
  define P where "P = (\<lambda>s :: 's kmem. \<lambda>k. \<Union>j < k. {loaded (cpu_cache (km_caches s ca) ! j), previous (cpu_cache (km_caches s ca) ! j)})"
  from Suc obtain s V m o1 where s: "for_each (init_cpu alloc HHDM ca) [0..<k] st = Inr s" "slab_inv frames HHDM C s V m o1" "n \<le> m + 34 * k" "idle (km_caches s ca)"
    "in_use o1 = in_use own" "\<forall>c. c \<noteq> ca \<longrightarrow> km_caches s c = km_caches st c" "mags_inv HHDM V s o1 (M \<union> {ca} \<times> P s k)" "object_size (km_caches s ca) = object_size (km_caches st ca)" by (auto simp: P_def)
  have "34 \<le> m" "k < MAX_CPUS" using Suc.prems s(3) by simp_all
  from init_cpu_ok [OF s(2) ca s(4) this s(7)] obtain st' cc U' n' own' where
    r: "init_cpu alloc HHDM ca s k = Inr st'" "slab_inv frames HHDM C st' U' n' own'" "m \<le> n' + 34" "mags_inv HHDM U' st' own' (M \<union> {ca} \<times> P s k \<union> {ca} \<times> {loaded cc, previous cc})"
    "cpu_cache (km_caches st' ca) = (cpu_cache (km_caches s ca))[k := cc]" "\<forall>c. c \<noteq> ca \<longrightarrow> km_caches st' c = km_caches s c" "idle (km_caches st' ca)"
    "in_use own' = in_use o1" "object_size (km_caches st' ca) = object_size (km_caches s ca)" by blast
  have "k < length (cpu_cache (km_caches s ca))" using s(4) \<open>k < MAX_CPUS\<close> by (simp add: idle_def)
  then have "P st' (Suc k) = P s k \<union> {loaded cc, previous cc}" unfolding P_def r(5) lessThan_Suc by simp
  then have "M \<union> {ca} \<times> P s k \<union> {ca} \<times> {loaded cc, previous cc} = M \<union> {ca} \<times> P st' (Suc k)" by auto
  with r(4) have "mags_inv HHDM U' st' own' (M \<union> {ca} \<times> P st' (Suc k))" by simp
  then show ?case using s r
    by (intro exI [of _ st'] exI [of _ U'] exI [of _ n'] exI [of _ own']) (simp add: P_def)
qed

lemma cache_init_inv:
  assumes inv: "kmem_inv frames HHDM C st U n own" and fr: "frames (km_al st) U n" "direct_map HHDM" and ca: "ca \<notin> C" and sz: "size_ok sz" and n: "34 * 32 \<le> n"
  shows "\<exists>st' U' n' own'. kmem_cache_intialize alloc HHDM ca name sz st = Inr st' \<and> kmem_inv frames HHDM (insert ca C) st' U' n' own' \<and>
    n \<le> n' + 34 * 32 \<and> in_use own' = in_use own \<and> object_size (km_caches st' ca) = sz"
proof -
  define c0 where "c0 = \<lparr>cache_name = name, object_size = sz, slabs_full = [], slabs_partial = [], slabs_lock = SPINLOCK_INIT,
      magazines_full = [], magazines_empty = [], magazines_lock = SPINLOCK_INIT, cpu_cache = replicate MAX_CPUS NULL_CPU_CACHE\<rparr>"
  define s where "s = set_cache ca c0 st"
  have c: "km_caches s c = km_caches st c" if "c \<in> C" for c using that ca by (auto simp: s_def)
  have ins: "in_slab s c = in_slab st c" "in_cache s c = in_cache st c" if "c \<in> C" for c
    using c [OF that] by (simp_all add: fun_eq_iff in_slab_def in_cache_def)
  have "cache_ok HHDM U s own c" if "c \<in> insert ca C" for c
  proof (cases "c = ca")
    case True
    then show ?thesis using sz by (simp add: cache_ok_def Let_def s_def c0_def cslabs_def)
  next
    case False
    then have "c \<in> C" using that by simp
    moreover have "cache_ok HHDM U st own c" using inv \<open>c \<in> C\<close> by (simp add: kmem_inv_def slab_inv_def)
    ultimately show ?thesis using c [of c] ins [of c] by (simp add: cache_ok_def Let_def slab_ok_def) (simp add: s_def)
  qed
  then have "slab_inv frames HHDM (insert ca C) s U n own"
    using inv fr ins unfolding slab_inv_def kmem_inv_def by (auto simp: s_def)
  moreover have "idle (km_caches s ca)" by (simp add: s_def c0_def idle_def SPINLOCK_INIT_def)
  moreover have "mags_inv HHDM U s own {(c, m). c \<in> C \<and> m \<in> cpu_mags (km_caches st c)}"
    using inv ins unfolding kmem_inv_mags mags_inv_def mag_ok_def by (simp add: s_def) blast
  moreover have "34 * MAX_CPUS \<le> n" using n by (simp add: MAX_CPUS_def)
  ultimately obtain st' U' n' own' where r: "for_each (init_cpu alloc HHDM ca) [0..<MAX_CPUS] s = Inr st'" "slab_inv frames HHDM (insert ca C) st' U' n' own'"
    "n \<le> n' + 34 * MAX_CPUS" "idle (km_caches st' ca)" "in_use own' = in_use own" "\<forall>c. c \<noteq> ca \<longrightarrow> km_caches st' c = km_caches s c"
    "mags_inv HHDM U' st' own' ({(c, m). c \<in> C \<and> m \<in> cpu_mags (km_caches st c)} \<union>
       {ca} \<times> (\<Union>j < MAX_CPUS. {loaded (cpu_cache (km_caches st' ca) ! j), previous (cpu_cache (km_caches st' ca) ! j)}))"
    "object_size (km_caches st' ca) = object_size (km_caches s ca)"
    using init_loop [OF _ insertI1 _ _ order.refl] by blast
  have len: "length (cpu_cache (km_caches st' ca)) = MAX_CPUS" using r(4) by (simp add: idle_def)
  have same: "km_caches st' d = km_caches st d" if "d \<in> C" for d using that ca c r(6) by metis
  have "cpu_mags (km_caches st' ca) = (\<Union>j < MAX_CPUS. {loaded (cpu_cache (km_caches st' ca) ! j), previous (cpu_cache (km_caches st' ca) ! j)})"
    using len by (fastforce simp: cpu_mags_def in_set_conv_nth)
  then have "{(d, m). d \<in> insert ca C \<and> m \<in> cpu_mags (km_caches st' d)} = {(d, m). d \<in> C \<and> m \<in> cpu_mags (km_caches st d)} \<union>
       {ca} \<times> (\<Union>j < MAX_CPUS. {loaded (cpu_cache (km_caches st' ca) ! j), previous (cpu_cache (km_caches st' ca) ! j)})"
    using same by auto
  moreover have "idle (km_caches st' d)" if "d \<in> insert ca C" for d
    using that r(4,6) c inv ca by (cases "d = ca") (auto simp: kmem_inv_def)
  ultimately have "kmem_inv frames HHDM (insert ca C) st' U' n' own'" using r(2,7) unfolding kmem_inv_mags by simp
  moreover have "object_size (km_caches st' ca) = sz" using r(8) by (simp add: s_def c0_def)
  moreover have "kmem_cache_intialize alloc HHDM ca name sz st = Inr st'"
    using r(1) by (simp add: kmem_cache_intialize_def init_cpu_def [abs_def] s_def c0_def)
  ultimately show ?thesis using r(3,5) by (auto simp: MAX_CPUS_def)
qed

end

end
