(* ===== verification/Kmem_Client.thy ===== *)
theory Kmem_Client
  imports Kmem_Init
begin

text \<open>
  What the clients of an object cache rely on, as a locale, its interpretation on the caches over
  the physical allocator, and the size classes of the heap.
\<close>

section \<open>The contract of an object cache\<close>

text \<open>In the state \<open>s\<close> the objects \<open>A\<close> are in use and \<open>n\<close> page frames are free.\<close>

datatype request = Get | Put nat

fun serve :: "('s \<Rightarrow> ('s \<times> 'a) res) \<Rightarrow> ('a \<Rightarrow> 's \<Rightarrow> 's res) \<Rightarrow> request list \<Rightarrow> 'a list \<Rightarrow> 's \<Rightarrow> ('s \<times> 'a list) res" where
  "serve get put [] live s = Inr (s, live)"
| "serve get put (Get # rs) live s = rbind (get s) (\<lambda>(s', x). serve get put rs (live @ [x]) s')"
| "serve get put (Put i # rs) live s =
     (if i < length live then rbind (put (live ! i) s) (serve get put rs (take i live @ drop (Suc i) live))
      else serve get put rs live s)"

locale object_cache =
  fixes ok :: "'s \<Rightarrow> 'a set \<Rightarrow> nat \<Rightarrow> bool" and get :: "'s \<Rightarrow> ('s \<times> 'a) res" and put :: "'a \<Rightarrow> 's \<Rightarrow> 's res"
  assumes get_fresh: "ok s A n \<Longrightarrow> 0 < n \<Longrightarrow> \<exists>s' x n'. get s = Inr (s', x) \<and> x \<notin> A \<and> ok s' (insert x A) n' \<and> n \<le> n' + 1"
    and put_back: "ok s A n \<Longrightarrow> x \<in> A \<Longrightarrow> \<exists>s'. put x s = Inr s' \<and> ok s' (A - {x}) n"
begin

lemma serve_distinct:
  "ok s (set live) n \<Longrightarrow> distinct live \<Longrightarrow> length (filter (\<lambda>r. r = Get) rs) \<le> n \<Longrightarrow>
   \<exists>s' live' n'. serve get put rs live s = Inr (s', live') \<and> distinct live' \<and> ok s' (set live') n'"
proof (induction rs arbitrary: live s n)
  case Nil
  then show ?case by auto
next
  case (Cons r rs)
  show ?case
  proof (cases r)
    case Get
    then have "0 < n" using Cons.prems(3) by simp
    from get_fresh [OF Cons.prems(1) this] obtain s' x n' where g: "get s = Inr (s', x)" "x \<notin> set live" "ok s' (insert x (set live)) n'" "n \<le> n' + 1"
      by blast
    then show ?thesis using Cons.IH [of s' "live @ [x]" n'] Cons.prems Get by simp
  next
    case (Put i)
    show ?thesis
    proof (cases "i < length live")
      case True
      let ?rest = "take i live @ drop (Suc i) live"
      have l: "live = take i live @ live ! i # drop (Suc i) live" using True by (rule id_take_nth_drop)
      then have d: "distinct (take i live @ live ! i # drop (Suc i) live)" "set live = set (take i live @ live ! i # drop (Suc i) live)"
        using Cons.prems(2) by simp_all
      then have "set live - {live ! i} = set ?rest" "distinct ?rest" by auto
      moreover obtain s' where "put (live ! i) s = Inr s'" "ok s' (set live - {live ! i}) n"
        using put_back [OF Cons.prems(1), of "live ! i"] True by auto
      ultimately show ?thesis using Cons.IH [of s' ?rest n] Cons.prems(3) Put True by simp
    next
      case False
      then show ?thesis using Cons.IH [of s live n] Cons.prems Put by simp
    qed
  qed
qed

end

section \<open>Objects of the caches\<close>

definition kmem_ok :: "uptr \<Rightarrow> uptr set \<Rightarrow> pmm_t kmem \<Rightarrow> uptr set \<Rightarrow> nat \<Rightarrow> bool" where
  "kmem_ok HHDM C st A n \<longleftrightarrow> (\<exists>U own. kmem_inv pmm_frames HHDM C st U n own \<and> A = in_use own)"

lemma kmem_ok_alloc:
  assumes "kmem_ok HHDM C st A n" "ca \<in> C" "core_ok core" "0 < n"
  shows "\<exists>st' obj n'. kmem_alloc_cache pmm_alloc_frame HHDM ca core st = Inr (st', obj) \<and> obj \<notin> A \<and>
    kmem_ok HHDM C st' (insert obj A) n' \<and> n \<le> n' + 1 \<and> in_cache st' ca obj"
  using assms pmm.kmem_alloc_inv [OF _ assms(2-4)] unfolding kmem_ok_def by metis

lemma kmem_ok_free:
  assumes "kmem_ok HHDM C st A n" "ca \<in> C" "core_ok core" "obj \<in> A" "in_cache st ca obj"
  shows "\<exists>st'. kmem_free_cache pmm_alloc_frame HHDM ca core obj st = Inr st' \<and> kmem_ok HHDM C st' (A - {obj}) n"
  using assms pmm.kmem_free_inv [OF _ assms(2,3)] unfolding kmem_ok_def by metis

interpretation kmem_cache: object_cache "kmem_ok HHDM {ca}"
  "kmem_alloc_cache pmm_alloc_frame HHDM ca None" "kmem_free_cache pmm_alloc_frame HHDM ca None" for HHDM ca
proof
  fix st A n assume ok: "kmem_ok HHDM {ca} st A n" and n: "0 < (n :: nat)"
  then show "\<exists>s' x n'. kmem_alloc_cache pmm_alloc_frame HHDM ca None st = Inr (s', x) \<and> x \<notin> A \<and> kmem_ok HHDM {ca} s' (insert x A) n' \<and> n \<le> n' + 1"
    using kmem_ok_alloc [OF ok, of ca None] by (auto simp: core_ok_def)
next
  fix st A n x assume ok: "kmem_ok HHDM {ca} st A n" and x: "x \<in> A"
  then have "in_cache st ca x" by (auto simp: kmem_ok_def kmem_inv_def slab_inv_def in_use_def)
  then show "\<exists>s'. kmem_free_cache pmm_alloc_frame HHDM ca None x st = Inr s' \<and> kmem_ok HHDM {ca} s' (A - {x}) n"
    using kmem_ok_free [OF ok, of ca None x] x by (auto simp: core_ok_def)
qed

text \<open>The bytes of an object.\<close>

definition extent :: "'s kmem \<Rightarrow> uptr \<Rightarrow> uptr \<Rightarrow> nat set" where
  "extent st ca x = {unat x ..< unat x + unat (object_size (km_caches st ca))}"

lemma in_cache_place:
  assumes "slab_inv frames HHDM C st U n own" "c \<in> C" "in_cache st c x"
  shows "\<exists>s q i. s \<in> set (cslabs (km_caches st c)) \<and> slab_cache (km_slabs st s) = c \<and> unat s = 4096 * q \<and>
    unat x = 4096 * q + 32 + i * unat (object_size (km_caches st c)) \<and> x = slot s (object_size (km_caches st c)) i \<and>
    32 + Suc i * unat (object_size (km_caches st c)) \<le> 4096"
proof -
  let ?sz = "object_size (km_caches st c)"
  have ok: "cache_ok HHDM U st own c" using assms(1,2) by (simp add: slab_inv_def)
  obtain s i where s: "s \<in> set (cslabs (km_caches st c))" "i < slab_capacity ?sz" "x = slot s ?sz i"
    using assms(3) by (auto simp: in_cache_def in_slab_def Let_def)
  have p: "s mod 0x1000 = 0" "slab_cache (km_slabs st s) = c" "size_ok ?sz" using ok s(1) by (auto simp: cache_ok_def Let_def page_in_def)
  obtain k where k: "slot s ?sz i = s + k" "unat k = 32 + i * unat ?sz" "unat k + unat ?sz \<le> 4096" using slot_offset [OF p(3) s(2)] by blast
  have "unat k < 4096" using k(3) p(3) by (simp add: size_ok_def)
  then have "unat x = unat s + unat k" using page_plus(1) [OF p(1)] s(3) k(1) by simp
  moreover obtain q where "unat s = 4096 * q" using p(1) unat_mod_page [of s] by auto
  ultimately show ?thesis using s p(2) k(2,3) by (intro exI [of _ s] exI [of _ q] exI [of _ i]) simp
qed

lemma intervals_apart: "a + m \<le> b \<or> b + k \<le> a \<Longrightarrow> {a ..< a + m} \<inter> {b ..< b + (k :: nat)} = {}"
  by auto

lemma extents_disjoint:
  assumes inv: "slab_inv frames HHDM C st U n own" and c: "c \<in> C" "in_cache st c x" and d: "d \<in> C" "in_cache st d y" and ne: "x \<noteq> y"
  shows "extent st c x \<inter> extent st d y = {}"
proof -
  let ?m = "unat (object_size (km_caches st c))" and ?k = "unat (object_size (km_caches st d))"
  obtain s q i where x: "slab_cache (km_slabs st s) = c" "unat s = 4096 * q" "unat x = 4096 * q + 32 + i * ?m"
    "x = slot s (object_size (km_caches st c)) i" "32 + Suc i * ?m \<le> 4096" using in_cache_place [OF inv c] by blast
  obtain t r j where y: "slab_cache (km_slabs st t) = d" "unat t = 4096 * r" "unat y = 4096 * r + 32 + j * ?k"
    "y = slot t (object_size (km_caches st d)) j" "32 + Suc j * ?k \<le> 4096" using in_cache_place [OF inv d] by blast
  have "unat x + ?m \<le> unat y \<or> unat y + ?k \<le> unat x"
  proof (cases "s = t")
    case True
    then have e: "c = d" "q = r" using x y by auto
    then have "i \<noteq> j" using x(4) y(4) ne True by auto
    then have "Suc i \<le> j \<or> Suc j \<le> i" by auto
    then have "Suc i * ?m \<le> j * ?m \<or> Suc j * ?m \<le> i * ?m" by (metis mult_le_mono1)
    then show ?thesis using x(3) y(3) e by auto
  next
    case False
    then have "q \<noteq> r" using x(2) y(2) by (auto simp: word_unat_eq_iff)
    then show ?thesis using x(3,5) y(3,5) by auto
  qed
  then show ?thesis unfolding extent_def by (rule intervals_apart)
qed

text \<open>C7: an object taken from a cache is in nobody's hands: it is not among the objects in use, of this or
  another cache, and its bytes overlap none of theirs.  With a free page frame the allocation succeeds.\<close>

theorem kmem_alloc_cache_fresh:
  assumes "kmem_ok HHDM C st A n" "ca \<in> C" "core_ok core" "0 < n"
  shows "\<exists>st' obj n'. kmem_alloc_cache pmm_alloc_frame HHDM ca core st = Inr (st', obj) \<and> obj \<notin> A \<and>
    kmem_ok HHDM C st' (insert obj A) n' \<and> n \<le> n' + 1 \<and>
    (\<forall>c \<in> C. \<forall>x \<in> A. in_cache st' c x \<longrightarrow> extent st' c x \<inter> extent st' ca obj = {})"
proof -
  obtain st' obj n' where r: "kmem_alloc_cache pmm_alloc_frame HHDM ca core st = Inr (st', obj)" "obj \<notin> A"
    "kmem_ok HHDM C st' (insert obj A) n'" "n \<le> n' + 1" "in_cache st' ca obj" using kmem_ok_alloc [OF assms] by blast
  then obtain U own where inv: "slab_inv pmm_frames HHDM C st' U n' own" by (auto simp: kmem_ok_def kmem_inv_def)
  have "extent st' c x \<inter> extent st' ca obj = {}" if "c \<in> C" "x \<in> A" "in_cache st' c x" for c x
    using extents_disjoint [OF inv that(1,3) assms(2) r(5)] that(2) r(2) by auto
  then show ?thesis using r by blast
qed

text \<open>C8: a cache implements the abstract allocator of objects: any sequence of allocations and releases of
  live objects, in any order, succeeds while frames last and leaves the live objects pairwise
  distinct, with exactly those in use.\<close>

theorem kmem_cache_serves:
  assumes "kmem_ok HHDM {ca} st {} n" "length (filter (\<lambda>r. r = Get) rs) \<le> n"
  shows "\<exists>st' live n'. serve (kmem_alloc_cache pmm_alloc_frame HHDM ca None) (kmem_free_cache pmm_alloc_frame HHDM ca None) rs [] st =
      Inr (st', live) \<and> distinct live \<and> kmem_ok HHDM {ca} st' (set live) n'"
  using kmem_cache.serve_distinct [of HHDM ca st "[]" n rs] assms by simp

section \<open>A cache after its initialisation\<close>

lemma kmem_ok_boot:
  assumes "pmm_frames (km_al st) U n" "direct_map HHDM"
  shows "kmem_ok HHDM {} st {} n"
  unfolding kmem_ok_def kmem_inv_def slab_inv_def using assms by (intro exI [of _ U] exI [of _ "\<lambda>_. None"]) (simp add: in_use_def)

lemma kmem_ok_initialize:
  assumes "kmem_ok HHDM C st A n" "ca \<notin> C" "size_ok sz" "1088 \<le> n"
  shows "\<exists>st' n'. kmem_cache_intialize pmm_alloc_frame HHDM ca name sz st = Inr st' \<and> kmem_ok HHDM (insert ca C) st' A n' \<and>
    n \<le> n' + 1088 \<and> object_size (km_caches st' ca) = sz"
proof -
  obtain U own where inv: "kmem_inv pmm_frames HHDM C st U n own" "A = in_use own" using assms(1) by (auto simp: kmem_ok_def)
  then have "pmm_frames (km_al st) U n" "direct_map HHDM" by (auto simp: kmem_inv_def slab_inv_def)
  moreover have "34 * 32 \<le> n" using assms(4) by simp
  ultimately obtain st' U' n' own' where "kmem_cache_intialize pmm_alloc_frame HHDM ca name sz st = Inr st'"
    "kmem_inv pmm_frames HHDM (insert ca C) st' U' n' own'" "n \<le> n' + 34 * 32" "in_use own' = in_use own" "object_size (km_caches st' ca) = sz"
    using pmm.cache_init_inv [OF inv(1) _ _ assms(2,3)] by blast
  then show ?thesis using inv(2) unfolding kmem_ok_def by (intro exI [of _ st'] exI [of _ n']) auto
qed

section \<open>Size classes of the heap\<close>

lemma g_cache_sizes_nth: "i < 8 \<Longrightarrow> unat (g_cache_sizes ! i) = 2 ^ (i + 3)"
  by (simp add: g_cache_sizes_def less_Suc_eq numeral_eq_Suc) (elim disjE; simp)

lemma heap_order_class:
  assumes "sz \<le> 1024"
  shows "0 \<le> heap_order sz" "heap_order sz < 8" "sz \<le> g_cache_sizes ! nat (heap_order sz)"
    "i < nat (heap_order sz) \<Longrightarrow> g_cache_sizes ! i < sz"
proof -
  have "0 \<le> heap_order sz \<and> heap_order sz < 8 \<and> unat sz \<le> 2 ^ (nat (heap_order sz) + 3) \<and>
      (\<forall>i < nat (heap_order sz). 2 ^ (i + 3) < unat sz)"
  proof (cases "sz \<le> 8")
    case True
    then show ?thesis by (simp add: heap_order_def word_le_nat_alt)
  next
    case False
    define c where "c = clzll (sz - 1)"
    have u: "8 < unat sz" "unat sz \<le> 1024" using False assms by (simp_all add: word_le_nat_alt)
    then have "sz \<noteq> 0" by auto
    then have "unat (sz - 1) = unat sz - 1" by (rule unat_minus_one)
    moreover then have "sz - 1 \<noteq> 0" using u(1) by (auto simp: unat_eq_zero [symmetric])
    ultimately have w: "unat (sz - 1) = unat sz - 1" "sz - 1 \<noteq> 0" by simp_all
    from clzll_bounds [OF w(2)] have b: "2 ^ (63 - c) \<le> unat sz - 1" "unat sz - 1 < 2 ^ (64 - c)" by (simp_all add: w(1) c_def)
    have "(2 :: nat) ^ 3 < 2 ^ (64 - c)" using b(2) u(1) by simp
    then have "3 < 64 - c" by (simp only: power_strict_increasing_iff)
    moreover have "(2 :: nat) ^ (63 - c) < 2 ^ 10" using b(1) u by simp
    then have "63 - c < 10" by (simp only: power_strict_increasing_iff)
    ultimately have c: "c \<le> 60" "54 \<le> c" by auto
    then have o: "heap_order sz = 61 - int c" "nat (heap_order sz) + 3 = 64 - c" using False by (simp_all add: heap_order_def c_def)
    have "2 ^ (i + 3) < unat sz" if "i < nat (heap_order sz)" for i
    proof -
      have "(2 :: nat) ^ (i + 3) \<le> 2 ^ (63 - c)" using that o(2) by (intro power_increasing) auto
      then show ?thesis using b(1) u(1) by linarith
    qed
    moreover have "unat sz \<le> 2 ^ (64 - c)" using b(2) by linarith
    ultimately show ?thesis using c o by simp
  qed
  note r = this
  then show "0 \<le> heap_order sz" "heap_order sz < 8" by auto
  then have n: "nat (heap_order sz) < 8" by simp
  show "sz \<le> g_cache_sizes ! nat (heap_order sz)" using r g_cache_sizes_nth [OF n] by (simp add: word_le_nat_alt)
  show "g_cache_sizes ! i < sz" if "i < nat (heap_order sz)"
    using r that n g_cache_sizes_nth [of i] by (simp add: word_less_nat_alt)
qed

text \<open>\<^verbatim>\<open>heap_alloc\<close> of at most 1024 bytes takes an object of a valid cache, the smallest size class that is
  large enough.\<close>

theorem heap_alloc_class:
  assumes "sz \<le> 1024"
  shows "\<exists>i < 8. heap_alloc al HHDM G core sz st = kmem_alloc_cache al HHDM (G + of_nat i * SIZEOF_KMEM_CACHE) core st \<and>
    sz \<le> g_cache_sizes ! i \<and> (\<forall>j < i. g_cache_sizes ! j < sz)"
proof -
  note o = heap_order_class [OF assms]
  have "of_int (heap_order sz) = (of_nat (nat (heap_order sz)) :: u64)" using o(1) by simp
  then show ?thesis using assms o by (intro exI [of _ "nat (heap_order sz)"]) (simp add: heap_alloc_def g_caches_def)
qed

section \<open>Witnesses\<close>

definition memory_map_16m :: "memmap_entry list" where
  "memory_map_16m = [\<lparr>me_base = 0x100000, me_length = 0x1000000, me_usable = True\<rparr>]"

lemma memory_map_16m_frames:
  "\<exists>st U. pmm_init example_HHDM memory_map_16m = Some (Inr st) \<and> pmm_frames st U 4062"
proof -
  let ?e = "\<lparr>me_base = 0x100000, me_length = 0x1000000, me_usable = True\<rparr>"
  have m: "memmap_ok memory_map_16m" "usable memory_map_16m \<noteq> []"
    "find_blocks_entry memory_map_16m (me_end (last (usable memory_map_16m)) div ARCH_PAGE_GRAN) = Some ?e"
    "end_page (last (usable memory_map_16m)) = 4352"
    "(\<Union>e \<in> set (usable memory_map_16m). entry_pages ?e 4352 e) = {290..<4352}"
    by (simp_all add: memory_map_16m_def memmap_ok_def usable_def entry_ok_def end_page_def
      first_page_def find_blocks_entry_def me_end_def ARCH_PAGE_GRAN_def ARCH_PAGE_SIZE_4K_def
      SIZEOF_PMM_BLOCK_def entry_pages_def array_pages_def)
  have "me_base ?e + example_HHDM \<noteq> 0" by (simp add: example_HHDM_def)
  from pmm_init_ok [OF m(1,2,3) this, unfolded m(4,5)] obtain st B where
    st: "pmm_init example_HHDM memory_map_16m = Some (Inr st)" "pmm_ok (separated memory_map_16m) st {290..<4352} B"
    and c: "unat (pm_count st) = 4352" by blast
  from c have "pmm_frames st {of_nat (4096 * p) | p. \<exists>(s, k) \<in> B. p \<in> pages s k} 4062"
    by (intro pmm_framesI [OF st(2)]) simp_all
  then show ?thesis using st(1) by blast
qed

definition kmem_boot :: "pmm_t \<Rightarrow> pmm_t kmem" where
  "kmem_boot al = \<lparr>km_al = al, km_int = True, km_words = \<lambda>_. 0, km_slabs = \<lambda>_. \<lparr>slab_cache = 0, freelist = 0\<rparr>,
     km_mags = \<lambda>_. \<lparr>mag_count = 0, mag_objects = \<lambda>_. 0\<rparr>,
     km_caches = \<lambda>_. \<lparr>cache_name = [], object_size = 0, slabs_full = [], slabs_partial = [], slabs_lock = SPINLOCK_INIT,
       magazines_full = [], magazines_empty = [], magazines_lock = SPINLOCK_INIT, cpu_cache = []\<rparr>\<rparr>"

lemma example_cache:
  "\<exists>pmm st n. pmm_init example_HHDM memory_map_16m = Some (Inr pmm) \<and>
     kmem_cache_intialize pmm_alloc_frame example_HHDM 0xFFFFFFFF80010000 ''seg'' 64 (kmem_boot pmm) = Inr st \<and>
     kmem_ok example_HHDM {0xFFFFFFFF80010000} st {} n \<and> 2974 \<le> n"
proof -
  obtain pmm U where p: "pmm_init example_HHDM memory_map_16m = Some (Inr pmm)" "pmm_frames pmm U 4062" using memory_map_16m_frames by blast
  have "direct_map example_HHDM" by (simp add: direct_map_def example_HHDM_def)
  then have "kmem_ok example_HHDM {} (kmem_boot pmm) {} 4062" using p(2) kmem_ok_boot [of "kmem_boot pmm"] by (simp add: kmem_boot_def)
  from kmem_ok_initialize [OF this, of "0xFFFFFFFF80010000" 64 "''seg''"] p(1) show ?thesis by (fastforce simp: size_ok_def)
qed

theorem kmem_alloc_cache_fresh_witness:
  "\<exists>st n st' x. kmem_ok example_HHDM {0xFFFFFFFF80010000} st {} n \<and>
     kmem_alloc_cache pmm_alloc_frame example_HHDM 0xFFFFFFFF80010000 (Some 3) st = Inr (st', x)"
proof -
  obtain st n where st: "kmem_ok example_HHDM {0xFFFFFFFF80010000} st {} n" "2974 \<le> n" using example_cache by blast
  then have "0 < n" "core_ok (Some 3)" by (simp_all add: core_ok_def MAX_CPUS_def)
  with kmem_alloc_cache_fresh [OF st(1), of "0xFFFFFFFF80010000" "Some 3"] st(1) show ?thesis by blast
qed

theorem kmem_cache_serves_witness:
  "\<exists>st n st' live. kmem_ok example_HHDM {0xFFFFFFFF80010000} st {} n \<and>
     serve (kmem_alloc_cache pmm_alloc_frame example_HHDM 0xFFFFFFFF80010000 None)
       (kmem_free_cache pmm_alloc_frame example_HHDM 0xFFFFFFFF80010000 None) [Get, Get, Put 0, Get] [] st = Inr (st', live) \<and> distinct live"
proof -
  obtain st n where st: "kmem_ok example_HHDM {0xFFFFFFFF80010000} st {} n" "2974 \<le> n" using example_cache by blast
  then have "length (filter (\<lambda>r. r = Get) [Get, Get, Put 0, Get]) \<le> n" by simp
  from kmem_cache_serves [OF st(1) this] st(1) show ?thesis by blast
qed

text \<open>When the loaded magazine is full and the previous one is not empty, the release hands the loaded
  magazine to the depot, takes it back at once as the new empty magazine and forgets its objects.\<close>

lemma kmem_free_cache_drops:
  assumes "kmem_cpu ca core st = Inr (i, cc)" "i < length (cpu_cache (km_caches st ca))"
    "mag_count (km_mags st (loaded cc)) = MAG_SIZE" "mag_count (km_mags st (previous cc)) \<noteq> 0" "idle (km_caches st ca)"
  shows "\<exists>st'. kmem_free_cache al HHDM ca core obj st = Inr st' \<and>
    cpu_cache (km_caches st' ca) ! i = \<lparr>loaded = loaded cc, previous = loaded cc\<rparr> \<and> mag_count (km_mags st' (loaded cc)) = 1"
  using assms by (auto simp: kmem_free_cache_def lock_magazines_def unlock_magazines_def spinlock_acquire_def spinlock_release_def
      idle_def set_cpu_def mag_push_def mag_store_def MAG_SIZE_def Let_def)

end
