(* ===== verification/Run.thy ===== *)
theory Run
  imports Prelude
begin

text \<open>
  Computations that may fault or not end: \<open>None\<close> is a loop that runs forever, \<open>Some (Inl e)\<close> the
  fault \<open>e\<close>.  The error codes of \<^verbatim>\<open>kernel/src/lib/errno.h\<close> are integers.
\<close>

type_synonym 'a run = "'a res option"

definition ret :: "'a \<Rightarrow> 'a run" where
  "ret x = Some (Inr x)"

definition fail :: "fault \<Rightarrow> 'a run" where
  "fail e = Some (Inl e)"

definition seq :: "'a run \<Rightarrow> ('a \<Rightarrow> 'b run) \<Rightarrow> 'b run" where
  "seq m f = Option.bind m (\<lambda>r. case r of Inl e \<Rightarrow> Some (Inl e) | Inr x \<Rightarrow> f x)"

text \<open>A computation that ends, one that may not but never faults, and a check.\<close>

definition now :: "'a res \<Rightarrow> 'a run" where
  "now r = Some r"

definition ends :: "'a option \<Rightarrow> 'a run" where
  "ends r = map_option Inr r"

definition check :: "bool \<Rightarrow> fault \<Rightarrow> unit run" where
  "check b e = (if b then ret () else fail e)"

lemma seq_simps [simp]:
  "seq (ret x) f = f x" "seq (fail e) f = fail e" "seq None f = None" "seq (Some (Inr x)) f = f x" "seq (Some (Inl e)) f = Some (Inl e)"
  "seq (now (Inr x)) f = f x" "seq (now (Inl e)) f = fail e" "seq (ends (Some x)) f = f x" "seq (ends None) f = None"
  by (simp_all add: seq_def ret_def fail_def now_def ends_def)

lemma check_simps [simp]: "check True e = ret ()" "check False e = fail e"
  by (simp_all add: check_def)

lemma ret_inject [simp]: "ret x = ret y \<longleftrightarrow> x = y" "Some (Inr x) = ret y \<longleftrightarrow> x = y" "ret x \<noteq> fail e" "ret x \<noteq> None" "fail e \<noteq> None"
  by (auto simp: ret_def fail_def)

lemma eq_ret [simp]: "now r = ret x \<longleftrightarrow> r = Inr x" "ends o1 = ret x \<longleftrightarrow> o1 = Some x" "fail e \<noteq> ret x" "None \<noteq> ret x"
  by (auto simp: now_def ends_def ret_def fail_def)

lemma seq_eq_ret: "seq m f = ret y \<longleftrightarrow> (\<exists>x. m = ret x \<and> f x = ret y)"
  by (auto simp: seq_def ret_def split: option.splits sum.splits bind_splits)

lemma seq_mono [partial_function_mono]:
  assumes "mono_option B" "\<And>y. mono_option (\<lambda>f. C y f)"
  shows "mono_option (\<lambda>f. seq (B f) (\<lambda>y. C y f))"
  unfolding seq_def
proof (rule bind_mono [OF assms(1)])
  show "mono_option (\<lambda>f. case r of Inl e \<Rightarrow> Some (Inl e) | Inr x \<Rightarrow> C x f)" for r
    using assms(2) by (cases r) (simp_all add: option.const_mono)
qed

text \<open>A loop over a list.\<close>

fun run_each :: "('s \<Rightarrow> 'a \<Rightarrow> 's run) \<Rightarrow> 'a list \<Rightarrow> 's \<Rightarrow> 's run" where
  "run_each f [] s = ret s"
| "run_each f (x # xs) s = seq (f s x) (run_each f xs)"

end
