(* ===== verification/Errno.thy ===== *)
theory Errno
  imports Run
begin

text \<open>
  The error codes of \<^verbatim>\<open>kernel/src/lib/errno.h\<close>.  A function returns a code or its negation as an
  \<^verbatim>\<open>int\<close>.
\<close>

definition EOK :: int where "EOK = 0"
definition EACCES :: int where "EACCES = 2"
definition EAGAIN :: int where "EAGAIN = 7"
definition EBADF :: int where "EBADF = 10"
definition EINVAL :: int where "EINVAL = 40"
definition EMFILE :: int where "EMFILE = 60"
definition ENFILE :: int where "ENFILE = 69"
definition ENOENT :: int where "ENOENT = 73"
definition ENOMEM :: int where "ENOMEM = 79"
definition ENOTDIR :: int where "ENOTDIR = 91"
definition EOPNOTSUPP :: int where "EOPNOTSUPP = 99"
definition ENOTSOCK :: int where "ENOTSOCK = 95"
definition ENOTCONN :: int where "ENOTCONN = 90"
definition ENOBUFS :: int where "ENOBUFS = 70"
definition EADDRINUSE :: int where "EADDRINUSE = 3"
definition EAFNOSUPPORT :: int where "EAFNOSUPPORT = 6"
definition ECONNREFUSED :: int where "ECONNREFUSED = 23"
definition EFAULT :: int where "EFAULT = 31"
definition EISCONN :: int where "EISCONN = 42"
definition EPROTONOSUPPORT :: int where "EPROTONOSUPPORT = 106"
definition ENODEV :: int where "ENODEV = 72"
definition EIO :: int where "EIO = 41"
definition ENOSYS :: int where "ENOSYS = 88"
definition EPIPE :: int where "EPIPE = 104"
definition EPROTOTYPE :: int where "EPROTOTYPE = 107"
definition EADDRNOTAVAIL :: int where "EADDRNOTAVAIL = 4"
definition ENOSPC :: int where "ENOSPC = 85"
definition ENOTSUP :: int where "ENOTSUP = EOPNOTSUPP"

text \<open>All codes with their names; the names defined as another name are aliases.\<close>

definition errno_table :: "(string \<times> int) list" where
  "errno_table = [
    (''EOK'', 0), (''E2BIG'', 1), (''EACCES'', 2), (''EADDRINUSE'', 3), (''EADDRNOTAVAIL'', 4), (''EADV'', 5),
    (''EAFNOSUPPORT'', 6), (''EAGAIN'', 7), (''EALREADY'', 8), (''EBADE'', 9), (''EBADF'', 10), (''EBADFD'', 11),
    (''EBADMSG'', 12), (''EBADR'', 13), (''EBADRQC'', 14), (''EBADSLT'', 15), (''EBFONT'', 16), (''EBUSY'', 17),
    (''ECANCELED'', 18), (''ECHILD'', 19), (''ECHRNG'', 20), (''ECOMM'', 21), (''ECONNABORTED'', 22),
    (''ECONNREFUSED'', 23), (''ECONNRESET'', 24), (''EDEADLK'', 25), (''EDESTADDRREQ'', 26), (''EDOM'', 27),
    (''EDOTDOT'', 28), (''EDQUOT'', 29), (''EEXIST'', 30), (''EFAULT'', 31), (''EFBIG'', 32), (''EHOSTDOWN'', 33),
    (''EHOSTUNREACH'', 34), (''EHWPOISON'', 35), (''EIDRM'', 36), (''EILSEQ'', 37), (''EINPROGRESS'', 38),
    (''EINTR'', 39), (''EINVAL'', 40), (''EIO'', 41), (''EISCONN'', 42), (''EISDIR'', 43), (''EISNAM'', 44),
    (''EKEYEXPIRED'', 45), (''EKEYREJECTED'', 46), (''EKEYREVOKED'', 47), (''EL2HLT'', 48), (''EL2NSYNC'', 49),
    (''EL3HLT'', 50), (''EL3RST'', 51), (''ELIBACC'', 52), (''ELIBBAD'', 53), (''ELIBEXEC'', 54), (''ELIBMAX'', 55),
    (''ELIBSCN'', 56), (''ELNRNG'', 57), (''ELOOP'', 58), (''EMEDIUMTYPE'', 59), (''EMFILE'', 60), (''EMLINK'', 61),
    (''EMSGSIZE'', 62), (''EMULTIHOP'', 63), (''ENAMETOOLONG'', 64), (''ENAVAIL'', 65), (''ENETDOWN'', 66),
    (''ENETRESET'', 67), (''ENETUNREACH'', 68), (''ENFILE'', 69), (''ENOBUFS'', 70), (''ENODATA'', 71),
    (''ENODEV'', 72), (''ENOENT'', 73), (''ENOEXEC'', 74), (''ENOKEY'', 75), (''ENOLCK'', 76), (''ENOLINK'', 77),
    (''ENOMEDIUM'', 78), (''ENOMEM'', 79), (''ENOMSG'', 80), (''ENONET'', 81), (''ENOPKG'', 82),
    (''ENOPROTOOPT'', 83), (''ENOANO'', 84), (''ENOSPC'', 85), (''ENOSR'', 86), (''ENOSTR'', 87), (''ENOSYS'', 88),
    (''ENOTBLK'', 89), (''ENOTCONN'', 90), (''ENOTDIR'', 91), (''ENOTEMPTY'', 92), (''ENOTNAM'', 93),
    (''ENOTRECOVERABLE'', 94), (''ENOTSOCK'', 95), (''ENOTTY'', 96), (''ENOTUNIQ'', 97), (''ENXIO'', 98),
    (''EOPNOTSUPP'', 99), (''EOVERFLOW'', 100), (''EOWNERDEAD'', 101), (''EPERM'', 102), (''EPFNOSUPPORT'', 103),
    (''EPIPE'', 104), (''EPROTO'', 105), (''EPROTONOSUPPORT'', 106), (''EPROTOTYPE'', 107), (''ERANGE'', 108),
    (''EREMCHG'', 109), (''EREMOTE'', 110), (''EREMOTEIO'', 111), (''ERESTART'', 112), (''ERFKILL'', 113),
    (''EROFS'', 114), (''ESHUTDOWN'', 115), (''ESOCKTNOSUPPORT'', 116), (''ESPIPE'', 117), (''ESRCH'', 118),
    (''ESRMNT'', 119), (''ESTRPIPE'', 120), (''ESTALE'', 121), (''ETIME'', 122), (''ETIMEDOUT'', 123),
    (''ETOOMANYREFS'', 124), (''ETXTBSY'', 125), (''EUCLEAN'', 126), (''EUNATCH'', 127), (''EUSERS'', 128),
    (''EXDEV'', 129), (''EXFULL'', 130)]"

definition errno_aliases :: "(string \<times> string) list" where
  "errno_aliases = [(''EDEADLOCK'', ''EDEADLK''), (''ENOTSUP'', ''EOPNOTSUPP''), (''EWOULDBLOCK'', ''EAGAIN'')]"

lemma errno_codes: "map snd errno_table = map int [0..<length errno_table]"
  by code_simp

lemma errno_aliases_defined: "\<forall>(a, n) \<in> set errno_aliases. n \<in> fst ` set errno_table \<and> a \<notin> fst ` set errno_table"
  by code_simp

end
