(* ===== verification/Fs.thy ===== *)
theory Fs
  imports Errno Kstring_Correct Spinlock
begin

text \<open>
  Vnodes and the three file systems: \<^verbatim>\<open>kernel/src/fs/tmpfs.c\<close>, \<^verbatim>\<open>initrd.c\<close> and \<^verbatim>\<open>devfs.c\<close>.  A vnode is a
  structure at an address and its name, the first field, is the string at that address.  The
  state is a store with the vnodes and, for each file system, the part of its node that follows
  the vnode; a cast to a node that is not there is an access out of bounds.
\<close>

section \<open>Vnodes\<close>

definition VFS_MAX_NAME_LEN :: u64 where "VFS_MAX_NAME_LEN = 64"

datatype vnode_type_t = VNODE_REG | VNODE_DIR | VNODE_FIFO | VNODE_CHAR | VNODE_BLOCK | VNODE_SOCKET

text \<open>The operation tables \<^verbatim>\<open>tmpfs_ops\<close>, \<^verbatim>\<open>ustar_file_ops\<close> and \<^verbatim>\<open>devfs_ops\<close>; \<open>NoOps\<close> is a null pointer.\<close>

datatype vnode_ops_t = TmpfsOps | UstarOps | DevfsOps | NoOps

text \<open>A page of the page cache: the address of the structure and the physical page.\<close>

record vnode_page_t =
  vp_self :: uptr
  page_addr :: uptr

text \<open>The page cache is the red-black tree read in order: keys ascending.\<close>

record vnode_t =
  vn_type :: vnode_type_t
  vn_perm :: u32
  vn_uid :: u32
  vn_gid :: u32
  vn_size :: u64
  vn_ctime :: u64
  vn_mtime :: u64
  vn_atime :: u64
  vn_ops :: vnode_ops_t
  vn_mp_data :: uptr
  vn_cached :: bool
  page_cache :: "(u64 \<times> vnode_page_t) list"
  vn_slock :: spinlock_t
  vn_ref_count :: u64

definition SIZEOF_VNODE :: u64 where "SIZEOF_VNODE = 168"

record tmpfs_node_t =
  tn_children :: "uptr list"
  tn_pages :: "uptr list"

record initrd_node_t =
  in_children :: "uptr list"
  in_data :: uptr

record devfs_node_t =
  dn_children :: "uptr list"

text \<open>A node of the trie of mount points; its component is the string at its address.\<close>

record trie_node_t =
  root_vn :: uptr
  trie_children :: "uptr list"

text \<open>What the code calls: the heap and the page frames.\<close>

record 's fs_env =
  fe_HHDM :: uptr
  fe_heap_alloc :: "u64 \<Rightarrow> 's \<Rightarrow> ('s \<times> uptr) res"
  fe_heap_free :: "uptr \<Rightarrow> 's \<Rightarrow> 's res"
  fe_page_alloc :: "'s \<Rightarrow> ('s \<times> uptr) res"
  fe_page_free :: "uptr \<Rightarrow> 's \<Rightarrow> 's res"

record 's fs =
  fs_al :: 's
  fs_int :: bool
  fs_bytes :: bytes
  fs_vnodes :: "uptr \<Rightarrow> vnode_t"
  fs_tmpfs :: "uptr \<rightharpoonup> tmpfs_node_t"
  fs_initrd :: "uptr \<rightharpoonup> initrd_node_t"
  fs_devfs :: "uptr \<rightharpoonup> devfs_node_t"
  fs_trie :: "uptr \<Rightarrow> trie_node_t"

definition fs_alloc :: "'s fs_env \<Rightarrow> u64 \<Rightarrow> 's fs \<Rightarrow> ('s fs \<times> uptr) res" where
  "fs_alloc env sz st = rbind (fe_heap_alloc env sz (fs_al st)) (\<lambda>(a, p). Inr (st\<lparr>fs_al := a\<rparr>, p))"

definition fs_free :: "'s fs_env \<Rightarrow> uptr \<Rightarrow> 's fs \<Rightarrow> 's fs res" where
  "fs_free env p st = rbind (fe_heap_free env p (fs_al st)) (\<lambda>a. Inr (st\<lparr>fs_al := a\<rparr>))"

definition fs_page :: "'s fs_env \<Rightarrow> 's fs \<Rightarrow> ('s fs \<times> uptr) res" where
  "fs_page env st = rbind (fe_page_alloc env (fs_al st)) (\<lambda>(a, p). Inr (st\<lparr>fs_al := a\<rparr>, p))"

definition set_vnode :: "uptr \<Rightarrow> vnode_t \<Rightarrow> 's fs \<Rightarrow> 's fs" where
  "set_vnode p vn st = st\<lparr>fs_vnodes := (fs_vnodes st)(p := vn)\<rparr>"

definition set_bytes_of :: "bytes \<Rightarrow> 's fs \<Rightarrow> 's fs" where
  "set_bytes_of m st = st\<lparr>fs_bytes := m\<rparr>"

definition VN_HOLD :: "uptr \<Rightarrow> 's fs \<Rightarrow> 's fs res" where
  "VN_HOLD vn st =
     rbind (spinlock_acquire (fs_int st) (vn_slock (fs_vnodes st vn))) (\<lambda>(i, l).
     let v = fs_vnodes st vn; (i2, l2) = spinlock_release i l
     in Inr (set_vnode vn (v\<lparr>vn_ref_count := vn_ref_count v + 1, vn_slock := l2\<rparr>) (st\<lparr>fs_int := i2\<rparr>)))"

text \<open>A vnode as the file systems initialise it.\<close>

definition new_vnode :: "vnode_type_t \<Rightarrow> vnode_ops_t \<Rightarrow> u64 \<Rightarrow> vnode_t" where
  "new_vnode t ops refs = \<lparr>vn_type = t, vn_perm = 0, vn_uid = 0, vn_gid = 0, vn_size = 0, vn_ctime = 0, vn_mtime = 0,
     vn_atime = 0, vn_ops = ops, vn_mp_data = 0, vn_cached = False, page_cache = [], vn_slock = SPINLOCK_INIT, vn_ref_count = refs\<rparr>"

text \<open>The name of a fresh node: 64 bytes cleared by the initialiser, then \<^verbatim>\<open>strcpy(vn->name, src)\<close>.\<close>

definition name_copy :: "bytes \<Rightarrow> uptr \<Rightarrow> uptr \<Rightarrow> bytes run" where
  "name_copy m vn src =
     (let m0 = memset m vn 0 VFS_MAX_NAME_LEN
      in seq (ends (strlen m0 src)) (\<lambda>n. if n < VFS_MAX_NAME_LEN then ends (strcpy m0 vn src) else fail OutOfBounds))"

section \<open>Directories\<close>

text \<open>The three file systems search the children and hand them out in the same way.\<close>

fun find_named :: "bytes \<Rightarrow> uptr list \<Rightarrow> uptr \<Rightarrow> uptr option option" where
  "find_named m [] name = Some None"
| "find_named m (c # cs) name =
     (case strcmp m c name of
        None \<Rightarrow> None
      | Some r \<Rightarrow> if r = 0 then Some (Some c) else find_named m cs name)"

definition dir_open :: "uptr list option \<Rightarrow> uptr \<Rightarrow> uptr \<Rightarrow> 's fs \<Rightarrow> ('s fs \<times> int \<times> uptr) run" where
  "dir_open children self name st =
     seq (check (name \<noteq> 0) AssertFailed) (\<lambda>_.
     if vn_type (fs_vnodes st self) \<noteq> VNODE_DIR then ret (st, ENOTDIR, 0)
     else case children of
       None \<Rightarrow> fail OutOfBounds
     | Some cs \<Rightarrow>
         seq (ends (find_named (fs_bytes st) cs name)) (\<lambda>found.
         case found of
           None \<Rightarrow> ret (st, ENOENT, 0)
         | Some c \<Rightarrow> seq (now (VN_HOLD c st)) (\<lambda>st1. ret (st1, EOK, c))))"

text \<open>
  The \<^verbatim>\<open>hint\<close> of a listing is 0 at the start, \<^verbatim>\<open>0xFFFF\<close> at the end and otherwise the address of the list
  node (\<open>off\<close> bytes into the node) last handed out.
\<close>

fun next_child :: "uptr list \<Rightarrow> uptr \<Rightarrow> uptr option option" where
  "next_child [] c = None"
| "next_child (x # xs) c = (if x = c then Some (case xs of [] \<Rightarrow> None | y # _ \<Rightarrow> Some y) else next_child xs c)"

definition dir_list :: "uptr list option \<Rightarrow> u64 \<Rightarrow> uptr \<Rightarrow> u64 \<Rightarrow> 's fs \<Rightarrow> (int \<times> u64 \<times> uptr) res" where
  "dir_list children off self hint st =
     (if vn_type (fs_vnodes st self) \<noteq> VNODE_DIR then Inr (ENOTDIR, hint, 0)
      else if hint = 0xFFFF then Inr (EOK, hint, 0)
      else case children of
        None \<Rightarrow> Inl OutOfBounds
      | Some cs \<Rightarrow>
          rbind (if hint = 0 then Inr (case cs of [] \<Rightarrow> None | c # _ \<Rightarrow> Some c)
                 else case next_child cs (hint - off) of None \<Rightarrow> Inl Undefined | Some n \<Rightarrow> Inr n) (\<lambda>nxt.
          case nxt of
            Some c \<Rightarrow> Inr (EOK, c + off, c)
          | None \<Rightarrow> Inr (EOK, 0xFFFF, 0)))"

section \<open>tmpfs\<close>

definition SIZEOF_TMPFS_NODE :: u64 where "SIZEOF_TMPFS_NODE = 232"
definition TMPFS_LIST_NODE :: u64 where "TMPFS_LIST_NODE = 216"
definition SIZEOF_TMPFS_PAGE :: u64 where "SIZEOF_TMPFS_PAGE = 24"

definition tmpfs_open :: "uptr \<Rightarrow> uptr \<Rightarrow> 's fs \<Rightarrow> ('s fs \<times> int \<times> uptr) run" where
  "tmpfs_open self name st = dir_open (map_option tn_children (fs_tmpfs st self)) self name st"

definition tmpfs_close :: "'s fs_env \<Rightarrow> uptr \<Rightarrow> 's fs \<Rightarrow> ('s fs \<times> int) res" where
  "tmpfs_close env self st =
     rbind (assert_c (vn_ref_count (fs_vnodes st self) = 0)) (\<lambda>_.
     rbind (fs_free env self st) (\<lambda>st1. Inr (st1, EOK)))"

text \<open>The loop over the pages: the byte memory, \<^verbatim>\<open>page_start\<close> and \<^verbatim>\<open>copied\<close> are its state.\<close>

fun tmpfs_read_pages :: "u64 \<Rightarrow> uptr \<Rightarrow> u64 \<Rightarrow> uptr list \<Rightarrow> bytes \<Rightarrow> u64 \<Rightarrow> u64 \<Rightarrow> bytes \<times> u64" where
  "tmpfs_read_pages offset buffer count [] m page_start copied = (m, copied)"
| "tmpfs_read_pages offset buffer count (data # pages) m page_start copied =
     (if page_start \<le> offset \<and> page_start < offset + count then
        let page_offset = offset - page_start;
            bytes_to_copy = MIN_c (ARCH_PAGE_GRAN - page_offset) (count - copied)
        in tmpfs_read_pages offset buffer count pages (memcpy m (buffer + copied) (data + page_offset) bytes_to_copy)
             (page_start + ARCH_PAGE_GRAN) (copied + bytes_to_copy)
      else tmpfs_read_pages offset buffer count pages m (page_start + ARCH_PAGE_GRAN) copied)"

definition tmpfs_read :: "uptr \<Rightarrow> u64 \<Rightarrow> uptr \<Rightarrow> u64 \<Rightarrow> 's fs \<Rightarrow> ('s fs \<times> int \<times> u64) res" where
  "tmpfs_read self offset buffer count st =
     rbind (assert_c (buffer \<noteq> 0)) (\<lambda>_.
     case fs_tmpfs st self of
       None \<Rightarrow> Inl OutOfBounds
     | Some node \<Rightarrow>
         let (m, copied) = tmpfs_read_pages offset buffer count (tn_pages node) (fs_bytes st) 0 0
         in Inr (set_bytes_of m st, EOK, copied))"

definition tmpfs_add_page :: "'s fs_env \<Rightarrow> uptr \<Rightarrow> 's fs \<Rightarrow> 's fs res" where
  "tmpfs_add_page env self st =
     rbind (fs_alloc env SIZEOF_TMPFS_PAGE st) (\<lambda>(st1, page).
     rbind (fs_page env st1) (\<lambda>(st2, f).
     rbind (deref (fs_tmpfs st2 self)) (\<lambda>node.
     Inr (st2\<lparr>fs_tmpfs := (fs_tmpfs st2)(self \<mapsto> node\<lparr>tn_pages := tn_pages node @ [f + fe_HHDM env]\<rparr>)\<rparr>))))"

fun tmpfs_write_pages :: "u64 \<Rightarrow> uptr \<Rightarrow> u64 \<Rightarrow> uptr list \<Rightarrow> bytes \<Rightarrow> u64 \<Rightarrow> u64 \<Rightarrow> bytes \<times> u64" where
  "tmpfs_write_pages offset buffer count [] m page_start copied = (m, copied)"
| "tmpfs_write_pages offset buffer count (data # pages) m page_start copied =
     (if page_start \<le> offset \<and> page_start < offset + count then
        let page_offset = offset - page_start;
            bytes_to_copy = MIN_c (ARCH_PAGE_GRAN - page_offset) (count - copied)
        in tmpfs_write_pages offset buffer count pages (memcpy m (data + page_offset) (buffer + copied) bytes_to_copy)
             (page_start + ARCH_PAGE_GRAN) (copied + bytes_to_copy)
      else tmpfs_write_pages offset buffer count pages m (page_start + ARCH_PAGE_GRAN) copied)"

definition tmpfs_write :: "'s fs_env \<Rightarrow> uptr \<Rightarrow> u64 \<Rightarrow> uptr \<Rightarrow> u64 \<Rightarrow> 's fs \<Rightarrow> ('s fs \<times> int \<times> u64) res" where
  "tmpfs_write env self offset buffer count st =
     rbind (assert_c (buffer \<noteq> 0)) (\<lambda>_.
     if fs_tmpfs st self = None then Inl OutOfBounds
     else
       let needed_page_count = CEIL (offset + count) ARCH_PAGE_GRAN div ARCH_PAGE_GRAN;
           file_page_count = CEIL (vn_size (fs_vnodes st self)) ARCH_PAGE_GRAN div ARCH_PAGE_GRAN
       in rbind (if file_page_count < needed_page_count
                 then for_each (\<lambda>s _. tmpfs_add_page env self s) [0..<unat (needed_page_count - file_page_count)] st
                 else Inr st) (\<lambda>st1.
          rbind (deref (fs_tmpfs st1 self)) (\<lambda>node.
          let (m, copied) = tmpfs_write_pages offset buffer count (tn_pages node) (fs_bytes st1) 0 0;
              st2 = set_bytes_of m st1;
              vn = fs_vnodes st2 self;
              st3 = (if vn_size vn < offset + copied then set_vnode self (vn\<lparr>vn_size := offset + copied\<rparr>) st2 else st2)
          in Inr (st3, EOK, copied))))"

definition tmpfs_list :: "uptr \<Rightarrow> u64 \<Rightarrow> 's fs \<Rightarrow> (int \<times> u64 \<times> uptr) res" where
  "tmpfs_list self hint st = dir_list (map_option tn_children (fs_tmpfs st self)) TMPFS_LIST_NODE self hint st"

definition tmpfs_create :: "'s fs_env \<Rightarrow> uptr \<Rightarrow> uptr \<Rightarrow> vnode_type_t \<Rightarrow> 's fs \<Rightarrow> ('s fs \<times> int \<times> uptr) run" where
  "tmpfs_create env self name t st =
     seq (check (name \<noteq> 0) AssertFailed) (\<lambda>_.
     seq (now (fs_alloc env SIZEOF_TMPFS_NODE st)) (\<lambda>(st1, child).
     let st2 = set_vnode child (new_vnode t TmpfsOps 1)
                 (st1\<lparr>fs_tmpfs := (fs_tmpfs st1)(child \<mapsto> \<lparr>tn_children = [], tn_pages = []\<rparr>)\<rparr>)
     in seq (name_copy (fs_bytes st2) child name) (\<lambda>m.
        case fs_tmpfs st2 self of
          None \<Rightarrow> fail OutOfBounds
        | Some parent \<Rightarrow>
            ret (set_bytes_of m st2\<lparr>fs_tmpfs := (fs_tmpfs st2)(self \<mapsto> parent\<lparr>tn_children := tn_children parent @ [child]\<rparr>)\<rparr>,
                 EOK, child))))"

definition tmpfs_ioctl :: "uptr \<Rightarrow> u64 \<Rightarrow> uptr \<Rightarrow> 's fs \<Rightarrow> int" where
  "tmpfs_ioctl self request args st = ENOTSUP"

definition tmpfs_probe :: "uptr \<Rightarrow> bool" where
  "tmpfs_probe blk_dev \<longleftrightarrow> blk_dev = 0"

text \<open>The root is allocated as a plain vnode: the fields of a tmpfs node are not there.\<close>

definition tmpfs_get_root_vnode :: "'s fs_env \<Rightarrow> uptr \<Rightarrow> 's fs \<Rightarrow> ('s fs \<times> bool \<times> uptr) res" where
  "tmpfs_get_root_vnode env blk_dev st =
     rbind (fs_alloc env SIZEOF_VNODE st) (\<lambda>(st1, root).
     Inr (set_vnode root (new_vnode VNODE_DIR TmpfsOps 1) (st1\<lparr>fs_tmpfs := (fs_tmpfs st1)(root := None)\<rparr>), True, root))"

section \<open>The initial ramdisk\<close>

definition SIZEOF_INITRD_NODE :: u64 where "SIZEOF_INITRD_NODE = 216"
definition INITRD_LIST_NODE :: u64 where "INITRD_LIST_NODE = 200"

definition initrd_open :: "uptr \<Rightarrow> uptr \<Rightarrow> 's fs \<Rightarrow> ('s fs \<times> int \<times> uptr) run" where
  "initrd_open self name st = dir_open (map_option in_children (fs_initrd st self)) self name st"

text \<open>The size and the counter of the loop are 32 bits wide, so the loop ends only if the count is below \<open>2\<^sup>3\<^sup>2\<close>.\<close>

definition initrd_read :: "uptr \<Rightarrow> u64 \<Rightarrow> uptr \<Rightarrow> u64 \<Rightarrow> 's fs \<Rightarrow> ('s fs \<times> int \<times> u64) run" where
  "initrd_read self offset buffer sz st =
     (case fs_initrd st self of
        None \<Rightarrow> fail OutOfBounds
      | Some node \<Rightarrow>
          let file_content_size = ucast (ucast (vn_size (fs_vnodes st self)) :: u32) :: u64
          in if file_content_size \<le> offset then ret (st, EOK, 0)
             else
               let n = (if file_content_size \<le> offset + sz then file_content_size - offset else sz)
               in if n < 0x100000000
                  then ret (set_bytes_of (memcpy (fs_bytes st) buffer (in_data node + offset) n) st, EOK, n)
                  else None)"

definition initrd_list :: "uptr \<Rightarrow> u64 \<Rightarrow> 's fs \<Rightarrow> (int \<times> u64 \<times> uptr) res" where
  "initrd_list self hint st = dir_list (map_option in_children (fs_initrd st self)) INITRD_LIST_NODE self hint st"

text \<open>The archive: a header of 512 bytes per entry, the fields at the offsets below.\<close>

definition USTAR_SIZE :: u64 where "USTAR_SIZE = 124"
definition USTAR_TYPE :: u64 where "USTAR_TYPE = 156"
definition USTAR_MAGIC_OFF :: u64 where "USTAR_MAGIC_OFF = 257"

definition USTAR_REG :: u8 where "USTAR_REG = 48"
definition USTAR_CHAR :: u8 where "USTAR_CHAR = 51"
definition USTAR_BLOCK :: u8 where "USTAR_BLOCK = 52"
definition USTAR_DIR :: u8 where "USTAR_DIR = 53"
definition USTAR_FIFO :: u8 where "USTAR_FIFO = 54"

fun ustar_digits :: "bytes \<Rightarrow> uptr \<Rightarrow> nat \<Rightarrow> u64 \<Rightarrow> u64" where
  "ustar_digits m c 0 n = n"
| "ustar_digits m c (Suc k) n =
     (if m c = 0 then n else ustar_digits m (c + 1) k (n * 8 + of_int (sint (m c) - 48)))"

definition ustar_read_field :: "bytes \<Rightarrow> uptr \<Rightarrow> u64 \<Rightarrow> u64" where
  "ustar_read_field m str sz = ustar_digits m str (unat sz) 0"

definition ustar_vnode_type :: "u8 \<Rightarrow> vnode_type_t res" where
  "ustar_vnode_type t =
     (if t = USTAR_REG then Inr VNODE_REG
      else if t = USTAR_CHAR then Inr VNODE_CHAR
      else if t = USTAR_BLOCK then Inr VNODE_BLOCK
      else if t = USTAR_DIR then Inr VNODE_DIR
      else if t = USTAR_FIFO then Inr VNODE_FIFO
      else Inl Panic)"

text \<open>The walk to the directory an entry belongs to: each slash of the name becomes its end.\<close>

partial_function (option) entry_parent :: "uptr \<Rightarrow> uptr \<Rightarrow> 's fs \<Rightarrow> ('s fs \<times> uptr) run" where
  "entry_parent cur path st =
     (if fs_bytes st path = 0 then ret (st, cur)
      else
        seq (ends (strchr (fs_bytes st) path SLASH)) (\<lambda>slash.
        let st1 = (case slash of None \<Rightarrow> st | Some s \<Rightarrow> set_bytes_of ((fs_bytes st)(s := 0)) st)
        in seq (initrd_open cur path st1) (\<lambda>(st2, r, nxt).
           if r = EOK
           then seq (ends (strlen (fs_bytes st2) path)) (\<lambda>n. entry_parent nxt (path + n + 1) st2)
           else ret (st2, cur))))"

definition process_entry :: "'s fs_env \<Rightarrow> uptr \<Rightarrow> uptr \<Rightarrow> 's fs \<Rightarrow> 's fs run" where
  "process_entry env initrd_root hdr st =
     seq (ends (path_normalize (fs_bytes st) hdr hdr)) (\<lambda>m1.
     seq (now (fs_alloc env SIZEOF_INITRD_NODE (set_bytes_of m1 st))) (\<lambda>(st1, node).
     let st2 = st1\<lparr>fs_initrd := (fs_initrd st1)(node \<mapsto> \<lparr>in_children = [], in_data = hdr + 512\<rparr>)\<rparr>
     in seq (ends (strrchr (fs_bytes st2) hdr (uint SLASH))) (\<lambda>p.
        seq (name_copy (fs_bytes st2) node (case p of Some q \<Rightarrow> q + 1 | None \<Rightarrow> hdr)) (\<lambda>m2.
        seq (now (ustar_vnode_type (m2 (hdr + USTAR_TYPE)))) (\<lambda>t.
        let vn = (new_vnode t UstarOps 0)\<lparr>vn_size := ustar_read_field m2 (hdr + USTAR_SIZE) 12\<rparr>;
            st3 = set_vnode node vn (set_bytes_of m2 st2)
        in seq (entry_parent initrd_root hdr st3) (\<lambda>(st4, parent).
           case fs_initrd st4 parent of
             None \<Rightarrow> fail OutOfBounds
           | Some pn \<Rightarrow> ret (st4\<lparr>fs_initrd := (fs_initrd st4)(parent \<mapsto> pn\<lparr>in_children := in_children pn @ [node]\<rparr>)\<rparr>)))))))"

text \<open>The next header; the arithmetic is in 32 bits.\<close>

definition next_header :: "bytes \<Rightarrow> uptr \<Rightarrow> uptr" where
  "next_header m hdr =
     (let file_size = ucast (ustar_read_field m (hdr + USTAR_SIZE) 12) :: u32;
          blocks = (file_size + 512 - 1) div 512
      in hdr + ucast ((blocks + 1) * 512))"

text \<open>The loop over the archive; \<open>magic\<close> is the address of the literal \<^verbatim>\<open>"ustar"\<close>.\<close>

partial_function (option) initrd_entries :: "'s fs_env \<Rightarrow> uptr \<Rightarrow> uptr \<Rightarrow> uptr \<Rightarrow> 's fs \<Rightarrow> 's fs run" where
  "initrd_entries env initrd_root magic hdr st =
     (if fs_bytes st (hdr + USTAR_MAGIC_OFF) = 0 \<and> fs_bytes st (hdr + 512 + USTAR_MAGIC_OFF) = 0 then ret st
      else
        seq (ends (strcmp (fs_bytes st) (hdr + USTAR_MAGIC_OFF) magic)) (\<lambda>r.
        if r \<noteq> 0 then fail Panic
        else
          seq (process_entry env initrd_root hdr st) (\<lambda>st1.
          initrd_entries env initrd_root magic (next_header (fs_bytes st1) hdr) st1)))"

definition initrd_root_node :: "vnode_t \<times> initrd_node_t" where
  "initrd_root_node = (new_vnode VNODE_DIR UstarOps 0, \<lparr>in_children = [], in_data = 0\<rparr>)"

fun find_module :: "bytes \<Rightarrow> (uptr \<times> uptr) list \<Rightarrow> uptr \<Rightarrow> uptr option" where
  "find_module m [] name = Some 0"
| "find_module m ((path, address) # ms) name =
     (case strcmp m path name of None \<Rightarrow> None | Some r \<Rightarrow> if r = 0 then Some address else find_module m ms name)"

section \<open>devfs\<close>

definition SIZEOF_DEVFS_NODE :: u64 where "SIZEOF_DEVFS_NODE = 208"
definition DEVFS_LIST_NODE :: u64 where "DEVFS_LIST_NODE = 192"

definition devfs_open :: "uptr \<Rightarrow> uptr \<Rightarrow> 's fs \<Rightarrow> ('s fs \<times> int \<times> uptr) run" where
  "devfs_open self name st = dir_open (map_option dn_children (fs_devfs st self)) self name st"

definition devfs_close :: "'s fs_env \<Rightarrow> uptr \<Rightarrow> 's fs \<Rightarrow> ('s fs \<times> int) res" where
  "devfs_close env self st =
     rbind (assert_c (vn_ref_count (fs_vnodes st self) = 0)) (\<lambda>_.
     rbind (fs_free env self st) (\<lambda>st1. Inr (st1, EOK)))"

text \<open>Reading and writing have empty bodies: the value the caller uses is undefined.\<close>

definition devfs_read :: "uptr \<Rightarrow> u64 \<Rightarrow> uptr \<Rightarrow> u64 \<Rightarrow> 's fs \<Rightarrow> ('s fs \<times> int \<times> u64) res" where
  "devfs_read self offset buffer count st = Inl Undefined"

definition devfs_write :: "uptr \<Rightarrow> u64 \<Rightarrow> uptr \<Rightarrow> u64 \<Rightarrow> 's fs \<Rightarrow> ('s fs \<times> int \<times> u64) res" where
  "devfs_write self offset buffer count st = Inl Undefined"

definition devfs_list :: "uptr \<Rightarrow> u64 \<Rightarrow> 's fs \<Rightarrow> (int \<times> u64 \<times> uptr) res" where
  "devfs_list self hint st = dir_list (map_option dn_children (fs_devfs st self)) DEVFS_LIST_NODE self hint st"

definition devfs_create :: "'s fs_env \<Rightarrow> uptr \<Rightarrow> uptr \<Rightarrow> vnode_type_t \<Rightarrow> 's fs \<Rightarrow> ('s fs \<times> int \<times> uptr) run" where
  "devfs_create env self name t st =
     seq (check (name \<noteq> 0) AssertFailed) (\<lambda>_.
     seq (now (fs_alloc env SIZEOF_DEVFS_NODE st)) (\<lambda>(st1, child).
     let st2 = set_vnode child (new_vnode t DevfsOps 1)
                 (st1\<lparr>fs_devfs := (fs_devfs st1)(child \<mapsto> \<lparr>dn_children = []\<rparr>)\<rparr>)
     in seq (name_copy (fs_bytes st2) child name) (\<lambda>m.
        case fs_devfs st2 self of
          None \<Rightarrow> fail OutOfBounds
        | Some parent \<Rightarrow>
            ret (set_bytes_of m st2\<lparr>fs_devfs := (fs_devfs st2)(self \<mapsto> parent\<lparr>dn_children := dn_children parent @ [child]\<rparr>)\<rparr>,
                 EOK, child))))"

definition devfs_ioctl :: "uptr \<Rightarrow> u64 \<Rightarrow> uptr \<Rightarrow> 's fs \<Rightarrow> int" where
  "devfs_ioctl self request args st = ENOTSUP"

definition devfs_root_node :: "vnode_t \<times> devfs_node_t" where
  "devfs_root_node = (new_vnode VNODE_DIR DevfsOps 0, \<lparr>dn_children = []\<rparr>)"

end
