(* ===== verification/Vfs.thy ===== *)
theory Vfs
  imports Fs Pages
begin

text \<open>
  The virtual file system of \<^verbatim>\<open>kernel/src/fs/vfs.c\<close>: the trie of mount points, and the layer that
  calls the operations of a vnode.  A missing operation of a table is a call through a null pointer.
\<close>

section \<open>The operations of a vnode\<close>

definition op_open :: "uptr \<Rightarrow> uptr \<Rightarrow> 's fs \<Rightarrow> ('s fs \<times> int \<times> uptr) run" where
  "op_open vn name st =
     (case vn_ops (fs_vnodes st vn) of
        TmpfsOps \<Rightarrow> tmpfs_open vn name st
      | UstarOps \<Rightarrow> initrd_open vn name st
      | DevfsOps \<Rightarrow> devfs_open vn name st
      | NoOps \<Rightarrow> fail NullDeref)"

definition op_read :: "uptr \<Rightarrow> u64 \<Rightarrow> uptr \<Rightarrow> u64 \<Rightarrow> 's fs \<Rightarrow> ('s fs \<times> int \<times> u64) run" where
  "op_read vn offset buffer count st =
     (case vn_ops (fs_vnodes st vn) of
        TmpfsOps \<Rightarrow> now (tmpfs_read vn offset buffer count st)
      | UstarOps \<Rightarrow> initrd_read vn offset buffer count st
      | DevfsOps \<Rightarrow> now (devfs_read vn offset buffer count st)
      | NoOps \<Rightarrow> fail NullDeref)"

definition op_write :: "'s fs_env \<Rightarrow> uptr \<Rightarrow> u64 \<Rightarrow> uptr \<Rightarrow> u64 \<Rightarrow> 's fs \<Rightarrow> ('s fs \<times> int \<times> u64) res" where
  "op_write env vn offset buffer count st =
     (case vn_ops (fs_vnodes st vn) of
        TmpfsOps \<Rightarrow> tmpfs_write env vn offset buffer count st
      | UstarOps \<Rightarrow> Inl NullDeref
      | DevfsOps \<Rightarrow> devfs_write vn offset buffer count st
      | NoOps \<Rightarrow> Inl NullDeref)"

definition op_create :: "'s fs_env \<Rightarrow> uptr \<Rightarrow> uptr \<Rightarrow> vnode_type_t \<Rightarrow> 's fs \<Rightarrow> ('s fs \<times> int \<times> uptr) run" where
  "op_create env vn name t st =
     (case vn_ops (fs_vnodes st vn) of
        TmpfsOps \<Rightarrow> tmpfs_create env vn name t st
      | UstarOps \<Rightarrow> fail NullDeref
      | DevfsOps \<Rightarrow> devfs_create env vn name t st
      | NoOps \<Rightarrow> fail NullDeref)"

text \<open>The caller of \<open>close\<close> tests it against null first.\<close>

definition op_close :: "'s fs_env \<Rightarrow> uptr \<Rightarrow> 's fs \<Rightarrow> ('s fs \<times> int) res" where
  "op_close env vn st =
     (case vn_ops (fs_vnodes st vn) of
        TmpfsOps \<Rightarrow> tmpfs_close env vn st
      | UstarOps \<Rightarrow> Inr (st, EOK)
      | DevfsOps \<Rightarrow> devfs_close env vn st
      | NoOps \<Rightarrow> Inl NullDeref)"

section \<open>Mount points\<close>

definition TRIE_COMP_LEN :: u64 where "TRIE_COMP_LEN = 32"
definition TRIE_MAX_CHILDREN :: nat where "TRIE_MAX_CHILDREN = 16"
definition SIZEOF_TRIE_NODE :: u64 where "SIZEOF_TRIE_NODE = 176"

definition find_child :: "'s fs \<Rightarrow> uptr \<Rightarrow> uptr \<Rightarrow> u64 \<Rightarrow> uptr option" where
  "find_child st parent name len =
     find (\<lambda>c. strncmp (fs_bytes st) c name len = 0) (trie_children (fs_trie st parent))"

partial_function (option) mountpoint_loop :: "'s fs \<Rightarrow> uptr \<Rightarrow> uptr \<Rightarrow> (uptr \<times> uptr) option" where
  "mountpoint_loop st current path =
     (if fs_bytes st path = 0 then Some (path, current)
      else Option.bind (skip_slashes (fs_bytes st) path) (\<lambda>p.
        Option.bind (strchr (fs_bytes st) p SLASH) (\<lambda>slash.
        case find_child st current p (case slash of Some s \<Rightarrow> s - p | None \<Rightarrow> - 1) of
          None \<Rightarrow> Some (p, current)
        | Some child \<Rightarrow>
            Option.bind (strlen (fs_bytes st) child) (\<lambda>n. mountpoint_loop st child (p + n)))))"

text \<open>The rest of the path and the vnode mounted there; \<open>root\<close> is \<^verbatim>\<open>g_trie_root\<close>.\<close>

definition vfs_get_mountpoint :: "'s fs \<Rightarrow> uptr \<Rightarrow> uptr \<Rightarrow> (uptr \<times> uptr) option" where
  "vfs_get_mountpoint st root path =
     map_option (\<lambda>(p, current). (p, root_vn (fs_trie st current))) (mountpoint_loop st root path)"

definition set_trie :: "uptr \<Rightarrow> trie_node_t \<Rightarrow> 's fs \<Rightarrow> 's fs" where
  "set_trie p n st = st\<lparr>fs_trie := (fs_trie st)(p := n)\<rparr>"

text \<open>
  A new node of the trie.  The component is an array of 32 bytes and the children are an array
  of 16 pointers; \<^verbatim>\<open>root_vn\<close> is left as the heap had it.
\<close>

definition trie_add :: "'s fs_env \<Rightarrow> uptr \<Rightarrow> uptr \<Rightarrow> u64 \<Rightarrow> 's fs \<Rightarrow> ('s fs \<times> uptr) res" where
  "trie_add env current path comp_len st =
     rbind (fs_alloc env SIZEOF_TRIE_NODE st) (\<lambda>(st1, child).
     if TRIE_COMP_LEN < comp_len then Inl OutOfBounds
     else
       let st2 = set_bytes_of (strncpy (fs_bytes st1) child path comp_len) st1;
           st3 = set_trie child ((fs_trie st2 child)\<lparr>trie_children := []\<rparr>) st2;
           cur = fs_trie st3 current
       in if length (trie_children cur) < TRIE_MAX_CHILDREN
          then Inr (set_trie current (cur\<lparr>trie_children := trie_children cur @ [child]\<rparr>) st3, child)
          else Inl OutOfBounds)"

partial_function (option) mount_loop :: "'s fs_env \<Rightarrow> uptr \<Rightarrow> uptr \<Rightarrow> 's fs \<Rightarrow> ('s fs \<times> uptr) run" where
  "mount_loop env current path st =
     (if fs_bytes st path = 0 then ret (st, current)
      else seq (ends (skip_slashes (fs_bytes st) path)) (\<lambda>p.
        if fs_bytes st p = 0 then ret (st, current)
        else seq (ends (strchr (fs_bytes st) p SLASH)) (\<lambda>slash.
          let comp_len = (case slash of Some s \<Rightarrow> s - p | None \<Rightarrow> VFS_MAX_NAME_LEN)
          in seq (now (case find_child st current p comp_len of
                         Some child \<Rightarrow> Inr (st, child)
                       | None \<Rightarrow> trie_add env current p comp_len st)) (\<lambda>(st1, child).
             mount_loop env child (p + comp_len) st1))))"

definition vfs_mount_vnode :: "'s fs_env \<Rightarrow> uptr \<Rightarrow> uptr \<Rightarrow> uptr \<Rightarrow> 's fs \<Rightarrow> ('s fs \<times> int) run" where
  "vfs_mount_vnode env root vn path st =
     seq (mount_loop env root path st) (\<lambda>(st1, current).
     ret (set_trie current ((fs_trie st1 current)\<lparr>root_vn := vn\<rparr>) st1, EOK))"

text \<open>\<^verbatim>\<open>filesystem_type_t\<close> is declared in no file of the sources: its two functions are parameters.\<close>

definition vfs_mount ::
  "'s fs_env \<Rightarrow> uptr \<Rightarrow> (uptr \<Rightarrow> bool) \<Rightarrow> (uptr \<Rightarrow> 's fs \<Rightarrow> ('s fs \<times> uptr) run) \<Rightarrow> uptr \<Rightarrow> uptr \<Rightarrow> 's fs \<Rightarrow> ('s fs \<times> int) run" where
  "vfs_mount env root probe get_root_vnode blk path st =
     (if probe blk
      then seq (get_root_vnode blk st) (\<lambda>(st1, vn). vfs_mount_vnode env root vn path st1)
      else ret (st, - 1))"

record fs_type_list =
  type_list :: "uptr list"
  type_list_slock :: spinlock_t

definition vfs_register_fs_type :: "bool \<Rightarrow> fs_type_list \<Rightarrow> uptr \<Rightarrow> (bool \<times> fs_type_list) res" where
  "vfs_register_fs_type i ts fs_type =
     rbind (spinlock_acquire i (type_list_slock ts)) (\<lambda>(i1, l).
     let (i2, l2) = spinlock_release i1 l
     in Inr (i2, ts\<lparr>type_list := type_list ts @ [fs_type], type_list_slock := l2\<rparr>))"

section \<open>Opening\<close>

partial_function (option) open_loop :: "uptr \<Rightarrow> uptr \<Rightarrow> 's fs \<Rightarrow> ('s fs \<times> uptr) run" where
  "open_loop cur path st =
     (if cur = 0 \<or> fs_bytes st path = 0 then ret (st, cur)
      else seq (ends (skip_slashes (fs_bytes st) path)) (\<lambda>p.
        seq (ends (strchr (fs_bytes st) p SLASH)) (\<lambda>slash.
        let put = (\<lambda>c s. case slash of None \<Rightarrow> s | Some q \<Rightarrow> set_bytes_of ((fs_bytes s)(q := c)) s)
        in seq (op_open cur p (put 0 st)) (\<lambda>(st1, r, nxt).
           let st2 = put SLASH st1
           in if nxt = 0 then fail NullDeref
              else seq (ends (strlen (fs_bytes st2) nxt)) (\<lambda>n. open_loop nxt (p + n) st2)))))"

definition vfs_open :: "uptr \<Rightarrow> uptr \<Rightarrow> 's fs \<Rightarrow> ('s fs \<times> int \<times> uptr) run" where
  "vfs_open root path st =
     seq (ends (vfs_get_mountpoint st root path)) (\<lambda>(p, cur).
     seq (check (cur \<noteq> 0) AssertFailed) (\<lambda>_.
     seq (open_loop cur p st) (\<lambda>(st1, vn). ret (st1, EOK, vn))))"

section \<open>The page cache\<close>

definition SIZEOF_VNODE_PAGE :: u64 where "SIZEOF_VNODE_PAGE = 56"

fun cache_insert :: "u64 \<Rightarrow> vnode_page_t \<Rightarrow> (u64 \<times> vnode_page_t) list \<Rightarrow> (u64 \<times> vnode_page_t) list" where
  "cache_insert k vp [] = [(k, vp)]"
| "cache_insert k vp ((k', vp') # c) = (if k < k' then (k, vp) # (k', vp') # c else (k', vp') # cache_insert k vp c)"

definition set_cache_of :: "uptr \<Rightarrow> ((u64 \<times> vnode_page_t) list \<Rightarrow> (u64 \<times> vnode_page_t) list) \<Rightarrow> 's fs \<Rightarrow> 's fs" where
  "set_cache_of vn f st = (let v = fs_vnodes st vn in set_vnode vn (v\<lparr>page_cache := f (page_cache v)\<rparr>) st)"

text \<open>Closing writes every page back, then frees it; the physical address is used as a pointer.\<close>

definition close_page :: "'s fs_env \<Rightarrow> uptr \<Rightarrow> 's fs \<Rightarrow> u64 \<times> vnode_page_t \<Rightarrow> 's fs res" where
  "close_page env vn st kv =
     rbind (op_write env vn (fst kv) (page_addr (snd kv)) ARCH_PAGE_GRAN st) (\<lambda>(st1, _, _).
     let st2 = set_cache_of vn (filter (\<lambda>e. fst e \<noteq> fst kv)) st1
     in rbind (fe_page_free env (page_addr (snd kv)) (fs_al st2)) (\<lambda>al.
        fs_free env (vp_self (snd kv)) (st2\<lparr>fs_al := al\<rparr>)))"

definition vfs_close :: "'s fs_env \<Rightarrow> uptr \<Rightarrow> 's fs \<Rightarrow> ('s fs \<times> int) res" where
  "vfs_close env vn st =
     rbind (for_each (close_page env vn) (page_cache (fs_vnodes st vn)) st) (\<lambda>st1. op_close env vn st1)"

text \<open>
  The last release closes the vnode, which frees a node of tmpfs or devfs, and then unlocks the
  lock inside it.
\<close>

definition VN_RELE :: "'s fs_env \<Rightarrow> uptr \<Rightarrow> 's fs \<Rightarrow> 's fs res" where
  "VN_RELE env vn st =
     rbind (spinlock_acquire (fs_int st) (vn_slock (fs_vnodes st vn))) (\<lambda>(i, l).
     let v = fs_vnodes st vn;
         st1 = set_vnode vn (v\<lparr>vn_ref_count := vn_ref_count v - 1, vn_slock := l\<rparr>) (st\<lparr>fs_int := i\<rparr>)
     in rbind (if vn_ref_count v - 1 = 0
               then rbind (vfs_close env vn st1) (\<lambda>(st2, _).
                    if vn_ops v = UstarOps then Inr st2 else Inl Undefined)
               else Inr st1) (\<lambda>st2.
        let v2 = fs_vnodes st2 vn; (i2, l2) = spinlock_release (fs_int st2) (vn_slock v2)
        in Inr (set_vnode vn (v2\<lparr>vn_slock := l2\<rparr>) (st2\<lparr>fs_int := i2\<rparr>))))"

text \<open>
  The page of the cache for an offset: found, or allocated, filled by \<open>fill\<close> and inserted.  An
  error of the allocation or of \<open>fill\<close> is the second case of the result.
\<close>

definition cache_page ::
  "'s fs_env \<Rightarrow> uptr \<Rightarrow> u64 \<Rightarrow> (uptr \<Rightarrow> uptr \<Rightarrow> 's fs \<Rightarrow> ('s fs \<times> int) run) \<Rightarrow> 's fs \<Rightarrow> ('s fs \<times> (int + uptr)) run" where
  "cache_page env vn page_off fill st =
     (case map_of (page_cache (fs_vnodes st vn)) page_off of
        Some vp \<Rightarrow> ret (st, Inr (page_addr vp))
      | None \<Rightarrow>
          seq (now (fs_alloc env SIZEOF_VNODE_PAGE st)) (\<lambda>(st1, vp).
          if vp = 0 then ret (st1, Inl (- ENOMEM))
          else seq (now (fs_page env st1)) (\<lambda>(st2, f).
            seq (fill vp f st2) (\<lambda>(st3, r).
            if r \<noteq> EOK then ret (st3, Inl r)
            else ret (set_cache_of vn (cache_insert page_off \<lparr>vp_self = vp, page_addr = f\<rparr>) st3, Inr f)))))"

definition read_fill :: "'s fs_env \<Rightarrow> uptr \<Rightarrow> u64 \<Rightarrow> uptr \<Rightarrow> uptr \<Rightarrow> 's fs \<Rightarrow> ('s fs \<times> int) run" where
  "read_fill env vn page_off vp f st =
     seq (op_read vn page_off (f + fe_HHDM env) ARCH_PAGE_GRAN st) (\<lambda>(st1, r, _).
     if r \<noteq> EOK then seq (now (fs_free env vp st1)) (\<lambda>st2. ret (st2, r)) else ret (st1, EOK))"

function read_loop ::
  "'s fs_env \<Rightarrow> uptr \<Rightarrow> u64 \<Rightarrow> uptr \<Rightarrow> u64 \<Rightarrow> 's fs \<Rightarrow> u64 \<Rightarrow> ('s fs \<times> int \<times> u64) run" where
  "read_loop env vn offset buffer count st i =
     (if i < count then
        let off_in_page = (offset + i) mod ARCH_PAGE_GRAN;
            page_off = (offset + i) - off_in_page;
            to_copy = chunk_len offset count i
        in seq (cache_page env vn page_off (read_fill env vn page_off) st) (\<lambda>(st1, r).
           case r of
             Inl e \<Rightarrow> ret (st1, e, 0)
           | Inr f \<Rightarrow>
               read_loop env vn offset buffer count
                 (set_bytes_of (memcpy (fs_bytes st1) (buffer + i) (f + off_in_page + fe_HHDM env) to_copy) st1) (i + to_copy))
      else ret (st, EOK, i))"
  by pat_completeness auto
termination
  by (relation "measure (\<lambda>(env, vn, offset, buffer, count, st, i). unat count - unat i)")
    (simp_all add: chunk_len_measure)

declare read_loop.simps [simp del]

definition vfs_read :: "'s fs_env \<Rightarrow> uptr \<Rightarrow> u64 \<Rightarrow> uptr \<Rightarrow> u64 \<Rightarrow> 's fs \<Rightarrow> ('s fs \<times> int \<times> u64) run" where
  "vfs_read env vn offset buffer count st =
     (if \<not> vn_cached (fs_vnodes st vn) then op_read vn offset buffer count st
      else read_loop env vn offset buffer count st 0)"

text \<open>A page that is written only in part is filled from the file first; the result is not looked at.\<close>

definition write_fill :: "'s fs_env \<Rightarrow> uptr \<Rightarrow> u64 \<Rightarrow> bool \<Rightarrow> uptr \<Rightarrow> uptr \<Rightarrow> 's fs \<Rightarrow> ('s fs \<times> int) run" where
  "write_fill env vn page_off partial_page vp f st =
     (if partial_page
      then seq (op_read vn page_off (f + fe_HHDM env) ARCH_PAGE_GRAN st) (\<lambda>(st1, _, _). ret (st1, EOK))
      else ret (st, EOK))"

function write_loop ::
  "'s fs_env \<Rightarrow> uptr \<Rightarrow> u64 \<Rightarrow> uptr \<Rightarrow> u64 \<Rightarrow> 's fs \<Rightarrow> u64 \<Rightarrow> ('s fs \<times> int \<times> u64) run" where
  "write_loop env vn offset buffer count st i =
     (if i < count then
        let off_in_page = (offset + i) mod ARCH_PAGE_GRAN;
            page_off = (offset + i) - off_in_page;
            to_copy = chunk_len offset count i;
            partial_page = (0 < off_in_page \<or> to_copy < ARCH_PAGE_GRAN)
        in seq (cache_page env vn page_off (write_fill env vn page_off partial_page) st) (\<lambda>(st1, r).
           case r of
             Inl e \<Rightarrow> ret (st1, e, 0)
           | Inr f \<Rightarrow>
               let st2 = set_bytes_of (memcpy (fs_bytes st1) (f + off_in_page + fe_HHDM env) (buffer + i) to_copy) st1
               in seq (now (op_write env vn (offset + i) (buffer + i) to_copy st2)) (\<lambda>(st3, e, _).
                  if e \<noteq> EOK then ret (st3, e, 0)
                  else write_loop env vn offset buffer count st3 (i + to_copy)))
      else ret (st, 0, i))"
  by pat_completeness auto
termination
  by (relation "measure (\<lambda>(env, vn, offset, buffer, count, st, i). unat count - unat i)")
    (simp_all add: chunk_len_measure)

declare write_loop.simps [simp del]

definition vfs_write :: "'s fs_env \<Rightarrow> uptr \<Rightarrow> u64 \<Rightarrow> uptr \<Rightarrow> u64 \<Rightarrow> 's fs \<Rightarrow> ('s fs \<times> int \<times> u64) run" where
  "vfs_write env vn offset buffer count st =
     (if \<not> vn_cached (fs_vnodes st vn) then now (op_write env vn offset buffer count st)
      else write_loop env vn offset buffer count st 0)"

section \<open>Creation\<close>

text \<open>The arrays \<^verbatim>\<open>parent_path[256]\<close> and \<^verbatim>\<open>child_name[64]\<close> of the frame are at the addresses given.\<close>

definition vfs_create ::
  "'s fs_env \<Rightarrow> uptr \<Rightarrow> uptr \<Rightarrow> uptr \<Rightarrow> uptr \<Rightarrow> vnode_type_t \<Rightarrow> 's fs \<Rightarrow> ('s fs \<times> int \<times> uptr) run" where
  "vfs_create env root parent_path child_name path t st =
     seq (ends (strrchr (fs_bytes st) path (uint SLASH))) (\<lambda>c.
     case c of
       None \<Rightarrow> ret (st, - EINVAL, 0)
     | Some c \<Rightarrow>
         let parent_len = c - path
         in seq (check (parent_len < 256) OutOfBounds) (\<lambda>_.
            let m1 = (memcpy (fs_bytes st) parent_path path parent_len)(parent_path + parent_len := 0)
            in seq (ends (strlen m1 (c + 1))) (\<lambda>n.
               seq (check (n < 64) OutOfBounds) (\<lambda>_.
               seq (ends (strcpy m1 child_name (c + 1))) (\<lambda>m2.
               seq (vfs_open root parent_path (set_bytes_of m2 st)) (\<lambda>(st1, r, parent_node).
               if r < 0 then ret (st1, - ENOENT, 0)
               else op_create env parent_node child_name t st1))))))"

text \<open>The removal has an empty body and a result.\<close>

definition vfs_remove :: "uptr \<Rightarrow> 's fs \<Rightarrow> ('s fs \<times> int) res" where
  "vfs_remove path st = Inl Undefined"

section \<open>Initialisation and debugging\<close>

definition vfs_init :: "uptr \<Rightarrow> 's fs \<Rightarrow> 's fs" where
  "vfs_init root st =
     set_trie root ((fs_trie st root)\<lparr>trie_children := []\<rparr>)
       (set_bytes_of ((fs_bytes st)(root := SLASH, root + 1 := 0)) st)"

text \<open>
  The lines of the listing: indentation, component and number of children.  The indentation is
  built in an array of 16 bytes.
\<close>

function vfs_debug_from :: "'s fs \<Rightarrow> uptr \<Rightarrow> nat \<Rightarrow> (nat \<times> uptr \<times> nat) list \<Rightarrow> (nat \<times> uptr \<times> nat) list res" where
  "vfs_debug_from st node depth out =
     (if depth < 16
      then for_each (\<lambda>o1 c. vfs_debug_from st c (depth + 4) o1) (trie_children (fs_trie st node))
             (out @ [(depth, node, length (trie_children (fs_trie st node)))])
      else Inl OutOfBounds)"
  by pat_completeness auto
termination
  by (relation "measure (\<lambda>(st, node, depth, out). 20 - depth)") simp_all

declare vfs_debug_from.simps [simp del]

definition vfs_debug :: "'s fs \<Rightarrow> uptr \<Rightarrow> (nat \<times> uptr \<times> nat) list res" where
  "vfs_debug st root = vfs_debug_from st root 0 []"

section \<open>The file systems at boot\<close>

definition initrd_init ::
  "'s fs_env \<Rightarrow> uptr \<Rightarrow> uptr \<Rightarrow> uptr \<Rightarrow> uptr \<Rightarrow> uptr \<Rightarrow> (uptr \<times> uptr) list \<Rightarrow> 's fs \<Rightarrow> ('s fs \<times> int) run" where
  "initrd_init env root initrd_root tar_name magic root_path modules st =
     seq (ends (find_module (fs_bytes st) modules tar_name)) (\<lambda>hdr.
     if hdr = 0 then fail Panic
     else seq (initrd_entries env initrd_root magic hdr st) (\<lambda>st1.
       vfs_mount_vnode env root initrd_root root_path st1))"

definition devfs_init :: "'s fs_env \<Rightarrow> uptr \<Rightarrow> uptr \<Rightarrow> uptr \<Rightarrow> 's fs \<Rightarrow> ('s fs \<times> int) run" where
  "devfs_init env root devfs_root dev_path st = vfs_mount_vnode env root devfs_root dev_path st"

end
