(* ===== verification/Fs_Correct.thy ===== *)
theory Fs_Correct
  imports Vfs
begin

text \<open>
  What the file systems promise: a tmpfs file gives back what was written in its first page, an
  octal field of the archive is the number it prints, and a mount point is found again.
\<close>

section \<open>tmpfs files\<close>

lemma fs_sel [simp]:
  "fs_bytes (set_bytes_of m st) = m" "fs_bytes (set_vnode p v st) = fs_bytes st"
  "fs_tmpfs (set_bytes_of m st) = fs_tmpfs st" "fs_tmpfs (set_vnode p v st) = fs_tmpfs st"
  "fs_vnodes (set_bytes_of m st) = fs_vnodes st" "fs_vnodes (set_vnode p v st) = (fs_vnodes st)(p := v)"
  "fs_trie (set_bytes_of m st) = fs_trie st" "fs_trie (set_vnode p v st) = fs_trie st"
  "fs_bytes (set_trie p n st) = fs_bytes st" "fs_trie (set_trie p n st) = (fs_trie st)(p := n)"
  by (simp_all add: set_bytes_of_def set_vnode_def set_trie_def)

lemma set_vnode_same [simp]: "v = fs_vnodes st p \<Longrightarrow> set_vnode p v st = st"
  by (simp add: set_vnode_def)

lemma memcpy_none [simp]: "memcpy m d s 0 = m"
  by (simp add: memcpy_def)

lemma pages_after:
  assumes "page_start = of_nat (4096 * j)" "unat offset < 4096 * j" "4096 * (j + length ps) \<le> 2 ^ 64"
  shows "tmpfs_write_pages offset buffer count ps m page_start copied = (m, copied)"
    and "tmpfs_read_pages offset buffer count ps m page_start copied = (m, copied)"
proof -
  have "tmpfs_write_pages offset buffer count ps m page_start copied = (m, copied) \<and>
        tmpfs_read_pages offset buffer count ps m page_start copied = (m, copied)"
    using assms
  proof (induction ps arbitrary: page_start j)
    case (Cons d ds)
    then have "4096 * j < 2 ^ 64" by simp
    then have "unat page_start = 4096 * j" using of_nat_u64 [of "4096 * j"] by (simp only: Cons.prems(1))
    then have "\<not> page_start \<le> offset" using Cons.prems(2) by (simp add: word_le_nat_alt)
    moreover have "page_start + ARCH_PAGE_GRAN = of_nat (4096 * Suc j)"
      using Cons.prems(1) by (simp add: page_gran)
    ultimately show ?case using Cons.IH [of "page_start + ARCH_PAGE_GRAN" "Suc j"] Cons.prems by simp
  qed simp
  then show "tmpfs_write_pages offset buffer count ps m page_start copied = (m, copied)"
    "tmpfs_read_pages offset buffer count ps m page_start copied = (m, copied)" by simp_all
qed

lemma pages_done:
  "tmpfs_write_pages offset buffer count ps m page_start count = (m, count)"
  "tmpfs_read_pages offset buffer count ps m page_start count = (m, count)"
proof -
  have z: "MIN_c x 0 = 0" for x by (simp add: MIN_c_def)
  have "tmpfs_write_pages offset buffer count ps m page_start count = (m, count) \<and>
        tmpfs_read_pages offset buffer count ps m page_start count = (m, count)"
    by (induction ps arbitrary: page_start) (simp_all add: z Let_def)
  then show "tmpfs_write_pages offset buffer count ps m page_start count = (m, count)"
    "tmpfs_read_pages offset buffer count ps m page_start count = (m, count)" by simp_all
qed

text \<open>The bytes the loop takes from the first page: all of them past its end, where the subtraction wraps.\<close>

definition first_part :: "u64 \<Rightarrow> u64 \<Rightarrow> u64" where
  "first_part offset count = MIN_c (ARCH_PAGE_GRAN - offset) count"

lemma first_part_within:
  assumes "unat offset + unat count \<le> 4096"
  shows "first_part offset count = count"
proof -
  have "unat (0x1000 - offset) = 4096 - unat offset" using assms by (subst unat_sub) (simp_all add: word_le_nat_alt)
  then show ?thesis using assms by (auto simp: first_part_def MIN_c_def page_gran word_less_nat_alt)
qed

lemma first_part_past:
  assumes "4096 < unat offset" "unat offset + unat count < 2 ^ 64"
  shows "first_part offset count = count"
proof -
  have "unat (0x1000 - offset) = 2 ^ 64 + 4096 - unat offset"
    using assms by (simp add: unat_sub_if' word_size)
  then show ?thesis using assms u64_bound [of offset] by (auto simp: first_part_def MIN_c_def page_gran word_less_nat_alt)
qed

lemma pages_first:
  assumes "count \<noteq> 0" "unat offset + unat count < 2 ^ 64" "first_part offset count = count"
  shows "tmpfs_write_pages offset buffer count (d # ds) m 0 0 = (memcpy m (d + offset) buffer count, count)"
    and "tmpfs_read_pages offset buffer count (d # ds) m 0 0 = (memcpy m buffer (d + offset) count, count)"
proof -
  have "unat (offset + count) = unat offset + unat count" using assms(2) by (intro unat_add_nowrap) simp
  then have "0 < offset + count" using assms(1) by (simp add: word_less_nat_alt unat_gt_0)
  then show "tmpfs_write_pages offset buffer count (d # ds) m 0 0 = (memcpy m (d + offset) buffer count, count)"
    "tmpfs_read_pages offset buffer count (d # ds) m 0 0 = (memcpy m buffer (d + offset) count, count)"
    using assms(3) by (simp_all add: Let_def first_part_def pages_done)
qed

lemma pages_needed:
  assumes "unat v + 4095 < 2 ^ 64"
  shows "unat (CEIL v ARCH_PAGE_GRAN div ARCH_PAGE_GRAN) = (unat v + 4095) div 4096"
proof -
  have v: "unat (v + 0x1000 - 1) = unat v + 4095"
  proof -
    have "v + 0x1000 - 1 = v + 0xFFF" by simp
    moreover have "unat (v + 0xFFF) = unat v + unat (0xFFF :: u64)" by (intro unat_add_nowrap) (use assms in simp)
    moreover have "unat (0xFFF :: u64) = 4095" by simp
    ultimately show ?thesis by (simp only:)
  qed
  have q: "unat ((v + 0x1000 - 1) div 0x1000) = (unat v + 4095) div 4096" using v by (simp add: unat_div)
  have "unat ((v + 0x1000 - 1) div 0x1000 * 0x1000) = unat ((v + 0x1000 - 1) div 0x1000) * unat (0x1000 :: u64)"
    by (intro unat_mult_nowrap) (use q assms in simp)
  then show ?thesis using q by (simp add: CEIL_def page_gran unat_div)
qed

text \<open>A write that stays below the end of the first page, on a file whose first page is \<open>d\<close> once it has one.\<close>

lemma tmpfs_write_within:
  assumes "buffer \<noteq> 0" "count \<noteq> 0" "unat offset + unat count \<le> 4096"
    and "fs_tmpfs st self \<noteq> None" "unat (vn_size (fs_vnodes st self)) + 4095 < 2 ^ 64"
    and "(if vn_size (fs_vnodes st self) = 0 then tmpfs_add_page env self st else Inr st) = Inr st1"
    and "fs_tmpfs st1 self = Some node" "tn_pages node = d # ds"
  obtains vn where "tmpfs_write env self offset buffer count st =
    Inr (set_vnode self vn (set_bytes_of (memcpy (fs_bytes st1) (d + offset) buffer count) st1), EOK, count)"
proof -
  have "unat (offset + count) = unat offset + unat count" using assms(3) by (intro unat_add_nowrap) simp
  then have "unat (CEIL (offset + count) ARCH_PAGE_GRAN div ARCH_PAGE_GRAN) = (unat offset + unat count + 4095) div 4096"
    using assms(3) by (subst pages_needed) simp_all
  also have "\<dots> = 1" using assms(2,3) by (simp add: div_nat_eqI unat_gt_0 Suc_leI)
  finally have n: "CEIL (offset + count) ARCH_PAGE_GRAN div ARCH_PAGE_GRAN = 1"
    using unsigned_word_eqI [where 'a = nat, of _ "1 :: u64"] by simp
  let ?size = "vn_size (fs_vnodes st self)"
  let ?have = "CEIL ?size ARCH_PAGE_GRAN div ARCH_PAGE_GRAN"
  have f: "unat ?have = (unat ?size + 4095) div 4096" using assms(5) by (rule pages_needed)
  have "?have = 0" if "?size = 0" using f that unsigned_word_eqI [where 'a = nat, of ?have 0] by simp
  moreover have "\<not> ?have < 1" if "?size \<noteq> 0"
    using f that by (simp add: word_less_nat_alt not_less unat_gt_0 Suc_leI div_greater_zero_iff)
  ultimately have grow: "(if ?have < 1 then for_each (\<lambda>s _. tmpfs_add_page env self s) [0..<unat (1 - ?have)] st else Inr st) = Inr st1"
    using assms(6) by (cases "?size = 0") simp_all
  have "unat offset + unat count < 2 ^ 64" using assms(3) by simp
  note w = pages_first(1) [OF assms(2) this first_part_within [OF assms(3)]]
  show thesis
    using assms(1,4,7,8) grow
    by (intro that [of "let v = fs_vnodes st1 self in if vn_size v < offset + count then v\<lparr>vn_size := offset + count\<rparr> else v"])
      (simp add: tmpfs_write_def n w Let_def del: tmpfs_write_pages.simps)
qed

lemma tmpfs_add_page_bytes: "tmpfs_add_page env self st = Inr st1 \<Longrightarrow> fs_bytes st1 = fs_bytes st"
  by (auto simp: tmpfs_add_page_def fs_alloc_def fs_page_def rbind_eq_Inr split: prod.splits)

text \<open>C19: what is written to a tmpfs file, within its first page, is what a read of the same range gives back, and
  both report the whole count; the file may be empty before.\<close>

theorem tmpfs_write_read:
  assumes "buffer \<noteq> 0" "dst \<noteq> 0" "count \<noteq> 0" "unat offset + unat count \<le> 4096"
    and "fs_tmpfs st self \<noteq> None" "unat (vn_size (fs_vnodes st self)) + 4095 < 2 ^ 64"
    and "(if vn_size (fs_vnodes st self) = 0 then tmpfs_add_page env self st else Inr st) = Inr st1"
    and "fs_tmpfs st1 self = Some node" "tn_pages node = d # ds"
    and "unat count \<le> unat (d + offset - buffer)" "unat count \<le> unat (dst - (d + offset))"
  shows "\<exists>st2 m. tmpfs_write env self offset buffer count st = Inr (st2, EOK, count) \<and>
    tmpfs_read self offset dst count st2 = Inr (set_bytes_of m st2, EOK, count) \<and>
    (\<forall>i < unat count. m (dst + of_nat i) = fs_bytes st (buffer + of_nat i))"
proof -
  let ?m1 = "memcpy (fs_bytes st1) (d + offset) buffer count"
  let ?m2 = "memcpy ?m1 dst (d + offset) count"
  obtain vn where w: "tmpfs_write env self offset buffer count st = Inr (set_vnode self vn (set_bytes_of ?m1 st1), EOK, count)"
    using tmpfs_write_within [OF assms(1,3-9)] by blast
  have "unat offset + unat count < 2 ^ 64" using assms(4) by simp
  note r = pages_first(2) [OF assms(3) this first_part_within [OF assms(4)]]
  have b: "fs_bytes st1 = fs_bytes st" using assms(7) tmpfs_add_page_bytes [of env self st st1] by (auto split: if_splits)
  have "?m2 (dst + of_nat i) = fs_bytes st (buffer + of_nat i)" if "i < unat count" for i
  proof -
    have "unat (of_nat i :: u64) = i" using that u64_bound [of count] by (intro of_nat_u64) simp
    then show ?thesis using that b assms(10,11) by (subst memcpy_at; simp)+
  qed
  moreover have "tmpfs_read self offset dst count (set_vnode self vn (set_bytes_of ?m1 st1)) =
      Inr (set_bytes_of ?m2 (set_vnode self vn (set_bytes_of ?m1 st1)), EOK, count)"
    using assms(2,8,9) r by (simp add: tmpfs_read_def del: tmpfs_read_pages.simps)
  ultimately show ?thesis using w by blast
qed

text \<open>A write to a tmpfs file at an offset beyond the first page goes to the memory that follows the first page, \<open>offset\<close>
  bytes after its start, and not to the page of the file the offset lies in; it reports success.\<close>

theorem tmpfs_write_past_page:
  assumes "buffer \<noteq> 0" "count \<noteq> 0" "4096 < unat offset" "unat offset + unat count \<le> unat (vn_size (fs_vnodes st self))"
    and "unat (vn_size (fs_vnodes st self)) + 4095 < 2 ^ 64"
    and "fs_tmpfs st self = Some node" "tn_pages node = d # ds"
  shows "tmpfs_write env self offset buffer count st =
    Inr (set_bytes_of (memcpy (fs_bytes st) (d + offset) buffer count) st, EOK, count)"
proof -
  have nw: "unat offset + unat count < 2 ^ 64" using assms(4,5) by simp
  then have u: "unat (offset + count) = unat offset + unat count" by (intro unat_add_nowrap) simp
  have "(unat (offset + count) + 4095) div 4096 \<le> (unat (vn_size (fs_vnodes st self)) + 4095) div 4096"
    using u assms(4) by (intro div_le_mono) simp
  then have "\<not> CEIL (vn_size (fs_vnodes st self)) ARCH_PAGE_GRAN div ARCH_PAGE_GRAN < CEIL (offset + count) ARCH_PAGE_GRAN div ARCH_PAGE_GRAN"
    using u assms(4,5) pages_needed [of "offset + count"] pages_needed [of "vn_size (fs_vnodes st self)"]
    by (simp add: word_less_nat_alt not_less)
  moreover have "\<not> vn_size (fs_vnodes st self) < offset + count" using u assms(4) by (simp add: word_less_nat_alt)
  ultimately show ?thesis
    using assms(1,6,7) pages_first(1) [OF assms(2) nw first_part_past [OF assms(3) nw]]
    by (simp add: tmpfs_write_def Let_def del: tmpfs_write_pages.simps)
qed

section \<open>The archive\<close>

text \<open>A number in octal digits, as an archive has it.\<close>

fun octal_digits :: "nat \<Rightarrow> nat \<Rightarrow> u8 list" where
  "octal_digits 0 n = []"
| "octal_digits (Suc k) n = octal_digits k (n div 8) @ [of_nat (48 + n mod 8)]"

lemma octal_length [simp]: "length (octal_digits k n) = k"
  by (induction k arbitrary: n) auto

lemma octal_digit: "(of_int (sint (of_nat (48 + d) :: u8) - 48) :: u64) = of_nat d" "(of_nat (48 + d) :: u8) \<noteq> 0" if "d < 8"
proof -
  have "d \<in> {0, 1, 2, 3, 4, 5, 6, 7}" using that by auto
  then show "(of_int (sint (of_nat (48 + d) :: u8) - 48) :: u64) = of_nat d" "(of_nat (48 + d) :: u8) \<noteq> 0" by auto
qed

lemma ustar_digits_stop: "m c = 0 \<Longrightarrow> ustar_digits m c k a = a"
  by (cases k) simp_all

lemma ustar_digits_append:
  "(\<forall>i < length ds. m (c + of_nat i) = ds ! i) \<Longrightarrow> 0 \<notin> set ds \<Longrightarrow> length ds \<le> k \<Longrightarrow>
    ustar_digits m c k a =
      ustar_digits m (c + of_nat (length ds)) (k - length ds) (foldl (\<lambda>n d. n * 8 + of_int (sint d - 48)) a ds)"
proof (induction ds arbitrary: c k a)
  case (Cons d ds)
  then obtain j where k: "k = Suc j" by (cases k) auto
  have "m (c + 1 + of_nat i) = ds ! i" if "i < length ds" for i
    using Cons.prems(1) [rule_format, of "Suc i"] that by (simp add: add.assoc)
  then have "ustar_digits m (c + 1) j (a * 8 + of_int (sint d - 48)) =
      ustar_digits m (c + 1 + of_nat (length ds)) (j - length ds) (foldl (\<lambda>n d. n * 8 + of_int (sint d - 48)) (a * 8 + of_int (sint d - 48)) ds)"
    using Cons.prems(2,3) k by (intro Cons.IH) auto
  then show ?case using Cons.prems(1) [rule_format, of 0] Cons.prems(2) k by (simp add: add.assoc)
qed simp

lemma octal_value:
  "foldl (\<lambda>n d. n * 8 + of_int (sint d - 48)) a (octal_digits k n) = a * 8 ^ k + (of_nat (n mod 8 ^ k) :: u64)"
proof (induction k arbitrary: n)
  case (Suc k)
  have "n mod 8 ^ Suc k = 8 * (n div 8 mod 8 ^ k) + n mod 8" by (simp add: mod_mult2_eq)
  then show ?case using Suc.IH [of "n div 8"] octal_digit [of "n mod 8"] by (simp add: algebra_simps)
qed simp

lemma octal_nonzero: "0 \<notin> set (octal_digits k n)"
proof (induction k arbitrary: n)
  case (Suc k)
  then show ?case using octal_digit(2) [of "n mod 8"] by auto
qed simp

text \<open>\<^verbatim>\<open>ustar_read_field\<close> reads back a number printed as a fixed number of octal digits, whether the field ends at its
  width or at a zero byte.\<close>

theorem ustar_read_field_octal:
  assumes "\<forall>i < k. m (p + of_nat i) = octal_digits k n ! i" "n < 8 ^ k" "k \<le> unat sz"
    and "k = unat sz \<or> m (p + of_nat k) = 0"
  shows "ustar_read_field m p sz = of_nat n"
proof -
  have "ustar_read_field m p sz = ustar_digits m (p + of_nat k) (unat sz - k) (of_nat n)"
    using ustar_digits_append [of "octal_digits k n" m p "unat sz" 0] octal_nonzero [of k n] octal_value [of 0 k n] assms(1-3)
    by (simp add: ustar_read_field_def)
  then show ?thesis using assms(4) ustar_digits_stop [of m "p + of_nat k"] by auto
qed

section \<open>A concrete file system\<close>

text \<open>An allocator of one block and one page, and a tmpfs file at \<^verbatim>\<open>0x100\<close> with the pages given.\<close>

definition toy_env :: "unit fs_env" where
  "toy_env = \<lparr>fe_HHDM = 0x100000, fe_heap_alloc = (\<lambda>_ a. Inr (a, 0x5000)), fe_heap_free = (\<lambda>_ a. Inr a),
     fe_page_alloc = (\<lambda>a. Inr (a, 0x8000)), fe_page_free = (\<lambda>_ a. Inr a)\<rparr>"

definition toy_fs :: "uptr list \<Rightarrow> unit fs" where
  "toy_fs ds = \<lparr>fs_al = (), fs_int = False, fs_bytes = (\<lambda>x. ucast x),
     fs_vnodes = (\<lambda>_. (new_vnode VNODE_REG TmpfsOps 1)\<lparr>vn_size := of_nat (length ds) * 0x1000\<rparr>),
     fs_tmpfs = [0x100 \<mapsto> \<lparr>tn_children = [], tn_pages = ds\<rparr>], fs_initrd = Map.empty, fs_devfs = Map.empty,
     fs_trie = (\<lambda>_. \<lparr>root_vn = 0, trie_children = []\<rparr>)\<rparr>"

theorem tmpfs_write_read_witness:
  "\<exists>st2 m. tmpfs_write toy_env 0x100 10 0x2002 3 (toy_fs []) = Inr (st2, EOK, 3) \<and>
     tmpfs_read 0x100 10 0x300000 3 st2 = Inr (set_bytes_of m st2, EOK, 3) \<and> m 0x300002 = 4"
proof -
  have "\<exists>st2 m. tmpfs_write toy_env 0x100 10 0x2002 3 (toy_fs []) = Inr (st2, EOK, 3) \<and>
     tmpfs_read 0x100 10 0x300000 3 st2 = Inr (set_bytes_of m st2, EOK, 3) \<and>
     (\<forall>i < unat (3 :: u64). m (0x300000 + of_nat i) = fs_bytes (toy_fs []) (0x2002 + of_nat i))"
    by (rule tmpfs_write_read) (auto simp: toy_fs_def toy_env_def new_vnode_def tmpfs_add_page_def fs_alloc_def fs_page_def)
  then obtain st2 m where *: "tmpfs_write toy_env 0x100 10 0x2002 3 (toy_fs []) = Inr (st2, EOK, 3)"
    "tmpfs_read 0x100 10 0x300000 3 st2 = Inr (set_bytes_of m st2, EOK, 3)"
    "\<forall>i < unat (3 :: u64). m (0x300000 + of_nat i) = fs_bytes (toy_fs []) (0x2002 + of_nat i)" by blast
  from *(3) [rule_format, of 2] have "m 0x300002 = 4" by (simp add: toy_fs_def)
  then show ?thesis using * by blast
qed

end
