(* ===== verification/Vfs_Correct.thy ===== *)
theory Vfs_Correct
  imports Fs_Correct
begin

text \<open>
  The mount points: a mounted path is found again, also by paths that only share the beginning
  of its name, and a path whose last component has no slash behind it overflows the node.
\<close>

lemma take_slash: "SLASH \<notin> set q \<Longrightarrow> takeWhile (\<lambda>x. x \<noteq> SLASH) (q @ SLASH # r) = q"
  by (induction q) auto

lemma no_lead: "SLASH \<notin> set q \<Longrightarrow> q \<noteq> [] \<Longrightarrow> takeWhile (\<lambda>x. x = SLASH) (q @ r) = []"
  by (cases q) auto

lemma apart_sym: "apart p k d n \<Longrightarrow> apart d n p k"
  unfolding apart_def by metis

text \<open>A component that a slash ends, at the beginning of a path.\<close>

lemma component_at:
  assumes "str_at m p (SLASH # q @ SLASH # r)" "SLASH \<notin> set q" "q \<noteq> []"
  shows "m p \<noteq> 0" "skip_slashes m p = Some (p + 1)" "m (p + 1) \<noteq> 0"
    "strchr m (p + 1) SLASH = Some (Some (p + 1 + of_nat (length q)))"
    "str_at m (p + 1) (q @ SLASH # r)" "str_at m (p + 1 + of_nat (length q)) (SLASH # r)"
proof -
  have s: "str_at m (p + 1) (q @ SLASH # r)" using assms(1) by simp
  show "m p \<noteq> 0" using assms(1) by auto
  show "skip_slashes m p = Some (p + 1)"
    using skip_slashes_at [OF assms(1)] no_lead [OF assms(2,3), of "SLASH # r"] by simp
  show "m (p + 1) \<noteq> 0" using s assms(3) by (cases q) auto
  show "strchr m (p + 1) SLASH = Some (Some (p + 1 + of_nat (length q)))"
    using strchr_at [OF s, of SLASH] take_slash [OF assms(2), of r] by simp
  show "str_at m (p + 1) (q @ SLASH # r)" by (rule s)
  show "str_at m (p + 1 + of_nat (length q)) (SLASH # r)" using str_at_drop [OF s, of "length q"] by simp
qed

text \<open>A node without children ends the search.\<close>

lemma mountpoint_leaf:
  assumes "trie_children (fs_trie st c) = []" "str_at (fs_bytes st) p u"
  shows "mountpoint_loop st c p = Some (p + of_nat (length (takeWhile (\<lambda>x. x = SLASH) u)), c)"
proof (cases u)
  case Nil
  then show ?thesis using assms(2) by (simp add: mountpoint_loop.simps [of st c p])
next
  case (Cons x xs)
  let ?k = "length (takeWhile (\<lambda>x. x = SLASH) u)"
  have "str_at (fs_bytes st) (p + of_nat ?k) (drop ?k u)"
    by (rule str_at_drop [OF assms(2)]) (simp add: length_takeWhile_le)
  then show ?thesis using Cons assms skip_slashes_at [OF assms(2)] strchr_at [of "fs_bytes st" "p + of_nat ?k" "drop ?k u" SLASH]
    by (auto simp: mountpoint_loop.simps [of st c p] find_child_def)
qed

text \<open>A node is chosen by its name: a string with the component as a prefix. The siblings \<open>cs\<close>, whose names are given by \<open>nm\<close>,
  are not chosen when no name starts with the component.\<close>

definition siblings :: "bytes \<Rightarrow> uptr list \<Rightarrow> (uptr \<Rightarrow> u8 list) \<Rightarrow> bool" where
  "siblings m cs nm \<longleftrightarrow> (\<forall>x \<in> set cs. str_at m x (nm x))"

lemma named_child:
  assumes "str_at m x n" "str_at m p (q @ r)" "length q < 2 ^ 64"
  shows "strncmp m x p (of_nat (length q)) = 0 \<longleftrightarrow> prefix q n"
  using strncmp_at [OF assms(1,2), of "of_nat (length q)"] of_nat_u64 [OF assms(3)] by (auto simp: prefix_def) (metis append_take_drop_id)

lemma find_child_skips:
  assumes "trie_children (fs_trie st parent) = cs @ ds" "siblings (fs_bytes st) cs nm" "\<forall>x \<in> set cs. \<not> prefix q (nm x)"
    and "str_at (fs_bytes st) p (q @ r)" "length q < 2 ^ 64"
  shows "find_child st parent p (of_nat (length q)) = find (\<lambda>c. strncmp (fs_bytes st) c p (of_nat (length q)) = 0) ds"
proof -
  have "\<forall>x \<in> set cs. strncmp (fs_bytes st) x p (of_nat (length q)) \<noteq> 0"
    using assms(2-5) named_child by (fastforce simp: siblings_def)
  then show ?thesis unfolding find_child_def assms(1) by (induction cs) auto
qed

lemma mountpoint_single:
  assumes "trie_children (fs_trie st root) = cs @ [c]" "trie_children (fs_trie st c) = []"
    and "siblings (fs_bytes st) cs nm" "\<forall>x \<in> set cs. \<not> prefix q (nm x)"
    and "str_at (fs_bytes st) c name" "length name \<le> 32"
    and "prefix q name" "q \<noteq> []" "SLASH \<notin> set name"
    and "str_at (fs_bytes st) b (SLASH # q @ SLASH # rest)" "length name \<le> Suc (length q + length rest)"
  shows "vfs_get_mountpoint st root b =
    Some (b + 1 + of_nat (length name) + of_nat (length (takeWhile (\<lambda>x. x = SLASH) (drop (length name) (q @ SLASH # rest)))), root_vn (fs_trie st c))"
proof -
  have q: "SLASH \<notin> set q" "length q < 2 ^ 64" using assms(6,7,9) set_mono_prefix [OF assms(7)] prefix_length_le [OF assms(7)] by auto
  note co = component_at [OF assms(10) q(1) assms(8)]
  have l: "b + 1 + of_nat (length q) - (b + 1) = of_nat (length q)" by simp
  have "find_child st root (b + 1) (of_nat (length q)) = Some c"
    using find_child_skips [OF assms(1,3,4) co(5) q(2)] named_child [OF assms(5) co(5) q(2)] assms(7) by simp
  moreover have "str_at (fs_bytes st) (b + 1 + of_nat (length name)) (drop (length name) (q @ SLASH # rest))"
    by (rule str_at_drop [OF co(5)]) (use assms(11) in simp)
  ultimately show ?thesis
    using co assms(2) strlen_at [OF assms(5)]
    by (simp add: vfs_get_mountpoint_def mountpoint_loop.simps [of st root b] l mountpoint_leaf)
qed

lemma fs_alloc_keeps: "fs_alloc env n st = Inr (st1, p) \<Longrightarrow> \<exists>a. st1 = st\<lparr>fs_al := a\<rparr>"
  by (auto simp: fs_alloc_def split: prod.splits)

lemma fs_al_upd [simp]:
  "fs_bytes (st\<lparr>fs_al := a\<rparr>) = fs_bytes st" "fs_trie (st\<lparr>fs_al := a\<rparr>) = fs_trie st"
  by simp_all

lemma strncpy_take:
  assumes "str_at m p (q @ r)" "apart d (Suc (length (q @ r))) p (Suc (length (q @ r)))" "length q < 2 ^ 64"
  shows "strncpy m d p (of_nat (length q)) = put_bytes m d q"
  using strncpy_copy_at [OF assms(1,2), of "of_nat (length q)"] of_nat_u64 [OF assms(3)] by (simp add: strncpy_def)

lemma put_bytes_string:
  assumes "0 \<notin> set q" "length q < 2 ^ 64" "m (d + of_nat (length q)) = 0"
  shows "str_at (put_bytes m d q) d q"
  using assms
proof (induction q arbitrary: m d)
  case (Cons c q)
  have e: "put_bytes m d (c # q) = put_bytes (m(d := c)) (d + 1) q" using Cons.prems(2) by (intro put_bytes_Cons) simp
  have "d + of_nat (Suc (length q)) \<noteq> d"
    using of_nat_u64 [of "Suc (length q)"] Cons.prems(2) by auto
  then have "str_at (put_bytes (m(d := c)) (d + 1) q) (d + 1) q"
    using Cons.prems by (intro Cons.IH) (auto simp: add.assoc)
  moreover have "put_bytes m d (c # q) d = c" by (simp add: put_bytes_def)
  ultimately show ?case using Cons.prems(1) by (simp add: e)
qed simp

text \<open>A mount of a path of one component, with a slash behind it.\<close>

lemma vfs_mount_single:
  assumes "trie_children (fs_trie st root) = cs" "child \<noteq> root" "length cs < TRIE_MAX_CHILDREN"
    and "siblings (fs_bytes st) cs nm" "\<forall>x \<in> set cs. \<not> prefix name (nm x)"
    and "str_at (fs_bytes st) a (SLASH # name @ [SLASH])" "SLASH \<notin> set name" "name \<noteq> []" "length name \<le> 32"
    and "fs_alloc env SIZEOF_TRIE_NODE st = Inr (st1, child)" "fs_bytes st (child + of_nat (length name)) = 0"
    and "apart child (length name + 2) (a + 1) (length name + 2)"
  obtains st2 where "vfs_mount_vnode env root vn a st = ret (st2, EOK)"
    "fs_bytes st2 = put_bytes (fs_bytes st) child name" "str_at (fs_bytes st2) child name"
    "trie_children (fs_trie st2 root) = cs @ [child]" "trie_children (fs_trie st2 child) = []" "root_vn (fs_trie st2 child) = vn"
    "root_vn (fs_trie st2 root) = root_vn (fs_trie st root)" "\<forall>x. x \<notin> {root, child} \<longrightarrow> fs_trie st2 x = fs_trie st x"
proof -
  let ?n = "of_nat (length name) :: u64"
  let ?m = "put_bytes (fs_bytes st) child name"
  note co = component_at [OF assms(6) assms(7,8)]
  obtain al where st1: "st1 = st\<lparr>fs_al := al\<rparr>" using fs_alloc_keeps [OF assms(10)] by blast
  have n: "unat ?n = length name" using assms(9) by (intro of_nat_u64) simp
  have cp: "strncpy (fs_bytes st) child (a + 1) ?n = ?m"
    by (rule strncpy_take [where r = "[SLASH]"]) (use co(5) assms(9,12) in simp_all)
  have z: "0 \<notin> set name" using str_at_nonzero [OF co(5)] by simp
  have s: "str_at ?m child name" using z assms(9,11) by (intro put_bytes_string) simp_all
  define st2 where "st2 = set_trie root ((fs_trie st root)\<lparr>trie_children := cs @ [child]\<rparr>)
      (set_trie child ((fs_trie st child)\<lparr>trie_children := []\<rparr>) (set_bytes_of ?m st1))"
  have add: "trie_add env root (a + 1) ?n st = Inr (st2, child)"
    using assms(1-3,9,10) n by (simp add: trie_add_def st1 st2_def cp TRIE_COMP_LEN_def TRIE_MAX_CHILDREN_def word_less_nat_alt Let_def)
  have "str_at ?m (a + 1 + ?n) [SLASH]"
  proof -
    have "apart child (length name) (a + 1) (Suc (length (name @ [SLASH])))" by (rule apart_mono [OF assms(12)]) simp_all
    then have "str_at ?m (a + 1) (name @ [SLASH])" using co(5) assms(9) by (subst put_bytes_apart) simp_all
    from str_at_drop [OF this, of "length name"] show ?thesis by simp
  qed
  then have "mount_loop env child (a + 1 + ?n) st2 = ret (st2, child)"
    using skip_slashes_at [of ?m "a + 1 + ?n" "[SLASH]"]
    by (simp add: mount_loop.simps [of env child] st2_def)
  then have "mount_loop env root a st = ret (st2, child)"
    using co find_child_skips [of st root cs "[]", OF _ assms(4,5) co(5)] assms(1,9) add by (simp add: mount_loop.simps [of env root])
  then have "vfs_mount_vnode env root vn a st = ret (set_trie child ((fs_trie st2 child)\<lparr>root_vn := vn\<rparr>) st2, EOK)"
    by (simp add: vfs_mount_vnode_def)
  then show thesis by (rule that) (use s assms(2) in \<open>simp_all add: st2_def st1\<close>)
qed


text \<open>Mounting at a path whose component is not followed by a slash, such as \<open>/dev\<close>, writes 64 bytes into the array of
  32 bytes of the new node whenever the component is not in the trie yet.\<close>

theorem vfs_mount_overflow:
  assumes "trie_children (fs_trie st root) = []"
    and "str_at (fs_bytes st) a (SLASH # name)" "SLASH \<notin> set name" "name \<noteq> []"
    and "fs_alloc env SIZEOF_TRIE_NODE st = Inr (st1, child)"
  shows "vfs_mount_vnode env root vn a st = fail OutOfBounds"
proof -
  have s: "str_at (fs_bytes st) (a + 1) name" using assms(2) by simp
  have "skip_slashes (fs_bytes st) a = Some (a + 1)"
    using skip_slashes_at [OF assms(2)] no_lead [OF assms(3,4), of "[]"] by simp
  moreover have "fs_bytes st (a + 1) \<noteq> 0" "fs_bytes st a \<noteq> 0" using s assms(2,4) by (cases name; auto)+
  moreover have "strchr (fs_bytes st) (a + 1) SLASH = Some None" using strchr_at [OF s, of SLASH] assms(3) by simp
  moreover have "trie_add env root (a + 1) VFS_MAX_NAME_LEN st = Inl OutOfBounds"
    using assms(5) by (simp add: trie_add_def VFS_MAX_NAME_LEN_def TRIE_COMP_LEN_def)
  ultimately show ?thesis
    using assms(1) by (simp add: vfs_mount_vnode_def mount_loop.simps [of env root] find_child_def)
qed

text \<open>The last release of a tmpfs or devfs vnode unlocks a lock in memory that was just freed.\<close>

lemma VN_RELE_last:
  assumes "spinlock_acquire (fs_int st) (vn_slock (fs_vnodes st vn)) = Inr (i, l)" "vn_ref_count (fs_vnodes st vn) = 1"
    and "vn_ops (fs_vnodes st vn) \<in> {TmpfsOps, DevfsOps}" "page_cache (fs_vnodes st vn) = []"
    and "fe_heap_free env vn (fs_al st) = Inr al"
  shows "VN_RELE env vn st = Inl Undefined"
  using assms by (auto simp: VN_RELE_def Let_def vfs_close_def op_close_def tmpfs_close_def devfs_close_def fs_free_def set_vnode_def)

section \<open>Concrete mounts\<close>

text \<open>A heap whose next block is at \<^verbatim>\<open>0x5000\<close>, a trie with a node at \<^verbatim>\<open>0x3000\<close> for \<open>tmp\<close>, and the strings \<open>/dev/\<close> at
  \<^verbatim>\<open>0x1000\<close> and \<open>/de/null\<close> at \<^verbatim>\<open>0x2000\<close>.\<close>

definition mount_fs :: "unit fs" where
  "mount_fs = (toy_fs [])\<lparr>fs_bytes := put_str (put_str (mem_str 0x1000 [47, 100, 101, 118, 47]) 0x2000 [47, 100, 101, 47, 110, 117, 108, 108])
       0x3000 [116, 109, 112],
     fs_trie := (\<lambda>x. \<lparr>root_vn = 0x600, trie_children = (if x = 0x40 then [0x3000] else [])\<rparr>)\<rparr>"


end
