(* ===== verification/Printf.thy ===== *)
theory Printf
  imports Run Kstring_Correct
begin

text \<open>
  The formatted output of \<^verbatim>\<open>kernel/src/lib/printf.c\<close>, as the kernel builds it: without the floating point
  conversions (\<^verbatim>\<open>PRINTF_DISABLE_SUPPORT_FLOAT\<close>) and on a machine whose \<^verbatim>\<open>long\<close> has 64 bits and whose \<^verbatim>\<open>char\<close> is
  signed.  The state of the output is the byte memory with the index of the next character;
  the variable arguments are a list of 64 bit slots, and reading past them is undefined.
\<close>

section \<open>Output\<close>

definition PRINTF_NTOA_BUFFER_SIZE :: nat where "PRINTF_NTOA_BUFFER_SIZE = 32"

definition FLAGS_ZEROPAD :: u32 where "FLAGS_ZEROPAD = 0x1"
definition FLAGS_LEFT :: u32 where "FLAGS_LEFT = 0x2"
definition FLAGS_PLUS :: u32 where "FLAGS_PLUS = 0x4"
definition FLAGS_SPACE :: u32 where "FLAGS_SPACE = 0x8"
definition FLAGS_HASH :: u32 where "FLAGS_HASH = 0x10"
definition FLAGS_UPPERCASE :: u32 where "FLAGS_UPPERCASE = 0x20"
definition FLAGS_CHAR :: u32 where "FLAGS_CHAR = 0x40"
definition FLAGS_SHORT :: u32 where "FLAGS_SHORT = 0x80"
definition FLAGS_LONG :: u32 where "FLAGS_LONG = 0x100"
definition FLAGS_LONG_LONG :: u32 where "FLAGS_LONG_LONG = 0x200"
definition FLAGS_PRECISION :: u32 where "FLAGS_PRECISION = 0x400"

lemmas flag_defs = FLAGS_ZEROPAD_def FLAGS_LEFT_def FLAGS_PLUS_def FLAGS_SPACE_def FLAGS_HASH_def FLAGS_UPPERCASE_def
  FLAGS_CHAR_def FLAGS_SHORT_def FLAGS_LONG_def FLAGS_LONG_LONG_def FLAGS_PRECISION_def

definition has :: "u32 \<Rightarrow> u32 \<Rightarrow> bool" where
  "has flags f \<longleftrightarrow> flags AND f \<noteq> 0"

datatype out_fct_type = out_buffer | out_null

text \<open>Where the characters go: the function, the buffer and its length.\<close>

record sink =
  sk_out :: out_fct_type
  sk_buffer :: uptr
  sk_maxlen :: u64

definition out_char :: "sink \<Rightarrow> u8 \<Rightarrow> u64 \<Rightarrow> bytes \<Rightarrow> bytes" where
  "out_char s c idx m =
     (case sk_out s of
        out_buffer \<Rightarrow> if idx < sk_maxlen s then m(sk_buffer s + idx := c) else m
      | out_null \<Rightarrow> m)"

definition emit :: "sink \<Rightarrow> u8 \<Rightarrow> bytes \<times> u64 \<Rightarrow> bytes \<times> u64" where
  "emit s c st = (out_char s c (snd st) (fst st), snd st + 1)"

fun emits :: "sink \<Rightarrow> u8 list \<Rightarrow> bytes \<times> u64 \<Rightarrow> bytes \<times> u64" where
  "emits s [] st = st"
| "emits s (c # cs) st = emits s cs (emit s c st)"

function strnlen_s :: "bytes \<Rightarrow> uptr \<Rightarrow> u64 \<Rightarrow> uptr" where
  "strnlen_s m s maxsize = (if m s \<noteq> 0 \<and> maxsize \<noteq> 0 then strnlen_s m (s + 1) (maxsize - 1) else s)"
  by pat_completeness auto
termination
  by (relation "measure (\<lambda>(m, s, maxsize). unat maxsize)") (auto simp: unat_minus_one unat_gt_0)

declare strnlen_s.simps [simp del]

definition is_digit :: "u8 \<Rightarrow> bool" where
  "is_digit ch \<longleftrightarrow> 48 \<le> ch \<and> ch \<le> 57"

partial_function (option) atoi :: "bytes \<Rightarrow> uptr \<Rightarrow> u32 \<Rightarrow> (u32 \<times> uptr) option" where
  "atoi m str i = (if is_digit (m str) then atoi m (str + 1) (i * 10 + (ucast (m str) - 48)) else Some (i, str))"

text \<open>The buffer of a conversion is the list of the characters stored so far, the last digit first.\<close>

definition out_rev :: "sink \<Rightarrow> u8 list \<Rightarrow> u32 \<Rightarrow> u32 \<Rightarrow> bytes \<times> u64 \<Rightarrow> bytes \<times> u64" where
  "out_rev s buf width flags st =
     (let st1 = (if \<not> has flags FLAGS_LEFT \<and> \<not> has flags FLAGS_ZEROPAD
                 then emits s (replicate (unat width - length buf) 32) st else st);
          st2 = emits s (rev buf) st1
      in if has flags FLAGS_LEFT then emits s (replicate (unat width - unat (snd st2 - snd st)) 32) st2 else st2)"

section \<open>Integers\<close>

definition pad_zeros :: "nat \<Rightarrow> u8 list \<Rightarrow> u8 list" where
  "pad_zeros n buf = buf @ replicate (min n PRINTF_NTOA_BUFFER_SIZE - length buf) 48"

definition put_char :: "u8 \<Rightarrow> u8 list \<Rightarrow> u8 list" where
  "put_char c buf = (if length buf < PRINTF_NTOA_BUFFER_SIZE then buf @ [c] else buf)"

definition hash_prefix :: "u32 \<Rightarrow> u32 \<Rightarrow> u32 \<Rightarrow> u32 \<Rightarrow> u8 list \<Rightarrow> u8 list" where
  "hash_prefix base prec width flags buf =
     (let len = length buf;
          buf1 = (if \<not> has flags FLAGS_PRECISION \<and> len \<noteq> 0 \<and> (len = unat prec \<or> len = unat width)
                  then (if len - 1 \<noteq> 0 \<and> base = 16 then take (len - 2) buf else take (len - 1) buf)
                  else buf);
          buf2 = (if base = 16 then put_char (if has flags FLAGS_UPPERCASE then 88 else 120) buf1
                  else if base = 2 then put_char 98 buf1
                  else buf1)
      in put_char 48 buf2)"

definition ntoa_format ::
  "sink \<Rightarrow> u8 list \<Rightarrow> bool \<Rightarrow> u32 \<Rightarrow> u32 \<Rightarrow> u32 \<Rightarrow> u32 \<Rightarrow> bytes \<times> u64 \<Rightarrow> bytes \<times> u64" where
  "ntoa_format s buf negative base prec width flags st =
     (let pad = \<not> has flags FLAGS_LEFT;
          width1 = (if pad \<and> width \<noteq> 0 \<and> has flags FLAGS_ZEROPAD \<and> (negative \<or> has flags (FLAGS_PLUS OR FLAGS_SPACE))
                    then width - 1 else width);
          buf1 = (if pad then pad_zeros (unat prec) buf else buf);
          buf2 = (if pad \<and> has flags FLAGS_ZEROPAD then pad_zeros (unat width1) buf1 else buf1);
          buf3 = (if has flags FLAGS_HASH then hash_prefix base prec width1 flags buf2 else buf2);
          buf4 = (if negative then put_char 45 buf3
                  else if has flags FLAGS_PLUS then put_char 43 buf3
                  else if has flags FLAGS_SPACE then put_char 32 buf3
                  else buf3)
      in out_rev s buf4 width1 flags st)"

definition digit_char :: "u32 \<Rightarrow> u8 \<Rightarrow> u8" where
  "digit_char flags digit =
     (if digit < 10 then 48 + digit else (if has flags FLAGS_UPPERCASE then 65 else 97) + digit - 10)"

function ntoa_digits :: "u64 \<Rightarrow> u64 \<Rightarrow> u32 \<Rightarrow> u8 list \<Rightarrow> u8 list" where
  "ntoa_digits value base flags buf =
     (let buf1 = buf @ [digit_char flags (ucast (value mod base))];
          value1 = value div base
      in if value1 \<noteq> 0 \<and> length buf1 < PRINTF_NTOA_BUFFER_SIZE then ntoa_digits value1 base flags buf1 else buf1)"
  by pat_completeness auto
termination
  by (relation "measure (\<lambda>(value, base, flags, buf). PRINTF_NTOA_BUFFER_SIZE - length buf)") auto

declare ntoa_digits.simps [simp del]

definition ntoa_long ::
  "sink \<Rightarrow> u64 \<Rightarrow> bool \<Rightarrow> u64 \<Rightarrow> u32 \<Rightarrow> u32 \<Rightarrow> u32 \<Rightarrow> bytes \<times> u64 \<Rightarrow> bytes \<times> u64" where
  "ntoa_long s value negative base prec width flags st =
     (let flags1 = (if value = 0 then flags AND NOT FLAGS_HASH else flags);
          buf = (if \<not> has flags1 FLAGS_PRECISION \<or> value \<noteq> 0 then ntoa_digits value base flags1 [] else [])
      in ntoa_format s buf negative (ucast base) prec width flags1 st)"

text \<open>The types \<^verbatim>\<open>long\<close> and \<^verbatim>\<open>long long\<close> have the same width.\<close>

definition ntoa_long_long ::
  "sink \<Rightarrow> u64 \<Rightarrow> bool \<Rightarrow> u64 \<Rightarrow> u32 \<Rightarrow> u32 \<Rightarrow> u32 \<Rightarrow> bytes \<times> u64 \<Rightarrow> bytes \<times> u64" where
  "ntoa_long_long s value negative base prec width flags st =
     (let flags1 = (if value = 0 then flags AND NOT FLAGS_HASH else flags);
          buf = (if \<not> has flags1 FLAGS_PRECISION \<or> value \<noteq> 0 then ntoa_digits value base flags1 [] else [])
      in ntoa_format s buf negative (ucast base) prec width flags1 st)"

section \<open>The fields of a conversion\<close>

fun va_arg :: "u64 list \<Rightarrow> (u64 \<times> u64 list) res" where
  "va_arg [] = Inl Undefined"
| "va_arg (x # va) = Inr (x, va)"

partial_function (option) parse_flags :: "bytes \<Rightarrow> uptr \<Rightarrow> u32 \<Rightarrow> (u32 \<times> uptr) option" where
  "parse_flags m p flags =
     (if m p = 48 then parse_flags m (p + 1) (flags OR FLAGS_ZEROPAD)
      else if m p = 45 then parse_flags m (p + 1) (flags OR FLAGS_LEFT)
      else if m p = 43 then parse_flags m (p + 1) (flags OR FLAGS_PLUS)
      else if m p = 32 then parse_flags m (p + 1) (flags OR FLAGS_SPACE)
      else if m p = 35 then parse_flags m (p + 1) (flags OR FLAGS_HASH)
      else Some (flags, p))"

text \<open>A width from the arguments: a negative one pads on the right; the least integer has no negative.\<close>

definition parse_width :: "bytes \<Rightarrow> uptr \<Rightarrow> u32 \<Rightarrow> u64 list \<Rightarrow> (u32 \<times> u32 \<times> uptr \<times> u64 list) run" where
  "parse_width m p flags va =
     (if is_digit (m p) then seq (ends (atoi m p 0)) (\<lambda>(width, q). ret (flags, width, q, va))
      else if m p = 42 then
        seq (now (va_arg va)) (\<lambda>(x, va1).
        let w = ucast x :: u32
        in if w = 0x80000000 then fail Undefined
           else if sint w < 0 then ret (flags OR FLAGS_LEFT, - w, p + 1, va1)
           else ret (flags, w, p + 1, va1))
      else ret (flags, 0, p, va))"

definition parse_precision :: "bytes \<Rightarrow> uptr \<Rightarrow> u32 \<Rightarrow> u64 list \<Rightarrow> (u32 \<times> u32 \<times> uptr \<times> u64 list) run" where
  "parse_precision m p flags va =
     (if m p \<noteq> 46 then ret (flags, 0, p, va)
      else
        let flags1 = flags OR FLAGS_PRECISION; q = p + 1
        in if is_digit (m q) then seq (ends (atoi m q 0)) (\<lambda>(prec, r). ret (flags1, prec, r, va))
           else if m q = 42 then
             seq (now (va_arg va)) (\<lambda>(x, va1).
             let prec = ucast x :: u32 in ret (flags1, (if 0 < sint prec then prec else 0), q + 1, va1))
           else ret (flags1, 0, q, va))"

definition parse_length :: "bytes \<Rightarrow> uptr \<Rightarrow> u32 \<Rightarrow> u32 \<times> uptr" where
  "parse_length m p flags =
     (if m p = 108 then
        if m (p + 1) = 108 then (flags OR FLAGS_LONG OR FLAGS_LONG_LONG, p + 2) else (flags OR FLAGS_LONG, p + 1)
      else if m p = 104 then
        if m (p + 1) = 104 then (flags OR FLAGS_SHORT OR FLAGS_CHAR, p + 2) else (flags OR FLAGS_SHORT, p + 1)
      else if m p = 116 \<or> m p = 106 \<or> m p = 122 then (flags OR FLAGS_LONG, p + 1)
      else (flags, p))"

section \<open>Conversions\<close>

definition int_base :: "u8 \<Rightarrow> u64" where
  "int_base c = (if c = 120 \<or> c = 88 then 16 else if c = 111 then 8 else if c = 98 then 2 else 10)"

definition int_flags :: "u8 \<Rightarrow> u32 \<Rightarrow> u32" where
  "int_flags c flags =
     (let f1 = (if int_base c = 10 then flags AND NOT FLAGS_HASH else flags);
          f2 = (if c = 88 then f1 OR FLAGS_UPPERCASE else f1);
          f3 = (if c \<noteq> 105 \<and> c \<noteq> 100 then f2 AND NOT (FLAGS_PLUS OR FLAGS_SPACE) else f2)
      in if has f3 FLAGS_PRECISION then f3 AND NOT FLAGS_ZEROPAD else f3)"

text \<open>The magnitude and the sign of a signed argument; the negation of the least value overflows.\<close>

definition signed_arg :: "u32 \<Rightarrow> u64 \<Rightarrow> (u64 \<times> bool) res" where
  "signed_arg flags x =
     (if has flags FLAGS_LONG_LONG \<or> has flags FLAGS_LONG then
        if x = 0x8000000000000000 then Inl Undefined
        else Inr (if 0 < sint x then x else 0 - x, sint x < 0)
      else
        let v = (if has flags FLAGS_CHAR then scast (ucast x :: u8)
                 else if has flags FLAGS_SHORT then scast (ucast x :: 16 word)
                 else ucast x) :: u32
        in if v = 0x80000000 then Inl Undefined
           else Inr (ucast (if 0 < sint v then v else 0 - v), sint v < 0))"

definition unsigned_arg :: "u32 \<Rightarrow> u64 \<Rightarrow> u64" where
  "unsigned_arg flags x =
     (if has flags FLAGS_LONG_LONG \<or> has flags FLAGS_LONG then x
      else if has flags FLAGS_CHAR then ucast (ucast x :: u8)
      else if has flags FLAGS_SHORT then ucast (ucast x :: 16 word)
      else ucast (ucast x :: u32))"

definition format_int :: "sink \<Rightarrow> u8 \<Rightarrow> u32 \<Rightarrow> u32 \<Rightarrow> u32 \<Rightarrow> u64 \<Rightarrow> bytes \<times> u64 \<Rightarrow> (bytes \<times> u64) res" where
  "format_int s c flags width prec x st =
     (let flags1 = int_flags c flags;
          base = int_base c;
          ntoa = (if has flags1 FLAGS_LONG_LONG then ntoa_long_long else ntoa_long)
      in if c = 105 \<or> c = 100
         then rbind (signed_arg flags1 x) (\<lambda>(v, negative). Inr (ntoa s v negative base prec width flags1 st))
         else Inr (ntoa s (unsigned_arg flags1 x) False base prec width flags1 st))"

definition format_char :: "sink \<Rightarrow> u32 \<Rightarrow> u32 \<Rightarrow> u64 \<Rightarrow> bytes \<times> u64 \<Rightarrow> bytes \<times> u64" where
  "format_char s flags width x st =
     (let pad = replicate (unat width - 1) 32;
          st1 = (if has flags FLAGS_LEFT then st else emits s pad st);
          st2 = emit s (ucast x) st1
      in if has flags FLAGS_LEFT then emits s pad st2 else st2)"

partial_function (option) str_loop :: "sink \<Rightarrow> u32 \<Rightarrow> uptr \<Rightarrow> u32 \<Rightarrow> bytes \<times> u64 \<Rightarrow> (bytes \<times> u64) option" where
  "str_loop s flags p prec st =
     (if fst st p \<noteq> 0 \<and> (\<not> has flags FLAGS_PRECISION \<or> prec \<noteq> 0)
      then str_loop s flags (p + 1) (prec - 1) (emit s (fst st p) st)
      else Some st)"

text \<open>The blanks before or behind a string.\<close>

definition str_pad :: "bytes \<Rightarrow> u32 \<Rightarrow> u32 \<Rightarrow> u32 \<Rightarrow> uptr \<Rightarrow> u8 list" where
  "str_pad m flags width prec p =
     (let l = ucast (strnlen_s m p (if prec \<noteq> 0 then ucast prec else - 1) - p) :: u32;
          l1 = (if has flags FLAGS_PRECISION then (if l < prec then l else prec) else l)
      in replicate (unat width - unat l1) 32)"

definition format_str :: "sink \<Rightarrow> u32 \<Rightarrow> u32 \<Rightarrow> u32 \<Rightarrow> uptr \<Rightarrow> bytes \<times> u64 \<Rightarrow> (bytes \<times> u64) run" where
  "format_str s flags width prec p st =
     (if p = 0 then fail NullDeref
      else
        let pad = str_pad (fst st) flags width prec p;
            st1 = (if has flags FLAGS_LEFT then st else emits s pad st)
        in seq (ends (str_loop s flags p prec st1)) (\<lambda>st2.
           ret (if has flags FLAGS_LEFT then emits s pad st2 else st2)))"

text \<open>The conversion at \<open>p\<close>; the result is the position behind it and the arguments left.\<close>

definition convert ::
  "sink \<Rightarrow> u32 \<Rightarrow> u32 \<Rightarrow> u32 \<Rightarrow> uptr \<Rightarrow> u64 list \<Rightarrow> bytes \<times> u64 \<Rightarrow> (uptr \<times> u64 list \<times> bytes \<times> u64) run" where
  "convert s flags width prec p va st =
     (let c = fst st p
      in if c \<in> {100, 105, 117, 120, 88, 111, 98} then
           seq (now (va_arg va)) (\<lambda>(x, va1).
           seq (now (format_int s c flags width prec x st)) (\<lambda>st1. ret (p + 1, va1, st1)))
         else if c = 99 then
           seq (now (va_arg va)) (\<lambda>(x, va1). ret (p + 1, va1, format_char s flags width x st))
         else if c = 115 then
           seq (now (va_arg va)) (\<lambda>(x, va1). seq (format_str s flags width prec x st) (\<lambda>st1. ret (p + 1, va1, st1)))
         else if c = 112 then
           seq (now (va_arg va)) (\<lambda>(x, va1).
           ret (p + 1, va1, ntoa_long_long s x False 16 prec 16 (flags OR FLAGS_ZEROPAD OR FLAGS_UPPERCASE) st))
         else if c = 37 then ret (p + 1, va, emit s 37 st)
         else ret (p + 1, va, emit s c st))"

definition format_spec :: "sink \<Rightarrow> uptr \<Rightarrow> u64 list \<Rightarrow> bytes \<times> u64 \<Rightarrow> (uptr \<times> u64 list \<times> bytes \<times> u64) run" where
  "format_spec s p va st =
     seq (ends (parse_flags (fst st) p 0)) (\<lambda>(flags, p1).
     seq (parse_width (fst st) p1 flags va) (\<lambda>(flags1, width, p2, va1).
     seq (parse_precision (fst st) p2 flags1 va1) (\<lambda>(flags2, prec, p3, va2).
     let (flags3, p4) = parse_length (fst st) p3 flags2
     in convert s flags3 width prec p4 va2 st)))"

partial_function (option) vsnprintf_loop :: "sink \<Rightarrow> uptr \<Rightarrow> u64 list \<Rightarrow> bytes \<times> u64 \<Rightarrow> (bytes \<times> u64) run" where
  "vsnprintf_loop s format va st =
     (if fst st format = 0 then ret st
      else if fst st format \<noteq> 37 then vsnprintf_loop s (format + 1) va (emit s (fst st format) st)
      else seq (format_spec s (format + 1) va st) (\<lambda>(p, va1, st1). vsnprintf_loop s p va1 st1))"

text \<open>The whole call: the memory and the result, the index as an \<^verbatim>\<open>int\<close>.\<close>

definition vsnprintf_with :: "out_fct_type \<Rightarrow> bytes \<Rightarrow> uptr \<Rightarrow> u64 \<Rightarrow> uptr \<Rightarrow> u64 list \<Rightarrow> (bytes \<times> int) run" where
  "vsnprintf_with out m buffer maxlen format va =
     (let s = \<lparr>sk_out = (if buffer = 0 then out_null else out), sk_buffer = buffer, sk_maxlen = maxlen\<rparr>
      in seq (vsnprintf_loop s format va (m, 0)) (\<lambda>(m1, idx).
         ret (out_char s 0 (if idx < maxlen then idx else maxlen - 1) m1, sint (ucast idx :: u32))))"

definition sprintf :: "bytes \<Rightarrow> uptr \<Rightarrow> uptr \<Rightarrow> u64 list \<Rightarrow> (bytes \<times> int) run" where
  "sprintf m buffer format va = vsnprintf_with out_buffer m buffer (- 1) format va"

definition snprintf :: "bytes \<Rightarrow> uptr \<Rightarrow> u64 \<Rightarrow> uptr \<Rightarrow> u64 list \<Rightarrow> (bytes \<times> int) run" where
  "snprintf m buffer count format va = vsnprintf_with out_buffer m buffer count format va"

definition vsnprintf :: "bytes \<Rightarrow> uptr \<Rightarrow> u64 \<Rightarrow> uptr \<Rightarrow> u64 list \<Rightarrow> (bytes \<times> int) run" where
  "vsnprintf m buffer count format va = vsnprintf_with out_buffer m buffer count format va"

end
