(* ===== verification/Printf_Correct.thy ===== *)
theory Printf_Correct
  imports Printf
begin

text \<open>
  Formatted output stays inside its buffer and ends it with a zero, and the text of an unsigned
  number is the number.
\<close>

section \<open>Nothing outside the buffer\<close>

definition within :: "sink \<Rightarrow> bytes \<Rightarrow> bytes \<Rightarrow> bool" where
  "within s m m' \<longleftrightarrow> (\<forall>x. unat (sk_maxlen s) \<le> unat (x - sk_buffer s) \<longrightarrow> m' x = m x)"

lemma within_refl [simp]: "within s m m"
  by (simp add: within_def)

lemma within_trans: "within s m m1 \<Longrightarrow> within s m1 m2 \<Longrightarrow> within s m m2"
  by (simp add: within_def)

lemma out_char_within: "within s m (out_char s c idx m)"
  by (auto simp: within_def out_char_def word_less_nat_alt split: out_fct_type.split)

lemma emit_within: "within s m (fst st) \<Longrightarrow> within s m (fst (emit s c st))"
  using within_trans [OF _ out_char_within] by (simp add: emit_def)

lemma emits_within: "within s m (fst st) \<Longrightarrow> within s m (fst (emits s cs st))"
  by (induction cs arbitrary: st) (simp_all add: emit_within)

lemmas out_within = emit_within emits_within

lemma out_rev_within: "within s m (fst st) \<Longrightarrow> within s m (fst (out_rev s buf width flags st))"
  by (simp add: out_rev_def Let_def out_within)

lemma ntoa_within:
  "within s m (fst st) \<Longrightarrow> within s m (fst (ntoa_long s v n b prec width flags st))"
  "within s m (fst st) \<Longrightarrow> within s m (fst (ntoa_long_long s v n b prec width flags st))"
  by (simp_all add: ntoa_long_def ntoa_long_long_def ntoa_format_def Let_def out_rev_within del: if_split)

lemma format_int_within:
  "format_int s c flags width prec x st = Inr st1 \<Longrightarrow> within s m (fst st) \<Longrightarrow> within s m (fst st1)"
  by (auto simp: format_int_def Let_def ntoa_within split: if_splits prod.splits)

lemma str_loop_within:
  assumes "str_loop s flags p prec st = Some st1" "within s m (fst st)"
  shows "within s m (fst st1)"
proof -
  have "within s m (fst st) \<longrightarrow> within s m (fst st1)"
  proof (rule str_loop.raw_induct [where P = "\<lambda>s flags p prec st st1. within s m (fst st) \<longrightarrow> within s m (fst st1)", OF _ assms(1)])
  qed (auto simp: emit_within split: if_splits)
  then show ?thesis using assms(2) by blast
qed

lemma format_char_within: "within s m (fst st) \<Longrightarrow> within s m (fst (format_char s flags width x st))"
  by (simp add: format_char_def Let_def out_within)

lemma format_str_within:
  assumes "format_str s flags width prec p st = ret st1" "within s m (fst st)"
  shows "within s m (fst st1)"
proof -
  let ?pad = "str_pad (fst st) flags width prec p"
  have "p \<noteq> 0" using assms(1) by (auto simp: format_str_def)
  then obtain st2 where st2: "str_loop s flags p prec (if has flags FLAGS_LEFT then st else emits s ?pad st) = Some st2"
    and st1: "st1 = (if has flags FLAGS_LEFT then emits s ?pad st2 else st2)"
    using assms(1) by (simp add: format_str_def Let_def seq_eq_ret del: split_paired_Ex split: if_splits) blast+
  from st2 have "within s m (fst st2)" by (rule str_loop_within) (simp add: emits_within assms(2))
  then show ?thesis by (simp add: st1 emits_within)
qed

lemma convert_within:
  "convert s flags width prec p va st = ret (q, va1, st1) \<Longrightarrow> within s m (fst st) \<Longrightarrow> within s m (fst st1)"
  by (auto simp: convert_def Let_def seq_eq_ret format_char_within ntoa_within emit_within
      intro: format_str_within format_int_within split: if_splits)

lemma format_spec_within:
  "format_spec s p va st = ret (q, va1, st1) \<Longrightarrow> within s m (fst st) \<Longrightarrow> within s m (fst st1)"
  by (auto simp: format_spec_def Let_def seq_eq_ret case_prod_unfold intro: convert_within)

lemma vsnprintf_loop_within:
  assumes "vsnprintf_loop s format va st = ret st1" "within s m (fst st)"
  shows "within s m (fst st1)"
proof -
  let ?P = "\<lambda>s (format :: uptr) (va :: u64 list) st (r :: (bytes \<times> u64) res). \<forall>st1. r = Inr st1 \<longrightarrow> within s m (fst st) \<longrightarrow> within s m (fst st1)"
  have "?P s format va st (Inr st1)"
  proof (rule vsnprintf_loop.raw_induct [where P = ?P, OF _ assms(1) [unfolded ret_def]])
    fix f s format va st y
    assume IH: "\<And>s format va st y. f s format va st = Some y \<Longrightarrow> ?P s format va st y"
      and y: "(if fst st format = 0 then ret st
        else if fst st format \<noteq> 37 then f s (format + 1) va (emit s (fst st format) st)
        else seq (format_spec s (format + 1) va st) (\<lambda>(p, va1, st1). f s p va1 st1)) = Some y"
    show "?P s format va st y"
    proof (intro allI impI)
      fix st1
      assume "y = Inr st1" and w: "within s m (fst st)"
      consider "st1 = st" | "f s (format + 1) va (emit s (fst st format) st) = Some (Inr st1)"
        | p va1 st2 where "format_spec s (format + 1) va st = ret (p, va1, st2)" "f s p va1 st2 = Some (Inr st1)"
        using y \<open>y = Inr st1\<close> by (fastforce simp: ret_def [symmetric] seq_eq_ret split: if_splits)
      then show "within s m (fst st1)"
        by cases (use w IH emit_within format_spec_within in blast)+
    qed
  qed
  then show ?thesis using assms(2) by blast
qed

section \<open>The text\<close>

lemma emits_buffer:
  assumes "sk_out s = out_buffer" "unat idx + length cs < 2 ^ 64"
  shows "emits s cs (m, idx) = (put_bytes m (sk_buffer s + idx) (take (unat (sk_maxlen s) - unat idx) cs), idx + of_nat (length cs))"
  using assms(2)
proof (induction cs arbitrary: m idx)
  case (Cons c cs)
  have i: "unat (idx + 1) = Suc (unat idx)" using Cons.prems by (simp add: unat_add_nowrap)
  have "emits s (c # cs) (m, idx) = emits s cs (out_char s c idx m, idx + 1)" by (simp add: emit_def)
  also have "\<dots> = (put_bytes (out_char s c idx m) (sk_buffer s + (idx + 1)) (take (unat (sk_maxlen s) - Suc (unat idx)) cs),
      idx + of_nat (length (c # cs)))"
    using Cons.IH [of "idx + 1"] Cons.prems i by (simp add: add.assoc)
  also have "put_bytes (out_char s c idx m) (sk_buffer s + (idx + 1)) (take (unat (sk_maxlen s) - Suc (unat idx)) cs) =
      put_bytes m (sk_buffer s + idx) (take (unat (sk_maxlen s) - unat idx) (c # cs))"
  proof (cases "idx < sk_maxlen s")
    case True
    then have "take (unat (sk_maxlen s) - unat idx) (c # cs) = c # take (unat (sk_maxlen s) - Suc (unat idx)) cs"
      by (simp add: word_less_nat_alt take_Cons' Suc_diff_Suc)
    moreover have "length (take (unat (sk_maxlen s) - Suc (unat idx)) cs) < 2 ^ 64" using Cons.prems by simp
    ultimately show ?thesis using True assms(1) by (simp add: out_char_def put_bytes_Cons add.assoc)
  next
    case False
    then show ?thesis using assms(1) by (simp add: out_char_def word_less_nat_alt)
  qed
  finally show ?case .
qed simp

text \<open>The number that digits stand for, the last digit first.\<close>

definition digit_value :: "u8 \<Rightarrow> nat" where
  "digit_value c = (if 97 \<le> c then unat c - 87 else if 65 \<le> c then unat c - 55 else unat c - 48)"

definition number :: "nat \<Rightarrow> u8 list \<Rightarrow> nat" where
  "number b ds = foldr (\<lambda>c a. digit_value c + b * a) ds 0"

lemma digit_value_char:
  assumes "d < 16"
  shows "digit_value (digit_char flags d) = unat d" "digit_char flags d \<noteq> 0"
proof -
  have d: "unat d < 16" using assms by (simp add: word_less_nat_alt)
  have add: "unat (k + d) = unat k + unat d" if "unat k < 100" for k :: u8 using d that by (intro unat_add_nowrap) simp
  let ?k = "if d < 10 then 48 else if has flags FLAGS_UPPERCASE then 55 else 87 :: u8"
  have c: "digit_char flags d = ?k + d" by (simp add: digit_char_def)
  have k: "unat (digit_char flags d) = unat ?k + unat d" unfolding c by (rule add) simp
  then show "digit_value (digit_char flags d) = unat d"
    using d by (auto simp: digit_value_def word_le_nat_alt word_less_nat_alt split: if_splits)
  show "digit_char flags d \<noteq> 0" using k by (auto split: if_splits)
qed

lemma digit_at:
  assumes "1 < b" "b \<le> 16"
  shows "digit_value (digit_char flags (ucast (v mod b))) = unat v mod unat (b :: u64)" "digit_char flags (ucast (v mod b)) \<noteq> 0"
proof -
  have b: "unat b \<le> 16" "0 < unat b" using assms by (simp_all add: word_le_nat_alt word_less_nat_alt)
  have m: "unat (v mod b) = unat v mod unat b" by (simp add: unat_mod)
  also have "\<dots> < 16" using b mod_less_divisor [of "unat b" "unat v"] by linarith
  finally have l: "unat (v mod b) < 16" .
  then have u: "unat (ucast (v mod b) :: u8) = unat (v mod b)" by (simp add: unsigned_ucast_eq take_bit_nat_eq_self)
  then have "(ucast (v mod b) :: u8) < 16" using l by (simp add: word_less_nat_alt)
  from digit_value_char [OF this] u m show
    "digit_value (digit_char flags (ucast (v mod b))) = unat v mod unat b" "digit_char flags (ucast (v mod b)) \<noteq> 0" by simp_all
qed

text \<open>The digits of a number in a base up to 16, as long as the buffer has room for them.\<close>

lemma ntoa_digits_at:
  assumes "1 < b" "b \<le> 16" "unat v < unat b ^ Suc k" "length buf + Suc k \<le> 32"
  shows "\<exists>ds. ntoa_digits v b flags buf = buf @ ds \<and> number (unat b) ds = unat v \<and> 0 \<notin> set ds \<and> ds \<noteq> [] \<and> length ds \<le> Suc k"
  using assms(3,4)
proof (induction k arbitrary: v buf)
  case 0
  then have "unat (v div b) = 0" by (simp add: unat_div)
  then have "v div b = 0" by (simp add: unat_eq_zero)
  then have "ntoa_digits v b flags buf = buf @ [digit_char flags (ucast (v mod b))]"
    by (simp add: ntoa_digits.simps [of v])
  then show ?case using digit_at [OF assms(1,2), of flags v] 0 by (intro exI [of _ "[digit_char flags (ucast (v mod b))]"]) (auto simp: number_def)
next
  case (Suc k)
  let ?c = "digit_char flags (ucast (v mod b))"
  note c = digit_at [OF assms(1,2), of flags v]
  show ?case
  proof (cases "v div b = 0")
    case True
    then have "unat v div unat b = 0" by (metis unat_0 unat_div)
    then have "unat v mod unat b = unat v" by (metis mod_div_trivial mult_0_right add_0 mult_div_mod_eq)
    moreover have "ntoa_digits v b flags buf = buf @ [?c]" using True by (simp add: ntoa_digits.simps [of v])
    ultimately show ?thesis using c by (intro exI [of _ "[?c]"]) (auto simp: number_def)
  next
    case False
    have "unat (v div b) < unat b ^ Suc k"
      using Suc.prems(1) assms(1) by (simp add: unat_div less_mult_imp_div_less mult.commute)
    then obtain ds where ds: "ntoa_digits (v div b) b flags (buf @ [?c]) = (buf @ [?c]) @ ds" "number (unat b) ds = unat (v div b)"
      "0 \<notin> set ds" "length ds \<le> Suc k" using Suc.IH [of "v div b" "buf @ [?c]"] Suc.prems(2) by auto
    have "ntoa_digits v b flags buf = buf @ (?c # ds)"
      using False ds(1) Suc.prems(2) by (simp add: ntoa_digits.simps [of v] PRINTF_NTOA_BUFFER_SIZE_def)
    moreover have "number (unat b) (?c # ds) = unat v" using c(1) ds(2) by (simp add: number_def unat_div)
    ultimately show ?thesis using c(2) ds(3,4) by (intro exI [of _ "?c # ds"]) auto
  qed
qed

text \<open>Without flags, width and precision the digits are all there is.\<close>

lemma ntoa_plain:
  assumes "flags \<in> {FLAGS_LONG, FLAGS_LONG OR FLAGS_UPPERCASE}"
  shows "ntoa_long s v False b 0 0 flags st = emits s (rev (ntoa_digits v b flags [])) st"
proof -
  have "\<not> has flags f" "\<not> has (flags AND NOT FLAGS_HASH) f"
    if "f \<in> {FLAGS_LEFT, FLAGS_ZEROPAD, FLAGS_HASH, FLAGS_PLUS, FLAGS_SPACE, FLAGS_PRECISION}" for f
    using assms that by (auto simp: has_def flag_defs)
  moreover have "flags AND NOT FLAGS_HASH = flags" using assms by (auto simp: flag_defs)
  ultimately show ?thesis by (simp add: ntoa_long_def ntoa_format_def out_rev_def pad_zeros_def Let_def)
qed

lemma format_long:
  assumes "c \<in> {117, 120, 88, 111}"
  shows "\<exists>flags. \<forall>v st. format_int s c FLAGS_LONG 0 0 v st = Inr (emits s (rev (ntoa_digits v (int_base c) flags [])) st)"
proof -
  let ?f = "if c = 88 then FLAGS_LONG OR FLAGS_UPPERCASE else FLAGS_LONG"
  have f: "int_flags c FLAGS_LONG = ?f" "has ?f FLAGS_LONG" "\<not> has ?f FLAGS_LONG_LONG"
    using assms by (auto simp: int_flags_def int_base_def has_def flag_defs Let_def)
  have "ntoa_long s v False (int_base c) 0 0 ?f st = emits s (rev (ntoa_digits v (int_base c) ?f [])) st" for v st
    by (rule ntoa_plain) simp
  then show ?thesis using assms f by (intro exI [of _ ?f]) (auto simp: format_int_def Let_def unsigned_arg_def)
qed

text \<open>A format that is one conversion \<^verbatim>\<open>%lu\<close>, \<^verbatim>\<open>%lx\<close>, \<^verbatim>\<open>%lX\<close> or \<^verbatim>\<open>%lo\<close>.\<close>

lemma format_spec_long:
  assumes "str_at m f [37, 108, c]" "c \<in> {117, 120, 88, 111}" "format_int s c FLAGS_LONG 0 0 v (m, idx) = Inr st1"
  shows "format_spec s (f + 1) (v # va) (m, idx) = ret (f + 3, va, st1)"
proof -
  have m: "m (f + 1) = 108" "m (f + 2) = c" using assms(1) by (simp_all add: add.assoc)
  have "parse_flags m (f + 1) 0 = Some (0, f + 1)" by (simp add: parse_flags.simps [of m] m)
  moreover have "parse_width m (f + 1) 0 (v # va) = ret (0, 0, f + 1, v # va)" by (simp add: parse_width_def m is_digit_def)
  moreover have "parse_precision m (f + 1) 0 (v # va) = ret (0, 0, f + 1, v # va)" by (simp add: parse_precision_def m)
  moreover have "parse_length m (f + 1) 0 = (FLAGS_LONG, f + 2)" using m assms(2) by (auto simp: parse_length_def add.assoc)
  moreover have "convert s FLAGS_LONG 0 0 (f + 2) (v # va) (m, idx) = ret (f + 3, va, st1)"
    using m(2) assms(2,3) by (auto simp: convert_def add.assoc)
  ultimately show ?thesis by (simp add: format_spec_def)
qed

text \<open>\<^verbatim>\<open>snprintf\<close> with the format \<^verbatim>\<open>%lu\<close>, \<^verbatim>\<open>%lx\<close>, \<^verbatim>\<open>%lX\<close> or \<^verbatim>\<open>%lo\<close> and a buffer of at least 23 bytes returns; it leaves in the
  buffer a string whose digits, read in the base of the conversion, are the argument, and returns its length.\<close>

theorem snprintf_unsigned:
  assumes "str_at m f [37, 108, c]" "c \<in> {117, 120, 88, 111}" "buffer \<noteq> 0" "23 \<le> unat count"
    and "unat count \<le> unat (f + 3 - buffer)"
  shows "\<exists>m' ds. snprintf m buffer count f (v # va) = ret (m', int (length ds)) \<and> str_at m' buffer ds \<and>
    number (unat (int_base c)) (rev ds) = unat v"
proof -
  let ?s = "\<lparr>sk_out = out_buffer, sk_buffer = buffer, sk_maxlen = count\<rparr>" and ?b = "int_base c"
  obtain flags where fl: "\<And>v st. format_int ?s c FLAGS_LONG 0 0 v st = Inr (emits ?s (rev (ntoa_digits v ?b flags [])) st)"
    using format_long [OF assms(2)] by blast
  have b: "1 < ?b" "?b \<le> 16" "8 \<le> unat ?b" using assms(2) by (auto simp: int_base_def)
  have "unat v < 8 ^ 22" using u64_bound [of v] by simp
  also have "(8 :: nat) ^ 22 \<le> unat ?b ^ 22" using b(3) by (rule power_mono) simp
  finally obtain ds where ds: "ntoa_digits v ?b flags [] = ds" "number (unat ?b) ds = unat v" "0 \<notin> set ds" "length ds \<le> 22"
    using ntoa_digits_at [OF b(1,2), of v 21 "[]" flags] by auto
  let ?m1 = "put_bytes m buffer (rev ds)" and ?n = "of_nat (length ds) :: u64"
  have n: "unat ?n = length ds" using ds(4) by (intro of_nat_u64) simp
  have e: "emits ?s (rev ds) (m, 0) = (?m1, ?n)" using emits_buffer [of ?s 0 "rev ds" m] ds(4) assms(4) by simp
  have "?m1 (f + 3) = 0"
    using assms(1,4,5) ds(4) by (simp add: put_bytes_def add.assoc)
  then have "vsnprintf_loop ?s f (v # va) (m, 0) = ret (?m1, ?n)"
    using format_spec_long [where v = v and idx = 0 and va = va, OF assms(1,2) fl] assms(1) e ds(1)
    by (simp add: vsnprintf_loop.simps [of _ f] vsnprintf_loop.simps [of _ "f + 3"])
  moreover have "?n < count" using n ds(4) assms(4) by (simp add: word_less_nat_alt)
  moreover have "sint (ucast ?n :: u32) = int (length ds)"
  proof -
    have "unat (ucast ?n :: u32) = length ds" using n ds(4) by (simp add: unsigned_ucast_eq take_bit_nat_eq_self)
    then show ?thesis using ds(4) sint_small [of "ucast ?n"] by simp
  qed
  ultimately have "snprintf m buffer count f (v # va) = ret (?m1(buffer + ?n := 0), int (length ds))"
    using assms(3) by (simp add: snprintf_def vsnprintf_with_def out_char_def)
  moreover have "str_at (?m1(buffer + ?n := 0)) buffer (rev ds)"
    using put_bytes_end [of "rev ds" m buffer] put_str_at [of "rev ds" m buffer] ds(3,4) by simp
  ultimately show ?thesis using ds(2) by (intro exI [of _ "?m1(buffer + ?n := 0)"] exI [of _ "rev ds"]) simp
qed

text \<open>C24: whatever the format and the arguments, a call of \<^verbatim>\<open>vsnprintf\<close> that returns has changed no byte outside the
  \<open>count\<close> bytes of the buffer, and the text in a buffer that is not empty ends with a zero.\<close>

theorem vsnprintf_bounded:
  assumes "vsnprintf m buffer count format va = ret (m', n)" "buffer \<noteq> 0"
  shows "(\<forall>x. unat count \<le> unat (x - buffer) \<longrightarrow> m' x = m x) \<and> (count \<noteq> 0 \<longrightarrow> (\<exists>i < unat count. m' (buffer + of_nat i) = 0))"
proof -
  let ?s = "\<lparr>sk_out = out_buffer, sk_buffer = buffer, sk_maxlen = count\<rparr>"
  obtain m1 idx where l: "vsnprintf_loop ?s format va (m, 0) = ret (m1, idx)"
    and m': "m' = out_char ?s 0 (if idx < count then idx else count - 1) m1"
    using assms by (auto simp: vsnprintf_def vsnprintf_with_def Let_def seq_eq_ret split del: if_split)
  have "within ?s m m'" unfolding m' using within_trans [OF _ out_char_within] vsnprintf_loop_within [OF l, of m] by simp
  moreover have "\<exists>i < unat count. m' (buffer + of_nat i) = 0" if "count \<noteq> 0"
  proof -
    let ?i = "if idx < count then idx else count - 1"
    have "?i < count" using that by (simp add: word_less_nat_alt unat_minus_one unat_gt_0)
    then have "m' (buffer + of_nat (unat ?i)) = 0" "unat ?i < unat count" by (simp_all add: m' out_char_def word_less_nat_alt)
    then show ?thesis by blast
  qed
  ultimately show ?thesis by (simp add: within_def)
qed

text \<open>A format that ends behind a percent sign: its terminating zero is printed and the scan goes on behind it.\<close>

lemma format_truncated:
  assumes "m p = 0"
  shows "format_spec s p va (m, idx) = ret (p + 1, va, emit s 0 (m, idx))"
proof -
  have "parse_flags m p 0 = Some (0, p)" "parse_width m p 0 va = ret (0, 0, p, va)" "parse_precision m p 0 va = ret (0, 0, p, va)"
    "parse_length m p 0 = (0, p)"
    using assms by (simp_all add: parse_flags.simps [of m] parse_width_def parse_precision_def parse_length_def is_digit_def)
  then show ?thesis using assms by (simp add: format_spec_def convert_def)
qed

section \<open>Concrete calls\<close>

theorem vsnprintf_bounded_witness:
  "\<exists>m'. vsnprintf (put_str (\<lambda>_. 7) 0x2000 [65]) 0x1000 8 0x2000 [] = ret (m', 1) \<and> m' 0x1008 = 7"
proof -
  let ?m = "put_str (\<lambda>_. 7) 0x2000 [65]"
  have r: "vsnprintf ?m 0x1000 8 0x2000 [] = ret (?m(0x1000 := 65, 0x1001 := 0), 1)"
    by (simp add: vsnprintf_def vsnprintf_with_def vsnprintf_loop.simps [of _ "0x2000"] vsnprintf_loop.simps [of _ "0x2001"]
        emit_def out_char_def put_str_def)
  have "(?m(0x1000 := 65, 0x1001 := 0)) 0x1008 = ?m 0x1008"
    by (rule vsnprintf_bounded [OF r, THEN conjunct1, rule_format]) simp_all
  then show ?thesis using r by (auto simp: put_str_def)
qed

end
