(* ===== verification/Resource.thy ===== *)
theory Resource
  imports Vfs Vmm
begin

text \<open>
  The resource table of a process (\<^verbatim>\<open>kernel/src/sys/resource.c\<close>) and the system calls on it
  (\<^verbatim>\<open>kernel/src/syscalls/io.c\<close>, \<^verbatim>\<open>mem.c\<close>).  A table is the list of its pointers, with 0 for a free
  slot; the resources are structures at their addresses.  A file descriptor is a C \<^verbatim>\<open>int\<close>.
\<close>

section \<open>The table\<close>

definition RESOURCE_READ :: u8 where "RESOURCE_READ = 1"
definition RESOURCE_WRITE :: u8 where "RESOURCE_WRITE = 2"

record resource_t =
  res_node :: uptr
  res_offset :: u64
  res_flags :: u8

definition SIZEOF_RESOURCE :: u64 where "SIZEOF_RESOURCE = 24"

record resource_table_t =
  rt_resources :: "uptr list"
  rt_length :: u32
  rt_lock :: spinlock_t

text \<open>The allocator, the interrupt flag, the resources and the table of the process.\<close>

record 's rs =
  rs_al :: 's
  rs_int :: bool
  rs_objs :: "uptr \<Rightarrow> resource_t"
  rs_table :: resource_table_t

definition resource_table_new :: resource_table_t where
  "resource_table_new = \<lparr>rt_resources = [], rt_length = 0, rt_lock = SPINLOCK_INIT\<rparr>"

definition rs_acquire :: "'s rs \<Rightarrow> 's rs res" where
  "rs_acquire st =
     rbind (spinlock_acquire (rs_int st) (rt_lock (rs_table st))) (\<lambda>(i, l).
     Inr (st\<lparr>rs_int := i, rs_table := (rs_table st)\<lparr>rt_lock := l\<rparr>\<rparr>))"

definition rs_release :: "'s rs \<Rightarrow> 's rs" where
  "rs_release st =
     (let (i, l) = spinlock_release (rs_int st) (rt_lock (rs_table st))
      in st\<lparr>rs_int := i, rs_table := (rs_table st)\<lparr>rt_lock := l\<rparr>\<rparr>)"

text \<open>
  The reallocation (\<^verbatim>\<open>heap_realloc\<close>, with the old and the new size in bytes) keeps the entries there
  are; the new ones are cleared.
\<close>

definition resource_table_expand :: "(u64 \<Rightarrow> u64 \<Rightarrow> 's \<Rightarrow> ('s \<times> uptr) res) \<Rightarrow> u32 \<Rightarrow> 's rs \<Rightarrow> 's rs res" where
  "resource_table_expand heap_realloc amount st =
     rbind (rs_acquire st) (\<lambda>st1.
     let t = rs_table st1; new_len = rt_length t + amount
     in rbind (heap_realloc (scast (rt_length t) * 8) (ucast new_len * 8) (rs_al st1)) (\<lambda>(al, p).
        if p = 0 then Inl NullDeref
        else Inr (rs_release (st1\<lparr>rs_al := al, rs_table :=
               t\<lparr>rt_resources := take (unat (rt_length t)) (rt_resources t) @ replicate (unat amount) 0, rt_length := new_len\<rparr>\<rparr>))))"

definition resource_create_at :: "'s fs_env \<Rightarrow> int \<Rightarrow> uptr \<Rightarrow> u64 \<Rightarrow> u8 \<Rightarrow> bool \<Rightarrow> 's rs \<Rightarrow> ('s rs \<times> uptr) res" where
  "resource_create_at env rid node offset flags lock_acq st =
     rbind (assert_c (rid < sint (rt_length (rs_table st)))) (\<lambda>_.
     rbind (if lock_acq then Inr st else rs_acquire st) (\<lambda>st1.
     rbind (fe_heap_alloc env SIZEOF_RESOURCE (rs_al st1)) (\<lambda>(al, res).
     if res = 0 then Inl NullDeref
     else if rid < 0 then Inl OutOfBounds
     else
       let t = rs_table st1;
           st2 = st1\<lparr>rs_al := al, rs_objs := (rs_objs st1)(res := \<lparr>res_node = node, res_offset = offset, res_flags = flags\<rparr>),
                     rs_table := t\<lparr>rt_resources := (rt_resources t)[nat rid := res]\<rparr>\<rparr>
       in Inr (if lock_acq then st2 else rs_release st2, res))))"

text \<open>The first free slot, or the length if there is none.\<close>

fun free_slot :: "uptr list \<Rightarrow> nat" where
  "free_slot [] = 0"
| "free_slot (r # rs) = (if r = 0 then 0 else Suc (free_slot rs))"

definition resource_create :: "'s fs_env \<Rightarrow> uptr \<Rightarrow> u64 \<Rightarrow> u8 \<Rightarrow> 's rs \<Rightarrow> ('s rs \<times> int) res" where
  "resource_create env node offset flags st =
     rbind (rs_acquire st) (\<lambda>st1.
     let i = free_slot (take (nat (sint (rt_length (rs_table st1)))) (rt_resources (rs_table st1)))
     in rbind (if int i < sint (rt_length (rs_table st1))
               then rbind (resource_create_at env (int i) node offset flags True st1) (\<lambda>(st2, _). Inr st2)
               else Inr st1) (\<lambda>st2.
        Inr (rs_release st2, int i)))"

text \<open>The pointer, 0 for a descriptor out of range.\<close>

definition resource_get :: "resource_table_t \<Rightarrow> int \<Rightarrow> uptr" where
  "resource_get t rid = (if rid < 0 \<or> sint (rt_length t) \<le> rid then 0 else rt_resources t ! nat rid)"

section \<open>System calls on files\<close>

text \<open>What a call works on: the files, the table of the calling process and the strings it logged.\<close>

record 's sys =
  sy_fs :: "'s fs"
  sy_objs :: "uptr \<Rightarrow> resource_t"
  sy_table :: resource_table_t
  sy_log :: "uptr list"

text \<open>The value and the error of a call, 64 bits each.\<close>

record sys_ret_t =
  sr_value :: u64
  sr_error :: u64

definition sys_ret :: "u64 \<Rightarrow> int \<Rightarrow> sys_ret_t" where
  "sys_ret v e = \<lparr>sr_value = v, sr_error = of_int e\<rparr>"

definition sys_create :: "'s fs_env \<Rightarrow> uptr \<Rightarrow> u64 \<Rightarrow> u8 \<Rightarrow> 's sys \<Rightarrow> ('s sys \<times> int) res" where
  "sys_create env node offset flags st =
     rbind (resource_create env node offset flags
              \<lparr>rs_al = fs_al (sy_fs st), rs_int = fs_int (sy_fs st), rs_objs = sy_objs st, rs_table = sy_table st\<rparr>) (\<lambda>(r, i).
     Inr (st\<lparr>sy_fs := (sy_fs st)\<lparr>fs_al := rs_al r, fs_int := rs_int r\<rparr>, sy_objs := rs_objs r, sy_table := rs_table r\<rparr>, i))"

text \<open>Closing indexes the table without looking at its length.\<close>

definition syscall_close :: "int \<Rightarrow> 's sys \<Rightarrow> ('s sys \<times> sys_ret_t) res" where
  "syscall_close fd st =
     (let rs = rt_resources (sy_table st)
      in if fd < 0 \<or> int (length rs) \<le> fd then Inl OutOfBounds
         else if rs ! nat fd = 0 then Inr (st, sys_ret 0 EBADF)
         else Inr (st\<lparr>sy_table := (sy_table st)\<lparr>rt_resources := rs[nat fd := 0]\<rparr>\<rparr>, sys_ret 0 EOK))"

definition op_ioctl :: "uptr \<Rightarrow> u64 \<Rightarrow> uptr \<Rightarrow> 's fs \<Rightarrow> int res" where
  "op_ioctl vn request args st =
     (case vn_ops (fs_vnodes st vn) of
        TmpfsOps \<Rightarrow> Inr (tmpfs_ioctl vn request args st)
      | UstarOps \<Rightarrow> Inl NullDeref
      | DevfsOps \<Rightarrow> Inr (devfs_ioctl vn request args st)
      | NoOps \<Rightarrow> Inl NullDeref)"

definition syscall_ioctl :: "int \<Rightarrow> int \<Rightarrow> uptr \<Rightarrow> 's sys \<Rightarrow> ('s sys \<times> sys_ret_t) res" where
  "syscall_ioctl fd op argp st =
     (let res = resource_get (sy_table st) fd
      in if res = 0 then Inr (st, sys_ret 0 EBADF)
         else
           let node = res_node (sy_objs st res)
           in if node = 0 then Inr (st, sys_ret 0 EBADF)
              else rbind (op_ioctl node (of_int op) argp (sy_fs st)) (\<lambda>e. Inr (st, sys_ret 0 e)))"

definition syscall_open :: "'s fs_env \<Rightarrow> uptr \<Rightarrow> uptr \<Rightarrow> int \<Rightarrow> int \<Rightarrow> 's sys \<Rightarrow> ('s sys \<times> sys_ret_t) run" where
  "syscall_open env root path flags mode st =
     seq (vfs_open root path (sy_fs st)) (\<lambda>(fs1, r, node).
     let st1 = st\<lparr>sy_fs := fs1\<rparr>
     in if r \<noteq> 0 then ret (st1, sys_ret 0 r)
        else seq (now (sys_create env node 0 (RESOURCE_READ OR RESOURCE_WRITE) st1)) (\<lambda>(st2, i).
          ret (st2, sys_ret (of_int i) EOK)))"

text \<open>The node behind a descriptor that allows \<open>mode\<close>, 0 if there is none.\<close>

definition res_for :: "u8 \<Rightarrow> int \<Rightarrow> 's sys \<Rightarrow> uptr" where
  "res_for mode fd st =
     (let res = resource_get (sy_table st) fd
      in if res = 0 \<or> res_flags (sy_objs st res) AND mode = 0 then 0
         else if res_node (sy_objs st res) = 0 then 0
         else res)"

text \<open>When the transfer fails, the count that is returned was never assigned.\<close>

definition syscall_read :: "'s fs_env \<Rightarrow> int \<Rightarrow> uptr \<Rightarrow> u64 \<Rightarrow> 's sys \<Rightarrow> ('s sys \<times> sys_ret_t) run" where
  "syscall_read env fd buf count st =
     (let res = res_for RESOURCE_READ fd st; r = sy_objs st res
      in if res = 0 then ret (st, sys_ret 0 EBADF)
         else seq (vfs_read env (res_node r) (res_offset r) buf count (sy_fs st)) (\<lambda>(fs1, err, out).
           if err \<noteq> EOK then fail Undefined else ret (st\<lparr>sy_fs := fs1\<rparr>, sys_ret out err)))"

definition SEEK_SET :: int where "SEEK_SET = 0"
definition SEEK_CUR :: int where "SEEK_CUR = 1"
definition SEEK_END :: int where "SEEK_END = 2"

definition syscall_seek :: "int \<Rightarrow> u64 \<Rightarrow> int \<Rightarrow> 's sys \<Rightarrow> 's sys \<times> sys_ret_t" where
  "syscall_seek fd offset whence st =
     (if fd = 0 \<or> fd = 1 \<or> fd = 2 then (st, sys_ret offset EOK)
      else
        let res = resource_get (sy_table st) fd
        in if res = 0 then (st, sys_ret 0 EBADF)
           else
             let r = sy_objs st res
             in if res_node r = 0 then (st, sys_ret 0 EBADF)
                else
                  let size = vn_size (fs_vnodes (sy_fs st) (res_node r));
                      new_offset = (if whence = SEEK_SET then Some offset
                                    else if whence = SEEK_CUR then Some (res_offset r + offset)
                                    else if whence = SEEK_END then Some (size + offset)
                                    else None)
                  in case new_offset of
                       None \<Rightarrow> (st, sys_ret 0 EINVAL)
                     | Some n \<Rightarrow>
                         if size < n then (st, sys_ret 0 EINVAL)
                         else (st\<lparr>sy_objs := (sy_objs st)(res := r\<lparr>res_offset := n\<rparr>)\<rparr>, sys_ret n EOK))"

definition syscall_write :: "'s fs_env \<Rightarrow> int \<Rightarrow> uptr \<Rightarrow> u64 \<Rightarrow> 's sys \<Rightarrow> ('s sys \<times> sys_ret_t) run" where
  "syscall_write env fd buf count st =
     (if fd \<le> 2
      then ret (if fd = 1 \<or> fd = 2 then st\<lparr>sy_log := sy_log st @ [buf]\<rparr> else st, sys_ret count EOK)
      else
        let res = res_for RESOURCE_WRITE fd st; r = sy_objs st res
        in if res = 0 then ret (st, sys_ret 0 EBADF)
           else seq (vfs_write env (res_node r) (res_offset r) buf count (sy_fs st)) (\<lambda>(fs1, err, out).
             if err \<noteq> EOK then fail Undefined else ret (st\<lparr>sy_fs := fs1\<rparr>, sys_ret out err)))"

definition syscall_debug_log :: "uptr \<Rightarrow> 's sys \<Rightarrow> 's sys \<times> sys_ret_t" where
  "syscall_debug_log str st = (st\<lparr>sy_log := sy_log st @ [str]\<rparr>, sys_ret 0 EOK)"

section \<open>Mapping memory\<close>

definition MAP_ANON :: int where "MAP_ANON = 0x20"

text \<open>The protection and the flags of the caller are not passed on.\<close>

definition syscall_mmap ::
  "('v, uptr) vmm_env \<Rightarrow> ('v, uptr) vmm \<Rightarrow> uptr vmm_addr_space_t \<Rightarrow> uptr \<Rightarrow> u64 \<Rightarrow> int \<Rightarrow> int \<Rightarrow> int \<Rightarrow> u64 \<Rightarrow>
   's sys \<Rightarrow> (('v, uptr) vmm \<times> uptr vmm_addr_space_t \<times> sys_ret_t) res" where
  "syscall_mmap env vm as addr len prot flags fd offset st =
     (let res = resource_get (sy_table st) fd; node = res_node (sy_objs st res)
      in if flags AND MAP_ANON = 0 \<and> (res = 0 \<or> node = 0) then Inr (vm, as, sys_ret 0 EBADF)
         else
           let vnode = (if flags AND MAP_ANON = 0 then Some node else None);
               offset1 = (if flags AND MAP_ANON = 0 then offset else 0)
           in rbind (vmm_mmap env vm as addr len 0 (VMM_MAP_ANON OR VMM_MAP_PRIVATE) vnode offset1) (\<lambda>(vm1, as1, virt).
              Inr (vm1, as1, sys_ret virt EOK)))"

end
