(* ===== verification/Resource_Correct.thy ===== *)
theory Resource_Correct
  imports Resource Fs_Correct
begin

text \<open>
  A new resource is found under its descriptor, and a file cannot be mapped.
\<close>

section \<open>The table\<close>

text \<open>The array has the recorded length, and nobody holds the lock between two calls.\<close>

definition rt_ok :: "resource_table_t \<Rightarrow> bool" where
  "rt_ok t \<longleftrightarrow> length (rt_resources t) = unat (rt_length t) \<and> unat (rt_length t) < 2 ^ 31 \<and> sl_lock (rt_lock t) = 0"

lemma rt_ok_len: "rt_ok t \<Longrightarrow> sint (rt_length t) = int (length (rt_resources t))"
  by (simp only: rt_ok_def sint_small)

lemma rs_acquire_ok:
  "rt_ok (rs_table st) \<Longrightarrow> rs_acquire st =
    Inr (st\<lparr>rs_int := False, rs_table := (rs_table st)\<lparr>rt_lock := \<lparr>sl_lock = 1, prev_int_state = rs_int st\<rparr>\<rparr>\<rparr>)"
  by (simp add: rs_acquire_def rt_ok_def spinlock_acquire_def)

lemma free_slot_le: "free_slot rs \<le> length rs"
  by (induction rs) auto

lemma free_slot_null: "free_slot rs < length rs \<Longrightarrow> rs ! free_slot rs = 0"
  by (induction rs) auto

lemma free_slot_full: "free_slot rs = length rs \<longleftrightarrow> 0 \<notin> set rs"
  by (induction rs) auto

text \<open>The two ways a creation ends: in the first free slot, or with the length of a full table.\<close>

lemma resource_create_at_ok:
  assumes "rt_ok (rs_table st)" "fe_heap_alloc env SIZEOF_RESOURCE (rs_al st) = Inr (al, p)" "p \<noteq> 0"
    and "free_slot (rt_resources (rs_table st)) < length (rt_resources (rs_table st))"
  shows "\<exists>st1. resource_create env node offset flags st = Inr (st1, int (free_slot (rt_resources (rs_table st)))) \<and>
    rt_resources (rs_table st1) = (rt_resources (rs_table st))[free_slot (rt_resources (rs_table st)) := p] \<and>
    rt_length (rs_table st1) = rt_length (rs_table st) \<and> sl_lock (rt_lock (rs_table st1)) = 0 \<and> rs_int st1 = rs_int st \<and>
    rs_objs st1 = (rs_objs st)(p := \<lparr>res_node = node, res_offset = offset, res_flags = flags\<rparr>) \<and> rs_al st1 = al"
  using assms rt_ok_len [OF assms(1)]
  by (simp add: rs_acquire_ok resource_create_def resource_create_at_def rs_release_def spinlock_release_def Let_def)

lemma resource_create_full:
  assumes "rt_ok (rs_table st)" "0 \<notin> set (rt_resources (rs_table st))"
  shows "\<exists>st1. resource_create env node offset flags st = Inr (st1, int (length (rt_resources (rs_table st)))) \<and>
    rt_resources (rs_table st1) = rt_resources (rs_table st) \<and> rt_length (rs_table st1) = rt_length (rs_table st) \<and>
    sl_lock (rt_lock (rs_table st1)) = 0 \<and> rs_objs st1 = rs_objs st \<and> rs_int st1 = rs_int st \<and> rs_al st1 = rs_al st"
  using assms free_slot_full [of "rt_resources (rs_table st)"] rt_ok_len [OF assms(1)]
  by (simp add: rs_acquire_ok resource_create_def rs_release_def spinlock_release_def Let_def)

text \<open>C32: creating a resource in a well-formed table returns.  With a free slot, the descriptor returned leads to the new
  resource, every other descriptor to what it led to before; in a full table nothing changes and the descriptor
  returned leads nowhere.\<close>

theorem resource_create_get:
  assumes "rt_ok (rs_table st)" "fe_heap_alloc env SIZEOF_RESOURCE (rs_al st) = Inr (al, p)" "p \<noteq> 0"
  shows "\<exists>st1 i. resource_create env node offset flags st = Inr (st1, i) \<and> rt_ok (rs_table st1) \<and>
    (if 0 \<in> set (rt_resources (rs_table st))
     then resource_get (rs_table st) i = 0 \<and> resource_get (rs_table st1) i = p \<and>
       rs_objs st1 p = \<lparr>res_node = node, res_offset = offset, res_flags = flags\<rparr> \<and>
       (\<forall>j. j \<noteq> i \<longrightarrow> resource_get (rs_table st1) j = resource_get (rs_table st) j)
     else rs_objs st1 = rs_objs st \<and> resource_get (rs_table st1) i = 0 \<and>
       (\<forall>j. resource_get (rs_table st1) j = resource_get (rs_table st) j))"
proof (cases "0 \<in> set (rt_resources (rs_table st))")
  case True
  let ?rs = "rt_resources (rs_table st)" let ?k = "free_slot ?rs"
  have k: "?k < length ?rs" using True free_slot_full [of ?rs] free_slot_le [of ?rs] by auto
  obtain st1 where st1: "resource_create env node offset flags st = Inr (st1, int ?k)"
    "rt_resources (rs_table st1) = ?rs[?k := p]" "rt_length (rs_table st1) = rt_length (rs_table st)"
    "sl_lock (rt_lock (rs_table st1)) = 0" "rs_objs st1 = (rs_objs st)(p := \<lparr>res_node = node, res_offset = offset, res_flags = flags\<rparr>)"
    using resource_create_at_ok [OF assms k] by blast
  have "rt_ok (rs_table st1)" using assms(1) st1(2-4) by (simp add: rt_ok_def)
  moreover have "resource_get (rs_table st1) j = resource_get (rs_table st) j" if "j \<noteq> int ?k" for j
    using that st1(2,3) by (auto simp: resource_get_def nth_list_update)
  moreover have "resource_get (rs_table st) (int ?k) = 0" "resource_get (rs_table st1) (int ?k) = p"
    using k st1(2,3) rt_ok_len [OF assms(1)] free_slot_null [OF k] by (simp_all add: resource_get_def)
  ultimately show ?thesis using True st1(1,5) by auto
next
  case False
  obtain st1 where st1: "resource_create env node offset flags st = Inr (st1, int (length (rt_resources (rs_table st))))"
    "rt_resources (rs_table st1) = rt_resources (rs_table st)" "rt_length (rs_table st1) = rt_length (rs_table st)"
    "sl_lock (rt_lock (rs_table st1)) = 0" "rs_objs st1 = rs_objs st"
    using resource_create_full [OF assms(1) False] by blast
  then have "rt_ok (rs_table st1)" "\<forall>j. resource_get (rs_table st1) j = resource_get (rs_table st) j"
    "resource_get (rs_table st1) (int (length (rt_resources (rs_table st)))) = 0"
    using assms(1) rt_ok_len [OF assms(1)] by (simp_all add: rt_ok_def resource_get_def)
  then show ?thesis using False st1(1,5) by auto
qed

section \<open>The system calls\<close>

text \<open>Whatever the creation of a resource does, it keeps the table and changes at most the slot it answers with, which was free.\<close>

definition takes_slot :: "resource_table_t \<Rightarrow> int \<Rightarrow> resource_table_t \<Rightarrow> bool" where
  "takes_slot t i t1 \<longleftrightarrow> rt_ok t1 \<and> rt_length t1 = rt_length t \<and> 0 \<le> i \<and>
     (\<forall>fd. resource_get t1 fd = resource_get t fd \<or> fd = i \<and> resource_get t fd = 0)"

lemma resource_create_slot:
  assumes "resource_create env node offset flags st = Inr (st1, i)" "rt_ok (rs_table st)"
  shows "takes_slot (rs_table st) i (rs_table st1)"
proof -
  let ?rs = "rt_resources (rs_table st)" let ?k = "free_slot ?rs"
  have l: "sint (rt_length (rs_table st)) = int (length ?rs)" using assms(2) by (rule rt_ok_len)
  show ?thesis
  proof (cases "?k < length ?rs")
    case True
    then obtain p where st1: "rt_resources (rs_table st1) = ?rs[?k := p]" "rt_length (rs_table st1) = rt_length (rs_table st)"
      "sl_lock (rt_lock (rs_table st1)) = 0" "i = int ?k"
      using assms l
      by (auto simp: resource_create_def resource_create_at_def rs_acquire_ok rs_release_def spinlock_release_def Let_def split: if_splits prod.splits)
    moreover have "?rs ! ?k = 0" using True by (rule free_slot_null)
    ultimately have "rt_resources (rs_table st1) ! nat fd = ?rs ! nat fd \<or> fd < 0 \<or> fd = i \<and> ?rs ! nat fd = 0" for fd
      by (cases "nat fd = ?k") auto
    then show ?thesis using assms(2) st1 by (auto simp: takes_slot_def rt_ok_def resource_get_def)
  next
    case False
    then have "0 \<notin> set ?rs" using free_slot_le [of ?rs] free_slot_full [of ?rs] by linarith
    then have "rt_resources (rs_table st1) = ?rs \<and> rt_length (rs_table st1) = rt_length (rs_table st) \<and> sl_lock (rt_lock (rs_table st1)) = 0 \<and> 0 \<le> i"
      using resource_create_full [OF assms(2), of env node offset flags] assms(1) by auto
    then show ?thesis using assms(2) by (simp add: takes_slot_def rt_ok_def resource_get_def)
  qed
qed

lemma sys_create_slot:
  "sys_create env node offset flags st = Inr (st1, i) \<Longrightarrow> rt_ok (sy_table st) \<Longrightarrow> takes_slot (sy_table st) i (sy_table st1)"
  by (fastforce simp: sys_create_def dest: resource_create_slot)

text \<open>The table of a new process is well formed.\<close>

lemma resource_table_expand_new:
  assumes "resource_table_expand heap_realloc amount st = Inr st1" "rs_table st = resource_table_new" "unat amount < 2 ^ 31"
  shows "rt_ok (rs_table st1) \<and> rt_length (rs_table st1) = amount"
  using assms
  by (auto simp: resource_table_expand_def resource_table_new_def rs_acquire_def spinlock_acquire_def rs_release_def spinlock_release_def SPINLOCK_INIT_def
    rt_ok_def Let_def split: if_splits)

text \<open>Mapping a file is refused by an assertion: for every open descriptor, a call of \<^verbatim>\<open>mmap\<close> without \<^verbatim>\<open>MAP_ANON\<close> passes
  \<^verbatim>\<open>VMM_MAP_ANON\<close> together with the vnode, which \<^verbatim>\<open>vmm_mmap\<close> excludes.\<close>

theorem syscall_mmap_file:
  assumes "flags AND MAP_ANON = 0" "resource_get (sy_table st) fd \<noteq> 0" "res_node (sy_objs st (resource_get (sy_table st) fd)) \<noteq> 0"
  shows "syscall_mmap env vm as addr len prot flags fd offset st = Inl AssertFailed"
proof -
  have "\<not> (flag_set (VMM_MAP_ANON OR VMM_MAP_PRIVATE) VMM_MAP_ANON \<noteq> True)"
    by (simp add: flag_set_def VMM_MAP_ANON_def VMM_MAP_PRIVATE_def)
  then show ?thesis using assms
    by (simp add: syscall_mmap_def vmm_mmap_def Let_def assert_c_def)
qed

section \<open>A concrete table\<close>

definition toy_rs :: "unit rs" where
  "toy_rs = \<lparr>rs_al = (), rs_int = True, rs_objs = (\<lambda>_. \<lparr>res_node = 0, res_offset = 0, res_flags = 0\<rparr>),
     rs_table = \<lparr>rt_resources = [0x700, 0, 0], rt_length = 3, rt_lock = SPINLOCK_INIT\<rparr>\<rparr>"

theorem resource_create_get_witness:
  "\<exists>st1 i. resource_create toy_env 0x900 0 3 toy_rs = Inr (st1, i) \<and> resource_get (rs_table st1) i = 0x5000"
proof -
  have "rt_ok (rs_table toy_rs)" by (simp add: toy_rs_def rt_ok_def SPINLOCK_INIT_def)
  moreover have "fe_heap_alloc toy_env SIZEOF_RESOURCE (rs_al toy_rs) = Inr ((), 0x5000)" by (simp add: toy_env_def)
  moreover have "0 \<in> set (rt_resources (rs_table toy_rs))" by (simp add: toy_rs_def)
  ultimately show ?thesis using resource_create_get [of toy_rs toy_env "()" "0x5000" "0x900" 0 3] by auto
qed

end
