(* ===== verification/Sockets.thy ===== *)
theory Sockets
  imports Resource
begin

text \<open>
  Sockets: the families of \<^verbatim>\<open>kernel/src/sys/sockets/socket.c\<close>, the local sockets of \<^verbatim>\<open>unix.c\<close> and the system
  calls of \<^verbatim>\<open>kernel/src/syscalls/socket.c\<close>.  A socket is a structure at an address; the only operation table
  is the one of \<^verbatim>\<open>unix.c\<close>.
\<close>

section \<open>Data\<close>

datatype socket_state_t = SOCKET_STATE_NEW | SOCKET_STATE_BOUND | SOCKET_STATE_LISTENING | SOCKET_STATE_CONNECTING
  | SOCKET_STATE_CONNECTED | SOCKET_STATE_CLOSED

text \<open>A \<^verbatim>\<open>socket_unix_t\<close>: the socket with the vnode it is bound to; the accept queue holds sockets.\<close>

record socket_t =
  so_family :: int
  so_type :: int
  so_protocol :: int
  so_state :: socket_state_t
  so_peer :: uptr
  accept_queue :: "uptr list"
  so_lock :: spinlock_t
  bound_vnode :: uptr

definition SIZEOF_SOCKET_UNIX :: u64 where "SIZEOF_SOCKET_UNIX = 96"
definition AF_UNIX :: int where "AF_UNIX = 1"

text \<open>The registered families, by address and number, beside the state of the other system calls.\<close>

record 's net =
  nt_sys :: "'s sys"
  nt_socks :: "uptr \<rightharpoonup> socket_t"
  g_socket_family_list :: "(uptr \<times> int) list"

definition nt_fs :: "'s net \<Rightarrow> 's fs" where "nt_fs st = sy_fs (nt_sys st)"

definition set_fs :: "'s fs \<Rightarrow> 's net \<Rightarrow> 's net" where
  "set_fs fs st = st\<lparr>nt_sys := (nt_sys st)\<lparr>sy_fs := fs\<rparr>\<rparr>"

definition set_sock :: "uptr \<Rightarrow> socket_t \<Rightarrow> 's net \<Rightarrow> 's net" where
  "set_sock p s st = st\<lparr>nt_socks := (nt_socks st)(p \<mapsto> s)\<rparr>"

section \<open>Families\<close>

definition socket_register_family :: "uptr \<Rightarrow> int \<Rightarrow> 's net \<Rightarrow> 's net \<times> bool" where
  "socket_register_family f number st =
     (if number \<in> snd ` set (g_socket_family_list st) then (st, False)
      else (st\<lparr>g_socket_family_list := g_socket_family_list st @ [(f, number)]\<rparr>, True))"

definition socket_get_family :: "int \<Rightarrow> 's net \<Rightarrow> uptr" where
  "socket_get_family number st =
     (case find (\<lambda>(f, n). n = number) (g_socket_family_list st) of None \<Rightarrow> 0 | Some (f, n) \<Rightarrow> f)"

definition afunix_init :: "uptr \<Rightarrow> 's net \<Rightarrow> 's net" where
  "afunix_init family st = fst (socket_register_family family AF_UNIX st)"

section \<open>Local sockets\<close>

definition sock_at :: "uptr \<Rightarrow> 's net \<Rightarrow> socket_t res" where
  "sock_at p st = (case nt_socks st p of None \<Rightarrow> Inl (if p = 0 then NullDeref else OutOfBounds) | Some s \<Rightarrow> Inr s)"

definition sock_acquire :: "uptr \<Rightarrow> 's net \<Rightarrow> 's net res" where
  "sock_acquire p st =
     rbind (sock_at p st) (\<lambda>s.
     rbind (spinlock_acquire (fs_int (nt_fs st)) (so_lock s)) (\<lambda>(i, l).
     Inr (set_sock p (s\<lparr>so_lock := l\<rparr>) (set_fs ((nt_fs st)\<lparr>fs_int := i\<rparr>) st))))"

definition sock_release :: "uptr \<Rightarrow> 's net \<Rightarrow> 's net res" where
  "sock_release p st =
     rbind (sock_at p st) (\<lambda>s.
     let (i, l) = spinlock_release (fs_int (nt_fs st)) (so_lock s)
     in Inr (set_sock p (s\<lparr>so_lock := l\<rparr>) (set_fs ((nt_fs st)\<lparr>fs_int := i\<rparr>) st)))"

text \<open>The result 0 stands for a failed allocation.\<close>

definition create_socket :: "'s fs_env \<Rightarrow> int \<Rightarrow> int \<Rightarrow> 's net \<Rightarrow> ('s net \<times> uptr) res" where
  "create_socket env ty protocol st =
     rbind (fs_alloc env SIZEOF_SOCKET_UNIX (nt_fs st)) (\<lambda>(fs1, p).
     let st1 = set_fs fs1 st
     in if p = 0 then Inr (st1, 0)
        else Inr (set_sock p \<lparr>so_family = AF_UNIX, so_type = ty, so_protocol = protocol, so_state = SOCKET_STATE_NEW,
                    so_peer = 0, accept_queue = [], so_lock = SPINLOCK_INIT, bound_vnode = 0\<rparr> st1, p))"

text \<open>The addresses of the two arrays of \<^verbatim>\<open>vfs_create\<close> are \<open>pp\<close> and \<open>cn\<close>.\<close>

definition unix_bind :: "'s fs_env \<Rightarrow> uptr \<Rightarrow> uptr \<Rightarrow> uptr \<Rightarrow> uptr \<Rightarrow> uptr \<Rightarrow> 's net \<Rightarrow> ('s net \<times> int) run" where
  "unix_bind env root pp cn self addr st =
     seq (now (sock_acquire self st)) (\<lambda>st1.
     seq (now (sock_at self st1)) (\<lambda>s.
     if so_state s \<noteq> SOCKET_STATE_NEW
     then seq (now (sock_release self st1)) (\<lambda>st2. ret (st2, - EINVAL))
     else
       seq (vfs_create env root pp cn addr VNODE_SOCKET (nt_fs st1)) (\<lambda>(fs2, r, addr_node).
       let st2 = set_fs fs2 st1
       in if r < 0 then seq (now (sock_release self st2)) (\<lambda>st3. ret (st3, - EADDRINUSE))
          else
            seq (check (addr_node \<noteq> 0) NullDeref) (\<lambda>_.
            let st3 = set_fs (set_vnode addr_node ((fs_vnodes fs2 addr_node)\<lparr>vn_mp_data := self\<rparr>) fs2) st2;
                st4 = set_sock self (s\<lparr>bound_vnode := addr_node, so_state := SOCKET_STATE_BOUND\<rparr>) st3
            in seq (now (sock_release self st4)) (\<lambda>st5. ret (st5, EOK))))))"

definition unix_connect :: "uptr \<Rightarrow> uptr \<Rightarrow> uptr \<Rightarrow> 's net \<Rightarrow> ('s net \<times> int) run" where
  "unix_connect root self addr st =
     seq (now (sock_acquire self st)) (\<lambda>st1.
     seq (vfs_open root addr (nt_fs st1)) (\<lambda>(fs2, _, target_node).
     let st2 = set_fs fs2 st1
     in if target_node = 0 \<or> vn_type (fs_vnodes fs2 target_node) \<noteq> VNODE_SOCKET
        then seq (now (sock_release self st2)) (\<lambda>st3. ret (st3, - ENOENT))
        else
          let target = vn_mp_data (fs_vnodes fs2 target_node)
          in seq (now (sock_acquire target st2)) (\<lambda>st3.
             seq (now (sock_at target st3)) (\<lambda>t.
             if so_state t \<noteq> SOCKET_STATE_LISTENING
             then seq (now (rbind (sock_release target st3) (sock_release self))) (\<lambda>st4. ret (st4, - ECONNREFUSED))
             else
               seq (now (sock_at self st3)) (\<lambda>s.
               let st4 = set_sock target (t\<lparr>accept_queue := accept_queue t @ [self]\<rparr>)
                           (set_sock self (s\<lparr>so_state := SOCKET_STATE_CONNECTING\<rparr>) st3)
               in seq (now (rbind (sock_release target st4) (sock_release self))) (\<lambda>st5. ret (st5, EOK)))))))"

definition unix_listen :: "uptr \<Rightarrow> 's net \<Rightarrow> ('s net \<times> int) res" where
  "unix_listen self st =
     rbind (sock_acquire self st) (\<lambda>st1.
     rbind (sock_at self st1) (\<lambda>s.
     rbind (sock_release self (set_sock self (s\<lparr>so_state := SOCKET_STATE_LISTENING\<rparr>) st1)) (\<lambda>st2.
     Inr (st2, EOK))))"

text \<open>With an empty queue the loop goes on forever, as far as this CPU is concerned.\<close>

definition unix_accept :: "'s fs_env \<Rightarrow> uptr \<Rightarrow> int \<Rightarrow> 's net \<Rightarrow> ('s net \<times> int \<times> uptr) run" where
  "unix_accept env self flags st =
     seq (now (sock_acquire self st)) (\<lambda>st1.
     seq (now (sock_at self st1)) (\<lambda>s.
     case accept_queue s of
       [] \<Rightarrow> None
     | peer # q \<Rightarrow>
         let st2 = set_sock self (s\<lparr>accept_queue := q\<rparr>) st1
         in seq (now (create_socket env (so_type s) (so_protocol s) st2)) (\<lambda>(st3, new).
            seq (now (sock_at new st3)) (\<lambda>n.
            let st4 = set_sock new (n\<lparr>so_state := SOCKET_STATE_CONNECTED, so_peer := peer\<rparr>) st3
            in seq (now (sock_at peer st4)) (\<lambda>p.
               let st5 = set_sock peer (p\<lparr>so_state := SOCKET_STATE_CONNECTED, so_peer := new\<rparr>) st4
               in seq (now (sock_release self st5)) (\<lambda>st6. ret (st6, EOK, new)))))))"

text \<open>The remaining operations of the table do nothing.\<close>

definition unix_send :: "uptr \<Rightarrow> uptr \<Rightarrow> u64 \<Rightarrow> int \<Rightarrow> int" where "unix_send self buf len flags = 0"
definition unix_recv :: "uptr \<Rightarrow> uptr \<Rightarrow> u64 \<Rightarrow> int \<Rightarrow> int" where "unix_recv self buf len flags = 0"
definition unix_close :: "uptr \<Rightarrow> int" where "unix_close self = 0"
definition unix_shutdown :: "uptr \<Rightarrow> int \<Rightarrow> int" where "unix_shutdown self how = 0"
definition unix_getsockname :: "uptr \<Rightarrow> uptr \<Rightarrow> int" where "unix_getsockname self addr = 0"
definition unix_getpeername :: "uptr \<Rightarrow> uptr \<Rightarrow> int" where "unix_getpeername self addr = 0"

section \<open>System calls\<close>

text \<open>The socket behind a descriptor, or the error.\<close>

definition sock_of :: "int \<Rightarrow> 's net \<Rightarrow> int + uptr" where
  "sock_of sockfd st =
     (let res = resource_get (sy_table (nt_sys st)) sockfd;
          node = res_node (sy_objs (nt_sys st) res);
          vn = fs_vnodes (nt_fs st) node
      in if res = 0 \<or> node = 0 \<or> vn_type vn \<noteq> VNODE_SOCKET then Inl EBADF
         else if vn_mp_data vn = 0 then Inl EINVAL
         else Inr (vn_mp_data vn))"

text \<open>A vnode for a socket and a descriptor for it; only two fields of the vnode are set.\<close>

definition sock_handle :: "'s fs_env \<Rightarrow> uptr \<Rightarrow> uptr \<Rightarrow> 's net \<Rightarrow> ('s net \<times> sys_ret_t) res" where
  "sock_handle env handle sock st =
     (let fs1 = nt_fs st;
          st1 = set_fs (set_vnode handle ((fs_vnodes fs1 handle)\<lparr>vn_type := VNODE_SOCKET, vn_mp_data := sock\<rparr>) fs1) st
      in rbind (sys_create env handle 0 (RESOURCE_READ OR RESOURCE_WRITE) (nt_sys st1)) (\<lambda>(sys2, fd).
         let st2 = st1\<lparr>nt_sys := sys2\<rparr>
         in if fd < 0
            then rbind (fs_free env handle (nt_fs st2)) (\<lambda>fs3. Inr (set_fs fs3 st2, sys_ret 0 EMFILE))
            else Inr (st2, sys_ret (of_int fd) EOK)))"

definition syscall_accept :: "'s fs_env \<Rightarrow> int \<Rightarrow> uptr \<Rightarrow> 's net \<Rightarrow> ('s net \<times> sys_ret_t) run" where
  "syscall_accept env sockfd addr st =
     (case sock_of sockfd st of
        Inl e \<Rightarrow> ret (st, sys_ret 0 e)
      | Inr socket \<Rightarrow>
          seq (unix_accept env socket 0 st) (\<lambda>(st1, r, new_socket).
          if r \<noteq> 0 then ret (st1, sys_ret 0 r)
          else
            seq (now (fs_alloc env SIZEOF_VNODE (nt_fs st1))) (\<lambda>(fs2, handle).
            let st2 = set_fs fs2 st1
            in if handle = 0 then ret (st2, sys_ret 0 ENOMEM)
               else now (sock_handle env handle new_socket st2))))"

definition syscall_bind :: "'s fs_env \<Rightarrow> uptr \<Rightarrow> uptr \<Rightarrow> uptr \<Rightarrow> int \<Rightarrow> uptr \<Rightarrow> 's net \<Rightarrow> ('s net \<times> sys_ret_t) run" where
  "syscall_bind env root pp cn sockfd addr st =
     (case sock_of sockfd st of
        Inl e \<Rightarrow> ret (st, sys_ret 0 e)
      | Inr socket \<Rightarrow> seq (unix_bind env root pp cn socket addr st) (\<lambda>(st1, r). ret (st1, sys_ret 0 r)))"

definition syscall_connect :: "uptr \<Rightarrow> int \<Rightarrow> uptr \<Rightarrow> 's net \<Rightarrow> ('s net \<times> sys_ret_t) run" where
  "syscall_connect root sockfd addr st =
     (case sock_of sockfd st of
        Inl e \<Rightarrow> ret (st, sys_ret 0 e)
      | Inr socket \<Rightarrow> seq (unix_connect root socket addr st) (\<lambda>(st1, r). ret (st1, sys_ret 0 r)))"

definition syscall_listen :: "int \<Rightarrow> int \<Rightarrow> 's net \<Rightarrow> ('s net \<times> sys_ret_t) res" where
  "syscall_listen sockfd backlog st =
     (case sock_of sockfd st of
        Inl e \<Rightarrow> Inr (st, sys_ret 0 e)
      | Inr socket \<Rightarrow> rbind (unix_listen socket st) (\<lambda>(st1, r). Inr (st1, sys_ret 0 r)))"

definition syscall_socket :: "'s fs_env \<Rightarrow> int \<Rightarrow> int \<Rightarrow> int \<Rightarrow> 's net \<Rightarrow> ('s net \<times> sys_ret_t) res" where
  "syscall_socket env domain ty protocol st =
     (if socket_get_family domain st = 0 then Inr (st, sys_ret 0 EINVAL)
      else
        rbind (fs_alloc env SIZEOF_VNODE (nt_fs st)) (\<lambda>(fs1, handle).
        let st1 = set_fs fs1 st
        in if handle = 0 then Inr (st1, sys_ret 0 ENOMEM)
           else
             rbind (create_socket env ty protocol st1) (\<lambda>(st2, socket).
             if socket = 0
             then rbind (fs_free env handle (nt_fs st2)) (\<lambda>fs3. Inr (set_fs fs3 st2, sys_ret 0 ENOMEM))
             else sock_handle env handle socket st2)))"

text \<open>The calls with empty bodies return nothing that was assigned.\<close>

definition syscall_getpeername :: "int \<Rightarrow> uptr \<Rightarrow> sys_ret_t res" where "syscall_getpeername sockfd addr = Inl Undefined"
definition syscall_getsockname :: "int \<Rightarrow> uptr \<Rightarrow> sys_ret_t res" where "syscall_getsockname sockfd addr = Inl Undefined"
definition syscall_recv :: "int \<Rightarrow> uptr \<Rightarrow> u64 \<Rightarrow> int \<Rightarrow> sys_ret_t res" where "syscall_recv sockfd buf len flags = Inl Undefined"
definition syscall_send :: "int \<Rightarrow> uptr \<Rightarrow> u64 \<Rightarrow> int \<Rightarrow> sys_ret_t res" where "syscall_send sockfd buf len flags = Inl Undefined"
definition syscall_shutdown :: "int \<Rightarrow> int \<Rightarrow> sys_ret_t res" where "syscall_shutdown sockfd how = Inl Undefined"

end
