(* ===== verification/Sockets_Correct.thy ===== *)
theory Sockets_Correct
  imports Sockets Fs_Correct
begin

text \<open>
  A connection of two local sockets: the queue of the listening socket hands the connecting one to
  \<^verbatim>\<open>accept\<close>, which ties it to a new socket.
\<close>

lemma net_sel [simp]:
  "nt_socks (set_fs fs st) = nt_socks st" "nt_fs (set_fs fs st) = fs"
  "nt_socks (set_sock p s st) = (nt_socks st)(p \<mapsto> s)" "nt_fs (set_sock p s st) = nt_fs st"
  by (simp_all add: set_fs_def set_sock_def nt_fs_def)

lemma sock_at_Some [simp]: "nt_socks st p = Some s \<Longrightarrow> sock_at p st = Inr s"
  by (simp add: sock_at_def)

text \<open>Taking a free lock and giving it back.\<close>

lemma sock_acquire_ok:
  "nt_socks st p = Some s \<Longrightarrow> sl_lock (so_lock s) = 0 \<Longrightarrow>
    sock_acquire p st = Inr (set_sock p (s\<lparr>so_lock := \<lparr>sl_lock = 1, prev_int_state = fs_int (nt_fs st)\<rparr>\<rparr>)
      (set_fs ((nt_fs st)\<lparr>fs_int := False\<rparr>) st))"
  by (simp add: sock_acquire_def spinlock_acquire_def)

lemma sock_release_ok:
  "nt_socks st p = Some s \<Longrightarrow>
    sock_release p st = Inr (set_sock p (s\<lparr>so_lock := (so_lock s)\<lparr>sl_lock := 0\<rparr>\<rparr>)
      (set_fs ((nt_fs st)\<lparr>fs_int := (prev_int_state (so_lock s) \<or> fs_int (nt_fs st))\<rparr>) st))"
  by (simp add: sock_release_def spinlock_release_def)

lemma unix_connect_ok:
  assumes "nt_socks st c = Some C" "nt_socks st s = Some S" "c \<noteq> s" "sl_lock (so_lock C) = 0" "sl_lock (so_lock S) = 0"
    and "so_state S = SOCKET_STATE_LISTENING"
    and "vfs_open root addr ((nt_fs st)\<lparr>fs_int := False\<rparr>) = ret (fs1, EOK, node)" "node \<noteq> 0"
    and "vn_type (fs_vnodes fs1 node) = VNODE_SOCKET" "vn_mp_data (fs_vnodes fs1 node) = s"
  shows "\<exists>st1. unix_connect root c addr st = ret (st1, EOK) \<and> fs_al (nt_fs st1) = fs_al fs1 \<and>
    nt_socks st1 = (nt_socks st)
      (c \<mapsto> C\<lparr>so_state := SOCKET_STATE_CONNECTING, so_lock := \<lparr>sl_lock = 0, prev_int_state = fs_int (nt_fs st)\<rparr>\<rparr>,
       s \<mapsto> S\<lparr>accept_queue := accept_queue S @ [c], so_lock := \<lparr>sl_lock = 0, prev_int_state = fs_int fs1\<rparr>\<rparr>)"
  using assms by (auto simp: unix_connect_def sock_acquire_ok sock_release_ok Let_def fun_eq_iff)

lemma unix_accept_ok:
  assumes "nt_socks st s = Some S" "sl_lock (so_lock S) = 0" "accept_queue S = c # q" "c \<noteq> s" "nt_socks st c = Some C"
    and "fe_heap_alloc env SIZEOF_SOCKET_UNIX (fs_al (nt_fs st)) = Inr (al, n)" "n \<notin> {0, c, s}"
  shows "\<exists>st1 N. unix_accept env s 0 st = ret (st1, EOK, n) \<and> so_state N = SOCKET_STATE_CONNECTED \<and> so_peer N = c \<and>
    so_type N = so_type S \<and> so_protocol N = so_protocol S \<and> fs_al (nt_fs st1) = al \<and>
    nt_socks st1 = (nt_socks st)
      (c \<mapsto> C\<lparr>so_state := SOCKET_STATE_CONNECTED, so_peer := n\<rparr>,
       s \<mapsto> S\<lparr>accept_queue := q, so_lock := \<lparr>sl_lock = 0, prev_int_state = fs_int (nt_fs st)\<rparr>\<rparr>, n \<mapsto> N)"
proof -
  let ?N = "\<lparr>so_family = AF_UNIX, so_type = so_type S, so_protocol = so_protocol S, so_state = SOCKET_STATE_CONNECTED,
    so_peer = c, accept_queue = [], so_lock = SPINLOCK_INIT, bound_vnode = 0\<rparr>"
  show ?thesis using assms
    by (intro exI [of _ ?N] ex_comm [THEN iffD1])
      (auto simp: unix_accept_def create_socket_def fs_alloc_def sock_acquire_ok sock_release_ok Let_def fun_eq_iff)
qed

text \<open>Several calls of \<^verbatim>\<open>accept\<close>, with the sockets they return, and the addresses that the heap hands out for these.\<close>

fun unix_accepts :: "'s fs_env \<Rightarrow> uptr \<Rightarrow> nat \<Rightarrow> 's net \<Rightarrow> ('s net \<times> uptr list) run" where
  "unix_accepts env s 0 st = ret (st, [])"
| "unix_accepts env s (Suc k) st =
     seq (unix_accept env s 0 st) (\<lambda>(st1, r, n). seq (unix_accepts env s k st1) (\<lambda>(st2, ns). ret (st2, n # ns)))"

fun sock_allocs :: "'s fs_env \<Rightarrow> 's \<Rightarrow> uptr list \<Rightarrow> bool" where
  "sock_allocs env al [] = True"
| "sock_allocs env al (n # ns) =
     (case fe_heap_alloc env SIZEOF_SOCKET_UNIX al of Inl _ \<Rightarrow> False | Inr (al1, p) \<Rightarrow> p = n \<and> sock_allocs env al1 ns)"

text \<open>Two connected sockets, each the peer of the other; the accepted one has the type of the listening socket.\<close>

definition joined :: "'s net \<Rightarrow> int \<Rightarrow> uptr \<Rightarrow> uptr \<Rightarrow> bool" where
  "joined st ty c n \<longleftrightarrow>
     (case (nt_socks st c, nt_socks st n) of
        (Some C, Some N) \<Rightarrow> so_state C = SOCKET_STATE_CONNECTED \<and> so_state N = SOCKET_STATE_CONNECTED \<and> so_peer C = n \<and> so_peer N = c \<and> so_type N = ty
      | _ \<Rightarrow> False)"

lemma joined_cong: "nt_socks st' c = nt_socks st c \<Longrightarrow> nt_socks st' n = nt_socks st n \<Longrightarrow> joined st' ty c n = joined st ty c n"
  by (simp add: joined_def)

lemma accepts_in_order:
  assumes "nt_socks st s = Some S" "sl_lock (so_lock S) = 0" "accept_queue S = cs" "distinct cs" "s \<notin> set cs" "set cs \<subseteq> dom (nt_socks st)"
    and "sock_allocs env (fs_al (nt_fs st)) ns" "length ns = length cs" "distinct ns" "set ns \<inter> ({0, s} \<union> set cs) = {}"
  shows "\<exists>st' S'. unix_accepts env s (length cs) st = ret (st', ns) \<and> list_all2 (joined st' (so_type S)) cs ns \<and>
    nt_socks st' s = Some S' \<and> accept_queue S' = [] \<and> sl_lock (so_lock S') = 0 \<and> so_state S' = so_state S \<and>
    (\<forall>p. p \<notin> insert s (set cs \<union> set ns) \<longrightarrow> nt_socks st' p = nt_socks st p)"
  using assms
proof (induction cs arbitrary: st S ns)
  case (Cons c cs)
  obtain n ns' where ns: "ns = n # ns'" using Cons.prems(8) by (cases ns) auto
  obtain al where al: "fe_heap_alloc env SIZEOF_SOCKET_UNIX (fs_al (nt_fs st)) = Inr (al, n)" "sock_allocs env al ns'"
    using Cons.prems(7) by (auto simp: ns split: sum.splits)
  obtain C where C: "nt_socks st c = Some C" using Cons.prems(6) by auto
  have sep: "c \<noteq> s" "n \<notin> {0, c, s}" "n \<notin> set cs" "c \<notin> set cs" "c \<notin> set ns'" "n \<notin> set ns'"
    using Cons.prems(4,5,9,10) by (auto simp: ns)
  obtain st1 N where st1: "unix_accept env s 0 st = ret (st1, EOK, n)" "so_state N = SOCKET_STATE_CONNECTED" "so_peer N = c" "so_type N = so_type S"
    "fs_al (nt_fs st1) = al"
    "nt_socks st1 = (nt_socks st)(c \<mapsto> C\<lparr>so_state := SOCKET_STATE_CONNECTED, so_peer := n\<rparr>,
       s \<mapsto> S\<lparr>accept_queue := cs, so_lock := \<lparr>sl_lock = 0, prev_int_state = fs_int (nt_fs st)\<rparr>\<rparr>, n \<mapsto> N)"
    using unix_accept_ok [OF Cons.prems(1-3) sep(1) C al(1) sep(2)] by blast
  let ?S1 = "S\<lparr>accept_queue := cs, so_lock := \<lparr>sl_lock = 0, prev_int_state = fs_int (nt_fs st)\<rparr>\<rparr>"
  have "\<exists>st' S'. unix_accepts env s (length cs) st1 = ret (st', ns') \<and> list_all2 (joined st' (so_type ?S1)) cs ns' \<and>
    nt_socks st' s = Some S' \<and> accept_queue S' = [] \<and> sl_lock (so_lock S') = 0 \<and> so_state S' = so_state ?S1 \<and>
    (\<forall>p. p \<notin> insert s (set cs \<union> set ns') \<longrightarrow> nt_socks st' p = nt_socks st1 p)"
    by (rule Cons.IH) (use Cons.prems sep al(2) st1(5,6) in \<open>auto simp: ns\<close>)
  then obtain st' S' where st': "unix_accepts env s (length cs) st1 = ret (st', ns')" "list_all2 (joined st' (so_type S)) cs ns'"
    "nt_socks st' s = Some S'" "accept_queue S' = []" "sl_lock (so_lock S') = 0" "so_state S' = so_state S"
    "\<And>p. p \<notin> insert s (set cs \<union> set ns') \<Longrightarrow> nt_socks st' p = nt_socks st1 p"
    by auto
  have "joined st1 (so_type S) c n" using sep st1(2-4) by (simp add: joined_def st1(6))
  then have "joined st' (so_type S) c n" using joined_cong [of st' c st1 n] st'(7) [of c] st'(7) [of n] sep by simp
  moreover have "nt_socks st' p = nt_socks st p" if "p \<notin> insert s (set (c # cs) \<union> set ns)" for p
    using that st'(7) [of p] by (simp add: ns st1(6))
  ultimately show ?case using st' st1(1) by (intro exI [of _ st'] exI [of _ S']) (simp add: ns)
qed simp

text \<open>C33: connections are accepted in the order they were made.  When a socket connects to the address of a listening socket on
  which any number of other connections already wait, the connection is queued behind them, and that many and one calls of
  \<^verbatim>\<open>accept\<close> return new sockets for the waiting connections in their order, the new connection last.  The two ends of each are
  connected, each is the peer of the other, and the accepted one has the type of the listening socket; the listening socket
  is left with an empty queue and its lock free, and no other socket has changed.  The sockets are distinct, the two locks
  are free, and the allocations of the new sockets succeed with fresh addresses.\<close>

theorem unix_connect_accept:
  assumes "nt_socks st c = Some C" "nt_socks st s = Some S" "c \<noteq> s" "sl_lock (so_lock C) = 0" "sl_lock (so_lock S) = 0"
    and "so_state S = SOCKET_STATE_LISTENING" "accept_queue S = q" "distinct (q @ [c])" "s \<notin> set q" "set q \<subseteq> dom (nt_socks st)"
    and "vfs_open root addr ((nt_fs st)\<lparr>fs_int := False\<rparr>) = ret (fs1, EOK, node)" "node \<noteq> 0"
    and "vn_type (fs_vnodes fs1 node) = VNODE_SOCKET" "vn_mp_data (fs_vnodes fs1 node) = s"
    and "sock_allocs env (fs_al fs1) ns" "length ns = Suc (length q)" "distinct ns" "set ns \<inter> ({0, s, c} \<union> set q) = {}"
  shows "\<exists>st1 st2 S2. unix_connect root c addr st = ret (st1, EOK) \<and> unix_accepts env s (Suc (length q)) st1 = ret (st2, ns) \<and>
    list_all2 (joined st2 (so_type S)) (q @ [c]) ns \<and>
    nt_socks st2 s = Some S2 \<and> so_state S2 = SOCKET_STATE_LISTENING \<and> accept_queue S2 = [] \<and> sl_lock (so_lock S2) = 0 \<and>
    (\<forall>p. p \<notin> {s, c} \<union> set q \<union> set ns \<longrightarrow> nt_socks st2 p = nt_socks st p)"
proof -
  let ?S1 = "S\<lparr>accept_queue := accept_queue S @ [c], so_lock := \<lparr>sl_lock = 0, prev_int_state = fs_int fs1\<rparr>\<rparr>"
  obtain st1 C1 where st1: "unix_connect root c addr st = ret (st1, EOK)" "fs_al (nt_fs st1) = fs_al fs1"
    "nt_socks st1 = (nt_socks st)(c \<mapsto> C1, s \<mapsto> ?S1)"
    using unix_connect_ok [OF assms(1-6,11-14)] by blast
  have "\<exists>st2 S2. unix_accepts env s (length (q @ [c])) st1 = ret (st2, ns) \<and> list_all2 (joined st2 (so_type ?S1)) (q @ [c]) ns \<and>
    nt_socks st2 s = Some S2 \<and> accept_queue S2 = [] \<and> sl_lock (so_lock S2) = 0 \<and> so_state S2 = so_state ?S1 \<and>
    (\<forall>p. p \<notin> insert s (set (q @ [c]) \<union> set ns) \<longrightarrow> nt_socks st2 p = nt_socks st1 p)"
    by (rule accepts_in_order) (use assms(3,7-10,15-18) st1(2,3) in auto)
  then show ?thesis using st1(1,3) assms(6) by fastforce
qed

section \<open>A concrete connection\<close>

text \<open>A heap that hands out one block after the other, a listening socket at \<^verbatim>\<open>0x800\<close>, bound to the root of the file system, on which
  the socket at \<^verbatim>\<open>0xA00\<close> waits, and a new one at \<^verbatim>\<open>0x900\<close>.\<close>

definition bump_env :: "u64 fs_env" where
  "bump_env = \<lparr>fe_HHDM = 0, fe_heap_alloc = (\<lambda>n a. Inr (a + n, a)), fe_heap_free = (\<lambda>_ a. Inr a),
     fe_page_alloc = (\<lambda>a. Inr (a + 0x1000, a)), fe_page_free = (\<lambda>_ a. Inr a)\<rparr>"

definition toy_sock :: "socket_state_t \<Rightarrow> uptr list \<Rightarrow> socket_t" where
  "toy_sock s q = \<lparr>so_family = AF_UNIX, so_type = 1, so_protocol = 0, so_state = s, so_peer = 0, accept_queue = q,
     so_lock = SPINLOCK_INIT, bound_vnode = 0\<rparr>"

definition bump_fs :: "u64 fs" where
  "bump_fs = \<lparr>fs_al = 0x5000, fs_int = False, fs_bytes = (\<lambda>_. 0),
     fs_vnodes = (\<lambda>_. (new_vnode VNODE_SOCKET NoOps 1)\<lparr>vn_mp_data := 0x800\<rparr>),
     fs_tmpfs = Map.empty, fs_initrd = Map.empty, fs_devfs = Map.empty, fs_trie = (\<lambda>_. \<lparr>root_vn = 0x600, trie_children = []\<rparr>)\<rparr>"

definition toy_net :: "u64 net" where
  "toy_net = \<lparr>nt_sys = \<lparr>sy_fs = bump_fs, sy_objs = (\<lambda>_. \<lparr>res_node = 0, res_offset = 0, res_flags = 0\<rparr>), sy_table = resource_table_new, sy_log = []\<rparr>,
     nt_socks = [0x800 \<mapsto> toy_sock SOCKET_STATE_LISTENING [0xA00], 0x900 \<mapsto> toy_sock SOCKET_STATE_NEW [],
       0xA00 \<mapsto> toy_sock SOCKET_STATE_CONNECTING []],
     g_socket_family_list = []\<rparr>"

theorem unix_connect_accept_witness:
  "\<exists>st1 st2. unix_connect 0x40 0x900 0x2000 toy_net = ret (st1, EOK) \<and> unix_accepts bump_env 0x800 2 st1 = ret (st2, [0x5000, 0x5060]) \<and>
    joined st2 1 0xA00 0x5000 \<and> joined st2 1 0x900 0x5060"
proof -
  let ?C = "toy_sock SOCKET_STATE_NEW []" and ?S = "toy_sock SOCKET_STATE_LISTENING [0xA00]" and ?fs = "bump_fs\<lparr>fs_int := False\<rparr>"
  have o: "vfs_open 0x40 0x2000 ((nt_fs toy_net)\<lparr>fs_int := False\<rparr>) = ret (?fs, EOK, 0x600)"
    by (simp add: vfs_open_def vfs_get_mountpoint_def mountpoint_loop.simps [of _ "0x40"] open_loop.simps [of "0x600"] toy_net_def nt_fs_def bump_fs_def)
  have n: "nt_socks toy_net 0x900 = Some ?C" "nt_socks toy_net 0x800 = Some ?S" by (simp_all add: toy_net_def)
  have l: "sl_lock (so_lock ?C) = 0" "sl_lock (so_lock ?S) = 0" "so_state ?S = SOCKET_STATE_LISTENING" "accept_queue ?S = [0xA00]"
    by (simp_all add: toy_sock_def SPINLOCK_INIT_def)
  have v: "vn_type (fs_vnodes ?fs 0x600) = VNODE_SOCKET" "vn_mp_data (fs_vnodes ?fs 0x600) = 0x800"
    by (simp_all add: bump_fs_def new_vnode_def)
  have a: "sock_allocs bump_env (fs_al ?fs) [0x5000, 0x5060]" by (simp add: bump_env_def bump_fs_def SIZEOF_SOCKET_UNIX_def)
  have "\<exists>st1 st2 S2. unix_connect 0x40 0x900 0x2000 toy_net = ret (st1, EOK) \<and>
    unix_accepts bump_env 0x800 (Suc (length [0xA00 :: uptr])) st1 = ret (st2, [0x5000, 0x5060]) \<and>
    list_all2 (joined st2 (so_type ?S)) ([0xA00] @ [0x900]) [0x5000, 0x5060] \<and>
    nt_socks st2 0x800 = Some S2 \<and> so_state S2 = SOCKET_STATE_LISTENING \<and> accept_queue S2 = [] \<and> sl_lock (so_lock S2) = 0 \<and>
    (\<forall>p. p \<notin> {0x800, 0x900} \<union> set [0xA00] \<union> set [0x5000, 0x5060] \<longrightarrow> nt_socks st2 p = nt_socks toy_net p)"
    by (rule unix_connect_accept [OF n _ l _ _ _ o _ v a]) (simp_all add: toy_net_def)
  then show ?thesis by (auto simp: toy_sock_def numeral_2_eq_2)
qed

end
