(* ===== verification/Scalars.thy ===== *)
theory Scalars
  imports Kstring_Correct
begin

text \<open>
  Integers in a memory of bytes, the low byte first, as the packed structures of the kernel are
  read and written.
\<close>

primrec le_nat :: "u8 list \<Rightarrow> nat" where
  "le_nat [] = 0"
| "le_nat (b # bs) = unat b + 256 * le_nat bs"

definition bytes_at :: "bytes \<Rightarrow> uptr \<Rightarrow> nat \<Rightarrow> u8 list" where
  "bytes_at m p n = map (\<lambda>i. m (p + of_nat i)) [0..<n]"

definition get_u16 :: "bytes \<Rightarrow> uptr \<Rightarrow> u16" where
  "get_u16 m p = of_nat (le_nat (bytes_at m p 2))"

definition get_u32 :: "bytes \<Rightarrow> uptr \<Rightarrow> u32" where
  "get_u32 m p = of_nat (le_nat (bytes_at m p 4))"

definition get_u64 :: "bytes \<Rightarrow> uptr \<Rightarrow> u64" where
  "get_u64 m p = of_nat (le_nat (bytes_at m p 8))"

definition le_bytes :: "nat \<Rightarrow> u64 \<Rightarrow> u8 list" where
  "le_bytes n v = map (\<lambda>i. ucast (drop_bit (8 * i) v)) [0..<n]"

definition put_u32 :: "bytes \<Rightarrow> uptr \<Rightarrow> u32 \<Rightarrow> bytes" where
  "put_u32 m p v = put_bytes m p (le_bytes 4 (ucast v))"

definition put_u64 :: "bytes \<Rightarrow> uptr \<Rightarrow> u64 \<Rightarrow> bytes" where
  "put_u64 m p v = put_bytes m p (le_bytes 8 v)"

lemma length_le_bytes [simp]: "length (le_bytes n v) = n"
  by (simp add: le_bytes_def)

lemma length_bytes_at [simp]: "length (bytes_at m p n) = n"
  by (simp add: bytes_at_def)

lemma le_bytes_Suc: "le_bytes (Suc n) v = ucast v # le_bytes n (drop_bit 8 v)"
  by (simp add: le_bytes_def map_upt_Suc add.commute del: upt_Suc)

lemma le_nat_le_bytes: "le_nat (le_bytes n v) = unat v mod 256 ^ n"
proof (induction n arbitrary: v)
  case 0
  then show ?case by (simp add: le_bytes_def)
next
  case (Suc n)
  have "unat (ucast v :: u8) = unat v mod 256" by (simp add: unsigned_ucast_eq take_bit_eq_mod)
  moreover have "unat (drop_bit 8 v) = unat v div 256" by (simp add: drop_bit_eq_div unat_div)
  ultimately show ?case by (simp add: Suc le_bytes_Suc mod_mult2_eq)
qed

text \<open>What was put is what is read.\<close>

lemma bytes_at_put_bytes:
  assumes "length bs < 2 ^ 64"
  shows "bytes_at (put_bytes m p bs) p (length bs) = bs"
  using assms by (intro nth_equalityI) (simp_all add: bytes_at_def put_bytes_def of_nat_u64)

lemma get_put_u64 [simp]: "get_u64 (put_u64 m p v) p = v"
proof -
  have "bytes_at (put_u64 m p v) p 8 = le_bytes 8 v"
    using bytes_at_put_bytes [of "le_bytes 8 v" m p] by (simp add: put_u64_def)
  moreover have "unat v mod 256 ^ 8 = unat v" using u64_bound [of v] by simp
  ultimately show ?thesis by (simp add: get_u64_def le_nat_le_bytes)
qed

lemma get_put_u32 [simp]: "get_u32 (put_u32 m p v) p = v"
proof -
  have "bytes_at (put_u32 m p v) p 4 = le_bytes 4 (ucast v)"
    using bytes_at_put_bytes [of "le_bytes 4 (ucast v)" m p] by (simp add: put_u32_def)
  moreover have "unat (ucast v :: u64) mod 256 ^ 4 = unat v"
    using unsigned_less [of v, where 'a = nat] by (simp add: unsigned_ucast_eq take_bit_nat_eq_self)
  ultimately show ?thesis by (simp add: get_u32_def le_nat_le_bytes)
qed

lemma put_u64_at: "i < 8 \<Longrightarrow> put_u64 m p v (p + of_nat i) = ucast (drop_bit (8 * i) v)"
  using of_nat_u64 [of i] by (simp add: put_u64_def le_bytes_def put_bytes_def)

lemma put_u64_frame: "8 \<le> unat (x - p) \<Longrightarrow> put_u64 m p v x = m x"
  by (simp add: put_u64_def put_bytes_def)

lemma bytes_at_cong: "(\<And>i. i < n \<Longrightarrow> m (p + of_nat i) = m' (p + of_nat i)) \<Longrightarrow> bytes_at m p n = bytes_at m' p n"
  by (simp add: bytes_at_def)

lemma bytes_at_append: "bytes_at m p (a + b) = bytes_at m p a @ bytes_at m (p + of_nat a) b"
  by (intro nth_equalityI) (auto simp: bytes_at_def nth_append)

text \<open>Words that do not overlap.\<close>

lemma get_put_u64_other:
  assumes "8 \<le> unat (q - p)" "8 \<le> unat (p - q)"
  shows "get_u64 (put_u64 m p v) q = get_u64 m q"
proof -
  have "put_u64 m p v (q + of_nat i) = m (q + of_nat i)" if "i < 8" for i
  proof (rule put_u64_frame)
    have "p \<noteq> q" using assms by auto
    then have "unat (q - p) + unat (p - q) = 2 ^ 64" by (intro dist_swap) simp
    then have "unat (q - p + of_nat i) = unat (q - p) + i" using that assms by (subst unat_add_nowrap) (simp_all add: of_nat_u64)
    moreover have "q + of_nat i - p = q - p + of_nat i" by simp
    ultimately have "unat (q + of_nat i - p) = unat (q - p) + i" by (simp only:)
    then show "8 \<le> unat (q + of_nat i - p)" using assms by linarith
  qed
  then have "bytes_at (put_u64 m p v) q 8 = bytes_at m q 8" by (intro bytes_at_cong) simp
  then show ?thesis by (simp add: get_u64_def)
qed

section \<open>Blocks of memory\<close>

definition block :: "uptr \<Rightarrow> nat \<Rightarrow> uptr set" where
  "block p n = (\<lambda>i. p + of_nat i) ` {..<n}"

lemma bytes_at_agree: "(\<And>x. x \<in> block p n \<Longrightarrow> m' x = m x) \<Longrightarrow> bytes_at m' p n = bytes_at m p n"
  by (rule bytes_at_cong) (auto simp: block_def)

lemma block_mono: "a + n \<le> k \<Longrightarrow> block (p + of_nat a) n \<subseteq> block p k"
proof
  fix x
  assume le: "a + n \<le> k" and "x \<in> block (p + of_nat a) n"
  then obtain i where "i < n" "x = p + of_nat (a + i)" by (auto simp: block_def add.assoc)
  with le show "x \<in> block p k" unfolding block_def by (intro image_eqI [of _ _ "a + i"]) auto
qed

lemma put_bytes_block:
  assumes "x \<notin> block p (length bs)"
  shows "put_bytes m p bs x = m x"
proof -
  have "\<not> unat (x - p) < length bs"
  proof
    assume "unat (x - p) < length bs"
    then have "x \<in> block p (length bs)" unfolding block_def by (intro image_eqI [of _ _ "unat (x - p)"]) simp_all
    with assms show False by blast
  qed
  then show ?thesis by (simp add: put_bytes_def)
qed

lemma block_disjoint:
  assumes "unat p + n \<le> unat q" "unat q + k \<le> 2 ^ 64"
  shows "block p n \<inter> block q k = {}" "block q k \<inter> block p n = {}"
  using apart_offsets [OF assms] by (fastforce simp: apart_def block_def)+

lemma block_iff: "n \<le> 2 ^ 64 \<Longrightarrow> x \<in> block p n \<longleftrightarrow> unat (x - p) < n"
proof
  assume "n \<le> 2 ^ 64" "x \<in> block p n"
  then show "unat (x - p) < n" by (auto simp: block_def of_nat_u64)
next
  assume "unat (x - p) < n"
  then show "x \<in> block p n" unfolding block_def by (intro image_eqI [of _ _ "unat (x - p)"]) simp_all
qed

lemma block_next:
  assumes "a + n \<le> 2 ^ 64"
  shows "block p a \<inter> block (p + of_nat a) n = {}"
proof -
  have "i = a + j" if "p + of_nat i = p + of_nat a + of_nat j" "i < a" "j < n" for i j
  proof -
    have "(of_nat i :: u64) = of_nat (a + j)" using that(1) by (simp add: add.assoc)
    then show ?thesis using of_nat_u64 [of i] of_nat_u64 [of "a + j"] that assms by simp
  qed
  then show ?thesis by (auto simp: block_def)
qed

lemma block_offset: "i < n \<Longrightarrow> p + of_nat i \<in> block p n"
  by (auto simp: block_def)

lemma get_u64_agree: "(\<And>x. x \<in> block p 8 \<Longrightarrow> m' x = m x) \<Longrightarrow> get_u64 m' p = get_u64 m p"
  using bytes_at_agree [of p 8 m' m] by (simp add: get_u64_def)

lemma put_u64_block: "x \<notin> block p 8 \<Longrightarrow> put_u64 m p v x = m x"
  using put_bytes_block [of x p "le_bytes 8 v" m] by (simp add: put_u64_def)

section \<open>Rows of words\<close>

primrec words_at :: "bytes \<Rightarrow> uptr \<Rightarrow> u64 list \<Rightarrow> bool" where
  "words_at m p [] \<longleftrightarrow> True"
| "words_at m p (v # vs) \<longleftrightarrow> get_u64 m p = v \<and> words_at m (p + 8) vs"

lemma words_at_append: "words_at m p (xs @ ys) \<longleftrightarrow> words_at m p xs \<and> words_at m (p + 8 * of_nat (length xs)) ys"
  by (induction xs arbitrary: p) (auto simp: algebra_simps)

lemma words_at_agree: "(\<And>x. x \<in> block p (8 * length vs) \<Longrightarrow> m' x = m x) \<Longrightarrow> words_at m' p vs = words_at m p vs"
proof (induction vs arbitrary: p)
  case (Cons v vs)
  have "block p 8 \<subseteq> block p (8 * length (v # vs))" using block_mono [of 0 8 "8 * length (v # vs)" p] by simp
  moreover have "block (p + 8) (8 * length vs) \<subseteq> block p (8 * length (v # vs))"
    using block_mono [of 8 "8 * length vs" "8 * length (v # vs)" p] by simp
  ultimately show ?case
    using Cons.IH [of "p + 8"] get_u64_agree [of p m' m] Cons.prems by (simp add: subset_iff)
qed simp

end
