(* ===== verification/Thread.thy ===== *)
theory Thread
  imports Vmm Scalars
begin

text \<open>
  The context of a new thread: \<^verbatim>\<open>kernel/src/arch/x86_64/thread.c\<close> and the user stack of
  \<^verbatim>\<open>kernel/src/arch/x86_64/abi\<close>.  The instructions that save and restore the floating point state
  leave no trace in the model; the allocation of the area for it does.
\<close>

section \<open>The user stack\<close>

definition x86_64_abi_stack_setup ::
  "('s, 'v) vmm_env \<Rightarrow> ('s, 'v) vmm \<Rightarrow> 'v vmm_addr_space_t \<Rightarrow> u64 \<Rightarrow> (('s, 'v) vmm \<times> 'v vmm_addr_space_t \<times> uptr) res" where
  "x86_64_abi_stack_setup env st as stack_size =
     rbind (vmm_mmap env st as 0 stack_size VMM_PROT_FULL (VMM_MAP_ANON OR VMM_MAP_POPULATE OR VMM_MAP_PRIVATE) None 0)
       (\<lambda>(st1, as1, stack_ptr).
     rbind (assert_c (stack_ptr \<noteq> VMM_MAP_FAILED)) (\<lambda>_.
     Inr (st1, as1, (stack_ptr + stack_size - 1) AND NOT 0xF)))"

section \<open>The context\<close>

record arch_thread_context_t =
  ctx_self :: uptr
  ctx_rsp :: uptr
  ctx_kernel_stack :: uptr
  ctx_syscall_stack :: uptr
  ctx_fpu_area :: uptr
  ctx_fs :: u64
  ctx_gs :: u64

text \<open>The sizes of the two initial stack frames: 15 registers with one and with three words behind them.\<close>

definition SIZEOF_INIT_STACK_KERNEL :: u64 where "SIZEOF_INIT_STACK_KERNEL = 128"
definition SIZEOF_INIT_STACK_USER :: u64 where "SIZEOF_INIT_STACK_USER = 144"

definition init_stack_kernel :: "bytes \<Rightarrow> uptr \<Rightarrow> uptr \<Rightarrow> bytes" where
  "init_stack_kernel m rsp start = put_u64 (memset m rsp 0 SIZEOF_INIT_STACK_KERNEL) (rsp + 120) start"

definition init_stack_user :: "bytes \<Rightarrow> uptr \<Rightarrow> uptr \<Rightarrow> uptr \<Rightarrow> uptr \<Rightarrow> bytes" where
  "init_stack_user m rsp userspace_init start user_stack =
     put_u64 (put_u64 (put_u64 (memset m rsp 0 SIZEOF_INIT_STACK_USER) (rsp + 120) userspace_init) (rsp + 128) start)
       (rsp + 136) user_stack"

text \<open>
  \<open>page_alloc\<close> is \<^verbatim>\<open>pmm_alloc\<close>, \<open>stack_setup\<close> the call of \<^verbatim>\<open>x86_64_abi_stack_setup\<close>, \<open>userspace_init\<close> the address of
  \<^verbatim>\<open>x86_64_thread_userspace_init\<close>.
\<close>

definition arch_thread_context_init ::
  "(u8 \<Rightarrow> 's \<Rightarrow> ('s \<times> uptr) res) \<Rightarrow> ('s \<Rightarrow> ('s \<times> uptr) res) \<Rightarrow> uptr \<Rightarrow> u32 \<Rightarrow> uptr \<Rightarrow> uptr \<Rightarrow> bool \<Rightarrow> uptr \<Rightarrow>
   's \<Rightarrow> bytes \<Rightarrow> ('s \<times> bytes \<times> arch_thread_context_t) res" where
  "arch_thread_context_init page_alloc stack_setup HHDM fpu_area_size userspace_init context user start al m =
     rbind (page_alloc 0 al) (\<lambda>(al1, p).
     let kernel_stack = p + HHDM + ARCH_PAGE_GRAN
     in rbind (if \<not> user
               then let rsp = kernel_stack - SIZEOF_INIT_STACK_KERNEL in Inr (al1, rsp, init_stack_kernel m rsp start)
               else
                 let rsp = (kernel_stack - SIZEOF_INIT_STACK_KERNEL) AND NOT 0xF
                 in rbind (stack_setup al1) (\<lambda>(al2, user_stack).
                    Inr (al2, rsp, init_stack_user m rsp userspace_init start user_stack)))
          (\<lambda>(al2, rsp, m1).
        let order = ucast (ucast (pmm_pagecount_to_order (CEIL (ucast fpu_area_size) ARCH_PAGE_GRAN)) div ARCH_PAGE_GRAN)
        in rbind (page_alloc order al2) (\<lambda>(al3, f).
           let fpu_area = f + HHDM
           in Inr (al3, memset m1 fpu_area 0 (ucast fpu_area_size),
                \<lparr>ctx_self = context, ctx_rsp = rsp, ctx_kernel_stack = kernel_stack, ctx_syscall_stack = 0, ctx_fpu_area = fpu_area,
                 ctx_fs = 0, ctx_gs = 0\<rparr>))))"

section \<open>Where the frames lie\<close>

text \<open>The order of the area for the floating point state is 0 whatever its size.\<close>

lemma fpu_order: "(ucast (ucast (o1 :: u8) div ARCH_PAGE_GRAN) :: u8) = 0"
proof -
  have "unat (ucast o1 :: u64) < 256" using unsigned_less [of o1, where 'a = nat] by (simp add: unsigned_ucast_eq take_bit_nat_eq_self)
  then have "unat ((ucast o1 :: u64) div 0x1000) = 0" by (simp add: unat_div)
  then show ?thesis by (simp add: page_gran unat_eq_zero)
qed

lemma frame_aligned:
  assumes "(b :: u64) mod 0x1000 = 0"
  shows "(b + 0x1000 - SIZEOF_INIT_STACK_KERNEL) AND NOT 0xF = b + 0xF80"
proof -
  let ?x = "b + 0xF80"
  have "?x AND 0xF = (?x AND 0xFFF) AND 0xF" by (simp add: and.assoc)
  also have "\<dots> = 0" using page_plus(2) [OF assms, of "0xF80"] by simp
  finally have z: "?x AND 0xF = 0" .
  have "(?x AND 0xF) + (?x AND NOT 0xF) = (?x AND 0xF) OR (?x AND NOT 0xF)"
    by (intro disjunctive_add_eq_or) (simp add: bit_eq_iff bit_simps)
  also have "\<dots> = ?x" by (auto simp: bit_eq_iff bit_simps)
  finally show ?thesis using z by (simp add: SIZEOF_INIT_STACK_KERNEL_def add.commute)
qed

text \<open>The frame of a new user thread does not fit where it is put: the program entry is written into the first word
  behind the stack page and the user stack pointer into the second (unless the floating point area lies there).\<close>

theorem user_frame_overflow:
  assumes "page_alloc 0 al = Inr (al1, p)" "(p + HHDM) mod 0x1000 = 0"
    and "stack_setup al1 = Inr (al2, us)" "page_alloc 0 al2 = Inr (al3, f)"
    and "\<forall>i < 16. unat fpu \<le> unat (p + HHDM + 0x1000 + of_nat i - (f + HHDM))"
  shows "\<exists>m' c. arch_thread_context_init page_alloc stack_setup HHDM fpu ui ctx True start al m = Inr (al3, m', c) \<and>
    ctx_kernel_stack c = p + HHDM + 0x1000 \<and>
    (\<forall>i < 8. m' (ctx_kernel_stack c + of_nat i) = ucast (drop_bit (8 * i) start)) \<and>
    (\<forall>i < 8. m' (ctx_kernel_stack c + 8 + of_nat i) = ucast (drop_bit (8 * i) us))"
proof -
  let ?ks = "p + HHDM + 0x1000" and ?rsp = "p + HHDM + 0xF80"
  let ?m1 = "init_stack_user m ?rsp ui start us"
  let ?m2 = "memset ?m1 (f + HHDM) 0 (ucast fpu)"
  have o: "(ucast (ucast (pmm_pagecount_to_order (CEIL (ucast fpu) ARCH_PAGE_GRAN)) div ARCH_PAGE_GRAN) :: u8) = 0"
    by (rule fpu_order)
  have e: "arch_thread_context_init page_alloc stack_setup HHDM fpu ui ctx True start al m =
      Inr (al3, ?m2, \<lparr>ctx_self = ctx, ctx_rsp = ?rsp, ctx_kernel_stack = ?ks, ctx_syscall_stack = 0, ctx_fpu_area = f + HHDM, ctx_fs = 0, ctx_gs = 0\<rparr>)"
    using assms(1,3,4) frame_aligned [OF assms(2)] o by (simp add: arch_thread_context_init_def Let_def page_gran)
  have keep: "?m2 (?ks + of_nat i) = ?m1 (?ks + of_nat i)" if "i < 16" for i
  proof -
    have "unat (ucast fpu :: u64) = unat fpu"
      using unsigned_less [of fpu, where 'a = nat] by (simp add: unsigned_ucast_eq take_bit_nat_eq_self)
    moreover have "unat fpu \<le> unat (?ks + of_nat i - (f + HHDM))" using assms(5) that by blast
    ultimately show ?thesis unfolding memset_at by auto
  qed
  have a: "?rsp + 128 = ?ks" "?rsp + 136 = ?ks + 8" by simp_all
  have "?m2 (?ks + 8 + of_nat i) = ucast (drop_bit (8 * i) us)" if "i < 8" for i
    using keep [of "8 + i"] that put_u64_at [OF that, of _ "?ks + 8" us] by (simp add: init_stack_user_def a add.assoc)
  moreover have "?m2 (?ks + of_nat i) = ucast (drop_bit (8 * i) start)" if "i < 8" for i
  proof -
    have "8 \<le> unat (?ks + of_nat i - (?ks + 8))"
    proof -
      have "?ks + of_nat i - (?ks + 8) = of_nat i - 8" by simp
      moreover have "unat (of_nat i - 8 :: u64) = 2 ^ 64 + i - 8" using that of_nat_u64 [of i] by (simp add: unat_sub_if' word_size)
      ultimately show ?thesis by simp
    qed
    from put_u64_frame [OF this] show ?thesis
      using keep [of i] that put_u64_at [OF that, of _ ?ks start] by (simp add: init_stack_user_def a)
  qed
  ultimately show ?thesis using e by auto
qed

end
