(* ===== verification/Sched.thy ===== *)
theory Sched
  imports Thread Resource
begin

text \<open>
  Threads, processes and the scheduler: \<^verbatim>\<open>kernel/src/sys/thread.c\<close>, \<^verbatim>\<open>proc.c\<close>, \<^verbatim>\<open>sched.c\<close>, \<^verbatim>\<open>reaper.c\<close>, \<^verbatim>\<open>smp.c\<close>
  and the mutex of \<^verbatim>\<open>kernel/src/common/sync/mutex.c\<close>.  The state is shared by all CPUs; each CPU has an
  interrupt flag, a thread register, the two segment bases, the stack for interrupts and a loaded
  address space, and runs one operation at a time.
  Intrusive lists are lists of addresses.
\<close>

section \<open>Data\<close>

datatype thread_status_t = THREAD_STATE_AWAITING_CLEANUP | THREAD_STATE_BLOCKED | THREAD_STATE_READY | THREAD_STATE_RUNNING

record thread_t =
  th_context :: arch_thread_context_t
  th_id :: u32
  th_status :: thread_status_t
  parent_proc :: uptr
  assigned_core :: uptr
  th_slock :: spinlock_t
  th_ref_count :: u64

datatype proc_type_t = PROC_KERNEL | PROC_USER

record proc_t =
  pr_id :: u32
  pr_type :: proc_type_t
  pr_addr_space :: uptr
  pr_threads :: "uptr list"
  pr_table :: resource_table_t
  pr_slock :: spinlock_t
  pr_ref_count :: u64

record smp_cpu_core_t =
  core_id :: u32
  idle_thread :: uptr
  core_lapic_id :: u8

definition SIZEOF_THREAD :: u64 where "SIZEOF_THREAD = 144"
definition SIZEOF_PROC :: u64 where "SIZEOF_PROC = 152"

text \<open>What the operations call: the heap, the frames, the address spaces and the user stack of a new thread.\<close>

record 's sd_env =
  se_heap_alloc :: "u64 \<Rightarrow> 's \<Rightarrow> ('s \<times> uptr) res"
  se_heap_realloc :: "u64 \<Rightarrow> u64 \<Rightarrow> 's \<Rightarrow> ('s \<times> uptr) res"
  se_page_alloc :: "u8 \<Rightarrow> 's \<Rightarrow> ('s \<times> uptr) res"
  se_new_addr_space :: "'s \<Rightarrow> ('s \<times> uptr) res"
  se_stack_setup :: "uptr \<Rightarrow> 's \<Rightarrow> ('s \<times> uptr) res"
  se_HHDM :: uptr
  se_fpu_area_size :: u32
  se_userspace_init :: uptr
  se_kernel_addr_space :: uptr

record 's sd =
  sd_al :: 's
  sd_bytes :: bytes
  sd_int :: "nat \<Rightarrow> bool"
  sd_reg :: "nat \<Rightarrow> uptr"
  sd_space :: "nat \<Rightarrow> uptr"
  sd_timer :: "nat \<Rightarrow> bool"
  sd_gs :: "nat \<Rightarrow> u64"
  sd_fs :: "nat \<Rightarrow> u64"
  sd_rsp0 :: "nat \<Rightarrow> uptr"
  sd_slock :: spinlock_t
  g_thread_list :: "uptr list"
  sd_thread :: "uptr \<Rightarrow> thread_t"
  sd_proc :: "uptr \<Rightarrow> proc_t"
  sd_core :: "uptr \<Rightarrow> smp_cpu_core_t"
  g_proc_list :: "uptr list"
  g_smp_cpu_core_list :: "uptr list"
  threads_queue :: "uptr list"
  slock_threads :: spinlock_t
  g_cores_initialized :: u64
  g_smp_initialized :: bool
  core_slock :: spinlock_t
  last_tid :: u32
  last_pid :: u32
  g_thread_count :: u64

definition set_int :: "nat \<Rightarrow> bool \<Rightarrow> 's sd \<Rightarrow> 's sd" where
  "set_int cpu b st = st\<lparr>sd_int := (sd_int st)(cpu := b)\<rparr>"

definition set_thread :: "uptr \<Rightarrow> thread_t \<Rightarrow> 's sd \<Rightarrow> 's sd" where
  "set_thread p t st = st\<lparr>sd_thread := (sd_thread st)(p := t)\<rparr>"

definition set_proc :: "uptr \<Rightarrow> proc_t \<Rightarrow> 's sd \<Rightarrow> 's sd" where
  "set_proc p t st = st\<lparr>sd_proc := (sd_proc st)(p := t)\<rparr>"

section \<open>References\<close>

definition thread_ref :: "nat \<Rightarrow> uptr \<Rightarrow> 's sd \<Rightarrow> 's sd res" where
  "thread_ref cpu p st =
     rbind (spinlock_acquire (sd_int st cpu) (th_slock (sd_thread st p))) (\<lambda>(i, l).
     let t = sd_thread st p; (i2, l2) = spinlock_release i l
     in Inr (set_thread p (t\<lparr>th_ref_count := th_ref_count t + 1, th_slock := l2\<rparr>) (set_int cpu i2 st)))"

definition thread_unref :: "nat \<Rightarrow> uptr \<Rightarrow> 's sd \<Rightarrow> 's sd res" where
  "thread_unref cpu p st =
     rbind (spinlock_acquire (sd_int st cpu) (th_slock (sd_thread st p))) (\<lambda>(i, l).
     let t = sd_thread st p; (i2, l2) = spinlock_release i l
     in Inr (set_thread p (t\<lparr>th_ref_count := th_ref_count t - 1, th_slock := l2\<rparr>) (set_int cpu i2 st)))"

definition proc_ref :: "nat \<Rightarrow> uptr \<Rightarrow> 's sd \<Rightarrow> 's sd res" where
  "proc_ref cpu p st =
     rbind (spinlock_acquire (sd_int st cpu) (pr_slock (sd_proc st p))) (\<lambda>(i, l).
     let t = sd_proc st p; (i2, l2) = spinlock_release i l
     in Inr (set_proc p (t\<lparr>pr_ref_count := pr_ref_count t + 1, pr_slock := l2\<rparr>) (set_int cpu i2 st)))"

definition proc_unref :: "nat \<Rightarrow> uptr \<Rightarrow> 's sd \<Rightarrow> 's sd res" where
  "proc_unref cpu p st =
     rbind (spinlock_acquire (sd_int st cpu) (pr_slock (sd_proc st p))) (\<lambda>(i, l).
     let t = sd_proc st p; (i2, l2) = spinlock_release i l
     in Inr (set_proc p (t\<lparr>pr_ref_count := pr_ref_count t - 1, pr_slock := l2\<rparr>) (set_int cpu i2 st)))"

section \<open>Threads and processes\<close>

text \<open>The status of a new thread is not in its initialiser and so the first one of the enumeration.\<close>

definition thread_new :: "'s sd_env \<Rightarrow> uptr \<Rightarrow> uptr \<Rightarrow> 's sd \<Rightarrow> ('s sd \<times> uptr) res" where
  "thread_new env proc start st =
     rbind (assert_c (proc \<noteq> 0)) (\<lambda>_.
     rbind (se_heap_alloc env SIZEOF_THREAD (sd_al st)) (\<lambda>(al1, p).
     if p = 0 then Inl NullDeref
     else
       let pr = sd_proc st proc
       in rbind (arch_thread_context_init (se_page_alloc env) (se_stack_setup env (pr_addr_space pr)) (se_HHDM env)
                   (se_fpu_area_size env) (se_userspace_init env) p (pr_type pr = PROC_USER) start al1 (sd_bytes st))
            (\<lambda>(al2, m, c).
          let st1 = set_thread p \<lparr>th_context = c, th_id = last_tid st, th_status = THREAD_STATE_AWAITING_CLEANUP,
                      parent_proc = proc, assigned_core = 0, th_slock = SPINLOCK_INIT, th_ref_count = 0\<rparr>
                      (st\<lparr>sd_al := al2, sd_bytes := m, last_tid := last_tid st + 1, g_thread_count := g_thread_count st + 1\<rparr>)
          in Inr (set_proc proc (pr\<lparr>pr_threads := pr_threads pr @ [p]\<rparr>) st1, p))))"

definition proc_new :: "'s sd_env \<Rightarrow> nat \<Rightarrow> proc_type_t \<Rightarrow> 's sd \<Rightarrow> ('s sd \<times> uptr) res" where
  "proc_new env cpu t st =
     rbind (se_heap_alloc env SIZEOF_PROC (sd_al st)) (\<lambda>(al1, p).
     if p = 0 then Inl NullDeref
     else
       rbind (if t = PROC_KERNEL then Inr (al1, se_kernel_addr_space env) else se_new_addr_space env al1) (\<lambda>(al2, as).
       rbind (resource_table_expand (se_heap_realloc env) 16
                \<lparr>rs_al = al2, rs_int = sd_int st cpu, rs_objs = (\<lambda>_. \<lparr>res_node = 0, res_offset = 0, res_flags = 0\<rparr>), rs_table = resource_table_new\<rparr>) (\<lambda>r.
       Inr (set_proc p \<lparr>pr_id = last_pid st, pr_type = t, pr_addr_space = as, pr_threads = [], pr_table = rs_table r,
                        pr_slock = SPINLOCK_INIT, pr_ref_count = 0\<rparr>
              (set_int cpu (rs_int r) (st\<lparr>sd_al := rs_al r, last_pid := last_pid st + 1, g_proc_list := g_proc_list st @ [p]\<rparr>)), p))))"

definition proc_find_id :: "u32 \<Rightarrow> 's sd \<Rightarrow> uptr" where
  "proc_find_id pid st =
     (case find (\<lambda>p. pr_id (sd_proc st p) = pid) (g_proc_list st) of None \<Rightarrow> 0 | Some p \<Rightarrow> p)"

section \<open>The scheduler\<close>

definition sched_lock :: "nat \<Rightarrow> 's sd \<Rightarrow> 's sd res" where
  "sched_lock cpu st =
     rbind (spinlock_acquire (sd_int st cpu) (sd_slock st)) (\<lambda>(i, l). Inr (set_int cpu i (st\<lparr>sd_slock := l\<rparr>)))"

definition sched_unlock :: "nat \<Rightarrow> 's sd \<Rightarrow> 's sd" where
  "sched_unlock cpu st =
     (let (i, l) = spinlock_release (sd_int st cpu) (sd_slock st) in set_int cpu i (st\<lparr>sd_slock := l\<rparr>))"

definition sched_get_curr_thread :: "nat \<Rightarrow> 's sd \<Rightarrow> uptr" where
  "sched_get_curr_thread cpu st = sd_reg st cpu"

text \<open>\<^verbatim>\<open>sched_get_curr_thread()->assigned_core->idle_thread\<close>\<close>

definition curr_idle :: "nat \<Rightarrow> 's sd \<Rightarrow> uptr res" where
  "curr_idle cpu st =
     (let core = assigned_core (sd_thread st (sched_get_curr_thread cpu st))
      in if core = 0 then Inl NullDeref else Inr (idle_thread (sd_core st core)))"

definition sched_next :: "nat \<Rightarrow> 's sd \<Rightarrow> ('s sd \<times> uptr) res" where
  "sched_next cpu st =
     rbind (sched_lock cpu st) (\<lambda>st1.
     rbind (case g_thread_list st1 of
              [] \<Rightarrow> rbind (curr_idle cpu st1) (\<lambda>idle. Inr (st1, idle))
            | t # q \<Rightarrow> rbind (thread_ref cpu t (st1\<lparr>g_thread_list := q\<rparr>)) (\<lambda>st2. Inr (st2, t))) (\<lambda>(st2, r).
     Inr (sched_unlock cpu st2, r)))"

definition sched_enqueue :: "nat \<Rightarrow> uptr \<Rightarrow> 's sd \<Rightarrow> 's sd res" where
  "sched_enqueue cpu thread st =
     rbind (sched_lock cpu st) (\<lambda>st1.
     rbind (thread_ref cpu thread (st1\<lparr>g_thread_list := g_thread_list st1 @ [thread]\<rparr>)) (\<lambda>st2.
     Inr (sched_unlock cpu st2)))"

definition reaper_enqueue_thread :: "nat \<Rightarrow> uptr \<Rightarrow> 's sd \<Rightarrow> 's sd res" where
  "reaper_enqueue_thread cpu t st =
     rbind (spinlock_acquire (sd_int st cpu) (slock_threads st)) (\<lambda>(i, l).
     let (i2, l2) = spinlock_release i l
     in Inr (set_int cpu i2 (st\<lparr>threads_queue := threads_queue st @ [t], slock_threads := l2\<rparr>)))"

text \<open>The assertions of the last two cases are on the constant \<^verbatim>\<open>true\<close> and never fail.\<close>

definition sched_drop :: "nat \<Rightarrow> uptr \<Rightarrow> 's sd \<Rightarrow> 's sd res" where
  "sched_drop cpu thread st =
     rbind (curr_idle cpu st) (\<lambda>idle.
     if thread = idle then Inr st
     else case th_status (sd_thread st thread) of
       THREAD_STATE_AWAITING_CLEANUP \<Rightarrow> reaper_enqueue_thread cpu thread st
     | THREAD_STATE_BLOCKED \<Rightarrow> Inr st
     | THREAD_STATE_READY \<Rightarrow> sched_enqueue cpu thread st
     | THREAD_STATE_RUNNING \<Rightarrow> Inr st)"

text \<open>
  The context switch exchanges the segment bases.  It drops the old thread and unmasks the interrupts
  when it runs on the stack of the new one, whose register is already set.
\<close>

definition switch_bases :: "nat \<Rightarrow> uptr \<Rightarrow> uptr \<Rightarrow> 's sd \<Rightarrow> 's sd" where
  "switch_bases cpu cur nxt st =
     (let t = sd_thread st cur;
          st1 = set_thread cur (t\<lparr>th_context := (th_context t)\<lparr>ctx_gs := sd_gs st cpu, ctx_fs := sd_fs st cpu\<rparr>\<rparr>) st;
          n = th_context (sd_thread st1 nxt)
      in st1\<lparr>sd_gs := (sd_gs st1)(cpu := ctx_gs n), sd_fs := (sd_fs st1)(cpu := ctx_fs n),
             sd_rsp0 := (sd_rsp0 st1)(cpu := ctx_kernel_stack n)\<rparr>)"

definition arch_thread_context_switch :: "nat \<Rightarrow> uptr \<Rightarrow> uptr \<Rightarrow> uptr \<Rightarrow> 's sd \<Rightarrow> 's sd res" where
  "arch_thread_context_switch cpu core cur nxt st =
     (if core = 0 then Inl NullDeref
      else rbind (sched_drop cpu cur (switch_bases cpu cur nxt st)) (\<lambda>st1. Inr (set_int cpu True st1)))"

definition sched_yield :: "nat \<Rightarrow> thread_status_t \<Rightarrow> 's sd \<Rightarrow> 's sd res" where
  "sched_yield cpu status st =
     (let st1 = set_int cpu False (st\<lparr>sd_timer := (sd_timer st)(cpu := False)\<rparr>);
          cur = sched_get_curr_thread cpu st1
      in rbind (sched_next cpu st1) (\<lambda>(st2, nxt).
         let core = assigned_core (sd_thread st2 cur);
             st3 = set_thread nxt ((sd_thread st2 nxt)\<lparr>th_status := THREAD_STATE_RUNNING\<rparr>)
                     (st2\<lparr>sd_timer := (sd_timer st2)(cpu := True)\<rparr>)
         in if cur = nxt then Inr st3
            else
              let st4 = set_thread nxt ((sd_thread st3 nxt)\<lparr>assigned_core := core\<rparr>) st3;
                  st5 = set_thread cur ((sd_thread st4 cur)\<lparr>assigned_core := 0, th_status := status\<rparr>) st4;
                  proc = parent_proc (sd_thread st5 nxt)
              in if proc = 0 then Inl NullDeref
                 else
                   arch_thread_context_switch cpu core cur nxt
                     (st5\<lparr>sd_space := (sd_space st5)(cpu := pr_addr_space (sd_proc st5 proc)), sd_reg := (sd_reg st5)(cpu := nxt)\<rparr>)))"

definition sched_preempt :: "nat \<Rightarrow> 's sd \<Rightarrow> 's sd res" where
  "sched_preempt cpu st = sched_yield cpu THREAD_STATE_READY st"

text \<open>The call \<^verbatim>\<open>exit\<close>: it does not come back to the thread.\<close>

definition syscall_exit :: "nat \<Rightarrow> int \<Rightarrow> 's sd \<Rightarrow> 's sd res" where
  "syscall_exit cpu code st = sched_yield cpu THREAD_STATE_AWAITING_CLEANUP st"

definition syscall_tcb :: "nat \<Rightarrow> uptr \<Rightarrow> 's sd \<Rightarrow> 's sd \<times> sys_ret_t" where
  "syscall_tcb cpu ptr st = (st\<lparr>sd_fs := (sd_fs st)(cpu := ptr)\<rparr>, sys_ret 0 EOK)"

section \<open>Cores\<close>

definition SIZEOF_CPU_CORE :: u64 where "SIZEOF_CPU_CORE = 56"

text \<open>
  The state a core is in when it enters its idle loop; \<open>cpu_count\<close> comes from the boot loader.  The
  lock makes the cores take turns.
\<close>

definition core_init :: "'s sd_env \<Rightarrow> uptr \<Rightarrow> uptr \<Rightarrow> u64 \<Rightarrow> nat \<Rightarrow> u64 \<Rightarrow> u8 \<Rightarrow> 's sd \<Rightarrow> 's sd res" where
  "core_init env g_idle_proc idle_func cpu_count cpu extra lapic_id st =
     rbind (spinlock_acquire (sd_int st cpu) (core_slock st)) (\<lambda>(i, l).
     rbind (thread_new env g_idle_proc idle_func (set_int cpu i (st\<lparr>core_slock := l\<rparr>))) (\<lambda>(st1, idle).
     rbind (se_heap_alloc env SIZEOF_CPU_CORE (sd_al st1)) (\<lambda>(al, core).
     if core = 0 then Inl NullDeref
     else
       let st2 = st1\<lparr>sd_al := al, sd_core := (sd_core st1)(core := \<lparr>core_id = ucast extra, idle_thread = idle, core_lapic_id = lapic_id\<rparr>),
                     g_smp_cpu_core_list := g_smp_cpu_core_list st1 @ [core], g_cores_initialized := g_cores_initialized st1 + 1\<rparr>;
           st3 = set_thread idle ((sd_thread st2 idle)\<lparr>assigned_core := core\<rparr>) st2;
           st4 = (if g_cores_initialized st3 = cpu_count then st3\<lparr>g_smp_initialized := True\<rparr> else st3);
           (i2, l2) = spinlock_release (sd_int st4 cpu) (core_slock st4)
       in Inr (set_int cpu True (st4\<lparr>core_slock := l2, sd_reg := (sd_reg st4)(cpu := idle)\<rparr>)))))"

text \<open>
  The start of all cores, given by their \<^verbatim>\<open>lapic_id\<close>; the bootstrap processor comes last.  Without one the
  variable that should point to it was never assigned.
\<close>

definition smp_init :: "'s sd_env \<Rightarrow> uptr \<Rightarrow> u8 list option \<Rightarrow> u8 \<Rightarrow> 's sd \<Rightarrow> 's sd res" where
  "smp_init env idle_func cpus bsp_lapic_id st =
     (case cpus of
        None \<Rightarrow> Inl Panic
      | Some ids \<Rightarrow>
          let start = (\<lambda>proc s (i, lapic). core_init env proc idle_func (of_nat (length ids)) i (of_nat i) lapic s)
          in rbind (proc_new env 0 PROC_KERNEL st) (\<lambda>(st1, proc).
             rbind (for_each (start proc) (filter (\<lambda>(i, l). l \<noteq> bsp_lapic_id) (enumerate 0 ids)) st1) (\<lambda>st2.
             case filter (\<lambda>(i, l). l = bsp_lapic_id) (enumerate 0 ids) of
               [] \<Rightarrow> Inl Undefined
             | bs \<Rightarrow> start proc st2 (last bs))))"

section \<open>The reaper\<close>

text \<open>
  One round over the queue.  The queue links \<^verbatim>\<open>list_node_sched\<close>, but the container is computed with
  \<^verbatim>\<open>list_node_proc\<close>, which lies 16 bytes further on: the pointer does not point to a thread, and what the
  round reads through it is undefined.
\<close>

definition reaper_round :: "nat \<Rightarrow> 's sd \<Rightarrow> 's sd res" where
  "reaper_round cpu st =
     rbind (spinlock_acquire (sd_int st cpu) (slock_threads st)) (\<lambda>(i, l).
     if threads_queue st \<noteq> [] then Inl Undefined
     else let (i2, l2) = spinlock_release i l in Inr (set_int cpu i2 (st\<lparr>slock_threads := l2\<rparr>)))"

definition reaper_init :: "'s sd_env \<Rightarrow> nat \<Rightarrow> uptr \<Rightarrow> 's sd \<Rightarrow> 's sd res" where
  "reaper_init env cpu reaper_main st =
     rbind (proc_new env cpu PROC_KERNEL st) (\<lambda>(st1, proc).
     rbind (thread_new env proc reaper_main st1) (\<lambda>(st2, _).
     case pr_threads (sd_proc st2 proc) of
       [] \<Rightarrow> Inl NullDeref
     | t # _ \<Rightarrow> sched_enqueue cpu t st2))"

section \<open>Mutexes\<close>

datatype mutex_state_t = MUTEX_STATE_UNLOCKED | MUTEX_STATE_LOCKED | MUTEX_STATE_CONTESTED

record mutex_t =
  mx_lock :: spinlock_t
  mx_state :: mutex_state_t
  wait_queue :: "uptr list"

definition MUTEX_INIT :: mutex_t where
  "MUTEX_INIT = \<lparr>mx_lock = SPINLOCK_INIT, mx_state = MUTEX_STATE_UNLOCKED, wait_queue = []\<rparr>"

definition SPIN_COUNT :: nat where "SPIN_COUNT = 10"

text \<open>A weak exchange may fail although the mutex is free: \<open>spurious\<close>.\<close>

definition try_lock :: "bool \<Rightarrow> mutex_t \<Rightarrow> mutex_t \<times> bool" where
  "try_lock spurious m =
     (if mx_state m = MUTEX_STATE_UNLOCKED \<and> \<not> spurious then (m\<lparr>mx_state := MUTEX_STATE_LOCKED\<rparr>, True) else (m, False))"

text \<open>
  The acquisition.  \<open>away k\<close> is what happens to the mutex and the scheduler from the \<open>k\<close>-th time the
  thread yields until it runs again; \<open>spurious\<close> tells which exchanges fail.
\<close>

fun mutex_spin ::
  "(nat \<Rightarrow> bool) \<Rightarrow> (nat \<Rightarrow> thread_status_t \<Rightarrow> mutex_t \<times> 's sd \<Rightarrow> (mutex_t \<times> 's sd) res) \<Rightarrow> nat \<Rightarrow> nat \<Rightarrow>
   mutex_t \<times> 's sd \<Rightarrow> ((mutex_t \<times> 's sd) \<times> bool) res" where
  "mutex_spin spurious away k 0 (m, st) = Inr ((m, st), False)"
| "mutex_spin spurious away k (Suc n) (m, st) =
     (case try_lock (spurious k) m of
        (m1, True) \<Rightarrow> Inr ((m1, st), True)
      | (m1, False) \<Rightarrow>
          rbind (away k THREAD_STATE_READY (m1, st)) (\<lambda>s. mutex_spin spurious away (Suc k) n s))"

definition mutex_acquire ::
  "(nat \<Rightarrow> bool) \<Rightarrow> (nat \<Rightarrow> thread_status_t \<Rightarrow> mutex_t \<times> 's sd \<Rightarrow> (mutex_t \<times> 's sd) res) \<Rightarrow> nat \<Rightarrow>
   mutex_t \<times> 's sd \<Rightarrow> (mutex_t \<times> 's sd) res" where
  "mutex_acquire spurious away cpu ms =
     (let (m, st) = ms
      in case try_lock (spurious 0) m of
           (m1, True) \<Rightarrow> Inr (m1, st)
         | (m1, False) \<Rightarrow>
             rbind (mutex_spin spurious away 1 SPIN_COUNT (m1, st)) (\<lambda>((m2, st2), got).
             if got then Inr (m2, st2)
             else
               rbind (spinlock_acquire (sd_int st2 cpu) (mx_lock m2)) (\<lambda>(i, l).
               let old = mx_state m2;
                   m3 = m2\<lparr>mx_lock := l, mx_state := MUTEX_STATE_CONTESTED\<rparr>;
                   st3 = set_int cpu i st2
               in rbind (if old \<noteq> MUTEX_STATE_UNLOCKED then
                           let m4 = m3\<lparr>wait_queue := wait_queue m3 @ [sched_get_curr_thread cpu st3],
                                       mx_lock := spinlock_primitive_release (mx_lock m3)\<rparr>
                           in rbind (away (Suc SPIN_COUNT) THREAD_STATE_BLOCKED (m4, st3)) (\<lambda>(m5, st5).
                              rbind (spinlock_primitive_acquire (mx_lock m5)) (\<lambda>l5.
                              Inr (m5\<lparr>mx_lock := l5\<rparr>, st5)))
                         else Inr (m3\<lparr>mx_state := MUTEX_STATE_LOCKED\<rparr>, st3)) (\<lambda>(m6, st6).
                  let (i7, l7) = spinlock_release (sd_int st6 cpu) (mx_lock m6)
                  in Inr (m6\<lparr>mx_lock := l7\<rparr>, set_int cpu i7 st6)))))"

text \<open>
  The release of a contested mutex takes the address of the field \<^verbatim>\<open>wait_queue.head\<close> for the first waiter's
  list node: the thread computed from it does not exist, and unlinking it is undefined.
\<close>

definition mutex_release :: "nat \<Rightarrow> mutex_t \<times> 's sd \<Rightarrow> (mutex_t \<times> 's sd) res" where
  "mutex_release cpu ms =
     (let (m, st) = ms
      in if mx_state m = MUTEX_STATE_LOCKED then Inr (m\<lparr>mx_state := MUTEX_STATE_UNLOCKED\<rparr>, st)
         else
           rbind (spinlock_acquire (sd_int st cpu) (mx_lock m)) (\<lambda>_.
           rbind (assert_c (mx_state m = MUTEX_STATE_CONTESTED)) (\<lambda>_.
           rbind (assert_c (wait_queue m \<noteq> [])) (\<lambda>_. Inl Undefined))))"

end
