(* ===== verification/Syscalls.thy ===== *)
theory Syscalls
  imports Sockets_Correct Resource_Correct Sched
begin

text \<open>
  The system calls of a process (\<^verbatim>\<open>kernel/src/syscalls/syscall.c\<close>): the table of the calls, by which the entry of theory Asm dispatches, as one
  function on the state of the kernel, and what any sequence of calls does to the descriptors of the process.
\<close>

section \<open>The table of the calls\<close>

text \<open>The calls with their arguments, in the order of the table.\<close>

datatype syscall =
  Syscall_accept int uptr
| Syscall_bind int uptr
| Syscall_close int
| Syscall_connect int uptr
| Syscall_debug_log uptr
| Syscall_exit int
| Syscall_getpeername int uptr
| Syscall_getsockname int uptr
| Syscall_ioctl int int uptr
| Syscall_listen int int
| Syscall_mmap uptr u64 int int int u64
| Syscall_open uptr int int
| Syscall_read int uptr u64
| Syscall_recv int uptr u64 int
| Syscall_seek int u64 int
| Syscall_send int uptr u64 int
| Syscall_shutdown int int
| Syscall_socket int int int
| Syscall_tcb uptr
| Syscall_write int uptr u64

text \<open>
  The state: files, descriptors and sockets, the frames and page tables, the address space of the process, and the threads.
  The environment has the heap, the memory, the root of the mount points, the two arrays of \<^verbatim>\<open>vfs_create\<close> and the CPU of the caller.
\<close>

record ('s, 'v, 't) os =
  os_net :: "'s net"
  os_vm :: "('v, uptr) vmm"
  os_as :: "uptr vmm_addr_space_t"
  os_sd :: "'t sd"

record ('s, 'v) os_env =
  oe_fs :: "'s fs_env"
  oe_vm :: "('v, uptr) vmm_env"
  oe_root :: uptr
  oe_pp :: uptr
  oe_cn :: uptr
  oe_cpu :: nat

definition on_net :: "('s, 'v, 't) os \<Rightarrow> ('s net \<times> sys_ret_t) run \<Rightarrow> (('s, 'v, 't) os \<times> sys_ret_t) run" where
  "on_net st m = seq m (\<lambda>(n, r). ret (st\<lparr>os_net := n\<rparr>, r))"

definition on_sys :: "('s, 'v, 't) os \<Rightarrow> ('s sys \<times> sys_ret_t) run \<Rightarrow> (('s, 'v, 't) os \<times> sys_ret_t) run" where
  "on_sys st m = seq m (\<lambda>(y, r). ret (st\<lparr>os_net := (os_net st)\<lparr>nt_sys := y\<rparr>\<rparr>, r))"

text \<open>The thread that calls \<^verbatim>\<open>exit\<close> never gets an answer.\<close>

fun syscall_dispatch :: "('s, 'v) os_env \<Rightarrow> syscall \<Rightarrow> ('s, 'v, 't) os \<Rightarrow> (('s, 'v, 't) os \<times> sys_ret_t) run" where
  "syscall_dispatch e (Syscall_accept fd addr) st = on_net st (syscall_accept (oe_fs e) fd addr (os_net st))"
| "syscall_dispatch e (Syscall_bind fd addr) st = on_net st (syscall_bind (oe_fs e) (oe_root e) (oe_pp e) (oe_cn e) fd addr (os_net st))"
| "syscall_dispatch e (Syscall_close fd) st = on_sys st (now (syscall_close fd (nt_sys (os_net st))))"
| "syscall_dispatch e (Syscall_connect fd addr) st = on_net st (syscall_connect (oe_root e) fd addr (os_net st))"
| "syscall_dispatch e (Syscall_debug_log str) st = on_sys st (ret (syscall_debug_log str (nt_sys (os_net st))))"
| "syscall_dispatch e (Syscall_exit code) st = seq (now (syscall_exit (oe_cpu e) code (os_sd st))) (\<lambda>_. None)"
| "syscall_dispatch e (Syscall_getpeername fd addr) st = seq (now (syscall_getpeername fd addr)) (\<lambda>r. ret (st, r))"
| "syscall_dispatch e (Syscall_getsockname fd addr) st = seq (now (syscall_getsockname fd addr)) (\<lambda>r. ret (st, r))"
| "syscall_dispatch e (Syscall_ioctl fd op argp) st = on_sys st (now (syscall_ioctl fd op argp (nt_sys (os_net st))))"
| "syscall_dispatch e (Syscall_listen fd backlog) st = on_net st (now (syscall_listen fd backlog (os_net st)))"
| "syscall_dispatch e (Syscall_mmap addr len prot flags fd off) st =
     seq (now (syscall_mmap (oe_vm e) (os_vm st) (os_as st) addr len prot flags fd off (nt_sys (os_net st)))) (\<lambda>(vm, as, r).
     ret (st\<lparr>os_vm := vm, os_as := as\<rparr>, r))"
| "syscall_dispatch e (Syscall_open path flags mode) st = on_sys st (syscall_open (oe_fs e) (oe_root e) path flags mode (nt_sys (os_net st)))"
| "syscall_dispatch e (Syscall_read fd buf n) st = on_sys st (syscall_read (oe_fs e) fd buf n (nt_sys (os_net st)))"
| "syscall_dispatch e (Syscall_recv fd buf n flags) st = seq (now (syscall_recv fd buf n flags)) (\<lambda>r. ret (st, r))"
| "syscall_dispatch e (Syscall_seek fd offset whence) st = on_sys st (ret (syscall_seek fd offset whence (nt_sys (os_net st))))"
| "syscall_dispatch e (Syscall_send fd buf n flags) st = seq (now (syscall_send fd buf n flags)) (\<lambda>r. ret (st, r))"
| "syscall_dispatch e (Syscall_shutdown fd how) st = seq (now (syscall_shutdown fd how)) (\<lambda>r. ret (st, r))"
| "syscall_dispatch e (Syscall_socket domain ty protocol) st = on_net st (now (syscall_socket (oe_fs e) domain ty protocol (os_net st)))"
| "syscall_dispatch e (Syscall_tcb p) st = (let (sd, r) = syscall_tcb (oe_cpu e) p (os_sd st) in ret (st\<lparr>os_sd := sd\<rparr>, r))"
| "syscall_dispatch e (Syscall_write fd buf n) st = on_sys st (syscall_write (oe_fs e) fd buf n (nt_sys (os_net st)))"

text \<open>A sequence of calls, with their answers; it ends early with the first fault.\<close>

fun syscall_run :: "('s, 'v) os_env \<Rightarrow> syscall list \<Rightarrow> ('s, 'v, 't) os \<Rightarrow> (('s, 'v, 't) os \<times> sys_ret_t list) run" where
  "syscall_run e [] st = ret (st, [])"
| "syscall_run e (c # cs) st =
     seq (syscall_dispatch e c st) (\<lambda>(st1, r). seq (syscall_run e cs st1) (\<lambda>(st2, rs). ret (st2, r # rs)))"

section \<open>What a call does to the descriptors\<close>

abbreviation net_table :: "'s net \<Rightarrow> resource_table_t" where
  "net_table st \<equiv> sy_table (nt_sys st)"

definition os_table :: "('s, 'v, 't) os \<Rightarrow> resource_table_t" where
  "os_table st = net_table (os_net st)"

text \<open>The calls that make a descriptor.\<close>

definition makes_fd :: "syscall \<Rightarrow> bool" where
  "makes_fd c \<longleftrightarrow> (case c of Syscall_open _ _ _ \<Rightarrow> True | Syscall_socket _ _ _ \<Rightarrow> True | Syscall_accept _ _ \<Rightarrow> True | _ \<Rightarrow> False)"

text \<open>A descriptor changes only by its own \<^verbatim>\<open>close\<close>, or when it was free by the call that answers with it.\<close>

definition table_step :: "syscall \<Rightarrow> sys_ret_t \<Rightarrow> resource_table_t \<Rightarrow> resource_table_t \<Rightarrow> bool" where
  "table_step c r t t1 \<longleftrightarrow> rt_ok t1 \<and> rt_length t1 = rt_length t \<and>
     (\<forall>fd. resource_get t1 fd = resource_get t fd \<or> c = Syscall_close fd \<and> resource_get t1 fd = 0 \<or>
       makes_fd c \<and> resource_get t fd = 0 \<and> r = sys_ret (of_int fd) EOK)"

lemma table_step_same: "rt_ok t \<Longrightarrow> table_step c r t t"
  by (simp add: table_step_def)

lemma table_step_slot: "takes_slot t i t1 \<Longrightarrow> makes_fd c \<Longrightarrow> table_step c (sys_ret (of_int i) EOK) t t1"
  by (auto simp: table_step_def takes_slot_def)

lemma table_sel [simp]: "net_table (set_fs fs st) = net_table st" "net_table (set_sock p s st) = net_table st"
  by (simp_all add: set_fs_def set_sock_def)

lemma sock_lock_table:
  "sock_acquire p st = Inr st1 \<Longrightarrow> net_table st1 = net_table st" "sock_release p st = Inr st1 \<Longrightarrow> net_table st1 = net_table st"
  by (auto simp: sock_acquire_def sock_release_def case_prod_unfold Let_def)

lemma create_socket_table: "create_socket env ty protocol st = Inr (st1, p) \<Longrightarrow> net_table st1 = net_table st"
  by (auto simp: create_socket_def Let_def split: if_splits)

lemmas table_keeps = sock_lock_table create_socket_table

lemma seq_retE: "seq m f = ret y \<Longrightarrow> (\<And>x. m = ret x \<Longrightarrow> f x = ret y \<Longrightarrow> P) \<Longrightarrow> P"
  by (auto simp: seq_eq_ret)

lemma unix_bind_table: "unix_bind env root pp cn self addr st = ret (st1, r) \<Longrightarrow> net_table st1 = net_table st"
  unfolding unix_bind_def Let_def
  by (erule seq_retE)+ (auto split: if_splits elim!: seq_retE dest!: table_keeps)

lemma unix_connect_table: "unix_connect root self addr st = ret (st1, r) \<Longrightarrow> net_table st1 = net_table st"
  unfolding unix_connect_def Let_def
  by (erule seq_retE)+ (auto split: if_splits elim!: seq_retE dest!: table_keeps)

lemma unix_listen_table: "unix_listen self st = Inr (st1, r) \<Longrightarrow> net_table st1 = net_table st"
  by (fastforce simp: unix_listen_def dest!: table_keeps)

lemma unix_accept_table: "unix_accept env self flags st = ret (st1, r, n) \<Longrightarrow> net_table st1 = net_table st"
  unfolding unix_accept_def Let_def
  by (erule seq_retE)+ (auto split: list.splits elim!: seq_retE dest!: table_keeps)

lemma sock_handle_table:
  assumes "sock_handle env handle sock st = Inr (st1, r)" "rt_ok (net_table st)" "makes_fd c"
  shows "table_step c r (net_table st) (net_table st1)"
  using assms by (auto simp: sock_handle_def Let_def set_fs_def split: if_splits dest!: sys_create_slot intro!: table_step_slot simp: takes_slot_def)

lemma syscall_accept_table:
  assumes "syscall_accept env fd addr st = ret (st1, r)" "rt_ok (net_table st)"
  shows "table_step (Syscall_accept fd addr) r (net_table st) (net_table st1)"
proof (cases "sock_of fd st")
  case (Inl e)
  then show ?thesis using assms by (simp add: syscall_accept_def table_step_same)
next
  case (Inr p)
  then obtain st2 r2 new where a: "unix_accept env p 0 st = ret (st2, r2, new)" and
    "(if r2 \<noteq> 0 then ret (st2, sys_ret 0 r2)
      else seq (now (fs_alloc env SIZEOF_VNODE (nt_fs st2))) (\<lambda>(fs2, h).
        if h = 0 then ret (set_fs fs2 st2, sys_ret 0 ENOMEM) else now (sock_handle env h new (set_fs fs2 st2)))) = ret (st1, r)"
    using assms(1) unfolding syscall_accept_def Let_def Inr sum.case by (elim seq_retE) auto
  then consider "net_table st1 = net_table st2" | h fs2 where "sock_handle env h new (set_fs fs2 st2) = Inr (st1, r)"
    by (auto split: if_splits elim!: seq_retE)
  then show ?thesis
    by cases (use unix_accept_table [OF a] assms(2) in \<open>auto simp: table_step_same makes_fd_def dest!: sock_handle_table [where c = "Syscall_accept fd addr"]\<close>)
qed

lemma syscall_socket_table:
  assumes "syscall_socket env domain ty protocol st = Inr (st1, r)" "rt_ok (net_table st)"
  shows "table_step (Syscall_socket domain ty protocol) r (net_table st) (net_table st1)"
proof -
  have "net_table st1 = net_table st \<or> (\<exists>h p st2. net_table st2 = net_table st \<and> sock_handle env h p st2 = Inr (st1, r))"
  proof (cases "socket_get_family domain st = 0")
    case True
    then show ?thesis using assms(1) by (simp add: syscall_socket_def)
  next
    case False
    then obtain fs1 h where 1: "(if h = 0 then Inr (set_fs fs1 st, sys_ret 0 ENOMEM) else
        rbind (create_socket env ty protocol (set_fs fs1 st)) (\<lambda>(st2, p).
        if p = 0 then rbind (fs_free env h (nt_fs st2)) (\<lambda>fs3. Inr (set_fs fs3 st2, sys_ret 0 ENOMEM)) else sock_handle env h p st2)) = Inr (st1, r)"
      using assms(1) unfolding syscall_socket_def Let_def by auto
    show ?thesis
    proof (cases "h = 0")
      case True
      then show ?thesis using 1 by auto
    next
      case False
      with 1 obtain st2 p where "create_socket env ty protocol (set_fs fs1 st) = Inr (st2, p)" and
        "(if p = 0 then rbind (fs_free env h (nt_fs st2)) (\<lambda>fs3. Inr (set_fs fs3 st2, sys_ret 0 ENOMEM)) else sock_handle env h p st2) = Inr (st1, r)"
        by auto
      then show ?thesis using create_socket_table by (cases "p = 0") fastforce+
    qed
  qed
  then consider "net_table st1 = net_table st" | h p st2 where "net_table st2 = net_table st" "sock_handle env h p st2 = Inr (st1, r)"
    by blast
  then show ?thesis
    by cases (use assms(2) in \<open>auto simp: table_step_same makes_fd_def dest!: sock_handle_table [where c = "Syscall_socket domain ty protocol"]\<close>)
qed

lemma sock_calls_table:
  "syscall_bind env root pp cn fd addr st = ret (st1, r) \<Longrightarrow> net_table st1 = net_table st"
  "syscall_connect root fd addr st = ret (st1, r) \<Longrightarrow> net_table st1 = net_table st"
  "syscall_listen fd backlog st = Inr (st1, r) \<Longrightarrow> net_table st1 = net_table st"
  unfolding syscall_bind_def syscall_connect_def syscall_listen_def
  by (auto split: sum.splits elim!: seq_retE dest!: unix_bind_table unix_connect_table unix_listen_table)

text \<open>Closing a descriptor in the table frees it; any other one is out of bounds.\<close>

lemma syscall_close_run:
  assumes "rt_ok (sy_table st)"
  shows "fd < 0 \<or> sint (rt_length (sy_table st)) \<le> fd \<Longrightarrow> syscall_close fd st = Inl OutOfBounds"
    and "\<not> (fd < 0 \<or> sint (rt_length (sy_table st)) \<le> fd) \<Longrightarrow>
      \<exists>st1. syscall_close fd st = Inr (st1, sys_ret 0 (if resource_get (sy_table st) fd = 0 then EBADF else EOK)) \<and> rt_ok (sy_table st1) \<and>
        rt_length (sy_table st1) = rt_length (sy_table st) \<and>
        (\<forall>fd1. resource_get (sy_table st1) fd1 = (if fd1 = fd then 0 else resource_get (sy_table st) fd1))"
proof -
  have l: "sint (rt_length (sy_table st)) = int (length (rt_resources (sy_table st)))" using assms by (rule rt_ok_len)
  show "fd < 0 \<or> sint (rt_length (sy_table st)) \<le> fd \<Longrightarrow> syscall_close fd st = Inl OutOfBounds"
    by (simp add: l syscall_close_def Let_def)
  assume in_range: "\<not> (fd < 0 \<or> sint (rt_length (sy_table st)) \<le> fd)"
  then have "nat fd < length (rt_resources (sy_table st))" "\<And>fd1. \<not> fd1 < 0 \<Longrightarrow> fd1 \<noteq> fd \<Longrightarrow> nat fd \<noteq> nat fd1" by (auto simp: l)
  with in_range assms show "\<exists>st1. syscall_close fd st = Inr (st1, sys_ret 0 (if resource_get (sy_table st) fd = 0 then EBADF else EOK)) \<and> rt_ok (sy_table st1) \<and>
        rt_length (sy_table st1) = rt_length (sy_table st) \<and>
        (\<forall>fd1. resource_get (sy_table st1) fd1 = (if fd1 = fd then 0 else resource_get (sy_table st) fd1))"
    by (auto simp: l syscall_close_def Let_def rt_ok_def resource_get_def)
qed

lemma syscall_close_table:
  assumes "syscall_close fd st = Inr (st1, r)" "rt_ok (sy_table st)"
  shows "table_step (Syscall_close fd) r (sy_table st) (sy_table st1)"
  using assms(1) syscall_close_run [OF assms(2), of fd]
  by (cases "fd < 0 \<or> sint (rt_length (sy_table st)) \<le> fd") (auto simp: table_step_def)

lemma syscall_open_table:
  assumes "syscall_open env root path flags mode st = ret (st1, r)" "rt_ok (sy_table st)"
  shows "table_step (Syscall_open path flags mode) r (sy_table st) (sy_table st1)"
  using assms unfolding syscall_open_def Let_def
  by (auto simp: makes_fd_def split: if_splits elim!: seq_retE dest!: sys_create_slot intro!: table_step_same table_step_slot)

lemma file_calls_table:
  "syscall_ioctl fd op argp st = Inr (st1, r) \<Longrightarrow> sy_table st1 = sy_table st"
  "syscall_read env fd buf n st = ret (st1, r) \<Longrightarrow> sy_table st1 = sy_table st"
  "syscall_write env fd buf n st = ret (st1, r) \<Longrightarrow> sy_table st1 = sy_table st"
  "syscall_seek fd offset whence st = (st1, r) \<Longrightarrow> sy_table st1 = sy_table st"
  "syscall_debug_log str st = (st1, r) \<Longrightarrow> sy_table st1 = sy_table st"
  by (auto simp: syscall_ioctl_def syscall_read_def syscall_write_def syscall_seek_def syscall_debug_log_def Let_def
      split: if_splits option.splits elim!: seq_retE)

lemma on_net_ret: "on_net st m = ret (st1, r) \<longleftrightarrow> (\<exists>n. m = ret (n, r) \<and> st1 = st\<lparr>os_net := n\<rparr>)"
  by (auto simp: on_net_def seq_eq_ret)

lemma on_sys_ret: "on_sys st m = ret (st1, r) \<longleftrightarrow> (\<exists>y. m = ret (y, r) \<and> st1 = st\<lparr>os_net := (os_net st)\<lparr>nt_sys := y\<rparr>\<rparr>)"
  by (auto simp: on_sys_def seq_eq_ret)

lemma dispatch_step:
  assumes "syscall_dispatch e c st = ret (st1, r)" "rt_ok (os_table st)"
  shows "table_step c r (os_table st) (os_table st1)"
proof (cases "os_table st1 = os_table st")
  case True
  then show ?thesis using assms(2) by (simp add: table_step_same)
next
  case False
  note calls = syscall_getpeername_def syscall_getsockname_def syscall_recv_def syscall_send_def syscall_shutdown_def
  from False assms show ?thesis
    unfolding os_table_def
    by (cases c) (auto simp: on_net_ret on_sys_ret seq_eq_ret calls Let_def split: prod.splits
        dest: sock_calls_table file_calls_table syscall_close_table syscall_open_table syscall_accept_table syscall_socket_table)
qed

lemma syscall_run_table:
  assumes "syscall_run e cs st = ret (st1, rs)" "rt_ok (os_table st)"
  shows "rt_ok (os_table st1) \<and> rt_length (os_table st1) = rt_length (os_table st) \<and>
    (\<forall>fd. resource_get (os_table st) fd \<noteq> 0 \<longrightarrow> Syscall_close fd \<notin> set cs \<longrightarrow> resource_get (os_table st1) fd = resource_get (os_table st) fd) \<and>
    (\<forall>fd. resource_get (os_table st) fd = 0 \<longrightarrow> resource_get (os_table st1) fd \<noteq> 0 \<longrightarrow>
       (\<exists>c. makes_fd c \<and> (c, sys_ret (of_int fd) EOK) \<in> set (zip cs rs)))"
  using assms
proof (induction cs arbitrary: st rs)
  case (Cons c cs)
  from Cons.prems(1) obtain st2 r rs2 where
    d: "syscall_dispatch e c st = ret (st2, r)" "syscall_run e cs st2 = ret (st1, rs2)" "rs = r # rs2"
    by (auto elim!: seq_retE)
  have s: "table_step c r (os_table st) (os_table st2)" using d(1) Cons.prems(2) by (rule dispatch_step)
  then have "rt_ok (os_table st2)" by (simp add: table_step_def)
  from Cons.IH [OF d(2) this] s show ?case unfolding d(3) table_step_def by (simp, safe) metis+
qed simp

section \<open>The descriptors of a process\<close>


text \<open>Two sockets are made, then the first is closed and a string logged.\<close>

definition shop_table :: "uptr \<Rightarrow> uptr \<Rightarrow> resource_table_t" where
  "shop_table a b = \<lparr>rt_resources = [a, b, 0, 0, 0, 0, 0, 0, 0, 0, 0, 0, 0, 0, 0, 0], rt_length = 16, rt_lock = SPINLOCK_INIT\<rparr>"

definition shop_env :: "(unit, uptr) vmm_env \<Rightarrow> (u64, unit) os_env" where
  "shop_env ve = \<lparr>oe_fs = bump_env, oe_vm = ve, oe_root = 0, oe_pp = 0, oe_cn = 0, oe_cpu = 0\<rparr>"

definition shop :: "(unit, uptr) vmm \<Rightarrow> uptr vmm_addr_space_t \<Rightarrow> unit sd \<Rightarrow> (u64, unit, unit) os" where
  "shop vm as sd = \<lparr>os_net = toy_net\<lparr>nt_sys := (nt_sys toy_net)\<lparr>sy_table := shop_table 0 0\<rparr>, g_socket_family_list := [(0x700, AF_UNIX)]\<rparr>,
     os_vm = vm, os_as = as, os_sd = sd\<rparr>"

lemma shop_slots: "replicate 16 (0 :: uptr) = [0, 0, 0, 0, 0, 0, 0, 0, 0, 0, 0, 0, 0, 0, 0, 0]"
  by (simp add: numeral_eq_Suc)

lemma shop_table_new:
  "resource_table_expand (\<lambda>_ _ a. Inr (a, 0x3000)) 16 \<lparr>rs_al = (), rs_int = False, rs_objs = f, rs_table = resource_table_new\<rparr> =
     Inr \<lparr>rs_al = (), rs_int = False, rs_objs = f, rs_table = shop_table 0 0\<rparr>"
  by (simp add: resource_table_expand_def resource_table_new_def rs_acquire_def spinlock_acquire_def rs_release_def spinlock_release_def SPINLOCK_INIT_def
    shop_table_def shop_slots)

lemma shop_socket:
  assumes "net_table n = (if i = 0 then shop_table 0 0 else shop_table a 0)" "i \<in> {0, 1}" "a \<noteq> 0"
  and "g_socket_family_list n = [(0x700, AF_UNIX)]" "fs_al (nt_fs n) = p" "\<not> fs_int (nt_fs n)" "p \<noteq> 0" "p + SIZEOF_VNODE \<noteq> 0" "p + SIZEOF_VNODE + 96 \<noteq> 0"
  shows "\<exists>n1. syscall_socket bump_env 1 1 0 n = Inr (n1, sys_ret i EOK) \<and> g_socket_family_list n1 = g_socket_family_list n \<and>
    net_table n1 = (if i = 0 then shop_table (p + SIZEOF_VNODE + 96) 0 else shop_table a (p + SIZEOF_VNODE + 96)) \<and>
    fs_al (nt_fs n1) = p + SIZEOF_VNODE + 96 + SIZEOF_RESOURCE \<and> \<not> fs_int (nt_fs n1)"
  using assms
  by (auto simp: syscall_socket_def socket_get_family_def AF_UNIX_def bump_env_def
   fs_alloc_def nt_fs_def create_socket_def set_fs_def set_sock_def sock_handle_def sys_create_def resource_create_def
   resource_create_at_def rs_acquire_def spinlock_acquire_def rs_release_def spinlock_release_def SPINLOCK_INIT_def shop_table_def Let_def
   SIZEOF_SOCKET_UNIX_def set_vnode_def assert_c_def simp del: rbind_eq_Inr)

lemma shop_runs:
  "\<exists>st st1 rs0 rs. syscall_run (shop_env ve) [Syscall_socket 1 1 0, Syscall_socket 1 1 0] (shop vm as sd) = ret (st, rs0) \<and>
     syscall_run (shop_env ve) [Syscall_close 0, Syscall_debug_log 0x2000] st = ret (st1, rs) \<and>
     os_table st = shop_table 0x5108 0x5228"
proof -
  note s = SIZEOF_VNODE_def SIZEOF_RESOURCE_def
  let ?n = "os_net (shop vm as sd)"
  obtain n1 where n1: "syscall_socket bump_env 1 1 0 ?n = Inr (n1, sys_ret 0 EOK)" "g_socket_family_list n1 = [(0x700, AF_UNIX)]"
    "net_table n1 = shop_table 0x5108 0" "fs_al (nt_fs n1) = 0x5120" "\<not> fs_int (nt_fs n1)"
    using shop_socket [of ?n 0 1 "0x5000"] by (auto simp: s shop_def toy_net_def nt_fs_def bump_fs_def)
  obtain n2 where n2: "syscall_socket bump_env 1 1 0 n1 = Inr (n2, sys_ret 1 EOK)" "net_table n2 = shop_table 0x5108 0x5228"
    using shop_socket [of n1 1 "0x5108" "0x5120"] n1 by (auto simp: s)
  have "\<exists>n3. syscall_close 0 (nt_sys n2) = Inr (n3, sys_ret 0 EOK)"
    using n2(2) by (simp add: syscall_close_def shop_table_def)
  then show ?thesis using n1(1) n2 by (auto simp: shop_env_def on_net_def on_sys_def os_table_def syscall_debug_log_def)
qed


end
