(* ===== verification/Sched_Correct.thy ===== *)
theory Sched_Correct
  imports Sched
begin

text \<open>
  The scheduler never gets stuck and is fair: a thread in the queue runs after as many yields, on
  whatever CPUs, as there are threads before it.
\<close>

section \<open>The operations\<close>

lemma sd_sel [simp]:
  "sd_thread (set_int c b st) = sd_thread st" "sd_reg (set_int c b st) = sd_reg st" "sd_core (set_int c b st) = sd_core st"
  "g_thread_list (set_int c b st) = g_thread_list st" "sd_slock (set_int c b st) = sd_slock st"
  "slock_threads (set_int c b st) = slock_threads st" "sd_int (set_int c b st) = (sd_int st)(c := b)"
  "sd_thread (set_thread p t st) = (sd_thread st)(p := t)" "sd_reg (set_thread p t st) = sd_reg st"
  "sd_core (set_thread p t st) = sd_core st" "g_thread_list (set_thread p t st) = g_thread_list st"
  "sd_slock (set_thread p t st) = sd_slock st" "slock_threads (set_thread p t st) = slock_threads st"
  "sd_int (set_thread p t st) = sd_int st"
  by (simp_all add: set_int_def set_thread_def)

text \<open>All locks are free; two states have the same threads up to status, references and locks.\<close>

definition calm :: "uptr set \<Rightarrow> 's sd \<Rightarrow> bool" where
  "calm T st \<longleftrightarrow> sl_lock (sd_slock st) = 0 \<and> sl_lock (slock_threads st) = 0 \<and> (\<forall>t \<in> T. sl_lock (th_slock (sd_thread st t)) = 0)"

definition alike :: "'s sd \<Rightarrow> 's sd \<Rightarrow> bool" where
  "alike st st' \<longleftrightarrow> sd_reg st' = sd_reg st \<and> sd_core st' = sd_core st \<and>
     (\<forall>t. parent_proc (sd_thread st' t) = parent_proc (sd_thread st t) \<and> assigned_core (sd_thread st' t) = assigned_core (sd_thread st t))"

lemma alike_refl [simp]: "alike st st"
  by (simp add: alike_def)

lemma thread_ref_ok:
  assumes "t \<in> T" "\<forall>t \<in> T. sl_lock (th_slock (sd_thread st t)) = 0"
  shows "\<exists>st'. thread_ref c t st = Inr st' \<and> slock_threads st' = slock_threads st \<and> sd_slock st' = sd_slock st \<and>
    (\<forall>t \<in> T. sl_lock (th_slock (sd_thread st' t)) = 0) \<and> alike st st' \<and> g_thread_list st' = g_thread_list st \<and>
    (\<forall>p. th_status (sd_thread st' p) = th_status (sd_thread st p)) \<and> sd_int st' = sd_int st"
  using assms by (auto simp: thread_ref_def alike_def spinlock_acquire_def spinlock_release_def Let_def fun_eq_iff)

text \<open>What an operation on the queue leaves: the queue \<open>q\<close>, all locks free, and everything else that matters.\<close>

definition leaves :: "uptr set \<Rightarrow> nat \<Rightarrow> 's sd \<Rightarrow> uptr list \<Rightarrow> 's sd \<Rightarrow> bool" where
  "leaves T c st q st' \<longleftrightarrow> calm T st' \<and> alike st st' \<and> g_thread_list st' = q \<and> sd_int st' = sd_int st \<and>
     (\<forall>p. th_status (sd_thread st' p) = th_status (sd_thread st p))"

lemma sched_next_ok:
  assumes "calm T st" "set (g_thread_list st) \<subseteq> T" "assigned_core (sd_thread st (sd_reg st c)) = k" "k \<noteq> 0"
  shows "\<exists>st'. sched_next c st = Inr (st', case g_thread_list st of [] \<Rightarrow> idle_thread (sd_core st k) | t # _ \<Rightarrow> t) \<and>
    leaves T c st (tl (g_thread_list st)) st'"
proof (cases "g_thread_list st")
  case Nil
  then show ?thesis using assms
    by (auto simp: sched_next_def sched_lock_def sched_unlock_def curr_idle_def sched_get_curr_thread_def spinlock_acquire_def
        spinlock_release_def calm_def leaves_def alike_def fun_eq_iff)
next
  case (Cons t q)
  let ?l = "\<lparr>sl_lock = 1, prev_int_state = sd_int st c\<rparr>"
  let ?st1 = "set_int c False (st\<lparr>sd_slock := ?l\<rparr>)\<lparr>g_thread_list := q\<rparr>"
  have "t \<in> T" "\<forall>t \<in> T. sl_lock (th_slock (sd_thread ?st1 t)) = 0" using assms(1,2) Cons by (auto simp: calm_def)
  from thread_ref_ok [OF this, of c] obtain st2 where st2: "thread_ref c t ?st1 = Inr st2"
    "slock_threads st2 = slock_threads ?st1" "sd_slock st2 = sd_slock ?st1" "\<forall>t \<in> T. sl_lock (th_slock (sd_thread st2 t)) = 0"
    "alike ?st1 st2" "g_thread_list st2 = q" "\<forall>p. th_status (sd_thread st2 p) = th_status (sd_thread st p)" "sd_int st2 = sd_int ?st1"
    by auto
  have "sched_lock c st = Inr (set_int c False (st\<lparr>sd_slock := ?l\<rparr>))"
    using assms(1) by (simp add: sched_lock_def spinlock_acquire_def calm_def)
  then have "sched_next c st = Inr (sched_unlock c st2, t)" using Cons st2(1) by (simp add: sched_next_def)
  moreover have "leaves T c st q (sched_unlock c st2)"
    using st2 assms(1) by (auto simp: leaves_def calm_def alike_def sched_unlock_def spinlock_release_def fun_eq_iff)
  ultimately show ?thesis using Cons by auto
qed

lemma sched_enqueue_ok:
  assumes "calm T st" "t \<in> T"
  shows "\<exists>st'. sched_enqueue c t st = Inr st' \<and> leaves T c st (g_thread_list st @ [t]) st'"
proof -
  let ?l = "\<lparr>sl_lock = 1, prev_int_state = sd_int st c\<rparr>"
  let ?st1 = "set_int c False (st\<lparr>sd_slock := ?l\<rparr>)\<lparr>g_thread_list := g_thread_list st @ [t]\<rparr>"
  have "\<forall>t \<in> T. sl_lock (th_slock (sd_thread ?st1 t)) = 0" using assms(1) by (auto simp: calm_def)
  from thread_ref_ok [OF assms(2) this, of c] obtain st2 where st2: "thread_ref c t ?st1 = Inr st2"
    "slock_threads st2 = slock_threads ?st1" "sd_slock st2 = sd_slock ?st1" "\<forall>t \<in> T. sl_lock (th_slock (sd_thread st2 t)) = 0"
    "alike ?st1 st2" "g_thread_list st2 = g_thread_list st @ [t]" "\<forall>p. th_status (sd_thread st2 p) = th_status (sd_thread st p)"
    "sd_int st2 = sd_int ?st1"
    by auto
  have "sched_lock c st = Inr (set_int c False (st\<lparr>sd_slock := ?l\<rparr>))"
    using assms(1) by (simp add: sched_lock_def spinlock_acquire_def calm_def)
  then have "sched_enqueue c t st = Inr (sched_unlock c st2)" using st2(1) by (simp add: sched_enqueue_def)
  moreover have "leaves T c st (g_thread_list st @ [t]) (sched_unlock c st2)"
    using st2 assms(1) by (auto simp: leaves_def calm_def alike_def sched_unlock_def spinlock_release_def fun_eq_iff)
  ultimately show ?thesis by auto
qed

lemma reaper_enqueue_ok:
  assumes "calm T st"
  shows "\<exists>st'. reaper_enqueue_thread c t st = Inr st' \<and> leaves T c st (g_thread_list st) st'"
  using assms by (auto simp: reaper_enqueue_thread_def leaves_def calm_def alike_def spinlock_acquire_def spinlock_release_def Let_def fun_eq_iff)

lemma sched_drop_ok:
  assumes "calm T st" "t \<in> T" "assigned_core (sd_thread st (sd_reg st c)) = k" "k \<noteq> 0"
  shows "\<exists>st'. sched_drop c t st = Inr st' \<and>
    leaves T c st (g_thread_list st @
      (if t \<noteq> idle_thread (sd_core st k) \<and> th_status (sd_thread st t) = THREAD_STATE_READY then [t] else [])) st'"
proof -
  have i: "curr_idle c st = Inr (idle_thread (sd_core st k))"
    using assms(3,4) by (simp add: curr_idle_def sched_get_curr_thread_def)
  have same: "leaves T c st (g_thread_list st) st" using assms(1) by (simp add: leaves_def)
  show ?thesis
    using i same sched_enqueue_ok [OF assms(1,2), of c] reaper_enqueue_ok [OF assms(1), of c t]
    by (cases "th_status (sd_thread st t)"; cases "t = idle_thread (sd_core st k)") (auto simp: sched_drop_def)
qed

section \<open>The invariant\<close>

text \<open>
  The machine has \<open>n\<close> CPUs; CPU \<open>c\<close> has the core structure \<open>C c\<close> with the idle thread \<open>I c\<close>, and \<open>T\<close> is the set of all
  threads.  No thread runs on two CPUs, or runs and waits, or waits twice; an idle thread never
  waits and runs on its own CPU only.
\<close>

definition sched_ok :: "nat \<Rightarrow> (nat \<Rightarrow> uptr) \<Rightarrow> (nat \<Rightarrow> uptr) \<Rightarrow> uptr set \<Rightarrow> 's sd \<Rightarrow> bool" where
  "sched_ok n C I T st \<longleftrightarrow> calm T st \<and> inj_on I {..<n} \<and> inj_on (sd_reg st) {..<n} \<and>
     I ` {..<n} \<subseteq> T \<and> sd_reg st ` {..<n} \<subseteq> T \<and> set (g_thread_list st) \<subseteq> T \<and>
     (\<forall>t \<in> T. parent_proc (sd_thread st t) \<noteq> 0) \<and>
     (\<forall>c < n. C c \<noteq> 0 \<and> idle_thread (sd_core st (C c)) = I c \<and> assigned_core (sd_thread st (sd_reg st c)) = C c \<and>
        (sd_reg st c = I c \<or> sd_reg st c \<notin> I ` {..<n})) \<and>
     distinct (g_thread_list st) \<and> set (g_thread_list st) \<inter> I ` {..<n} = {} \<and> set (g_thread_list st) \<inter> sd_reg st ` {..<n} = {}"

lemma sched_okD:
  assumes "sched_ok n C I T st" "c < n"
  shows "calm T st" "set (g_thread_list st) \<subseteq> T" "assigned_core (sd_thread st (sd_reg st c)) = C c" "C c \<noteq> 0"
    "idle_thread (sd_core st (C c)) = I c" "sd_reg st c \<in> T" "I c \<in> T"
  using assms by (auto simp: sched_ok_def)

text \<open>A change of the queue that respects the other threads keeps the invariant.\<close>

lemma sched_ok_leaves:
  assumes "sched_ok n C I T st" "leaves T c st q st'"
    and "distinct q" "set q \<subseteq> T" "set q \<inter> I ` {..<n} = {}" "set q \<inter> sd_reg st ` {..<n} = {}"
  shows "sched_ok n C I T st'"
  using assms by (simp add: sched_ok_def leaves_def alike_def)

lemma sched_ok_wake:
  assumes "sched_ok n C I T st" "t \<in> T" "t \<notin> set (g_thread_list st)" "t \<notin> I ` {..<n}" "t \<notin> sd_reg st ` {..<n}"
    and "sched_enqueue c t st = Inr st'"
  shows "sched_ok n C I T st' \<and> g_thread_list st' = g_thread_list st @ [t]"
proof -
  have "calm T st" using assms(1) by (simp add: sched_ok_def)
  then have l: "leaves T c st (g_thread_list st @ [t]) st'" using sched_enqueue_ok [OF _ assms(2), of st c] assms(6) by auto
  moreover have "sched_ok n C I T st'"
    by (rule sched_ok_leaves [OF assms(1) l]) (use assms in \<open>auto simp: sched_ok_def\<close>)
  ultimately show ?thesis by (simp add: leaves_def)
qed

text \<open>The state at the context switch: the next thread has the core and the register.\<close>

lemma sched_ok_switch:
  assumes "sched_ok n C I T st" "c < n" "leaves T c st q st2" "nxt \<in> T" "nxt \<noteq> sd_reg st c"
    and "nxt = I c \<or> nxt \<notin> I ` {..<n}" "\<forall>d < n. d \<noteq> c \<longrightarrow> nxt \<noteq> sd_reg st d"
    and "distinct q" "set q \<subseteq> T" "set q \<inter> I ` {..<n} = {}" "set q \<inter> sd_reg st ` {..<n} = {}" "nxt \<notin> set q"
    and "th = (sd_thread st2)(nxt := (sd_thread st2 nxt)\<lparr>th_status := s1, assigned_core := C c\<rparr>,
           sd_reg st c := (sd_thread st2 (sd_reg st c))\<lparr>assigned_core := 0, th_status := s2\<rparr>)"
    and "sd_thread st3 = th" "sd_reg st3 = (sd_reg st)(c := nxt)" "sd_core st3 = sd_core st2" "g_thread_list st3 = q"
      "sd_slock st3 = sd_slock st2" "slock_threads st3 = slock_threads st2"
  shows "sched_ok n C I T st3"
proof -
  have k: "C c \<noteq> 0" "sd_reg st c \<in> T" using sched_okD [OF assms(1,2)] by auto
  have "calm T st3" using assms(3,13-19) by (auto simp: leaves_def calm_def)
  moreover have "inj_on (sd_reg st3) {..<n}"
    using assms(1,7,15) by (auto simp: sched_ok_def inj_on_def)
  moreover have "parent_proc (sd_thread st3 t) \<noteq> 0" if "t \<in> T" for t
    using assms(1,3,13,14) that by (auto simp: sched_ok_def leaves_def alike_def)
  moreover have "assigned_core (sd_thread st3 (sd_reg st3 d)) = C d" "sd_reg st3 d = I d \<or> sd_reg st3 d \<notin> I ` {..<n}"
    "idle_thread (sd_core st3 (C d)) = I d" if "d < n" for d
  proof -
    have "sd_reg st d \<noteq> sd_reg st c" if "d \<noteq> c" using assms(1,2) \<open>d < n\<close> that by (auto simp: sched_ok_def inj_on_def)
    then show "assigned_core (sd_thread st3 (sd_reg st3 d)) = C d"
      using assms(1,3,5,7,13,14,15) \<open>d < n\<close> by (auto simp: sched_ok_def leaves_def alike_def)
    show "sd_reg st3 d = I d \<or> sd_reg st3 d \<notin> I ` {..<n}"
      using assms(1,6,15) \<open>d < n\<close> by (auto simp: sched_ok_def)
    show "idle_thread (sd_core st3 (C d)) = I d" using assms(1,3,16) \<open>d < n\<close> by (simp add: sched_ok_def leaves_def alike_def)
  qed
  moreover have "sd_reg st3 ` {..<n} \<subseteq> T" using assms(1,4,15) by (auto simp: sched_ok_def)
  moreover have "set q \<inter> sd_reg st3 ` {..<n} = {}" using assms(11,12,15) by auto
  ultimately show ?thesis using assms(1,8,9,10,17) by (simp add: sched_ok_def)
qed

definition next_thread :: "(nat \<Rightarrow> uptr) \<Rightarrow> nat \<Rightarrow> 's sd \<Rightarrow> uptr" where
  "next_thread I c st = (case g_thread_list st of [] \<Rightarrow> I c | t # _ \<Rightarrow> t)"

lemma next_thread_props:
  assumes "sched_ok n C I T st" "c < n"
  shows "next_thread I c st \<in> T" "next_thread I c st = I c \<or> next_thread I c st \<notin> I ` {..<n}"
    "\<forall>d < n. d \<noteq> c \<longrightarrow> next_thread I c st \<noteq> sd_reg st d" "next_thread I c st \<notin> set (tl (g_thread_list st))"
    "next_thread I c st = sd_reg st c \<longleftrightarrow> g_thread_list st = [] \<and> sd_reg st c = I c"
proof -
  let ?q = "g_thread_list st" and ?n = "next_thread I c st"
  have ok: "inj_on I {..<n}" "distinct ?q" "set ?q \<inter> I ` {..<n} = {}" "set ?q \<inter> sd_reg st ` {..<n} = {}" "set ?q \<subseteq> T" "I ` {..<n} \<subseteq> T"
    "\<And>d. d < n \<Longrightarrow> sd_reg st d = I d \<or> sd_reg st d \<notin> I ` {..<n}"
    using assms(1) by (simp_all add: sched_ok_def)
  have c: "c \<in> {..<n}" using assms(2) by simp
  have e: "?n = I c \<and> ?q = [] \<or> ?n = hd ?q \<and> ?q \<noteq> []" by (cases ?q) (simp_all add: next_thread_def)
  show "?n \<in> T" using e ok(5,6) c by (metis hd_in_set image_eqI subsetD)
  show "?n = I c \<or> ?n \<notin> I ` {..<n}" using e ok(3) by (metis disjoint_iff hd_in_set)
  show "?n \<notin> set (tl ?q)" using e ok(2) by (cases ?q) auto
  have "I c \<noteq> sd_reg st d" if "d < n" "d \<noteq> c" for d
    using ok(1) ok(7) [OF that(1)] that c by (metis image_eqI inj_onD lessThan_iff)
  then show "\<forall>d < n. d \<noteq> c \<longrightarrow> ?n \<noteq> sd_reg st d"
    using e ok(4) by (metis disjoint_iff hd_in_set image_eqI lessThan_iff)
  show "?n = sd_reg st c \<longleftrightarrow> ?q = [] \<and> sd_reg st c = I c"
    using e ok(4) c by (metis disjoint_iff hd_in_set image_eqI)
qed

lemma tl_queue:
  assumes "sched_ok n C I T st"
  shows "distinct (tl (g_thread_list st))" "set (tl (g_thread_list st)) \<subseteq> T" "set (tl (g_thread_list st)) \<inter> I ` {..<n} = {}"
    "set (tl (g_thread_list st)) \<inter> sd_reg st ` {..<n} = {}"
  using assms by (cases "g_thread_list st"; auto simp: sched_ok_def)+

lemma sched_ok_int [simp]:
  "sched_ok n C I T (set_int c b st) = sched_ok n C I T st" "sched_ok n C I T (st\<lparr>sd_timer := tm\<rparr>) = sched_ok n C I T st"
  by (simp_all add: sched_ok_def calm_def)

lemma switch_bases_sel [simp]:
  "g_thread_list (switch_bases c p q st) = g_thread_list st" "sd_reg (switch_bases c p q st) = sd_reg st"
  "th_status (sd_thread (switch_bases c p q st) t) = th_status (sd_thread st t)"
  by (simp_all add: switch_bases_def Let_def)

lemma sched_ok_bases [simp]: "sched_ok n C I T (switch_bases c p q st) = sched_ok n C I T st"
  by (auto simp: sched_ok_def calm_def switch_bases_def Let_def)

lemma sched_yield_ok:
  assumes "sched_ok n C I T st" "c < n"
  shows "\<exists>st'. sched_yield c s st = Inr st' \<and> sched_ok n C I T st' \<and> sd_reg st' = (sd_reg st)(c := next_thread I c st) \<and>
    g_thread_list st' = tl (g_thread_list st) @ (if sd_reg st c \<noteq> I c \<and> s = THREAD_STATE_READY then [sd_reg st c] else [])"
proof -
  let ?cur = "sd_reg st c" and ?nxt = "next_thread I c st" and ?q = "tl (g_thread_list st)"
  define st1 where "st1 = set_int c False (st\<lparr>sd_timer := (sd_timer st)(c := False)\<rparr>)"
  have ok1: "sched_ok n C I T st1" using assms(1) by (simp add: st1_def)
  have same: "g_thread_list st1 = g_thread_list st" "sd_reg st1 = sd_reg st" "sd_core st1 = sd_core st" by (simp_all add: st1_def)
  have k: "C c \<noteq> 0" "idle_thread (sd_core st1 (C c)) = I c" using sched_okD [OF ok1 assms(2)] by auto
  obtain st2 where st2: "sched_next c st1 = Inr (st2, ?nxt)" "leaves T c st1 ?q st2"
    using sched_next_ok [OF sched_okD(1-4) [OF ok1 assms(2)]] unfolding k(2) same(1) next_thread_def by blast
  have core: "assigned_core (sd_thread st2 ?cur) = C c"
    using st2(2) sched_okD(3) [OF ok1 assms(2)] by (simp add: leaves_def alike_def same)
  note nx = next_thread_props [OF assms]
  show ?thesis
  proof (cases "?nxt = ?cur")
    case True
    define st3 where "st3 = set_thread ?nxt ((sd_thread st2 ?nxt)\<lparr>th_status := THREAD_STATE_RUNNING\<rparr>) (st2\<lparr>sd_timer := (sd_timer st2)(c := True)\<rparr>)"
    have "sched_yield c s st = Inr st3"
      using st2(1) True by (simp add: sched_yield_def st1_def [symmetric] sched_get_curr_thread_def same st3_def Let_def)
    moreover have "sched_ok n C I T st2" by (rule sched_ok_leaves [OF ok1 st2(2)]) (use tl_queue [OF ok1] in \<open>simp_all add: same\<close>)
    then have "sched_ok n C I T st3" by (auto simp: st3_def sched_ok_def calm_def)
    moreover have "sd_reg st3 = (sd_reg st)(c := ?nxt)" using st2(2) True by (simp add: st3_def leaves_def alike_def same)
    moreover have "g_thread_list st3 = ?q" using st2(2) by (simp add: st3_def leaves_def)
    ultimately show ?thesis using nx(5) True by auto
  next
    case False
    define st3 where "st3 = set_thread ?nxt ((sd_thread st2 ?nxt)\<lparr>th_status := THREAD_STATE_RUNNING\<rparr>) (st2\<lparr>sd_timer := (sd_timer st2)(c := True)\<rparr>)"
    define st5 where "st5 = set_thread ?cur ((sd_thread st3 ?cur)\<lparr>assigned_core := 0, th_status := s\<rparr>)
        (set_thread ?nxt ((sd_thread st3 ?nxt)\<lparr>assigned_core := C c\<rparr>) st3)"
    define st6 where "st6 = switch_bases c ?cur ?nxt (st5\<lparr>sd_space := (sd_space st5)(c := pr_addr_space (sd_proc st5 (parent_proc (sd_thread st5 ?nxt)))), sd_reg := (sd_reg st5)(c := ?nxt)\<rparr>)"
    have r2: "sd_reg st2 = sd_reg st" using st2(2) by (simp add: leaves_def alike_def same)
    have p: "parent_proc (sd_thread st5 ?nxt) \<noteq> 0" "parent_proc (sd_thread st3 ?nxt) \<noteq> 0"
      using ok1 nx(1) st2(2) False by (simp_all add: st5_def st3_def sched_ok_def leaves_def alike_def)
    have y: "sched_yield c s st = rbind (sched_drop c ?cur st6) (\<lambda>st7. Inr (set_int c True st7))"
      using st2(1) False p k(1) core
      by (simp add: sched_yield_def st1_def [symmetric] sched_get_curr_thread_def same st3_def [symmetric] st5_def [symmetric]
          st6_def arch_thread_context_switch_def Let_def)
    have ok6: "sched_ok n C I T st6" unfolding st6_def sched_ok_bases
      by (rule sched_ok_switch [OF ok1 assms(2) st2(2) nx(1), where ?s1.0 = THREAD_STATE_RUNNING and ?s2.0 = s])
        (use nx tl_queue [OF ok1] False r2 st2(2) in \<open>auto simp: same st5_def st3_def leaves_def\<close>)
    have d6: "assigned_core (sd_thread st6 (sd_reg st6 c)) = C c" "idle_thread (sd_core st6 (C c)) = I c"
      using sched_okD [OF ok6 assms(2)] by simp_all
    obtain st7 where st7: "sched_drop c ?cur st6 = Inr st7"
      "leaves T c st6 (g_thread_list st6 @ (if ?cur \<noteq> I c \<and> th_status (sd_thread st6 ?cur) = THREAD_STATE_READY then [?cur] else [])) st7"
      using sched_drop_ok [OF sched_okD(1) [OF ok6 assms(2)] sched_okD(6) [OF assms] d6(1) k(1)] unfolding d6(2) by blast
    have f: "g_thread_list st6 = ?q" "th_status (sd_thread st6 ?cur) = s" "sd_reg st6 = (sd_reg st)(c := ?nxt)"
      using st2(2) r2 by (simp_all add: st6_def st5_def st3_def leaves_def)
    let ?d = "if ?cur \<noteq> I c \<and> s = THREAD_STATE_READY then [?cur] else []"
    have l: "leaves T c st6 (?q @ ?d) st7" using st7(2) by (simp only: f)
    have cur: "?cur \<notin> set ?q" "?cur \<in> T" "?cur = I c \<or> ?cur \<notin> I ` {..<n}"
      using tl_queue(4) [OF assms(1)] assms by (auto simp: sched_ok_def)
    have regs: "?cur \<notin> sd_reg st6 ` {..<n}" using assms False by (auto simp: f sched_ok_def inj_on_def)
    have "set ?q \<inter> sd_reg st6 ` {..<n} = {}" using nx(4) tl_queue(4) [OF assms(1)] by (auto simp: f)
    moreover have "?d = [] \<or> ?d = [?cur] \<and> ?cur \<notin> I ` {..<n}" using cur(3) by (cases "?cur = I c") simp_all
    then obtain d where d: "?d = d" "d = [] \<or> d = [?cur] \<and> ?cur \<notin> I ` {..<n}" by blast
    ultimately have q: "distinct (?q @ ?d)" "set (?q @ ?d) \<subseteq> T" "set (?q @ ?d) \<inter> I ` {..<n} = {}"
      "set (?q @ ?d) \<inter> sd_reg st6 ` {..<n} = {}"
      unfolding d(1) using d(2) cur(1,2) regs tl_queue [OF assms(1)] by (elim disjE conjE; simp)+
    have "sched_ok n C I T st7" by (rule sched_ok_leaves [OF ok6 l q])
    moreover have "sd_reg st7 = (sd_reg st)(c := ?nxt)" "g_thread_list st7 = ?q @ ?d"
      using l f(3) by (simp_all add: leaves_def alike_def)
    ultimately show ?thesis using y st7(1) by simp
  qed
qed

section \<open>Fairness\<close>

text \<open>
  What happens from a state on: yields of the running threads, on any CPU and for any reason, which
  are counted, and wake-ups of threads that neither run nor wait.
\<close>

inductive sched_trace :: "nat \<Rightarrow> (nat \<Rightarrow> uptr) \<Rightarrow> uptr set \<Rightarrow> 's sd \<Rightarrow> nat \<Rightarrow> 's sd \<Rightarrow> bool" for n I T st where
  trace_start: "sched_trace n I T st 0 st"
| trace_yield: "sched_trace n I T st k st1 \<Longrightarrow> c < n \<Longrightarrow> sched_yield c s st1 = Inr st2 \<Longrightarrow> sched_trace n I T st (Suc k) st2"
| trace_wake: "sched_trace n I T st k st1 \<Longrightarrow> t \<in> T \<Longrightarrow> t \<notin> set (g_thread_list st1) \<Longrightarrow> t \<notin> I ` {..<n} \<Longrightarrow>
    t \<notin> sd_reg st1 ` {..<n} \<Longrightarrow> sched_enqueue c t st1 = Inr st2 \<Longrightarrow> sched_trace n I T st k st2"

lemma sched_trace_queue:
  assumes "sched_trace n I T st k st1" "sched_ok n C I T st"
  shows "sched_ok n C I T st1 \<and> (\<exists>ys. g_thread_list st1 = drop k (g_thread_list st) @ ys)"
  using assms
proof (induction rule: sched_trace.induct)
  case trace_start
  then show ?case by simp
next
  case (trace_yield k st1 c s st2)
  then obtain ys where ys: "sched_ok n C I T st1" "g_thread_list st1 = drop k (g_thread_list st) @ ys" by blast
  obtain zs where "sched_ok n C I T st2" "g_thread_list st2 = tl (g_thread_list st1) @ zs"
    using sched_yield_ok [OF ys(1) trace_yield.hyps(2), of s] trace_yield.hyps(3) by auto
  moreover have "tl (drop k (g_thread_list st) @ ys) = drop (Suc k) (g_thread_list st) @ (if drop k (g_thread_list st) = [] then tl ys else ys)"
    by (simp add: tl_append tl_drop drop_Suc split: list.split) (metis tl_drop list.sel(3))
  ultimately show ?case using ys(2) by auto
next
  case (trace_wake k st1 t c st2)
  then show ?case using sched_ok_wake [of n C I T st1 t c st2] by auto
qed

text \<open>C13: the scheduler is fair: a thread with \<open>k\<close> threads before it in the queue is the one that the \<open>k + 1\<close>st yield starts, whatever
  CPUs the yields come from, whatever the yielding threads do next and whatever threads are woken up meanwhile;
  and that yield returns.\<close>

theorem sched_fair:
  assumes "sched_ok n C I T st" "g_thread_list st = xs @ t # ys" "sched_trace n I T st (length xs) st1" "c < n"
  shows "\<exists>st2. sched_yield c s st1 = Inr st2 \<and> sd_reg st2 c = t \<and> sched_ok n C I T st2"
proof -
  obtain zs where ok: "sched_ok n C I T st1" and "g_thread_list st1 = drop (length xs) (g_thread_list st) @ zs"
    using sched_trace_queue [OF assms(3,1)] by blast
  then have "next_thread I c st1 = t" using assms(2) by (simp add: next_thread_def)
  then show ?thesis using sched_yield_ok [OF ok assms(4), of s] by auto
qed

text \<open>A yield of the idle thread with nobody waiting returns with the interrupts masked.\<close>

lemma sched_yield_idle_masked:
  assumes "sched_ok n C I T st" "c < n" "g_thread_list st = []" "sd_reg st c = I c" "sched_yield c s st = Inr st'"
  shows "\<not> sd_int st' c"
proof -
  define st1 where "st1 = set_int c False (st\<lparr>sd_timer := (sd_timer st)(c := False)\<rparr>)"
  have ok1: "sched_ok n C I T st1" using assms(1) by (simp add: st1_def)
  have same: "g_thread_list st1 = []" "sd_reg st1 c = I c" using assms(3,4) by (simp_all add: st1_def)
  have k: "idle_thread (sd_core st1 (C c)) = I c" using sched_okD [OF ok1 assms(2)] by auto
  obtain st2 where "sched_next c st1 = Inr (st2, I c)" "leaves T c st1 [] st2"
    using sched_next_ok [OF sched_okD(1-4) [OF ok1 assms(2)]] unfolding k same by auto
  moreover have "\<not> sd_int st1 c" by (simp add: st1_def)
  ultimately show ?thesis
    using assms(5) same(2) by (auto simp: sched_yield_def st1_def [symmetric] sched_get_curr_thread_def leaves_def Let_def)
qed

section \<open>A concrete machine\<close>

text \<open>One CPU whose idle thread runs, and two threads that wait.\<close>

definition toy_thread :: "uptr \<Rightarrow> thread_t" where
  "toy_thread core = \<lparr>th_context = \<lparr>ctx_self = 0, ctx_rsp = 0, ctx_kernel_stack = 0, ctx_syscall_stack = 0, ctx_fpu_area = 0, ctx_fs = 0, ctx_gs = 0\<rparr>,
     th_id = 0, th_status = THREAD_STATE_READY, parent_proc = 0x90, assigned_core = core, th_slock = SPINLOCK_INIT, th_ref_count = 0\<rparr>"

definition toy_sd :: "unit sd" where
  "toy_sd = \<lparr>sd_al = (), sd_bytes = (\<lambda>_. 0), sd_int = (\<lambda>_. True), sd_reg = (\<lambda>_. 0x20), sd_space = (\<lambda>_. 0), sd_timer = (\<lambda>_. False), sd_gs = (\<lambda>_. 0), sd_fs = (\<lambda>_. 0), sd_rsp0 = (\<lambda>_. 0),
     sd_slock = SPINLOCK_INIT, g_thread_list = [0x30, 0x40], sd_thread = (\<lambda>p. toy_thread (if p = 0x20 then 0x10 else 0)),
     sd_proc = (\<lambda>_. \<lparr>pr_id = 0, pr_type = PROC_KERNEL, pr_addr_space = 0, pr_threads = [], pr_table = resource_table_new, pr_slock = SPINLOCK_INIT,
                pr_ref_count = 0\<rparr>),
     sd_core = (\<lambda>_. \<lparr>core_id = 0, idle_thread = 0x20, core_lapic_id = 0\<rparr>), g_proc_list = [], g_smp_cpu_core_list = [], threads_queue = [],
     slock_threads = SPINLOCK_INIT, g_cores_initialized = 1, g_smp_initialized = True, core_slock = SPINLOCK_INIT,
     last_tid = 0, last_pid = 0, g_thread_count = 3\<rparr>"

lemma toy_sd_ok: "sched_ok 1 (\<lambda>_. 0x10) (\<lambda>_. 0x20) {0x20, 0x30, 0x40} toy_sd"
  by (auto simp: sched_ok_def calm_def toy_sd_def toy_thread_def SPINLOCK_INIT_def inj_on_def)

theorem sched_fair_witness:
  "\<exists>st1 st2. sched_yield 0 THREAD_STATE_BLOCKED toy_sd = Inr st1 \<and> sched_yield 0 THREAD_STATE_READY st1 = Inr st2 \<and> sd_reg st2 0 = 0x40"
proof -
  obtain st1 where st1: "sched_yield 0 THREAD_STATE_BLOCKED toy_sd = Inr st1"
    using sched_yield_ok [OF toy_sd_ok, of 0] by auto
  have "sched_trace 1 (\<lambda>_. 0x20) {0x20, 0x30, 0x40} toy_sd (length [0x30 :: uptr]) st1"
    using trace_yield [OF trace_start _ st1, of 1] by simp
  from sched_fair [OF toy_sd_ok _ this, of "0x40" "[]" 0 THREAD_STATE_READY] obtain st2 where
    "sched_yield 0 THREAD_STATE_READY st1 = Inr st2" "sd_reg st2 0 = 0x40" by (auto simp: toy_sd_def)
  then show ?thesis using st1 by blast
qed

end
