(* ===== verification/Elf.thy ===== *)
theory Elf
  imports Scalars Run
begin

text \<open>
  The object file format of \<^verbatim>\<open>kernel/src/common/elf.h\<close>, the check of a file's header
  (\<^verbatim>\<open>elf.c\<close>), the table of kernel symbols (\<^verbatim>\<open>kernel/src/sys/ksym.c\<close>) and the tool that writes it
  (\<^verbatim>\<open>tools/ksym.c\<close>).  A structure in memory is read into a record.
\<close>

section \<open>Structures\<close>

record Elf64_Ehdr =
  e_ident :: "u8 list"
  e_type :: u16
  e_machine :: u16
  e_version :: u32
  e_entry :: u64
  e_phoff :: u64
  e_shoff :: u64
  e_flags :: u32
  e_ehsize :: u16
  e_phentsize :: u16
  e_phnum :: u16
  e_shentsize :: u16
  e_shnum :: u16
  e_shstrndx :: u16

definition SIZEOF_EHDR :: u64 where "SIZEOF_EHDR = 64"

definition read_ehdr :: "bytes \<Rightarrow> uptr \<Rightarrow> Elf64_Ehdr" where
  "read_ehdr m p =
     \<lparr>e_ident = bytes_at m p 16, e_type = get_u16 m (p + 16), e_machine = get_u16 m (p + 18), e_version = get_u32 m (p + 20),
      e_entry = get_u64 m (p + 24), e_phoff = get_u64 m (p + 32), e_shoff = get_u64 m (p + 40), e_flags = get_u32 m (p + 48),
      e_ehsize = get_u16 m (p + 52), e_phentsize = get_u16 m (p + 54), e_phnum = get_u16 m (p + 56),
      e_shentsize = get_u16 m (p + 58), e_shnum = get_u16 m (p + 60), e_shstrndx = get_u16 m (p + 62)\<rparr>"

record Elf64_Shdr =
  sh_name :: u32
  sh_type :: u32
  sh_flags :: u64
  sh_addr :: u64
  sh_offset :: u64
  sh_size :: u64
  sh_link :: u32
  sh_info :: u32
  sh_addralign :: u64
  sh_entsize :: u64

definition SIZEOF_SHDR :: u64 where "SIZEOF_SHDR = 64"

definition read_shdr :: "bytes \<Rightarrow> uptr \<Rightarrow> Elf64_Shdr" where
  "read_shdr m p =
     \<lparr>sh_name = get_u32 m p, sh_type = get_u32 m (p + 4), sh_flags = get_u64 m (p + 8), sh_addr = get_u64 m (p + 16),
      sh_offset = get_u64 m (p + 24), sh_size = get_u64 m (p + 32), sh_link = get_u32 m (p + 40), sh_info = get_u32 m (p + 44),
      sh_addralign = get_u64 m (p + 48), sh_entsize = get_u64 m (p + 56)\<rparr>"

record Elf64_Sym =
  st_name :: u32
  st_info :: u8
  st_other :: u8
  st_shndx :: u16
  st_value :: u64
  st_size :: u64

definition read_sym :: "bytes \<Rightarrow> uptr \<Rightarrow> Elf64_Sym" where
  "read_sym m p =
     \<lparr>st_name = get_u32 m p, st_info = m (p + 4), st_other = m (p + 5), st_shndx = get_u16 m (p + 6), st_value = get_u64 m (p + 8),
      st_size = get_u64 m (p + 16)\<rparr>"

text \<open>Where the value of a symbol lies in its structure.\<close>

definition ST_VALUE :: u64 where "ST_VALUE = 8"

record Elf64_Rela =
  r_offset :: u64
  r_info :: u64
  r_addend :: u64

definition SIZEOF_RELA :: u64 where "SIZEOF_RELA = 24"

definition read_rela :: "bytes \<Rightarrow> uptr \<Rightarrow> Elf64_Rela" where
  "read_rela m p = \<lparr>r_offset = get_u64 m p, r_info = get_u64 m (p + 8), r_addend = get_u64 m (p + 16)\<rparr>"

record Elf64_Phdr =
  p_type :: u32
  p_flags :: u32
  p_offset :: u64
  p_vaddr :: u64
  p_paddr :: u64
  p_filesz :: u64
  p_memsz :: u64
  p_align :: u64

definition SIZEOF_PHDR :: u64 where "SIZEOF_PHDR = 56"

definition read_phdr :: "bytes \<Rightarrow> uptr \<Rightarrow> Elf64_Phdr" where
  "read_phdr m p =
     \<lparr>p_type = get_u32 m p, p_flags = get_u32 m (p + 4), p_offset = get_u64 m (p + 8), p_vaddr = get_u64 m (p + 16),
      p_paddr = get_u64 m (p + 24), p_filesz = get_u64 m (p + 32), p_memsz = get_u64 m (p + 40), p_align = get_u64 m (p + 48)\<rparr>"

section \<open>Constants\<close>

definition EI_CLASS :: nat where "EI_CLASS = 4"
definition EI_DATA :: nat where "EI_DATA = 5"
definition EI_VERSION :: nat where "EI_VERSION = 6"
definition ELFCLASS64 :: u8 where "ELFCLASS64 = 2"
definition ELFDATA2LSB :: u8 where "ELFDATA2LSB = 1"
definition EV_CURRENT :: u8 where "EV_CURRENT = 1"
definition ET_REL :: u16 where "ET_REL = 1"
definition ET_EXEC :: u16 where "ET_EXEC = 2"
definition EM_x86_64 :: u16 where "EM_x86_64 = 0x3E"
definition SHT_PROGBITS :: u32 where "SHT_PROGBITS = 1"
definition SHT_SYMTAB :: u32 where "SHT_SYMTAB = 2"
definition SHT_RELA :: u32 where "SHT_RELA = 4"
definition SHT_NOBITS :: u32 where "SHT_NOBITS = 8"
definition SHF_ALLOC :: u64 where "SHF_ALLOC = 2"
definition SHN_UNDEF :: u16 where "SHN_UNDEF = 0"
definition SHN_ABS :: u16 where "SHN_ABS = 0xFFF1"
definition SHN_COMMON :: u16 where "SHN_COMMON = 0xFFF2"
definition R_X86_64_64 :: u64 where "R_X86_64_64 = 1"
definition R_X86_64_PC32 :: u64 where "R_X86_64_PC32 = 2"
definition R_X86_64_PLT32 :: u64 where "R_X86_64_PLT32 = 4"
definition R_X86_64_32 :: u64 where "R_X86_64_32 = 10"
definition R_X86_64_32S :: u64 where "R_X86_64_32S = 11"
definition R_X86_64_PC64 :: u64 where "R_X86_64_PC64 = 24"
definition PT_LOAD :: u32 where "PT_LOAD = 1"

definition ELF64_R_SYM :: "u64 \<Rightarrow> u64" where "ELF64_R_SYM i = drop_bit 32 i"
definition ELF64_R_TYPE :: "u64 \<Rightarrow> u64" where "ELF64_R_TYPE i = i AND 0xFFFFFFFF"

text \<open>The header check of the x86-64 kernel.\<close>

definition elf_check_compatibility :: "Elf64_Ehdr \<Rightarrow> bool" where
  "elf_check_compatibility hdr \<longleftrightarrow>
     take 4 (e_ident hdr) = [0x7F, 0x45, 0x4C, 0x46] \<and> e_ident hdr ! EI_CLASS = ELFCLASS64 \<and> e_ident hdr ! EI_DATA = ELFDATA2LSB \<and>
     e_machine hdr = EM_x86_64 \<and> e_ident hdr ! EI_VERSION = EV_CURRENT"

section \<open>The table of kernel symbols\<close>

partial_function (option) ksym_loop :: "bytes \<Rightarrow> uptr \<Rightarrow> uptr \<Rightarrow> uptr \<Rightarrow> uptr option" where
  "ksym_loop m fin name p =
     (if p < fin then
        case strcmp m name (p + 8) of
          None \<Rightarrow> None
        | Some r \<Rightarrow>
            if r = 0 then Some (get_u64 m p)
            else (case strlen m (p + 8) of None \<Rightarrow> None | Some n \<Rightarrow> ksym_loop m fin name (p + (8 + n + 1)))
      else Some 0)"

record ksym_state =
  ksym_data :: uptr
  ksym_size :: u64

definition ksym_resolve_symbol :: "bytes \<Rightarrow> ksym_state \<Rightarrow> uptr \<Rightarrow> uptr option" where
  "ksym_resolve_symbol m k name = ksym_loop m (ksym_data k + ksym_size k) name (ksym_data k)"

text \<open>The boot modules are triples of path, address and size.\<close>

fun find_symbols :: "bytes \<Rightarrow> uptr \<Rightarrow> (uptr \<times> uptr \<times> u64) list \<Rightarrow> ksym_state \<Rightarrow> ksym_state option" where
  "find_symbols m path [] k = Some k"
| "find_symbols m path ((q, address, sz) # ms) k =
     (case strcmp m q path of
        None \<Rightarrow> None
      | Some r \<Rightarrow> if r = 0 then Some \<lparr>ksym_data = address, ksym_size = sz\<rparr> else find_symbols m path ms k)"

definition ksym_load_symbols :: "bytes \<Rightarrow> uptr \<Rightarrow> (uptr \<times> uptr \<times> u64) list \<Rightarrow> ksym_state \<Rightarrow> ksym_state run" where
  "ksym_load_symbols m path modules k =
     seq (ends (find_symbols m path modules k)) (\<lambda>k1. if ksym_data k1 = 0 then fail Panic else ret k1)"

section \<open>The tool\<close>

text \<open>The conversions of \<^verbatim>\<open>fscanf\<close> that the tool uses, on the rest of the text.\<close>

definition is_space :: "u8 \<Rightarrow> bool" where
  "is_space c \<longleftrightarrow> c = 32 \<or> (9 \<le> c \<and> c \<le> 13)"

definition skip_space :: "u8 list \<Rightarrow> u8 list" where
  "skip_space s = dropWhile is_space s"

definition is_hex :: "u8 \<Rightarrow> bool" where
  "is_hex c \<longleftrightarrow> (48 \<le> c \<and> c \<le> 57) \<or> (65 \<le> c \<and> c \<le> 70) \<or> (97 \<le> c \<and> c \<le> 102)"

definition hex_digit :: "u8 \<Rightarrow> nat" where
  "hex_digit c = (if c \<le> 57 then unat c - 48 else if c \<le> 70 then unat c - 55 else unat c - 87)"

definition hex_value :: "u8 list \<Rightarrow> nat" where
  "hex_value ds = foldl (\<lambda>v c. 16 * v + hex_digit c) 0 ds"

text \<open>An optional sign and an optional prefix \<^verbatim>\<open>0x\<close>; a number that does not fit is undefined.\<close>

definition scan_hex :: "u8 list \<Rightarrow> (u64 \<times> u8 list) option res" where
  "scan_hex s0 =
     (let s1 = skip_space s0;
          neg = (s1 \<noteq> [] \<and> hd s1 = 45);
          s2 = (if s1 \<noteq> [] \<and> (hd s1 = 43 \<or> hd s1 = 45) then tl s1 else s1);
          s3 = (if 2 \<le> length s2 \<and> s2 ! 0 = 48 \<and> (s2 ! 1 = 88 \<or> s2 ! 1 = 120) then drop 2 s2 else s2);
          ds = takeWhile is_hex s3; v = hex_value ds
      in if ds = [] then Inr None
         else if 2 ^ 64 \<le> v then Inl Undefined
         else Inr (Some (if neg then - of_nat v else of_nat v, dropWhile is_hex s3)))"

definition scan_char :: "u8 list \<Rightarrow> (u8 \<times> u8 list) option" where
  "scan_char s = (case skip_space s of [] \<Rightarrow> None | c # r \<Rightarrow> Some (c, r))"

definition scan_word :: "u8 list \<Rightarrow> (u8 list \<times> u8 list) option" where
  "scan_word s =
     (let s1 = skip_space s; w = takeWhile (\<lambda>c. \<not> is_space c) s1
      in if w = [] then None else Some (w, dropWhile (\<lambda>c. \<not> is_space c) s1))"

definition NAME_SIZE :: nat where "NAME_SIZE = 256"

text \<open>\<^verbatim>\<open>fscanf(in, "%llx %c %s", &addr, &type, &name) == 3\<close>\<close>

definition scan_symbol :: "u8 list \<Rightarrow> (u64 \<times> u8 list \<times> u8 list) option res" where
  "scan_symbol s =
     rbind (scan_hex s) (\<lambda>r.
     case r of
       None \<Rightarrow> Inr None
     | Some (addr, s1) \<Rightarrow>
         (case scan_char s1 of
            None \<Rightarrow> Inr None
          | Some (_, s2) \<Rightarrow>
              (case scan_word s2 of
                 None \<Rightarrow> Inr None
               | Some (name, s3) \<Rightarrow> if NAME_SIZE \<le> length name then Inl OutOfBounds else Inr (Some (addr, name, s3)))))"

text \<open>A name is written up to its first zero byte.\<close>

definition ksym_entry :: "u64 \<Rightarrow> u8 list \<Rightarrow> u8 list" where
  "ksym_entry addr name = le_bytes 8 addr @ takeWhile (\<lambda>c. c \<noteq> 0) name @ [0]"

lemma scan_hex_shorter: "scan_hex s = Inr (Some (a, r)) \<Longrightarrow> length r < length s"
proof -
  assume *: "scan_hex s = Inr (Some (a, r))"
  have drop: "length (dropWhile P xs) < length xs" if "takeWhile P xs \<noteq> []" for P and xs :: "u8 list"
  proof -
    have "length (takeWhile P xs) + length (dropWhile P xs) = length xs" by (metis length_append takeWhile_dropWhile_id)
    then show ?thesis using that by (cases "takeWhile P xs") auto
  qed
  have le: "length (skip_space s) \<le> length s" by (simp add: skip_space_def length_dropWhile_le)
  from * show ?thesis using le
    by (auto simp: scan_hex_def Let_def split: if_splits dest!: drop)
qed

lemma scan_word_shorter: "scan_word s = Some (w, r) \<Longrightarrow> length r \<le> length s"
  by (auto simp: scan_word_def skip_space_def Let_def split: if_splits intro: order_trans [OF length_dropWhile_le length_dropWhile_le])

lemma scan_char_shorter: "scan_char s = Some (c, r) \<Longrightarrow> length r \<le> length s"
  using length_dropWhile_le [of is_space s] by (auto simp: scan_char_def skip_space_def split: list.splits)

lemma scan_symbol_shorter: "scan_symbol s = Inr (Some (a, n, r)) \<Longrightarrow> length r < length s"
  by (auto simp: scan_symbol_def rbind_def split: sum.splits option.splits if_splits
      dest!: scan_hex_shorter scan_char_shorter scan_word_shorter)

function ksym_main :: "u8 list \<Rightarrow> u8 list res" where
  "ksym_main s =
     (case scan_symbol s of
        Inl e \<Rightarrow> Inl e
      | Inr None \<Rightarrow> Inr []
      | Inr (Some (addr, name, s1)) \<Rightarrow> rbind (ksym_main s1) (\<lambda>out. Inr (ksym_entry addr name @ out)))"
  by pat_completeness auto
termination
  by (relation "measure length") (auto dest: scan_symbol_shorter)

declare ksym_main.simps [simp del]

end
