(* ===== verification/Elf_Correct.thy ===== *)
theory Elf_Correct
  imports Elf
begin

text \<open>
  The table of kernel symbols: what the tool writes is what the kernel finds.
\<close>

section \<open>The text\<close>

text \<open>The lines the tool is given: address in sixteen digits, type, name.\<close>

definition hex_char :: "nat \<Rightarrow> u8" where
  "hex_char d = (if d < 10 then of_nat (48 + d) else of_nat (87 + d))"

primrec hex_text :: "nat \<Rightarrow> nat \<Rightarrow> u8 list" where
  "hex_text 0 v = []"
| "hex_text (Suc k) v = hex_text k (v div 16) @ [hex_char (v mod 16)]"

definition symbol_line :: "u64 \<times> u8 \<times> u8 list \<Rightarrow> u8 list" where
  "symbol_line = (\<lambda>(a, t, n). hex_text 16 (unat a) @ [32, t, 32] @ n @ [10])"

definition name_ok :: "u8 list \<Rightarrow> bool" where
  "name_ok n \<longleftrightarrow> n \<noteq> [] \<and> length n < NAME_SIZE \<and> (\<forall>c \<in> set n. c \<noteq> 0 \<and> \<not> is_space c)"

definition symbols_ok :: "(u64 \<times> u8 \<times> u8 list) list \<Rightarrow> bool" where
  "symbols_ok syms \<longleftrightarrow> (\<forall>(a, t, n) \<in> set syms. \<not> is_space t \<and> name_ok n)"

lemma hex_char:
  assumes "d < 16"
  shows "is_hex (hex_char d)" "hex_digit (hex_char d) = d" "hex_char d \<noteq> 88" "hex_char d \<noteq> 120" "\<not> is_space (hex_char d)"
    "hex_char d \<noteq> 43" "hex_char d \<noteq> 45"
proof -
  have "\<forall>d \<in> set [0..<16]. is_hex (hex_char d) \<and> hex_digit (hex_char d) = d \<and> hex_char d \<noteq> 88 \<and> hex_char d \<noteq> 120 \<and>
    \<not> is_space (hex_char d) \<and> hex_char d \<noteq> 43 \<and> hex_char d \<noteq> 45"
    by code_simp
  with assms show "is_hex (hex_char d)" "hex_digit (hex_char d) = d" "hex_char d \<noteq> 88" "hex_char d \<noteq> 120" "\<not> is_space (hex_char d)"
    "hex_char d \<noteq> 43" "hex_char d \<noteq> 45" by simp_all
qed

lemma length_hex_text [simp]: "length (hex_text k v) = k"
  by (induction k arbitrary: v) simp_all

lemma hex_text_chars: "c \<in> set (hex_text k v) \<Longrightarrow> \<exists>d < 16. c = hex_char d"
proof (induction k arbitrary: v)
  case (Suc k)
  then consider "c \<in> set (hex_text k (v div 16))" | "c = hex_char (v mod 16)" by auto
  then show ?case using Suc.IH mod_less_divisor [of 16 v] by cases (blast, force)
qed simp

lemma hex_value_text: "hex_value (hex_text k v) = v mod 16 ^ k"
proof (induction k arbitrary: v)
  case 0
  then show ?case by (simp add: hex_value_def)
next
  case (Suc k)
  have "hex_value (xs @ [c]) = 16 * hex_value xs + hex_digit c" for xs c by (simp add: hex_value_def)
  then show ?case by (simp add: Suc hex_char mod_mult2_eq)
qed

text \<open>Scanning a line gives its parts.\<close>

lemma scan_hex_text:
  assumes "r \<noteq> []" "\<not> is_hex (hd r)"
  shows "scan_hex (hex_text 16 (unat a) @ r) = Inr (Some (a, r))"
proof -
  let ?h = "hex_text 16 (unat a)"
  obtain c h1 where h1: "?h = c # h1" using length_hex_text [of 16 "unat a"] by (cases ?h) auto
  obtain d h2 where "h1 = d # h2" using length_hex_text [of 16 "unat a"] h1 by (cases h1) auto
  with h1 have h: "?h = c # d # h2" by simp
  have cd: "\<not> is_space c" "c \<noteq> 43" "c \<noteq> 45" "d \<noteq> 88" "d \<noteq> 120"
    using hex_text_chars [of c 16 "unat a"] hex_text_chars [of d 16 "unat a"] h hex_char by auto
  have hx: "\<forall>x \<in> set ?h. is_hex x" using hex_text_chars hex_char(1) by blast
  have tw: "takeWhile is_hex (?h @ r) = ?h" "dropWhile is_hex (?h @ r) = r"
    using hx assms by (cases r; simp add: takeWhile_append dropWhile_append)+
  have v: "hex_value ?h = unat a" using u64_bound [of a] by (simp add: hex_value_text)
  have sk: "skip_space (?h @ r) = ?h @ r" using cd(1) by (simp add: skip_space_def h)
  show ?thesis
    using cd tw v u64_bound [of a] unfolding scan_hex_def sk Let_def by (simp add: h)
qed

lemma scan_symbol_line:
  assumes "\<not> is_space t" "name_ok n"
  shows "scan_symbol (symbol_line (a, t, n) @ r) = Inr (Some (a, n, 10 # r))"
proof -
  have sp: "is_space 32" "is_space 10" "\<not> is_hex 32" by (simp_all add: is_space_def is_hex_def)
  obtain c n' where n: "n = c # n'" using assms(2) by (cases n) (auto simp: name_ok_def)
  have w: "takeWhile (\<lambda>c. \<not> is_space c) (n @ 10 # r) = n" "dropWhile (\<lambda>c. \<not> is_space c) (n @ 10 # r) = 10 # r"
    using assms(2) sp by (auto simp: name_ok_def takeWhile_append dropWhile_append)
  have "scan_word (32 # n @ 10 # r) = Some (n, 10 # r)"
    using assms(2) sp w n by (simp add: scan_word_def skip_space_def name_ok_def Let_def)
  moreover have "scan_char (32 # t # 32 # n @ 10 # r) = Some (t, 32 # n @ 10 # r)"
    using assms(1) sp by (simp add: scan_char_def skip_space_def)
  moreover have "scan_hex (hex_text 16 (unat a) @ 32 # t # 32 # n @ 10 # r) = Inr (Some (a, 32 # t # 32 # n @ 10 # r))"
    using sp by (intro scan_hex_text) simp_all
  ultimately show ?thesis using assms(2) by (simp add: scan_symbol_def symbol_line_def name_ok_def)
qed

lemma scan_skips: "is_space c \<Longrightarrow> scan_symbol (c # s) = scan_symbol s"
  by (simp add: scan_symbol_def scan_hex_def skip_space_def)

lemma ksym_main_skips: "is_space c \<Longrightarrow> ksym_main (c # s) = ksym_main s"
  by (simp add: ksym_main.simps [of "c # s"] ksym_main.simps [of s] scan_skips)

lemma ksym_main_lines:
  "symbols_ok syms \<Longrightarrow> ksym_main (concat (map symbol_line syms)) = Inr (concat (map (\<lambda>(a, t, n). le_bytes 8 a @ n @ [0]) syms))"
proof (induction syms)
  case Nil
  have "scan_symbol [] = Inr None" by (simp add: scan_symbol_def scan_hex_def skip_space_def)
  then show ?case by (simp add: ksym_main.simps)
next
  case (Cons sym syms)
  obtain a t n where sym: "sym = (a, t, n)" by (cases sym) auto
  with Cons.prems have ok: "\<not> is_space t" "name_ok n" "symbols_ok syms" by (auto simp: symbols_ok_def)
  then have "takeWhile (\<lambda>c. c \<noteq> 0) n = n" by (auto simp: name_ok_def)
  moreover have "is_space 10" by (simp add: is_space_def)
  ultimately show ?case
    using Cons.IH [OF ok(3)] ok ksym_main.simps [of "symbol_line (a, t, n) @ concat (map symbol_line syms)"]
    by (simp add: sym scan_symbol_line ksym_main_skips ksym_entry_def)
qed

section \<open>The table\<close>

lemma str_at_bytes: "bytes_at m p (length s + 1) = s @ [0] \<Longrightarrow> 0 \<notin> set s \<Longrightarrow> str_at m p s"
proof (induction s arbitrary: p)
  case Nil
  then show ?case by (simp add: bytes_at_def)
next
  case (Cons c s)
  have "bytes_at m p (length (c # s) + 1) = m p # bytes_at m (p + 1) (length s + 1)"
    using bytes_at_append [of m p 1 "length s + 1"] by (simp add: bytes_at_def)
  with Cons show ?case by simp
qed

text \<open>The table at \<open>p\<close>, which does not reach the end of the address space.\<close>

definition symbols_at :: "bytes \<Rightarrow> uptr \<Rightarrow> u8 list \<Rightarrow> bool" where
  "symbols_at m p tab \<longleftrightarrow> bytes_at m p (length tab) = tab \<and> unat p + length tab < 2 ^ 64"

lemma symbols_at_append:
  assumes "symbols_at m p (xs @ ys)"
  shows "bytes_at m p (length xs) = xs" "symbols_at m (p + of_nat (length xs)) ys" "unat (p + of_nat (length xs)) = unat p + length xs"
proof -
  show u: "unat (p + of_nat (length xs)) = unat p + length xs"
    using assms by (subst unat_add_nowrap) (simp_all add: symbols_at_def of_nat_u64)
  show "bytes_at m p (length xs) = xs" "symbols_at m (p + of_nat (length xs)) ys"
    using assms bytes_at_append [of m p "length xs" "length ys"] by (simp_all add: symbols_at_def u)
qed

lemma symbol_entry_at:
  assumes "symbols_at m p ((le_bytes 8 a @ n @ [0]) @ r)" "0 \<notin> set n"
  shows "get_u64 m p = a" "str_at m (p + 8) n" "symbols_at m (p + (8 + of_nat (length n) + 1)) r" "p < p + (8 + of_nat (length n) + 1)"
proof -
  note * = symbols_at_append [of m p "le_bytes 8 a" "n @ [0] @ r"]
  note ** = symbols_at_append [of m "p + 8" "n @ [0]" r]
  have s1: "symbols_at m (p + 8) ((n @ [0]) @ r)" using assms *(2) by simp
  have "unat a mod 256 ^ 8 = unat a" using u64_bound [of a] by simp
  then show "get_u64 m p = a" using *(1) assms by (simp add: get_u64_def le_nat_le_bytes)
  show "str_at m (p + 8) n" using **(1) [OF s1] assms(2) by (intro str_at_bytes) simp_all
  show "symbols_at m (p + (8 + of_nat (length n) + 1)) r" using **(2) [OF s1] by (simp add: ac_simps)
  have "unat (p + (8 + of_nat (length n) + 1)) = unat p + 8 + length n + 1"
    using **(3) [OF s1] *(3) assms by (simp add: ac_simps)
  then show "p < p + (8 + of_nat (length n) + 1)" by (simp add: word_less_nat_alt)
qed

lemma ksym_loop_at:
  assumes "symbols_ok syms" "str_at m name s" "symbols_at m p (concat (map (\<lambda>(a, t, n). le_bytes 8 a @ n @ [0]) syms))"
    "fin = p + of_nat (length (concat (map (\<lambda>(a, t, n). le_bytes 8 a @ n @ [0]) syms)))"
  shows "ksym_loop m fin name p = Some (case find (\<lambda>(a, t, n). n = s) syms of None \<Rightarrow> 0 | Some (a, t, n) \<Rightarrow> a)"
  using assms
proof (induction syms arbitrary: p)
  case Nil
  then show ?case by (simp add: ksym_loop.simps)
next
  case (Cons sym syms)
  obtain a t n where sym: "sym = (a, t, n)" by (cases sym) auto
  let ?r = "concat (map (\<lambda>(a, t, n). le_bytes 8 a @ n @ [0]) syms)" and ?q = "p + (8 + of_nat (length n) + 1)"
  have ok: "0 \<notin> set n" "symbols_ok syms" using Cons.prems(1) by (auto simp: sym symbols_ok_def name_ok_def)
  note e = symbol_entry_at [of m p a n ?r, OF _ ok(1)]
  have at: "symbols_at m p ((le_bytes 8 a @ n @ [0]) @ ?r)" using Cons.prems(3) by (simp add: sym)
  have fin: "fin = ?q + of_nat (length ?r)" using Cons.prems(4) by (simp add: sym ac_simps)
  have "?q \<le> fin"
  proof -
    have "unat ?q + length ?r < 2 ^ 64" using e(3) [OF at] by (simp add: symbols_at_def)
    then have "unat fin = unat ?q + length ?r" unfolding fin by (subst unat_add_nowrap) (simp_all add: of_nat_u64)
    then show ?thesis by (simp add: word_le_nat_alt)
  qed
  then have lt: "p < fin" using e(4) [OF at] by simp
  obtain c where c: "strcmp m name (p + 8) = Some c" "c = 0 \<longleftrightarrow> s = n" using strcmp_at [OF Cons.prems(2) e(2) [OF at]] by blast
  show ?case
    using lt c strlen_at [OF e(2) [OF at]] e(1) [OF at] Cons.IH [OF ok(2) Cons.prems(2) e(3) [OF at] fin]
    by (subst ksym_loop.simps) (auto simp: sym)
qed

text \<open>C20: the symbol table round trip: for any list of symbols, the tool turns their listing into a table, and with
  that table in memory the kernel's lookup of a name ends with the address of the first symbol of this name, or 0.\<close>

theorem ksym_table_resolves:
  assumes "symbols_ok syms"
  shows "\<exists>tab. ksym_main (concat (map symbol_line syms)) = Inr tab \<and>
    (\<forall>m p name s. symbols_at m p tab \<and> str_at m name s \<longrightarrow>
       ksym_resolve_symbol m \<lparr>ksym_data = p, ksym_size = of_nat (length tab)\<rparr> name =
         Some (case find (\<lambda>(a, t, n). n = s) syms of None \<Rightarrow> 0 | Some (a, t, n) \<Rightarrow> a))"
  using ksym_main_lines [OF assms] ksym_loop_at [OF assms] by (auto simp: ksym_resolve_symbol_def)

text \<open>One symbol, \<^verbatim>\<open>log\<close>.\<close>

theorem ksym_table_resolves_witness:
  "\<exists>tab m. ksym_main (concat (map symbol_line [(0xFFFFFFFF80001000, 84, [108, 111, 103])])) = Inr tab \<and> length tab = 12 \<and>
     ksym_resolve_symbol m \<lparr>ksym_data = 0x1000, ksym_size = 12\<rparr> 0x2000 = Some 0xFFFFFFFF80001000"
proof -
  let ?syms = "[(0xFFFFFFFF80001000, 84, [108, 111, 103])] :: (u64 \<times> u8 \<times> u8 list) list"
  let ?tab = "[0x00, 0x10, 0x00, 0x80, 0xFF, 0xFF, 0xFF, 0xFF, 108, 111, 103, 0] :: u8 list"
  let ?m = "put_bytes (put_bytes (\<lambda>_. 0) 0x1000 ?tab) 0x2000 [108, 111, 103, 0]"
  have ok: "symbols_ok ?syms" by (simp add: symbols_ok_def name_ok_def NAME_SIZE_def is_space_def)
  have "le_bytes 8 0xFFFFFFFF80001000 = [0x00, 0x10, 0x00, 0x80, 0xFF, 0xFF, 0xFF, 0xFF]" by code_simp
  then have tab: "ksym_main (concat (map symbol_line ?syms)) = Inr ?tab" using ksym_main_lines [OF ok] by simp
  have at: "symbols_at ?m 0x1000 ?tab" "str_at ?m 0x2000 [108, 111, 103]"
    by (simp_all add: symbols_at_def bytes_at_def put_bytes_def upt_rec)
  obtain tab where r: "ksym_main (concat (map symbol_line ?syms)) = Inr tab"
    "\<forall>m p name s. symbols_at m p tab \<and> str_at m name s \<longrightarrow>
       ksym_resolve_symbol m \<lparr>ksym_data = p, ksym_size = of_nat (length tab)\<rparr> name =
         Some (case find (\<lambda>(a, t, n). n = s) ?syms of None \<Rightarrow> 0 | Some (a, t, n) \<Rightarrow> a)"
    using ksym_table_resolves [OF ok] by blast
  have "tab = ?tab" using r(1) unfolding tab by simp
  then have "ksym_resolve_symbol ?m \<lparr>ksym_data = 0x1000, ksym_size = of_nat (length ?tab)\<rparr> 0x2000 = Some 0xFFFFFFFF80001000"
    using r(2) [rule_format, OF conjI, of ?m "0x1000" "0x2000" "[108, 111, 103]"] at by simp
  moreover have "of_nat (length ?tab) = (12 :: u64)" by simp
  ultimately show ?thesis using tab by (intro exI [of _ ?tab] exI [of _ ?m]) simp
qed

end
