(* ===== verification/Loader.thy ===== *)
theory Loader
  imports Elf Vfs Vmm
begin

text \<open>
  The loader of kernel modules, \<^verbatim>\<open>kernel/src/sys/module.c\<close>.  The structures it reads lie in memory:
  the file header and the relocation entries on the stack (their addresses are arguments), the
  tables on the heap.  Indices that come from the file are not checked; they read what is there.
  A header that was read is kept as a record while the tables it describes are read.
\<close>

section \<open>Modules\<close>

text \<open>A member that was never assigned is \<open>None\<close>.\<close>

record module_t =
  mod_install :: "uptr option"
  mod_destroy :: "uptr option"
  mod_name :: "uptr option"
  mod_version :: "uptr option"
  mod_description :: "uptr option"
  mod_author :: "uptr option"

definition SIZEOF_MODULE :: u64 where "SIZEOF_MODULE = 56"

definition no_module :: module_t where
  "no_module = \<lparr>mod_install = None, mod_destroy = None, mod_name = None, mod_version = None, mod_description = None, mod_author = None\<rparr>"

text \<open>\<^verbatim>\<open>MATCH\<close>: the comparison with a literal, which ends with the literal.\<close>

fun MATCH :: "bytes \<Rightarrow> uptr \<Rightarrow> string \<Rightarrow> bool" where
  "MATCH m p [] \<longleftrightarrow> m p = 0"
| "MATCH m p (c # cs) \<longleftrightarrow> m p = of_char c \<and> MATCH m (p + 1) cs"

definition module_fetch_modinfo :: "bytes \<Rightarrow> module_t \<Rightarrow> uptr \<Rightarrow> uptr \<Rightarrow> module_t" where
  "module_fetch_modinfo m md sym_name sym_val =
     (if MATCH m sym_name ''__module_install'' then md\<lparr>mod_install := Some sym_val\<rparr>
      else if MATCH m sym_name ''__module_destroy'' then md\<lparr>mod_destroy := Some sym_val\<rparr>
      else if MATCH m sym_name ''__module_name'' then md\<lparr>mod_name := Some sym_val\<rparr>
      else if MATCH m sym_name ''__module_version'' then md\<lparr>mod_version := Some sym_val\<rparr>
      else if MATCH m sym_name ''__module_description'' then md\<lparr>mod_description := Some sym_val\<rparr>
      else if MATCH m sym_name ''__module_author'' then md\<lparr>mod_author := Some sym_val\<rparr>
      else md)"

text \<open>
  What the loader calls: the heap, and mappings of kernel memory, given by address, length,
  protection and flags.
\<close>

record 's ld_env =
  le_fs :: "'s fs_env"
  le_mmap :: "uptr \<Rightarrow> u64 \<Rightarrow> u32 \<Rightarrow> u32 \<Rightarrow> 's \<Rightarrow> ('s \<times> uptr) res"

record 's ld =
  ld_fs :: "'s fs"
  ld_ksym :: ksym_state
  ld_modules :: "uptr \<Rightarrow> module_t"

definition ld_bytes :: "'s ld \<Rightarrow> bytes" where
  "ld_bytes st = fs_bytes (ld_fs st)"

definition ld_put :: "bytes \<Rightarrow> 's ld \<Rightarrow> 's ld" where
  "ld_put m st = st\<lparr>ld_fs := set_bytes_of m (ld_fs st)\<rparr>"

definition ld_alloc :: "'s ld_env \<Rightarrow> u64 \<Rightarrow> 's ld \<Rightarrow> ('s ld \<times> uptr) run" where
  "ld_alloc env sz st = seq (now (fs_alloc (le_fs env) sz (ld_fs st))) (\<lambda>(fs1, p). ret (st\<lparr>ld_fs := fs1\<rparr>, p))"

definition ld_free :: "'s ld_env \<Rightarrow> uptr \<Rightarrow> 's ld \<Rightarrow> 's ld run" where
  "ld_free env p st = seq (now (fs_free (le_fs env) p (ld_fs st))) (\<lambda>fs1. ret (st\<lparr>ld_fs := fs1\<rparr>))"

text \<open>\<^verbatim>\<open>file->ops->read\<close>\<close>

definition ld_read :: "uptr \<Rightarrow> u64 \<Rightarrow> uptr \<Rightarrow> u64 \<Rightarrow> 's ld \<Rightarrow> ('s ld \<times> int \<times> u64) run" where
  "ld_read file offset buffer count st =
     seq (op_read file offset buffer count (ld_fs st)) (\<lambda>(fs1, r, n). ret (st\<lparr>ld_fs := fs1\<rparr>, r, n))"

section \<open>Sections\<close>

text \<open>Memory for a section; a failed mapping is not noticed, and using it is out of bounds.\<close>

definition map_section :: "'s ld_env \<Rightarrow> u64 \<Rightarrow> 's ld \<Rightarrow> ('s ld \<times> uptr) run" where
  "map_section env len st =
     seq (now (le_mmap env 0 (CEIL len ARCH_PAGE_GRAN) VMM_PROT_FULL (VMM_MAP_ANON OR VMM_MAP_POPULATE OR VMM_MAP_PRIVATE)
                 (fs_al (ld_fs st)))) (\<lambda>(al, mem).
     if mem = VMM_MAP_FAILED then fail OutOfBounds
     else ret (st\<lparr>ld_fs := (ld_fs st)\<lparr>fs_al := al\<rparr>\<rparr>, mem))"

text \<open>The product of the index and the entry size is computed as an \<^verbatim>\<open>int\<close>; its overflow is undefined.\<close>

definition load_section :: "'s ld_env \<Rightarrow> uptr \<Rightarrow> Elf64_Ehdr \<Rightarrow> uptr \<Rightarrow> uptr \<Rightarrow> 's ld \<Rightarrow> nat \<Rightarrow> 's ld run" where
  "load_section env file ehdr shdr section_addr st i =
     (let p = shdr + of_nat i * SIZEOF_SHDR; entry_off = unat (e_shentsize ehdr) * i
      in seq (check (entry_off < 2 ^ 31) Undefined) (\<lambda>_.
         seq (check (shdr \<noteq> 0) NullDeref) (\<lambda>_.
         seq (ld_read file (e_shoff ehdr + of_nat entry_off) p SIZEOF_SHDR st) (\<lambda>(st1, _, _).
         let section = read_shdr (ld_bytes st1) p
         in if sh_size section = 0 \<or> sh_flags section AND SHF_ALLOC = 0 then ret st1
            else if sh_type section = SHT_PROGBITS then
              seq (map_section env (sh_size section) st1) (\<lambda>(st2, mem).
              seq (ld_read file (sh_offset section) mem (sh_size section) st2) (\<lambda>(st3, _, _).
              seq (check (section_addr \<noteq> 0) NullDeref) (\<lambda>_.
              ret (ld_put (put_u64 (ld_bytes st3) (section_addr + of_nat i * 8) mem) st3))))
            else if sh_type section = SHT_NOBITS then
              seq (map_section env (sh_size section) st1) (\<lambda>(st2, mem).
              seq (check (section_addr \<noteq> 0) NullDeref) (\<lambda>_.
              ret (ld_put (put_u64 (memset (ld_bytes st2) mem 0 (sh_size section)) (section_addr + of_nat i * 8) mem) st2)))
            else ret st1))))"

text \<open>The index of the last symbol table.\<close>

definition find_symtab :: "bytes \<Rightarrow> uptr \<Rightarrow> nat \<Rightarrow> nat option" where
  "find_symtab m shdr n =
     foldl (\<lambda>r i. if sh_type (read_shdr m (shdr + of_nat i * SIZEOF_SHDR)) = SHT_SYMTAB then Some i else r) None [0..<n]"

section \<open>Symbols\<close>

text \<open>One symbol; without a module the symbol could not be resolved.\<close>

definition resolve_symbol :: "uptr \<Rightarrow> uptr \<Rightarrow> uptr \<Rightarrow> 's ld \<Rightarrow> module_t \<Rightarrow> ('s ld \<times> module_t option) run" where
  "resolve_symbol strtab section_addr p st md =
     (let m = ld_bytes st; sym = read_sym m p; name = strtab + ucast (st_name sym)
      in if st_shndx sym = SHN_UNDEF then
           seq (ends (ksym_resolve_symbol m (ld_ksym st) name)) (\<lambda>v.
           ret (ld_put (put_u64 m (p + ST_VALUE) v) st, if v = 0 then None else Some md))
         else if st_shndx sym = SHN_ABS then ret (st, Some md)
         else if st_shndx sym = SHN_COMMON then ret (st, Some md)
         else
           let v = st_value sym + get_u64 m (section_addr + ucast (st_shndx sym) * 8);
               m1 = put_u64 m (p + ST_VALUE) v
           in ret (ld_put m1 st, Some (module_fetch_modinfo m1 md name v)))"

fun resolve_symbols :: "uptr \<Rightarrow> uptr \<Rightarrow> uptr list \<Rightarrow> 's ld \<Rightarrow> module_t \<Rightarrow> ('s ld \<times> module_t option) run" where
  "resolve_symbols strtab section_addr [] st md = ret (st, Some md)"
| "resolve_symbols strtab section_addr (p # ps) st md =
     seq (resolve_symbol strtab section_addr p st md) (\<lambda>(st1, r).
     case r of
       None \<Rightarrow> ret (st1, None)
     | Some md1 \<Rightarrow> resolve_symbols strtab section_addr ps st1 md1)"

section \<open>Relocations\<close>

text \<open>The value and its size, or \<open>None\<close> for a type that is not supported.\<close>

definition reloc_value :: "u64 \<Rightarrow> uptr \<Rightarrow> uptr \<Rightarrow> (uptr \<times> nat) option" where
  "reloc_value type value addr =
     (if type = R_X86_64_64 then Some (value, 8)
      else if type = R_X86_64_PC32 \<or> type = R_X86_64_PLT32 then Some (value - addr, 4)
      else if type = R_X86_64_32 \<or> type = R_X86_64_32S then Some (value, 4)
      else if type = R_X86_64_PC64 then Some (value - addr, 8)
      else None)"

definition apply_rela :: "uptr \<Rightarrow> u64 \<Rightarrow> uptr \<Rightarrow> Elf64_Rela \<Rightarrow> bytes \<Rightarrow> bytes option" where
  "apply_rela symtab entsize base rela m =
     (let sym = read_sym m (symtab + ELF64_R_SYM (r_info rela) * entsize); addr = base + r_offset rela
      in case reloc_value (ELF64_R_TYPE (r_info rela)) (st_value sym + r_addend rela) addr of
           None \<Rightarrow> None
         | Some (v, n) \<Rightarrow> Some (put_bytes m addr (le_bytes n v)))"

fun apply_relas :: "uptr \<Rightarrow> u64 \<Rightarrow> uptr \<Rightarrow> u32 \<Rightarrow> uptr list \<Rightarrow> bytes \<Rightarrow> bytes \<times> bool" where
  "apply_relas symtab entsize section_addr info [] m = (m, True)"
| "apply_relas symtab entsize section_addr info (r # rs) m =
     (case apply_rela symtab entsize (get_u64 m (section_addr + ucast info * 8)) (read_rela m r) m of
        None \<Rightarrow> (m, False)
      | Some m1 \<Rightarrow> apply_relas symtab entsize section_addr info rs m1)"

text \<open>The sections of relocations; \<open>False\<close> when a relocation was refused.  An array of no entries is undefined.\<close>

fun load_relocs :: "uptr \<Rightarrow> uptr \<Rightarrow> uptr \<Rightarrow> uptr \<Rightarrow> u64 \<Rightarrow> uptr \<Rightarrow> nat list \<Rightarrow> 's ld \<Rightarrow> ('s ld \<times> bool) run" where
  "load_relocs file rela_entries shdr symtab entsize section_addr [] st = ret (st, True)"
| "load_relocs file rela_entries shdr symtab entsize section_addr (i # is) st =
     (let section = read_shdr (ld_bytes st) (shdr + of_nat i * SIZEOF_SHDR)
      in if sh_type section \<noteq> SHT_RELA then load_relocs file rela_entries shdr symtab entsize section_addr is st
         else if sh_entsize section = 0 \<or> sh_size section div sh_entsize section = 0 then fail Undefined
         else
           seq (ld_read file (sh_offset section) rela_entries (sh_size section) st) (\<lambda>(st1, _, _).
           let n = unat (sh_size section div sh_entsize section);
               (m, ok) = apply_relas symtab entsize section_addr (sh_info section)
                           (map (\<lambda>j. rela_entries + of_nat j * SIZEOF_RELA) [0..<n]) (ld_bytes st1)
           in if ok then load_relocs file rela_entries shdr symtab entsize section_addr is (ld_put m st1)
              else ret (ld_put m st1, False)))"

section \<open>Loading\<close>

text \<open>\<^verbatim>\<open>module.install == NULL || module.destroy == NULL\<close>, where a member may be indeterminate.\<close>

definition module_incomplete :: "module_t \<Rightarrow> bool res" where
  "module_incomplete md =
     (case mod_install md of
        None \<Rightarrow> Inl Undefined
      | Some f \<Rightarrow> if f = 0 then Inr True else (case mod_destroy md of None \<Rightarrow> Inl Undefined | Some g \<Rightarrow> Inr (g = 0)))"

text \<open>From the resolution of the symbols on; the result is the module's address, 0 for a refused file.\<close>

definition module_link ::
  "'s ld_env \<Rightarrow> uptr \<Rightarrow> uptr \<Rightarrow> nat \<Rightarrow> uptr \<Rightarrow> uptr \<Rightarrow> Elf64_Shdr \<Rightarrow> uptr \<Rightarrow> uptr \<Rightarrow> 's ld \<Rightarrow> ('s ld \<times> uptr) run" where
  "module_link env file rela_entries shnum shdr section_addr symtab_hdr symtab strtab st =
     (if sh_entsize symtab_hdr = 0 then fail Undefined
      else
        let sym_count = unat (sh_size symtab_hdr div sh_entsize symtab_hdr)
        in seq (resolve_symbols strtab section_addr (map (\<lambda>i. symtab + of_nat i * sh_entsize symtab_hdr) [1..<sym_count]) st no_module)
             (\<lambda>(st1, r).
           case r of
             None \<Rightarrow> ret (st1, 0)
           | Some md \<Rightarrow>
               seq (now (module_incomplete md)) (\<lambda>bad.
               if bad then ret (st1, 0)
               else
                 seq (load_relocs file rela_entries shdr symtab (sh_entsize symtab_hdr) section_addr [0..<shnum] st1) (\<lambda>(st2, ok).
                 if \<not> ok then ret (st2, 0)
                 else
                   seq (ld_alloc env SIZEOF_MODULE st2) (\<lambda>(st3, p).
                   if p = 0 then fail NullDeref
                   else ret (st3\<lparr>ld_modules := (ld_modules st3)(p := md)\<rparr>, p))))))"

text \<open>With the section headers in memory.  The string table's header is an element of an array and never null.\<close>

definition module_symbols :: "'s ld_env \<Rightarrow> uptr \<Rightarrow> uptr \<Rightarrow> nat \<Rightarrow> uptr \<Rightarrow> uptr \<Rightarrow> 's ld \<Rightarrow> ('s ld \<times> uptr) run" where
  "module_symbols env file rela_entries shnum shdr section_addr st =
     (case find_symtab (ld_bytes st) shdr shnum of
        None \<Rightarrow> ret (st, 0)
      | Some k \<Rightarrow>
          let symtab_hdr = read_shdr (ld_bytes st) (shdr + of_nat k * SIZEOF_SHDR)
          in seq (ld_alloc env (sh_size symtab_hdr) st) (\<lambda>(st1, symtab).
             seq (check (symtab \<noteq> 0) NullDeref) (\<lambda>_.
             seq (ld_read file (sh_offset symtab_hdr) symtab (sh_size symtab_hdr) st1) (\<lambda>(st2, _, _).
             let strtab_hdr = read_shdr (ld_bytes st2) (shdr + ucast (sh_link symtab_hdr) * SIZEOF_SHDR)
             in seq (ld_alloc env (sh_size strtab_hdr) st2) (\<lambda>(st3, strtab).
                seq (check (strtab \<noteq> 0) NullDeref) (\<lambda>_.
                seq (ld_read file (sh_offset strtab_hdr) strtab (sh_size strtab_hdr) st3) (\<lambda>(st4, _, _).
                seq (module_link env file rela_entries shnum shdr section_addr symtab_hdr symtab strtab st4) (\<lambda>(st5, md).
                seq (ld_free env strtab st5) (\<lambda>st6.
                seq (ld_free env symtab st6) (\<lambda>st7.
                ret (st7, md)))))))))))"

definition module_load :: "'s ld_env \<Rightarrow> uptr \<Rightarrow> uptr \<Rightarrow> uptr \<Rightarrow> 's ld \<Rightarrow> ('s ld \<times> uptr) run" where
  "module_load env ehdr_p rela_entries file st =
     seq (ld_read file 0 ehdr_p SIZEOF_EHDR st) (\<lambda>(st1, r, count).
     if r < 0 \<or> count \<noteq> SIZEOF_EHDR then ret (st1, 0)
     else
       let ehdr = read_ehdr (ld_bytes st1) ehdr_p; shnum = unat (e_shnum ehdr)
       in if \<not> elf_check_compatibility ehdr \<or> e_type ehdr \<noteq> ET_REL then ret (st1, 0)
          else
            seq (ld_alloc env (of_nat shnum * SIZEOF_SHDR) st1) (\<lambda>(st2, shdr).
            seq (ld_alloc env (of_nat shnum * 8) st2) (\<lambda>(st3, section_addr).
            seq (run_each (load_section env file ehdr shdr section_addr) [0..<shnum] st3) (\<lambda>st4.
            seq (module_symbols env file rela_entries shnum shdr section_addr st4) (\<lambda>(st5, md).
            seq (ld_free env section_addr st5) (\<lambda>st6.
            seq (ld_free env shdr st6) (\<lambda>st7.
            ret (st7, md))))))))"

end
