(* ===== verification/Loader_Correct.thy ===== *)
theory Loader_Correct
  imports Loader
begin

text \<open>
  Relocation: every place named by a relocation holds the value its type asks for, and nothing
  else changes.
\<close>

section \<open>Relocation\<close>

text \<open>The place of a relocation, its symbol, and what is to be written, in a given memory.\<close>

definition rela_place :: "bytes \<Rightarrow> uptr \<Rightarrow> u32 \<Rightarrow> uptr \<Rightarrow> uptr" where
  "rela_place m section_addr info r = get_u64 m (section_addr + ucast info * 8) + r_offset (read_rela m r)"

definition rela_sym :: "bytes \<Rightarrow> uptr \<Rightarrow> u64 \<Rightarrow> uptr \<Rightarrow> uptr" where
  "rela_sym m symtab entsize r = symtab + ELF64_R_SYM (r_info (read_rela m r)) * entsize"

definition rela_target :: "bytes \<Rightarrow> uptr \<Rightarrow> u64 \<Rightarrow> uptr \<Rightarrow> u32 \<Rightarrow> uptr \<Rightarrow> (u64 \<times> nat) option" where
  "rela_target m symtab entsize section_addr info r =
     (let a = r_addend (read_rela m r); s = get_u64 m (rela_sym m symtab entsize r + ST_VALUE)
      in reloc_value (ELF64_R_TYPE (r_info (read_rela m r))) (s + a) (rela_place m section_addr info r))"

definition rela_writes :: "bytes \<Rightarrow> uptr \<Rightarrow> u64 \<Rightarrow> uptr \<Rightarrow> u32 \<Rightarrow> uptr \<Rightarrow> uptr set" where
  "rela_writes m symtab entsize section_addr info r =
     (case rela_target m symtab entsize section_addr info r of
        None \<Rightarrow> {} | Some (v, n) \<Rightarrow> block (rela_place m section_addr info r) n)"

definition rela_reads :: "bytes \<Rightarrow> uptr \<Rightarrow> u64 \<Rightarrow> uptr \<Rightarrow> u32 \<Rightarrow> uptr \<Rightarrow> uptr set" where
  "rela_reads m symtab entsize section_addr info r =
     block r 24 \<union> block (rela_sym m symtab entsize r) 24 \<union> block (section_addr + ucast info * 8) 8"

text \<open>The places are apart from each other and from everything that is read.\<close>

definition relas_apart :: "bytes \<Rightarrow> uptr \<Rightarrow> u64 \<Rightarrow> uptr \<Rightarrow> u32 \<Rightarrow> uptr list \<Rightarrow> bool" where
  "relas_apart m symtab entsize section_addr info rs \<longleftrightarrow>
     sorted_wrt (\<lambda>r q. rela_writes m symtab entsize section_addr info r \<inter> rela_writes m symtab entsize section_addr info q = {}) rs \<and>
     (\<forall>r \<in> set rs. \<forall>q \<in> set rs. rela_writes m symtab entsize section_addr info r \<inter> rela_reads m symtab entsize section_addr info q = {})"

lemma rela_agree:
  assumes "\<And>x. x \<in> rela_reads m symtab entsize section_addr info r \<Longrightarrow> m' x = m x"
  shows "read_rela m' r = read_rela m r" "rela_sym m' symtab entsize r = rela_sym m symtab entsize r"
    "rela_place m' section_addr info r = rela_place m section_addr info r"
    "rela_target m' symtab entsize section_addr info r = rela_target m symtab entsize section_addr info r"
proof -
  have g: "get_u64 m' (p + of_nat a) = get_u64 m (p + of_nat a)"
    if "block p k \<subseteq> rela_reads m symtab entsize section_addr info r" "a + 8 \<le> k" for p a k
  proof -
    have "bytes_at m' (p + of_nat a) 8 = bytes_at m (p + of_nat a) 8"
      using block_mono [OF that(2), of p] that(1) assms by (intro bytes_at_agree) blast
    then show ?thesis by (simp add: get_u64_def)
  qed
  have sub: "block r 24 \<subseteq> rela_reads m symtab entsize section_addr info r"
    "block (rela_sym m symtab entsize r) 24 \<subseteq> rela_reads m symtab entsize section_addr info r"
    "block (section_addr + ucast info * 8) 8 \<subseteq> rela_reads m symtab entsize section_addr info r"
    by (auto simp: rela_reads_def)
  show r: "read_rela m' r = read_rela m r"
    using g [OF sub(1), of 0] g [OF sub(1), of 8] g [OF sub(1), of 16] by (simp add: read_rela_def)
  show s: "rela_sym m' symtab entsize r = rela_sym m symtab entsize r" by (simp add: rela_sym_def r)
  show p: "rela_place m' section_addr info r = rela_place m section_addr info r"
    using g [OF sub(3), of 0] by (simp add: rela_place_def r)
  show "rela_target m' symtab entsize section_addr info r = rela_target m symtab entsize section_addr info r"
    using g [OF sub(2), of 8] by (simp add: rela_target_def r s p ST_VALUE_def)
qed

lemma apply_rela_target:
  assumes "rela_target m symtab entsize section_addr info r = Some (v, n)"
  shows "apply_rela symtab entsize (get_u64 m (section_addr + ucast info * 8)) (read_rela m r) m =
    Some (put_bytes m (rela_place m section_addr info r) (le_bytes n v))"
  using assms by (simp add: apply_rela_def rela_target_def rela_sym_def rela_place_def read_sym_def ST_VALUE_def Let_def)

lemma apply_relas_at:
  assumes "relas_apart m symtab entsize section_addr info rs"
    "\<forall>r \<in> set rs. rela_target m symtab entsize section_addr info r \<noteq> None"
  shows "\<exists>m'. apply_relas symtab entsize section_addr info rs m = (m', True) \<and>
    (\<forall>r \<in> set rs. \<forall>v n. rela_target m symtab entsize section_addr info r = Some (v, n) \<longrightarrow>
       bytes_at m' (rela_place m section_addr info r) n = le_bytes n v) \<and>
    (\<forall>x. (\<forall>r \<in> set rs. x \<notin> rela_writes m symtab entsize section_addr info r) \<longrightarrow> m' x = m x)"
  using assms
proof (induction rs arbitrary: m)
  case Nil
  then show ?case by simp
next
  case (Cons r rs)
  let ?w = "\<lambda>m. rela_writes m symtab entsize section_addr info" and ?t = "\<lambda>m. rela_target m symtab entsize section_addr info"
  let ?p = "\<lambda>m. rela_place m section_addr info"
  obtain v n where t: "?t m r = Some (v, n)" using Cons.prems(2) by auto
  let ?m1 = "put_bytes m (?p m r) (le_bytes n v)"
  have w: "?w m r = block (?p m r) n" by (simp add: rela_writes_def t)
  have out: "?m1 x = m x" if "x \<notin> ?w m r" for x using put_bytes_block [of x "?p m r" "le_bytes n v"] that w by simp
  have same: "?m1 x = m x" if "q \<in> set rs" "x \<in> rela_reads m symtab entsize section_addr info q" for x q
    using that Cons.prems(1) by (intro out) (auto simp: relas_apart_def)
  have ag: "rela_sym ?m1 symtab entsize q = rela_sym m symtab entsize q" "?p ?m1 q = ?p m q" "?t ?m1 q = ?t m q" if "q \<in> set rs" for q
    using rela_agree [of m symtab entsize section_addr info q ?m1, OF same [OF that]] by blast+
  have wq: "?w ?m1 q = ?w m q" "rela_reads ?m1 symtab entsize section_addr info q = rela_reads m symtab entsize section_addr info q"
    if "q \<in> set rs" for q
    using ag [OF that] that by (simp_all add: rela_writes_def rela_reads_def split: option.split)
  have "relas_apart ?m1 symtab entsize section_addr info rs"
    unfolding relas_apart_def
  proof
    have "sorted_wrt (\<lambda>a b. ?w m a \<inter> ?w m b = {}) rs" using Cons.prems(1) by (simp add: relas_apart_def)
    then show "sorted_wrt (\<lambda>a b. ?w ?m1 a \<inter> ?w ?m1 b = {}) rs" by (rule sorted_wrt_mono_rel [rotated]) (simp add: wq)
  qed (use Cons.prems(1) wq in \<open>simp add: relas_apart_def\<close>)
  then obtain m' where m': "apply_relas symtab entsize section_addr info rs ?m1 = (m', True)"
    "\<forall>q \<in> set rs. \<forall>v n. ?t ?m1 q = Some (v, n) \<longrightarrow> bytes_at m' (?p ?m1 q) n = le_bytes n v"
    "\<forall>x. (\<forall>q \<in> set rs. x \<notin> ?w ?m1 q) \<longrightarrow> m' x = ?m1 x"
    using Cons.IH [of ?m1] Cons.prems(2) ag(3) by auto
  have "bytes_at m' (?p m r) n = bytes_at ?m1 (?p m r) n"
  proof (rule bytes_at_agree)
    fix x
    assume "x \<in> block (?p m r) n"
    then have "\<forall>q \<in> set rs. x \<notin> ?w ?m1 q" using Cons.prems(1) w wq(1) by (auto simp: relas_apart_def)
    then show "m' x = ?m1 x" using m'(3) by blast
  qed
  also have "\<dots> = le_bytes n v"
    using bytes_at_put_bytes [of "le_bytes n v" m "?p m r"] t by (auto simp: rela_target_def reloc_value_def Let_def split: if_splits)
  finally have "bytes_at m' (?p m r) n = le_bytes n v" .
  then show ?case
    using m' apply_rela_target [OF t] t ag wq out by (intro exI [of _ m']) auto
qed

text \<open>What the processor's ABI asks of a place: the symbol's value \<open>S\<close>, the addend \<open>A\<close> and the place \<open>P\<close>.\<close>

definition relocated :: "bytes \<Rightarrow> u64 \<Rightarrow> u64 \<Rightarrow> u64 \<Rightarrow> uptr \<Rightarrow> bool" where
  "relocated m type S A P \<longleftrightarrow>
     (type = R_X86_64_64 \<longrightarrow> get_u64 m P = S + A) \<and>
     (type = R_X86_64_PC64 \<longrightarrow> get_u64 m P = S + A - P) \<and>
     (type = R_X86_64_PC32 \<or> type = R_X86_64_PLT32 \<longrightarrow> get_u32 m P = ucast (S + A - P)) \<and>
     (type = R_X86_64_32 \<or> type = R_X86_64_32S \<longrightarrow> get_u32 m P = ucast (S + A))"

definition supported :: "u64 \<Rightarrow> bool" where
  "supported type \<longleftrightarrow> type \<in> {R_X86_64_64, R_X86_64_PC32, R_X86_64_PLT32, R_X86_64_32, R_X86_64_32S, R_X86_64_PC64}"

lemmas reloc_types = R_X86_64_64_def R_X86_64_PC32_def R_X86_64_PLT32_def R_X86_64_32_def R_X86_64_32S_def R_X86_64_PC64_def

lemma reloc_value_supported: "reloc_value type v a \<noteq> None \<longleftrightarrow> supported type"
  by (auto simp: reloc_value_def supported_def)

lemma get_le_bytes:
  "bytes_at m p 8 = le_bytes 8 v \<Longrightarrow> get_u64 m p = v" "bytes_at m p 4 = le_bytes 4 v \<Longrightarrow> get_u32 m p = ucast v"
proof -
  show "bytes_at m p 8 = le_bytes 8 v \<Longrightarrow> get_u64 m p = v"
    using u64_bound [of v] by (simp add: get_u64_def le_nat_le_bytes)
  show "bytes_at m p 4 = le_bytes 4 v \<Longrightarrow> get_u32 m p = ucast v"
    by (simp add: get_u32_def le_nat_le_bytes word_unat_eq_iff unsigned_ucast_eq take_bit_eq_mod unat_of_nat)
qed

lemma reloc_value_relocated:
  assumes "reloc_value type (S + A) P = Some (v, n)" "bytes_at m P n = le_bytes n v"
  shows "relocated m type S A P"
  using assms get_le_bytes [of m P] by (auto simp: reloc_value_def relocated_def reloc_types split: if_splits)

text \<open>C23: applying the relocations of a section succeeds when all are of a supported type and none writes where
  another writes or where the tables are read; then each place holds the value its type asks for
  (in 4 or 8 bytes), and no byte outside the places changes.\<close>

theorem apply_relas_correct:
  assumes "relas_apart m symtab entsize section_addr info rs"
    "\<forall>r \<in> set rs. supported (ELF64_R_TYPE (r_info (read_rela m r)))"
  shows "\<exists>m'. apply_relas symtab entsize section_addr info rs m = (m', True) \<and>
    (\<forall>r \<in> set rs. relocated m' (ELF64_R_TYPE (r_info (read_rela m r)))
       (get_u64 m (rela_sym m symtab entsize r + ST_VALUE)) (r_addend (read_rela m r)) (rela_place m section_addr info r)) \<and>
    (\<forall>x. (\<forall>r \<in> set rs. x \<notin> rela_writes m symtab entsize section_addr info r) \<longrightarrow> m' x = m x)"
proof -
  have t: "\<forall>r \<in> set rs. rela_target m symtab entsize section_addr info r \<noteq> None"
    using assms(2) reloc_value_supported by (simp add: rela_target_def Let_def)
  from apply_relas_at [OF assms(1) t] obtain m' where m': "apply_relas symtab entsize section_addr info rs m = (m', True)"
    "\<forall>r \<in> set rs. \<forall>v n. rela_target m symtab entsize section_addr info r = Some (v, n) \<longrightarrow>
       bytes_at m' (rela_place m section_addr info r) n = le_bytes n v"
    "\<forall>x. (\<forall>r \<in> set rs. x \<notin> rela_writes m symtab entsize section_addr info r) \<longrightarrow> m' x = m x" by blast
  have "relocated m' (ELF64_R_TYPE (r_info (read_rela m r)))
       (get_u64 m (rela_sym m symtab entsize r + ST_VALUE)) (r_addend (read_rela m r)) (rela_place m section_addr info r)"
    if r: "r \<in> set rs" for r
  proof -
    obtain v n where vn: "rela_target m symtab entsize section_addr info r = Some (v, n)" using t r by auto
    then show ?thesis using m'(2) r by (intro reloc_value_relocated [of _ _ _ _ v n]) (auto simp: rela_target_def Let_def)
  qed
  with m' show ?thesis by blast
qed

text \<open>One relocation \<^verbatim>\<open>R_X86_64_PC32\<close> at \<^verbatim>\<open>0x10\<close> in a section at \<^verbatim>\<open>0x4000\<close>, for a symbol with the value \<^verbatim>\<open>0x8000\<close>.\<close>

definition rela_example :: bytes where
  "rela_example = put_u64 (put_u64 (put_u64 (put_u64 (put_u64 (\<lambda>_. 0) 0x1000 0x10) 0x1008 0x100000002) 0x1010 (- 4)) 0x2020 0x8000) 0x3008 0x4000"

lemma rela_example:
  "read_rela rela_example 0x1000 = \<lparr>r_offset = 0x10, r_info = 0x100000002, r_addend = - 4\<rparr>"
  "get_u64 rela_example 0x2020 = 0x8000" "get_u64 rela_example 0x3008 = 0x4000"
  by (simp_all add: read_rela_def rela_example_def get_put_u64_other)

lemma rela_example_place:
  "rela_place rela_example 0x3000 1 0x1000 = 0x4010" "rela_sym rela_example 0x2000 24 0x1000 = 0x2018"
  "rela_target rela_example 0x2000 24 0x3000 1 0x1000 = Some (0x3FEC, 4)"
  by (simp_all add: rela_place_def rela_sym_def rela_target_def rela_example ELF64_R_SYM_def ELF64_R_TYPE_def ST_VALUE_def
      reloc_value_def reloc_types drop_bit_eq_div)

theorem apply_relas_correct_witness:
  "\<exists>m'. apply_relas 0x2000 24 0x3000 1 [0x1000] rela_example = (m', True) \<and> get_u32 m' 0x4010 = 0x3FEC"
proof -
  have "relas_apart rela_example 0x2000 24 0x3000 1 [0x1000]"
    by (simp add: relas_apart_def rela_writes_def rela_reads_def rela_example_place block_disjoint Int_Un_distrib)
  moreover have "\<forall>r \<in> set [0x1000]. supported (ELF64_R_TYPE (r_info (read_rela rela_example r)))"
    by (simp add: rela_example supported_def ELF64_R_TYPE_def reloc_types)
  ultimately show ?thesis
    using apply_relas_correct [of rela_example "0x2000" 24 "0x3000" 1 "[0x1000]"]
    by (auto simp: rela_example rela_example_place relocated_def ELF64_R_TYPE_def ST_VALUE_def reloc_types)
qed

section \<open>Files that are refused\<close>

text \<open>A file that is not a compatible relocatable object is refused before anything is allocated or mapped.\<close>

lemma module_load_refused:
  assumes "ld_read file 0 ehdr_p SIZEOF_EHDR st = ret (st1, r, SIZEOF_EHDR)"
    "\<not> elf_check_compatibility (read_ehdr (ld_bytes st1) ehdr_p) \<or> e_type (read_ehdr (ld_bytes st1) ehdr_p) \<noteq> ET_REL"
  shows "module_load env ehdr_p rela_entries file st = ret (st1, 0)"
  using assms by (auto simp: module_load_def Let_def)

text \<open>A module without the symbol \<^verbatim>\<open>__module_install\<close> is not recognised as such: the member of the structure on the stack was never
  assigned.\<close>

lemma module_incomplete_indeterminate: "mod_install md = None \<Longrightarrow> module_incomplete md = Inl Undefined"
  by (simp add: module_incomplete_def)

end
