(* ===== verification/Exec.thy ===== *)
theory Exec
  imports Loader Sched
begin

text \<open>
  The loader of programs, \<^verbatim>\<open>kernel/src/sys/exec.c\<close>.  The file and the process share the allocator and the
  memory; the address space is changed through the two operations of the virtual memory manager.
\<close>

record 's xc_env =
  xe_fs :: "'s fs_env"
  xe_sd :: "'s sd_env"
  xe_mmap :: "uptr \<Rightarrow> uptr \<Rightarrow> u64 \<Rightarrow> u32 \<Rightarrow> u32 \<Rightarrow> 's \<times> bytes \<Rightarrow> ('s \<times> bytes) res"
  xe_copy_to :: "uptr \<Rightarrow> uptr \<Rightarrow> uptr \<Rightarrow> u64 \<Rightarrow> 's \<times> bytes \<Rightarrow> ('s \<times> bytes) res"

record 's xc =
  xc_fs :: "'s fs"
  xc_sd :: "'s sd"

text \<open>An operation on threads and processes, on CPU \<open>cpu\<close>, and one of the memory manager.\<close>

definition on_sd :: "nat \<Rightarrow> ('s sd \<Rightarrow> ('s sd \<times> 'a) res) \<Rightarrow> 's xc \<Rightarrow> ('s xc \<times> 'a) run" where
  "on_sd cpu f st =
     seq (now (f (set_int cpu (fs_int (xc_fs st)) ((xc_sd st)\<lparr>sd_al := fs_al (xc_fs st), sd_bytes := fs_bytes (xc_fs st)\<rparr>)))) (\<lambda>(sd1, x).
     ret (st\<lparr>xc_sd := sd1, xc_fs := (xc_fs st)\<lparr>fs_al := sd_al sd1, fs_bytes := sd_bytes sd1, fs_int := sd_int sd1 cpu\<rparr>\<rparr>, x))"

definition on_mem :: "('s \<times> bytes \<Rightarrow> ('s \<times> bytes) res) \<Rightarrow> 's xc \<Rightarrow> 's xc run" where
  "on_mem f st =
     seq (now (f (fs_al (xc_fs st), fs_bytes (xc_fs st)))) (\<lambda>(al, m).
     ret (st\<lparr>xc_fs := (xc_fs st)\<lparr>fs_al := al, fs_bytes := m\<rparr>\<rparr>))"

definition xc_read :: "uptr \<Rightarrow> u64 \<Rightarrow> uptr \<Rightarrow> u64 \<Rightarrow> 's xc \<Rightarrow> ('s xc \<times> int \<times> u64) run" where
  "xc_read file offset buffer count st =
     seq (op_read file offset buffer count (xc_fs st)) (\<lambda>(fs1, r, n). ret (st\<lparr>xc_fs := fs1\<rparr>, r, n))"

text \<open>
  The buffer for a segment: a block of pages of order 10.  The result of the mapping and the number
  of bytes read are not looked at.
\<close>

definition exec_segment :: "'s xc_env \<Rightarrow> uptr \<Rightarrow> uptr \<Rightarrow> uptr \<Rightarrow> 's xc \<Rightarrow> nat \<Rightarrow> 's xc run" where
  "exec_segment env file as ph_table st i =
     (let ph = read_phdr (fs_bytes (xc_fs st)) (ph_table + of_nat i * SIZEOF_PHDR);
          HHDM = se_HHDM (xe_sd env)
      in if p_type ph = PT_LOAD \<and> p_memsz ph \<noteq> 0 then
           let start = FLOOR (p_vaddr ph) ARCH_PAGE_GRAN;
               fin = CEIL (p_vaddr ph + p_memsz ph) ARCH_PAGE_GRAN
           in seq (on_mem (xe_mmap env as start (fin - start) VMM_PROT_FULL
                     (VMM_MAP_ANON OR VMM_MAP_POPULATE OR VMM_MAP_FIXED OR VMM_MAP_PRIVATE)) st) (\<lambda>st1.
              seq (check (p_filesz ph \<le> pmm_order_to_pagecount 10 * ARCH_PAGE_GRAN) AssertFailed) (\<lambda>_.
              seq (now (se_page_alloc (xe_sd env) 10 (fs_al (xc_fs st1)))) (\<lambda>(al, buf).
              seq (xc_read file (p_offset ph) (buf + HHDM) (p_filesz ph) (st1\<lparr>xc_fs := (xc_fs st1)\<lparr>fs_al := al\<rparr>\<rparr>)) (\<lambda>(st2, _, _).
              seq (on_mem (xe_copy_to env as (p_vaddr ph) (buf + HHDM) (p_filesz ph)) st2) (\<lambda>st3.
              seq (now (fe_page_free (xe_fs env) buf (fs_al (xc_fs st3)))) (\<lambda>al3.
              ret (st3\<lparr>xc_fs := (xc_fs st3)\<lparr>fs_al := al3\<rparr>\<rparr>)))))))
         else ret st)"

text \<open>The size of the table is a product of two \<^verbatim>\<open>int\<close> values.  The result is the process, 0 for a refused file.\<close>

definition exec_load :: "'s xc_env \<Rightarrow> nat \<Rightarrow> uptr \<Rightarrow> uptr \<Rightarrow> 's xc \<Rightarrow> ('s xc \<times> uptr) run" where
  "exec_load env cpu ehdr_p file st =
     seq (xc_read file 0 ehdr_p SIZEOF_EHDR st) (\<lambda>(st1, r, count).
     if r < 0 \<or> count \<noteq> SIZEOF_EHDR then ret (st1, 0)
     else
       let ehdr = read_ehdr (fs_bytes (xc_fs st1)) ehdr_p; phnum = unat (e_phnum ehdr); len = unat (e_phentsize ehdr) * phnum
       in if \<not> elf_check_compatibility ehdr \<or> e_type ehdr \<noteq> ET_EXEC then ret (st1, 0)
          else
            seq (on_sd cpu (proc_new (xe_sd env) cpu PROC_USER) st1) (\<lambda>(st2, proc).
            seq (check (len < 2 ^ 31) Undefined) (\<lambda>_.
            seq (now (fs_alloc (xe_fs env) (of_nat len) (xc_fs st2))) (\<lambda>(fs3, ph_table).
            seq (check (ph_table \<noteq> 0) NullDeref) (\<lambda>_.
            seq (xc_read file (e_phoff ehdr) ph_table (of_nat len) (st2\<lparr>xc_fs := fs3\<rparr>)) (\<lambda>(st4, _, _).
            seq (run_each (exec_segment env file (pr_addr_space (sd_proc (xc_sd st4) proc)) ph_table) [0..<phnum] st4) (\<lambda>st5.
            seq (on_sd cpu (thread_new (xe_sd env) proc (e_entry ehdr)) st5) (\<lambda>(st6, _).
            seq (now (fs_free (xe_fs env) ph_table (xc_fs st6))) (\<lambda>fs7.
            ret (st6\<lparr>xc_fs := fs7\<rparr>, proc))))))))))"

section \<open>The new process\<close>

lemma run_each_inv:
  "run_each f xs s = ret s' \<Longrightarrow> I s \<Longrightarrow> (\<And>s x t. I s \<Longrightarrow> f s x = ret t \<Longrightarrow> I t) \<Longrightarrow> I s'"
  by (induction xs arbitrary: s) (auto simp: seq_eq_ret)

lemma exec_segment_sd: "exec_segment env file as ph_table st i = ret st' \<Longrightarrow> xc_sd st' = xc_sd st"
  by (auto simp: exec_segment_def on_mem_def xc_read_def check_def Let_def seq_eq_ret split: if_splits)

text \<open>A file whose header is not that of a compatible executable creates no process.\<close>

lemma exec_load_refused:
  assumes "xc_read file 0 ehdr_p SIZEOF_EHDR st = ret (st1, r, count)" "r < 0 \<or> count \<noteq> SIZEOF_EHDR \<or>
    \<not> elf_check_compatibility (read_ehdr (fs_bytes (xc_fs st1)) ehdr_p) \<or> e_type (read_ehdr (fs_bytes (xc_fs st1)) ehdr_p) \<noteq> ET_EXEC"
  shows "exec_load env cpu ehdr_p file st = ret (st1, 0) \<and> xc_sd st1 = xc_sd st"
  using assms by (auto simp: exec_load_def xc_read_def seq_eq_ret Let_def)

lemma proc_new_result:
  assumes "proc_new env cpu t st = Inr (st', p)"
  shows "p \<noteq> 0 \<and> pr_threads (sd_proc st' p) = [] \<and> pr_type (sd_proc st' p) = t \<and> g_thread_list st' = g_thread_list st \<and>
    g_proc_list st' = g_proc_list st @ [p]"
  using assms by (auto simp: proc_new_def rbind_def set_proc_def set_int_def split: sum.splits prod.splits if_splits)

lemma thread_new_result:
  assumes "thread_new env proc start st = Inr (st', t)"
  shows "parent_proc (sd_thread st' t) = proc \<and> assigned_core (sd_thread st' t) = 0 \<and>
    pr_threads (sd_proc st' proc) = pr_threads (sd_proc st proc) @ [t] \<and> pr_type (sd_proc st' proc) = pr_type (sd_proc st proc) \<and>
    g_thread_list st' = g_thread_list st \<and> g_proc_list st' = g_proc_list st"
  using assms by (auto simp: thread_new_def assert_c_def rbind_def set_proc_def set_thread_def Let_def split: sum.splits prod.splits if_splits)

text \<open>A loaded program is a new user process with one thread, which no queue holds yet.\<close>

lemma exec_load_process:
  assumes "exec_load env cpu ehdr_p file st = ret (st', proc)" "proc \<noteq> 0"
  shows "\<exists>t. pr_threads (sd_proc (xc_sd st') proc) = [t] \<and> parent_proc (sd_thread (xc_sd st') t) = proc \<and>
    pr_type (sd_proc (xc_sd st') proc) = PROC_USER \<and> g_thread_list (xc_sd st') = g_thread_list (xc_sd st) \<and>
    g_proc_list (xc_sd st') = g_proc_list (xc_sd st) @ [proc]"
proof -
  from assms obtain st1 r count st2 st4 st5 st6 fs3 ph n5 n6 t where r: "xc_read file 0 ehdr_p SIZEOF_EHDR st = ret (st1, r, count)"
    and p: "on_sd cpu (proc_new (xe_sd env) cpu PROC_USER) st1 = ret (st2, proc)"
    and rd: "xc_read file n5 ph n6 (st2\<lparr>xc_fs := fs3\<rparr>) = ret st4"
    and seg: "run_each (exec_segment env file (pr_addr_space (sd_proc (xc_sd (fst st4)) proc)) ph)
        [0..<unat (e_phnum (read_ehdr (fs_bytes (xc_fs st1)) ehdr_p))] (fst st4) = ret st5"
    and th: "on_sd cpu (thread_new (xe_sd env) proc (e_entry (read_ehdr (fs_bytes (xc_fs st1)) ehdr_p))) st5 = ret (st6, t)"
    and st': "xc_sd st' = xc_sd st6"
    unfolding exec_load_def Let_def seq_eq_ret by (fastforce simp: seq_eq_ret check_def split: if_splits prod.splits)
  have "xc_sd (fst st4) = xc_sd st2" using rd by (cases st4) (auto simp: xc_read_def seq_eq_ret)
  then have s5: "xc_sd st5 = xc_sd st2"
    using run_each_inv [OF seg, of "\<lambda>s. xc_sd s = xc_sd st2"] exec_segment_sd by (metis (no_types))
  have s1: "xc_sd st1 = xc_sd st" using r by (auto simp: xc_read_def seq_eq_ret)
  show ?thesis
    using p th s5 s1 st' by (auto simp: on_sd_def seq_eq_ret set_int_def dest!: proc_new_result thread_new_result)
qed

end
