(* ===== verification/Asm.thy ===== *)
theory Asm
  imports Scalars
begin

text \<open>
  The assembly of \<^verbatim>\<open>kernel/src/arch/x86_64\<close>: the context switch (\<^verbatim>\<open>sched.asm\<close>), the entry of the system calls
  (\<^verbatim>\<open>syscall.asm\<close>), the first instructions of a user thread (\<^verbatim>\<open>userspace.S\<close>) and the entry of the interrupts
  (\<^verbatim>\<open>tables/idt.asm\<close>), as lists of instructions for the part of the processor they use.
\<close>

section \<open>The processor\<close>

datatype reg = RAX | RBX | RCX | RDX | RBP | RSI | RDI | RSP | R8 | R9 | R10 | R11 | R12 | R13 | R14 | R15

text \<open>\<open>c_if\<close> is the interrupt flag, \<open>c_df\<close> the direction flag, \<open>c_gs\<close> and \<open>c_kernel_gs\<close> are the two bases that \<^verbatim>\<open>swapgs\<close> exchanges.\<close>

record cpu =
  c_regs :: "reg \<Rightarrow> u64"
  c_mem :: bytes
  c_rip :: u64
  c_if :: bool
  c_df :: bool
  c_gs :: u64
  c_kernel_gs :: u64
  c_user :: bool

text \<open>A called C function is its effect from its first instruction to its return.\<close>

datatype instr =
    Push reg
  | PushImm u64
  | Pop reg
  | Mov reg reg
  | MovImm reg u64
  | Xor reg
  | Load reg reg u64
  | Store reg u64 reg
  | LoadGs reg u64
  | StoreGs u64 reg
  | Call "cpu \<Rightarrow> cpu"
  | Sti
  | Cli
  | Cld
  | AddRsp u64
  | Swapgs
  | SwapgsIfUser u64
  | Ret
  | Sysret
  | Iret

definition set_reg :: "reg \<Rightarrow> u64 \<Rightarrow> cpu \<Rightarrow> cpu" where
  "set_reg r v s = s\<lparr>c_regs := (c_regs s)(r := v)\<rparr>"

definition store :: "uptr \<Rightarrow> u64 \<Rightarrow> cpu \<Rightarrow> cpu" where
  "store p v s = s\<lparr>c_mem := put_u64 (c_mem s) p v\<rparr>"

definition load :: "uptr \<Rightarrow> cpu \<Rightarrow> u64" where
  "load p s = get_u64 (c_mem s) p"

text \<open>Whether a code segment selector has a privilege level of the user.\<close>

definition user_cs :: "u64 \<Rightarrow> bool" where
  "user_cs cs \<longleftrightarrow> cs AND 3 \<noteq> 0"

text \<open>
  \<open>SwapgsIfUser\<close> is the macro \<^verbatim>\<open>SWAPGS_CONDITIONAL\<close>, with the distance of the code segment on the stack.
  \<^verbatim>\<open>iretq\<close> pops the address, the code segment, the flags, the stack pointer and the stack segment.
  \<^verbatim>\<open>sysret\<close> takes the address from \<^verbatim>\<open>rcx\<close> and the flags from \<^verbatim>\<open>r11\<close>, whose bit 9 is the interrupt
  flag and whose bit 10 is the direction flag.
\<close>

fun step :: "instr \<Rightarrow> cpu \<Rightarrow> cpu" where
  "step (Push r) s = (let p = c_regs s RSP - 8 in set_reg RSP p (store p (c_regs s r) s))"
| "step (PushImm v) s = (let p = c_regs s RSP - 8 in set_reg RSP p (store p v s))"
| "step (Pop r) s = (let p = c_regs s RSP in set_reg r (load p s) (set_reg RSP (p + 8) s))"
| "step (Mov d r) s = set_reg d (c_regs s r) s"
| "step (MovImm d v) s = set_reg d v s"
| "step (Xor d) s = set_reg d 0 s"
| "step (Load d b off) s = set_reg d (load (c_regs s b + off) s) s"
| "step (Store b off r) s = store (c_regs s b + off) (c_regs s r) s"
| "step (LoadGs d off) s = set_reg d (load (c_gs s + off) s) s"
| "step (StoreGs off r) s = store (c_gs s + off) (c_regs s r) s"
| "step (Call f) s = f s"
| "step Sti s = s\<lparr>c_if := True\<rparr>"
| "step Cli s = s\<lparr>c_if := False\<rparr>"
| "step Cld s = s\<lparr>c_df := False\<rparr>"
| "step (AddRsp n) s = set_reg RSP (c_regs s RSP + n) s"
| "step Swapgs s = s\<lparr>c_gs := c_kernel_gs s, c_kernel_gs := c_gs s\<rparr>"
| "step (SwapgsIfUser off) s =
     (if user_cs (load (c_regs s RSP + off) s) then s\<lparr>c_gs := c_kernel_gs s, c_kernel_gs := c_gs s\<rparr> else s)"
| "step Ret s = (let p = c_regs s RSP in set_reg RSP (p + 8) (s\<lparr>c_rip := load p s\<rparr>))"
| "step Sysret s = s\<lparr>c_rip := c_regs s RCX, c_if := bit (c_regs s R11) 9, c_df := bit (c_regs s R11) 10, c_user := True\<rparr>"
| "step Iret s =
     (let p = c_regs s RSP; flags = load (p + 16) s
      in set_reg RSP (load (p + 24) s)
           (s\<lparr>c_rip := load p s, c_if := bit flags 9, c_df := bit flags 10, c_user := user_cs (load (p + 8) s)\<rparr>))"

definition run_code :: "instr list \<Rightarrow> cpu \<Rightarrow> cpu" where
  "run_code is s = fold step is s"

section \<open>The context switch\<close>

definition THREAD_RSP_OFFSET :: u64 where "THREAD_RSP_OFFSET = 8"

definition switch_regs :: "reg list" where
  "switch_regs = [RAX, RBX, RCX, RDX, RBP, RSI, RDI, R8, R9, R10, R11, R12, R13, R14, R15]"

text \<open>\<^verbatim>\<open>rdi\<close> and \<^verbatim>\<open>rsi\<close> are the contexts of the current and the next thread.\<close>

definition x86_64_sched_context_switch :: "(cpu \<Rightarrow> cpu) \<Rightarrow> instr list" where
  "x86_64_sched_context_switch sched_drop =
     map Push switch_regs @
     [Store RDI THREAD_RSP_OFFSET RSP, Load RSP RSI THREAD_RSP_OFFSET,
      Push RSI, Call sched_drop, Pop RSI] @
     map Pop (rev switch_regs) @
     [Sti, Ret]"

section \<open>System calls\<close>

definition KERNEL_STACK_OFFSET :: u64 where "KERNEL_STACK_OFFSET = 16"
definition USER_STACK_OFFSET :: u64 where "USER_STACK_OFFSET = 24"

definition syscall_regs :: "reg list" where
  "syscall_regs = [RBX, RCX, RBP, RSI, RDI, R8, R9, R10, R11, R12, R13, R14, R15]"

definition syscall_enter :: "instr list" where
  "syscall_enter = [Swapgs, StoreGs USER_STACK_OFFSET RSP, LoadGs RSP KERNEL_STACK_OFFSET] @ map Push syscall_regs"

definition syscall_leave :: "instr list" where
  "syscall_leave = map Pop (rev syscall_regs) @ [LoadGs RSP USER_STACK_OFFSET, Swapgs, Sysret]"

text \<open>
  The number in \<^verbatim>\<open>rax\<close> is compared as a signed number (\<^verbatim>\<open>jge\<close>).  \<open>table\<close> and \<open>table_length\<close> are the addresses of
  \<^verbatim>\<open>syscall_table\<close> and \<^verbatim>\<open>syscall_table_length\<close>; \<open>call f\<close> is the effect of the function at address \<open>f\<close>.
\<close>

definition arch_syscall_entry :: "uptr \<Rightarrow> uptr \<Rightarrow> (u64 \<Rightarrow> cpu \<Rightarrow> cpu) \<Rightarrow> cpu \<Rightarrow> cpu" where
  "arch_syscall_entry table table_length call s =
     (let s1 = run_code syscall_enter s; n = c_regs s1 RAX
      in run_code syscall_leave
           (if load table_length s1 \<le>s n then s1
            else
              let f = load (table + n * 8) s1; s2 = set_reg RAX f s1
              in if f = 0 then s2 else run_code [Mov RCX R10, Call (call f)] s2))"

section \<open>The first instructions of a user thread\<close>

definition x86_64_thread_userspace_init :: "instr list" where
  "x86_64_thread_userspace_init =
     [Pop RCX, Cli, Swapgs, Pop RAX, Mov RSP RAX] @
     map Xor [RBP, RAX, RBX, RDX, RSI, RDI, R8, R9, R10, R12, R13, R14, R15] @
     [MovImm R11 (push_bit 9 1 OR push_bit 1 1), Sysret]"

section \<open>Interrupts\<close>

definition isr_stub :: "(cpu \<Rightarrow> cpu) \<Rightarrow> instr list" where
  "isr_stub arch_int_handler =
     [Cld, SwapgsIfUser 24] @
     map Push switch_regs @
     [Xor RBP, Mov RDI RSP, Call arch_int_handler] @
     map Pop (rev switch_regs) @
     [SwapgsIfUser 24, AddRsp 16, Iret]"

text \<open>The interrupts for which the processor pushes an error code.\<close>

definition isr_error_codes :: "nat list" where
  "isr_error_codes = [8, 10, 11, 12, 13, 14, 17, 21, 24, 28, 29, 30]"

definition isr :: "(cpu \<Rightarrow> cpu) \<Rightarrow> nat \<Rightarrow> instr list" where
  "isr arch_int_handler n =
     (if n \<in> set isr_error_codes then [] else [PushImm 0]) @ [PushImm (of_nat n)] @ isr_stub arch_int_handler"

definition arch_int_stub_table :: "(cpu \<Rightarrow> cpu) \<Rightarrow> instr list list" where
  "arch_int_stub_table arch_int_handler = map (isr arch_int_handler) [0..<256]"

end
