(* ===== verification/Asm_Correct.thy ===== *)
theory Asm_Correct
  imports Asm
begin

text \<open>
  A thread that was switched away continues with all its registers, and the entry of the system calls
  does not keep the number of the call within the table.
\<close>

section \<open>Sequences of pushes and pops\<close>

lemma run_code_simps [simp]:
  "run_code [] s = s" "run_code (i # is) s = run_code is (step i s)" "run_code (xs @ ys) s = run_code ys (run_code xs s)"
  by (simp_all add: run_code_def)

lemma set_reg_simps [simp]:
  "c_regs (set_reg r v s) = (c_regs s)(r := v)" "c_mem (set_reg r v s) = c_mem s" "c_regs (store p v s) = c_regs s"
  "c_mem (store p v s) = put_u64 (c_mem s) p v" "c_gs (set_reg r v s) = c_gs s" "c_gs (store p v s) = c_gs s"
  "c_kernel_gs (set_reg r v s) = c_kernel_gs s" "c_kernel_gs (store p v s) = c_kernel_gs s"
  by (simp_all add: set_reg_def store_def)

lemma run_push:
  assumes "RSP \<notin> set rs" "8 * length rs \<le> 2 ^ 64"
  shows "\<exists>m. run_code (map Push rs) s = s\<lparr>c_regs := (c_regs s)(RSP := c_regs s RSP - 8 * of_nat (length rs)), c_mem := m\<rparr> \<and>
    words_at m (c_regs s RSP - 8 * of_nat (length rs)) (map (c_regs s) (rev rs)) \<and>
    (\<forall>x. x \<notin> block (c_regs s RSP - 8 * of_nat (length rs)) (8 * length rs) \<longrightarrow> m x = c_mem s x)"
  using assms
proof (induction rs arbitrary: s)
  case Nil
  then show ?case by (intro exI [of _ "c_mem s"]) simp
next
  case (Cons r rs)
  let ?s1 = "s\<lparr>c_regs := (c_regs s)(RSP := c_regs s RSP - 8), c_mem := put_u64 (c_mem s) (c_regs s RSP - 8) (c_regs s r)\<rparr>"
  let ?p = "c_regs s RSP - 8 * of_nat (length (r # rs))"
  have s1: "step (Push r) s = ?s1" by (simp add: Let_def set_reg_def store_def)
  have p: "c_regs ?s1 RSP - 8 * of_nat (length rs) = ?p" "c_regs s RSP - 8 = ?p + of_nat (8 * length rs)"
    by (simp_all add: algebra_simps)
  have "RSP \<notin> set rs" "8 * length rs \<le> 2 ^ 64" using Cons.prems by auto
  from Cons.IH [of ?s1, OF this, unfolded p(1)] obtain m where m:
    "run_code (map Push rs) ?s1 = ?s1\<lparr>c_regs := (c_regs ?s1)(RSP := ?p), c_mem := m\<rparr>"
    "words_at m ?p (map (c_regs ?s1) (rev rs))" "\<forall>x. x \<notin> block ?p (8 * length rs) \<longrightarrow> m x = c_mem ?s1 x"
    by (elim exE conjE) (rule that)
  have "block ?p (8 * length rs) \<inter> block (c_regs s RSP - 8) 8 = {}"
    unfolding p(2) by (rule block_next) (use Cons.prems in simp)
  then have "get_u64 m (c_regs s RSP - 8) = get_u64 (c_mem ?s1) (c_regs s RSP - 8)" using m(3) by (intro get_u64_agree) blast
  then have w: "get_u64 m (?p + of_nat (8 * length rs)) = c_regs s r" unfolding p(2) [symmetric] by simp
  have "map (c_regs ?s1) (rev rs) = map (c_regs s) (rev rs)" using Cons.prems by auto
  from m(2) [unfolded this] have "words_at m ?p (map (c_regs s) (rev (r # rs)))" using w by (simp add: words_at_append)
  moreover have "m x = c_mem s x" if "x \<notin> block ?p (8 * length (r # rs))" for x
  proof -
    have "x \<notin> block ?p (8 * length rs)" "x \<notin> block (c_regs s RSP - 8) 8"
      using that block_mono [of 0 "8 * length rs" "8 * length (r # rs)" ?p] block_mono [of "8 * length rs" 8 "8 * length (r # rs)" ?p]
      unfolding p(2) by auto
    then show ?thesis using m(3) put_u64_block by simp
  qed
  moreover have "?s1\<lparr>c_regs := (c_regs ?s1)(RSP := ?p), c_mem := m\<rparr> = s\<lparr>c_regs := (c_regs s)(RSP := ?p), c_mem := m\<rparr>" by simp
  then have "run_code (map Push (r # rs)) s = s\<lparr>c_regs := (c_regs s)(RSP := ?p), c_mem := m\<rparr>"
    using m(1) s1 by (simp only: list.map run_code_simps)
  ultimately show ?case by (intro exI [of _ m]) blast
qed

text \<open>The registers after popping \<open>vs\<close> into \<open>rs\<close>.\<close>

definition popped :: "reg list \<Rightarrow> u64 list \<Rightarrow> (reg \<Rightarrow> u64) \<Rightarrow> reg \<Rightarrow> u64" where
  "popped rs vs g r =
     (if r = RSP then g RSP + 8 * of_nat (length rs) else case map_of (zip rs vs) r of None \<Rightarrow> g r | Some v \<Rightarrow> v)"

lemma run_pop:
  assumes "RSP \<notin> set rs" "distinct rs" "words_at (c_mem s) (c_regs s RSP) vs" "length vs = length rs"
  shows "run_code (map Pop rs) s = s\<lparr>c_regs := popped rs vs (c_regs s)\<rparr>"
  using assms
proof (induction rs arbitrary: s vs)
  case Nil
  then show ?case by (simp add: popped_def fun_eq_iff cong: if_cong)
next
  case (Cons r rs)
  then obtain v ws where vs: "vs = v # ws" by (cases vs) auto
  let ?s1 = "s\<lparr>c_regs := (c_regs s)(RSP := c_regs s RSP + 8, r := v)\<rparr>"
  have s1: "step (Pop r) s = ?s1" using Cons.prems vs by (simp add: load_def set_reg_def Let_def)
  have "run_code (map Pop rs) ?s1 = ?s1\<lparr>c_regs := popped rs ws (c_regs ?s1)\<rparr>"
    using Cons.prems vs by (intro Cons.IH) simp_all
  moreover have "popped rs ws (c_regs ?s1) = popped (r # rs) vs (c_regs s)"
  proof
    fix q
    have "map_of (zip rs ws) r = None" using Cons.prems(2) by (auto simp: map_of_eq_None_iff dest: set_zip_leftD)
    then show "popped rs ws (c_regs ?s1) q = popped (r # rs) vs (c_regs s) q"
      using Cons.prems(1) by (auto simp: popped_def vs algebra_simps split: option.split)
  qed
  ultimately show ?case using s1 by simp
qed

lemma popped_map:
  assumes "distinct rs" "r \<in> set rs" "r \<noteq> RSP"
  shows "popped rs (map f rs) g r = f r"
proof -
  have "map_of (zip rs (map f rs)) r = Some (f r)" using assms by (simp add: map_of_zip_map)
  then show ?thesis using assms by (simp add: popped_def)
qed

text \<open>A processor with zeroes in memory.\<close>

lemma get_u64_zero [simp]: "get_u64 (\<lambda>_. 0) p = 0"
  by (simp add: get_u64_def bytes_at_def map_replicate_const numeral_eq_Suc)

lemma words_at_const: "words_at (\<lambda>_. 0) p (replicate n 0)"
  by (induction n arbitrary: p) simp_all

definition zero_cpu :: "(reg \<Rightarrow> u64) \<Rightarrow> bytes \<Rightarrow> cpu" where
  "zero_cpu g m = \<lparr>c_regs = g, c_mem = m, c_rip = 0, c_if = False, c_df = False, c_gs = 0x100, c_kernel_gs = 0x1000, c_user = False\<rparr>"

section \<open>The context switch\<close>

text \<open>The context at \<open>a\<close> holds a suspended thread with these registers, which returns to \<open>ret\<close>.\<close>

definition suspended :: "bytes \<Rightarrow> uptr \<Rightarrow> (reg \<Rightarrow> u64) \<Rightarrow> u64 \<Rightarrow> bool" where
  "suspended m a g ret \<longleftrightarrow> words_at m (get_u64 m (a + THREAD_RSP_OFFSET)) (map g (rev switch_regs) @ [ret])"

text \<open>
  What is relied on in \<^verbatim>\<open>sched_drop\<close>: it returns with the stack pointer it was called with and does not write into the frames
  of its callers.
\<close>

definition keeps_frame :: "(cpu \<Rightarrow> cpu) \<Rightarrow> nat \<Rightarrow> bool" where
  "keeps_frame f n \<longleftrightarrow> (\<forall>s. c_regs (f s) RSP = c_regs s RSP \<and> (\<forall>x \<in> block (c_regs s RSP) n. c_mem (f s) x = c_mem s x))"

lemma switch_regs: "RSP \<notin> set switch_regs" "distinct switch_regs" "length switch_regs = 15" "r = RSP \<or> r \<in> set switch_regs"
  by (cases r; simp add: switch_regs_def)+

text \<open>The first half: the registers are on the stack and the context points there.\<close>

lemma switch_save:
  assumes "block (c_regs s RDI + 8) 8 \<inter> block (c_regs s RSP - 120) 128 = {}"
  shows "\<exists>m. run_code (map Push switch_regs @ [Store RDI THREAD_RSP_OFFSET RSP]) s =
      s\<lparr>c_regs := (c_regs s)(RSP := c_regs s RSP - 120), c_mem := m\<rparr> \<and>
    suspended m (c_regs s RDI) (c_regs s) (load (c_regs s RSP) s) \<and> get_u64 m (c_regs s RDI + 8) = c_regs s RSP - 120 \<and>
    (\<forall>x. x \<notin> block (c_regs s RSP - 120) 120 \<and> x \<notin> block (c_regs s RDI + 8) 8 \<longrightarrow> m x = c_mem s x)"
proof -
  let ?p = "c_regs s RSP - 120" and ?a = "c_regs s RDI + 8"
  from run_push [OF switch_regs(1), of s] obtain m where m:
    "run_code (map Push switch_regs) s = s\<lparr>c_regs := (c_regs s)(RSP := ?p), c_mem := m\<rparr>"
    "words_at m ?p (map (c_regs s) (rev switch_regs))" "\<forall>x. x \<notin> block ?p 120 \<longrightarrow> m x = c_mem s x"
    by (auto simp: switch_regs)
  let ?m = "put_u64 m ?a ?p"
  have sp: "c_regs s RSP = ?p + of_nat 120" by simp
  have "block ?p 120 \<inter> block (c_regs s RSP) 8 = {}" by (subst sp, rule block_next) simp
  then have "get_u64 m (c_regs s RSP) = load (c_regs s RSP) s"
    unfolding load_def using m(3) by (intro get_u64_agree) blast
  then have "words_at m ?p (map (c_regs s) (rev switch_regs) @ [load (c_regs s RSP) s])"
    using m(2) by (simp add: words_at_append switch_regs)
  moreover have "?m x = m x" if "x \<in> block ?p 128" for x
    using that assms by (intro put_u64_block) blast
  ultimately have "words_at ?m ?p (map (c_regs s) (rev switch_regs) @ [load (c_regs s RSP) s])"
    by (subst words_at_agree [of _ _ _ m]) (simp_all add: switch_regs)
  then show ?thesis
    using m by (intro exI [of _ ?m]) (auto simp: suspended_def THREAD_RSP_OFFSET_def store_def put_u64_block)
qed

text \<open>The second half, from the load of the stack pointer on.\<close>

lemma switch_resume:
  assumes "suspended (c_mem s) (c_regs s RSI) g ret" "keeps_frame dr 136"
  defines "q \<equiv> get_u64 (c_mem s) (c_regs s RSI + 8)"
  shows "\<exists>s'. run_code ([Load RSP RSI THREAD_RSP_OFFSET, Push RSI, Call dr, Pop RSI] @ map Pop (rev switch_regs) @ [Sti, Ret]) s = s' \<and>
    c_regs s' = g(RSP := q + 128) \<and> c_rip s' = ret \<and> c_if s' \<and>
    c_mem s' = c_mem (dr (s\<lparr>c_regs := (c_regs s)(RSP := q - 8), c_mem := put_u64 (c_mem s) (q - 8) (c_regs s RSI)\<rparr>))"
proof -
  let ?s1 = "s\<lparr>c_regs := (c_regs s)(RSP := q - 8), c_mem := put_u64 (c_mem s) (q - 8) (c_regs s RSI)\<rparr>"
  let ?s2 = "dr ?s1" and ?vs = "map g (rev switch_regs)"
  have q: "q = q - 8 + of_nat 8" by simp
  have dis: "block (q - 8) 8 \<inter> block q 128 = {}" using block_next [of 8 128 "q - 8"] by simp
  have sub: "block q 128 \<subseteq> block (q - 8) 136" using block_mono [of 8 128 136 "q - 8"] by simp
  have d: "c_regs ?s2 RSP = q - 8" "\<And>x. x \<in> block (q - 8) 136 \<Longrightarrow> c_mem ?s2 x = c_mem ?s1 x"
    using assms(2) by (simp_all add: keeps_frame_def)
  have "c_mem ?s2 x = c_mem s x" if "x \<in> block q 128" for x
  proof -
    have "x \<in> block (q - 8) 136" "x \<notin> block (q - 8) 8" using that sub dis by auto
    then show ?thesis using d(2) by (simp add: put_u64_block)
  qed
  then have w: "words_at (c_mem ?s2) q (?vs @ [ret])"
    using assms(1) by (subst words_at_agree [of _ _ _ "c_mem s"]) (simp_all add: suspended_def THREAD_RSP_OFFSET_def q_def switch_regs)
  obtain s3 where s3: "step (Pop RSI) ?s2 = s3" "c_regs s3 RSP = q" "c_mem s3 = c_mem ?s2"
    by (simp add: d Let_def)
  have "words_at (c_mem s3) (c_regs s3 RSP) ?vs" using w by (simp add: s3 words_at_append)
  then have pops: "run_code (map Pop (rev switch_regs)) s3 = s3\<lparr>c_regs := popped (rev switch_regs) ?vs (c_regs s3)\<rparr>"
    using switch_regs by (intro run_pop) simp_all
  have "popped (rev switch_regs) ?vs (c_regs s3) r = (g(RSP := q + 120)) r" for r
    using popped_map [of "rev switch_regs" r g "c_regs s3"] switch_regs(1-3) switch_regs(4) [of r]
    by (cases "r = RSP") (auto simp: popped_def [of _ _ _ RSP] s3)
  then have regs: "popped (rev switch_regs) ?vs (c_regs s3) = g(RSP := q + 120)" by blast
  have r: "get_u64 (c_mem ?s2) (q + 120) = ret" using w by (simp add: words_at_append switch_regs)
  have "step (Load RSP RSI THREAD_RSP_OFFSET) s = s\<lparr>c_regs := (c_regs s)(RSP := q)\<rparr>"
    by (simp add: load_def THREAD_RSP_OFFSET_def q_def set_reg_def)
  moreover have "step (Push RSI) (s\<lparr>c_regs := (c_regs s)(RSP := q)\<rparr>) = ?s1" by (simp add: set_reg_def store_def Let_def)
  ultimately have "run_code [Load RSP RSI THREAD_RSP_OFFSET, Push RSI, Call dr, Pop RSI] s = s3"
    using s3(1) by (simp del: step.simps(1,3,7))
  then have "run_code ([Load RSP RSI THREAD_RSP_OFFSET, Push RSI, Call dr, Pop RSI] @ map Pop (rev switch_regs) @ [Sti, Ret]) s =
      run_code [Sti, Ret] (s3\<lparr>c_regs := g(RSP := q + 120)\<rparr>)"
    using pops regs by (simp only: run_code_simps(3))
  also have "\<dots> = s3\<lparr>c_regs := g(RSP := q + 128), c_rip := ret, c_if := True\<rparr>"
    using r s3(3) by (simp add: Let_def set_reg_def load_def add.commute)
  finally show ?thesis using s3(3) by simp
qed

lemma context_switch_run:
  "run_code (x86_64_sched_context_switch dr) s =
    run_code ([Load RSP RSI THREAD_RSP_OFFSET, Push RSI, Call dr, Pop RSI] @ map Pop (rev switch_regs) @ [Sti, Ret])
      (run_code (map Push switch_regs @ [Store RDI THREAD_RSP_OFFSET RSP]) s)"
  by (simp only: x86_64_sched_context_switch_def run_code_simps append.simps)

text \<open>
  A switch to a suspended thread whose frame is not where the registers of the current thread go, in
  the three statements a client needs: what runs, what is suspended, and what stays in memory.
\<close>

definition switch_ok :: "cpu \<Rightarrow> bool" where
  "switch_ok s \<longleftrightarrow>
     (let own = block (c_regs s RSP - 120) 128; ctx = block (c_regs s RDI + 8) 8;
          q = get_u64 (c_mem s) (c_regs s RSI + 8); other = block (q - 8) 136 \<union> block (c_regs s RSI + 8) 8
      in own \<inter> ctx = {} \<and> own \<inter> other = {} \<and> ctx \<inter> other = {})"

definition keeps_suspended :: "(cpu \<Rightarrow> cpu) \<Rightarrow> cpu \<Rightarrow> bool" where
  "keeps_suspended dr s \<longleftrightarrow>
     (\<forall>t. \<forall>x \<in> block (c_regs s RSP - 120) 128 \<union> block (c_regs s RDI + 8) 8. c_mem (dr t) x = c_mem t x)"

lemma context_switch:
  assumes "switch_ok s" "keeps_frame dr 136" "suspended (c_mem s) (c_regs s RSI) g ret"
  shows "\<exists>s'. run_code (x86_64_sched_context_switch dr) s = s' \<and>
    c_regs s' = g(RSP := get_u64 (c_mem s) (c_regs s RSI + 8) + 128) \<and> c_rip s' = ret \<and> c_if s' \<and>
    (keeps_suspended dr s \<longrightarrow> suspended (c_mem s') (c_regs s RDI) (c_regs s) (load (c_regs s RSP) s) \<and>
       get_u64 (c_mem s') (c_regs s RDI + 8) = c_regs s RSP - 120) \<and>
    (\<exists>t. c_mem s' = c_mem (dr t) \<and> c_regs t RSP = get_u64 (c_mem s) (c_regs s RSI + 8) - 8 \<and>
       (\<forall>x. x \<notin> block (c_regs s RSP - 120) 128 \<union> block (c_regs s RDI + 8) 8 \<union> block (c_regs t RSP) 8 \<longrightarrow> c_mem t x = c_mem s x))"
proof -
  let ?q = "get_u64 (c_mem s) (c_regs s RSI + 8)" and ?own = "block (c_regs s RSP - 120) 128" and ?ctx = "block (c_regs s RDI + 8) 8"
  have ok: "?own \<inter> ?ctx = {}" "?own \<inter> block (?q - 8) 136 = {}" "?own \<inter> block (c_regs s RSI + 8) 8 = {}"
    "?ctx \<inter> block (?q - 8) 136 = {}" "?ctx \<inter> block (c_regs s RSI + 8) 8 = {}"
    using assms(1) by (auto simp: switch_ok_def Let_def)
  have sub: "block ?q 128 \<subseteq> block (?q - 8) 136" "block (c_regs s RSP - 120) 120 \<subseteq> ?own" "block (?q - 8) 8 \<subseteq> block (?q - 8) 136"
    using block_mono [of 8 128 136 "?q - 8"] block_mono [of 0 120 128 "c_regs s RSP - 120"] block_mono [of 0 8 136 "?q - 8"] by simp_all
  obtain m where m: "run_code (map Push switch_regs @ [Store RDI THREAD_RSP_OFFSET RSP]) s =
      s\<lparr>c_regs := (c_regs s)(RSP := c_regs s RSP - 120), c_mem := m\<rparr>"
    "suspended m (c_regs s RDI) (c_regs s) (load (c_regs s RSP) s)" "get_u64 m (c_regs s RDI + 8) = c_regs s RSP - 120"
    "\<forall>x. x \<notin> block (c_regs s RSP - 120) 120 \<and> x \<notin> ?ctx \<longrightarrow> m x = c_mem s x"
    using switch_save [of s] ok(1) by (metis Int_commute)
  let ?s1 = "s\<lparr>c_regs := (c_regs s)(RSP := c_regs s RSP - 120), c_mem := m\<rparr>"
  have q: "get_u64 m (c_regs s RSI + 8) = ?q" using m(4) ok(3,5) sub(2) by (intro get_u64_agree) blast
  have "m x = c_mem s x" if "x \<in> block ?q 128" for x using m(4) ok(2,4) sub(1,2) that by blast
  then have "words_at m ?q (map g (rev switch_regs) @ [ret]) = words_at (c_mem s) ?q (map g (rev switch_regs) @ [ret])"
    by (intro words_at_agree) (simp add: switch_regs)
  then have s1: "suspended (c_mem ?s1) (c_regs ?s1 RSI) g ret"
    using assms(3) q by (simp add: suspended_def THREAD_RSP_OFFSET_def)
  let ?t = "?s1\<lparr>c_regs := (c_regs ?s1)(RSP := ?q - 8), c_mem := put_u64 m (?q - 8) (c_regs s RSI)\<rparr>"
  obtain s' where s': "run_code (x86_64_sched_context_switch dr) s = s'" "c_regs s' = g(RSP := ?q + 128)" "c_rip s' = ret" "c_if s'"
    "c_mem s' = c_mem (dr ?t)"
    using switch_resume [OF s1 assms(2)] q unfolding context_switch_run m(1) by auto
  have keep: "c_mem s' x = m x" if "keeps_suspended dr s" "x \<in> ?own \<union> ?ctx" for x
  proof -
    have "x \<notin> block (?q - 8) 8" using that(2) ok(2,4) sub(3) by auto
    moreover have "c_mem (dr ?t) x = c_mem ?t x" using that by (auto simp: keeps_suspended_def)
    ultimately show ?thesis unfolding s'(5) by (simp add: put_u64_block)
  qed
  have "suspended (c_mem s') (c_regs s RDI) (c_regs s) (load (c_regs s RSP) s) \<and> get_u64 (c_mem s') (c_regs s RDI + 8) = c_regs s RSP - 120"
    if k: "keeps_suspended dr s"
  proof -
    have g: "get_u64 (c_mem s') (c_regs s RDI + 8) = c_regs s RSP - 120"
      using keep [OF k] m(3) get_u64_agree [of "c_regs s RDI + 8" "c_mem s'" m] by simp
    have "words_at (c_mem s') (c_regs s RSP - 120) (map (c_regs s) (rev switch_regs) @ [load (c_regs s RSP) s]) =
        words_at m (c_regs s RSP - 120) (map (c_regs s) (rev switch_regs) @ [load (c_regs s RSP) s])"
      using keep [OF k] by (intro words_at_agree) (simp add: switch_regs)
    then show ?thesis using g m(2,3) by (simp add: suspended_def THREAD_RSP_OFFSET_def)
  qed
  moreover have "c_mem ?t x = c_mem s x" if "x \<notin> ?own \<union> ?ctx \<union> block (c_regs ?t RSP) 8" for x
    using that m(4) sub(2) by (auto simp: put_u64_block)
  ultimately show ?thesis using s' by (intro exI [of _ s'] conjI impI exI [of _ ?t]) auto
qed

text \<open>C16: a thread resumes where it was suspended: when the current thread switches away and later, in any state
  that still has its stack frame and its saved stack pointer, another thread switches back to it, then
  it has all its registers again, its stack pointer is that after the return, and it continues behind the call
  with interrupts unmasked.\<close>

theorem context_switch_resumes:
  assumes "switch_ok s" "keeps_frame dr 136" "suspended (c_mem s) (c_regs s RSI) g ret" "keeps_suspended dr s"
    and "run_code (x86_64_sched_context_switch dr) s = s1"
    and "\<forall>x \<in> block (c_regs s RSP - 120) 128 \<union> block (c_regs s RDI + 8) 8. c_mem t x = c_mem s1 x"
    and "switch_ok t" "c_regs t RSI = c_regs s RDI" "keeps_frame dr' 136"
  shows "\<exists>t'. run_code (x86_64_sched_context_switch dr') t = t' \<and> c_regs t' = (c_regs s)(RSP := c_regs s RSP + 8) \<and>
    c_rip t' = load (c_regs s RSP) s \<and> c_if t'"
proof -
  let ?a = "c_regs s RDI" and ?p = "c_regs s RSP - 120"
  have s1: "suspended (c_mem s1) ?a (c_regs s) (load (c_regs s RSP) s)" "get_u64 (c_mem s1) (?a + 8) = ?p"
    using context_switch [OF assms(1-3)] assms(4,5) by auto
  have g: "get_u64 (c_mem t) (?a + 8) = ?p" using assms(6) s1(2) get_u64_agree [of "?a + 8" "c_mem t" "c_mem s1"] by simp
  have "words_at (c_mem t) ?p (map (c_regs s) (rev switch_regs) @ [load (c_regs s RSP) s]) =
      words_at (c_mem s1) ?p (map (c_regs s) (rev switch_regs) @ [load (c_regs s RSP) s])"
    using assms(6) by (intro words_at_agree) (simp add: switch_regs)
  then have "suspended (c_mem t) (c_regs t RSI) (c_regs s) (load (c_regs s RSP) s)"
    using s1 g assms(8) by (simp add: suspended_def THREAD_RSP_OFFSET_def)
  from context_switch [OF assms(7,9) this] show ?thesis using g assms(8) by (simp add: add.commute)
qed

text \<open>The current thread has its context at \<^verbatim>\<open>0x1000\<close>, the other one at \<^verbatim>\<open>0x2000\<close> and its frame at \<^verbatim>\<open>0x8000\<close>.\<close>

definition switch_example :: cpu where
  "switch_example = zero_cpu ((\<lambda>_. 7)(RSP := 0x5000, RDI := 0x1000, RSI := 0x2000)) (put_u64 (\<lambda>_. 0) 0x2008 0x8000)"

lemma switch_example_ok:
  "switch_ok switch_example" "suspended (c_mem switch_example) (c_regs switch_example RSI) (\<lambda>_. 0) 0"
proof -
  have "words_at (put_u64 (\<lambda>_. 0) 0x2008 0x8000) 0x8000 (replicate 16 0) = words_at (\<lambda>_. 0) 0x8000 (replicate 16 0)"
    by (rule words_at_agree, rule put_u64_block) (use block_disjoint [of "0x2008" 8 "0x8000" 128] in auto)
  then have "words_at (put_u64 (\<lambda>_. 0) 0x2008 0x8000) 0x8000 (replicate 16 0)" by (simp only: words_at_const)
  moreover have "map (\<lambda>_. 0) (rev switch_regs) @ [0] = (replicate 16 0 :: u64 list)" by (simp add: switch_regs_def numeral_eq_Suc)
  ultimately show "suspended (c_mem switch_example) (c_regs switch_example RSI) (\<lambda>_. 0) 0"
    by (simp only: suspended_def) (simp add: switch_example_def zero_cpu_def THREAD_RSP_OFFSET_def)
  show "switch_ok switch_example"
    using block_disjoint [of "0x1008" 8 "0x4F88" 128] block_disjoint [of "0x4F88" 128 "0x7FF8" 136] block_disjoint [of "0x2008" 8 "0x4F88" 128]
      block_disjoint [of "0x1008" 8 "0x7FF8" 136] block_disjoint [of "0x1008" 8 "0x2008" 8]
    by (simp add: switch_ok_def Let_def switch_example_def zero_cpu_def Int_Un_distrib)
qed

theorem context_switch_resumes_witness:
  "let s1 = run_code (x86_64_sched_context_switch id) switch_example;
       t = s1\<lparr>c_regs := (\<lambda>_. 9)(RSP := 0x9000, RDI := 0x2000, RSI := 0x1000)\<rparr>;
       t' = run_code (x86_64_sched_context_switch id) t
   in c_regs t' = (c_regs switch_example)(RSP := 0x5008)"
proof -
  define s1 where "s1 = run_code (x86_64_sched_context_switch id) switch_example"
  define t where "t = s1\<lparr>c_regs := (\<lambda>_. 9)(RSP := 0x9000, RDI := 0x2000, RSI := 0x1000)\<rparr>"
  have regs: "c_regs switch_example RSP = 0x5000" "c_regs switch_example RDI = 0x1000" "c_regs switch_example RSI = 0x2000"
    by (simp_all add: switch_example_def zero_cpu_def)
  have id: "keeps_frame id 136" "keeps_suspended id switch_example" by (simp_all add: keeps_frame_def keeps_suspended_def)
  have "get_u64 (c_mem s1) 0x1008 = 0x4F88"
    using context_switch [OF switch_example_ok(1) id(1) switch_example_ok(2)] id(2) by (simp add: s1_def regs)
  then have "switch_ok t"
    using block_disjoint [of "0x2008" 8 "0x8F88" 128] block_disjoint [of "0x4F80" 136 "0x8F88" 128] block_disjoint [of "0x1008" 8 "0x8F88" 128]
      block_disjoint [of "0x2008" 8 "0x4F80" 136] block_disjoint [of "0x1008" 8 "0x2008" 8]
    by (simp add: switch_ok_def Let_def t_def Int_Un_distrib)
  from context_switch_resumes [OF switch_example_ok(1) id(1) switch_example_ok(2) id(2) s1_def [symmetric] _ this _ id(1)]
  show ?thesis by (simp add: s1_def [symmetric] t_def regs Let_def)
qed

section \<open>System calls\<close>

text \<open>Words of 64 bits as signed numbers.\<close>

lemma sint_small_u64:
  assumes "unat (w :: u64) < 2 ^ 63"
  shows "sint w = int (unat w)"
proof -
  have "int (unat w) < int (2 ^ 63)" using assms by (simp only: of_nat_less_iff)
  then have "int (unat w) < 2 ^ 63" by (simp only: of_nat_power of_nat_numeral)
  then have "signed_take_bit 63 (int (unat w)) = int (unat w)" by (intro signed_take_bit_int_eq_self) linarith+
  moreover have "sint w = signed_take_bit 63 (uint w)" by (simp add: sint_uint)
  ultimately show ?thesis by (simp only: uint_nat)
qed

lemma sint_neg_u64:
  assumes "2 ^ 63 \<le> unat (w :: u64)"
  shows "sint w < 0"
proof -
  have "unat w div 2 ^ 63 = 1" using assms u64_bound [of w] by (intro div_nat_eqI) simp_all
  then have "bit (unat w) 63" by (simp add: bit_iff_odd)
  then have "bit w (LENGTH(64) - Suc 0)" by (simp add: bit_unsigned_iff)
  then show ?thesis by (simp only: bit_last_iff)
qed

lemma syscall_regs: "RSP \<notin> set syscall_regs" "distinct syscall_regs" "length syscall_regs = 13"
  by (simp_all add: syscall_regs_def)

text \<open>
  Where the entry writes: the kernel stack of the thread and the place of the user's stack pointer.  The
  stack pointer is found through the base that \<^verbatim>\<open>swapgs\<close> brings.
\<close>

definition kernel_stack_of :: "cpu \<Rightarrow> u64" where
  "kernel_stack_of s = get_u64 (c_mem s) (c_kernel_gs s + KERNEL_STACK_OFFSET)"

definition entry_stack :: "cpu \<Rightarrow> uptr set" where
  "entry_stack s = block (kernel_stack_of s - 104) 104"

definition entry_slot :: "cpu \<Rightarrow> uptr set" where
  "entry_slot s = block (c_kernel_gs s + USER_STACK_OFFSET) 8"

lemma syscall_enter_run:
  assumes "entry_stack s \<inter> entry_slot s = {}"
  shows "\<exists>m. run_code syscall_enter s =
      s\<lparr>c_regs := (c_regs s)(RSP := kernel_stack_of s - 104), c_mem := m, c_gs := c_kernel_gs s, c_kernel_gs := c_gs s\<rparr> \<and>
    words_at m (kernel_stack_of s - 104) (map (c_regs s) (rev syscall_regs)) \<and>
    get_u64 m (c_kernel_gs s + USER_STACK_OFFSET) = c_regs s RSP \<and> (\<forall>x. x \<notin> entry_stack s \<union> entry_slot s \<longrightarrow> m x = c_mem s x)"
proof -
  let ?k = "c_kernel_gs s" and ?ks = "kernel_stack_of s"
  let ?m1 = "put_u64 (c_mem s) (?k + USER_STACK_OFFSET) (c_regs s RSP)"
  let ?s1 = "s\<lparr>c_regs := (c_regs s)(RSP := ?ks), c_mem := ?m1, c_gs := ?k, c_kernel_gs := c_gs s\<rparr>"
  have "get_u64 ?m1 (?k + KERNEL_STACK_OFFSET) = ?ks"
    unfolding kernel_stack_of_def by (rule get_put_u64_other) (simp_all add: KERNEL_STACK_OFFSET_def USER_STACK_OFFSET_def)
  then have s1: "run_code [Swapgs, StoreGs USER_STACK_OFFSET RSP, LoadGs RSP KERNEL_STACK_OFFSET] s = ?s1"
    by (simp add: set_reg_def store_def load_def)
  obtain m where m: "run_code (map Push syscall_regs) ?s1 = ?s1\<lparr>c_regs := (c_regs ?s1)(RSP := ?ks - 104), c_mem := m\<rparr>"
    "words_at m (?ks - 104) (map (c_regs ?s1) (rev syscall_regs))" "\<forall>x. x \<notin> entry_stack s \<longrightarrow> m x = ?m1 x"
    using run_push [OF syscall_regs(1), of ?s1] by (auto simp: syscall_regs entry_stack_def)
  have regs: "map (c_regs ?s1) (rev syscall_regs) = map (c_regs s) (rev syscall_regs)" using syscall_regs(1) by auto
  have "get_u64 m (?k + USER_STACK_OFFSET) = get_u64 ?m1 (?k + USER_STACK_OFFSET)"
    using m(3) assms by (intro get_u64_agree) (auto simp: entry_slot_def)
  moreover have "m x = c_mem s x" if "x \<notin> entry_stack s \<union> entry_slot s" for x
    using that m(3) by (simp add: entry_slot_def put_u64_block)
  moreover have "run_code syscall_enter s = ?s1\<lparr>c_regs := (c_regs ?s1)(RSP := ?ks - 104), c_mem := m\<rparr>"
    using s1 m(1) by (simp only: syscall_enter_def run_code_simps(3))
  ultimately show ?thesis using m(2) [unfolded regs] by (intro exI [of _ m]) simp
qed

text \<open>Leaving pops the registers of the user and goes back to the user's stack.\<close>

lemma syscall_leave_run:
  assumes "words_at (c_mem s) (c_regs s RSP) (map g (rev syscall_regs))"
  shows "run_code syscall_leave s =
    s\<lparr>c_regs := (\<lambda>r. if r = RSP then get_u64 (c_mem s) (c_gs s + USER_STACK_OFFSET) else if r \<in> set syscall_regs then g r else c_regs s r),
      c_gs := c_kernel_gs s, c_kernel_gs := c_gs s, c_rip := g RCX, c_if := bit (g R11) 9, c_df := bit (g R11) 10, c_user := True\<rparr>"
proof -
  let ?g = "popped (rev syscall_regs) (map g (rev syscall_regs)) (c_regs s)"
  have p: "run_code (map Pop (rev syscall_regs)) s = s\<lparr>c_regs := ?g\<rparr>"
    using assms syscall_regs by (intro run_pop) simp_all
  have in_regs: "?g r = g r" if "r \<in> set syscall_regs" for r
    using that syscall_regs by (intro popped_map) auto
  have out: "?g r = c_regs s r" if "r \<notin> set syscall_regs" "r \<noteq> RSP" for r
  proof -
    have n: "map_of (zip (rev syscall_regs) (map g (rev syscall_regs))) r = None"
      using that by (auto simp: map_of_eq_None_iff dest: set_zip_leftD)
    show ?thesis unfolding popped_def n using that by simp
  qed
  have "RCX \<in> set syscall_regs" "R11 \<in> set syscall_regs" by (simp_all add: syscall_regs_def)
  then show ?thesis using in_regs out
    by (simp add: syscall_leave_def p set_reg_def load_def fun_eq_iff)
qed

text \<open>What is relied on in a called function: the conventions of C calls, and that it leaves the frame of the entry alone.\<close>

definition keeps_entry :: "(cpu \<Rightarrow> cpu) \<Rightarrow> cpu \<Rightarrow> bool" where
  "keeps_entry f s \<longleftrightarrow>
     (\<forall>t. c_regs (f t) RSP = c_regs t RSP \<and> c_gs (f t) = c_gs t \<and> c_kernel_gs (f t) = c_kernel_gs t \<and>
        (\<forall>x \<in> entry_stack s \<union> entry_slot s. c_mem (f t) x = c_mem t x))"

text \<open>The call, for every number that is less than the length as a signed number.\<close>

lemma syscall_entry_calls:
  assumes "entry_stack s \<inter> entry_slot s = {}"
    "block table_length 8 \<inter> (entry_stack s \<union> entry_slot s) = {}" "block (table + c_regs s RAX * 8) 8 \<inter> (entry_stack s \<union> entry_slot s) = {}"
    "\<not> load table_length s \<le>s c_regs s RAX" "load (table + c_regs s RAX * 8) s \<noteq> 0"
  shows "\<exists>s1. (\<forall>call. arch_syscall_entry table table_length call s =
      run_code syscall_leave (call (load (table + c_regs s RAX * 8) s) s1)) \<and>
    c_regs s1 = (c_regs s)(RSP := kernel_stack_of s - 104, RAX := load (table + c_regs s RAX * 8) s, RCX := c_regs s R10) \<and>
    words_at (c_mem s1) (kernel_stack_of s - 104) (map (c_regs s) (rev syscall_regs)) \<and>
    get_u64 (c_mem s1) (c_kernel_gs s + USER_STACK_OFFSET) = c_regs s RSP \<and> c_gs s1 = c_kernel_gs s \<and> c_kernel_gs s1 = c_gs s"
proof -
  obtain m where m: "run_code syscall_enter s =
      s\<lparr>c_regs := (c_regs s)(RSP := kernel_stack_of s - 104), c_mem := m, c_gs := c_kernel_gs s, c_kernel_gs := c_gs s\<rparr>"
    "words_at m (kernel_stack_of s - 104) (map (c_regs s) (rev syscall_regs))"
    "get_u64 m (c_kernel_gs s + USER_STACK_OFFSET) = c_regs s RSP" "\<forall>x. x \<notin> entry_stack s \<union> entry_slot s \<longrightarrow> m x = c_mem s x"
    using syscall_enter_run [OF assms(1)] by auto
  have same: "get_u64 m a = load a s" if "block a 8 \<inter> (entry_stack s \<union> entry_slot s) = {}" for a
    unfolding load_def using m(4) that by (intro get_u64_agree) blast
  let ?s0 = "s\<lparr>c_regs := (c_regs s)(RSP := kernel_stack_of s - 104), c_mem := m, c_gs := c_kernel_gs s, c_kernel_gs := c_gs s\<rparr>"
  have l: "load table_length ?s0 = load table_length s" "load (table + c_regs s RAX * 8) ?s0 = load (table + c_regs s RAX * 8) s"
    using same assms(2,3) by (simp_all add: load_def [of _ ?s0])
  let ?s1 = "s\<lparr>c_mem := m, c_gs := c_kernel_gs s, c_kernel_gs := c_gs s,
    c_regs := (c_regs s)(RSP := kernel_stack_of s - 104, RAX := load (table + c_regs s RAX * 8) s, RCX := c_regs s R10)\<rparr>"
  have "arch_syscall_entry table table_length call s = run_code syscall_leave (call (load (table + c_regs s RAX * 8) s) ?s1)" for call
    using assms(4,5) l by (simp add: arch_syscall_entry_def m(1) Let_def set_reg_def)
  then show ?thesis using m(2,3) by (intro exI [of _ ?s1]) simp
qed

text \<open>C18: a system call with a valid number calls the function of the table with the six arguments of the user in the
  registers of the C convention, and when the function returns, the user continues behind the \<^verbatim>\<open>syscall\<close> instruction with all
  registers but \<^verbatim>\<open>rax\<close> and \<^verbatim>\<open>rdx\<close> as they were, its own stack and its own segment bases.\<close>

theorem syscall_entry_dispatches:
  assumes "entry_stack s \<inter> entry_slot s = {}"
    "block table_length 8 \<inter> (entry_stack s \<union> entry_slot s) = {}" "block (table + c_regs s RAX * 8) 8 \<inter> (entry_stack s \<union> entry_slot s) = {}"
    "c_regs s RAX < load table_length s" "load table_length s < 2 ^ 63"
    "load (table + c_regs s RAX * 8) s = f" "f \<noteq> 0" "keeps_entry (call f) s"
    and t: "arch_syscall_entry table table_length call s = t"
  shows "\<exists>s1. map (c_regs s1) [RDI, RSI, RDX, RCX, R8, R9] = map (c_regs s) [RDI, RSI, RDX, R10, R8, R9] \<and>
    c_regs t RAX = c_regs (call f s1) RAX \<and> c_regs t RDX = c_regs (call f s1) RDX \<and>
    (\<forall>r. r \<noteq> RAX \<and> r \<noteq> RDX \<longrightarrow> c_regs t r = c_regs s r) \<and>
    c_rip t = c_regs s RCX \<and> c_if t = bit (c_regs s R11) 9 \<and> c_df t = bit (c_regs s R11) 10 \<and> c_user t \<and> c_gs t = c_gs s \<and> c_kernel_gs t = c_kernel_gs s"
proof -
  have "\<not> load table_length s \<le>s c_regs s RAX"
  proof -
    have "unat (c_regs s RAX) < 2 ^ 63" "unat (load table_length s) < 2 ^ 63" "unat (c_regs s RAX) < unat (load table_length s)"
      using assms(4,5) by (simp_all add: word_less_nat_alt)
    then show ?thesis by (simp add: word_sle_eq sint_small_u64 word_less_nat_alt [symmetric] word_less_def not_le)
  qed
  then obtain s1 where s1: "\<And>call. arch_syscall_entry table table_length call s = run_code syscall_leave (call f s1)"
    "c_regs s1 = (c_regs s)(RSP := kernel_stack_of s - 104, RAX := f, RCX := c_regs s R10)"
    "words_at (c_mem s1) (kernel_stack_of s - 104) (map (c_regs s) (rev syscall_regs))"
    "get_u64 (c_mem s1) (c_kernel_gs s + USER_STACK_OFFSET) = c_regs s RSP" "c_gs s1 = c_kernel_gs s" "c_kernel_gs s1 = c_gs s"
    using syscall_entry_calls [OF assms(1-3)] assms(6,7) by auto
  let ?s2 = "call f s1"
  have k: "c_regs ?s2 RSP = kernel_stack_of s - 104" "c_gs ?s2 = c_kernel_gs s" "c_kernel_gs ?s2 = c_gs s"
    "\<And>x. x \<in> entry_stack s \<union> entry_slot s \<Longrightarrow> c_mem ?s2 x = c_mem s1 x"
    using assms(8) s1 by (simp_all add: keeps_entry_def)
  have w: "words_at (c_mem ?s2) (c_regs ?s2 RSP) (map (c_regs s) (rev syscall_regs))"
    using s1(3) k by (subst words_at_agree [of _ _ _ "c_mem s1"]) (simp_all add: entry_stack_def syscall_regs)
  have u: "get_u64 (c_mem ?s2) (c_gs ?s2 + USER_STACK_OFFSET) = c_regs s RSP"
    using s1(4) k(2) k(4) get_u64_agree [of "c_kernel_gs s + USER_STACK_OFFSET" "c_mem ?s2" "c_mem s1"] by (simp add: entry_slot_def)
  have in_regs: "r = RAX \<or> r = RDX \<or> r = RSP \<or> r \<in> set syscall_regs" for r by (cases r) (simp_all add: syscall_regs_def)
  note t' = t [unfolded s1(1) syscall_leave_run [OF w], symmetric]
  have "c_regs t r = c_regs s r" if "r \<noteq> RAX \<and> r \<noteq> RDX" for r
    using in_regs [of r] that u by (auto simp: t')
  moreover have "map (c_regs s1) [RDI, RSI, RDX, RCX, R8, R9] = map (c_regs s) [RDI, RSI, RDX, R10, R8, R9]" by (simp add: s1(2))
  ultimately show ?thesis using k by (intro exI [of _ s1]) (simp add: t' syscall_regs_def)
qed

text \<open>Four words in memory: a stack pointer at \<^verbatim>\<open>0x1010\<close>, a length at \<^verbatim>\<open>0x2000\<close>, an entry at \<^verbatim>\<open>0x3018\<close> and a word far behind it.\<close>

definition syscall_example :: cpu where
  "syscall_example = zero_cpu ((\<lambda>_. 7)(RAX := 3, RSP := 0x5000))
     (put_u64 (put_u64 (put_u64 (put_u64 (\<lambda>_. 0) 0x6000 0x7777) 0x1010 0x9000) 0x2000 20) 0x3018 0x4000)"

lemma syscall_example:
  "c_regs syscall_example RAX = 3" "load 0x2000 syscall_example = 20" "load 0x3018 syscall_example = 0x4000" "load 0x6000 syscall_example = 0x7777"
  "entry_stack syscall_example = block 0x8F98 104" "entry_slot syscall_example = block 0x1018 8"
  by (simp_all add: syscall_example_def zero_cpu_def load_def get_put_u64_other entry_stack_def entry_slot_def kernel_stack_of_def
    KERNEL_STACK_OFFSET_def USER_STACK_OFFSET_def)

lemma syscall_example_apart:
  "entry_stack syscall_example \<inter> entry_slot syscall_example = {}"
  "block 0x2000 8 \<inter> (entry_stack syscall_example \<union> entry_slot syscall_example) = {}"
  "block 0x3018 8 \<inter> (entry_stack syscall_example \<union> entry_slot syscall_example) = {}"
  "block 0x6000 8 \<inter> (entry_stack syscall_example \<union> entry_slot syscall_example) = {}"
  unfolding syscall_example Int_Un_distrib by (simp_all add: block_disjoint)

theorem syscall_entry_dispatches_witness:
  "c_regs (arch_syscall_entry 0x3000 0x2000 (\<lambda>f. set_reg RAX (f + 1)) syscall_example) = (c_regs syscall_example)(RAX := 0x4001)"
proof -
  let ?call = "\<lambda>f. set_reg RAX (f + 1)" and ?s = syscall_example
  let ?t = "arch_syscall_entry 0x3000 0x2000 ?call ?s"
  have "keeps_entry (?call 0x4000) ?s" by (simp add: keeps_entry_def)
  from syscall_entry_dispatches [of ?s "0x2000" "0x3000" "0x4000" ?call, OF syscall_example_apart(1,2) _ _ _ _ _ this refl]
  have "c_regs ?t RAX = 0x4001 \<and> c_regs ?t RDX = c_regs ?s RDX \<and> (\<forall>r. r \<noteq> RAX \<and> r \<noteq> RDX \<longrightarrow> c_regs ?t r = c_regs ?s r)"
    by (auto simp: syscall_example(1-4) syscall_example_apart)
  then have "c_regs ?t r = ((c_regs ?s)(RAX := 0x4001)) r" for r by (cases "r = RDX") auto
  then show ?thesis by blast
qed

text \<open>C36: the check of the number of a system call is no check: since it compares signed numbers, for every address
  with the alignment of the table that the entry itself does not overwrite there is a number for which the kernel
  calls the function whose address is stored there.\<close>

theorem syscall_number_unchecked:
  assumes "entry_stack s \<inter> entry_slot s = {}" "block table_length 8 \<inter> (entry_stack s \<union> entry_slot s) = {}"
    "block a 8 \<inter> (entry_stack s \<union> entry_slot s) = {}" "(a - table) mod 8 = 0" "load table_length s < 2 ^ 63" "load a s \<noteq> 0"
  shows "\<exists>n s1. \<forall>call. arch_syscall_entry table table_length call (set_reg RAX n s) = run_code syscall_leave (call (load a s) s1)"
proof -
  let ?n = "(a - table) div 8 + 2 ^ 63" and ?s = "set_reg RAX ((a - table) div 8 + 2 ^ 63) s"
  have "table + ?n * 8 = a"
  proof -
    have "(a - table) div 8 * 8 = a - table" using assms(4) by (metis add.right_neutral div_mult_mod_eq)
    moreover have "(2 ^ 63 * 8 :: u64) = 0" by simp
    ultimately show ?thesis by (simp add: distrib_right)
  qed
  moreover have "\<not> load table_length ?s \<le>s ?n"
  proof -
    have "unat ((a - table) div 8) < 2 ^ 61" using u64_bound [of "a - table"] by (simp add: unat_div)
    then have u: "unat ?n = unat ((a - table) div 8) + 2 ^ 63" by (subst unat_add_nowrap) simp_all
    then have "sint ?n < 0" by (intro sint_neg_u64) simp
    moreover have "0 \<le> sint (load table_length s)" using assms(5) by (subst sint_small_u64) (simp_all add: word_less_nat_alt)
    ultimately show ?thesis by (simp add: word_sle_eq load_def)
  qed
  ultimately show ?thesis
    using syscall_entry_calls [of ?s table_length table] assms
    by (auto simp: entry_stack_def entry_slot_def kernel_stack_of_def load_def)
qed

theorem syscall_number_unchecked_witness:
  "\<exists>n s1. \<forall>call. arch_syscall_entry 0x3000 0x2000 call (set_reg RAX n syscall_example) = run_code syscall_leave (call 0x7777 s1)"
proof -
  have "((0x6000 - 0x3000) mod 8 :: u64) = 0" by simp
  from syscall_number_unchecked [OF syscall_example_apart(1,2,4) this] show ?thesis by (simp add: syscall_example(2,4))
qed

end
