(* ===== verification/Isr_Correct.thy ===== *)
theory Isr_Correct
  imports Asm_Correct
begin

text \<open>
  The entry of the interrupts hands the whole state of the interrupted code to the handler and gives it back.
\<close>

section \<open>The frame of an interrupt\<close>

lemma push_imm:
  assumes "8 * length vs + 8 \<le> 2 ^ 64" "words_at (c_mem s) (c_regs s RSP) vs" "step (PushImm v) s = t"
  shows "t = s\<lparr>c_mem := c_mem t, c_regs := (c_regs s)(RSP := c_regs s RSP - 8)\<rparr> \<and> words_at (c_mem t) (c_regs s RSP - 8) (v # vs)"
proof -
  let ?p = "c_regs s RSP - 8" and ?m = "put_u64 (c_mem s) (c_regs s RSP - 8) v"
  have p: "?p + 8 = c_regs s RSP" by simp
  have "block ?p 8 \<inter> block (?p + of_nat 8) (8 * length vs) = {}" by (rule block_next) (use assms(1) in simp)
  then have dis: "block ?p 8 \<inter> block (c_regs s RSP) (8 * length vs) = {}" using p by simp
  have "?m x = c_mem s x" if "x \<in> block (c_regs s RSP) (8 * length vs)" for x
    by (rule put_u64_block) (use that dis in blast)
  then have "words_at ?m (c_regs s RSP) vs = words_at (c_mem s) (c_regs s RSP) vs" by (rule words_at_agree)
  then show ?thesis using assms(2,3) by (auto simp: Let_def set_reg_def store_def)
qed

text \<open>What the processor has pushed when the stub starts: \<open>hw\<close> at \<open>base\<close>, and below it the error code if there is one.\<close>

definition int_entered :: "nat \<Rightarrow> u64 \<Rightarrow> uptr \<Rightarrow> u64 list \<Rightarrow> cpu \<Rightarrow> bool" where
  "int_entered n err base hw s \<longleftrightarrow>
     (if n \<in> set isr_error_codes then c_regs s RSP = base - 8 \<and> words_at (c_mem s) (base - 8) (err # hw)
      else err = 0 \<and> c_regs s RSP = base \<and> words_at (c_mem s) base hw)"

lemma isr_numbers:
  assumes "int_entered n err base hw s" "length hw = 5"
  shows "\<exists>m. run_code ((if n \<in> set isr_error_codes then [] else [PushImm 0]) @ [PushImm (of_nat n)]) s =
      s\<lparr>c_mem := m, c_regs := (c_regs s)(RSP := base - 16)\<rparr> \<and> words_at m (base - 16) (of_nat n # err # hw)"
proof (cases "n \<in> set isr_error_codes")
  case True
  then show ?thesis
    using assms push_imm [of "err # hw" s "of_nat n" "step (PushImm (of_nat n)) s"]
    by (intro exI [of _ "c_mem (step (PushImm (of_nat n)) s)"]) (auto simp: int_entered_def simp del: step.simps)
next
  case False
  let ?s1 = "step (PushImm 0) s" and ?s2 = "step (PushImm (of_nat n)) (step (PushImm 0) s)"
  have 1: "?s1 = s\<lparr>c_mem := c_mem ?s1, c_regs := (c_regs s)(RSP := base - 8)\<rparr>" "words_at (c_mem ?s1) (base - 8) (err # hw)"
    using False assms push_imm [of hw s 0 ?s1] by (auto simp: int_entered_def simp del: step.simps)
  have r: "c_regs ?s1 = (c_regs s)(RSP := base - 8)" by (subst 1(1)) simp
  have 2: "?s2 = ?s1\<lparr>c_mem := c_mem ?s2, c_regs := (c_regs s)(RSP := base - 16)\<rparr>" "words_at (c_mem ?s2) (base - 16) (of_nat n # err # hw)"
    using push_imm [of "err # hw" ?s1 "of_nat n" ?s2] 1(2) assms(2) by (auto simp: r simp del: step.simps)
  have "?s2 = s\<lparr>c_mem := c_mem ?s2, c_regs := (c_regs s)(RSP := base - 16)\<rparr>" by (subst 2(1), subst 1(1)) simp
  then show ?thesis using False 2(2) by (intro exI [of _ "c_mem ?s2"]) (simp del: step.simps)
qed

text \<open>The bases of the segment registers in the kernel, for interrupted code with this code segment.\<close>

definition kernel_bases :: "u64 \<Rightarrow> cpu \<Rightarrow> u64 \<times> u64" where
  "kernel_bases cs s = (if user_cs cs then (c_kernel_gs s, c_gs s) else (c_gs s, c_kernel_gs s))"

lemma isr_before:
  assumes "int_entered n err base [rip, cs, flags, rsp, ss] s"
  shows "\<exists>s1. (\<forall>handler. run_code (isr handler n) s =
        run_code (map Pop (rev switch_regs) @ [SwapgsIfUser 24, AddRsp 16, Iret]) (handler s1)) \<and>
    c_regs s1 RSP = base - 136 \<and> c_regs s1 RDI = base - 136 \<and> \<not> c_df s1 \<and> (c_gs s1, c_kernel_gs s1) = kernel_bases cs s \<and>
    words_at (c_mem s1) (base - 136) (map (c_regs s) (rev switch_regs) @ [of_nat n, err, rip, cs, flags, rsp, ss])"
proof -
  let ?hw = "[rip, cs, flags, rsp, ss]"
  define numbers where "numbers = (if n \<in> set isr_error_codes then [] else [PushImm 0]) @ [PushImm (of_nat n)]"
  obtain m where m: "run_code numbers s = s\<lparr>c_mem := m, c_regs := (c_regs s)(RSP := base - 16)\<rparr>"
    "words_at m (base - 16) (of_nat n # err # ?hw)"
    using isr_numbers [OF assms] by (auto simp: numbers_def)
  let ?s0 = "s\<lparr>c_mem := m, c_regs := (c_regs s)(RSP := base - 16)\<rparr>"
  obtain s' where s': "run_code [Cld, SwapgsIfUser 24] ?s0 = s'" by blast
  let ?s1 = s'
  have s1: "c_regs ?s1 = c_regs ?s0" "c_mem ?s1 = m" "\<not> c_df ?s1" "(c_gs ?s1, c_kernel_gs ?s1) = kernel_bases cs s"
    using m(2) unfolding s' [symmetric] by (auto simp: load_def kernel_bases_def add.commute)
  from run_push [OF switch_regs(1), of ?s1] obtain m' where m':
    "run_code (map Push switch_regs) ?s1 = ?s1\<lparr>c_regs := (c_regs ?s0)(RSP := base - 136), c_mem := m'\<rparr>"
    "words_at m' (base - 136) (map (c_regs ?s0) (rev switch_regs))" "\<forall>x. x \<notin> block (base - 136) 120 \<longrightarrow> m' x = m x"
    by (auto simp: switch_regs s1 simp del: run_code_simps)
  have b: "base - 136 + of_nat 120 = base - 16" by simp
  have "block (base - 136) 120 \<inter> block (base - 136 + of_nat 120) 56 = {}" by (rule block_next) simp
  then have dis: "block (base - 136) 120 \<inter> block (base - 16) 56 = {}" using b by simp
  have "words_at m' (base - 16) (of_nat n # err # ?hw) = words_at m (base - 16) (of_nat n # err # ?hw)"
    by (rule words_at_agree) (use m'(3) dis in auto)
  moreover have "map (c_regs ?s0) (rev switch_regs) = map (c_regs s) (rev switch_regs)" using switch_regs(1) by auto
  ultimately have w: "words_at m' (base - 136) (map (c_regs s) (rev switch_regs) @ [of_nat n, err, rip, cs, flags, rsp, ss])"
    using m(2) m'(2) by (simp add: words_at_append switch_regs)
  let ?s2 = "run_code [Xor RBP, Mov RDI RSP] (?s1\<lparr>c_regs := (c_regs ?s0)(RSP := base - 136), c_mem := m'\<rparr>)"
  have s2: "c_regs ?s2 RSP = base - 136" "c_regs ?s2 RDI = base - 136" "\<not> c_df ?s2" "c_gs ?s2 = c_gs ?s1" "c_kernel_gs ?s2 = c_kernel_gs ?s1"
    "c_mem ?s2 = m'"
    using s1(3) by (simp_all add: set_reg_def)
  have "run_code (isr handler n) s = run_code (map Pop (rev switch_regs) @ [SwapgsIfUser 24, AddRsp 16, Iret]) (handler ?s2)" for handler
  proof -
    have "isr handler n = numbers @ [Cld, SwapgsIfUser 24] @ map Push switch_regs @ [Xor RBP, Mov RDI RSP] @ [Call handler] @ map Pop (rev switch_regs) @ [SwapgsIfUser 24, AddRsp 16, Iret]"
      by (simp add: isr_def isr_stub_def numbers_def)
    then show ?thesis by (simp only: run_code_simps(3) m(1) s' m'(1)) (simp only: run_code_simps(1,2) step.simps(11))
  qed
  then show ?thesis using s2 w s1(4) by (intro exI [of _ ?s2]) simp
qed

lemma isr_after:
  assumes "words_at (c_mem s) (c_regs s RSP) (map g (rev switch_regs) @ [n, err, rip, cs, flags, rsp, ss])"
    and "run_code (map Pop (rev switch_regs) @ [SwapgsIfUser 24, AddRsp 16, Iret]) s = t"
  shows "c_regs t = g(RSP := rsp) \<and> c_rip t = rip \<and> c_if t = bit flags 9 \<and> c_df t = bit flags 10 \<and> c_user t = user_cs cs \<and>
    (c_gs t, c_kernel_gs t) = kernel_bases cs s \<and> c_mem t = c_mem s"
proof -
  let ?vs = "map g (rev switch_regs)" and ?q = "c_regs s RSP"
  have "run_code (map Pop (rev switch_regs)) s = s\<lparr>c_regs := popped (rev switch_regs) ?vs (c_regs s)\<rparr>"
    using assms(1) switch_regs by (intro run_pop) (simp_all add: words_at_append)
  moreover have "popped (rev switch_regs) ?vs (c_regs s) r = (g(RSP := ?q + 120)) r" for r
    using popped_map [of "rev switch_regs" r g "c_regs s"] switch_regs(1-3) switch_regs(4) [of r]
    by (cases "r = RSP") (auto simp: popped_def [of _ _ _ RSP])
  ultimately have t: "t = run_code [SwapgsIfUser 24, AddRsp 16, Iret] (s\<lparr>c_regs := g(RSP := ?q + 120)\<rparr>)"
    using assms(2) by (metis ext run_code_simps(3))
  have "get_u64 (c_mem s) (?q + 136) = rip" "get_u64 (c_mem s) (?q + 144) = cs" "get_u64 (c_mem s) (?q + 152) = flags"
    "get_u64 (c_mem s) (?q + 160) = rsp"
    using assms(1) by (simp_all add: words_at_append switch_regs add.assoc)
  then show ?thesis unfolding t
    by (cases "user_cs cs") (simp_all add: load_def Let_def set_reg_def kernel_bases_def add.assoc add.commute)
qed

text \<open>What is relied on in the handler: the conventions of C calls, and that it leaves the frame of the stub alone.\<close>

definition keeps_int_frame :: "(cpu \<Rightarrow> cpu) \<Rightarrow> uptr \<Rightarrow> bool" where
  "keeps_int_frame f base \<longleftrightarrow>
     (\<forall>t. c_regs (f t) RSP = c_regs t RSP \<and> c_gs (f t) = c_gs t \<and> c_kernel_gs (f t) = c_kernel_gs t \<and>
        (\<forall>x \<in> block (base - 136) 176. c_mem (f t) x = c_mem t x))"

text \<open>C17: an interrupt is transparent: whatever its number, whether or not the processor pushed an error
  code, and whether it interrupts the kernel or the user, the handler is called with the pointer to a frame that
  holds every register, the number, the error code and what the processor pushed, with the bases of
  the kernel in place; and when it returns, the interrupted code goes on with every register, both flags, its
  stack, its privilege level and its segment bases.\<close>

theorem isr_transparent:
  assumes "int_entered n err base [rip, cs, flags, rsp, ss] s" "keeps_int_frame handler base" "run_code (isr handler n) s = t"
  shows "\<exists>s1. c_regs s1 RDI = base - 136 \<and> (c_gs s1, c_kernel_gs s1) = kernel_bases cs s \<and>
    words_at (c_mem s1) (base - 136) (map (c_regs s) (rev switch_regs) @ [of_nat n, err, rip, cs, flags, rsp, ss]) \<and>
    c_mem t = c_mem (handler s1) \<and> c_regs t = (c_regs s)(RSP := rsp) \<and> c_rip t = rip \<and> c_if t = bit flags 9 \<and>
    c_df t = bit flags 10 \<and> c_user t = user_cs cs \<and> c_gs t = c_gs s \<and> c_kernel_gs t = c_kernel_gs s"
proof -
  obtain s1 where s1: "\<And>handler. run_code (isr handler n) s =
        run_code (map Pop (rev switch_regs) @ [SwapgsIfUser 24, AddRsp 16, Iret]) (handler s1)"
    "c_regs s1 RSP = base - 136" "c_regs s1 RDI = base - 136" "(c_gs s1, c_kernel_gs s1) = kernel_bases cs s"
    "words_at (c_mem s1) (base - 136) (map (c_regs s) (rev switch_regs) @ [of_nat n, err, rip, cs, flags, rsp, ss])"
    using isr_before [OF assms(1)] by (elim exE conjE) (rule that, erule spec, assumption+)
  have k: "c_regs (handler s1) RSP = base - 136" "c_gs (handler s1) = c_gs s1" "c_kernel_gs (handler s1) = c_kernel_gs s1"
    using assms(2) s1(2) by (simp_all add: keeps_int_frame_def)
  then have b: "kernel_bases cs (handler s1) = (c_gs s, c_kernel_gs s)"
    using s1(4) by (simp add: kernel_bases_def split: if_splits)
  have "words_at (c_mem (handler s1)) (base - 136) (map (c_regs s) (rev switch_regs) @ [of_nat n, err, rip, cs, flags, rsp, ss]) =
      words_at (c_mem s1) (base - 136) (map (c_regs s) (rev switch_regs) @ [of_nat n, err, rip, cs, flags, rsp, ss])"
    by (rule words_at_agree) (use assms(2) in \<open>simp add: keeps_int_frame_def switch_regs\<close>)
  then have "words_at (c_mem (handler s1)) (c_regs (handler s1) RSP) (map (c_regs s) (rev switch_regs) @ [of_nat n, err, rip, cs, flags, rsp, ss])"
    using s1(5) k(1) by simp
  from isr_after [OF this assms(3) [unfolded s1(1)]] b show ?thesis using s1(3-5) by (intro exI [of _ s1]) (simp only: prod.inject)
qed

text \<open>A timer interrupt in a user program.\<close>

definition isr_example :: cpu where
  "isr_example = zero_cpu ((\<lambda>_. 7)(RSP := 0x9000)) (put_u64 (put_u64 (\<lambda>_. 0) 0x9008 0x23) 0x9018 0x5000)"

theorem isr_transparent_witness:
  "let t = run_code (isr (set_reg RAX 0) 32) isr_example in c_regs t = (c_regs isr_example)(RSP := 0x5000) \<and> c_user t \<and> c_gs t = 0x100"
proof -
  have "int_entered 32 0 0x9000 [0, 0x23, 0, 0x5000, 0] isr_example"
    by (simp add: int_entered_def isr_error_codes_def isr_example_def zero_cpu_def get_put_u64_other)
  from isr_transparent [OF this, of "set_reg RAX 0", OF _ refl] show ?thesis
    by (auto simp: keeps_int_frame_def Let_def user_cs_def) (simp add: isr_example_def zero_cpu_def)
qed

end
