(* ===== verification/Thread_Start.thy ===== *)
theory Thread_Start
  imports Asm_Correct Thread
begin

text \<open>
  The first switch to a new thread: the frame that \<^verbatim>\<open>arch_thread_context_init\<close> builds is one that
  \<^verbatim>\<open>x86_64_sched_context_switch\<close> and \<^verbatim>\<open>x86_64_thread_userspace_init\<close> take apart again.
\<close>

section \<open>The frames as rows of words\<close>

lemma words_at_put_next:
  assumes "words_at m p vs" "8 * length vs + 8 \<le> 2 ^ 64" "q = p + 8 * of_nat (length vs)"
  shows "words_at (put_u64 m q v) p (vs @ [v])"
proof -
  have "block p (8 * length vs) \<inter> block q 8 = {}"
    using block_next [of "8 * length vs" 8 p] assms(2,3) by simp
  then have "words_at (put_u64 m q v) p vs = words_at m p vs" by (intro words_at_agree put_u64_block) blast
  then show ?thesis using assms(1,3) by (simp add: words_at_append)
qed

lemma memset_words:
  assumes "8 * n \<le> unat len"
  shows "words_at (memset m p 0 len) p (replicate n 0)"
proof -
  have "memset m p 0 len x = 0" if "x \<in> block p (8 * n)" for x
    using that assms u64_bound [of len] by (subst (asm) block_iff) (simp_all add: memset_at)
  then have "words_at (memset m p 0 len) p (replicate n 0) = words_at (\<lambda>_. 0) p (replicate n 0)" by (intro words_at_agree) simp
  then show ?thesis by (simp only: words_at_const)
qed

lemma init_stack_kernel_words: "words_at (init_stack_kernel m p start) p (replicate 15 0 @ [start])"
  unfolding init_stack_kernel_def
  by (rule words_at_put_next) (simp_all add: memset_words SIZEOF_INIT_STACK_KERNEL_def)

lemma init_stack_user_words: "words_at (init_stack_user m p ui start us) p (replicate 15 0 @ [ui, start, us])"
proof -
  let ?m0 = "memset m p 0 SIZEOF_INIT_STACK_USER"
  have "words_at ?m0 p (replicate 15 0)" by (simp add: memset_words SIZEOF_INIT_STACK_USER_def)
  then have "words_at (put_u64 ?m0 (p + 120) ui) p (replicate 15 0 @ [ui])"
    by (rule words_at_put_next) simp_all
  then have "words_at (put_u64 (put_u64 ?m0 (p + 120) ui) (p + 128) start) p ((replicate 15 0 @ [ui]) @ [start])"
    by (rule words_at_put_next) simp_all
  then have "words_at (put_u64 (put_u64 (put_u64 ?m0 (p + 120) ui) (p + 128) start) (p + 136) us) p (((replicate 15 0 @ [ui]) @ [start]) @ [us])"
    by (rule words_at_put_next) simp_all
  then show ?thesis by (simp add: init_stack_user_def)
qed

text \<open>The memory of the processor holds the first \<open>n\<close> bytes of the frame of a context, and the context its stack pointer.\<close>

definition holds_frame :: "cpu \<Rightarrow> bytes \<Rightarrow> arch_thread_context_t \<Rightarrow> nat \<Rightarrow> bool" where
  "holds_frame s m c n \<longleftrightarrow>
     get_u64 (c_mem s) (c_regs s RSI + THREAD_RSP_OFFSET) = ctx_rsp c \<and> (\<forall>x \<in> block (ctx_rsp c) n. c_mem s x = m x)"

lemma holds_frame_words:
  assumes "holds_frame s m c n" "words_at m (ctx_rsp c) vs" "8 * length vs \<le> n"
  shows "words_at (c_mem s) (get_u64 (c_mem s) (c_regs s RSI + THREAD_RSP_OFFSET)) vs"
proof -
  have "block (ctx_rsp c) (8 * length vs) \<subseteq> block (ctx_rsp c) n" using block_mono [of 0 "8 * length vs" n "ctx_rsp c"] assms(3) by simp
  then have "words_at (c_mem s) (ctx_rsp c) vs = words_at m (ctx_rsp c) vs"
    using assms(1) by (intro words_at_agree) (auto simp: holds_frame_def)
  then show ?thesis using assms(1,2) by (simp add: holds_frame_def)
qed

lemma fpu_area_apart:
  assumes "block f (unat fpu) \<inter> block p n = {}" "words_at m p vs" "8 * length vs \<le> n"
  shows "words_at (memset m f 0 (ucast (fpu :: u32))) p vs"
proof -
  have u: "unat (ucast fpu :: u64) = unat fpu"
    using unsigned_less [of fpu, where 'a = nat] by (simp add: unsigned_ucast_eq take_bit_nat_eq_self)
  have "unat fpu \<le> 2 ^ 64" using u u64_bound [of "ucast fpu"] by simp
  then have "memset m f 0 (ucast fpu) x = m x" if "x \<notin> block f (unat fpu)" for x
    using that by (simp add: memset_at u block_iff)
  moreover have "block p (8 * length vs) \<subseteq> block p n" using block_mono [of 0 "8 * length vs" n p] assms(3) by simp
  ultimately have "words_at (memset m f 0 (ucast fpu)) p vs = words_at m p vs"
    using assms(1) by (intro words_at_agree) blast
  then show ?thesis using assms(2) by simp
qed

section \<open>Kernel threads\<close>

text \<open>The first switch to a new kernel thread runs the function it was created for, with zeroes in all registers, an empty
  stack and interrupts unmasked.\<close>

lemma kernel_thread_starts:
  assumes "arch_thread_context_init page_alloc stack_setup HHDM fpu ui ctx False start al m = Inr (al', m', c)"
    and "block (ctx_fpu_area c) (unat fpu) \<inter> block (ctx_rsp c) 128 = {}"
    and "holds_frame s m' c 128" "switch_ok s" "keeps_frame dr 136"
  shows "\<exists>s'. run_code (x86_64_sched_context_switch dr) s = s' \<and> c_rip s' = start \<and>
    c_regs s' = (\<lambda>_. 0)(RSP := ctx_kernel_stack c) \<and> c_if s'"
proof -
  obtain m0 where m': "m' = memset m0 (ctx_fpu_area c) 0 (ucast fpu)" "m0 = init_stack_kernel m (ctx_rsp c) start"
    "ctx_rsp c = ctx_kernel_stack c - 128"
    using assms(1) by (auto simp: arch_thread_context_init_def Let_def rbind_def SIZEOF_INIT_STACK_KERNEL_def split: sum.splits prod.splits)
  have "words_at m' (ctx_rsp c) (replicate 15 0 @ [start])"
    unfolding m'(1) by (rule fpu_area_apart [OF assms(2)]) (simp_all add: m'(2) init_stack_kernel_words)
  from holds_frame_words [OF assms(3) this]
  have "words_at (c_mem s) (get_u64 (c_mem s) (c_regs s RSI + THREAD_RSP_OFFSET)) (replicate 15 0 @ [start])"
    by (simp)
  moreover have "map (\<lambda>_. 0) (rev switch_regs) = (replicate 15 0 :: u64 list)" by (simp add: map_replicate_const switch_regs)
  ultimately have "suspended (c_mem s) (c_regs s RSI) (\<lambda>_. 0) start" by (simp only: suspended_def)
  from context_switch [OF assms(4,5) this] show ?thesis
    using assms(3) m'(3) by (simp add: holds_frame_def THREAD_RSP_OFFSET_def)
qed

section \<open>User threads\<close>

text \<open>What the second part of the frame is after the switch.\<close>

lemma context_switch_frame:
  assumes "switch_ok s" "keeps_frame dr 152" "words_at (c_mem s) q (map g (rev switch_regs) @ [ret, a, b])"
    and "q = get_u64 (c_mem s) (c_regs s RSI + 8)"
    and "block q 144 \<inter> (block (c_regs s RSP - 120) 128 \<union> block (c_regs s RDI + 8) 8) = {}"
    and "run_code (x86_64_sched_context_switch dr) s = s'"
  shows "c_regs s' = g(RSP := q + 128) \<and> c_rip s' = ret \<and> words_at (c_mem s') (q + 128) [a, b]"
proof -
  have k: "c_regs (dr t) RSP = c_regs t RSP" "\<And>x. x \<in> block (c_regs t RSP) 152 \<Longrightarrow> c_mem (dr t) x = c_mem t x" for t
    using assms(2) by (simp_all add: keeps_frame_def)
  have "block p 136 \<subseteq> block p 152" for p using block_mono [of 0 136 152 p] by simp
  with k have k': "keeps_frame dr 136" unfolding keeps_frame_def by blast
  have "suspended (c_mem s) (c_regs s RSI) g ret"
    using assms(3,4) by (simp add: suspended_def THREAD_RSP_OFFSET_def words_at_append)
  from context_switch [OF assms(1) k' this] obtain t where s': "c_regs s' = g(RSP := q + 128)" "c_rip s' = ret"
    and t: "c_mem s' = c_mem (dr t)" "c_regs t RSP = q - 8"
      "\<And>x. x \<notin> block (c_regs s RSP - 120) 128 \<union> block (c_regs s RDI + 8) 8 \<union> block (q - 8) 8 \<Longrightarrow> c_mem t x = c_mem s x"
    using assms(4,6) by auto
  have sub: "block (q + 128) 16 \<subseteq> block (q - 8) 152" "block (q + 128) 16 \<subseteq> block q 144"
    using block_mono [of 136 16 152 "q - 8"] block_mono [of 128 16 144 q] by (simp_all add: add.commute)
  have "block (q - 8) 8 \<inter> block q 144 = {}" using block_next [of 8 144 "q - 8"] by simp
  then have "c_mem s' x = c_mem s x" if "x \<in> block (q + 128) 16" for x
    using that sub k(2) [of x t] t assms(5) by fastforce
  then have "words_at (c_mem s') (q + 128) [a, b] = words_at (c_mem s) (q + 128) [a, b]" by (intro words_at_agree) simp
  moreover have "words_at (c_mem s) (q + 128) [a, b]"
    using assms(3) by (simp add: words_at_append switch_regs add.assoc)
  ultimately show ?thesis using s' by blast
qed

lemma userspace_init_run:
  assumes "words_at (c_mem s) (c_regs s RSP) [start, us]" "run_code x86_64_thread_userspace_init s = t"
  shows "c_rip t = start \<and> c_user t \<and> c_if t \<and> c_regs t = (\<lambda>_. 0)(RSP := us, RCX := start, R11 := 0x202) \<and>
    c_gs t = c_kernel_gs s \<and> c_kernel_gs t = c_gs s"
proof -
  have "c_regs t r = ((\<lambda>_. 0)(RSP := us, RCX := start, R11 := 0x202)) r" for r
    using assms by (cases r) (auto simp: x86_64_thread_userspace_init_def Let_def set_reg_def load_def)
  moreover have "c_rip t = start" "c_user t" "c_if t" "c_gs t = c_kernel_gs s" "c_kernel_gs t = c_gs s"
    using assms by (auto simp: x86_64_thread_userspace_init_def Let_def set_reg_def load_def)
  ultimately show ?thesis by blast
qed

text \<open>C21: a new user thread reaches its program: the first switch to it runs the short start-up code, and
  this enters the user's privilege level at the entry of the program, with interrupts unmasked, the user stack that was set up for it
  in RSP, the entry in RCX, the flags \<^verbatim>\<open>0x202\<close> in R11 and 0 in every other register.  The frame of 144 bytes reaches behind
  its page; it must be apart from the FPU area, which is cleared after it, still be there at the switch, and not be
  overwritten by what the switch saves.\<close>

theorem user_thread_starts:
  assumes "arch_thread_context_init page_alloc stack_setup HHDM fpu ui ctx True start al m = Inr (al', m', c)"
    and "page_alloc 0 al = Inr (al1, p)" "stack_setup al1 = Inr (al2, us)"
    and "block (ctx_fpu_area c) (unat fpu) \<inter> block (ctx_rsp c) 144 = {}"
    and "holds_frame s m' c 144" "switch_ok s" "keeps_frame dr 152"
    and "block (ctx_rsp c) 144 \<inter> (block (c_regs s RSP - 120) 128 \<union> block (c_regs s RDI + 8) 8) = {}"
  shows "\<exists>s1 t. run_code (x86_64_sched_context_switch dr) s = s1 \<and> c_rip s1 = ui \<and>
    run_code x86_64_thread_userspace_init s1 = t \<and> c_rip t = start \<and> c_user t \<and> c_if t \<and>
    c_regs t = (\<lambda>_. 0)(RSP := us, RCX := start, R11 := 0x202) \<and> c_gs t = c_kernel_gs s1 \<and> c_kernel_gs t = c_gs s1"
proof -
  obtain m0 where m': "m' = memset m0 (ctx_fpu_area c) 0 (ucast fpu)" "m0 = init_stack_user m (ctx_rsp c) ui start us"
    using assms(1-3) by (auto simp: arch_thread_context_init_def Let_def rbind_def split: sum.splits prod.splits)
  have "words_at m' (ctx_rsp c) (replicate 15 0 @ [ui, start, us])"
    unfolding m'(1) by (rule fpu_area_apart [OF assms(4)]) (simp_all add: m'(2) init_stack_user_words)
  from holds_frame_words [OF assms(5) this]
  have "words_at (c_mem s) (get_u64 (c_mem s) (c_regs s RSI + THREAD_RSP_OFFSET)) (replicate 15 0 @ [ui, start, us])" by simp
  moreover have "map (\<lambda>_. 0) (rev switch_regs) = (replicate 15 0 :: u64 list)" by (simp add: map_replicate_const switch_regs)
  moreover have q: "get_u64 (c_mem s) (c_regs s RSI + THREAD_RSP_OFFSET) = ctx_rsp c" using assms(5) by (simp add: holds_frame_def)
  ultimately have w: "words_at (c_mem s) (ctx_rsp c) (map (\<lambda>_. 0) (rev switch_regs) @ [ui, start, us])" by (simp only:)
  obtain s1 where s1: "run_code (x86_64_sched_context_switch dr) s = s1" by blast
  from context_switch_frame [OF assms(6,7) w _ assms(8) s1]
  have r: "c_regs s1 RSP = ctx_rsp c + 128" "c_rip s1 = ui" "words_at (c_mem s1) (ctx_rsp c + 128) [start, us]"
    using q by (simp_all add: THREAD_RSP_OFFSET_def)
  then show ?thesis using s1 userspace_init_run [of s1 start us, OF _ refl] by auto
qed

text \<open>A machine whose frames come one below the other from \<^verbatim>\<open>0x10000\<close>, with the new context at \<^verbatim>\<open>0x2000\<close>.\<close>

theorem user_thread_starts_witness:
  "\<exists>m' c. arch_thread_context_init (\<lambda>_ n. Inr (n - 0x1000, n)) (\<lambda>n. Inr (n, 0x7000)) 0 512 0x100 0x2000 True 0x400123 0x10000 (\<lambda>_. 0) =
      Inr (0xE000, m', c) \<and>
    (let s = zero_cpu ((\<lambda>_. 7)(RSP := 0x5000, RDI := 0x1000, RSI := 0x2000)) (put_u64 m' 0x2008 0x10F80);
         t = run_code x86_64_thread_userspace_init (run_code (x86_64_sched_context_switch id) s)
     in c_rip t = 0x400123 \<and> c_regs t RSP = 0x7000 \<and> c_regs t RBX = 0 \<and> c_user t)"
proof -
  let ?pa = "\<lambda>_ n. Inr (n - 0x1000, n) :: (u64 \<times> u64) res" and ?ss = "\<lambda>n. Inr (n, 0x7000) :: (u64 \<times> u64) res"
  obtain m' c where c: "arch_thread_context_init ?pa ?ss 0 512 0x100 0x2000 True 0x400123 0x10000 (\<lambda>_. 0) = Inr (0xE000, m', c)"
    "ctx_rsp c = 0x10F80" "ctx_fpu_area c = 0xF000"
    using frame_aligned [of "0x10000"] fpu_order [of "pmm_pagecount_to_order (CEIL (ucast (512 :: u32)) ARCH_PAGE_GRAN)"]
    by (simp add: arch_thread_context_init_def Let_def page_gran)
  let ?s = "zero_cpu ((\<lambda>_. 7)(RSP := 0x5000, RDI := 0x1000, RSI := 0x2000)) (put_u64 m' 0x2008 0x10F80)"
  have "holds_frame ?s m' c 144"
    using block_disjoint [of "0x2008" 8 "0x10F80" 144]
    by (auto simp: holds_frame_def zero_cpu_def THREAD_RSP_OFFSET_def c intro!: put_u64_block)
  moreover have "switch_ok ?s"
    using block_disjoint [of "0x1008" 8 "0x4F88" 128] block_disjoint [of "0x4F88" 128 "0x10F78" 136] block_disjoint [of "0x2008" 8 "0x4F88" 128]
      block_disjoint [of "0x1008" 8 "0x10F78" 136] block_disjoint [of "0x1008" 8 "0x2008" 8]
    by (simp add: switch_ok_def Let_def zero_cpu_def Int_Un_distrib)
  moreover have "keeps_frame id 152" by (simp add: keeps_frame_def)
  moreover have "block (ctx_rsp c) 144 \<inter> (block (c_regs ?s RSP - 120) 128 \<union> block (c_regs ?s RDI + 8) 8) = {}"
    using block_disjoint [of "0x4F88" 128 "0x10F80" 144] block_disjoint [of "0x1008" 8 "0x10F80" 144]
    by (simp add: zero_cpu_def Int_Un_distrib c)
  moreover have "block (ctx_fpu_area c) (unat (512 :: u32)) \<inter> block (ctx_rsp c) 144 = {}"
    using block_disjoint [of "0xF000" 512 "0x10F80" 144] by (simp add: c)
  ultimately show ?thesis using c(1) user_thread_starts [OF c(1), of "0xF000" "0x10000" "0xF000" "0x7000" ?s id] by (auto simp: Let_def)
qed

end
