(* ===== verification/Tables.thy ===== *)
theory Tables
  imports Scalars
begin

text \<open>
  What the kernel sets up for an x86_64 processor: the descriptor tables (\<^verbatim>\<open>arch/x86_64/tables\<close>), the registers for
  system calls (\<^verbatim>\<open>syscall.c\<close>), the floating point unit (\<^verbatim>\<open>fpu.c\<close>, \<^verbatim>\<open>cpuid.c\<close>) and the context of a core
  (\<^verbatim>\<open>cpu.c\<close>).  Packed structures are words in the order of their members, or bytes of the memory.
\<close>

section \<open>Segments\<close>

definition X86_64_GDT_SELECTOR_CODE64_RING0 :: u64 where "X86_64_GDT_SELECTOR_CODE64_RING0 = push_bit 3 1"
definition X86_64_GDT_SELECTOR_DATA64_RING0 :: u64 where "X86_64_GDT_SELECTOR_DATA64_RING0 = push_bit 3 2"
definition X86_64_GDT_SELECTOR_DATA64_RING3 :: u64 where "X86_64_GDT_SELECTOR_DATA64_RING3 = push_bit 3 3 OR 3"
definition X86_64_GDT_SELECTOR_CODE64_RING3 :: u64 where "X86_64_GDT_SELECTOR_CODE64_RING3 = push_bit 3 4 OR 3"

definition ACCESS_PRESENT :: u8 where "ACCESS_PRESENT = push_bit 7 1"

definition ACCESS_DPL :: "u8 \<Rightarrow> u8" where
  "ACCESS_DPL dpl = push_bit 5 (dpl AND 3)"

definition ACCESS_TYPE_TSS :: u8 where "ACCESS_TYPE_TSS = 9"

definition ACCESS_TYPE_CODE :: "u8 \<Rightarrow> u8 \<Rightarrow> u8" where
  "ACCESS_TYPE_CODE conform readable = push_bit 4 1 OR push_bit 3 1 OR push_bit 2 conform OR push_bit 1 readable"

definition ACCESS_TYPE_DATA :: "u8 \<Rightarrow> u8 \<Rightarrow> u8" where
  "ACCESS_TYPE_DATA direction writable = push_bit 4 1 OR push_bit 2 direction OR push_bit 1 writable"

definition FLAG_LONG :: u8 where "FLAG_LONG = push_bit 5 1"
definition FLAG_SYSTEM_AVL :: u8 where "FLAG_SYSTEM_AVL = push_bit 4 1"

record gdt_entry_t =
  ge_limit :: u16
  ge_base_low :: u16
  ge_base_mid :: u8
  ge_access :: u8
  ge_flags :: u8
  ge_base_high :: u8

record gdt_system_entry_t =
  gs_gdt_entry :: gdt_entry_t
  gs_base_ext :: u32
  gs_rsv :: u32

text \<open>The bytes of the two structures, as the words of the table.\<close>

definition gdt_word :: "gdt_entry_t \<Rightarrow> u64" where
  "gdt_word e =
     ucast (ge_limit e) OR push_bit 16 (ucast (ge_base_low e)) OR push_bit 32 (ucast (ge_base_mid e)) OR
     push_bit 40 (ucast (ge_access e)) OR push_bit 48 (ucast (ge_flags e)) OR push_bit 56 (ucast (ge_base_high e))"

definition gdt_system_words :: "gdt_system_entry_t \<Rightarrow> u64 list" where
  "gdt_system_words e = [gdt_word (gs_gdt_entry e), ucast (gs_base_ext e) OR push_bit 32 (ucast (gs_rsv e))]"

definition flat_segment :: "u8 \<Rightarrow> u8 \<Rightarrow> gdt_entry_t" where
  "flat_segment access flags =
     \<lparr>ge_limit = 0, ge_base_low = 0, ge_base_mid = 0, ge_access = access, ge_flags = flags, ge_base_high = 0\<rparr>"

definition g_gdt :: "u64 list" where
  "g_gdt =
     map gdt_word
       [flat_segment 0 0,
        flat_segment (ACCESS_PRESENT OR ACCESS_DPL 0 OR ACCESS_TYPE_CODE 0 1) FLAG_LONG,
        flat_segment (ACCESS_PRESENT OR ACCESS_DPL 0 OR ACCESS_TYPE_DATA 0 1) 0,
        flat_segment (ACCESS_PRESENT OR ACCESS_DPL 3 OR ACCESS_TYPE_DATA 0 1) 0,
        flat_segment (ACCESS_PRESENT OR ACCESS_DPL 3 OR ACCESS_TYPE_CODE 0 1) FLAG_LONG,
        flat_segment 0 0,
        flat_segment 0 0]"

section \<open>The registers\<close>

datatype fpu_instr = FX | XS

text \<open>
  The global tables and variables of the kernel, the memory, and the registers of a processor: descriptor table registers
  with limit and base, segment selectors, model specific registers and control registers.
\<close>

record x86 =
  x_mem :: bytes
  x_gdt :: "u64 list"
  x_gdtr :: "u16 \<times> uptr"
  x_idtr :: "u16 \<times> uptr"
  x_tr :: u16
  x_cs :: u64
  x_ss :: u64
  x_ds :: u64
  x_es :: u64
  x_msr :: "u32 \<Rightarrow> u64"
  x_cr0 :: u64
  x_cr4 :: u64
  x_xcr0 :: u64
  x_fpu_area_size :: u32
  x_fpu_instr :: "fpu_instr option"

definition gdt_load :: "u16 \<times> uptr \<Rightarrow> u64 \<Rightarrow> u64 \<Rightarrow> x86 \<Rightarrow> x86" where
  "gdt_load gdtr selector_code selector_data st =
     st\<lparr>x_gdtr := gdtr, x_cs := selector_code, x_ss := selector_data, x_ds := 0, x_es := 0\<rparr>"

definition sizeof_gdt :: "x86 \<Rightarrow> nat" where
  "sizeof_gdt st = 8 * length (x_gdt st)"

text \<open>\<open>gdt\<close> is the address of the table.\<close>

definition x86_64_gdt_load :: "uptr \<Rightarrow> x86 \<Rightarrow> x86" where
  "x86_64_gdt_load gdt st =
     gdt_load (of_nat (sizeof_gdt st - 1), gdt) X86_64_GDT_SELECTOR_CODE64_RING0 X86_64_GDT_SELECTOR_DATA64_RING0 st"

section \<open>The task state segment\<close>

definition SIZEOF_TSS :: nat where "SIZEOF_TSS = 104"
definition TSS_RSP0_LOWER :: u64 where "TSS_RSP0_LOWER = 4"
definition TSS_RSP0_UPPER :: u64 where "TSS_RSP0_UPPER = 8"
definition TSS_IOMAP_BASE :: u64 where "TSS_IOMAP_BASE = 102"

definition x86_64_tss_set_rsp0 :: "uptr \<Rightarrow> uptr \<Rightarrow> bytes \<Rightarrow> bytes" where
  "x86_64_tss_set_rsp0 tss stack_pointer m =
     put_u32 (put_u32 m (tss + TSS_RSP0_LOWER) (ucast stack_pointer)) (tss + TSS_RSP0_UPPER) (ucast (drop_bit 32 stack_pointer))"

definition x86_64_gdt_load_tss :: "uptr \<Rightarrow> x86 \<Rightarrow> x86" where
  "x86_64_gdt_load_tss tss st =
     (let m = memset (x_mem st) tss 0 (of_nat SIZEOF_TSS);
          tss_segment = sizeof_gdt st - 16;
          sys_entry = \<lparr>gs_gdt_entry =
              \<lparr>ge_limit = of_nat SIZEOF_TSS, ge_base_low = ucast tss, ge_base_mid = ucast (drop_bit 16 tss),
               ge_access = ACCESS_PRESENT OR ACCESS_TYPE_TSS,
               ge_flags = FLAG_SYSTEM_AVL OR (drop_bit 16 (of_nat SIZEOF_TSS) AND 15), ge_base_high = ucast (drop_bit 24 tss)\<rparr>,
            gs_base_ext = ucast (drop_bit 32 tss), gs_rsv = 0\<rparr>;
          i = tss_segment div 8; ws = gdt_system_words sys_entry
      in st\<lparr>x_mem := m, x_gdt := (x_gdt st)[i := ws ! 0, i + 1 := ws ! 1], x_tr := of_nat tss_segment\<rparr>)"

text \<open>\<open>heap_alloc\<close> gives the memory and the address of the new segment.\<close>

definition arch_cpu_context_init :: "(bytes \<Rightarrow> nat \<Rightarrow> bytes \<times> uptr) \<Rightarrow> x86 \<Rightarrow> x86 \<times> uptr" where
  "arch_cpu_context_init heap_alloc st =
     (let (m, tss) = heap_alloc (x_mem st) SIZEOF_TSS in (x86_64_gdt_load_tss tss (st\<lparr>x_mem := m\<rparr>), tss))"

section \<open>Interrupt gates\<close>

record idt_entry_t =
  ie_isr_low :: u16
  ie_kernel_cs :: u16
  ie_ist :: u8
  ie_flags :: u8
  ie_isr_mid :: u16
  ie_isr_high :: u32
  ie_rsv :: u32

definition x86_64_idt_make :: "uptr list \<Rightarrow> idt_entry_t list" where
  "x86_64_idt_make stub_table =
     map (\<lambda>i. let isr = stub_table ! i
              in \<lparr>ie_isr_low = ucast (isr AND 0xFFFF), ie_kernel_cs = ucast X86_64_GDT_SELECTOR_CODE64_RING0, ie_ist = 0, ie_flags = 0x8E,
                  ie_isr_mid = ucast (drop_bit 16 isr AND 0xFFFF), ie_isr_high = ucast (drop_bit 32 isr AND 0xFFFFFFFF), ie_rsv = 0\<rparr>)
       [0..<256]"

definition x86_64_idt_load :: "uptr \<Rightarrow> x86 \<Rightarrow> x86" where
  "x86_64_idt_load idt st = st\<lparr>x_idtr := (of_nat (16 * 256 - 1), idt)\<rparr>"

section \<open>Model specific registers\<close>

definition X86_64_MSR_APIC_BASE :: u32 where "X86_64_MSR_APIC_BASE = 0x1B"
definition X86_64_MSR_EFER :: u32 where "X86_64_MSR_EFER = 0xC0000080"
definition X86_64_MSR_STAR :: u32 where "X86_64_MSR_STAR = 0xC0000081"
definition X86_64_MSR_LSTAR :: u32 where "X86_64_MSR_LSTAR = 0xC0000082"
definition X86_64_MSR_SFMASK :: u32 where "X86_64_MSR_SFMASK = 0xC0000084"
definition X86_64_MSR_FS_BASE :: u32 where "X86_64_MSR_FS_BASE = 0xC0000100"
definition X86_64_MSR_GS_BASE :: u32 where "X86_64_MSR_GS_BASE = 0xC0000101"
definition X86_64_MSR_KERNEL_GS_BASE :: u32 where "X86_64_MSR_KERNEL_GS_BASE = 0xC0000102"

text \<open>The two halves of a register travel through \<^verbatim>\<open>eax\<close> and \<^verbatim>\<open>edx\<close>.\<close>

definition rdmsr :: "u32 \<Rightarrow> x86 \<Rightarrow> u32 \<times> u32" where
  "rdmsr msr st = (ucast (x_msr st msr), ucast (drop_bit 32 (x_msr st msr)))"

definition wrmsr :: "u32 \<Rightarrow> u32 \<Rightarrow> u32 \<Rightarrow> x86 \<Rightarrow> x86" where
  "wrmsr msr low high st = st\<lparr>x_msr := (x_msr st)(msr := push_bit 32 (ucast high) OR ucast low)\<rparr>"

definition x86_64_msr_read :: "u32 \<Rightarrow> x86 \<Rightarrow> u64" where
  "x86_64_msr_read msr st = (let (low, high) = rdmsr msr st in push_bit 32 (ucast high) OR ucast low)"

definition x86_64_msr_write :: "u32 \<Rightarrow> u64 \<Rightarrow> x86 \<Rightarrow> x86" where
  "x86_64_msr_write msr v = wrmsr msr (ucast v) (ucast (drop_bit 32 v))"

definition x86_64_syscall_init :: "uptr \<Rightarrow> x86 \<Rightarrow> x86" where
  "x86_64_syscall_init arch_syscall_entry st =
     (let st1 = x86_64_msr_write X86_64_MSR_EFER (x86_64_msr_read X86_64_MSR_EFER st OR 1) st;
          st2 = x86_64_msr_write X86_64_MSR_STAR
            (push_bit 48 (X86_64_GDT_SELECTOR_DATA64_RING3 - 8) OR push_bit 32 X86_64_GDT_SELECTOR_CODE64_RING0) st1;
          st3 = x86_64_msr_write X86_64_MSR_LSTAR arch_syscall_entry st2
      in x86_64_msr_write X86_64_MSR_SFMASK (x86_64_msr_read X86_64_MSR_SFMASK st3 OR push_bit 9 1) st3)"

definition arch_syscall_tcb_set :: "uptr \<Rightarrow> x86 \<Rightarrow> x86" where
  "arch_syscall_tcb_set ptr = x86_64_msr_write X86_64_MSR_FS_BASE ptr"

definition arch_cpu_write_thread_reg :: "uptr \<Rightarrow> x86 \<Rightarrow> x86" where
  "arch_cpu_write_thread_reg t = x86_64_msr_write X86_64_MSR_GS_BASE t"

text \<open>The word at offset 0 of the segment, which is the member \<^verbatim>\<open>self\<close> of a thread's context.\<close>

definition arch_cpu_read_thread_reg :: "x86 \<Rightarrow> uptr" where
  "arch_cpu_read_thread_reg st = get_u64 (x_mem st) (x_msr st X86_64_MSR_GS_BASE)"

section \<open>Features\<close>

datatype cpuid_reg = ECX | EDX

record x86_64_cpuid_response_t =
  r_eax :: u32
  r_ebx :: u32
  r_ecx :: u32
  r_edx :: u32

type_synonym cpuid = "u32 \<Rightarrow> u32 \<Rightarrow> x86_64_cpuid_response_t"
type_synonym x86_64_cpuid_feature_t = "cpuid_reg \<times> nat"

definition X86_64_CPUID_FEATURE_FXSR :: x86_64_cpuid_feature_t where "X86_64_CPUID_FEATURE_FXSR = (EDX, 24)"
definition X86_64_CPUID_FEATURE_XSAVE :: x86_64_cpuid_feature_t where "X86_64_CPUID_FEATURE_XSAVE = (ECX, 26)"
definition X86_64_CPUID_FEATURE_AVX :: x86_64_cpuid_feature_t where "X86_64_CPUID_FEATURE_AVX = (ECX, 28)"

text \<open>\<open>cpuid\<close> is the instruction.\<close>

definition x86_64_cpuid_check_feature :: "cpuid \<Rightarrow> x86_64_cpuid_feature_t \<Rightarrow> bool" where
  "x86_64_cpuid_check_feature cpuid feature =
     (let r = cpuid 1 0; v = (case fst feature of ECX \<Rightarrow> r_ecx r | EDX \<Rightarrow> r_edx r)
      in v AND push_bit (snd feature) 1 \<noteq> 0)"

definition x86_64_cpuid_get_reg :: "cpuid \<Rightarrow> u32 \<Rightarrow> u32 \<Rightarrow> x86_64_cpuid_response_t" where
  "x86_64_cpuid_get_reg cpuid eax ecx = cpuid eax ecx"

definition x86_64_fpu_init :: "cpuid \<Rightarrow> x86 \<Rightarrow> x86 res" where
  "x86_64_fpu_init cpuid st =
     (if \<not> x86_64_cpuid_check_feature cpuid X86_64_CPUID_FEATURE_FXSR then Inl Panic
      else if x86_64_cpuid_check_feature cpuid X86_64_CPUID_FEATURE_XSAVE
      then Inr (st\<lparr>x_fpu_area_size := r_ecx (x86_64_cpuid_get_reg cpuid 0xD 0), x_fpu_instr := Some XS\<rparr>)
      else Inr (st\<lparr>x_fpu_area_size := 512, x_fpu_instr := Some FX\<rparr>))"

definition x86_64_fpu_init_cpu :: "cpuid \<Rightarrow> x86 \<Rightarrow> x86" where
  "x86_64_fpu_init_cpu cpuid st =
     (let cr0 = (x_cr0 st AND NOT (push_bit 2 1)) OR push_bit 1 1;
          cr4 = x_cr4 st OR push_bit 9 1 OR push_bit 10 1;
          st1 = st\<lparr>x_cr0 := cr0, x_cr4 := cr4\<rparr>
      in if x86_64_cpuid_check_feature cpuid X86_64_CPUID_FEATURE_XSAVE
         then
           let xcr0 = push_bit 0 1 OR push_bit 1 1;
               xcr0 = (if x86_64_cpuid_check_feature cpuid X86_64_CPUID_FEATURE_AVX then xcr0 OR push_bit 2 1 else xcr0)
           in st1\<lparr>x_cr4 := cr4 OR push_bit 18 1, x_xcr0 := xcr0\<rparr>
         else st1)"

end
