(* ===== verification/Tables_Correct.thy ===== *)
theory Tables_Correct
  imports Tables
begin

text \<open>
  The processor finds in the tables what the kernel means: the handlers, the stack for interrupts, the
  segments of the two sides of a system call; and it finds the I/O ports open to the user.
\<close>

section \<open>How the processor reads the tables\<close>

definition gate_target :: "idt_entry_t \<Rightarrow> uptr" where
  "gate_target e = ucast (ie_isr_low e) OR push_bit 16 (ucast (ie_isr_mid e)) OR push_bit 32 (ucast (ie_isr_high e))"

text \<open>Base, limit, type with the system bit, privilege level and presence of a descriptor.\<close>

definition seg_base32 :: "u64 \<Rightarrow> u64" where
  "seg_base32 w = (drop_bit 16 w AND 0xFFFFFF) OR push_bit 24 (drop_bit 56 w)"

definition seg_limit :: "u64 \<Rightarrow> u64" where
  "seg_limit w = (w AND 0xFFFF) OR push_bit 16 (drop_bit 48 w AND 0xF)"

definition seg_type :: "u64 \<Rightarrow> u64" where
  "seg_type w = drop_bit 40 w AND 0x1F"

definition seg_dpl :: "u64 \<Rightarrow> u64" where
  "seg_dpl w = drop_bit 45 w AND 3"

text \<open>Code segments are for 64 bit mode when bit 53 is set and bit 54 is not; bit 43 tells code from data.\<close>

definition is_code64 :: "u64 \<Rightarrow> bool" where
  "is_code64 w \<longleftrightarrow> bit w 47 \<and> bit w 44 \<and> bit w 43 \<and> bit w 53 \<and> \<not> bit w 54"

definition is_data :: "u64 \<Rightarrow> bool" where
  "is_data w \<longleftrightarrow> bit w 47 \<and> bit w 44 \<and> \<not> bit w 43 \<and> bit w 41"

definition descriptor :: "u64 list \<Rightarrow> u64 \<Rightarrow> u64" where
  "descriptor gdt sel = gdt ! (unat sel div 8)"

definition tss_base :: "u64 list \<Rightarrow> u64 \<Rightarrow> u64" where
  "tss_base gdt sel = seg_base32 (descriptor gdt sel) OR push_bit 32 (gdt ! (unat sel div 8 + 1))"

section \<open>Interrupts\<close>

lemma u64_parts:
  "ucast (ucast (w AND 0xFFFF) :: u16) OR push_bit 16 (ucast (ucast (drop_bit 16 w AND 0xFFFF) :: u16)) OR
   push_bit 32 (ucast (ucast (drop_bit 32 w AND 0xFFFFFFFF) :: u32)) = (w :: u64)"
proof -
  have "(0xFFFF :: u64) = mask 16" "(0xFFFFFFFF :: u64) = mask 32" by (simp_all add: mask_eq_exp_minus_1)
  then show ?thesis by (auto simp: bit_eq_iff bit_simps)
qed

text \<open>Every interrupt reaches its own stub, in the kernel's code segment, through a present gate that masks interrupts
  and that user programs cannot call.\<close>

lemma idt_reaches_stubs:
  assumes "i < 256"
  shows "gate_target (x86_64_idt_make stubs ! i) = stubs ! i \<and>
    ie_kernel_cs (x86_64_idt_make stubs ! i) = 8 \<and> ie_flags (x86_64_idt_make stubs ! i) = 0x8E \<and> length (x86_64_idt_make stubs) = 256"
  using assms u64_parts [of "stubs ! i"]
  by (simp add: x86_64_idt_make_def gate_target_def Let_def X86_64_GDT_SELECTOR_CODE64_RING0_def)

section \<open>The task state segment\<close>

lemma high_bits:
  "16 \<le> n \<Longrightarrow> \<not> bit (v :: u16) n" "8 \<le> n \<Longrightarrow> \<not> bit (b :: u8) n"
  using bit_imp_le_length [of v n] bit_imp_le_length [of b n] by auto

lemma gdt_word_bit:
  "bit (gdt_word e) n \<longleftrightarrow>
    (if n < 16 then bit (ge_limit e) n else if n < 32 then bit (ge_base_low e) (n - 16) else if n < 40 then bit (ge_base_mid e) (n - 32)
     else if n < 48 then bit (ge_access e) (n - 40) else if n < 56 then bit (ge_flags e) (n - 48) else if n < 64 then bit (ge_base_high e) (n - 56) else False)"
proof -
  consider "n < 16" | "16 \<le> n" "n < 32" | "32 \<le> n" "n < 40" | "40 \<le> n" "n < 48" | "48 \<le> n" "n < 56" | "56 \<le> n" "n < 64" | "64 \<le> n" by linarith
  then show ?thesis by cases (simp_all add: gdt_word_def bit_simps high_bits less_imp_diff_less)
qed

lemma gdt_word_parts:
  "seg_base32 (gdt_word e) = ucast (ge_base_low e) OR push_bit 16 (ucast (ge_base_mid e)) OR push_bit 24 (ucast (ge_base_high e))"
  "seg_limit (gdt_word e) = ucast (ge_limit e) OR push_bit 16 (ucast (ge_flags e AND 0xF))"
  "drop_bit 40 (gdt_word e) AND 0xFF = ucast (ge_access e)"
proof -
  have m: "(0xFFFFFF :: u64) = mask 24" "(0xFFFF :: u64) = mask 16" "(0xF :: u64) = mask 4" "(0xF :: u8) = mask 4" "(0xFF :: u64) = mask 8"
    by (simp_all add: mask_eq_exp_minus_1)
  show "seg_base32 (gdt_word e) = ucast (ge_base_low e) OR push_bit 16 (ucast (ge_base_mid e)) OR push_bit 24 (ucast (ge_base_high e))"
  proof (rule bit_word_eqI)
    fix n
    assume "n < LENGTH(64)"
    consider "n < 16" | "16 \<le> n" "n < 24" | "24 \<le> n" "n < 32" | "32 \<le> n" by linarith
    then show "bit (seg_base32 (gdt_word e)) n = bit (ucast (ge_base_low e) OR push_bit 16 (ucast (ge_base_mid e)) OR push_bit 24 (ucast (ge_base_high e)) :: u64) n"
      unfolding seg_base32_def m by cases (simp_all add: bit_simps gdt_word_bit high_bits less_imp_diff_less)
  qed
  show "seg_limit (gdt_word e) = ucast (ge_limit e) OR push_bit 16 (ucast (ge_flags e AND 0xF))"
  proof (rule bit_word_eqI)
    fix n
    assume "n < LENGTH(64)"
    consider "n < 16" | "16 \<le> n" "n < 20" | "20 \<le> n" by linarith
    then show "bit (seg_limit (gdt_word e)) n = bit (ucast (ge_limit e) OR push_bit 16 (ucast (ge_flags e AND 0xF)) :: u64) n"
      unfolding seg_limit_def m by cases (simp_all add: bit_simps gdt_word_bit high_bits less_imp_diff_less, auto)
  qed
  show "drop_bit 40 (gdt_word e) AND 0xFF = ucast (ge_access e)"
  proof (rule bit_word_eqI)
    fix n
    assume "n < LENGTH(64)"
    show "bit (drop_bit 40 (gdt_word e) AND 0xFF) n = bit (ucast (ge_access e) :: u64) n"
      unfolding m by (cases "n < 8") (simp_all add: bit_simps gdt_word_bit high_bits)
  qed
qed

lemma tss_address:
  "(ucast (ucast tss :: u16) OR push_bit 16 (ucast (ucast (drop_bit 16 tss) :: u8)) OR push_bit 24 (ucast (ucast (drop_bit 24 tss) :: u8))) OR
   push_bit 32 (ucast (ucast (drop_bit 32 tss) :: u32)) = (tss :: u64)"
proof (rule bit_word_eqI)
  fix n
  assume n: "n < LENGTH(64)"
  consider "n < 16" | "16 \<le> n" "n < 24" | "24 \<le> n" "n < 32" | "32 \<le> n" by linarith
  then show "bit ((ucast (ucast tss :: u16) OR push_bit 16 (ucast (ucast (drop_bit 16 tss) :: u8)) OR push_bit 24 (ucast (ucast (drop_bit 24 tss) :: u8))) OR
     push_bit 32 (ucast (ucast (drop_bit 32 tss) :: u32)) :: u64) n = bit tss n"
    using n by cases (simp_all add: bit_simps high_bits less_imp_diff_less, auto)
qed

text \<open>After the task state segment of a core is loaded, the task register selects a present descriptor of type
  available task state segment for the kernel that leads to its address, and the descriptors of the other
  segments are as before.\<close>

lemma tss_loaded:
  assumes "length (x_gdt st) = 7"
  shows "let st' = x86_64_gdt_load_tss tss st; sel = ucast (x_tr st'); d = descriptor (x_gdt st') sel
    in tss_base (x_gdt st') sel = tss \<and> seg_limit d = 104 \<and> drop_bit 40 d AND 0xFF = 0x89 \<and> take 5 (x_gdt st') = take 5 (x_gdt st)"
proof -
  let ?e = "\<lparr>ge_limit = 104, ge_base_low = ucast tss, ge_base_mid = ucast (drop_bit 16 tss), ge_access = 0x89, ge_flags = 0x10,
    ge_base_high = ucast (drop_bit 24 tss)\<rparr>"
  have st': "x_gdt (x86_64_gdt_load_tss tss st) = (x_gdt st)[5 := gdt_word ?e, 6 := ucast (ucast (drop_bit 32 tss) :: u32)]"
    "x_tr (x86_64_gdt_load_tss tss st) = 40"
    using assms by (simp_all add: x86_64_gdt_load_tss_def Let_def sizeof_gdt_def gdt_system_words_def SIZEOF_TSS_def ACCESS_PRESENT_def ACCESS_TYPE_TSS_def
      FLAG_SYSTEM_AVL_def push_bit_eq_mult drop_bit_eq_div)
  have "drop_bit 40 (gdt_word ?e) AND 0xFF = 0x89" by (simp add: gdt_word_parts)
  moreover have "seg_limit (gdt_word ?e) = 104" by (simp add: gdt_word_parts)
  moreover have "seg_base32 (gdt_word ?e) OR push_bit 32 (ucast (ucast (drop_bit 32 tss) :: u32)) = tss"
    using tss_address [of tss] by (simp add: gdt_word_parts)
  ultimately show ?thesis using assms by (simp add: Let_def st' tss_base_def descriptor_def)
qed

section \<open>System calls\<close>

lemma msr_write [simp]: "x_msr (x86_64_msr_write r v st) = (x_msr st)(r := v)" "x_gdt (x86_64_msr_write r v st) = x_gdt st"
proof -
  have "push_bit 32 (ucast (ucast (drop_bit 32 v) :: u32)) OR ucast (ucast v :: u32) = v"
  proof (rule bit_word_eqI)
    fix n
    assume n: "n < LENGTH(64)"
    show "bit (push_bit 32 (ucast (ucast (drop_bit 32 v) :: u32)) OR ucast (ucast v :: u32) :: u64) n = bit v n"
      using n by (cases "n < 32") (simp_all add: bit_simps, auto)
  qed
  then show "x_msr (x86_64_msr_write r v st) = (x_msr st)(r := v)" by (simp add: x86_64_msr_write_def wrmsr_def)
qed (simp add: x86_64_msr_write_def wrmsr_def)

text \<open>The selectors the processor takes from the register for \<^verbatim>\<open>syscall\<close> and \<^verbatim>\<open>sysret\<close>: code and stack segment.\<close>

definition syscall_selectors :: "u64 \<Rightarrow> u64 \<times> u64" where
  "syscall_selectors star = (drop_bit 32 star AND 0xFFFC, (drop_bit 32 star AND 0xFFFF) + 8)"

definition sysret_selectors :: "u64 \<Rightarrow> u64 \<times> u64" where
  "sysret_selectors star = ((drop_bit 48 star + 16) OR 3, (drop_bit 48 star + 8) OR 3)"

lemma g_gdt_words: "g_gdt = [0, 0x209A0000000000, 0x920000000000, 0xF20000000000, 0x20FA0000000000, 0, 0]"
  by (simp add: g_gdt_def gdt_word_def flat_segment_def ACCESS_PRESENT_def ACCESS_DPL_def ACCESS_TYPE_CODE_def ACCESS_TYPE_DATA_def FLAG_LONG_def
    push_bit_eq_mult)

text \<open>C27: \<^verbatim>\<open>syscall\<close> enters the entry of the kernel with interrupts masked in the kernel's segments, and \<^verbatim>\<open>sysret\<close> goes back to
  the user's: the selectors that the processor computes are those of the table, and they lead to a 64 bit
  code segment and a writable data segment of level 0 and of level 3.\<close>

theorem syscall_segments:
  assumes "x_gdt st = g_gdt" and st': "st' = x86_64_syscall_init entry_point st"
  shows "syscall_selectors (x_msr st' X86_64_MSR_STAR) = (X86_64_GDT_SELECTOR_CODE64_RING0, X86_64_GDT_SELECTOR_DATA64_RING0) \<and>
    sysret_selectors (x_msr st' X86_64_MSR_STAR) = (X86_64_GDT_SELECTOR_CODE64_RING3, X86_64_GDT_SELECTOR_DATA64_RING3) \<and>
    (let d = descriptor (x_gdt st'); (kcs, kss) = syscall_selectors (x_msr st' X86_64_MSR_STAR); (ucs, uss) = sysret_selectors (x_msr st' X86_64_MSR_STAR)
     in is_code64 (d kcs) \<and> is_data (d kss) \<and> seg_dpl (d kcs) = 0 \<and> seg_dpl (d kss) = 0 \<and>
        is_code64 (d ucs) \<and> is_data (d uss) \<and> seg_dpl (d ucs) = 3 \<and> seg_dpl (d uss) = 3) \<and>
    x_msr st' X86_64_MSR_LSTAR = entry_point \<and> bit (x_msr st' X86_64_MSR_EFER) 0 \<and> bit (x_msr st' X86_64_MSR_SFMASK) 9"
proof -
  have "x_msr st' X86_64_MSR_STAR = 0x13000800000000" "x_msr st' X86_64_MSR_LSTAR = entry_point" "x_gdt st' = g_gdt"
    "bit (x_msr st' X86_64_MSR_EFER) 0" "bit (x_msr st' X86_64_MSR_SFMASK) 9"
    using assms(1) by (simp_all add: st' x86_64_syscall_init_def Let_def X86_64_MSR_STAR_def X86_64_MSR_LSTAR_def X86_64_MSR_EFER_def X86_64_MSR_SFMASK_def
      X86_64_GDT_SELECTOR_DATA64_RING3_def X86_64_GDT_SELECTOR_CODE64_RING0_def push_bit_eq_mult bit_simps)
  then show ?thesis
    by (simp add: syscall_selectors_def sysret_selectors_def descriptor_def g_gdt_words is_code64_def is_data_def seg_dpl_def drop_bit_eq_div
      X86_64_GDT_SELECTOR_CODE64_RING0_def X86_64_GDT_SELECTOR_DATA64_RING0_def X86_64_GDT_SELECTOR_CODE64_RING3_def X86_64_GDT_SELECTOR_DATA64_RING3_def
      push_bit_eq_mult Let_def)
qed

theorem syscall_segments_witness:
  "\<exists>st. x_gdt st = g_gdt \<and> sysret_selectors (x_msr (x86_64_syscall_init 0x1000 st) X86_64_MSR_STAR) = (0x23, 0x1B)"
proof -
  obtain st :: x86 where "x_gdt st = g_gdt" by (metis x86.select_convs(2))
  then show ?thesis using syscall_segments [of st "x86_64_syscall_init 0x1000 st" "0x1000"]
    by (intro exI [of _ st]) (simp add: X86_64_GDT_SELECTOR_CODE64_RING3_def X86_64_GDT_SELECTOR_DATA64_RING3_def push_bit_eq_mult)
qed

section \<open>I/O ports\<close>

text \<open>
  What the processor checks for an access of one byte at user level: the byte of the map that has the bit of
  the port and the next one must lie within the limit of the segment, and the bit must be clear.
\<close>

definition user_port_open :: "bytes \<Rightarrow> uptr \<Rightarrow> u64 \<Rightarrow> nat \<Rightarrow> bool" where
  "user_port_open m tss limit port \<longleftrightarrow>
     (let off = unat (get_u16 m (tss + TSS_IOMAP_BASE)) + port div 8
      in off + 1 \<le> unat limit \<and> \<not> bit (m (tss + of_nat off)) (port mod 8))"

lemma tss_bytes:
  assumes "12 \<le> i" "i < 104"
  shows "x86_64_tss_set_rsp0 tss sp (memset m tss 0 104) (tss + of_nat i) = 0"
proof -
  have i: "unat (of_nat i :: u64) = i" using assms by (intro of_nat_u64) simp
  have "tss + of_nat i \<notin> block (tss + of_nat k) 4" if "k \<le> 8" for k
  proof -
    have "tss + of_nat i - (tss + of_nat k) = of_nat (i - k)" using that assms by (simp add: of_nat_diff)
    moreover have "unat (of_nat (i - k) :: u64) = i - k" using assms by (intro of_nat_u64) simp
    ultimately have "unat (tss + of_nat i - (tss + of_nat k)) = i - k" by (simp only:)
    then show ?thesis using that assms by (subst block_iff) simp_all
  qed
  from this [of 4] this [of 8] have "tss + of_nat i \<notin> block (tss + 4) 4" "tss + of_nat i \<notin> block (tss + 8) 4" by simp_all
  then have "x86_64_tss_set_rsp0 tss sp (memset m tss 0 104) (tss + of_nat i) = memset m tss 0 104 (tss + of_nat i)"
    by (simp add: x86_64_tss_set_rsp0_def put_u32_def put_bytes_block TSS_RSP0_LOWER_def TSS_RSP0_UPPER_def)
  also have "\<dots> = 0" using assms i by (simp add: memset_at)
  finally show ?thesis .
qed

text \<open>C37: user programs may access I/O ports: the base of the I/O permission map stays 0, so the processor takes the task
  state segment itself for the map, and every port from \<^verbatim>\<open>0x60\<close> to \<^verbatim>\<open>0x33F\<close> is open at user level, whatever the
  kernel stack.\<close>

theorem user_ports_open:
  assumes "length (x_gdt st) = 7" "0x60 \<le> port" "port < 0x340"
  shows "let st' = x86_64_gdt_load_tss tss st
    in user_port_open (x86_64_tss_set_rsp0 tss sp (x_mem st')) tss (seg_limit (descriptor (x_gdt st') (ucast (x_tr st')))) port"
proof -
  let ?m = "x86_64_tss_set_rsp0 tss sp (memset (x_mem st) tss 0 104)"
  have lim: "seg_limit (descriptor (x_gdt (x86_64_gdt_load_tss tss st)) (ucast (x_tr (x86_64_gdt_load_tss tss st)))) = 104"
    using tss_loaded [OF assms(1)] by (simp add: Let_def)
  have m: "x_mem (x86_64_gdt_load_tss tss st) = memset (x_mem st) tss 0 104" by (simp add: x86_64_gdt_load_tss_def Let_def SIZEOF_TSS_def)
  have "?m (tss + 102) = 0" "?m (tss + 102 + 1) = 0"
    using tss_bytes [of 102 tss sp "x_mem st"] tss_bytes [of 103 tss sp "x_mem st"] by (simp_all add: add.assoc)
  then have "get_u16 ?m (tss + TSS_IOMAP_BASE) = 0"
    by (simp add: get_u16_def bytes_at_def upt_rec TSS_IOMAP_BASE_def add.assoc)
  moreover have "12 \<le> port div 8" "port div 8 < 104" using assms(2,3) by (simp_all add: less_eq_div_iff_mult_less_eq div_less_iff_less_mult)
  then have "?m (tss + of_nat (port div 8)) = 0" by (rule tss_bytes)
  ultimately show ?thesis using \<open>port div 8 < 104\<close> by (simp add: Let_def user_port_open_def m lim)
qed

theorem user_ports_open_witness:
  "\<exists>st. let st' = x86_64_gdt_load_tss 0x8000 st
     in user_port_open (x86_64_tss_set_rsp0 0x8000 0x7000 (x_mem st')) 0x8000 (seg_limit (descriptor (x_gdt st') (ucast (x_tr st')))) 0x64"
proof -
  obtain st :: x86 where "x_gdt st = g_gdt" by (metis x86.select_convs(2))
  then have "length (x_gdt st) = 7" by (simp add: g_gdt_def)
  then show ?thesis using user_ports_open [of st "0x64" "0x8000" "0x7000"] by auto
qed

end
