(* ===== verification/Interrupts.thy ===== *)
theory Interrupts
  imports Isr_Correct Vmm Run
begin

text \<open>
  The C side of interrupts, \<^verbatim>\<open>kernel/src/arch/x86_64/int.c\<close>: the frame that the stubs leave on the stack, the dispatch and the
  table of handlers.
\<close>

section \<open>The frame\<close>

record cpu_state_t =
  cs_regs :: "reg \<Rightarrow> u64"
  cs_int_no :: u64
  cs_err_code :: u64
  cs_rip :: u64
  cs_cs :: u64
  cs_rflags :: u64
  cs_rsp :: u64
  cs_ss :: u64

text \<open>The general registers in the order of the members; \<^verbatim>\<open>rsp\<close> is not among them.\<close>

definition state_regs :: "reg list" where
  "state_regs = [R15, R14, R13, R12, R11, R10, R9, R8, RDI, RSI, RBP, RDX, RCX, RBX, RAX]"

definition read_cpu_state :: "bytes \<Rightarrow> uptr \<Rightarrow> cpu_state_t" where
  "read_cpu_state m p =
     \<lparr>cs_regs = (\<lambda>r. case map_of (zip state_regs [0..<15]) r of None \<Rightarrow> 0 | Some i \<Rightarrow> get_u64 m (p + 8 * of_nat i)),
      cs_int_no = get_u64 m (p + 120), cs_err_code = get_u64 m (p + 128), cs_rip = get_u64 m (p + 136), cs_cs = get_u64 m (p + 144),
      cs_rflags = get_u64 m (p + 152), cs_rsp = get_u64 m (p + 160), cs_ss = get_u64 m (p + 168)\<rparr>"

section \<open>Dispatch\<close>

text \<open>\<open>i_eoi\<close> counts the writes to the end-of-interrupt register of the local interrupt controller.\<close>

record ('s, 'v) int_state =
  i_vmm :: "('s, 'v) vmm"
  i_eoi :: nat

type_synonym ('s, 'v) handler = "('s, 'v) int_state \<Rightarrow> ('s, 'v) int_state run"

definition PAGE_FAULT :: u64 where "PAGE_FAULT = 14"

definition send_eoi :: "('s, 'v) int_state \<Rightarrow> ('s, 'v) int_state" where
  "send_eoi st = st\<lparr>i_eoi := Suc (i_eoi st)\<rparr>"

text \<open>
  \<open>as\<close> is the address space of the process of the current thread, \<open>cr2\<close> the register with the address of a page fault.
  An exception that is not handled halts the processor, so the function does not return.
\<close>

definition arch_int_handler ::
  "('s, 'v) vmm_env \<Rightarrow> 'v vmm_addr_space_t \<Rightarrow> uptr \<Rightarrow> ('s, 'v) handler option list \<Rightarrow> cpu_state_t \<Rightarrow> ('s, 'v) handler" where
  "arch_int_handler env as cr2 handlers cpu_state st =
     (let n = cs_int_no cpu_state
      in if n < 32
         then
           seq (if n = PAGE_FAULT
                then now (rbind (vmm_pagefault_handler env (i_vmm st) as cr2) (\<lambda>(v, handled). Inr (st\<lparr>i_vmm := v\<rparr>, handled)))
                else ret (st, False))
             (\<lambda>(st1, handled). if handled then ret (send_eoi st1) else None)
         else
           seq (check (unat n < length handlers) OutOfBounds) (\<lambda>_.
           case handlers ! unat n of
             None \<Rightarrow> ret (send_eoi st)
           | Some h \<Rightarrow> seq (h st) (\<lambda>st1. ret (send_eoi st1))))"

definition int_handlers :: "('s, 'v) handler option list" where
  "int_handlers = replicate 256 None"

definition arch_int_register_exception_handler ::
  "u32 \<Rightarrow> ('s, 'v) handler option \<Rightarrow> ('s, 'v) handler option list \<Rightarrow> ('s, 'v) handler option list res" where
  "arch_int_register_exception_handler exception handler handlers =
     (if unat exception < length handlers then Inr (handlers[unat exception := handler]) else Inl OutOfBounds)"

definition arch_int_register_irq_handler ::
  "u32 \<Rightarrow> ('s, 'v) handler option \<Rightarrow> ('s, 'v) handler option list \<Rightarrow> ('s, 'v) handler option list res" where
  "arch_int_register_irq_handler irq handler handlers =
     (let i = unat (32 + irq) in if i < length handlers then Inr (handlers[i := handler]) else Inl OutOfBounds)"

section \<open>What the handler gets\<close>

lemma read_frame:
  assumes "words_at m p (map g (rev switch_regs) @ [n, err, rip, cs, flags, rsp, ss])"
  shows "read_cpu_state m p = \<lparr>cs_regs = g(RSP := 0), cs_int_no = n, cs_err_code = err, cs_rip = rip, cs_cs = cs, cs_rflags = flags, cs_rsp = rsp, cs_ss = ss\<rparr>"
proof -
  have w: "words_at m (p + 120) [n, err, rip, cs, flags, rsp, ss]" "words_at m p (map g (rev switch_regs))"
    using assms by (simp_all add: words_at_append switch_regs)
  have "(case map_of (zip state_regs [0..<15]) r of None \<Rightarrow> 0 | Some i \<Rightarrow> get_u64 m (p + 8 * of_nat i)) = (g(RSP := 0)) r" for r
    using w(2) by (cases r) (simp_all add: state_regs_def switch_regs_def upt_rec add.assoc)
  then show ?thesis using w(1) by (simp add: read_cpu_state_def add.assoc fun_eq_iff)
qed

text \<open>The stub and the handler agree on the frame: what the stub pushes is what the members of the structure name.\<close>

lemma isr_frame:
  assumes "int_entered n err base [rip, cs, flags, rsp, ss] s"
  shows "\<exists>s1. (\<forall>handler. run_code (isr handler n) s = run_code (map Pop (rev switch_regs) @ [SwapgsIfUser 24, AddRsp 16, Iret]) (handler s1)) \<and>
    read_cpu_state (c_mem s1) (c_regs s1 RDI) =
      \<lparr>cs_regs = (c_regs s)(RSP := 0), cs_int_no = of_nat n, cs_err_code = err, cs_rip = rip, cs_cs = cs, cs_rflags = flags, cs_rsp = rsp, cs_ss = ss\<rparr>"
  using isr_before [OF assms] read_frame by metis

section \<open>Handlers\<close>

lemma irq_bound: "irq < 224 \<Longrightarrow> unat (32 + irq :: u32) = 32 + unat irq \<and> 32 + unat irq < 256"
  by (simp add: unat_add_nowrap word_less_nat_alt)

text \<open>C30: a registered handler is called for its interrupt and only for it, the others are dispatched as before, and the end of
  the interrupt is signalled once, after the handler.\<close>

theorem irq_handler_dispatched:
  assumes "length handlers = 256" "irq < 224" "arch_int_register_irq_handler irq (Some h) handlers = r"
  shows "\<exists>handlers'. r = Inr handlers' \<and> length handlers' = 256 \<and>
    (\<forall>st frame. cs_int_no frame = 32 + ucast irq \<longrightarrow> arch_int_handler env as cr2 handlers' frame st = seq (h st) (\<lambda>st1. ret (send_eoi st1))) \<and>
    (\<forall>st frame. cs_int_no frame \<noteq> 32 + ucast irq \<longrightarrow> arch_int_handler env as cr2 handlers' frame st = arch_int_handler env as cr2 handlers frame st)"
proof -
  have b: "unat (32 + irq) = 32 + unat irq" "32 + unat irq < 256" using irq_bound [OF assms(2)] by auto
  have u: "unat (32 + ucast irq :: u64) = 32 + unat irq"
    using b(2) by (simp add: unat_add_nowrap unsigned_ucast_eq take_bit_nat_eq_self)
  have ge: "\<not> (32 + ucast irq :: u64) < 32" by (simp add: word_less_nat_alt u)
  let ?hs = "handlers[32 + unat irq := Some h]"
  have "r = Inr ?hs" using assms(1,3) b by (simp add: arch_int_register_irq_handler_def Let_def)
  moreover have "arch_int_handler env as cr2 ?hs frame st = seq (h st) (\<lambda>st1. ret (send_eoi st1))" if "cs_int_no frame = 32 + ucast irq" for st frame
    using that assms(1) b(2) u ge by (simp add: arch_int_handler_def Let_def)
  moreover have "arch_int_handler env as cr2 ?hs frame st = arch_int_handler env as cr2 handlers frame st" if "cs_int_no frame \<noteq> 32 + ucast irq" for st frame
  proof -
    have "unat (cs_int_no frame) \<noteq> 32 + unat irq" using that u by (auto simp: word_unat_eq_iff)
    then show ?thesis by (simp add: arch_int_handler_def Let_def)
  qed
  ultimately show ?thesis using assms(1) by (intro exI [of _ ?hs]) simp
qed

definition int_frame :: "u64 \<Rightarrow> cpu_state_t" where
  "int_frame n = \<lparr>cs_regs = (\<lambda>_. 0), cs_int_no = n, cs_err_code = 0, cs_rip = 0, cs_cs = 8, cs_rflags = 0, cs_rsp = 0, cs_ss = 0\<rparr>"

theorem irq_handler_dispatched_witness:
  "\<exists>hs. arch_int_register_irq_handler 1 (Some (\<lambda>st. ret (st\<lparr>i_eoi := 6\<rparr>))) (int_handlers :: (nat, nat) handler option list) = Inr hs \<and>
    (\<forall>env as cr2 st. arch_int_handler env as cr2 hs (int_frame 33) st = ret (st\<lparr>i_eoi := 7\<rparr>))"
proof -
  obtain hs where hs: "arch_int_register_irq_handler 1 (Some (\<lambda>st. ret (st\<lparr>i_eoi := 6\<rparr>))) (int_handlers :: (nat, nat) handler option list) = Inr hs"
    by (simp add: arch_int_register_irq_handler_def int_handlers_def Let_def)
  have "arch_int_handler env as cr2 hs (int_frame 33) st = ret (st\<lparr>i_eoi := 7\<rparr>)" for env as cr2 st
    using irq_handler_dispatched [of int_handlers 1, OF _ _ hs, of env as cr2] by (auto simp: int_handlers_def int_frame_def send_eoi_def)
  then show ?thesis using hs by blast
qed

text \<open>C38: handlers registered for exceptions are never called: for every exception number, handler, frame and state the
  dispatch after the registration is the dispatch before it.\<close>

theorem exception_handler_ignored:
  assumes "length handlers = 256" "exception < 32" "arch_int_register_exception_handler exception h handlers = r"
  shows "\<exists>handlers'. r = Inr handlers' \<and> arch_int_handler env as cr2 handlers' = arch_int_handler env as cr2 handlers"
proof -
  let ?hs = "handlers[unat exception := h]"
  have e: "unat exception < 32" using assms(2) by (simp add: word_less_nat_alt)
  have "arch_int_handler env as cr2 ?hs frame st = arch_int_handler env as cr2 handlers frame st" for frame st
  proof (cases "cs_int_no frame < 32")
    case False
    then have "unat (cs_int_no frame) \<noteq> unat exception" using e by (simp add: word_less_nat_alt)
    then show ?thesis by (simp add: arch_int_handler_def Let_def)
  qed (simp add: arch_int_handler_def Let_def)
  moreover have "r = Inr ?hs" using assms(1,3) e by (simp add: arch_int_register_exception_handler_def)
  ultimately show ?thesis by (intro exI [of _ ?hs]) (simp add: fun_eq_iff)
qed

theorem exception_handler_ignored_witness:
  "\<exists>hs. arch_int_register_exception_handler 3 (Some ret) (int_handlers :: (nat, nat) handler option list) = Inr hs \<and>
    (\<forall>env as cr2 st. arch_int_handler env as cr2 hs (int_frame 3) st = None)"
proof -
  obtain hs where hs: "arch_int_register_exception_handler 3 (Some ret) (int_handlers :: (nat, nat) handler option list) = Inr hs"
    by (simp add: arch_int_register_exception_handler_def int_handlers_def)
  have "arch_int_handler env as cr2 hs = arch_int_handler env as cr2 int_handlers" for env as cr2
    using exception_handler_ignored [of int_handlers 3, OF _ _ hs, of env as cr2] by (simp add: int_handlers_def)
  then show ?thesis using hs by (auto simp: arch_int_handler_def int_frame_def PAGE_FAULT_def)
qed

text \<open>A page fault in a segment of the process resumes the program; any other exception stops the processor.\<close>

lemma page_fault_resumes:
  assumes "cs_int_no frame = PAGE_FAULT" "vmm_pagefault_handler env (i_vmm st) as cr2 = Inr (v, handled)"
  shows "arch_int_handler env as cr2 handlers frame st = (if handled then ret (send_eoi (st\<lparr>i_vmm := v\<rparr>)) else None)"
  using assms by (simp add: arch_int_handler_def Let_def PAGE_FAULT_def)

lemma exception_halts:
  "cs_int_no frame < 32 \<Longrightarrow> cs_int_no frame \<noteq> PAGE_FAULT \<Longrightarrow> arch_int_handler env as cr2 handlers frame st = None"
  by (simp add: arch_int_handler_def Let_def)

end
