(* ===== verification/Acpi.thy ===== *)
theory Acpi
  imports Scalars Run
begin

text \<open>
  The tables of the firmware (\<^verbatim>\<open>kernel/src/dev/acpi/acpi.c\<close>) and the I/O interrupt controller they describe
  (\<^verbatim>\<open>kernel/src/arch/x86_64/devices/ioapic.c\<close>).  The tables lie in memory; the registers of the controller are behind
  its two windows.
\<close>

section \<open>Tables\<close>

record acpi =
  a_root_sdt :: uptr
  a_extended :: bool

text \<open>\<open>rsdp\<close> is the answer of the boot loader, \<open>None\<close> when there is none.\<close>

definition SDP_REVISION :: u64 where "SDP_REVISION = 15"
definition SDP_RSDT_ADDR :: u64 where "SDP_RSDT_ADDR = 16"
definition SDP_XSDT_ADDR :: u64 where "SDP_XSDT_ADDR = 24"
definition SDT_LENGTH :: u64 where "SDT_LENGTH = 4"
definition SIZEOF_SDT :: u64 where "SIZEOF_SDT = 36"

definition acpi_init :: "bytes \<Rightarrow> uptr \<Rightarrow> uptr option \<Rightarrow> acpi \<Rightarrow> acpi \<times> bool" where
  "acpi_init m HHDM rsdp st =
     (case rsdp of
        None \<Rightarrow> (st, False)
      | Some sdp \<Rightarrow>
          if sdp = 0 then (st, False)
          else if m (sdp + SDP_REVISION) < 2
          then (st\<lparr>a_root_sdt := ucast (get_u32 m (sdp + SDP_RSDT_ADDR)) + HHDM, a_extended := False\<rparr>, True)
          else (st\<lparr>a_root_sdt := get_u64 m (sdp + SDP_XSDT_ADDR) + HHDM, a_extended := True\<rparr>, True))"

text \<open>The number of entries is an \<^verbatim>\<open>int\<close>.\<close>

definition acpi_entries :: "bytes \<Rightarrow> acpi \<Rightarrow> int" where
  "acpi_entries m st =
     sint (ucast ((ucast (get_u32 m (a_root_sdt st + SDT_LENGTH)) - SIZEOF_SDT) div (if a_extended st then 8 else 4)) :: u32)"

definition acpi_entry :: "bytes \<Rightarrow> uptr \<Rightarrow> acpi \<Rightarrow> nat \<Rightarrow> uptr" where
  "acpi_entry m HHDM st i =
     (if a_extended st then get_u64 m (a_root_sdt st + SIZEOF_SDT + 8 * of_nat i)
      else ucast (get_u32 m (a_root_sdt st + SIZEOF_SDT + 4 * of_nat i))) + HHDM"

fun acpi_loop :: "bytes \<Rightarrow> uptr \<Rightarrow> uptr list \<Rightarrow> uptr" where
  "acpi_loop m signature [] = 0"
| "acpi_loop m signature (sdt # sdts) = (if strncmp m sdt signature 4 = 0 then sdt else acpi_loop m signature sdts)"

definition acpi_lookup :: "bytes \<Rightarrow> uptr \<Rightarrow> acpi \<Rightarrow> uptr \<Rightarrow> uptr res" where
  "acpi_lookup m HHDM st signature =
     rbind (assert_c (a_root_sdt st \<noteq> 0)) (\<lambda>_.
     Inr (acpi_loop m signature (map (acpi_entry m HHDM st) [0..<nat (acpi_entries m st)])))"

section \<open>The I/O interrupt controller\<close>

text \<open>
  The base address, the redirections of the legacy interrupts (number and flags), and the device: the
  selected register and the registers.
\<close>

record ioapic =
  g_ioapic_base :: uptr
  g_irq_redirection_table :: "(u16 \<times> u16) list"
  io_sel :: u32
  io_regs :: "u32 \<Rightarrow> u32"

definition irq_redirection_init :: "(u16 \<times> u16) list" where
  "irq_redirection_init = map (\<lambda>i. (of_nat i, 0)) [0..<16]"

definition ioapic_write :: "u32 \<Rightarrow> u32 \<Rightarrow> ioapic \<Rightarrow> ioapic" where
  "ioapic_write r v st = (let st1 = st\<lparr>io_sel := r\<rparr> in st1\<lparr>io_regs := (io_regs st1)(io_sel st1 := v)\<rparr>)"

definition ioapic_read :: "u32 \<Rightarrow> ioapic \<Rightarrow> ioapic \<times> u32" where
  "ioapic_read r st = (let st1 = st\<lparr>io_sel := r\<rparr> in (st1, io_regs st1 (io_sel st1)))"

definition SIZEOF_MADT :: u64 where "SIZEOF_MADT = 44"
definition MADT_TYPE_IOAPIC :: u8 where "MADT_TYPE_IOAPIC = 1"
definition MADT_TYPE_SOURCE_OVERRIDE :: u8 where "MADT_TYPE_SOURCE_OVERRIDE = 2"

definition madt_entry_at :: "bytes \<Rightarrow> uptr \<Rightarrow> uptr \<Rightarrow> ioapic \<Rightarrow> ioapic run" where
  "madt_entry_at m HHDM ptr st =
     (if m ptr = MADT_TYPE_IOAPIC then ret (st\<lparr>g_ioapic_base := ucast (get_u32 m (ptr + 4)) + HHDM\<rparr>)
      else if m ptr = MADT_TYPE_SOURCE_OVERRIDE then
        let source = unat (m (ptr + 3))
        in seq (check (source < length (g_irq_redirection_table st)) OutOfBounds) (\<lambda>_.
           ret (st\<lparr>g_irq_redirection_table :=
             (g_irq_redirection_table st)[source := (ucast (get_u32 m (ptr + 4)), get_u16 m (ptr + 8))]\<rparr>))
      else ret st)"

partial_function (option) madt_loop :: "bytes \<Rightarrow> uptr \<Rightarrow> uptr \<Rightarrow> uptr \<Rightarrow> ioapic \<Rightarrow> ioapic run" where
  "madt_loop m HHDM fin ptr st =
     (if ptr < fin then seq (madt_entry_at m HHDM ptr st) (\<lambda>st1. madt_loop m HHDM fin (ptr + ucast (m (ptr + 1))) st1)
      else ret st)"

text \<open>\<open>lit\<close> is the address of the literal \<^verbatim>\<open>"APIC"\<close>.\<close>

definition x86_64_ioapic_init :: "bytes \<Rightarrow> uptr \<Rightarrow> acpi \<Rightarrow> uptr \<Rightarrow> ioapic \<Rightarrow> ioapic run" where
  "x86_64_ioapic_init m HHDM acpi lit st =
     seq (now (acpi_lookup m HHDM acpi lit)) (\<lambda>madt.
     if madt = 0 then fail Panic
     else
       seq (madt_loop m HHDM (madt + ucast (get_u32 m (madt + SDT_LENGTH))) (madt + SIZEOF_MADT) st) (\<lambda>st1.
       if g_ioapic_base st1 \<noteq> 0 then ret st1 else fail Panic))"

definition ioapic_redirect :: "u8 \<Rightarrow> bool \<Rightarrow> bool \<Rightarrow> u8 \<Rightarrow> u64" where
  "ioapic_redirect vector low_polarity trigger_mode destination =
     ucast vector OR push_bit 13 (if low_polarity then 1 else 0) OR push_bit 15 (if trigger_mode then 1 else 0) OR
     push_bit 56 (ucast destination)"

definition IOREDTBL :: "u8 \<Rightarrow> u32" where
  "IOREDTBL n = 0x10 + 2 * ucast n"

definition x86_64_ioapic_map_gsi :: "u8 \<Rightarrow> u8 \<Rightarrow> bool \<Rightarrow> bool \<Rightarrow> u8 \<Rightarrow> ioapic \<Rightarrow> ioapic" where
  "x86_64_ioapic_map_gsi gsi lapic_id low_polarity trigger_mode vector st =
     (let e = ioapic_redirect vector low_polarity trigger_mode lapic_id; low = ucast e; high = ucast (drop_bit 32 e)
      in ioapic_write (IOREDTBL gsi + 1) high (ioapic_write (IOREDTBL gsi) low st))"

definition SO_FLAG_POLARITY_LOW :: u16 where "SO_FLAG_POLARITY_LOW = 3"
definition SO_FLAG_POLARITY_HIGH :: u16 where "SO_FLAG_POLARITY_HIGH = 1"
definition SO_TRIGGER_EDGE :: u16 where "SO_TRIGGER_EDGE = 4"
definition SO_TRIGGER_LEVEL :: u16 where "SO_TRIGGER_LEVEL = 12"

definition x86_64_ioapic_map_legacy_irq :: "u8 \<Rightarrow> u8 \<Rightarrow> bool \<Rightarrow> bool \<Rightarrow> u8 \<Rightarrow> ioapic \<Rightarrow> ioapic" where
  "x86_64_ioapic_map_legacy_irq irq lapic_id low_polarity trigger_mode vector st =
     (if irq < 16
      then
        let (dest, flags) = g_irq_redirection_table st ! unat irq;
            low_polarity = (if flags AND 3 = SO_FLAG_POLARITY_LOW then True else if flags AND 3 = SO_FLAG_POLARITY_HIGH then False else low_polarity);
            trigger_mode = (if flags AND 12 = SO_TRIGGER_EDGE then False else if flags AND 12 = SO_TRIGGER_LEVEL then True else trigger_mode)
        in x86_64_ioapic_map_gsi (ucast dest) lapic_id low_polarity trigger_mode vector st
      else x86_64_ioapic_map_gsi irq lapic_id low_polarity trigger_mode vector st)"

end
