(* ===== verification/Acpi_Correct.thy ===== *)
theory Acpi_Correct
  imports Acpi
begin

text \<open>
  The lookup of a table by its signature, and the interrupt controller: its description is read entry by entry,
  and a legacy interrupt is routed as its entry says.
\<close>

section \<open>Lookup\<close>

lemma strncmp_word:
  assumes "\<And>i. i < n \<Longrightarrow> m (q + of_nat i) \<noteq> 0" "n < 2 ^ 64"
  shows "strncmp m p q (of_nat n) = 0 \<longleftrightarrow> bytes_at m p n = bytes_at m q n"
  using assms
proof (induction n arbitrary: p q)
  case 0
  then show ?case by (simp add: strncmp.simps bytes_at_def)
next
  case (Suc n)
  have nz: "(of_nat (Suc n) :: u64) \<noteq> 0" using of_nat_u64 [of "Suc n"] Suc.prems(2) by (metis Zero_not_Suc unat_0)
  have q: "m q \<noteq> 0" using Suc.prems(1) [of 0] by simp
  have split: "bytes_at m r (Suc n) = m r # bytes_at m (r + 1) n" for r
    using bytes_at_append [of m r 1 n] by (simp add: bytes_at_def)
  have "m (q + 1 + of_nat i) \<noteq> 0" if "i < n" for i using Suc.prems(1) [of "Suc i"] that by (simp add: add.assoc)
  then have ih: "strncmp m (p + 1) (q + 1) (of_nat n) = 0 \<longleftrightarrow> bytes_at m (p + 1) n = bytes_at m (q + 1) n"
    using Suc.prems(2) by (intro Suc.IH) simp_all
  show ?case
  proof (cases "m p = m q")
    case True
    then have "strncmp m p q (of_nat (Suc n)) = strncmp m (p + 1) (q + 1) (of_nat n)"
      using nz q by (subst strncmp.simps) simp
    then show ?thesis using ih True by (simp only: split) simp
  next
    case False
    then have "strncmp m p q (of_nat (Suc n)) = uint (m p) - uint (m q)" using nz by (subst strncmp.simps) simp
    then show ?thesis using False by (simp add: split)
  qed
qed

text \<open>The lookup of a firmware table gives the first entry of the root table whose first four bytes are the signature,
  and a null pointer when no entry has them.\<close>

lemma acpi_lookup_correct:
  assumes "a_root_sdt st \<noteq> 0" "\<forall>i < 4. m (sig + of_nat i) \<noteq> 0"
    and "es = map (acpi_entry m HHDM st) [0..<nat (acpi_entries m st)]"
  shows "\<exists>r. acpi_lookup m HHDM st sig = Inr r \<and>
    (if \<exists>e \<in> set es. bytes_at m e 4 = bytes_at m sig 4
     then \<exists>i < length es. r = es ! i \<and> bytes_at m r 4 = bytes_at m sig 4 \<and> (\<forall>j < i. bytes_at m (es ! j) 4 \<noteq> bytes_at m sig 4)
     else r = 0)"
proof -
  have cmp: "strncmp m e sig 4 = 0 \<longleftrightarrow> bytes_at m e 4 = bytes_at m sig 4" for e
    using strncmp_word [of 4 m sig e] assms(2) by simp
  have "if \<exists>e \<in> set ts. bytes_at m e 4 = bytes_at m sig 4
     then \<exists>i < length ts. acpi_loop m sig ts = ts ! i \<and> bytes_at m (acpi_loop m sig ts) 4 = bytes_at m sig 4 \<and>
       (\<forall>j < i. bytes_at m (ts ! j) 4 \<noteq> bytes_at m sig 4)
     else acpi_loop m sig ts = 0" for ts
  proof (induction ts)
    case (Cons t ts)
    show ?case
    proof (cases "bytes_at m t 4 = bytes_at m sig 4")
      case False
      have "\<exists>i < length (t # ts). acpi_loop m sig (t # ts) = (t # ts) ! i \<and> bytes_at m (acpi_loop m sig (t # ts)) 4 = bytes_at m sig 4 \<and>
          (\<forall>j < i. bytes_at m ((t # ts) ! j) 4 \<noteq> bytes_at m sig 4)"
        if ex: "\<exists>e \<in> set ts. bytes_at m e 4 = bytes_at m sig 4"
      proof -
        obtain i where "i < length ts" "acpi_loop m sig ts = ts ! i" "bytes_at m (acpi_loop m sig ts) 4 = bytes_at m sig 4"
          "\<forall>j < i. bytes_at m (ts ! j) 4 \<noteq> bytes_at m sig 4"
          using Cons.IH ex by auto
        then show ?thesis using False cmp by (intro exI [of _ "Suc i"]) (auto simp: nth_Cons split: nat.split)
      qed
      then show ?thesis using Cons.IH False cmp by auto
    qed (auto simp: cmp intro: exI [of _ 0])
  qed simp
  moreover have "acpi_lookup m HHDM st sig = Inr (acpi_loop m sig es)" using assms(1,3) by (simp add: acpi_lookup_def assert_c_def)
  ultimately show ?thesis by blast
qed

section \<open>The description of the interrupt controller\<close>

datatype madt_entry = IOAPIC u8 u32 u32 | OVERRIDE u8 u8 u32 u16 | OTHER u8 "u8 list"

fun madt_bytes :: "madt_entry \<Rightarrow> u8 list" where
  "madt_bytes (IOAPIC i addr gsi) = [1, 12, i, 0] @ le_bytes 4 (ucast addr) @ le_bytes 4 (ucast gsi)"
| "madt_bytes (OVERRIDE bus source gsi flags) = [2, 10, bus, source] @ le_bytes 4 (ucast gsi) @ le_bytes 2 (ucast flags)"
| "madt_bytes (OTHER t bs) = [t, of_nat (2 + length bs)] @ bs"

fun madt_ok :: "madt_entry \<Rightarrow> bool" where
  "madt_ok (IOAPIC i addr gsi) \<longleftrightarrow> True"
| "madt_ok (OVERRIDE bus source gsi flags) \<longleftrightarrow> source < 16"
| "madt_ok (OTHER t bs) \<longleftrightarrow> t \<noteq> 1 \<and> t \<noteq> 2 \<and> 2 + length bs < 256"

text \<open>What an entry means: the base of the controller, and the redirection of a legacy interrupt.\<close>

fun madt_apply :: "uptr \<Rightarrow> madt_entry \<Rightarrow> ioapic \<Rightarrow> ioapic" where
  "madt_apply HHDM (IOAPIC i addr gsi) st = st\<lparr>g_ioapic_base := ucast addr + HHDM\<rparr>"
| "madt_apply HHDM (OVERRIDE bus source gsi flags) st =
     st\<lparr>g_irq_redirection_table := (g_irq_redirection_table st)[unat source := (ucast gsi, flags)]\<rparr>"
| "madt_apply HHDM (OTHER t bs) st = st"

lemma le_word32: "of_nat (le_nat (le_bytes 4 (ucast (v :: u32)))) = v"
proof -
  have "unat v < 4294967296" using unsigned_less [of v, where 'a = nat] by simp
  then show ?thesis by (simp add: le_nat_le_bytes unsigned_ucast_eq take_bit_nat_eq_self)
qed

lemma le_word16: "of_nat (le_nat (le_bytes 2 (ucast (v :: u16)))) = v"
proof -
  have "unat v < 65536" using unsigned_less [of v, where 'a = nat] by simp
  then show ?thesis by (simp add: le_nat_le_bytes unsigned_ucast_eq take_bit_nat_eq_self)
qed

lemma madt_bytes_head:
  assumes "madt_ok e"
  shows "2 \<le> length (madt_bytes e)" "length (madt_bytes e) < 256"
  using assms by (cases e; simp)+

lemma madt_entry_at:
  assumes "bytes_at m p (length (madt_bytes e)) = madt_bytes e" "madt_ok e" "length (g_irq_redirection_table st) = 16"
  shows "madt_entry_at m HHDM p st = ret (madt_apply HHDM e st) \<and> m (p + 1) = of_nat (length (madt_bytes e))"
proof -
  have b: "m (p + of_nat i) = madt_bytes e ! i" if "i < length (madt_bytes e)" for i
  proof -
    have "bytes_at m p (length (madt_bytes e)) ! i = m (p + of_nat i)" using that by (simp add: bytes_at_def)
    then show ?thesis using assms(1) by simp
  qed
  have sub: "bytes_at m (p + of_nat a) n = take n (drop a (madt_bytes e))" if "a + n \<le> length (madt_bytes e)" for a n
    using that b by (intro nth_equalityI) (auto simp: bytes_at_def add.assoc simp flip: of_nat_add)
  show ?thesis
  proof (cases e)
    case (IOAPIC i addr gsi)
    have "get_u32 m (p + 4) = addr" using sub [of 4 4] by (simp add: IOAPIC get_u32_def le_word32)
    then show ?thesis using b [of 0] b [of 1] by (simp add: IOAPIC madt_entry_at_def MADT_TYPE_IOAPIC_def)
  next
    case (OVERRIDE bus source gsi flags)
    have "get_u32 m (p + 4) = gsi" "get_u16 m (p + 8) = flags"
      using sub [of 4 4] sub [of 8 2] by (simp_all add: OVERRIDE get_u32_def get_u16_def le_word32 le_word16)
    moreover have "unat source < 16" using assms(2) by (simp add: OVERRIDE word_less_nat_alt)
    ultimately show ?thesis using b [of 0] b [of 1] b [of 3] assms(3)
      by (simp add: OVERRIDE madt_entry_at_def MADT_TYPE_IOAPIC_def MADT_TYPE_SOURCE_OVERRIDE_def Let_def)
  next
    case (OTHER t bs)
    then show ?thesis using b [of 0] b [of 1] assms(2)
      by (simp add: madt_entry_at_def MADT_TYPE_IOAPIC_def MADT_TYPE_SOURCE_OVERRIDE_def)
  qed
qed

lemma madt_apply_length: "length (g_irq_redirection_table (madt_apply HHDM e st)) = length (g_irq_redirection_table st)"
  by (cases e) simp_all

text \<open>C28: the entries of the firmware's description of the interrupt controllers are read back: for every list of entries
  laid out in memory the loop ends, at the end of the table, with the effect of the entries in their order.\<close>

theorem madt_loop_correct:
  assumes "bytes_at m p (length (concat (map madt_bytes es))) = concat (map madt_bytes es)" "\<forall>e \<in> set es. madt_ok e"
    and "unat p + length (concat (map madt_bytes es)) < 2 ^ 64" "length (g_irq_redirection_table st) = 16"
  shows "madt_loop m HHDM (p + of_nat (length (concat (map madt_bytes es)))) p st = ret (fold (madt_apply HHDM) es st)"
  using assms
proof (induction es arbitrary: p st)
  case Nil
  then show ?case by (simp add: madt_loop.simps)
next
  case (Cons e es)
  let ?n = "length (madt_bytes e)" and ?k = "length (concat (map madt_bytes es))"
  let ?fin = "p + of_nat (length (concat (map madt_bytes (e # es))))"
  have n: "2 \<le> ?n" "?n < 256" using madt_bytes_head [of e] Cons.prems(2) by auto
  have parts: "bytes_at m p ?n = madt_bytes e" "bytes_at m (p + of_nat ?n) ?k = concat (map madt_bytes es)"
    using Cons.prems(1) bytes_at_append [of m p ?n ?k] by simp_all
  have "madt_ok e" using Cons.prems(2) by simp
  from madt_entry_at [OF parts(1) this Cons.prems(4)]
  have step: "madt_entry_at m HHDM p st = ret (madt_apply HHDM e st)" "m (p + 1) = of_nat ?n" by auto
  have "unat (of_nat (?n + ?k) :: u64) = ?n + ?k" using Cons.prems(3) by (intro of_nat_u64) simp
  then have "unat ?fin = unat p + (?n + ?k)" using Cons.prems(3) by (subst unat_add_nowrap) simp_all
  then have "unat p < unat ?fin" using n by linarith
  then have less: "p < ?fin" by (simp only: word_less_nat_alt)
  have adv: "(ucast (m (p + 1)) :: u64) = of_nat ?n"
    using n step(2) by (simp add: word_unat_eq_iff unsigned_ucast_eq unat_of_nat take_bit_nat_eq_self)
  have "unat (of_nat ?n :: u64) = ?n" using n by (intro of_nat_u64) simp
  then have "unat (p + of_nat ?n) = unat p + ?n" using Cons.prems(3) by (subst unat_add_nowrap) simp_all
  then have "madt_loop m HHDM (p + of_nat ?n + of_nat ?k) (p + of_nat ?n) (madt_apply HHDM e st) = ret (fold (madt_apply HHDM) es (madt_apply HHDM e st))"
    using parts(2) Cons.prems by (intro Cons.IH) (simp_all add: madt_apply_length)
  moreover have "p + of_nat ?n + of_nat ?k = ?fin" by (simp add: add.assoc)
  ultimately show ?case using less step adv by (subst madt_loop.simps) simp
qed

definition madt_example :: "madt_entry list" where
  "madt_example = [OTHER 0 [0, 0, 1, 0, 0, 0], IOAPIC 0 0xFEC00000 0, OVERRIDE 0 0 2 0, OVERRIDE 0 9 9 13]"

theorem madt_loop_correct_witness:
  "let bs = concat (map madt_bytes madt_example);
       st = \<lparr>g_ioapic_base = 0, g_irq_redirection_table = irq_redirection_init, io_sel = 0, io_regs = (\<lambda>_. 0)\<rparr>
   in \<exists>st'. madt_loop (put_bytes (\<lambda>_. 0) 0x1000 bs) 0 (0x1000 + of_nat (length bs)) 0x1000 st = ret st' \<and>
        g_ioapic_base st' = 0xFEC00000 \<and> g_irq_redirection_table st' ! 0 = (2, 0) \<and> g_irq_redirection_table st' ! 9 = (9, 13)"
proof -
  let ?bs = "concat (map madt_bytes madt_example)"
    and ?st = "\<lparr>g_ioapic_base = 0, g_irq_redirection_table = irq_redirection_init, io_sel = 0, io_regs = (\<lambda>_. 0)\<rparr>"
  have l: "length ?bs = 40" by (simp add: madt_example_def)
  have "madt_loop (put_bytes (\<lambda>_. 0) 0x1000 ?bs) 0 (0x1000 + of_nat (length ?bs)) 0x1000 ?st = ret (fold (madt_apply 0) madt_example ?st)"
    using bytes_at_put_bytes [of ?bs "\<lambda>_. 0" "0x1000"] l
    by (intro madt_loop_correct) (assumption | simp add: l | simp add: madt_example_def irq_redirection_init_def)+
  then show ?thesis unfolding Let_def
    by (intro exI [of _ "fold (madt_apply 0) madt_example ?st"]) (simp add: madt_example_def irq_redirection_init_def)
qed

text \<open>An entry of length zero in the firmware's description hangs the kernel: the loop over the entries never ends.\<close>

lemma madt_zero_length_hangs:
  assumes "p < fin" "m (p + 1) = 0" "m p \<noteq> 2"
  shows "madt_loop m HHDM fin p st = None"
proof -
  let ?P = "\<lambda>(m :: bytes) (HHDM :: uptr) fin p (st :: ioapic) (r :: ioapic res). \<not> (p < fin \<and> m (p + 1) = 0 \<and> m p \<noteq> 2)"
  have "?P m HHDM fin p st r" if "madt_loop m HHDM fin p st = Some r" for r
  proof (rule madt_loop.raw_induct [where P = ?P, OF _ that])
    fix loop m HHDM fin p st r
    assume IH: "\<And>m HHDM fin p st r. loop m HHDM fin p st = Some r \<Longrightarrow> ?P m HHDM fin p st r"
      and r: "(if p < fin then seq (madt_entry_at m HHDM p st) (loop m HHDM fin (p + ucast (m (p + 1)))) else ret st) = Some r"
    show "?P m HHDM fin p st r"
    proof
      assume h: "p < fin \<and> m (p + 1) = 0 \<and> m p \<noteq> 2"
      have "\<exists>st1. madt_entry_at m HHDM p st = ret st1"
        using h by (auto simp: madt_entry_at_def MADT_TYPE_SOURCE_OVERRIDE_def)
      then obtain st1 where "madt_entry_at m HHDM p st = ret st1" by blast
      then have "loop m HHDM fin p st1 = Some r" using r h by simp
      from IH [OF this] h show False by blast
    qed
  qed
  then show ?thesis using assms by (meson not_None_eq)
qed

section \<open>Legacy interrupts\<close>

text \<open>The fields of a redirection register.\<close>

lemma redirect_words:
  fixes v d :: u8
  shows "ucast (ioapic_redirect v low_polarity trigger d) = (ucast v OR (if low_polarity then 0x2000 else 0) OR (if trigger then 0x8000 else 0) :: u32)"
    "ucast (drop_bit 32 (ioapic_redirect v low_polarity trigger d)) = (push_bit 24 (ucast d) :: u32)"
proof -
  show "ucast (ioapic_redirect v low_polarity trigger d) = (ucast v OR (if low_polarity then 0x2000 else 0) OR (if trigger then 0x8000 else 0) :: u32)"
  proof (rule bit_word_eqI)
    fix n
    assume "n < LENGTH(32)"
    moreover have "(0x2000 :: u32) = push_bit 13 1" "(0x8000 :: u32) = push_bit 15 1" by (simp_all add: push_bit_eq_mult)
    ultimately show "bit (ucast (ioapic_redirect v low_polarity trigger d) :: u32) n =
      bit (ucast v OR (if low_polarity then 0x2000 else 0) OR (if trigger then 0x8000 else 0) :: u32) n"
      by (simp only: ioapic_redirect_def) (cases low_polarity; cases trigger; simp add: bit_simps del: bit_numeral_simps or_numerals)
  qed
  show "ucast (drop_bit 32 (ioapic_redirect v low_polarity trigger d)) = (push_bit 24 (ucast d) :: u32)"
  proof (rule bit_word_eqI)
    fix n
    assume "n < LENGTH(32)"
    moreover have "\<not> bit v (32 + n)" using bit_imp_le_length [of v "32 + n"] by auto
    ultimately show "bit (ucast (drop_bit 32 (ioapic_redirect v low_polarity trigger d)) :: u32) n = bit (push_bit 24 (ucast d) :: u32) n"
      by (cases low_polarity; cases trigger; cases "24 \<le> n") (simp_all add: ioapic_redirect_def bit_simps, auto)
  qed
qed

text \<open>C29: a legacy interrupt is routed as the firmware says: mapping it writes, into the redirection register of the
  global interrupt of its entry, the vector, the target and the polarity and trigger mode of the entry's
  flags, unmasked and with fixed delivery, and changes no other register.\<close>

theorem legacy_irq_routed:
  assumes "irq < 16" "g_irq_redirection_table st ! unat irq = (ucast gsi, flags)"
    and st': "st' = x86_64_ioapic_map_legacy_irq irq lapic_id low trigger vector st"
  shows "io_regs st' = (io_regs st)
    (IOREDTBL gsi := ucast vector OR (if flags AND 3 = 3 \<or> flags AND 3 \<noteq> 1 \<and> low then 0x2000 else 0) OR
       (if flags AND 12 = 12 \<or> flags AND 12 \<noteq> 4 \<and> trigger then 0x8000 else 0),
     IOREDTBL gsi + 1 := push_bit 24 (ucast lapic_id))"
proof -
  have "(ucast (ucast gsi :: u16) :: u8) = gsi" by (rule bit_word_eqI) (simp add: bit_simps)
  then show ?thesis using assms(1,2) unfolding st'
    by (auto simp: x86_64_ioapic_map_legacy_irq_def x86_64_ioapic_map_gsi_def ioapic_write_def redirect_words Let_def
      SO_FLAG_POLARITY_LOW_def SO_FLAG_POLARITY_HIGH_def SO_TRIGGER_EDGE_def SO_TRIGGER_LEVEL_def)
qed

theorem legacy_irq_routed_witness:
  "let st = \<lparr>g_ioapic_base = 0, g_irq_redirection_table = irq_redirection_init[0 := (2, 15)], io_sel = 0, io_regs = (\<lambda>_. 0)\<rparr>
   in io_regs (x86_64_ioapic_map_legacy_irq 0 3 False False 32 st) 0x14 = 0xA020 \<and>
      io_regs (x86_64_ioapic_map_legacy_irq 0 3 False False 32 st) 0x15 = 0x3000000"
  using legacy_irq_routed [of 0 "\<lparr>g_ioapic_base = 0, g_irq_redirection_table = irq_redirection_init[0 := (2, 15)], io_sel = 0, io_regs = (\<lambda>_. 0)\<rparr>" 2 15
      _ 3 False False 32, OF _ _ refl]
  by (simp add: irq_redirection_init_def IOREDTBL_def Let_def push_bit_eq_mult)

end
