(* ===== verification/Timer.thy ===== *)
theory Timer
  imports Run
begin

text \<open>
  The timers of x86_64: the interval timer (\<^verbatim>\<open>devices/pit.c\<close>), the old interrupt controller (\<^verbatim>\<open>devices/pic.c\<close>) and the local
  interrupt controller with its timer (\<^verbatim>\<open>devices/lapic.c\<close>), which is calibrated against the former.
\<close>

section \<open>Devices\<close>

text \<open>
  The devices are an argument: the effect of the accesses to I/O ports (\<^verbatim>\<open>io.h\<close>) and to the registers of the local
  interrupt controller on their state.
\<close>

record 'd hw =
  io_outb :: "u16 \<Rightarrow> u8 \<Rightarrow> 'd \<Rightarrow> 'd"
  io_inb :: "u16 \<Rightarrow> 'd \<Rightarrow> 'd \<times> u8"
  lapic_store :: "u32 \<Rightarrow> u32 \<Rightarrow> 'd \<Rightarrow> 'd"
  lapic_load :: "u32 \<Rightarrow> 'd \<Rightarrow> 'd \<times> u32"

definition PIC_DATA_MASTER :: u16 where "PIC_DATA_MASTER = 0x21"
definition PIC_DATA_SLAVE :: u16 where "PIC_DATA_SLAVE = 0xA1"

definition x86_64_pic_disable :: "'d hw \<Rightarrow> 'd \<Rightarrow> 'd" where
  "x86_64_pic_disable hw d = io_outb hw PIC_DATA_SLAVE 0xFF (io_outb hw PIC_DATA_MASTER 0xFF d)"

section \<open>The interval timer\<close>

definition PIT_DATA_0 :: u16 where "PIT_DATA_0 = 0x40"
definition PIT_CMD :: u16 where "PIT_CMD = 0x43"
definition X86_64_PIT_BASE_FREQ :: u64 where "X86_64_PIT_BASE_FREQ = 1193180"

definition x86_64_pit_set_reload :: "'d hw \<Rightarrow> u16 \<Rightarrow> 'd \<Rightarrow> 'd" where
  "x86_64_pit_set_reload hw v d =
     (let d1 = io_outb hw PIT_CMD 0x34 d; d2 = io_outb hw PIT_DATA_0 (ucast v) d1 in io_outb hw PIT_DATA_0 (ucast (drop_bit 8 v)) d2)"

definition pit_divisor :: "u64 \<Rightarrow> u16" where
  "pit_divisor frequency =
     (let divisor = ucast (X86_64_PIT_BASE_FREQ div frequency)
      in if X86_64_PIT_BASE_FREQ mod frequency > frequency div 2 then divisor + 1 else divisor)"

definition x86_64_pit_set_frequency :: "'d hw \<Rightarrow> u64 \<Rightarrow> 'd \<Rightarrow> 'd res" where
  "x86_64_pit_set_frequency hw frequency d =
     (if frequency = 0 then Inl Undefined else Inr (x86_64_pit_set_reload hw (pit_divisor frequency) d))"

definition x86_64_pit_count :: "'d hw \<Rightarrow> 'd \<Rightarrow> 'd \<times> u16" where
  "x86_64_pit_count hw d =
     (let d1 = io_outb hw PIT_CMD 0 d; (d2, low) = io_inb hw PIT_DATA_0 d1; (d3, high) = io_inb hw PIT_DATA_0 d2
      in (d3, push_bit 8 (ucast high) OR ucast low))"

section \<open>The local interrupt controller\<close>

definition REG_SPURIOUS :: u32 where "REG_SPURIOUS = 0xF0"
definition REG_EOI :: u32 where "REG_EOI = 0xB0"
definition REG_ICR0 :: u32 where "REG_ICR0 = 0x300"
definition REG_ICR1 :: u32 where "REG_ICR1 = 0x310"
definition REG_TIMER_LVT :: u32 where "REG_TIMER_LVT = 0x320"
definition REG_TIMER_DIV :: u32 where "REG_TIMER_DIV = 0x3E0"
definition REG_TIMER_INITIAL_COUNT :: u32 where "REG_TIMER_INITIAL_COUNT = 0x380"
definition REG_TIMER_CURRENT_COUNT :: u32 where "REG_TIMER_CURRENT_COUNT = 0x390"
definition ONE_SHOOT :: u32 where "ONE_SHOOT = push_bit 17 0"
definition LVT_MASK :: u32 where "LVT_MASK = push_bit 16 1"

text \<open>The two static variables.\<close>

record lapic =
  g_lapic_base :: u64
  g_lapic_timer_freq :: u64

definition arch_timer_stop :: "'d hw \<Rightarrow> 'd \<Rightarrow> 'd" where
  "arch_timer_stop hw d = lapic_store hw REG_TIMER_INITIAL_COUNT 0 (lapic_store hw REG_TIMER_LVT LVT_MASK d)"

definition oneshoot_count :: "u64 \<Rightarrow> u64 \<Rightarrow> u32" where
  "oneshoot_count freq us = ucast (us * freq div 1000000)"

definition arch_timer_oneshoot :: "'d hw \<Rightarrow> lapic \<Rightarrow> u32 \<Rightarrow> u64 \<Rightarrow> 'd \<Rightarrow> 'd" where
  "arch_timer_oneshoot hw st irq us d =
     (let d1 = lapic_store hw REG_TIMER_LVT LVT_MASK d;
          d2 = lapic_store hw REG_TIMER_LVT (ONE_SHOOT OR (32 + irq)) d1;
          d3 = lapic_store hw REG_TIMER_DIV 0 d2
      in lapic_store hw REG_TIMER_INITIAL_COUNT (oneshoot_count (g_lapic_timer_freq st) us) d3)"

definition x86_64_lapic_send_eoi :: "'d hw \<Rightarrow> 'd \<Rightarrow> 'd" where
  "x86_64_lapic_send_eoi hw d = lapic_store hw REG_EOI 0 d"

definition x86_64_lapic_ipi :: "'d hw \<Rightarrow> u32 \<Rightarrow> u32 \<Rightarrow> 'd \<Rightarrow> 'd" where
  "x86_64_lapic_ipi hw lapic_id vec d = lapic_store hw REG_ICR0 vec (lapic_store hw REG_ICR1 (push_bit 24 lapic_id) d)"

section \<open>Calibration\<close>

partial_function (option) lapic_wait :: "'d hw \<Rightarrow> 'd \<Rightarrow> 'd option" where
  "lapic_wait hw d = (let (d1, v) = lapic_load hw REG_TIMER_CURRENT_COUNT d in if v \<noteq> 0 then lapic_wait hw d1 else Some d1)"

text \<open>One measurement: the ticks of the interval timer during \<open>ticks\<close> ticks of the local timer.\<close>

definition lapic_measure :: "'d hw \<Rightarrow> u64 \<Rightarrow> 'd \<Rightarrow> ('d \<times> u16) option" where
  "lapic_measure hw ticks d =
     (let d1 = x86_64_pit_set_reload hw 0xFFFF d;
          (d2, pit_start) = x86_64_pit_count hw d1;
          d3 = lapic_store hw REG_TIMER_LVT LVT_MASK d2;
          d4 = lapic_store hw REG_TIMER_INITIAL_COUNT (ucast ticks) d3
      in case lapic_wait hw d4 of
           None \<Rightarrow> None
         | Some d5 \<Rightarrow>
             let d6 = lapic_store hw REG_TIMER_LVT LVT_MASK d5; (d7, pit_end) = x86_64_pit_count hw d6
             in Some (d7, pit_start - pit_end))"

partial_function (option) lapic_calibrate :: "'d hw \<Rightarrow> u64 \<Rightarrow> 'd \<Rightarrow> ('d \<times> u64) option" where
  "lapic_calibrate hw ticks d =
     (case lapic_measure hw ticks d of
        None \<Rightarrow> None
      | Some (d1, delta) \<Rightarrow>
          if delta < 0xFFFF div 4 then lapic_calibrate hw (ticks * 2) d1
          else Some (d1, ticks * X86_64_PIT_BASE_FREQ div ucast delta))"

text \<open>\<open>apic_base\<close> is the model specific register of the base address.\<close>

definition x86_64_lapic_init :: "'d hw \<Rightarrow> uptr \<Rightarrow> u64 \<Rightarrow> lapic \<Rightarrow> 'd \<Rightarrow> ('d \<times> lapic) option" where
  "x86_64_lapic_init hw HHDM apic_base st d =
     (let st1 = st\<lparr>g_lapic_base := (apic_base AND 0xFFFFFFFFFF000) + HHDM\<rparr>;
          d1 = lapic_store hw REG_SPURIOUS (push_bit 8 1 OR 0xFF) d
      in if g_lapic_timer_freq st1 = 0
         then
           case lapic_calibrate hw 8 (lapic_store hw REG_TIMER_DIV 0 d1) of
             None \<Rightarrow> None
           | Some (d2, freq) \<Rightarrow> Some (d2, st1\<lparr>g_lapic_timer_freq := freq\<rparr>)
         else Some (d1, st1))"

section \<open>The timers as devices\<close>

text \<open>
  What the manuals of the two timers say.  Time is counted in picoseconds.  The interval timer, after the control word
  \<^verbatim>\<open>0x34\<close> (counter 0, low byte then high byte, mode 2), takes the two bytes of its reload value and counts down from it 1193180
  times a second, starting over when it would reach 0; the control word 0 latches the count, which is then read byte by byte.  The
  local timer starts to count down when its initial count is written, at a frequency that depends on its divider, and stops at 0.
\<close>

record timers =
  t_now :: nat
  t_low :: "u8 option"
  t_reload :: u16
  t_loaded :: nat
  t_latch :: "u8 list"
  t_div :: u32
  t_initial :: u32
  t_started :: nat

definition later :: "nat \<Rightarrow> timers \<Rightarrow> timers" where
  "later e t = t\<lparr>t_now := t_now t + e\<rparr>"

definition pit_elapsed :: "timers \<Rightarrow> nat" where
  "pit_elapsed t = (t_now t - t_loaded t) * 1193180 div 10 ^ 12"

definition pit_counter :: "timers \<Rightarrow> u16" where
  "pit_counter t = t_reload t - of_nat (pit_elapsed t mod unat (t_reload t))"

definition pit_write :: "u16 \<Rightarrow> u8 \<Rightarrow> timers \<Rightarrow> timers" where
  "pit_write port v t =
     (if port = PIT_CMD then
        if v = 0x34 then t\<lparr>t_low := None, t_latch := []\<rparr>
        else if v = 0 \<and> t_latch t = [] then t\<lparr>t_latch := [ucast (pit_counter t), ucast (drop_bit 8 (pit_counter t))]\<rparr>
        else t
      else if port = PIT_DATA_0 then
        case t_low t of
          None \<Rightarrow> t\<lparr>t_low := Some v\<rparr>
        | Some low \<Rightarrow> t\<lparr>t_low := None, t_reload := push_bit 8 (ucast v) OR ucast low, t_loaded := t_now t\<rparr>
      else t)"

definition pit_read :: "u16 \<Rightarrow> timers \<Rightarrow> timers \<times> u8" where
  "pit_read port t =
     (if port = PIT_DATA_0
      then case t_latch t of [] \<Rightarrow> (t, ucast (pit_counter t)) | b # bs \<Rightarrow> (t\<lparr>t_latch := bs\<rparr>, b)
      else (t, 0))"

definition local_write :: "u32 \<Rightarrow> u32 \<Rightarrow> timers \<Rightarrow> timers" where
  "local_write r v t =
     (if r = REG_TIMER_DIV then t\<lparr>t_div := v\<rparr>
      else if r = REG_TIMER_INITIAL_COUNT then t\<lparr>t_initial := v, t_started := t_now t\<rparr>
      else t)"

definition local_count :: "(u32 \<Rightarrow> nat) \<Rightarrow> timers \<Rightarrow> nat" where
  "local_count freq t = unat (t_initial t) - (t_now t - t_started t) * freq (t_div t) div 10 ^ 12"

text \<open>
  The devices behave like this, for some view of their state, and an access together with the instructions around it takes
  some time, but at most a microsecond.  \<open>freq\<close> is the frequency of the local timer for a setting of its divider.
\<close>

definition ACCESS_TIME :: nat where "ACCESS_TIME = 10 ^ 6"

definition after_access :: "timers \<Rightarrow> timers \<Rightarrow> bool" where
  "after_access t t' \<longleftrightarrow> (\<exists>e. 0 < e \<and> e \<le> ACCESS_TIME \<and> t' = later e t)"

definition timers_ok :: "'d hw \<Rightarrow> ('d \<Rightarrow> timers) \<Rightarrow> (u32 \<Rightarrow> nat) \<Rightarrow> bool" where
  "timers_ok hw view freq \<longleftrightarrow>
     (\<forall>port v d. after_access (pit_write port v (view d)) (view (io_outb hw port v d))) \<and>
     (\<forall>port d. after_access (fst (pit_read port (view d))) (view (fst (io_inb hw port d))) \<and>
        snd (io_inb hw port d) = snd (pit_read port (view d))) \<and>
     (\<forall>r v d. after_access (local_write r v (view d)) (view (lapic_store hw r v d))) \<and>
     (\<forall>r d. after_access (view d) (view (fst (lapic_load hw r d))) \<and>
        (r = REG_TIMER_CURRENT_COUNT \<longrightarrow> snd (lapic_load hw r d) = of_nat (local_count freq (view d))))"

lemma timers_okD:
  assumes "timers_ok hw view freq"
  shows "\<exists>e. 0 < e \<and> e \<le> ACCESS_TIME \<and> view (io_outb hw port b d) = later e (pit_write port b (view d))"
    and "\<exists>e. 0 < e \<and> e \<le> ACCESS_TIME \<and> view (fst (io_inb hw port d)) = later e (fst (pit_read port (view d)))"
    and "snd (io_inb hw port d) = snd (pit_read port (view d))"
    and "\<exists>e. 0 < e \<and> e \<le> ACCESS_TIME \<and> view (lapic_store hw r v d) = later e (local_write r v (view d))"
    and "\<exists>e. 0 < e \<and> e \<le> ACCESS_TIME \<and> view (fst (lapic_load hw r d)) = later e (view d)"
    and "snd (lapic_load hw REG_TIMER_CURRENT_COUNT d) = of_nat (local_count freq (view d))"
  using assms unfolding timers_ok_def after_access_def by blast+

lemma later_sel [simp]:
  "t_now (later e t) = t_now t + e" "t_low (later e t) = t_low t" "t_reload (later e t) = t_reload t" "t_loaded (later e t) = t_loaded t"
  "t_latch (later e t) = t_latch t" "t_div (later e t) = t_div t" "t_initial (later e t) = t_initial t" "t_started (later e t) = t_started t"
  "later e (later e' t) = later (e' + e) t"
  by (simp_all add: later_def)

lemma byte_join: "push_bit 8 (ucast (ucast (drop_bit 8 c) :: u8)) OR ucast (ucast c :: u8) = (c :: u16)"
proof (rule bit_word_eqI)
  fix n
  assume "n < LENGTH(16)"
  then show "bit (push_bit 8 (ucast (ucast (drop_bit 8 c) :: u8)) OR ucast (ucast c :: u8) :: u16) n = bit c n"
    by (cases "n < 8") (simp_all add: bit_simps, auto)
qed

lemma pit_ports [simp]: "PIT_DATA_0 \<noteq> PIT_CMD"
  by (simp add: PIT_DATA_0_def PIT_CMD_def)

lemma local_write_simps [simp]:
  "local_write REG_TIMER_LVT v t = t" "local_write REG_SPURIOUS v t = t" "local_write REG_TIMER_DIV v t = t\<lparr>t_div := v\<rparr>"
  "local_write REG_TIMER_INITIAL_COUNT v t = t\<lparr>t_initial := v, t_started := t_now t\<rparr>"
  by (simp_all add: local_write_def REG_TIMER_LVT_def REG_SPURIOUS_def REG_TIMER_DIV_def REG_TIMER_INITIAL_COUNT_def)

section \<open>One measurement\<close>

lemma pit_set_reload_ok:
  assumes "timers_ok hw view freq" and d': "d' = x86_64_pit_set_reload hw v d"
  shows "t_reload (view d') = v \<and> t_latch (view d') = [] \<and> t_div (view d') = t_div (view d) \<and>
    t_loaded (view d') \<le> t_now (view d') \<and> t_now (view d') \<le> t_loaded (view d') + ACCESS_TIME"
proof -
  let ?d1 = "io_outb hw PIT_CMD 0x34 d" let ?d2 = "io_outb hw PIT_DATA_0 (ucast v) ?d1"
  obtain e1 where e1: "view ?d1 = later e1 (pit_write PIT_CMD 0x34 (view d))" using timers_okD(1) [OF assms(1)] by blast
  obtain e2 where e2: "view ?d2 = later e2 (pit_write PIT_DATA_0 (ucast v) (view ?d1))" using timers_okD(1) [OF assms(1)] by blast
  obtain e3 where e3: "e3 \<le> ACCESS_TIME"
    "view (io_outb hw PIT_DATA_0 (ucast (drop_bit 8 v)) ?d2) = later e3 (pit_write PIT_DATA_0 (ucast (drop_bit 8 v)) (view ?d2))"
    using timers_okD(1) [OF assms(1)] by blast
  have t1: "t_low (view ?d1) = None" "t_latch (view ?d1) = []" "t_div (view ?d1) = t_div (view d)" by (simp_all add: e1 pit_write_def)
  have t2: "t_low (view ?d2) = Some (ucast v)" "t_latch (view ?d2) = []" "t_div (view ?d2) = t_div (view d)"
    using t1 by (simp_all add: e2 pit_write_def)
  show ?thesis using t2 e3(1) byte_join [of v]
    by (simp add: d' x86_64_pit_set_reload_def Let_def e3(2) pit_write_def)
qed

lemma pit_count_ok:
  assumes "timers_ok hw view freq" "t_latch (view d) = []"
  shows "\<exists>d' e. x86_64_pit_count hw d = (d', pit_counter (view d)) \<and> view d' = later e (view d) \<and> e \<le> 3 * ACCESS_TIME"
proof -
  let ?c = "pit_counter (view d)"
  let ?d1 = "io_outb hw PIT_CMD 0 d" let ?d2 = "fst (io_inb hw PIT_DATA_0 ?d1)" let ?d3 = "fst (io_inb hw PIT_DATA_0 ?d2)"
  obtain e1 where e1: "e1 \<le> ACCESS_TIME" "view ?d1 = later e1 (pit_write PIT_CMD 0 (view d))" using timers_okD(1) [OF assms(1)] by blast
  obtain e2 where e2: "e2 \<le> ACCESS_TIME" "view ?d2 = later e2 (fst (pit_read PIT_DATA_0 (view ?d1)))" using timers_okD(2) [OF assms(1)] by blast
  obtain e3 where e3: "e3 \<le> ACCESS_TIME" "view ?d3 = later e3 (fst (pit_read PIT_DATA_0 (view ?d2)))" using timers_okD(2) [OF assms(1)] by blast
  have v1: "view ?d1 = (later e1 (view d))\<lparr>t_latch := [ucast ?c, ucast (drop_bit 8 ?c)]\<rparr>"
    using assms(2) by (simp add: e1 pit_write_def later_def)
  have v2: "view ?d2 = (later (e1 + e2) (view d))\<lparr>t_latch := [ucast (drop_bit 8 ?c)]\<rparr>" by (simp add: e2 v1 pit_read_def later_def)
  have v3: "view ?d3 = later (e1 + e2 + e3) (view d)" using assms(2) by (simp add: e3 v2 pit_read_def later_def)
  have "snd (io_inb hw PIT_DATA_0 ?d1) = ucast ?c" "snd (io_inb hw PIT_DATA_0 ?d2) = ucast (drop_bit 8 ?c)"
    by (simp_all add: timers_okD(3) [OF assms(1)] v1 v2 pit_read_def)
  then have "x86_64_pit_count hw d = (?d3, ?c)"
    by (simp add: x86_64_pit_count_def Let_def case_prod_beta byte_join)
  then show ?thesis using v3 e1(1) e2(1) e3(1) by (intro exI [of _ ?d3] exI [of _ "e1 + e2 + e3"]) simp
qed

text \<open>The loop ends with the access that finds the count at 0.\<close>

lemma lapic_wait_ok:
  assumes "timers_ok hw view freq" "0 < freq (t_div (view d))" "t_started (view d) \<le> t_now (view d)"
    and "(t_now (view d) - t_started (view d)) * freq (t_div (view d)) \<le> unat (t_initial (view d)) * 10 ^ 12 + ACCESS_TIME * freq (t_div (view d))"
  shows "\<exists>d' e. lapic_wait hw d = Some d' \<and> view d' = later e (view d) \<and>
    unat (t_initial (view d)) * 10 ^ 12 \<le> (t_now (view d') - t_started (view d)) * freq (t_div (view d)) \<and>
    (t_now (view d') - t_started (view d)) * freq (t_div (view d)) \<le> unat (t_initial (view d)) * 10 ^ 12 + 2 * ACCESS_TIME * freq (t_div (view d))"
  using assms(2-4)
proof (induction "unat (t_initial (view d)) * 10 ^ 12 - (t_now (view d) - t_started (view d)) * freq (t_div (view d))" arbitrary: d rule: less_induct)
  case less
  let ?t = "view d" let ?F = "freq (t_div ?t)" let ?n = "unat (t_initial ?t)" let ?x = "t_now ?t - t_started ?t"
  obtain e where e: "0 < e" "e \<le> ACCESS_TIME" "view (fst (lapic_load hw REG_TIMER_CURRENT_COUNT d)) = later e ?t"
    using timers_okD(5) [OF assms(1)] by blast
  let ?d1 = "fst (lapic_load hw REG_TIMER_CURRENT_COUNT d)"
  have x1: "t_now (view ?d1) - t_started ?t = ?x + e" using less.prems(2) by (simp add: e)
  have le: "e * ?F \<le> ACCESS_TIME * ?F" using e(2) by simp
  have "local_count freq ?t < 2 ^ 32"
    using unsigned_less [of "t_initial ?t", where 'a = nat] by (simp add: local_count_def)
  then have "snd (lapic_load hw REG_TIMER_CURRENT_COUNT d) = 0 \<longleftrightarrow> local_count freq ?t = 0"
    by (auto simp: timers_okD(6) [OF assms(1)] word_of_nat_eq_0_iff dest: dvd_imp_le)
  moreover have "local_count freq ?t = 0 \<longleftrightarrow> ?n * 10 ^ 12 \<le> ?x * ?F"
    by (simp add: local_count_def less_eq_div_iff_mult_less_eq)
  ultimately have zero: "snd (lapic_load hw REG_TIMER_CURRENT_COUNT d) = 0 \<longleftrightarrow> ?n * 10 ^ 12 \<le> ?x * ?F" by simp
  show ?case
  proof (cases "?n * 10 ^ 12 \<le> ?x * ?F")
    case True
    then have "lapic_wait hw d = Some ?d1" using zero by (simp add: lapic_wait.simps [of hw d] Let_def case_prod_beta)
    moreover have "?n * 10 ^ 12 \<le> (?x + e) * ?F" using True by (simp add: add_mult_distrib)
    moreover have "(?x + e) * ?F \<le> ?n * 10 ^ 12 + 2 * ACCESS_TIME * ?F" using less.prems(3) le unfolding add_mult_distrib by linarith
    ultimately show ?thesis using e(3) x1 by (intro exI [of _ ?d1] exI [of _ e]) simp
  next
    case False
    have "\<exists>d' e'. lapic_wait hw ?d1 = Some d' \<and> view d' = later e' (view ?d1) \<and>
      unat (t_initial (view ?d1)) * 10 ^ 12 \<le> (t_now (view d') - t_started (view ?d1)) * freq (t_div (view ?d1)) \<and>
      (t_now (view d') - t_started (view ?d1)) * freq (t_div (view ?d1)) \<le>
        unat (t_initial (view ?d1)) * 10 ^ 12 + 2 * ACCESS_TIME * freq (t_div (view ?d1))"
    proof (rule less.hyps)
      have "0 < e * ?F" using e(1) less.prems(1) by simp
      then have "?n * 10 ^ 12 - (?x + e) * ?F < ?n * 10 ^ 12 - ?x * ?F" using False unfolding add_mult_distrib by linarith
      then show "unat (t_initial (view ?d1)) * 10 ^ 12 - (t_now (view ?d1) - t_started (view ?d1)) * freq (t_div (view ?d1)) < ?n * 10 ^ 12 - ?x * ?F"
        using x1 by (simp add: e)
      have "(?x + e) * ?F \<le> ?n * 10 ^ 12 + ACCESS_TIME * ?F" using False le unfolding add_mult_distrib by linarith
      then show "(t_now (view ?d1) - t_started (view ?d1)) * freq (t_div (view ?d1)) \<le>
          unat (t_initial (view ?d1)) * 10 ^ 12 + ACCESS_TIME * freq (t_div (view ?d1))"
        using x1 by (simp add: e)
    qed (use less.prems e in simp_all)
    moreover have "lapic_wait hw d = lapic_wait hw ?d1" using zero False by (simp add: lapic_wait.simps [of hw d] Let_def case_prod_beta)
    ultimately show ?thesis using e(3) by (metis later_sel(6,7,8,9))
  qed
qed

lemma elapsed_ticks:
  fixes x D n F :: nat
  assumes "n * 10 ^ 12 \<le> D * F" "D * F \<le> n * 10 ^ 12 + 7 * ACCESS_TIME * F"
    and delta: "delta = (x + D) * 1193180 div 10 ^ 12 - x * 1193180 div 10 ^ 12"
  shows "delta * F \<le> n * 1193180 + 10 * F" "n * 1193180 \<le> delta * F + F"
proof -
  let ?U = "10 ^ 12 :: nat" let ?a = "(x + D) * 1193180 div ?U" let ?b = "x * 1193180 div ?U"
  have "?b * ?U \<le> x * 1193180" "x * 1193180 < ?b * ?U + ?U" "?a * ?U \<le> (x + D) * 1193180" "(x + D) * 1193180 < ?a * ?U + ?U"
    using dividend_less_div_times [of ?U "x * 1193180"] dividend_less_div_times [of ?U "(x + D) * 1193180"] by (simp_all add: algebra_simps)
  moreover have "?b \<le> ?a" by (intro div_le_mono mult_right_mono) simp_all
  ultimately have d: "delta * ?U \<le> D * 1193180 + ?U" "D * 1193180 \<le> delta * ?U + ?U" unfolding delta by auto
  have "delta * ?U * F \<le> (D * 1193180 + ?U) * F" "D * 1193180 * F \<le> (delta * ?U + ?U) * F" using d by (auto intro!: mult_right_mono)
  then have "?U * (delta * F) \<le> 1193180 * (D * F) + ?U * F" "1193180 * (D * F) \<le> ?U * (delta * F) + ?U * F"
    by (simp_all add: algebra_simps)
  then show "delta * F \<le> n * 1193180 + 10 * F" "n * 1193180 \<le> delta * F + F" using assms(1,2) by (simp_all add: ACCESS_TIME_def)
qed

lemma counter_difference:
  assumes "t_reload t = 0xFFFF" "t_reload t' = 0xFFFF" "pit_elapsed t \<le> pit_elapsed t'" "pit_elapsed t' < 65535"
  shows "unat (pit_counter t - pit_counter t') = pit_elapsed t' - pit_elapsed t"
proof -
  have "pit_counter t - pit_counter t' = of_nat (pit_elapsed t' - pit_elapsed t)"
    using assms by (simp add: pit_counter_def of_nat_diff)
  moreover have "unat (of_nat (pit_elapsed t' - pit_elapsed t) :: u16) = pit_elapsed t' - pit_elapsed t"
    by (rule unat_of_nat_small) (use assms(4) in simp)
  ultimately show ?thesis by simp
qed

text \<open>The two counts of a measurement, and the time \<open>D\<close> between them: the ticks of the local timer and seven accesses at most.\<close>

lemma lapic_measure_run:
  assumes ok: "timers_ok hw view freq" and d: "t_div (view d) = 0" and F: "freq 0 = F" "0 < F" and n: "unat ticks < 2 ^ 32"
  shows "\<exists>d' t1 t2 D. lapic_measure hw ticks d = Some (d', pit_counter t1 - pit_counter t2) \<and> t_div (view d') = 0 \<and>
    t_reload t1 = 0xFFFF \<and> t_reload t2 = 0xFFFF \<and> t_loaded t1 \<le> t_now t1 \<and> t_now t1 \<le> t_loaded t1 + ACCESS_TIME \<and>
    t_loaded t2 = t_loaded t1 \<and> t_now t2 = t_now t1 + D \<and>
    unat ticks * 10 ^ 12 \<le> D * F \<and> D * F \<le> unat ticks * 10 ^ 12 + 7 * ACCESS_TIME * F"
proof -
  let ?d1 = "x86_64_pit_set_reload hw 0xFFFF d"
  have d1: "t_reload (view ?d1) = 0xFFFF" "t_latch (view ?d1) = []" "t_div (view ?d1) = 0" "t_loaded (view ?d1) \<le> t_now (view ?d1)"
    "t_now (view ?d1) \<le> t_loaded (view ?d1) + ACCESS_TIME"
    using pit_set_reload_ok [OF ok refl, of "0xFFFF" d] d by simp_all
  obtain d2 e2 where d2: "x86_64_pit_count hw ?d1 = (d2, pit_counter (view ?d1))" "view d2 = later e2 (view ?d1)" "e2 \<le> 3 * ACCESS_TIME"
    using pit_count_ok [OF ok d1(2)] by blast
  obtain e3 where d3: "e3 \<le> ACCESS_TIME" "view (lapic_store hw REG_TIMER_LVT LVT_MASK d2) = later e3 (local_write REG_TIMER_LVT LVT_MASK (view d2))"
    using timers_okD(4) [OF ok] by blast
  let ?d3 = "lapic_store hw REG_TIMER_LVT LVT_MASK d2" let ?d4 = "lapic_store hw REG_TIMER_INITIAL_COUNT (ucast ticks) ?d3"
  obtain e4 where d4: "e4 \<le> ACCESS_TIME" "view ?d4 = later e4 (local_write REG_TIMER_INITIAL_COUNT (ucast ticks) (view ?d3))"
    using timers_okD(4) [OF ok] by blast
  have v3: "view ?d3 = later (e2 + e3) (view ?d1)"
    by (simp add: d3 d2(2))
  have v4: "view ?d4 = (later (e2 + e3 + e4) (view ?d1))\<lparr>t_initial := ucast ticks, t_started := t_now (view ?d1) + e2 + e3\<rparr>"
    by (simp add: d4 v3 later_def)
  have i: "unat (ucast ticks :: u32) = unat ticks" using n by (simp add: unsigned_ucast_eq take_bit_nat_eq_self)
  have t4: "t_initial (view ?d4) = ucast ticks" "t_div (view ?d4) = 0" "t_now (view ?d4) = t_started (view ?d4) + e4"
    using d1(3) by (simp_all add: v4)
  have "e4 * F \<le> ACCESS_TIME * F" using d4(1) by (rule mult_right_mono) simp
  then have "e4 * F \<le> unat ticks * 10 ^ 12 + ACCESS_TIME * F" by linarith
  then obtain d5 e5 where d5': "lapic_wait hw ?d4 = Some d5" "view d5 = later e5 (view ?d4)"
    "unat ticks * 10 ^ 12 \<le> (t_now (view d5) - t_started (view ?d4)) * F"
    "(t_now (view d5) - t_started (view ?d4)) * F \<le> unat ticks * 10 ^ 12 + 2 * ACCESS_TIME * F"
    using lapic_wait_ok [OF ok, of ?d4, unfolded t4 i F(1)] F(2) by auto
  have "t_now (view d5) - t_started (view ?d4) = e4 + e5" by (simp add: d5'(2) t4(3))
  note d5 = d5' [unfolded this]
  obtain e6 where d6: "e6 \<le> ACCESS_TIME" "view (lapic_store hw REG_TIMER_LVT LVT_MASK d5) = later e6 (local_write REG_TIMER_LVT LVT_MASK (view d5))"
    using timers_okD(4) [OF ok] by blast
  let ?d6 = "lapic_store hw REG_TIMER_LVT LVT_MASK d5" let ?D = "e2 + e3 + e4 + e5 + e6"
  have v6: "view ?d6 = later e6 (view d5)"
    by (simp add: d6)
  then have t6: "t_now (view ?d6) = t_now (view ?d1) + ?D" "t_reload (view ?d6) = 0xFFFF" "t_latch (view ?d6) = []" "t_div (view ?d6) = 0"
    "t_loaded (view ?d6) = t_loaded (view ?d1)"
    using d1 by (simp_all add: d5(2) v4)
  obtain d7 e7 where d7: "x86_64_pit_count hw ?d6 = (d7, pit_counter (view ?d6))" "view d7 = later e7 (view ?d6)"
    using pit_count_ok [OF ok t6(3)] by blast
  have D: "unat ticks * 10 ^ 12 \<le> ?D * F" "?D * F \<le> unat ticks * 10 ^ 12 + 7 * ACCESS_TIME * F"
  proof -
    have "(e2 + e3 + e6) * F \<le> 5 * ACCESS_TIME * F" using d2(3) d3(1) d6(1) by (intro mult_right_mono) simp_all
    then show "unat ticks * 10 ^ 12 \<le> ?D * F" "?D * F \<le> unat ticks * 10 ^ 12 + 7 * ACCESS_TIME * F"
      using d5(3,4) by (simp_all add: algebra_simps)
  qed
  have "lapic_measure hw ticks d = Some (d7, pit_counter (view ?d1) - pit_counter (view ?d6))"
    by (simp add: lapic_measure_def Let_def d2(1) d5(1) d7(1))
  then show ?thesis using D d1 t6 d7(2)
    by (intro exI [of _ d7] exI [of _ "view ?d1"] exI [of _ "view ?d6"] exI [of _ ?D] conjI) simp_all
qed

lemma lapic_measure_ok:
  assumes "timers_ok hw view freq" "t_div (view d) = 0" "freq 0 = F" "0 < F" "unat ticks < 2 ^ 32" "unat ticks * 1193180 \<le> 32766 * F"
  shows "\<exists>d' delta. lapic_measure hw ticks d = Some (d', delta) \<and> t_div (view d') = 0 \<and>
    unat delta * F \<le> unat ticks * 1193180 + 10 * F \<and> unat ticks * 1193180 \<le> unat delta * F + F"
proof -
  obtain d' t1 t2 D where m: "lapic_measure hw ticks d = Some (d', pit_counter t1 - pit_counter t2)" "t_div (view d') = 0"
    "t_reload t1 = 0xFFFF" "t_reload t2 = 0xFFFF" "t_loaded t1 \<le> t_now t1" "t_now t1 \<le> t_loaded t1 + ACCESS_TIME"
    "t_loaded t2 = t_loaded t1" "t_now t2 = t_now t1 + D"
    and D: "unat ticks * 10 ^ 12 \<le> D * F" "D * F \<le> unat ticks * 10 ^ 12 + 7 * ACCESS_TIME * F"
    using lapic_measure_run [OF assms(1-5)] by blast
  define x where "x = t_now t1 - t_loaded t1"
  have e: "pit_elapsed t1 = x * 1193180 div 10 ^ 12" "pit_elapsed t2 = (x + D) * 1193180 div 10 ^ 12" "x \<le> ACCESS_TIME"
    using m(5-8) by (simp_all add: pit_elapsed_def x_def)
  have "D * 1193180 * F \<le> (32766 * 10 ^ 12 + 7 * ACCESS_TIME * 1193180) * F"
    using D(2) assms(6) by (simp add: algebra_simps)
  then have "D * 1193180 \<le> 32766 * 10 ^ 12 + 7 * ACCESS_TIME * 1193180"
    using assms(4) by (simp only: mult_le_cancel2)
  then have "(x + D) * 1193180 \<le> 40000 * 10 ^ 12" using e(3) by (simp add: ACCESS_TIME_def)
  then have "pit_elapsed t2 \<le> 40000 * 10 ^ 12 div 10 ^ 12" unfolding e(2) by (rule div_le_mono)
  then have "pit_elapsed t2 < 65535" by simp
  moreover have "pit_elapsed t1 \<le> pit_elapsed t2" unfolding e by (intro div_le_mono mult_right_mono) simp_all
  ultimately have "unat (pit_counter t1 - pit_counter t2) = (x + D) * 1193180 div 10 ^ 12 - x * 1193180 div 10 ^ 12"
    using counter_difference [OF m(3,4)] by (simp only: e)
  from elapsed_ticks [OF D this] m(1,2) show ?thesis by blast
qed

section \<open>The calibrated frequency\<close>

lemma calibrate_ends:
  assumes "timers_ok hw view freq" "freq 0 = F" "0 < F" "F \<le> 100000000000"
    and "t_div (view d) = 0" "0 < unat ticks" "unat ticks * 1193180 \<le> 32766 * F"
  shows "\<exists>d' k delta. lapic_calibrate hw ticks d = Some (d', k * 1193180 div ucast (delta :: u16)) \<and>
    16383 \<le> unat delta \<and> unat delta * F \<le> unat k * 1193180 + 10 * F \<and> unat k * 1193180 \<le> unat delta * F + F \<and> unat k * 1193180 \<le> 32766 * F"
  using assms(5-7)
proof (induction "16384 * F - unat ticks * 1193180" arbitrary: ticks d rule: less_induct)
  case less
  have bound: "unat ticks < 2 ^ 32" using less.prems(3) assms(4) by simp
  obtain d' delta where m: "lapic_measure hw ticks d = Some (d', delta)" "t_div (view d') = 0"
    "unat delta * F \<le> unat ticks * 1193180 + 10 * F" "unat ticks * 1193180 \<le> unat delta * F + F"
    using lapic_measure_ok [OF assms(1) less.prems(1) assms(2,3) bound less.prems(3)] by blast
  show ?case
  proof (cases "delta < 0xFFFF div 4")
    case True
    then have "unat delta \<le> 16382" by (simp add: word_less_nat_alt)
    then have "unat delta * F \<le> 16382 * F" by (rule mult_right_mono) simp
    then have t: "unat ticks * 1193180 \<le> 16383 * F" using m(4) by linarith
    have "unat (ticks * 2) = unat ticks * 2" using bound by (subst unat_mult_lem [THEN iffD1]) simp_all
    then have "\<exists>d'' k delta. lapic_calibrate hw (ticks * 2) d' = Some (d'', k * 1193180 div ucast (delta :: u16)) \<and>
      16383 \<le> unat delta \<and> unat delta * F \<le> unat k * 1193180 + 10 * F \<and> unat k * 1193180 \<le> unat delta * F + F \<and> unat k * 1193180 \<le> 32766 * F"
      using t less.prems(2) m(2) assms(3) by (intro less.hyps) simp_all
    then show ?thesis using m(1) True by (subst lapic_calibrate.simps) simp
  next
    case False
    then have "16383 \<le> unat delta" by (simp add: word_less_nat_alt)
    then show ?thesis using m False less.prems(3)
      by (intro exI [of _ d'] exI [of _ ticks] exI [of _ delta]) (subst lapic_calibrate.simps, simp add: X86_64_PIT_BASE_FREQ_def)
  qed
qed

lemma scaled_le:
  assumes "a * D \<le> b * D + c" "N \<le> (D :: nat)"
  shows "N * a \<le> N * b + c"
proof (cases "a \<le> b")
  case False
  then obtain g where a: "a = b + g" by (metis le_Suc_ex nat_le_linear)
  then have "D * g \<le> c" using assms(1) by (simp add: algebra_simps)
  then have "N * g \<le> c" using assms(2) mult_le_mono1 order_trans by blast
  then show ?thesis by (simp add: a algebra_simps)
qed (simp add: trans_le_add1)

text \<open>C26: the calibration ends.  For timers that behave as their manuals say and accesses of at most a microsecond, whatever the
  frequency \<open>F\<close> of the local timer from 300 Hz to 100 GHz, the loops end, the counter of the interval timer never wraps around, and
  the frequency that is stored is at most \<open>F * (1 + 1 / 16383)\<close> and at least \<open>F * (1 - 10 / 16383) - 1\<close>.\<close>

theorem lapic_calibrated:
  assumes "timers_ok hw view freq" "freq 0 = F" "300 \<le> F" "F \<le> 100000000000" "g_lapic_timer_freq st = 0"
  shows "\<exists>d' st'. x86_64_lapic_init hw HHDM apic_base st d = Some (d', st') \<and>
    16383 * unat (g_lapic_timer_freq st') \<le> 16384 * F \<and> 16373 * F \<le> 16383 * (unat (g_lapic_timer_freq st') + 1)"
proof -
  let ?d1 = "lapic_store hw REG_SPURIOUS (push_bit 8 1 OR 0xFF) d"
  let ?d = "lapic_store hw REG_TIMER_DIV 0 ?d1"
  have "t_div (view ?d) = 0" using timers_okD(4) [OF assms(1), of REG_TIMER_DIV 0 ?d1] by auto
  then obtain d' k delta where c: "lapic_calibrate hw 8 ?d = Some (d', k * 1193180 div ucast (delta :: u16))"
    and delta: "16383 \<le> unat delta" and k: "unat delta * F \<le> unat k * 1193180 + 10 * F" "unat k * 1193180 \<le> unat delta * F + F" "unat k * 1193180 \<le> 32766 * F"
    using calibrate_ends [OF assms(1,2) _ assms(4), of ?d 8] assms(3) by auto
  let ?f = "unat (k * 1193180 div ucast delta)"
  have "unat (k * 1193180) = unat k * 1193180" using k(3) assms(4) by (subst unat_mult_lem [THEN iffD1]) simp_all
  moreover have "unat (ucast delta :: u64) = unat delta"
    using unsigned_less [of delta, where 'a = nat] by (simp add: unsigned_ucast_eq take_bit_nat_eq_self)
  ultimately have f: "?f = unat k * 1193180 div unat delta" by (simp add: unat_div)
  have "?f * unat delta \<le> unat k * 1193180" by (simp add: f)
  then have "?f * unat delta \<le> F * unat delta + F" using k(2) by (simp add: mult.commute)
  then have "16383 * ?f \<le> 16384 * F" using scaled_le [OF _ delta] by fastforce
  moreover have "unat k * 1193180 < (?f + 1) * unat delta"
    using delta by (simp add: f dividend_less_div_times)
  then have "F * unat delta \<le> (?f + 1) * unat delta + 10 * F" using k(1) by (simp add: mult.commute)
  then have "16373 * F \<le> 16383 * (?f + 1)" using scaled_le [OF _ delta] by fastforce
  ultimately show ?thesis using c assms(5) by (simp add: x86_64_lapic_init_def Let_def)
qed

text \<open>A machine whose state is the state of the timers, where every access takes half a microsecond.\<close>

definition plain_timers :: "timers hw" where
  "plain_timers =
     \<lparr>io_outb = (\<lambda>port v t. later 500000 (pit_write port v t)),
      io_inb = (\<lambda>port t. let (t1, v) = pit_read port t in (later 500000 t1, v)),
      lapic_store = (\<lambda>r v t. later 500000 (local_write r v t)),
      lapic_load = (\<lambda>r t. (later 500000 t, if r = REG_TIMER_CURRENT_COUNT then of_nat (local_count (\<lambda>_. 100000000) t) else 0))\<rparr>"

definition timers_start :: timers where
  "timers_start = \<lparr>t_now = 0, t_low = None, t_reload = 0, t_loaded = 0, t_latch = [], t_div = 3, t_initial = 0, t_started = 0\<rparr>"

lemma plain_timers_ok: "timers_ok plain_timers id (\<lambda>_. 100000000)"
  unfolding timers_ok_def after_access_def
  by (intro conjI allI exI [of _ 500000]) (simp_all add: plain_timers_def ACCESS_TIME_def case_prod_beta)

theorem lapic_calibrated_witness:
  "\<exists>d' st'. x86_64_lapic_init plain_timers 0 0xFEE00000 \<lparr>g_lapic_base = 0, g_lapic_timer_freq = 0\<rparr> timers_start = Some (d', st') \<and>
    unat (g_lapic_timer_freq st') \<le> 100006103 \<and> 99938960 \<le> unat (g_lapic_timer_freq st')"
  using lapic_calibrated [OF plain_timers_ok refl, of "\<lparr>g_lapic_base = 0, g_lapic_timer_freq = 0\<rparr>" 0 "0xFEE00000" timers_start] by auto

text \<open>A long one-shot interval is cut to 32 bits: the timer then fires early.\<close>

lemma oneshoot_exact:
  assumes "unat us * unat freq < 2 ^ 64" "unat us * unat freq div 1000000 < 2 ^ 32"
  shows "unat (oneshoot_count freq us) = unat us * unat freq div 1000000"
proof -
  have "unat (us * freq div 1000000) = unat us * unat freq div 1000000"
    using assms(1) by (simp add: unat_div unat_mult_lem [THEN iffD1])
  then show ?thesis using assms(2) by (simp add: oneshoot_count_def unsigned_ucast_eq take_bit_nat_eq_self)
qed

lemma oneshoot_truncates: "oneshoot_count 1000000000 4295000 = 32704"
  by (simp add: oneshoot_count_def)

end
