(* ===== verification/Device.thy ===== *)
theory Device
  imports Klist Acpi Printf Errno
begin

text \<open>
  Buses, devices and drivers (\<^verbatim>\<open>kernel/src/dev/device.c\<close>), character and block devices (\<^verbatim>\<open>char.c\<close>, \<^verbatim>\<open>block.c\<close>, with the partition
  tables of \<^verbatim>\<open>fs/mbr.h\<close> and \<^verbatim>\<open>fs/gpt.h\<close>) and the enumeration of the PCI bus (\<^verbatim>\<open>pci.c\<close>).  The lists are those of theory Klist;
  the node of a structure has its address.  Each function runs under its spin lock and is one step.
\<close>

section \<open>Structures\<close>

record bus_t =
  bus_name :: uptr
  bus_devices :: "uptr list_t"
  bus_drivers :: "uptr list_t"

record device_t =
  dev_name :: uptr
  hardware_data :: uptr
  dev_driver :: uptr
  dev_driver_data :: uptr
  dev_children :: "uptr list_t"

record char_device_t =
  ch_name :: uptr
  ch_driver_data :: uptr
  ch_read :: uptr
  ch_write :: uptr
  ch_ioctl :: uptr
  ch_ref_count :: u64

datatype block_device_type = BLOCK_DEVICE_DRIVE | BLOCK_DEVICE_PARTITION

record block_device_t =
  bd_name :: uptr
  bd_type :: block_device_type
  bd_partitions :: "uptr list_t"
  bd_parent :: uptr
  bd_lba_offset :: u64
  bd_sector_size :: u64
  bd_sector_count :: u64
  bd_read :: uptr
  bd_write :: uptr
  bd_ioctl :: uptr
  bd_driver_data :: uptr
  bd_ref_count :: u64

text \<open>The heap, the memory, the links of the lists, and the structures with the three global lists.\<close>

record 's devs =
  d_al :: 's
  d_bytes :: bytes
  d_nodes :: "uptr nodes"
  d_bus :: "uptr \<Rightarrow> bus_t"
  d_device :: "uptr \<Rightarrow> device_t"
  d_char :: "uptr \<Rightarrow> char_device_t"
  d_block :: "uptr \<Rightarrow> block_device_t"
  g_buses :: "uptr list_t"
  g_char_list :: "uptr list_t"
  g_drive_list :: "uptr list_t"

text \<open>
  What the code calls: the heap, the functions of a driver given by its address (\<open>None\<close> is \<^verbatim>\<open>NULL\<close>), and the
  read function of a block device given by the function's address.
\<close>

record 's dev_env =
  de_heap_alloc :: "'s \<Rightarrow> u64 \<Rightarrow> ('s \<times> uptr) res"
  de_probe_device :: "uptr \<Rightarrow> (uptr \<Rightarrow> 's devs \<Rightarrow> ('s devs \<times> bool) res) option"
  de_setup_device :: "uptr \<Rightarrow> (uptr \<Rightarrow> 's devs \<Rightarrow> 's devs res) option"
  de_read :: "uptr \<Rightarrow> uptr \<Rightarrow> u64 \<Rightarrow> uptr \<Rightarrow> u64 \<Rightarrow> 's devs \<Rightarrow> ('s devs \<times> bool) res"

definition d_alloc :: "'s dev_env \<Rightarrow> u64 \<Rightarrow> 's devs \<Rightarrow> ('s devs \<times> uptr) run" where
  "d_alloc env sz st = seq (now (de_heap_alloc env (d_al st) sz)) (\<lambda>(a, p). ret (st\<lparr>d_al := a\<rparr>, p))"

definition d_strdup :: "'s dev_env \<Rightarrow> uptr \<Rightarrow> 's devs \<Rightarrow> ('s devs \<times> uptr) run" where
  "d_strdup env s st =
     seq (strdup (de_heap_alloc env) (d_al st) (d_bytes st) s) (\<lambda>(a, m, p). ret (st\<lparr>d_al := a, d_bytes := m\<rparr>, p))"

section \<open>Buses\<close>

definition SIZEOF_BUS :: u64 where "SIZEOF_BUS = 80"
definition SIZEOF_DEVICE :: u64 where "SIZEOF_DEVICE = 72"

definition bus_init :: "'s dev_env \<Rightarrow> uptr \<Rightarrow> uptr \<Rightarrow> 's devs \<Rightarrow> 's devs run" where
  "bus_init env bus name st =
     seq (ends (strlen (d_bytes st) name)) (\<lambda>n.
     seq (d_alloc env (n + 1) st) (\<lambda>(st1, p).
     seq (check (bus \<noteq> 0 \<and> p \<noteq> 0) NullDeref) (\<lambda>_.
     seq (ends (strcpy (d_bytes st1) p name)) (\<lambda>m.
     ret (st1\<lparr>d_bytes := m, d_bus := (d_bus st1)(bus := \<lparr>bus_name = p, bus_devices = LIST_INIT, bus_drivers = LIST_INIT\<rparr>),
              d_nodes := (d_nodes st1)(bus := LIST_NODE_INIT)\<rparr>)))))"

definition bus_register :: "uptr \<Rightarrow> 's devs \<Rightarrow> 's devs res" where
  "bus_register bus st = rbind (list_append (d_nodes st) (g_buses st) bus) (\<lambda>(h, l). Inr (st\<lparr>d_nodes := h, g_buses := l\<rparr>))"

partial_function (option) bus_lookup_loop :: "'s devs \<Rightarrow> uptr \<Rightarrow> uptr option \<Rightarrow> uptr run" where
  "bus_lookup_loop st name n =
     (case n of
        None \<Rightarrow> ret 0
      | Some bus \<Rightarrow>
          seq (ends (strcmp (d_bytes st) (bus_name (d_bus st bus)) name)) (\<lambda>c.
          if c = 0 then ret bus else bus_lookup_loop st name (ln_next (d_nodes st bus))))"

definition bus_lookup :: "uptr \<Rightarrow> 's devs \<Rightarrow> uptr run" where
  "bus_lookup name st = bus_lookup_loop st name (l_head (g_buses st))"

definition set_bus :: "uptr \<Rightarrow> bus_t \<Rightarrow> 's devs \<Rightarrow> 's devs" where
  "set_bus bus b st = st\<lparr>d_bus := (d_bus st)(bus := b)\<rparr>"

text \<open>The first driver without a probe function, or whose probe function accepts, ends the loop.\<close>

partial_function (option) probe_loop :: "'s dev_env \<Rightarrow> uptr \<Rightarrow> uptr option \<Rightarrow> 's devs \<Rightarrow> 's devs run" where
  "probe_loop env dev n st =
     (case n of
        None \<Rightarrow> ret st
      | Some drv \<Rightarrow>
          (case de_probe_device env drv of
             None \<Rightarrow> ret st
           | Some probe \<Rightarrow>
               seq (now (probe dev st)) (\<lambda>(st1, accepted).
               if accepted then ret st1 else probe_loop env dev (ln_next (d_nodes st1 drv)) st1)))"

definition bus_register_device :: "'s dev_env \<Rightarrow> uptr \<Rightarrow> uptr \<Rightarrow> 's devs \<Rightarrow> 's devs run" where
  "bus_register_device env bus dev st =
     (let b = d_bus st bus
      in seq (now (list_append (d_nodes st) (bus_devices b) dev)) (\<lambda>(h, l).
         let st1 = set_bus bus (b\<lparr>bus_devices := l\<rparr>) (st\<lparr>d_nodes := h\<rparr>)
         in if dev_driver (d_device st1 dev) = 0 then probe_loop env dev (l_head (bus_drivers (d_bus st1 bus))) st1 else ret st1))"

definition offer_device :: "'s dev_env \<Rightarrow> uptr \<Rightarrow> uptr \<Rightarrow> 's devs \<Rightarrow> 's devs run" where
  "offer_device env drv dev st =
     (if dev_driver (d_device st dev) \<noteq> 0 then ret st
      else
        case de_probe_device env drv of
          None \<Rightarrow> ret st
        | Some probe \<Rightarrow>
            seq (now (probe dev st)) (\<lambda>(st1, accepted).
            if accepted
            then (case de_setup_device env drv of None \<Rightarrow> fail NullDeref | Some setup_dev \<Rightarrow> now (setup_dev dev st1))
            else ret st1))"

partial_function (option) offer_loop :: "'s dev_env \<Rightarrow> uptr \<Rightarrow> uptr option \<Rightarrow> 's devs \<Rightarrow> 's devs run" where
  "offer_loop env drv n st =
     (case n of
        None \<Rightarrow> ret st
      | Some dev \<Rightarrow> seq (offer_device env drv dev st) (\<lambda>st1. offer_loop env drv (ln_next (d_nodes st1 dev)) st1))"

definition bus_register_driver :: "'s dev_env \<Rightarrow> uptr \<Rightarrow> uptr \<Rightarrow> 's devs \<Rightarrow> 's devs run" where
  "bus_register_driver env bus drv st =
     (let b = d_bus st bus
      in seq (now (list_append (d_nodes st) (bus_drivers b) drv)) (\<lambda>(h, l).
         let st1 = set_bus bus (b\<lparr>bus_drivers := l\<rparr>) (st\<lparr>d_nodes := h\<rparr>)
         in offer_loop env drv (l_head (bus_devices (d_bus st1 bus))) st1))"

section \<open>Character devices\<close>

definition SIZEOF_CHAR_DEVICE :: u64 where "SIZEOF_CHAR_DEVICE = 72"

definition char_device_ioctl :: int where
  "char_device_ioctl = - 1"

text \<open>\<open>ioctl\<close> is the address of \<^verbatim>\<open>char_device_ioctl\<close>.\<close>

definition char_device_register_drive :: "'s dev_env \<Rightarrow> uptr \<Rightarrow> uptr \<Rightarrow> uptr \<Rightarrow> uptr \<Rightarrow> uptr \<Rightarrow> 's devs \<Rightarrow> 's devs run" where
  "char_device_register_drive env ioctl name rd wr driver_data st =
     seq (d_alloc env SIZEOF_CHAR_DEVICE st) (\<lambda>(st1, dev).
     seq (d_strdup env name st1) (\<lambda>(st2, nm).
     seq (check (dev \<noteq> 0) NullDeref) (\<lambda>_.
     let st3 = st2\<lparr>d_char := (d_char st2)(dev := \<lparr>ch_name = nm, ch_driver_data = driver_data, ch_read = rd, ch_write = wr, ch_ioctl = ioctl, ch_ref_count = 0\<rparr>),
                   d_nodes := (d_nodes st2)(dev := LIST_NODE_INIT)\<rparr>
     in seq (now (list_append (d_nodes st3) (g_char_list st3) dev)) (\<lambda>(h, l). ret (st3\<lparr>d_nodes := h, g_char_list := l\<rparr>)))))"

section \<open>Block devices\<close>

definition BLKRRPART :: u64 where "BLKRRPART = 0x1000"
definition BLKGETSIZE :: u64 where "BLKGETSIZE = 0x1001"
definition BLKGETSIZE64 :: u64 where "BLKGETSIZE64 = 0x1002"
definition BLKSSZGET :: u64 where "BLKSSZGET = 0x1003"
definition SIZEOF_BLOCK_DEVICE :: u64 where "SIZEOF_BLOCK_DEVICE = 136"

definition set_block_device :: "uptr \<Rightarrow> block_device_t \<Rightarrow> 's devs \<Rightarrow> 's devs" where
  "set_block_device dev b st = st\<lparr>d_block := (d_block st)(dev := b)\<rparr>"

text \<open>The assignment goes to the drive, not to the new structure.  \<open>ioctl\<close> is the address of \<^verbatim>\<open>block_device_ioctl\<close>.\<close>

definition add_partition :: "'s dev_env \<Rightarrow> uptr \<Rightarrow> uptr \<Rightarrow> uptr \<Rightarrow> u64 \<Rightarrow> u64 \<Rightarrow> 's devs \<Rightarrow> 's devs run" where
  "add_partition env ioctl dev name lba_offset sector_count st =
     seq (d_alloc env SIZEOF_BLOCK_DEVICE st) (\<lambda>(st1, part).
     seq (d_strdup env name st1) (\<lambda>(st2, nm).
     let b = d_block st2 dev;
         b1 = \<lparr>bd_name = nm, bd_type = BLOCK_DEVICE_DRIVE, bd_partitions = LIST_INIT, bd_parent = dev, bd_lba_offset = lba_offset,
               bd_sector_size = bd_sector_size b, bd_sector_count = sector_count, bd_read = bd_read b, bd_write = bd_write b, bd_ioctl = ioctl,
               bd_driver_data = bd_driver_data b, bd_ref_count = 0\<rparr>;
         st3 = set_block_device dev b1 (st2\<lparr>d_nodes := (d_nodes st2)(dev := LIST_NODE_INIT)\<rparr>)
     in seq (check (part \<noteq> 0) NullDeref) (\<lambda>_.
        seq (now (list_append (d_nodes st3) (bd_partitions (d_block st3 dev)) part)) (\<lambda>(h, l).
        ret (set_block_device dev ((d_block st3 dev)\<lparr>bd_partitions := l\<rparr>) (st3\<lparr>d_nodes := h\<rparr>))))))"

text \<open>\<open>v\<close> is the address of a pointer variable.  The driver gets that address as its buffer.\<close>

definition read_into_variable :: "'s dev_env \<Rightarrow> uptr \<Rightarrow> uptr \<Rightarrow> u64 \<Rightarrow> 's devs \<Rightarrow> ('s devs \<times> uptr) run" where
  "read_into_variable env v dev lba st =
     (let b = d_block st dev
      in seq (d_alloc env (bd_sector_size b) st) (\<lambda>(st1, p).
         let st2 = st1\<lparr>d_bytes := put_u64 (d_bytes st1) v p\<rparr>
         in seq (now (de_read env (bd_read (d_block st2 dev)) dev lba v 1 st2)) (\<lambda>(st3, _).
            ret (st3, get_u64 (d_bytes st3) v))))"

text \<open>The loop over the four entries of a master boot record; the flag tells whether there is a GPT.\<close>

fun mbr_loop :: "'s dev_env \<Rightarrow> uptr \<Rightarrow> uptr \<Rightarrow> uptr \<Rightarrow> nat list \<Rightarrow> 's devs \<Rightarrow> ('s devs \<times> bool) run" where
  "mbr_loop env ioctl dev mbr_hdr [] st = ret (st, False)"
| "mbr_loop env ioctl dev mbr_hdr (i # is) st =
     (let p = mbr_hdr + 446 + 16 * of_nat i; m = d_bytes st; lba_start = get_u32 m (p + 8); sector_count = get_u32 m (p + 12)
      in if m (p + 4) = 0xEE then ret (st, True)
         else if lba_start \<noteq> 0 \<and> sector_count \<noteq> 0
         then seq (add_partition env ioctl dev 0 (ucast lba_start) (ucast sector_count) st) (mbr_loop env ioctl dev mbr_hdr is)
         else mbr_loop env ioctl dev mbr_hdr is st)"

text \<open>The sizes of the table of a GPT are products of 32 bit numbers.\<close>

definition gpt_entry :: "'s dev_env \<Rightarrow> uptr \<Rightarrow> uptr \<Rightarrow> uptr \<Rightarrow> uptr \<Rightarrow> 's devs \<Rightarrow> nat \<Rightarrow> 's devs run" where
  "gpt_entry env ioctl dev gpt_hdr entries st i =
     (let m = d_bytes st; p = entries + ucast (of_nat i * get_u32 m (gpt_hdr + 84) :: u32);
          lba_start = get_u64 m (p + 32); lba_end = get_u64 m (p + 40)
      in if lba_start \<noteq> 0 \<and> lba_end \<noteq> 0
         then add_partition env ioctl dev (p + 56) lba_start (lba_end - lba_start + 1) st
         else ret st)"

definition gpt_scan :: "'s dev_env \<Rightarrow> uptr \<Rightarrow> uptr \<Rightarrow> uptr \<Rightarrow> uptr \<Rightarrow> 's devs \<Rightarrow> 's devs run" where
  "gpt_scan env ioctl dev efi_part gpt_hdr st =
     (if memcmp (d_bytes st) gpt_hdr efi_part 8 = 0
      then
        let entries_size = ucast (get_u32 (d_bytes st) (gpt_hdr + 80) * get_u32 (d_bytes st) (gpt_hdr + 84) :: u32)
        in seq (d_alloc env entries_size st) (\<lambda>(st1, entries).
           seq (check (bd_sector_size (d_block st1 dev) \<noteq> 0) Undefined) (\<lambda>_.
           seq (now (de_read env (bd_read (d_block st1 dev)) dev (get_u64 (d_bytes st1) (gpt_hdr + 72)) entries
             (entries_size div bd_sector_size (d_block st1 dev)) st1)) (\<lambda>(st2, _).
           run_each (gpt_entry env ioctl dev gpt_hdr entries) [0..<unat (get_u32 (d_bytes st2) (gpt_hdr + 80))] st2)))
      else ret st)"

text \<open>\<open>v1\<close> and \<open>v2\<close> are the addresses of the variables \<^verbatim>\<open>mbr_hdr\<close> and \<^verbatim>\<open>gpt_hdr\<close>, \<open>efi_part\<close> that of the literal.\<close>

definition read_part_table :: "'s dev_env \<Rightarrow> uptr \<Rightarrow> uptr \<Rightarrow> uptr \<Rightarrow> uptr \<Rightarrow> uptr \<Rightarrow> 's devs \<Rightarrow> ('s devs \<times> int) run" where
  "read_part_table env ioctl efi_part v1 v2 dev st =
     (let b = d_block st dev
      in if bd_type b \<noteq> BLOCK_DEVICE_DRIVE then ret (st, - 1)
         else if bd_read b = 0 \<or> bd_write b = 0 \<or> bd_ioctl b = 0 then fail Panic
         else
           seq (read_into_variable env v1 dev 0 st) (\<lambda>(st1, mbr_hdr).
           seq (if get_u16 (d_bytes st1) (mbr_hdr + 510) = 0xAA55 then mbr_loop env ioctl dev mbr_hdr [0..<4] st1 else ret (st1, False)) (\<lambda>(st2, gpt_disk).
           if \<not> gpt_disk then ret (st2, EOK)
           else
             seq (read_into_variable env v2 dev 1 st2) (\<lambda>(st3, gpt_hdr).
             seq (gpt_scan env ioctl dev efi_part gpt_hdr st3) (\<lambda>st4. ret (st4, EOK))))))"

definition block_device_ioctl :: "'s dev_env \<Rightarrow> uptr \<Rightarrow> uptr \<Rightarrow> uptr \<Rightarrow> uptr \<Rightarrow> uptr \<Rightarrow> u64 \<Rightarrow> uptr \<Rightarrow> 's devs \<Rightarrow> ('s devs \<times> int) run" where
  "block_device_ioctl env ioctl efi_part v1 v2 self request args st =
     (let b = d_block st self; m = d_bytes st
      in if request = BLKRRPART then read_part_table env ioctl efi_part v1 v2 self st
         else if request = BLKGETSIZE then
           ret (if args = 0 then (st, - 1) else (st\<lparr>d_bytes := put_u32 m args (ucast (bd_sector_count b))\<rparr>, EOK))
         else if request = BLKGETSIZE64 then
           ret (if args = 0 then (st, - 1) else (st\<lparr>d_bytes := put_u64 m args (bd_sector_count b * bd_sector_size b)\<rparr>, EOK))
         else if request = BLKSSZGET then
           ret (if args = 0 then (st, - 1) else (st\<lparr>d_bytes := put_u32 m args (ucast (bd_sector_size b))\<rparr>, EOK))
         else ret (st, EINVAL))"

definition block_device_register_drive ::
  "'s dev_env \<Rightarrow> uptr \<Rightarrow> uptr \<Rightarrow> u64 \<Rightarrow> u64 \<Rightarrow> uptr \<Rightarrow> uptr \<Rightarrow> uptr \<Rightarrow> 's devs \<Rightarrow> 's devs run" where
  "block_device_register_drive env ioctl name sector_size sector_count rd wr driver_data st =
     seq (d_alloc env SIZEOF_BLOCK_DEVICE st) (\<lambda>(st1, dev).
     seq (d_strdup env name st1) (\<lambda>(st2, nm).
     seq (check (dev \<noteq> 0) NullDeref) (\<lambda>_.
     let b = \<lparr>bd_name = nm, bd_type = BLOCK_DEVICE_DRIVE, bd_partitions = LIST_INIT, bd_parent = 0, bd_lba_offset = 0,
              bd_sector_size = sector_size, bd_sector_count = sector_count, bd_read = rd, bd_write = wr, bd_ioctl = ioctl,
              bd_driver_data = driver_data, bd_ref_count = 0\<rparr>;
         st3 = set_block_device dev b (st2\<lparr>d_nodes := (d_nodes st2)(dev := LIST_NODE_INIT)\<rparr>)
     in seq (now (list_append (d_nodes st3) (g_drive_list st3) dev)) (\<lambda>(h, l). ret (st3\<lparr>d_nodes := h, g_drive_list := l\<rparr>)))))"

section \<open>The PCI bus\<close>

text \<open>The functions of the buses of a segment, in the order of the three loops, and the address of their configuration.\<close>

definition pci_functions :: "nat \<Rightarrow> nat \<Rightarrow> (nat \<times> nat \<times> nat) list" where
  "pci_functions bus_start bus_end =
     List.product [bus_start..<Suc bus_end] (List.product [0..<32] [0..<8])"

definition pci_address :: "uptr \<Rightarrow> uptr \<Rightarrow> nat \<times> nat \<times> nat \<Rightarrow> uptr" where
  "pci_address HHDM base f =
     (case f of (bus, dev, func) \<Rightarrow>
        HHDM + base + (push_bit 20 (of_nat bus) OR push_bit 15 (of_nat dev) OR push_bit 12 (of_nat func)))"

text \<open>\<open>fmt\<close> is the address of the format of the name.\<close>

definition pci_scan :: "'s dev_env \<Rightarrow> uptr \<Rightarrow> uptr \<Rightarrow> 's devs \<Rightarrow> uptr \<Rightarrow> 's devs run" where
  "pci_scan env bus_pci fmt st hdr =
     (let m = d_bytes st
      in if get_u16 m hdr = 0xFFFF then ret st
         else
           seq (d_alloc env SIZEOF_DEVICE st) (\<lambda>(st1, dev).
           seq (d_alloc env 32 st1) (\<lambda>(st2, nm).
           seq (check (dev \<noteq> 0) NullDeref) (\<lambda>_.
           let st3 = st2\<lparr>d_device := (d_device st2)(dev := \<lparr>dev_name = nm, hardware_data = hdr, dev_driver = 0, dev_driver_data = 0, dev_children = LIST_INIT\<rparr>),
                         d_nodes := (d_nodes st2)(dev := LIST_NODE_INIT)\<rparr>
           in seq (sprintf (d_bytes st3) nm fmt [ucast (get_u16 m hdr), ucast (get_u16 m (hdr + 2)), ucast (m (hdr + 11)), ucast (m (hdr + 10)), ucast (m (hdr + 9))])
                (\<lambda>(m1, _). bus_register_device env bus_pci dev (st3\<lparr>d_bytes := m1\<rparr>))))))"

definition SIZEOF_MCFG :: u64 where "SIZEOF_MCFG = 44"

definition pci_segment :: "'s dev_env \<Rightarrow> uptr \<Rightarrow> uptr \<Rightarrow> uptr \<Rightarrow> uptr \<Rightarrow> 's devs \<Rightarrow> nat \<Rightarrow> 's devs run" where
  "pci_segment env HHDM bus_pci fmt mcfg st i =
     (let m = d_bytes st; seg = mcfg + SIZEOF_MCFG + 16 * of_nat i
      in run_each (pci_scan env bus_pci fmt)
           (map (pci_address HHDM (get_u64 m seg)) (pci_functions (unat (m (seg + 10))) (unat (m (seg + 11))))) st)"

text \<open>\<open>mcfg_lit\<close>, \<open>pci_lit\<close> and \<open>fmt\<close> are the addresses of the literals.\<close>

definition pci_init :: "'s dev_env \<Rightarrow> uptr \<Rightarrow> acpi \<Rightarrow> uptr \<Rightarrow> uptr \<Rightarrow> uptr \<Rightarrow> 's devs \<Rightarrow> 's devs run" where
  "pci_init env HHDM acpi mcfg_lit pci_lit fmt st =
     seq (now (acpi_lookup (d_bytes st) HHDM acpi mcfg_lit)) (\<lambda>mcfg.
     if mcfg = 0 then ret st
     else
       seq (d_alloc env SIZEOF_BUS st) (\<lambda>(st1, bus_pci).
       seq (bus_init env bus_pci pci_lit st1) (\<lambda>st2.
       seq (now (bus_register bus_pci st2)) (\<lambda>st3.
       run_each (pci_segment env HHDM bus_pci fmt mcfg)
         [0..<unat ((ucast (get_u32 (d_bytes st3) (mcfg + SDT_LENGTH)) - SIZEOF_MCFG) div 16)] st3))))"

end
