(* ===== verification/Device_Correct.thy ===== *)
theory Device_Correct
  imports Device
begin

text \<open>
  The registry of buses finds what was registered; drivers are offered the devices of their bus, but devices that
  come after their driver are never set up; a partition replaces its drive; and the configuration addresses of
  PCI functions are all different.
\<close>

section \<open>Buses\<close>

lemma bus_lookup_linked:
  assumes "linked (d_nodes st) p (xs @ [bus]) None" "str_at (d_bytes st) q (nm bus)"
    and "\<forall>x \<in> set (xs @ [bus]). str_at (d_bytes st) (bus_name (d_bus st x)) (nm x)" "\<forall>x \<in> set xs. nm x \<noteq> nm bus"
  shows "bus_lookup_loop st q (first_of (xs @ [bus]) None) = ret bus"
  using assms
proof (induction xs arbitrary: p)
  case Nil
  then obtain r where "strcmp (d_bytes st) (bus_name (d_bus st bus)) q = Some r" "r = 0"
    using strcmp_at [of "d_bytes st" "bus_name (d_bus st bus)" "nm bus" q "nm bus"] by auto
  then show ?case by (simp add: bus_lookup_loop.simps)
next
  case (Cons x xs)
  then obtain r where "strcmp (d_bytes st) (bus_name (d_bus st x)) q = Some r" "r \<noteq> 0"
    using strcmp_at [of "d_bytes st" "bus_name (d_bus st x)" "nm x" q "nm bus"] by auto
  moreover have "bus_lookup_loop st q (first_of (xs @ [bus]) None) = ret bus"
    using Cons.prems by (intro Cons.IH [of "Some x"]) auto
  moreover have "ln_next (d_nodes st x) = first_of (xs @ [bus]) None" using Cons.prems(1) by simp
  ultimately show ?case by (simp add: bus_lookup_loop.simps [of st q "Some x"])
qed

text \<open>A bus that was registered under a name that no bus before it has is what the lookup of the name returns.\<close>

lemma bus_register_lookup:
  assumes "list_rep (d_nodes st) (g_buses st) xs" "bus \<notin> set xs" "Suc (length xs) < 2 ^ 64"
    and "\<forall>x \<in> insert bus (set xs). str_at (d_bytes st) (bus_name (d_bus st x)) (nm x)" "\<forall>x \<in> set xs. nm x \<noteq> nm bus"
    and "str_at (d_bytes st) q (nm bus)"
  shows "\<exists>st'. bus_register bus st = Inr st' \<and> bus_lookup q st' = ret bus"
proof -
  obtain h l where a: "list_append (d_nodes st) (g_buses st) bus = Inr (h, l)" "list_rep h l (xs @ [bus])"
    using list_append_rep [OF assms(1-3)] by blast
  let ?st = "st\<lparr>d_nodes := h, g_buses := l\<rparr>"
  have "linked (d_nodes ?st) None (xs @ [bus]) None" "l_head l = first_of (xs @ [bus]) None" using a(2) by (auto simp: list_rep_def)
  with bus_lookup_linked [of ?st None xs bus q nm] have "bus_lookup q ?st = ret bus"
    using assms(4-6) by (simp add: bus_lookup_def)
  then show ?thesis using a(1) by (simp add: bus_register_def)
qed

section \<open>Drivers and devices\<close>

lemma offer_linked:
  assumes "linked (d_nodes st) p xs None" "\<And>dev s s'. offer_device env drv dev s = ret s' \<Longrightarrow> d_nodes s' = d_nodes s"
  shows "offer_loop env drv (first_of xs None) st = run_each (\<lambda>s dev. offer_device env drv dev s) xs st"
  using assms(1)
proof (induction xs arbitrary: p st)
  case (Cons x xs)
  show ?case
  proof (cases "offer_device env drv x st")
    case (Some r)
    show ?thesis
    proof (cases r)
      case (Inr s')
      then have o: "offer_device env drv x st = ret s'" using Some by (simp add: ret_def)
      then have "d_nodes s' = d_nodes st" by (rule assms(2))
      then have "offer_loop env drv (first_of xs None) s' = run_each (\<lambda>s dev. offer_device env drv dev s) xs s'"
        using Cons.prems by (intro Cons.IH [of _ "Some x"]) auto
      moreover have "ln_next (d_nodes s' x) = first_of xs None" using Cons.prems \<open>d_nodes s' = d_nodes st\<close> by simp
      ultimately show ?thesis by (simp add: o offer_loop.simps [of env drv "Some x"])
    qed (simp add: offer_loop.simps [of env drv "Some x"] Some)
  qed (simp add: offer_loop.simps [of env drv "Some x"])
qed (simp add: offer_loop.simps)

text \<open>A new device is entered behind the devices of its bus, and the search for its driver ends if the probe functions return and
  leave the lists alone.\<close>

lemma probe_linked:
  assumes "linked (d_nodes st) p ds None"
    and "\<And>drv probe s. de_probe_device env drv = Some probe \<Longrightarrow> \<exists>s' b. probe dev s = Inr (s', b) \<and> d_nodes s' = d_nodes s"
  shows "\<exists>st'. probe_loop env dev (first_of ds None) st = ret st' \<and> d_nodes st' = d_nodes st"
  using assms(1)
proof (induction ds arbitrary: p st)
  case (Cons d ds)
  show ?case
  proof (cases "de_probe_device env d")
    case (Some probe)
    then obtain s' b where s': "probe dev st = Inr (s', b)" "d_nodes s' = d_nodes st" using assms(2) by blast
    moreover have "\<exists>st'. probe_loop env dev (first_of ds None) s' = ret st' \<and> d_nodes st' = d_nodes s'"
      using Cons.prems s'(2) by (intro Cons.IH [of _ "Some d"]) auto
    ultimately show ?thesis using Some Cons.prems by (simp add: probe_loop.simps [of env dev "Some d"])
  qed (simp add: probe_loop.simps [of env dev "Some d"])
qed (simp add: probe_loop.simps)

lemma bus_register_device_ends:
  assumes "list_rep (d_nodes st) (bus_devices (d_bus st bus)) xs" "dev \<notin> set xs" "Suc (length xs) < 2 ^ 64"
    and "list_rep (d_nodes st) (bus_drivers (d_bus st bus)) ds" "set ds \<inter> insert dev (set xs) = {}"
    and "\<And>drv probe s. de_probe_device env drv = Some probe \<Longrightarrow> \<exists>s' b. probe dev s = Inr (s', b) \<and> d_nodes s' = d_nodes s"
  shows "\<exists>st' l. bus_register_device env bus dev st = ret st' \<and> list_rep (d_nodes st') l (xs @ [dev])"
proof -
  obtain h l where a: "list_append (d_nodes st) (bus_devices (d_bus st bus)) dev = Inr (h, l)" "list_rep h l (xs @ [dev])"
    "agree_off (insert dev (set xs)) (d_nodes st) h"
    using list_append_rep [OF assms(1-3)] by blast
  have ds: "list_rep h (bus_drivers (d_bus st bus)) ds" by (rule list_rep_agree_off [OF a(3) _ assms(4)]) (use assms(5) in auto)
  let ?st1 = "set_bus bus ((d_bus st bus)\<lparr>bus_devices := l\<rparr>) (st\<lparr>d_nodes := h\<rparr>)"
  have "\<exists>st'. probe_loop env dev (first_of ds None) ?st1 = ret st' \<and> d_nodes st' = d_nodes ?st1"
    by (rule probe_linked [of _ None]) (use ds assms(6) in \<open>auto simp: list_rep_def set_bus_def\<close>)
  then show ?thesis using a ds
    by (cases "dev_driver (d_device st dev) = 0") (auto simp: bus_register_device_def set_bus_def list_rep_head Let_def)
qed

text \<open>A new driver is entered behind the drivers of its bus and then offered the devices of the bus, each once and in
  their order: a device without a driver is probed, and set up if it is accepted.\<close>

lemma bus_register_driver_offers:
  assumes "list_rep (d_nodes st) (bus_drivers (d_bus st bus)) ds" "drv \<notin> set ds" "Suc (length ds) < 2 ^ 64"
    and "list_rep (d_nodes st) (bus_devices (d_bus st bus)) xs" "set xs \<inter> insert drv (set ds) = {}"
    and "\<forall>dev s s'. offer_device env drv dev s = ret s' \<longrightarrow> d_nodes s' = d_nodes s"
  shows "\<exists>st1. bus_register_driver env bus drv st = run_each (\<lambda>s dev. offer_device env drv dev s) xs st1 \<and>
    list_rep (d_nodes st1) (bus_drivers (d_bus st1 bus)) (ds @ [drv]) \<and> list_rep (d_nodes st1) (bus_devices (d_bus st1 bus)) xs \<and>
    d_device st1 = d_device st"
proof -
  obtain h l where a: "list_append (d_nodes st) (bus_drivers (d_bus st bus)) drv = Inr (h, l)" "list_rep h l (ds @ [drv])"
    "agree_off (insert drv (set ds)) (d_nodes st) h"
    using list_append_rep [OF assms(1-3)] by blast
  have xs: "list_rep h (bus_devices (d_bus st bus)) xs" by (rule list_rep_agree_off [OF a(3) _ assms(4)]) (use assms(5) in auto)
  let ?st1 = "set_bus bus ((d_bus st bus)\<lparr>bus_drivers := l\<rparr>) (st\<lparr>d_nodes := h\<rparr>)"
  have "offer_loop env drv (first_of xs None) ?st1 = run_each (\<lambda>s dev. offer_device env drv dev s) xs ?st1"
    by (rule offer_linked [of _ None]) (use xs assms(6) in \<open>auto simp: list_rep_def set_bus_def\<close>)
  then show ?thesis using a xs by (intro exI [of _ ?st1]) (simp add: bus_register_driver_def set_bus_def list_rep_head)
qed

text \<open>A device that is registered after its driver is never set up: what the registration does is the same whatever the
  functions that set devices up.\<close>

theorem bus_register_device_no_setup:
  "bus_register_device (env\<lparr>de_setup_device := f\<rparr>) bus dev st = bus_register_device env bus dev st"
proof -
  have sub: "probe_loop (env\<lparr>de_setup_device := f\<rparr>) dev n st = Some r" if "probe_loop env dev n st = Some r" for env :: "'a dev_env" and f dev n st r
  proof -
    let ?P = "\<lambda>env dev n st r. probe_loop (env\<lparr>de_setup_device := f\<rparr>) dev n st = Some r"
    show ?thesis
    proof (rule probe_loop.raw_induct [where P = ?P, OF _ that])
      fix loop :: "'a dev_env \<Rightarrow> uptr \<Rightarrow> uptr option \<Rightarrow> 'a devs \<Rightarrow> 'a devs res option" and env dev n st r
      assume IH: "\<And>env dev n st r. loop env dev n st = Some r \<Longrightarrow> ?P env dev n st r"
        and r: "(case n of None \<Rightarrow> ret st | Some drv \<Rightarrow> (case de_probe_device env drv of None \<Rightarrow> ret st
          | Some probe \<Rightarrow> seq (now (probe dev st)) (\<lambda>(st1, accepted). if accepted then ret st1 else loop env dev (ln_next (d_nodes st1 drv)) st1))) = Some r"
      then show "?P env dev n st r"
        by (subst probe_loop.simps) (auto simp: seq_def now_def split: option.splits sum.splits prod.splits if_splits)
    qed
  qed
  have eq: "probe_loop (env\<lparr>de_setup_device := f\<rparr>) dev n st = probe_loop env dev n st" for dev n st
  proof (cases "probe_loop env dev n st")
    case None
    show ?thesis
    proof (cases "probe_loop (env\<lparr>de_setup_device := f\<rparr>) dev n st")
      case (Some r)
      from sub [OF this, of "de_setup_device env"] None show ?thesis by simp
    qed (simp add: None)
  qed (simp add: sub)
  show ?thesis unfolding bus_register_device_def eq by (rule refl)
qed

section \<open>Partitions\<close>

lemma foreach_cut:
  "linked h p as (Some x) \<Longrightarrow> ln_next (h x) = None \<Longrightarrow> foreach_from h (first_of as (Some x)) = Some (as @ [x])"
proof (induction as arbitrary: p)
  case (Cons a as)
  then show ?case by (auto simp: foreach_from.simps [of h "Some a"])
qed (simp add: foreach_from.simps)

text \<open>C39: adding a partition destroys the drive: the data of the partition goes into the structure of the drive, which becomes
  its own parent, the new structure stays uninitialised, and since the links of the drive are
  cleared, all drives behind it are no longer found in the list of drives.\<close>

theorem add_partition_destroys_drive:
  assumes "list_rep (d_nodes st) (g_drive_list st) (as @ dev # bs)"
    and "de_heap_alloc env (d_al st) SIZEOF_BLOCK_DEVICE = Inr (al, part)" "part \<noteq> 0" "part \<notin> set (as @ dev # bs)"
  shows "\<exists>st'. add_partition env ioctl dev 0 lba cnt st = ret st' \<and>
    bd_lba_offset (d_block st' dev) = lba \<and> bd_sector_count (d_block st' dev) = cnt \<and> bd_parent (d_block st' dev) = dev \<and>
    d_block st' part = d_block st part \<and> FOREACH (d_nodes st') (g_drive_list st') = Some (as @ [dev])"
proof -
  let ?h = "(d_nodes st)(dev := LIST_NODE_INIT)"
  have "list_rep ?h LIST_INIT []" by (rule list_rep_Nil)
  from list_append_rep [OF this, of part] obtain h l where a: "list_append ?h LIST_INIT part = Inr (h, l)" "agree_off {part} ?h h" by auto
  have h: "h x = ?h x" if "x \<noteq> part" for x using a(2) that by (simp add: agree_off_def)
  have d: "distinct (as @ dev # bs)" "linked (d_nodes st) None (as @ dev # bs) None" "l_head (g_drive_list st) = first_of as (Some dev)"
    using assms(1) by (auto simp: list_rep_def)
  have "h x = d_nodes st x" if "x \<in> set as" for x
  proof -
    have "x \<noteq> part" "x \<noteq> dev" using that d(1) assms(4) by auto
    then show ?thesis using h [of x] by simp
  qed
  then have "linked h None as (Some dev) = linked (d_nodes st) None as (Some dev)" by (rule linked_cong)
  then have "foreach_from h (first_of as (Some dev)) = Some (as @ [dev])"
    using d(2) h [of dev] assms(4) by (intro foreach_cut) (auto simp: LIST_NODE_INIT_def)
  then show ?thesis using a(1) assms(2-4) d(3)
    by (auto simp: add_partition_def d_alloc_def d_strdup_def strdup_def Let_def set_block_device_def FOREACH_def)
qed

text \<open>Two drives; the structure of the partition is allocated at \<^verbatim>\<open>0x3000\<close>.\<close>

definition drives_example :: "u64 devs" where
  "drives_example =
     \<lparr>d_al = 0x3000, d_bytes = (\<lambda>_. 0),
      d_nodes = (\<lambda>_. LIST_NODE_INIT)(0x1000 := \<lparr>ln_prev = None, ln_next = Some 0x2000\<rparr>, 0x2000 := \<lparr>ln_prev = Some 0x1000, ln_next = None\<rparr>),
      d_bus = (\<lambda>_. \<lparr>bus_name = 0, bus_devices = LIST_INIT, bus_drivers = LIST_INIT\<rparr>),
      d_device = (\<lambda>_. \<lparr>dev_name = 0, hardware_data = 0, dev_driver = 0, dev_driver_data = 0, dev_children = LIST_INIT\<rparr>),
      d_char = (\<lambda>_. \<lparr>ch_name = 0, ch_driver_data = 0, ch_read = 0, ch_write = 0, ch_ioctl = 0, ch_ref_count = 0\<rparr>),
      d_block = (\<lambda>_. \<lparr>bd_name = 0, bd_type = BLOCK_DEVICE_DRIVE, bd_partitions = LIST_INIT, bd_parent = 0, bd_lba_offset = 0, bd_sector_size = 512,
        bd_sector_count = 1000000, bd_read = 1, bd_write = 1, bd_ioctl = 1, bd_driver_data = 0, bd_ref_count = 0\<rparr>),
      g_buses = LIST_INIT, g_char_list = LIST_INIT, g_drive_list = \<lparr>l_length = 2, l_head = Some 0x1000, l_tail = Some 0x2000\<rparr>\<rparr>"

definition plain_dev_env :: "u64 dev_env" where
  "plain_dev_env =
     \<lparr>de_heap_alloc = (\<lambda>n sz. Inr (n + sz, n)), de_probe_device = (\<lambda>_. None), de_setup_device = (\<lambda>_. None),
      de_read = (\<lambda>_ _ _ _ _ st. Inr (st, False))\<rparr>"

theorem add_partition_destroys_drive_witness:
  "\<exists>st'. add_partition plain_dev_env 1 0x1000 0 2048 4096 drives_example = ret st' \<and> bd_sector_count (d_block st' 0x1000) = 4096 \<and>
    FOREACH (d_nodes drives_example) (g_drive_list drives_example) = Some [0x1000, 0x2000] \<and>
    FOREACH (d_nodes st') (g_drive_list st') = Some [0x1000]"
proof -
  have r: "list_rep (d_nodes drives_example) (g_drive_list drives_example) ([] @ 0x1000 # [0x2000])"
    by (simp add: list_rep_def drives_example_def last_of_def)
  then show ?thesis
    using add_partition_destroys_drive [OF r, of plain_dev_env "0x3088" "0x3000" 1 2048 4096] FOREACH_rep [OF r]
    by (auto simp: plain_dev_env_def SIZEOF_BLOCK_DEVICE_def drives_example_def)
qed

text \<open>The header of a partition table is looked for where its own first eight bytes point.\<close>

lemma part_table_misread:
  assumes "de_heap_alloc env (d_al st) (bd_sector_size (d_block st dev)) = Inr (al, p)" "8 \<le> length sector" "length sector < 2 ^ 64"
    and "\<forall>s. de_read env (bd_read (d_block st dev)) dev lba v 1 s = Inr (s\<lparr>d_bytes := put_bytes (d_bytes s) v sector\<rparr>, True)"
  shows "\<exists>st'. read_into_variable env v dev lba st = ret (st', of_nat (le_nat (take 8 sector)))"
proof -
  have "bytes_at (put_bytes m v sector) v (length sector) = sector" for m by (rule bytes_at_put_bytes) (use assms(3) in simp)
  moreover have "bytes_at m' v (length sector) = bytes_at m' v 8 @ bytes_at m' (v + of_nat 8) (length sector - 8)" for m'
    using bytes_at_append [of m' v 8 "length sector - 8"] assms(2) by simp
  ultimately have "take 8 sector = bytes_at (put_bytes m v sector) v 8" for m
    by (metis append_eq_conv_conj length_bytes_at)
  then show ?thesis using assms(1,4) by (simp add: read_into_variable_def d_alloc_def Let_def get_u64_def)
qed

section \<open>The PCI bus\<close>

lemma pci_functions: "set (pci_functions s e) = {s..e} \<times> {..<32} \<times> {..<8}" "distinct (pci_functions s e)"
  by (auto simp: pci_functions_def distinct_product)

lemma bit_small: "bit (x :: nat) n \<Longrightarrow> x < 2 ^ k \<Longrightarrow> n < k"
proof -
  assume "bit x n" and x: "x < 2 ^ k"
  then have "2 ^ n \<le> x" by (metis bit_iff_odd div_less even_zero not_le)
  with x have "(2 :: nat) ^ n < 2 ^ k" by linarith
  then show "n < k" by simp
qed

lemma digits:
  assumes "x < A" "x' < A" "b * A + x = b' * A + (x' :: nat)"
  shows "b = b' \<and> x = x'"
proof -
  have "(b * A + x) div A = b" "(b' * A + x') div A = b'" "(b * A + x) mod A = x" "(b' * A + x') mod A = x'" using assms(1,2) by simp_all
  then show ?thesis using assms(3) by simp
qed

lemma pci_offset:
  assumes "b < 256" "d < 32" "f < 8"
  shows "unat (push_bit 20 (of_nat b) OR push_bit 15 (of_nat d) OR push_bit 12 (of_nat f) :: u64) = b * 2 ^ 20 + d * 2 ^ 15 + f * 2 ^ 12"
proof -
  let ?b = "of_nat b :: u64" and ?d = "of_nat d :: u64" and ?f = "of_nat f :: u64"
  have small: "bit d n \<Longrightarrow> n < 5" "bit f n \<Longrightarrow> n < 3" for n
    using bit_small [of d n 5] bit_small [of f n 3] assms by simp_all
  have 1: "push_bit 15 ?d OR push_bit 12 ?f = push_bit 15 ?d + push_bit 12 ?f"
    by (rule disjunctive_add_eq_or [symmetric]) (auto simp: bit_eq_iff bit_simps dest!: small(2))
  have 2: "push_bit 20 ?b OR (push_bit 15 ?d OR push_bit 12 ?f) = push_bit 20 ?b + (push_bit 15 ?d OR push_bit 12 ?f)"
    by (rule disjunctive_add_eq_or [symmetric]) (auto simp: bit_eq_iff bit_simps dest!: small)
  have n: "unat (push_bit k (of_nat x) :: u64) = x * 2 ^ k" if "x * 2 ^ k < 2 ^ 64" for k x
  proof -
    have "push_bit k (of_nat x :: u64) = of_nat (x * 2 ^ k)" by (simp add: push_bit_eq_mult)
    then show ?thesis using of_nat_u64 [OF that] by simp
  qed
  have s: "unat (push_bit 20 ?b) = b * 2 ^ 20" "unat (push_bit 15 ?d) = d * 2 ^ 15" "unat (push_bit 12 ?f) = f * 2 ^ 12"
    using assms by (intro n; simp)+
  have "unat (push_bit 15 ?d + push_bit 12 ?f) = d * 2 ^ 15 + f * 2 ^ 12" using assms s by (subst unat_add_nowrap) simp_all
  then show ?thesis unfolding 1 2 [unfolded 1] using assms s by (subst unat_add_nowrap) simp_all
qed

text \<open>The enumeration visits every function of every device of the buses of a segment exactly once, at addresses that are all different
  and that lie in the megabyte of configuration space of its bus.\<close>

lemma pci_addresses:
  assumes "e < 256"
  shows "set (pci_functions s e) = {s..e} \<times> {..<32} \<times> {..<8} \<and> distinct (map (pci_address HHDM base) (pci_functions s e)) \<and>
    (\<forall>(b, d, f) \<in> set (pci_functions s e). \<exists>k < 2 ^ 20. pci_address HHDM base (b, d, f) = HHDM + base + of_nat (b * 2 ^ 20 + k))"
proof -
  have off: "pci_address HHDM base (b, d, f) = HHDM + base + of_nat (b * 2 ^ 20 + (d * 2 ^ 15 + f * 2 ^ 12))"
    "b * 2 ^ 20 + (d * 2 ^ 15 + f * 2 ^ 12) < 2 ^ 64"
    if "(b, d, f) \<in> set (pci_functions s e)" for b d f
  proof -
    have x: "b < 256" "d < 32" "f < 8" using that assms by (simp_all add: pci_functions(1))
    from pci_offset [OF this] have "push_bit 20 (of_nat b) OR push_bit 15 (of_nat d) OR push_bit 12 (of_nat f) = (of_nat (b * 2 ^ 20 + d * 2 ^ 15 + f * 2 ^ 12) :: u64)"
      using of_nat_u64 [of "b * 2 ^ 20 + d * 2 ^ 15 + f * 2 ^ 12"] x by (simp only: word_unat_eq_iff) simp
    then show "pci_address HHDM base (b, d, f) = HHDM + base + of_nat (b * 2 ^ 20 + (d * 2 ^ 15 + f * 2 ^ 12))" by (simp add: pci_address_def)
    show "b * 2 ^ 20 + (d * 2 ^ 15 + f * 2 ^ 12) < 2 ^ 64" using x by simp
  qed
  have "inj_on (pci_address HHDM base) (set (pci_functions s e))"
  proof (rule inj_onI)
    fix u v
    assume uv: "u \<in> set (pci_functions s e)" "v \<in> set (pci_functions s e)" "pci_address HHDM base u = pci_address HHDM base v"
    obtain b d f b' d' f' where e: "u = (b, d, f)" "v = (b', d', f')" by (cases u, cases v) auto
    note m = uv(1) [unfolded e] uv(2) [unfolded e]
    from uv(3) have "(of_nat (b * 2 ^ 20 + (d * 2 ^ 15 + f * 2 ^ 12)) :: u64) = of_nat (b' * 2 ^ 20 + (d' * 2 ^ 15 + f' * 2 ^ 12))"
      unfolding e off(1) [OF m(1)] off(1) [OF m(2)] by (simp only: add_left_cancel)
    then have "b * 2 ^ 20 + (d * 2 ^ 15 + f * 2 ^ 12) = b' * 2 ^ 20 + (d' * 2 ^ 15 + f' * 2 ^ 12)"
      using of_nat_u64 [OF off(2) [OF m(1)]] of_nat_u64 [OF off(2) [OF m(2)]] by metis
    moreover have "d < 32" "f < 8" "d' < 32" "f' < 8" using m by (simp_all add: pci_functions(1))
    ultimately show "u = v"
      unfolding e using digits [of "d * 2 ^ 15 + f * 2 ^ 12" "2 ^ 20" "d' * 2 ^ 15 + f' * 2 ^ 12" b b'] digits [of "f * 2 ^ 12" "2 ^ 15" "f' * 2 ^ 12" d d'] by simp
  qed
  then have "distinct (map (pci_address HHDM base) (pci_functions s e))" by (simp add: distinct_map pci_functions(2))
  moreover have "\<exists>k < 2 ^ 20. pci_address HHDM base (b, d, f) = HHDM + base + of_nat (b * 2 ^ 20 + k)" if "(b, d, f) \<in> set (pci_functions s e)" for b d f
    using off(1) [OF that] that by (intro exI [of _ "d * 2 ^ 15 + f * 2 ^ 12"]) (simp add: pci_functions(1))
  ultimately show ?thesis by (auto simp: pci_functions(1))
qed

end
