(* ===== verification/Console.thy ===== *)
theory Console
  imports Printf Scalars
begin

text \<open>
  Output: the frame buffer (\<^verbatim>\<open>kernel/src/graphics\<close>), the serial line (\<^verbatim>\<open>arch/x86_64/serial.c\<close>), the log (\<^verbatim>\<open>common/log.c\<close>) and panic
  (\<^verbatim>\<open>common/panic.c\<close>).  The frame buffer is a part of the memory; the font is an argument.
\<close>

section \<open>The frame buffer\<close>

record framebuffer_t =
  fb_addr :: uptr
  fb_height :: u64
  fb_width :: u64
  fb_pitch :: u64
  fb_size :: u64
  fb_bpp :: u64

text \<open>The members of the boot loader's description that are read.\<close>

record limine_framebuffer =
  lf_address :: uptr
  lf_width :: u64
  lf_height :: u64
  lf_pitch :: u64
  lf_bpp :: u16

definition video_init :: "limine_framebuffer list option \<Rightarrow> framebuffer_t res" where
  "video_init response =
     (case response of
        None \<Rightarrow> Inl NullDeref
      | Some [] \<Rightarrow> Inl OutOfBounds
      | Some (b # _) \<Rightarrow>
          Inr \<lparr>fb_addr = lf_address b, fb_height = lf_height b, fb_width = lf_width b, fb_pitch = lf_pitch b,
               fb_size = lf_height b * lf_pitch b * ucast (lf_bpp b) div 8, fb_bpp = ucast (lf_bpp b)\<rparr>)"

definition draw_pixel :: "framebuffer_t \<Rightarrow> u64 \<Rightarrow> u64 \<Rightarrow> u32 \<Rightarrow> bytes \<Rightarrow> bytes" where
  "draw_pixel fb x y color m =
     (if x \<ge> fb_width fb \<or> y \<ge> fb_height fb then m else put_u32 m (fb_addr fb + y * fb_pitch fb + x * 4) color)"

record font_t =
  font_width :: u8
  font_height :: u8
  font_data :: "u8 list"

definition font_basic :: "u8 list \<Rightarrow> font_t" where
  "font_basic data = \<lparr>font_width = 8, font_height = 16, font_data = data\<rparr>"

text \<open>A \<^verbatim>\<open>char\<close> is signed, so it is extended with its sign.\<close>

definition glyph_index :: "font_t \<Rightarrow> u8 \<Rightarrow> nat \<Rightarrow> u64" where
  "glyph_index font c y = scast c * ucast (font_height font) + of_nat y"

definition draw_dot :: "framebuffer_t \<Rightarrow> u64 \<Rightarrow> u64 \<Rightarrow> u8 \<Rightarrow> font_t \<Rightarrow> u32 \<Rightarrow> bytes \<Rightarrow> nat \<times> nat \<Rightarrow> bytes res" where
  "draw_dot fb x y c font color m p =
     (case p of (dy, dx) \<Rightarrow>
        let i = unat (glyph_index font c dy)
        in if i < length (font_data font)
           then Inr (if bit (font_data font ! i) (unat (font_width font) - dx - 1) then draw_pixel fb (x + of_nat dx) (y + of_nat dy) color m else m)
           else Inl OutOfBounds)"

definition draw_char :: "framebuffer_t \<Rightarrow> u64 \<Rightarrow> u64 \<Rightarrow> u8 \<Rightarrow> font_t \<Rightarrow> u32 \<Rightarrow> bytes \<Rightarrow> bytes res" where
  "draw_char fb x y c font color m =
     for_each (draw_dot fb x y c font color) (List.product [0..<unat (font_height font)] [0..<unat (font_width font)]) m"

section \<open>The serial line and the log\<close>

text \<open>What was sent, the next line on the screen, the memory, and the frame buffer with its font.\<close>

record console =
  con_serial :: "u8 list"
  g_line :: u64
  con_bytes :: bytes
  video_fb :: framebuffer_t
  con_font :: font_t

definition arch_serial_send_char :: "u8 \<Rightarrow> console \<Rightarrow> console" where
  "arch_serial_send_char c st = st\<lparr>con_serial := con_serial st @ [c]\<rparr>"

partial_function (option) arch_serial_send_str :: "uptr \<Rightarrow> console \<Rightarrow> console option" where
  "arch_serial_send_str str st =
     (if con_bytes st str \<noteq> 0 then arch_serial_send_str (str + 1) (arch_serial_send_char (con_bytes st str) st) else Some st)"

text \<open>The counter of the loop over the characters is an \<^verbatim>\<open>int\<close>; the buffer has 256 bytes.\<close>

partial_function (option) log_draw :: "uptr \<Rightarrow> nat \<Rightarrow> console \<Rightarrow> console run" where
  "log_draw buf i st =
     (let c = con_bytes st (buf + of_nat i); font = con_font st
      in if c \<noteq> 0
         then
           seq (now (draw_char (video_fb st) (of_nat i * ucast (font_width font)) (g_line st * ucast (font_height font)) c font 0xFFFFFF (con_bytes st)))
             (\<lambda>m. log_draw buf (Suc i) (st\<lparr>con_bytes := m\<rparr>))
         else ret st)"

text \<open>\<open>buf\<close> is the address of the local array.  For an empty text the last character is read from before the array.\<close>

definition n_log :: "uptr \<Rightarrow> uptr \<Rightarrow> u64 list \<Rightarrow> console \<Rightarrow> console run" where
  "n_log buf format va st =
     seq (vsnprintf (memset (con_bytes st) buf 0 256) buf 256 format va) (\<lambda>(m, _).
     seq (ends (arch_serial_send_str buf (st\<lparr>con_bytes := m\<rparr>))) (\<lambda>st1.
     seq (ends (strlen m buf)) (\<lambda>n.
     seq (check (n \<noteq> 0) OutOfBounds) (\<lambda>_.
     let st2 = (if m (buf + n - 1) \<noteq> 10 then arch_serial_send_char 10 st1 else st1)
     in seq (check (font_height (con_font st2) \<noteq> 0) Undefined) (\<lambda>_.
        if g_line st2 < fb_height (video_fb st2) div ucast (font_height (con_font st2))
        then seq (log_draw buf 0 st2) (\<lambda>st3. ret (st3\<lparr>g_line := g_line st3 + 1\<rparr>))
        else ret st2)))))"

text \<open>\<^verbatim>\<open>panic\<close> does not return; \<open>lit\<close> is the address of \<^verbatim>\<open>"---PANIC---"\<close>.  The result is what was output before the processor halts.\<close>

definition panic_output :: "uptr \<Rightarrow> uptr \<Rightarrow> uptr \<Rightarrow> u64 list \<Rightarrow> console \<Rightarrow> console run" where
  "panic_output buf lit format va st = seq (n_log buf lit [] st) (n_log buf format va)"

section \<open>Drawing stays in the frame buffer\<close>

definition fb_ok :: "framebuffer_t \<Rightarrow> bool" where
  "fb_ok fb \<longleftrightarrow> 4 * unat (fb_width fb) \<le> unat (fb_pitch fb) \<and> unat (fb_height fb) * unat (fb_pitch fb) < 2 ^ 64"

definition fb_block :: "framebuffer_t \<Rightarrow> uptr set" where
  "fb_block fb = block (fb_addr fb) (unat (fb_height fb) * unat (fb_pitch fb))"

lemma draw_pixel_within:
  assumes "fb_ok fb" "p \<notin> fb_block fb"
  shows "draw_pixel fb x y color m p = m p"
proof (cases "x \<ge> fb_width fb \<or> y \<ge> fb_height fb")
  case False
  let ?h = "unat (fb_height fb)" and ?w = "unat (fb_width fb)" and ?s = "unat (fb_pitch fb)"
  have xy: "unat x < ?w" "unat y < ?h" using False by (auto simp: not_le word_less_nat_alt)
  have "(unat y + 1) * ?s \<le> ?h * ?s" using xy(2) by (intro mult_right_mono) simp_all
  then have le: "unat y * ?s + (4 * unat x + 4) \<le> ?h * ?s" using xy(1) assms(1) by (simp add: fb_ok_def)
  have "y * fb_pitch fb + x * 4 = of_nat (unat y * ?s + 4 * unat x)" by simp
  moreover have "block (fb_addr fb + of_nat (unat y * ?s + 4 * unat x)) 4 \<subseteq> fb_block fb"
    unfolding fb_block_def by (rule block_mono) (use le in simp)
  ultimately have "block (fb_addr fb + y * fb_pitch fb + x * 4) 4 \<subseteq> fb_block fb" by (simp only: add.assoc)
  then show ?thesis using False assms(2) by (auto simp: draw_pixel_def put_u32_def intro!: put_bytes_block)
qed (simp add: draw_pixel_def)

lemma for_each_returns: "(\<And>x s. x \<in> set xs \<Longrightarrow> \<exists>s'. f s x = Inr s') \<Longrightarrow> \<exists>s'. for_each f xs s = Inr s'"
proof (induction xs arbitrary: s)
  case (Cons x xs)
  then obtain s1 where "f s x = Inr s1" by fastforce
  moreover have "\<exists>s'. for_each f xs s1 = Inr s'" by (rule Cons.IH) (use Cons.prems in auto)
  ultimately show ?case by simp
qed simp

lemma for_each_dots:
  assumes "fb_ok fb" "for_each (draw_dot fb x y c font color) ps m = Inr m'" "p \<notin> fb_block fb"
  shows "m' p = m p"
  using assms(2)
proof (induction ps arbitrary: m)
  case (Cons d ps)
  then obtain m1 where m1: "draw_dot fb x y c font color m d = Inr m1" "for_each (draw_dot fb x y c font color) ps m1 = Inr m'"
    by (cases "draw_dot fb x y c font color m d") auto
  have "m1 p = m p" using m1(1) draw_pixel_within [OF assms(1,3)] by (auto simp: draw_dot_def Let_def split: prod.splits if_splits)
  then show ?case using Cons.IH [OF m1(2)] by simp
qed simp

lemma draw_char_returns:
  assumes "c < 0x80" "0x80 * unat (font_height font) \<le> length (font_data font)"
  shows "\<exists>m'. draw_char fb x y c font color m = Inr m'"
proof -
  have "unat (glyph_index font c dy) < length (font_data font)" if "dy < unat (font_height font)" for dy
  proof -
    have c: "unat c < 128" using assms(1) by (simp add: word_less_nat_alt)
    have "\<not> bit c 7"
    proof
      assume "bit c 7"
      then have "bit (unat c) 7" by (simp add: bit_unsigned_iff)
      then show False using c by (simp add: bit_iff_odd)
    qed
    have s: "(scast c :: u64) = ucast c"
    proof (rule bit_word_eqI)
      fix n
      assume "n < LENGTH(64)"
      have "\<not> bit c n" if "7 \<le> n" using that \<open>\<not> bit c 7\<close> bit_imp_le_length [of c n] by (cases "n = 7") auto
      then show "bit (scast c :: u64) n = bit (ucast c :: u64) n"
        using \<open>n < LENGTH(64)\<close> \<open>\<not> bit c 7\<close> by (cases "7 \<le> n") (simp_all add: bit_simps min_def)
    qed
    have fh: "unat (font_height font) < 256" using unsigned_less [of "font_height font", where 'a = nat] by simp
    let ?n = "unat c * unat (font_height font) + dy"
    have "?n < Suc (unat c) * unat (font_height font)" using that by simp
    moreover have "Suc (unat c) * unat (font_height font) \<le> 128 * unat (font_height font)" using c by (intro mult_right_mono) simp_all
    ultimately have n: "?n < 128 * unat (font_height font)" by (rule less_le_trans)
    have "glyph_index font c dy = of_nat ?n" by (simp add: glyph_index_def s)
    moreover have "unat (of_nat ?n :: u64) = ?n" using n fh by (intro of_nat_u64) simp
    ultimately show ?thesis using n assms(2) by simp
  qed
  then have dot: "\<exists>m1. draw_dot fb x y c font color m (dy, dx) = Inr m1" if "dy < unat (font_height font)" for dy dx m
    using that by (simp add: draw_dot_def)
  show ?thesis unfolding draw_char_def by (rule for_each_returns) (use dot in auto)
qed

text \<open>C31: drawing a character writes nothing outside the frame buffer, wherever it is drawn; and for the characters of ASCII and a font
  with a glyph for each of them it does not read outside the font either.\<close>

theorem draw_char_within:
  assumes "fb_ok fb"
  shows "(\<forall>m'. draw_char fb x y c font color m = Inr m' \<longrightarrow> (\<forall>p. p \<notin> fb_block fb \<longrightarrow> m' p = m p)) \<and>
    (c < 0x80 \<and> 0x80 * unat (font_height font) \<le> length (font_data font) \<longrightarrow> (\<exists>m'. draw_char fb x y c font color m = Inr m'))"
  using for_each_dots [OF assms] draw_char_returns by (auto simp: draw_char_def)

definition small_fb :: framebuffer_t where
  "small_fb = \<lparr>fb_addr = 0x10000, fb_height = 4, fb_width = 8, fb_pitch = 32, fb_size = 128, fb_bpp = 32\<rparr>"

theorem draw_char_within_witness:
  "\<exists>m'. draw_char small_fb 3 0 65 (font_basic (replicate 4096 0xFF)) 0xFFFFFF (\<lambda>_. 0) = Inr m' \<and> m' 0x20000 = 0 \<and> m' 0x10080 = 0"
proof -
  have "0x20000 \<notin> fb_block small_fb" "0x10080 \<notin> fb_block small_fb" by (simp_all add: fb_block_def small_fb_def block_iff)
  moreover have "fb_ok small_fb" by (simp add: fb_ok_def small_fb_def)
  ultimately show ?thesis
    using draw_char_within [of small_fb 3 0 65 "font_basic (replicate 4096 0xFF)" "0xFFFFFF" "\<lambda>_. 0"] by (fastforce simp: font_basic_def)
qed

section \<open>The log\<close>

lemma serial_str: "str_at (con_bytes st) p s \<Longrightarrow> arch_serial_send_str p st = Some (st\<lparr>con_serial := con_serial st @ s\<rparr>)"
proof (induction s arbitrary: p st)
  case (Cons c s)
  let ?st = "arch_serial_send_char c st"
  have "arch_serial_send_str (p + 1) ?st = Some (?st\<lparr>con_serial := con_serial ?st @ s\<rparr>)"
    using Cons.prems by (intro Cons.IH) (simp add: arch_serial_send_char_def)
  then show ?case using Cons.prems by (subst arch_serial_send_str.simps) (simp add: arch_serial_send_char_def)
qed (simp add: arch_serial_send_str.simps)

text \<open>A font with a glyph for every character of ASCII.\<close>

definition ascii_font :: "font_t \<Rightarrow> bool" where
  "ascii_font font \<longleftrightarrow> font_height font \<noteq> 0 \<and> 0x80 * unat (font_height font) \<le> length (font_data font)"

lemma draw_char_ok:
  assumes "fb_ok fb" "c < 0x80" "ascii_font font"
  shows "\<exists>m'. draw_char fb x y c font color m = Inr m' \<and> (\<forall>p. p \<notin> fb_block fb \<longrightarrow> m' p = m p)"
proof -
  obtain m' where "draw_char fb x y c font color m = Inr m'" using draw_char_returns [OF assms(2), of font fb x y color m] assms(3) by (auto simp: ascii_font_def)
  then show ?thesis using for_each_dots [OF assms(1)] by (auto simp: draw_char_def)
qed

lemma log_draw_ok:
  assumes "fb_ok (video_fb st)" "ascii_font (con_font st)" "block buf 256 \<inter> fb_block (video_fb st) = {}"
    and "str_at (con_bytes st) (buf + of_nat i) s" "i + length s < 256" "\<forall>c \<in> set s. c < 0x80"
  shows "\<exists>m'. log_draw buf i st = ret (st\<lparr>con_bytes := m'\<rparr>)"
  using assms
proof (induction s arbitrary: i st)
  case Nil
  then show ?case by (intro exI [of _ "con_bytes st"]) (simp add: log_draw.simps)
next
  case (Cons c s)
  let ?x = "of_nat i * ucast (font_width (con_font st))" and ?y = "g_line st * ucast (font_height (con_font st))"
  obtain m where m: "draw_char (video_fb st) ?x ?y c (con_font st) 0xFFFFFF (con_bytes st) = Inr m"
    "\<forall>p. p \<notin> fb_block (video_fb st) \<longrightarrow> m p = con_bytes st p"
    using draw_char_ok [OF Cons.prems(1) _ Cons.prems(2)] Cons.prems(6) by fastforce
  have "m (buf + of_nat (Suc i) + of_nat j) = con_bytes st (buf + of_nat (Suc i) + of_nat j)" if "j \<le> length s" for j
  proof -
    have "buf + of_nat (Suc i) + of_nat j = buf + of_nat (Suc i + j)" by (simp add: add.assoc)
    also have "\<dots> \<in> block buf 256" by (rule block_offset) (use that Cons.prems(5) in simp)
    finally show ?thesis using m(2) Cons.prems(3) by blast
  qed
  then have "str_at m (buf + of_nat (Suc i)) s = str_at (con_bytes st) (buf + of_nat (Suc i)) s" by (rule str_at_cong)
  then have "str_at (con_bytes (st\<lparr>con_bytes := m\<rparr>)) (buf + of_nat (Suc i)) s" using Cons.prems(4) by (simp add: ac_simps)
  then have "\<exists>m'. log_draw buf (Suc i) (st\<lparr>con_bytes := m\<rparr>) = ret ((st\<lparr>con_bytes := m\<rparr>)\<lparr>con_bytes := m'\<rparr>)"
    using Cons.prems by (intro Cons.IH) simp_all
  then show ?case using Cons.prems(4) m(1) by (subst log_draw.simps) auto
qed

text \<open>A message of the log goes to the serial line as formatted, and ends there with exactly one newline more or its own;
  the drawing on the screen cannot fail.\<close>

lemma log_prints:
  assumes "vsnprintf (memset (con_bytes st) buf 0 256) buf 256 format va = ret (m, r)" "str_at m buf s" "s \<noteq> []" "length s < 256"
    and "\<forall>c \<in> set s. c < 0x80" "fb_ok (video_fb st)" "ascii_font (con_font st)" "block buf 256 \<inter> fb_block (video_fb st) = {}"
  shows "\<exists>st'. n_log buf format va st = ret st' \<and> con_serial st' = con_serial st @ s @ (if last s = 10 then [] else [10])"
proof -
  let ?st1 = "st\<lparr>con_bytes := m, con_serial := con_serial st @ s\<rparr>"
  have "unat (of_nat (length s) :: u64) = length s" using assms(4) by (intro of_nat_u64) simp
  then have n: "(of_nat (length s) :: u64) \<noteq> 0" using assms(3) by (metis length_0_conv unat_0)
  have "m (buf + of_nat (length s - 1)) = (s @ [0]) ! (length s - 1)" by (rule str_at_nth [OF assms(2)]) simp
  moreover have "buf + of_nat (length s) - 1 = buf + of_nat (length s - 1)" using assms(3) by (simp add: of_nat_diff Suc_leI)
  ultimately have last: "m (buf + of_nat (length s) - 1) = last s" using assms(3) by (simp only:) (simp add: nth_append last_conv_nth)
  let ?st2 = "if last s \<noteq> 10 then arch_serial_send_char 10 ?st1 else ?st1"
  have st2: "video_fb ?st2 = video_fb st" "con_font ?st2 = con_font st" "con_bytes ?st2 = m"
    "con_serial ?st2 = con_serial st @ s @ (if last s = 10 then [] else [10])" "g_line ?st2 = g_line st"
    by (simp_all add: arch_serial_send_char_def)
  have "\<exists>m'. log_draw buf 0 ?st2 = ret (?st2\<lparr>con_bytes := m'\<rparr>)"
    using assms(2,4-8) by (intro log_draw_ok) (simp_all only: st2, simp_all)
  then obtain m' where d: "log_draw buf 0 ?st2 = ret (?st2\<lparr>con_bytes := m'\<rparr>)" by blast
  have "n_log buf format va st = (if g_line ?st2 < fb_height (video_fb ?st2) div ucast (font_height (con_font ?st2))
      then seq (log_draw buf 0 ?st2) (\<lambda>st3. ret (st3\<lparr>g_line := g_line st3 + 1\<rparr>)) else ret ?st2)"
    using assms(7) n last by (simp add: n_log_def assms(1) serial_str [of _ _ s] assms(2) strlen_at [OF assms(2)] ascii_font_def Let_def arch_serial_send_char_def)
  then show ?thesis using st2(4) by (auto simp: d)
qed

text \<open>An empty message makes the kernel read before its buffer.\<close>

lemma log_empty:
  assumes "vsnprintf (memset (con_bytes st) buf 0 256) buf 256 format va = ret (m, r)" "str_at m buf []"
  shows "n_log buf format va st = fail OutOfBounds"
  using assms strlen_at [OF assms(2)] serial_str [of "st\<lparr>con_bytes := m\<rparr>" buf "[]"] by (simp add: n_log_def)

end
