(* ===== verification/Ahci.thy ===== *)
theory Ahci
  imports Device
begin

text \<open>
  The driver of AHCI controllers, \<^verbatim>\<open>modules/ahci\<close>.  Its command lists and tables lie in memory.  The registers of the controller
  are an argument: an access may change the controller and, by its transfers, the memory.
\<close>

section \<open>The controller\<close>

record 's hba =
  hb_HHDM :: uptr
  hb_load :: "uptr \<Rightarrow> 's devs \<Rightarrow> 's devs \<times> u32"
  hb_store :: "uptr \<Rightarrow> u32 \<Rightarrow> 's devs \<Rightarrow> 's devs"
  hb_pmm_alloc :: "'s devs \<Rightarrow> ('s devs \<times> uptr) res"
  hb_virt_to_phys :: "uptr \<Rightarrow> uptr"

text \<open>The members of \<^verbatim>\<open>port_t\<close> and \<^verbatim>\<open>generic_host_control_t\<close>.\<close>

definition PORT_CLB :: u64 where "PORT_CLB = 0"
definition PORT_CLBU :: u64 where "PORT_CLBU = 4"
definition PORT_FB :: u64 where "PORT_FB = 8"
definition PORT_FBU :: u64 where "PORT_FBU = 12"
definition PORT_IS :: u64 where "PORT_IS = 16"
definition PORT_CMD :: u64 where "PORT_CMD = 24"
definition PORT_TFD :: u64 where "PORT_TFD = 32"
definition PORT_SIG :: u64 where "PORT_SIG = 36"
definition PORT_SACT :: u64 where "PORT_SACT = 52"
definition PORT_CI :: u64 where "PORT_CI = 56"
definition HBA_CAP :: u64 where "HBA_CAP = 0"
definition HBA_GHC :: u64 where "HBA_GHC = 4"
definition HBA_PI :: u64 where "HBA_PI = 12"

definition hb_update :: "'s hba \<Rightarrow> uptr \<Rightarrow> (u32 \<Rightarrow> u32) \<Rightarrow> 's devs \<Rightarrow> 's devs" where
  "hb_update h r f st = (let (st1, v) = hb_load h r st in hb_store h r (f v) st1)"

partial_function (option) hb_wait_clear :: "'s hba \<Rightarrow> uptr \<Rightarrow> u32 \<Rightarrow> 's devs \<Rightarrow> 's devs option" where
  "hb_wait_clear h r msk st = (let (st1, v) = hb_load h r st in if v AND msk \<noteq> 0 then hb_wait_clear h r msk st1 else Some st1)"

definition PxCMD_CR :: u32 where "PxCMD_CR = push_bit 15 1"
definition PxCMD_FR :: u32 where "PxCMD_FR = push_bit 14 1"
definition PxCMD_FRE :: u32 where "PxCMD_FRE = push_bit 4 1"
definition PxCMD_ST :: u32 where "PxCMD_ST = push_bit 0 1"

text \<open>Both loops wait for the same bit.\<close>

definition ahci_port_idle :: "'s hba \<Rightarrow> uptr \<Rightarrow> 's devs \<Rightarrow> 's devs option" where
  "ahci_port_idle h port st =
     (let (st1, cmd) = hb_load h (port + PORT_CMD) st
      in if cmd AND (PxCMD_CR OR PxCMD_FR OR PxCMD_FRE OR PxCMD_ST) \<noteq> 0
         then
           Option.bind (hb_wait_clear h (port + PORT_CMD) PxCMD_CR (hb_update h (port + PORT_CMD) (\<lambda>v. v AND NOT PxCMD_ST) st1)) (\<lambda>st2.
           hb_wait_clear h (port + PORT_CMD) PxCMD_CR (hb_update h (port + PORT_CMD) (\<lambda>v. v AND NOT PxCMD_FRE) st2))
         else Some st1)"

definition ahci_port_start :: "'s hba \<Rightarrow> uptr \<Rightarrow> 's devs \<Rightarrow> 's devs option" where
  "ahci_port_start h port st =
     Option.bind (hb_wait_clear h (port + PORT_CMD) PxCMD_CR st) (\<lambda>st1.
     let st2 = hb_update h (port + PORT_CMD) (\<lambda>v. v OR PxCMD_ST) st1
     in Some (hb_update h (port + PORT_CMD) (\<lambda>v. v OR PxCMD_FRE) st2))"

text \<open>The first free slot; \<open>None\<close> is -1.\<close>

definition free_slot_of :: "u32 \<Rightarrow> nat option" where
  "free_slot_of slots = find (\<lambda>i. slots AND push_bit i 1 = 0) [0..<32]"

definition ahci_find_free_cmd_slot :: "'s hba \<Rightarrow> uptr \<Rightarrow> 's devs \<Rightarrow> 's devs \<times> nat option" where
  "ahci_find_free_cmd_slot h port st =
     (let (st1, sact) = hb_load h (port + PORT_SACT) st; (st2, ci) = hb_load h (port + PORT_CI) st1
      in (st2, free_slot_of (sact OR ci)))"

partial_function (option) issue_wait :: "'s hba \<Rightarrow> uptr \<Rightarrow> nat \<Rightarrow> 's devs \<Rightarrow> ('s devs \<times> bool) option" where
  "issue_wait h port slot st =
     (let (st1, ci) = hb_load h (port + PORT_CI) st
      in if ci AND push_bit slot 1 \<noteq> 0
         then let (st2, is) = hb_load h (port + PORT_IS) st1
              in if is AND push_bit 30 1 \<noteq> 0 then Some (st2, False) else issue_wait h port slot st2
         else Some (st1, True))"

definition ahci_issue_cmd :: "'s hba \<Rightarrow> uptr \<Rightarrow> nat \<Rightarrow> 's devs \<Rightarrow> ('s devs \<times> bool) option" where
  "ahci_issue_cmd h port slot st =
     Option.bind (hb_wait_clear h (port + PORT_TFD) (push_bit 7 1 OR push_bit 3 1) (hb_store h (port + PORT_IS) (- 1) st)) (\<lambda>st1.
     issue_wait h port slot (hb_update h (port + PORT_CI) (\<lambda>v. v OR push_bit slot 1) st1))"

section \<open>Commands\<close>

text \<open>The header of a command as the driver lays it out, with 16 bits for each half of the table's address.\<close>

definition SIZEOF_CMD_HEADER :: u64 where "SIZEOF_CMD_HEADER = 28"
definition SIZEOF_CMD_TABLE :: u64 where "SIZEOF_CMD_TABLE = 128"

definition put_u16 :: "bytes \<Rightarrow> uptr \<Rightarrow> u16 \<Rightarrow> bytes" where
  "put_u16 m p v = put_bytes m p (le_bytes 2 (ucast v))"

definition set_cmd_table :: "bytes \<Rightarrow> uptr \<Rightarrow> u64 \<Rightarrow> bytes" where
  "set_cmd_table m cmd_hdr ctba =
     put_u16 (put_u16 m (cmd_hdr + 8) (ucast (ctba AND 0xFFFFFFFF))) (cmd_hdr + 10) (ucast (drop_bit 32 ctba AND 0xFFFFFFFF))"

definition cmd_table_of :: "bytes \<Rightarrow> uptr \<Rightarrow> uptr \<Rightarrow> uptr" where
  "cmd_table_of m HHDM cmd_hdr = (push_bit 32 (ucast (get_u16 m (cmd_hdr + 10))) OR ucast (get_u16 m (cmd_hdr + 8))) + HHDM"

text \<open>A host to device frame; \<^verbatim>\<open>c\<close> is the top bit of its second byte.\<close>

definition FIS_TYPE_REG_H2D :: u8 where "FIS_TYPE_REG_H2D = 0x27"

definition fis_reg_h2d :: "u8 \<Rightarrow> u64 \<Rightarrow> u8 \<Rightarrow> u64 \<Rightarrow> u8 list" where
  "fis_reg_h2d command lba device count =
     [FIS_TYPE_REG_H2D, push_bit 7 1, command, 0,
      ucast (lba AND 0xFF), ucast (drop_bit 8 lba AND 0xFF), ucast (drop_bit 16 lba AND 0xFF), device,
      ucast (drop_bit 24 lba AND 0xFF), ucast (drop_bit 32 lba AND 0xFF), ucast (drop_bit 40 lba AND 0xFF), 0,
      ucast (count AND 0xFF), ucast (drop_bit 8 count AND 0xFF), 0, 0, 0, 0, 0, 0]"

text \<open>The descriptor of the buffer: address, and a byte count of 22 bits with the interrupt bit.\<close>

definition prdt_entry :: "u64 \<Rightarrow> u64 \<Rightarrow> u8 list" where
  "prdt_entry buf_phys dbc =
     le_bytes 4 (buf_phys AND 0xFFFFFFFF) @ le_bytes 4 (drop_bit 32 buf_phys AND 0xFFFFFFFF) @ le_bytes 4 0 @
     le_bytes 4 ((dbc AND 0x3FFFFF) OR push_bit 31 1)"

text \<open>What both commands do with the header and the table of their slot.\<close>

definition setup_command :: "uptr \<Rightarrow> uptr \<Rightarrow> u8 list \<Rightarrow> u8 list \<Rightarrow> bytes \<Rightarrow> bytes" where
  "setup_command HHDM cmd_hdr fis prdt m =
     (let cmd_tbl = cmd_table_of m HHDM cmd_hdr;
          flags = ((get_u16 m cmd_hdr AND NOT 0x1F) OR 5) AND NOT (push_bit 6 1);
          m1 = put_u16 (put_u16 m cmd_hdr flags) (cmd_hdr + 2) 1;
          m2 = put_bytes m1 cmd_tbl fis;
          m3 = memset m2 (cmd_tbl + 64) 0 16
      in put_bytes m3 (cmd_tbl + 128) prdt)"

definition cmd_header_at :: "'s hba \<Rightarrow> uptr \<Rightarrow> nat \<Rightarrow> 's devs \<Rightarrow> 's devs \<times> uptr" where
  "cmd_header_at h port slot st =
     (let (st1, clbu) = hb_load h (port + PORT_CLBU) st; (st2, clb) = hb_load h (port + PORT_CLB) st1
      in (st2, (push_bit 32 (ucast clbu) OR ucast clb) + hb_HHDM h + SIZEOF_CMD_HEADER * of_nat slot))"

definition ahci_read :: "'s hba \<Rightarrow> uptr \<Rightarrow> u64 \<Rightarrow> uptr \<Rightarrow> u64 \<Rightarrow> 's devs \<Rightarrow> ('s devs \<times> bool) option" where
  "ahci_read h blk_dev lba buf count st =
     (let port = bd_driver_data (d_block st blk_dev); (st1, s) = ahci_find_free_cmd_slot h port st
      in case s of
           None \<Rightarrow> Some (st1, False)
         | Some slot \<Rightarrow>
             let buf_phys = hb_virt_to_phys h buf; (st2, cmd_hdr) = cmd_header_at h port slot st1;
                 m = setup_command (hb_HHDM h) cmd_hdr (fis_reg_h2d 0x25 lba (push_bit 6 1) count) (prdt_entry buf_phys (count * 512 - 1)) (d_bytes st2)
             in ahci_issue_cmd h port slot (st2\<lparr>d_bytes := m\<rparr>))"

definition ahci_write :: bool where
  "ahci_write = False"

section \<open>Drives\<close>

text \<open>The words of the answer to an identify command.\<close>

definition identify_word :: "bytes \<Rightarrow> uptr \<Rightarrow> nat \<Rightarrow> u16" where
  "identify_word m p i = get_u16 m (p + 2 * of_nat i)"

definition identify_name :: "bytes \<Rightarrow> uptr \<Rightarrow> u8 list" where
  "identify_name m p = concat (map (\<lambda>i. let w = identify_word m p (27 + i) in [ucast (drop_bit 8 w), ucast (w AND 0xFF)]) [0..<20]) @ [0]"

definition identify_sector_size :: "bytes \<Rightarrow> uptr \<Rightarrow> u64" where
  "identify_sector_size m p =
     (if identify_word m p 106 AND push_bit 12 1 \<noteq> 0
      then ucast (push_bit 16 (ucast (identify_word m p 118)) OR ucast (identify_word m p 117) :: u32) else 512)"

definition identify_sector_count :: "bytes \<Rightarrow> uptr \<Rightarrow> u64" where
  "identify_sector_count m p = push_bit 16 (ucast (identify_word m p 61)) OR ucast (identify_word m p 60)"

text \<open>\<open>rd\<close>, \<open>wr\<close> and \<open>ioctl\<close> are the addresses of \<^verbatim>\<open>ahci_read\<close>, \<^verbatim>\<open>ahci_write\<close> and the kernel's \<^verbatim>\<open>block_device_ioctl\<close>.\<close>

definition ahci_setup_storage_device :: "'s hba \<Rightarrow> 's dev_env \<Rightarrow> uptr \<Rightarrow> uptr \<Rightarrow> uptr \<Rightarrow> uptr \<Rightarrow> 's devs \<Rightarrow> ('s devs \<times> bool) run" where
  "ahci_setup_storage_device h env ioctl rd wr port st =
     (let (st1, s) = ahci_find_free_cmd_slot h port st
      in case s of
           None \<Rightarrow> ret (st1, False)
         | Some slot \<Rightarrow>
             seq (now (hb_pmm_alloc h st1)) (\<lambda>(st2, buf_phys).
             let (st3, cmd_hdr) = cmd_header_at h port slot st2;
                 m = setup_command (hb_HHDM h) cmd_hdr (fis_reg_h2d 0xEC 0 0 0) (prdt_entry buf_phys 511) (d_bytes st3)
             in seq (ends (ahci_issue_cmd h port slot (st3\<lparr>d_bytes := m\<rparr>))) (\<lambda>(st4, ok).
                if \<not> ok then ret (st4, False)
                else
                  let p = buf_phys + hb_HHDM h
                  in seq (d_alloc env 41 st4) (\<lambda>(st5, nm).
                     seq (check (nm \<noteq> 0) NullDeref) (\<lambda>_.
                     let st6 = st5\<lparr>d_bytes := put_bytes (d_bytes st5) nm (identify_name (d_bytes st5) p)\<rparr>
                     in seq (block_device_register_drive env ioctl nm (identify_sector_size (d_bytes st6) p) (identify_sector_count (d_bytes st6) p) rd wr port st6)
                          (\<lambda>st7. ret (st7, True)))))))"

definition setup_slot :: "'s hba \<Rightarrow> uptr \<Rightarrow> 's devs \<Rightarrow> nat \<Rightarrow> 's devs run" where
  "setup_slot h cmd_list st slot =
     (let cmd_hdr = cmd_list + SIZEOF_CMD_HEADER * of_nat slot; st1 = st\<lparr>d_bytes := put_u16 (d_bytes st) (cmd_hdr + 2) 0\<rparr>
      in seq (now (hb_pmm_alloc h st1)) (\<lambda>(st2, ctba).
         ret (st2\<lparr>d_bytes := memset (set_cmd_table (d_bytes st2) cmd_hdr ctba) (ctba + hb_HHDM h) 0 SIZEOF_CMD_TABLE\<rparr>)))"

definition setup_port :: "'s hba \<Rightarrow> 's dev_env \<Rightarrow> uptr \<Rightarrow> uptr \<Rightarrow> uptr \<Rightarrow> uptr \<Rightarrow> nat \<Rightarrow> 's devs \<Rightarrow> nat \<Rightarrow> 's devs run" where
  "setup_port h env ioctl rd wr ghc cmd_slots st i =
     (let (st0, pi) = hb_load h (ghc + HBA_PI) st; port = ghc + 0x100 + of_nat i * 0x80
      in if drop_bit i pi AND 1 = 0 then ret st0
         else
           let (st1, sig) = hb_load h (port + PORT_SIG) st0
           in if sig \<noteq> 0x101 then ret st1
              else
                seq (ends (ahci_port_idle h port st1)) (\<lambda>st2.
                seq (now (hb_pmm_alloc h st2)) (\<lambda>(st3, clb).
                let st4 = hb_store h (port + PORT_CLBU) (ucast (drop_bit 32 clb)) (hb_store h (port + PORT_CLB) (ucast clb) st3);
                    st5 = st4\<lparr>d_bytes := memset (d_bytes st4) (clb + hb_HHDM h) 0 1024\<rparr>
                in seq (now (hb_pmm_alloc h st5)) (\<lambda>(st6, fb).
                let st7 = hb_store h (port + PORT_FBU) (ucast (drop_bit 32 fb)) (hb_store h (port + PORT_FB) (ucast fb) st6);
                    st8 = st7\<lparr>d_bytes := memset (d_bytes st7) (fb + hb_HHDM h) 0 256\<rparr>
                in seq (run_each (setup_slot h (clb + hb_HHDM h)) [0..<cmd_slots] st8) (\<lambda>st9.
                   seq (ends (ahci_port_start h port st9)) (\<lambda>st10.
                   seq (ahci_setup_storage_device h env ioctl rd wr port st10) (\<lambda>(st11, _). ret st11)))))))"

definition ahci_setup :: "'s hba \<Rightarrow> 's dev_env \<Rightarrow> uptr \<Rightarrow> uptr \<Rightarrow> uptr \<Rightarrow> uptr \<Rightarrow> 's devs \<Rightarrow> 's devs run" where
  "ahci_setup h env ioctl rd wr abar st =
     (let ghc = abar + hb_HHDM h; st1 = hb_store h (ghc + HBA_GHC) (push_bit 31 1) st;
          (st2, cap) = hb_load h (ghc + HBA_CAP) st1; (st3, cap2) = hb_load h (ghc + HBA_CAP) st2
      in if \<not> bit cap2 31 then ret st3
         else run_each (setup_port h env ioctl rd wr ghc (unat (drop_bit 8 cap AND 0x1F))) [0..<32] st3)"

section \<open>The module\<close>

definition ahci_probe_device :: "uptr \<Rightarrow> 's devs \<Rightarrow> ('s devs \<times> bool) res" where
  "ahci_probe_device dev st =
     (let p = hardware_data (d_device st dev); m = d_bytes st
      in Inr (st, p \<noteq> 0 \<and> m (p + 11) = 1 \<and> m (p + 10) = 6 \<and> m (p + 9) = 1))"

definition ahci_setup_device :: "'s hba \<Rightarrow> 's dev_env \<Rightarrow> uptr \<Rightarrow> uptr \<Rightarrow> uptr \<Rightarrow> uptr \<Rightarrow> 's devs \<Rightarrow> 's devs run" where
  "ahci_setup_device h env ioctl rd wr dev st =
     ahci_setup h env ioctl rd wr (ucast (get_u32 (d_bytes st) (hardware_data (d_device st dev) + 16 + 4 * 5))) st"

text \<open>\<open>pci_lit\<close> is the address of the literal \<^verbatim>\<open>"pci"\<close>, \<open>drv\<close> that of the driver structure.\<close>

definition ahci_module_install :: "'s dev_env \<Rightarrow> uptr \<Rightarrow> uptr \<Rightarrow> 's devs \<Rightarrow> 's devs run" where
  "ahci_module_install env pci_lit drv st =
     seq (bus_lookup pci_lit st) (\<lambda>pci_bus. if pci_bus \<noteq> 0 then bus_register_driver env pci_bus drv st else ret st)"

end
