(* ===== verification/Ahci_Correct.thy ===== *)
theory Ahci_Correct
  imports Ahci
begin

text \<open>
  Slots, frames and command tables of the AHCI driver: the frame of a read carries block and count, but the
  command table the driver fills is not the one it allocated.
\<close>

section \<open>Slots and frames\<close>

lemma slot_bit: "(slots :: u32) AND push_bit i 1 = 0 \<longleftrightarrow> \<not> bit slots i"
  by (simp add: and_exp_eq_0_iff_not_bit)

lemma free_slot_of:
  "case free_slot_of slots of Some i \<Rightarrow> i < 32 \<and> \<not> bit slots i \<and> (\<forall>j < i. bit slots j) | None \<Rightarrow> \<forall>i < 32. bit slots i"
proof (cases "free_slot_of slots")
  case None
  then have "\<forall>i < 32. bit slots i" unfolding free_slot_of_def find_None_iff slot_bit by auto
  then show ?thesis using None by simp
next
  case (Some i)
  then obtain k where "k < 32" "\<not> bit slots k" "i = k" "\<forall>j < k. bit slots j"
    unfolding free_slot_of_def find_Some_iff slot_bit by auto
  then show ?thesis using Some by simp
qed

text \<open>How a drive reads the frame.\<close>

definition fis_lba :: "u8 list \<Rightarrow> nat" where
  "fis_lba f = le_nat [f ! 4, f ! 5, f ! 6, f ! 8, f ! 9, f ! 10]"

definition fis_count :: "u8 list \<Rightarrow> nat" where
  "fis_count f = le_nat [f ! 12, f ! 13]"

lemma byte_of: "(ucast ((w :: u64) AND 0xFF) :: u8) = ucast w"
proof -
  have m: "(0xFF :: u64) = mask 8" by (simp add: mask_eq_exp_minus_1)
  show ?thesis unfolding m by (rule bit_word_eqI) (simp add: bit_simps)
qed

text \<open>The frame of a read command names the block and the number of sectors of the request, for every block number of 48 bits and
  every count of 16 bits.\<close>

lemma fis_names_request:
  assumes "unat lba < 2 ^ 48" "unat count < 2 ^ 16"
  shows "fis_lba (fis_reg_h2d cmd lba dev count) = unat lba \<and> fis_count (fis_reg_h2d cmd lba dev count) = unat count \<and>
    length (fis_reg_h2d cmd lba dev count) = 20"
proof -
  have "[ucast lba, ucast (drop_bit 8 lba), ucast (drop_bit 16 lba), ucast (drop_bit 24 lba), ucast (drop_bit 32 lba), ucast (drop_bit 40 lba)] = le_bytes 6 lba"
    "[ucast count, ucast (drop_bit 8 count)] = le_bytes 2 count"
    by (simp_all add: le_bytes_def upt_rec)
  then have "fis_lba (fis_reg_h2d cmd lba dev count) = le_nat (le_bytes 6 lba)" "fis_count (fis_reg_h2d cmd lba dev count) = le_nat (le_bytes 2 count)"
    unfolding fis_lba_def fis_count_def fis_reg_h2d_def by (simp_all only: byte_of nth_Cons_numeral nth_Cons_0 diff_numeral_simps) simp_all
  then show ?thesis using assms by (simp add: le_nat_le_bytes fis_reg_h2d_def)
qed

section \<open>The command table\<close>

lemma get_put_u16: "get_u16 (put_u16 m p v) p = v"
proof -
  have "bytes_at (put_u16 m p v) p 2 = le_bytes 2 (ucast v)" using bytes_at_put_bytes [of "le_bytes 2 (ucast v)" m p] by (simp add: put_u16_def)
  moreover have "unat v < 65536" using unsigned_less [of v, where 'a = nat] by simp
  then have "unat (ucast v :: u64) mod 256 ^ 2 = unat v" by (simp add: unsigned_ucast_eq take_bit_nat_eq_self)
  ultimately show ?thesis by (simp add: get_u16_def le_nat_le_bytes)
qed

lemma get_put_u16_next: "get_u16 (put_u16 m (p + 2) v) p = get_u16 m p"
proof -
  have "block p 2 \<inter> block (p + of_nat 2) 2 = {}" by (rule block_next) simp
  then have "put_u16 m (p + 2) v x = m x" if "x \<in> block p 2" for x
    using that by (auto simp: put_u16_def intro!: put_bytes_block)
  then have "bytes_at (put_u16 m (p + 2) v) p 2 = bytes_at m p 2" by (rule bytes_at_agree)
  then show ?thesis by (simp add: get_u16_def)
qed

lemma cmd_table_parts:
  "cmd_table_of (set_cmd_table m hdr ctba) HHDM hdr = (push_bit 32 (ucast (ucast (drop_bit 32 ctba) :: u16)) OR ucast (ucast ctba :: u16)) + HHDM"
proof -
  have m: "(0xFFFFFFFF :: u64) = mask 32" by (simp add: mask_eq_exp_minus_1)
  have mk: "(ucast (w AND 0xFFFFFFFF) :: u16) = ucast w" for w :: u64 unfolding m by (rule bit_word_eqI) (simp add: bit_simps)
  have "hdr + 10 = hdr + 8 + 2" by simp
  then have "get_u16 (set_cmd_table m hdr ctba) (hdr + 8) = ucast ctba" "get_u16 (set_cmd_table m hdr ctba) (hdr + 10) = ucast (drop_bit 32 ctba)"
    unfolding set_cmd_table_def by (simp_all only: get_put_u16_next get_put_u16 mk)
  then show ?thesis by (simp add: cmd_table_of_def)
qed

text \<open>The driver loses the upper bits of the address of a command table: for a table between 64 KiB and 4 GiB, where it was allocated, the
  commands are written to the address without the bits from 16 on.\<close>

theorem cmd_table_lost:
  assumes "2 ^ 16 \<le> unat ctba" "unat ctba < 2 ^ 32"
  shows "cmd_table_of (set_cmd_table m hdr ctba) HHDM hdr = of_nat (unat ctba mod 2 ^ 16) + HHDM \<and>
    cmd_table_of (set_cmd_table m hdr ctba) HHDM hdr \<noteq> ctba + HHDM"
proof -
  have "unat (drop_bit 32 ctba) = 0" using assms(2) by (simp add: drop_bit_eq_div unat_div)
  then have "drop_bit 32 ctba = 0" by (simp add: unat_eq_zero)
  moreover have u: "(ucast (ucast ctba :: u16) :: u64) = of_nat (unat ctba mod 2 ^ 16)"
  proof -
    have "unat (ucast ctba :: u16) = unat ctba mod 2 ^ 16" by (simp add: unsigned_ucast_eq take_bit_eq_mod)
    then show ?thesis by (metis of_nat_unat)
  qed
  ultimately have e: "cmd_table_of (set_cmd_table m hdr ctba) HHDM hdr = of_nat (unat ctba mod 2 ^ 16) + HHDM" by (simp add: cmd_table_parts)
  have "unat (of_nat (unat ctba mod 2 ^ 16) :: u64) < 2 ^ 16" by (subst of_nat_u64) simp_all
  then have "of_nat (unat ctba mod 2 ^ 16) \<noteq> ctba" using assms(1) by (metis linorder_not_less)
  then show ?thesis using e by simp
qed

end
