(* ===== verification/Ps2kb.thy ===== *)
theory Ps2kb
  imports Interrupts Acpi Timer
begin

text \<open>
  The driver of PS/2 keyboards, \<^verbatim>\<open>modules/ps2kb\<close>: the set-up of the controller through its ports, and the events of the
  interrupt handler.
\<close>

section \<open>Key codes\<close>

text \<open>The table of the header, with the numbers of the keys from \<^verbatim>\<open>KEY_ESC\<close> to \<^verbatim>\<open>KEY_KPDOT\<close> in the order of the scan codes; it has 96 entries, and those that are
  not named are 0.\<close>

definition scancode_to_keycode :: "u64 list" where
  "scancode_to_keycode =
     [0, 1, 2, 3, 4, 5, 6, 7, 8, 9, 10, 11, 12, 13, 14, 15, 16, 17, 18, 19, 20, 21, 22, 23, 24, 25, 26, 27, 28, 29,
      30, 31, 32, 33, 34, 35, 36, 37, 38, 39, 40, 41, 42, 43, 44, 45, 46, 47, 48, 49, 50, 51, 52, 53, 54, 55, 56, 57,
      58, 59, 60, 61, 62, 63, 64, 65, 66, 67, 68, 69, 70, 71, 72, 73, 74, 75, 76, 77, 78, 79, 80, 81, 82, 83] @
     replicate 12 0"

definition KEY_RELEASE :: u16 where "KEY_RELEASE = 0"
definition KEY_PRESS :: u16 where "KEY_PRESS = 1"

record kb_event_t =
  ev_timestamp :: u64
  ev_key :: u16
  ev_value :: u16

section \<open>Events\<close>

definition kb_event :: "u8 \<Rightarrow> kb_event_t" where
  "kb_event scancode =
     (if scancode < 0x80 then \<lparr>ev_timestamp = 0, ev_key = ucast scancode, ev_value = KEY_PRESS\<rparr>
      else \<lparr>ev_timestamp = 0, ev_key = ucast (scancode - 0x80), ev_value = KEY_RELEASE\<rparr>)"

definition PS2_DATA_PORT :: u16 where "PS2_DATA_PORT = 0x60"

text \<open>The handler logs the event.\<close>

definition ps2kb_irq_handler :: "'d hw \<Rightarrow> 'd \<Rightarrow> 'd \<times> kb_event_t" where
  "ps2kb_irq_handler hw d = (let (d1, scancode) = io_inb hw PS2_DATA_PORT d in (d1, kb_event scancode))"

section \<open>Set-up\<close>

definition KB_IRQ :: u32 where "KB_IRQ = 1"

partial_function (option) ps2_wait_input :: "'d hw \<Rightarrow> 'd \<Rightarrow> 'd option" where
  "ps2_wait_input hw d = (let (d1, v) = io_inb hw 0x64 d in if v AND 2 \<noteq> 0 then ps2_wait_input hw d1 else Some d1)"

partial_function (option) ps2_wait_output :: "'d hw \<Rightarrow> 'd \<Rightarrow> 'd option" where
  "ps2_wait_output hw d = (let (d1, v) = io_inb hw 0x64 d in if v AND 1 = 0 then ps2_wait_output hw d1 else Some d1)"

definition ps2_controller :: "'d hw \<Rightarrow> 'd \<Rightarrow> 'd option" where
  "ps2_controller hw d =
     Option.bind (ps2_wait_input hw d) (\<lambda>d1.
     Option.bind (ps2_wait_output hw (io_outb hw 0x64 0x20 d1)) (\<lambda>d2.
     let (d3, cmd) = io_inb hw 0x60 d2; cmd = cmd OR 0x01 OR 0x10
     in Option.bind (ps2_wait_input hw d3) (\<lambda>d4.
        Option.bind (ps2_wait_input hw (io_outb hw 0x64 0x60 d4)) (\<lambda>d5.
        Option.bind (ps2_wait_input hw (io_outb hw 0x60 cmd d5)) (\<lambda>d6.
        Some (io_outb hw 0x64 0xAE d6))))))"

text \<open>\<open>handler\<close> is \<^verbatim>\<open>ps2kb_irq_handler\<close> as an entry of the table of handlers.\<close>

definition ps2kb_setup ::
  "'d hw \<Rightarrow> ('s, 'v) handler \<Rightarrow> 'd \<Rightarrow> ('s, 'v) handler option list \<Rightarrow> ioapic \<Rightarrow> ('d \<times> ('s, 'v) handler option list \<times> ioapic) run" where
  "ps2kb_setup hw handler d handlers io =
     seq (ends (ps2_controller hw d)) (\<lambda>d1.
     seq (now (arch_int_register_irq_handler KB_IRQ (Some handler) handlers)) (\<lambda>handlers1.
     ret (d1, handlers1, x86_64_ioapic_map_legacy_irq (ucast KB_IRQ) 0 False False 33 io)))"

section \<open>What the driver reports\<close>

text \<open>The table that maps scan codes to key codes is the identity where it is not zero, so the event has the key code, although the
  handler does not use the table.\<close>

lemma scancode_identity:
  assumes "i \<le> 0x53"
  shows "scancode_to_keycode ! i = of_nat i"
proof -
  have "take 0x54 scancode_to_keycode = map of_nat [0..<0x54]" by code_simp
  then have "take 0x54 scancode_to_keycode ! i = map of_nat [0..<0x54] ! i" by (rule arg_cong)
  moreover have "take 0x54 scancode_to_keycode ! i = scancode_to_keycode ! i" by (rule nth_take) (use assms in simp)
  moreover have "map of_nat [0..<0x54] ! i = (of_nat i :: u64)" by (subst nth_map) (use assms in simp_all)
  ultimately show ?thesis by (simp only:)
qed

lemma kb_event_key:
  assumes "unat scancode mod 0x80 \<le> 0x53"
  shows "ev_key (kb_event scancode) = ucast (scancode_to_keycode ! (unat scancode mod 0x80)) \<and>
    (ev_value (kb_event scancode) = KEY_PRESS \<longleftrightarrow> scancode < 0x80)"
proof -
  have k: "scancode_to_keycode ! (unat scancode mod 0x80) = of_nat (unat scancode mod 0x80)"
    using assms by (subst scancode_identity) simp_all
  have "unat (if scancode < 0x80 then scancode else scancode - 0x80) = unat scancode mod 0x80"
  proof (cases "scancode < 0x80")
    case False
    then have "unat (scancode - 0x80) = unat scancode - 0x80" by (simp add: unat_sub word_le_nat_alt not_less)
    moreover have "unat scancode < 256" using unsigned_less [of scancode, where 'a = nat] by simp
    moreover have "128 \<le> unat scancode" using False by (simp add: word_less_nat_alt)
    ultimately show ?thesis using False by (simp add: mod_if)
  qed (simp add: word_less_nat_alt)
  then have "unat (ev_key (kb_event scancode)) = unat scancode mod 0x80"
    using unsigned_less [of scancode, where 'a = nat] by (simp add: kb_event_def unsigned_ucast_eq take_bit_nat_eq_self split: if_splits)
  moreover have "unat (ucast (of_nat (unat scancode mod 0x80) :: u64) :: u16) = unat scancode mod 0x80"
    using of_nat_u64 [of "unat scancode mod 0x80"] by (simp add: unsigned_ucast_eq take_bit_nat_eq_self)
  ultimately have "ev_key (kb_event scancode) = ucast (of_nat (unat scancode mod 0x80) :: u64)" by (simp only: word_unat_eq_iff)
  then show ?thesis unfolding k by (simp add: kb_event_def KEY_PRESS_def KEY_RELEASE_def)
qed

text \<open>After the set-up of the keyboard its interrupts reach its handler: the redirection register of its line carries the vector whose
  entry in the table of handlers is the handler of the driver.\<close>

lemma ps2kb_connected:
  assumes "ps2kb_setup hw handler d handlers io = ret (d', handlers', io')" "length handlers = 256"
    and "g_irq_redirection_table io ! 1 = (ucast gsi, 0)"
  shows "\<exists>vector. io_regs io' (IOREDTBL gsi) = ucast (vector :: u8) \<and> handlers' ! unat vector = Some handler \<and>
    (\<forall>i < 256. i \<noteq> unat vector \<longrightarrow> handlers' ! i = handlers ! i)"
proof -
  have h: "handlers' = handlers[33 := Some handler]" "io' = x86_64_ioapic_map_legacy_irq 1 0 False False 33 io"
    using assms(1,2) by (auto simp: ps2kb_setup_def seq_eq_ret arch_int_register_irq_handler_def KB_IRQ_def Let_def)
  have "(ucast (ucast gsi :: u16) :: u8) = gsi" by (rule bit_word_eqI) (simp add: bit_simps)
  moreover have "IOREDTBL gsi + 1 \<noteq> IOREDTBL gsi" by simp
  ultimately have "io_regs io' (IOREDTBL gsi) = 33"
    using assms(3) by (simp add: h(2) x86_64_ioapic_map_legacy_irq_def x86_64_ioapic_map_gsi_def ioapic_write_def Let_def ioapic_redirect_def
      SO_FLAG_POLARITY_LOW_def SO_FLAG_POLARITY_HIGH_def SO_TRIGGER_EDGE_def SO_TRIGGER_LEVEL_def)
  then show ?thesis using assms(2) by (intro exI [of _ 33]) (simp add: h(1))
qed

end
