(* ===== verification/Startup.thy ===== *)
theory Startup
  imports Tables_Correct Timer Acpi Console
begin

text \<open>
  The start of the kernel on x86_64 (\<^verbatim>\<open>arch/x86_64/entry.c\<close>, \<^verbatim>\<open>init.c\<close>) up to \<^verbatim>\<open>kernel_main\<close>, as the composition of the initialisers, and
  the table of system calls (\<^verbatim>\<open>syscalls/syscall.c\<close>).  The messages to the log are left out.
\<close>

section \<open>The table of system calls\<close>

definition syscall_table :: "string list" where
  "syscall_table =
     [''syscall_accept'', ''syscall_bind'', ''syscall_close'', ''syscall_connect'', ''syscall_debug_log'', ''syscall_exit'',
      ''syscall_getpeername'', ''syscall_getsockname'', ''syscall_ioctl'', ''syscall_listen'', ''syscall_mmap'', ''syscall_open'',
      ''syscall_read'', ''syscall_recv'', ''syscall_seek'', ''syscall_send'', ''syscall_shutdown'', ''syscall_socket'', ''syscall_tcb'',
      ''syscall_write'']"

definition syscall_table_length :: u64 where
  "syscall_table_length = of_nat (length syscall_table)"

section \<open>The first processor\<close>

record 'd boot =
  b_x86 :: x86
  b_idt :: "idt_entry_t list"
  b_acpi :: acpi
  b_ioapic :: ioapic
  b_lapic :: lapic
  b_dev :: 'd
  b_fb :: framebuffer_t
  b_int :: bool

text \<open>
  What is fixed when the kernel is linked or loaded: the addresses of the tables, of the entry of the system calls and of the
  stubs, the literal \<^verbatim>\<open>"APIC"\<close>, the answers of the boot loader, and the processor's \<^verbatim>\<open>cpuid\<close>.
\<close>

record 'd boot_env =
  be_hw :: "'d hw"
  be_cpuid :: cpuid
  be_HHDM :: uptr
  be_gdt :: uptr
  be_idt :: uptr
  be_syscall_entry :: uptr
  be_stubs :: "uptr list"
  be_apic_lit :: uptr
  be_rsdp :: "uptr option"
  be_framebuffers :: "limine_framebuffer list option"

definition arch_cpu_core_init :: "'d boot_env \<Rightarrow> 'd boot \<Rightarrow> 'd boot option" where
  "arch_cpu_core_init env st =
     (let x = x86_64_fpu_init_cpu (be_cpuid env) (x86_64_idt_load (be_idt env) (x86_64_gdt_load (be_gdt env) (b_x86 st)))
      in case x86_64_lapic_init (be_hw env) (be_HHDM env) (x86_64_msr_read X86_64_MSR_APIC_BASE x) (b_lapic st) (b_dev st) of
           None \<Rightarrow> None
         | Some (d, l) \<Rightarrow> Some (st\<lparr>b_x86 := x86_64_syscall_init (be_syscall_entry env) x, b_lapic := l, b_dev := d\<rparr>))"

text \<open>The state when \<^verbatim>\<open>kernel_main\<close> is called.\<close>

definition kernel_entry :: "'d boot_env \<Rightarrow> 'd boot \<Rightarrow> 'd boot run" where
  "kernel_entry env st =
     (let st1 = st\<lparr>b_int := False\<rparr>
      in seq (now (video_init (be_framebuffers env))) (\<lambda>fb.
         let st2 = st1\<lparr>b_fb := fb, b_idt := x86_64_idt_make (be_stubs env)\<rparr>;
             (acpi, status) = acpi_init (x_mem (b_x86 st2)) (be_HHDM env) (be_rsdp env) (b_acpi st2)
         in if \<not> status then fail Panic
            else
              let st3 = st2\<lparr>b_acpi := acpi, b_dev := x86_64_pic_disable (be_hw env) (b_dev st2)\<rparr>
              in seq (x86_64_ioapic_init (x_mem (b_x86 st3)) (be_HHDM env) (b_acpi st3) (be_apic_lit env) (b_ioapic st3)) (\<lambda>io.
                 seq (now (x86_64_fpu_init (be_cpuid env) (b_x86 st3))) (\<lambda>x.
                 ends (arch_cpu_core_init env (st3\<lparr>b_ioapic := io, b_x86 := x\<rparr>))))))"

section \<open>The state at \<^verbatim>\<open>kernel_main\<close>\<close>

lemma init_keeps_tables [simp]:
  "x_gdt (x86_64_fpu_init_cpu cpuid x) = x_gdt x" "x_idtr (x86_64_fpu_init_cpu cpuid x) = x_idtr x" "x_gdtr (x86_64_fpu_init_cpu cpuid x) = x_gdtr x"
  "x_gdt (x86_64_syscall_init e x) = x_gdt x" "x_idtr (x86_64_msr_write r v x) = x_idtr x" "x_gdtr (x86_64_msr_write r v x) = x_gdtr x"
  "x_cs (x86_64_fpu_init_cpu cpuid x) = x_cs x" "x_cs (x86_64_msr_write r v x) = x_cs x"
  "x_idtr (x86_64_syscall_init e x) = x_idtr x" "x_gdtr (x86_64_syscall_init e x) = x_gdtr x" "x_cs (x86_64_syscall_init e x) = x_cs x"
  by (simp_all add: x86_64_fpu_init_cpu_def x86_64_syscall_init_def x86_64_msr_write_def wrmsr_def Let_def)

text \<open>C25: whenever the kernel reaches \<^verbatim>\<open>kernel_main\<close>, interrupts are masked, the processor uses the kernel's tables with their full
  lengths and runs in the kernel's code segment, every interrupt leads to its own stub, system calls enter
  the kernel's entry, a controller for the interrupts of devices was found, and the instructions that save
  the floating point state are chosen.\<close>

theorem kernel_entry_ready:
  assumes "kernel_entry env st = ret st'" "x_gdt (b_x86 st) = g_gdt"
  shows "\<not> b_int st' \<and> x_gdtr (b_x86 st') = (55, be_gdt env) \<and> x_idtr (b_x86 st') = (4095, be_idt env) \<and>
    x_cs (b_x86 st') = X86_64_GDT_SELECTOR_CODE64_RING0 \<and> is_code64 (descriptor (x_gdt (b_x86 st')) (x_cs (b_x86 st'))) \<and>
    (\<forall>i < 256. gate_target (b_idt st' ! i) = be_stubs env ! i) \<and>
    x_msr (b_x86 st') X86_64_MSR_LSTAR = be_syscall_entry env \<and> g_ioapic_base (b_ioapic st') \<noteq> 0 \<and> x_fpu_instr (b_x86 st') \<noteq> None"
proof -
  let ?st2 = "\<lambda>fb. st\<lparr>b_int := False, b_fb := fb, b_idt := x86_64_idt_make (be_stubs env)\<rparr>"
  obtain acpi status where i: "acpi_init (x_mem (b_x86 st)) (be_HHDM env) (be_rsdp env) (b_acpi st) = (acpi, status)" by (rule prod.exhaust)
  obtain fb io x where a: "x86_64_ioapic_init (x_mem (b_x86 st)) (be_HHDM env) acpi (be_apic_lit env) (b_ioapic st) = ret io"
    "x86_64_fpu_init (be_cpuid env) (b_x86 st) = Inr x"
    "arch_cpu_core_init env ((?st2 fb)\<lparr>b_acpi := acpi, b_dev := x86_64_pic_disable (be_hw env) (b_dev st), b_ioapic := io, b_x86 := x\<rparr>) = Some st'"
    using assms(1) by (cases status) (auto simp: kernel_entry_def Let_def seq_eq_ret i)
  have io: "g_ioapic_base io \<noteq> 0" using a(1) by (auto simp: x86_64_ioapic_init_def seq_eq_ret split: if_splits)
  have x: "x_gdt x = g_gdt" "x_fpu_instr x \<noteq> None" using a(2) assms(2) by (auto simp: x86_64_fpu_init_def split: if_splits)
  let ?x = "x86_64_fpu_init_cpu (be_cpuid env) (x86_64_idt_load (be_idt env) (x86_64_gdt_load (be_gdt env) x))"
  have st': "b_x86 st' = x86_64_syscall_init (be_syscall_entry env) ?x" "b_idt st' = x86_64_idt_make (be_stubs env)" "\<not> b_int st'" "b_ioapic st' = io"
    using a(3) by (auto simp: arch_cpu_core_init_def Let_def split: option.splits prod.splits)
  have "x_gdt ?x = g_gdt" "x_gdtr ?x = (55, be_gdt env)" "x_idtr ?x = (4095, be_idt env)" "x_cs ?x = X86_64_GDT_SELECTOR_CODE64_RING0" "x_fpu_instr ?x = x_fpu_instr x"
    using x(1) by (simp_all add: x86_64_idt_load_def x86_64_gdt_load_def gdt_load_def sizeof_gdt_def g_gdt_def, simp add: x86_64_fpu_init_cpu_def Let_def)
  moreover have "x_msr (x86_64_syscall_init e y) X86_64_MSR_LSTAR = e" "x_fpu_instr (x86_64_syscall_init e y) = x_fpu_instr y" for e y
    by (simp_all add: x86_64_syscall_init_def Let_def X86_64_MSR_LSTAR_def X86_64_MSR_SFMASK_def, simp add: x86_64_msr_write_def wrmsr_def)
  moreover have "is_code64 (descriptor g_gdt X86_64_GDT_SELECTOR_CODE64_RING0)"
    by (simp add: descriptor_def g_gdt_words is_code64_def X86_64_GDT_SELECTOR_CODE64_RING0_def push_bit_eq_mult)
  ultimately show ?thesis using st' io x(2) idt_reaches_stubs [of _ "be_stubs env"] by simp
qed

text \<open>
  A machine with the root pointer at \<^verbatim>\<open>0x1000\<close>, a root table with one entry at \<^verbatim>\<open>0x2000\<close>, the description of one interrupt
  controller at \<^verbatim>\<open>0x3000\<close> and the literal at \<^verbatim>\<open>0x4000\<close>.
\<close>

definition boot_memory :: bytes where
  "boot_memory = (\<lambda>_. 0)
     (0x1011 := 0x20, 0x2004 := 40, 0x2025 := 0x30,
      0x3000 := 0x41, 0x3001 := 0x50, 0x3002 := 0x49, 0x3003 := 0x43, 0x3004 := 56, 0x302C := 1, 0x302D := 12, 0x3032 := 0xC0, 0x3033 := 0xFE,
      0x4000 := 0x41, 0x4001 := 0x50, 0x4002 := 0x49, 0x4003 := 0x43)"

definition boot_example :: "timers boot" where
  "boot_example =
     \<lparr>b_x86 = \<lparr>x_mem = boot_memory, x_gdt = g_gdt, x_gdtr = (0, 0), x_idtr = (0, 0), x_tr = 0, x_cs = 0, x_ss = 0, x_ds = 0, x_es = 0, x_msr = (\<lambda>_. 0),
        x_cr0 = 0, x_cr4 = 0, x_xcr0 = 0, x_fpu_area_size = 0, x_fpu_instr = None\<rparr>,
      b_idt = [], b_acpi = \<lparr>a_root_sdt = 0, a_extended = False\<rparr>,
      b_ioapic = \<lparr>g_ioapic_base = 0, g_irq_redirection_table = irq_redirection_init, io_sel = 0, io_regs = (\<lambda>_. 0)\<rparr>,
      b_lapic = \<lparr>g_lapic_base = 0, g_lapic_timer_freq = 0\<rparr>, b_dev = timers_start,
      b_fb = \<lparr>fb_addr = 0, fb_height = 0, fb_width = 0, fb_pitch = 0, fb_size = 0, fb_bpp = 0\<rparr>, b_int = True\<rparr>"

definition boot_env_example :: "timers boot_env" where
  "boot_env_example =
     \<lparr>be_hw = plain_timers, be_cpuid = (\<lambda>_ _. \<lparr>r_eax = 0, r_ebx = 0, r_ecx = 0, r_edx = push_bit 24 1\<rparr>), be_HHDM = 0, be_gdt = 0x5000, be_idt = 0x6000,
      be_syscall_entry = 0x7000, be_stubs = map (\<lambda>i. 0x8000 + 16 * of_nat i) [0..<256], be_apic_lit = 0x4000, be_rsdp = Some 0x1000,
      be_framebuffers = Some [\<lparr>lf_address = 0x10000, lf_width = 640, lf_height = 480, lf_pitch = 2560, lf_bpp = 32\<rparr>]\<rparr>"

lemma boot_ioapic: "\<exists>io. x86_64_ioapic_init boot_memory 0 \<lparr>a_root_sdt = 0x2000, a_extended = False\<rparr> 0x4000 (b_ioapic boot_example) = ret io"
proof -
  have "acpi_entries boot_memory \<lparr>a_root_sdt = 0x2000, a_extended = False\<rparr> = 1"
    by (simp add: acpi_entries_def get_u32_def bytes_at_def upt_rec boot_memory_def SDT_LENGTH_def SIZEOF_SDT_def)
  moreover have "acpi_entry boot_memory 0 \<lparr>a_root_sdt = 0x2000, a_extended = False\<rparr> 0 = 0x3000"
    by (simp add: acpi_entry_def get_u32_def bytes_at_def upt_rec boot_memory_def SIZEOF_SDT_def)
  moreover have "strncmp boot_memory 0x3000 0x4000 4 = 0"
    by (simp add: strncmp.simps boot_memory_def)
  ultimately have "acpi_lookup boot_memory 0 \<lparr>a_root_sdt = 0x2000, a_extended = False\<rparr> 0x4000 = Inr 0x3000"
    by (simp add: acpi_lookup_def assert_c_def)
  moreover have "get_u32 boot_memory 0x3004 = 56" "get_u32 boot_memory 0x3030 = 0xFEC00000"
    by (simp_all add: get_u32_def bytes_at_def upt_rec boot_memory_def)
  moreover have "boot_memory 0x302C = 1" "boot_memory 0x302D = 12" by (simp_all add: boot_memory_def)
  ultimately show ?thesis
    by (simp add: x86_64_ioapic_init_def SDT_LENGTH_def SIZEOF_MADT_def madt_loop.simps madt_entry_at_def MADT_TYPE_IOAPIC_def boot_example_def)
qed

theorem kernel_entry_ready_witness:
  "\<exists>st'. kernel_entry boot_env_example boot_example = ret st' \<and> \<not> b_int st' \<and> gate_target (b_idt st' ! 14) = 0x80E0"
proof -
  obtain io where io: "x86_64_ioapic_init boot_memory 0 \<lparr>a_root_sdt = 0x2000, a_extended = False\<rparr> 0x4000 (b_ioapic boot_example) = ret io"
    using boot_ioapic by blast
  have a: "acpi_init boot_memory 0 (Some 0x1000) (b_acpi boot_example) = (\<lparr>a_root_sdt = 0x2000, a_extended = False\<rparr>, True)"
    by (simp add: acpi_init_def boot_memory_def SDP_REVISION_def SDP_RSDT_ADDR_def get_u32_def bytes_at_def upt_rec boot_example_def)
  have "\<exists>d l. x86_64_lapic_init plain_timers 0 base (b_lapic boot_example) d0 = Some (d, l)" for base d0
    using calibrate_ends [OF plain_timers_ok refl, of "lapic_store plain_timers REG_TIMER_DIV 0 (lapic_store plain_timers REG_SPURIOUS (push_bit 8 1 OR 0xFF) d0)" 8]
      timers_okD(4) [OF plain_timers_ok, of REG_TIMER_DIV 0 "lapic_store plain_timers REG_SPURIOUS (push_bit 8 1 OR 0xFF) d0"]
    by (auto simp: x86_64_lapic_init_def boot_example_def Let_def)
  then have l: "x86_64_lapic_init plain_timers 0 base (b_lapic boot_example) d0 \<noteq> None" for base d0 by fastforce
  have "\<exists>st'. arch_cpu_core_init boot_env_example st = Some st'" if "b_lapic st = b_lapic boot_example" for st
    using l by (auto simp: arch_cpu_core_init_def that boot_env_example_def Let_def split: option.split)
  moreover have "x_mem (b_x86 boot_example) = boot_memory" by (simp add: boot_example_def)
  ultimately have "\<exists>st'. kernel_entry boot_env_example boot_example = ret st'"
    using io a by (simp add: kernel_entry_def boot_env_example_def video_init_def x86_64_fpu_init_def x86_64_cpuid_check_feature_def
      X86_64_CPUID_FEATURE_FXSR_def X86_64_CPUID_FEATURE_XSAVE_def Let_def)
  then obtain st' where st': "kernel_entry boot_env_example boot_example = ret st'" by blast
  have "be_stubs boot_env_example ! 14 = 0x80E0" by (simp add: boot_env_example_def)
  then show ?thesis using st' kernel_entry_ready [OF st'] by (auto simp: boot_example_def)
qed

end
