(* ===== verification/Spec2Isabelle.thy ===== *)
theory Spec2Isabelle
  imports Prelude Klist Rbtree_Splice Spinlock Frames Ptm_Maps Kstring_Correct Vmm_Access Kmem_Client Vfs_Correct Printf_Correct Resource_Correct Sockets_Correct Syscalls Sched_Correct Elf_Correct Loader_Correct Exec Isr_Correct Thread_Start Tables_Correct Interrupts Acpi_Correct Timer Device_Correct Console Ahci_Correct Ps2kb Startup
begin

text \<open>
  A verification of the lykOS kernel (\<^verbatim>\<open>src/kernel/src\<close>; paths below are relative to it).

  The kernel is a C program.  Each part is translated into HOL definitions that follow the C code
  statement by statement and keep its names; the theorems state what the part does, on every
  path.  Most theorems say that the code does what it means to do; where it does not, a theorem
  says what happens instead.

  \<^bold>\<open>Conventions\<close>

  \<^item> Machine integers are words of their width, so overflow wraps as in C; pointers are 64 bit words.
  \<^item> A failed \<^verbatim>\<open>ASSERT\<close>, a panic, the use of a null pointer, an index out of bounds and undefined
    behaviour are values of \<open>fault\<close>; an operation that can meet one returns \<open>fault + result\<close>
    (theory \<open>Prelude\<close>).  Loops whose end depends on the data are in the type \<open>run\<close> (theory \<open>Run\<close>),
    where \<open>None\<close> is a loop that does not end; the theorems about them state that a result exists.
  \<^item> Structures are records.  A component's memory is part of its state: a function from
    addresses to nodes, headers or bytes.  Intrusive lists are linked nodes in \<open>Klist\<close> and in the
    allocator of page frames; the components above use the list of addresses they stand for.
  \<^item> What a component calls and another one provides (the heap, page frames, the timer) is an
    argument or, where laws are needed, a locale: \<open>frame_allocator\<close>, \<open>page_tables\<close>, \<open>object_cache\<close>
    and \<open>node_list\<close>.  Each is interpreted on the definitions of the providing component.
  \<^item> Code the boot loader or the hardware provides (the memory map, the boot modules, the direct
    map's offset, the registers of devices) is an argument or a field of the state.

  \<^bold>\<open>Libraries\<close>

  \<^item> \<open>Prelude\<close>, \<open>Run\<close>, \<open>Errno\<close>: types and constants of \<^verbatim>\<open>lib/def.h\<close>, \<^verbatim>\<open>lib/math.h\<close>, \<^verbatim>\<open>arch/types.h\<close>,
    \<^verbatim>\<open>lib/errno.h\<close>; faults; loops; words.
  \<^item> \<open>Klist\<close>: \<^verbatim>\<open>lib/list.c\<close>.  A list is a first in, first out queue and any node can be removed.
  \<^item> \<open>Rbtree\<close> (model), \<open>Rb_Shape\<close> (trees), \<open>Rbtree_Correct\<close>, \<open>Rbtree_Remove\<close>, \<open>Rbtree_Splice\<close>:
    \<^verbatim>\<open>lib/rbtree.c\<close>.  Insertion, removal, search and traversal end, keep the red-black search tree
    and implement the operations on the sorted list of entries.
  \<^item> \<open>Kstring\<close>, \<open>Kstring_Correct\<close>: \<^verbatim>\<open>lib/string.c\<close>, \<^verbatim>\<open>lib/path.c\<close>, \<^verbatim>\<open>lib/hash.c\<close>.
  \<^item> \<open>Printf\<close>, \<open>Printf_Correct\<close>: \<^verbatim>\<open>lib/printf.c\<close>.  Output stays in its buffer; numbers print as
    themselves.
  \<^item> \<open>Spinlock\<close>: \<^verbatim>\<open>common/sync/spinlock.c\<close>, as the sequential operations the other theories use, and
    as a step relation of interleaved CPUs, with mutual exclusion.  In the sequential operations
    a lock that is already held is a panic: the time-out of its loop.

  \<^bold>\<open>Memory\<close>

  \<^item> \<open>Pmm\<close> (model), \<open>Pmm_Correct\<close>, \<open>Pmm_Alloc\<close>, \<open>Pmm_Init\<close>: the buddy allocator \<^verbatim>\<open>mm/pmm.c\<close>.
    The invariant is a tiling of the pages into aligned blocks; allocation and release move
    exactly the pages of a block between the free and the used ones.
  \<^item> \<open>Frames\<close>, \<open>Pages\<close>: the contract of the allocator for single pages; addresses and pages.
  \<^item> \<open>Ptm\<close> (model), \<open>Ptm_Correct\<close>, \<open>Ptm_Maps\<close>: the page tables of both architectures,
    \<^verbatim>\<open>arch/x86_64/ptm.c\<close> and \<^verbatim>\<open>arch/aarch64/ptm.c\<close>.  A mapping changes one translation only.
  \<^item> \<open>Vmm\<close> (model), \<open>Vmm_Correct\<close>, \<open>Vmm_Access\<close>: \<^verbatim>\<open>mm/vmm.c\<close>.  Segments stay sorted and disjoint;
    page faults, kernel mappings and copies into another address space.
  \<^item> \<open>Kmem\<close> (model), \<open>Kmem_Correct\<close>, \<open>Kmem_Alloc\<close>, \<open>Kmem_Init\<close>, \<open>Kmem_Client\<close>: the object caches
    \<^verbatim>\<open>mm/kmem.c\<close> and the heap \<^verbatim>\<open>mm/heap.c\<close>.  Every object has one owner.

  \<^bold>\<open>Files, resources and sockets\<close>

  \<^item> \<open>Fs\<close>, \<open>Vfs\<close> (models), \<open>Fs_Correct\<close>, \<open>Vfs_Correct\<close>: \<^verbatim>\<open>fs/tmpfs.c\<close>, \<^verbatim>\<open>fs/initrd.c\<close>, \<^verbatim>\<open>fs/devfs.c\<close> and
    \<^verbatim>\<open>fs/vfs.c\<close>.  The operation table of a vnode is the name of its file system.
  \<^item> \<open>Resource\<close>, \<open>Resource_Correct\<close>: the descriptors of a process, \<^verbatim>\<open>sys/resource.c\<close>, and the calls of
    \<^verbatim>\<open>syscalls/io.c\<close>, \<^verbatim>\<open>mem.c\<close> and \<^verbatim>\<open>debug_log.c\<close>.
  \<^item> \<open>Sockets\<close>, \<open>Sockets_Correct\<close>: \<^verbatim>\<open>sys/sockets\<close> and \<^verbatim>\<open>syscalls/socket.c\<close>.  Connections are accepted in the order they were made.
  \<^item> \<open>Syscalls\<close>: the table of \<^verbatim>\<open>syscalls/syscall.c\<close> as one function on the state of all the parts that calls work on, and what any
    sequence of calls does to the descriptors of a process.

  \<^bold>\<open>Threads\<close>

  \<^item> \<open>Thread\<close>: the first stack of a thread, \<^verbatim>\<open>arch/x86_64/thread.c\<close> and \<^verbatim>\<open>abi/stack.c\<close>.
  \<^item> \<open>Sched\<close>, \<open>Sched_Correct\<close>: threads, processes, the scheduler, the reaper, the start of the
    cores and the mutex (\<^verbatim>\<open>sys\<close>, \<^verbatim>\<open>common/sync/mutex.c\<close>).  The state is shared by all CPUs, an operation
    names the CPU it runs on, and a run is a sequence of yields on arbitrary CPUs.

  \<^bold>\<open>Programs and modules\<close>

  \<^item> \<open>Scalars\<close>: little-endian numbers, blocks and words in memory.
  \<^item> \<open>Elf\<close>, \<open>Elf_Correct\<close>: \<^verbatim>\<open>common/elf.h\<close>, \<^verbatim>\<open>elf.c\<close>, the table of kernel symbols \<^verbatim>\<open>sys/ksym.c\<close> and the tool
    \<^verbatim>\<open>src/tools/ksym.c\<close> that writes it.  Every symbol of the listing is found again.
  \<^item> \<open>Loader\<close>, \<open>Loader_Correct\<close>: the loader of modules, \<^verbatim>\<open>sys/module.c\<close>.  Relocation writes the prescribed values
    and nothing else.
  \<^item> \<open>Exec\<close>: the loader of programs, \<^verbatim>\<open>sys/exec.c\<close>.

  \<^bold>\<open>The processor\<close>

  \<^item> \<open>Asm\<close> (model), \<open>Asm_Correct\<close>, \<open>Isr_Correct\<close>: the assembly of x86_64 (\<^verbatim>\<open>sched.asm\<close>, \<^verbatim>\<open>syscall.asm\<close>, \<^verbatim>\<open>userspace.S\<close>,
    \<^verbatim>\<open>tables/idt.asm\<close>) as lists of instructions over the registers, the flags and the memory.  A thread resumes where it
    was suspended, a system call dispatches and returns, an interrupt is transparent.  What the C functions that
    the assembly calls have to keep is a hypothesis (\<open>keeps_frame\<close>, \<open>keeps_entry\<close>, \<open>keeps_int_frame\<close>): the
    calling convention of the compiler.
  \<^item> \<open>Thread_Start\<close>: the stack that \<open>Thread\<close> builds, run by the code of \<open>Asm\<close>.
  \<^item> \<open>Tables\<close>, \<open>Tables_Correct\<close>: \<^verbatim>\<open>tables/gdt.c\<close>, \<^verbatim>\<open>gdt.S\<close>, \<^verbatim>\<open>idt.c\<close>, \<^verbatim>\<open>tss.c\<close>, \<^verbatim>\<open>msr.h\<close>, \<^verbatim>\<open>cpu.c\<close>, \<^verbatim>\<open>cpuid.c\<close>, \<^verbatim>\<open>fpu.c\<close> and \<^verbatim>\<open>syscall.c\<close>,
    with the way the processor decodes descriptors, gates and the segments of system calls.
  \<^item> \<open>Interrupts\<close>: the dispatch of \<^verbatim>\<open>int.c\<close>.
  \<^item> \<open>Startup\<close>: \<^verbatim>\<open>entry.c\<close>, \<^verbatim>\<open>init.c\<close> and the table of system calls; the state when \<^verbatim>\<open>kernel_main\<close> is called.

  \<^bold>\<open>Devices\<close>

  \<^item> \<open>Acpi\<close>, \<open>Acpi_Correct\<close>: \<^verbatim>\<open>dev/acpi/acpi.c\<close> and \<^verbatim>\<open>devices/ioapic.c\<close>.  Tables of the firmware are found and read, and
    legacy interrupts are routed as they say.
  \<^item> \<open>Timer\<close>: \<^verbatim>\<open>devices/pit.c\<close>, \<^verbatim>\<open>pic.c\<close> and \<^verbatim>\<open>lapic.c\<close>.  The calibration ends with a bounded error.  The two timers are an
    argument; what their manuals say of each port and register (reload, latch, counting at a constant rate, stopping at 0)
    is the hypothesis \<open>timers_ok\<close>, which \<open>plain_timers\<close> meets.
  \<^item> \<open>Device\<close>, \<open>Device_Correct\<close>: buses, character and block devices, partition tables and PCI (\<^verbatim>\<open>dev\<close>).
  \<^item> \<open>Console\<close>: the frame buffer, the serial line, the log and panic.
  \<^item> \<open>Ahci\<close>, \<open>Ahci_Correct\<close>, \<open>Ps2kb\<close>: the modules \<^verbatim>\<open>src/modules/ahci\<close> and \<^verbatim>\<open>src/modules/ps2kb\<close>.

  \<^bold>\<open>Bounds and fuel\<close>

  There is no fuel: every loop is a total function or a partial one.  The partial ones have proofs that they end on
  well-formed data, except those that wait for a register of a device (in \<open>Ahci\<close> and \<open>Ps2kb\<close>), which end only if the device answers.
  Constants are those of the source (11 orders of blocks, 32 CPUs, magazines of 32 objects,
  pages of 4096 bytes).  The witnesses use a small memory map of four megabytes.

  \<^bold>\<open>Not modelled\<close>

  \<^item> Interleavings inside an operation, except in \<open>Spinlock\<close>: the operations hold a lock while
    they work on shared data.
  \<^item> \<^verbatim>\<open>kernel_main\<close> in \<^verbatim>\<open>main.c\<close>: it calls the initialisers of all parts, whose states are separate records here.
  \<^item> AArch64 beyond its page tables: the structure of the thread context that its assembly uses is an
    \<^verbatim>\<open>#error\<close> in the source, and the rest are accesses to registers.
  \<^item> \<^verbatim>\<open>dev/storage.c\<close>: it uses members of \<^verbatim>\<open>storage_device_t\<close> that the type does not have.
  \<^item> The module \<^verbatim>\<open>ext2\<close>, whose functions are empty, the user programs and the scripts of the build.
\<close>

end
